(* ===== verification/Prelude.thy ===== *)
theory Prelude
  imports Complex_Main "HOL-Library.AList" "HOL-Library.Char_ord" "HOL-Library.List_Lexorder"
    "HOL-Library.Multiset" "HOL-Library.Sublist"
begin

text \<open>
  Shared material of the development: the types that stand for JavaScript numbers, strings and
  \<^verbatim>\<open>Map\<close> objects, the rounding functions of \<^verbatim>\<open>Math\<close>, the stable sort behind
  \<^verbatim>\<open>Array.prototype.sort\<close>, the exception-and-state functions in which the asynchronous parts
  of the program are written, the generic invariant calculus for them, and the lemma collections.

  Numbers that the program only ever adds, compares and rounds (epoch milliseconds, intervals,
  token counts) are rationals: every finite double is one, and the rounding of double arithmetic is
  the one thing that is idealised. A \<^verbatim>\<open>Map\<close> is an association list in insertion order;
  \<^const>\<open>AList.update\<close> overwrites in place and appends otherwise, as \<^verbatim>\<open>Map.set\<close> does, and
  \<^const>\<open>AList.delete\<close> is \<^verbatim>\<open>Map.delete\<close>. Strings are lists of code units below 256.
\<close>

named_theorems pres_intros \<open>preservation rules of the exception-and-state combinators\<close>
named_theorems store_simps \<open>what each store operation does to each table\<close>

type_synonym number = rat
type_synonym ('k, 'v) jsmap = "('k \<times> 'v) list"

section \<open>Numbers\<close>

definition js_round :: "number \<Rightarrow> number" where
  "js_round x = of_int \<lfloor>x + 1 / 2\<rfloor>"

definition js_floor :: "number \<Rightarrow> number" where
  "js_floor x = of_int \<lfloor>x\<rfloor>"

definition js_ceil :: "number \<Rightarrow> number" where
  "js_ceil x = of_int \<lceil>x\<rceil>"

lemma js_round_mono: "x \<le> y \<Longrightarrow> js_round x \<le> js_round y"
  by (simp add: js_round_def floor_mono)

lemma js_round_of_int [simp]: "js_round (of_int n) = of_int n"
proof -
  have "\<lfloor>of_int n + 1 / 2 :: rat\<rfloor> = n" by linarith
  then show ?thesis by (simp add: js_round_def)
qed

lemma js_round_0 [simp]: "js_round 0 = 0"
  using js_round_of_int [of 0] by simp

lemma js_round_nonneg: "0 \<le> x \<Longrightarrow> 0 \<le> js_round x"
  using js_round_mono [of 0 x] by simp

lemma js_round_le_half: "js_round x \<le> x + 1 / 2"
  by (simp add: js_round_def)

lemma js_round_ge_half: "x - 1 / 2 < js_round x"
  unfolding js_round_def by linarith

lemma js_ceil_ge: "x \<le> js_ceil x"
  by (simp add: js_ceil_def)

lemma js_ceil_less: "js_ceil x < x + 1"
  unfolding js_ceil_def by linarith

lemma js_floor_le: "js_floor x \<le> x"
  by (simp add: js_floor_def)

lemma js_floor_gt: "x - 1 < js_floor x"
  unfolding js_floor_def by linarith

lemma js_floor_mono: "x \<le> y \<Longrightarrow> js_floor x \<le> js_floor y"
  by (simp add: js_floor_def floor_mono)

section \<open>Lists, options, maps\<close>

fun nth_opt :: "'a list \<Rightarrow> nat \<Rightarrow> 'a option" where
  "nth_opt [] i = None"
| "nth_opt (x # xs) 0 = Some x"
| "nth_opt (x # xs) (Suc i) = nth_opt xs i"

lemma nth_opt_Some: "nth_opt xs i = Some x \<longleftrightarrow> i < length xs \<and> xs ! i = x"
  by (induction xs i rule: nth_opt.induct) auto

definition opt_or :: "'a option \<Rightarrow> 'a \<Rightarrow> 'a" where
  \<comment> \<open>the nullish-coalescing operator\<close>
  "opt_or x d = (case x of None \<Rightarrow> d | Some v \<Rightarrow> v)"

lemma opt_or_simps [simp]: "opt_or None d = d" "opt_or (Some v) d = v"
  by (simp_all add: opt_or_def)

definition min_opt :: "number option \<Rightarrow> number \<Rightarrow> number option" where
  \<comment> \<open>\<^verbatim>\<open>x === null ? y : Math.min(x, y)\<close>\<close>
  "min_opt x y = (case x of None \<Rightarrow> Some y | Some v \<Rightarrow> Some (min v y))"

lemma min_opt_le: "min_opt x y = Some z \<Longrightarrow> z \<le> y"
  by (auto simp: min_opt_def split: option.splits)

lemma map_of_update [simp]: "map_of (AList.update k v m) = (map_of m)(k \<mapsto> v)"
  by (simp add: update_conv')

lemma map_of_AList_delete [simp]: "map_of (AList.delete k m) = (map_of m)(k := None)"
  by (rule delete_conv')

lemma set_update_subset: "set (AList.update k v m) \<subseteq> insert (k, v) (set m)"
  by (induction m) auto

lemma set_delete_subset: "set (AList.delete k m) \<subseteq> set m"
  by (induction m) auto

lemma keys_AList_delete: "fst ` set (AList.delete k m) = fst ` set m - {k}"
  by (induction m) auto

lemma distinct_keys_delete: "distinct (map fst m) \<Longrightarrow> distinct (map fst (AList.delete k m))"
  by (rule distinct_delete)

lemma distinct_keys_update: "distinct (map fst m) \<Longrightarrow> distinct (map fst (AList.update k v m))"
  by (rule distinct_update)

lemma filter_update_other:
  "\<lbrakk> k \<notin> fst ` set m; \<not> P (k, v) \<rbrakk> \<Longrightarrow> filter P (AList.update k v m) = filter P m"
  by (induction m) auto

lemma update_new: "k \<notin> fst ` set m \<Longrightarrow> AList.update k v m = m @ [(k, v)]"
  by (induction m) auto

text \<open>\<^verbatim>\<open>for (const x of xs) m.set(key(x), val(x))\<close>.\<close>

fun set_all :: "('a \<Rightarrow> 'k) \<Rightarrow> ('a \<Rightarrow> 'v) \<Rightarrow> 'a list \<Rightarrow> ('k, 'v) jsmap \<Rightarrow> ('k, 'v) jsmap" where
  "set_all key val [] m = m"
| "set_all key val (x # xs) m = set_all key val xs (AList.update (key x) (val x) m)"

fun delete_all :: "'k list \<Rightarrow> ('k, 'v) jsmap \<Rightarrow> ('k, 'v) jsmap" where
  "delete_all [] m = m"
| "delete_all (k # ks) m = delete_all ks (AList.delete k m)"

lemma distinct_set_all:
  "distinct (map fst m) \<Longrightarrow> distinct (map fst (set_all key val xs m))"
  by (induction xs arbitrary: m) (auto intro: distinct_update)

lemma distinct_delete_all:
  "distinct (map fst m) \<Longrightarrow> distinct (map fst (delete_all ks m))"
  by (induction ks arbitrary: m) (auto intro: distinct_delete)

lemma map_of_delete_all: "map_of (delete_all ks m) k = (if k \<in> set ks then None else map_of m k)"
  by (induction ks arbitrary: m) auto

lemma map_of_set_all_notin:
  "k \<notin> key ` set xs \<Longrightarrow> map_of (set_all key val xs m) k = map_of m k"
  by (induction xs arbitrary: m) auto

lemma map_of_set_all_in:
  "\<lbrakk> distinct (map key xs); x \<in> set xs \<rbrakk> \<Longrightarrow> map_of (set_all key val xs m) (key x) = Some (val x)"
proof (induction xs arbitrary: m)
  case (Cons y ys)
  then show ?case by (cases "x = y") (auto simp: map_of_set_all_notin)
qed simp

lemma map_of_set_all_SomeE:
  assumes "map_of (set_all key val xs m) k = Some v"
  obtains "map_of m k = Some v" | x where "x \<in> set xs" "key x = k" "val x = v"
  using assms
proof (induction xs arbitrary: m thesis)
  case (Cons y ys)
  from Cons.prems(3) have *: "map_of (set_all key val ys (AList.update (key y) (val y) m)) k = Some v"
    by simp
  show ?case
  proof (rule Cons.IH [OF _ _ *])
    assume "map_of (AList.update (key y) (val y) m) k = Some v"
    then show thesis using Cons.prems(1,2) by (auto split: if_splits)
  next
    fix x assume "x \<in> set ys" "key x = k" "val x = v"
    then show thesis using Cons.prems(2) by auto
  qed
qed simp

lemma keys_set_all: "fst ` set (set_all key val xs m) = fst ` set m \<union> key ` set xs"
  by (induction xs arbitrary: m) (auto simp: dom_update)

lemma keys_delete_all: "fst ` set (delete_all ks m) = fst ` set m - set ks"
  by (induction ks arbitrary: m) (auto simp: keys_AList_delete)

text \<open>\<^verbatim>\<open>Array.prototype.sort\<close> with a numeric key comparison is a stable sort.\<close>

definition js_sort_by :: "('a \<Rightarrow> 'k::linorder) \<Rightarrow> 'a list \<Rightarrow> 'a list" where
  "js_sort_by f xs = sort_key f xs"

lemma js_sort_by_set [simp]: "set (js_sort_by f xs) = set xs"
  by (simp add: js_sort_by_def)

lemma js_sort_by_sorted [simp]: "sorted (map f (js_sort_by f xs))"
  by (simp add: js_sort_by_def)

lemma js_sort_by_mset [simp]: "mset (js_sort_by f xs) = mset xs"
  by (simp add: js_sort_by_def)

lemma js_sort_by_length [simp]: "length (js_sort_by f xs) = length xs"
  by (simp add: js_sort_by_def)

lemma sorted_map_take: "sorted (map f xs) \<Longrightarrow> sorted (map f (take n xs))"
  by (metis sorted_wrt_take take_map)

lemma sorted_map_filter: "sorted (map f xs) \<Longrightarrow> sorted (map f (filter P xs))"
  by (rule sorted_filter)

section \<open>Functions that change a state and may throw\<close>

text \<open>
  An \<^verbatim>\<open>async\<close> function of the program is a function of the state that returns either the
  thrown value (\<^const>\<open>Inl\<close>) or the result (\<^const>\<open>Inr\<close>), and the new state: a \<^verbatim>\<open>throw\<close> keeps the
  state changes made before it.
\<close>

type_synonym ('w, 'e, 'a) io = "'w \<Rightarrow> ('e + 'a) \<times> 'w"

definition retE :: "'a \<Rightarrow> ('w, 'e, 'a) io" where
  "retE x = (\<lambda>w. (Inr x, w))"

definition throwE :: "'e \<Rightarrow> ('w, 'e, 'a) io" where
  "throwE e = (\<lambda>w. (Inl e, w))"

definition bindE :: "('w, 'e, 'a) io \<Rightarrow> ('a \<Rightarrow> ('w, 'e, 'b) io) \<Rightarrow> ('w, 'e, 'b) io" where
  "bindE m f = (\<lambda>w. case m w of (Inl e, w') \<Rightarrow> (Inl e, w') | (Inr x, w') \<Rightarrow> f x w')"

definition catchE :: "('w, 'e, 'a) io \<Rightarrow> ('e \<Rightarrow> ('w, 'e, 'a) io) \<Rightarrow> ('w, 'e, 'a) io" where
  "catchE m h = (\<lambda>w. case m w of (Inl e, w') \<Rightarrow> h e w' | (Inr x, w') \<Rightarrow> (Inr x, w'))"

definition getsE :: "('w \<Rightarrow> 'a) \<Rightarrow> ('w, 'e, 'a) io" where
  "getsE f = (\<lambda>w. (Inr (f w), w))"

definition modifyE :: "('w \<Rightarrow> 'w) \<Rightarrow> ('w, 'e, unit) io" where
  "modifyE f = (\<lambda>w. (Inr (), f w))"

definition whenE :: "bool \<Rightarrow> ('w, 'e, unit) io \<Rightarrow> ('w, 'e, unit) io" where
  "whenE b m = (if b then m else retE ())"

lemmas io_defs = retE_def throwE_def bindE_def catchE_def getsE_def modifyE_def whenE_def

lemma bindE_retE [simp]: "bindE (retE x) f = f x"
  by (simp add: io_defs)

lemma bindE_throwE [simp]: "bindE (throwE e) f = throwE e"
  by (simp add: io_defs)

lemma bindE_assoc: "bindE (bindE m f) g = bindE m (\<lambda>x. bindE (f x) g)"
  by (rule ext) (auto simp: io_defs split: prod.splits sum.splits)

lemma bindE_Inr: "bindE m f w = (Inr x, w') \<longleftrightarrow> (\<exists>y w1. m w = (Inr y, w1) \<and> f y w1 = (Inr x, w'))"
  by (auto simp: bindE_def split: prod.splits sum.splits)

text \<open>
  \<open>preserves R m\<close>: whatever \<open>m\<close> returns or throws, its final state is related to its initial
  state by \<open>R\<close>. For a reflexive and transitive \<open>R\<close> the combinators compose.
\<close>

definition preserves :: "('w \<Rightarrow> 'w \<Rightarrow> bool) \<Rightarrow> ('w, 'e, 'a) io \<Rightarrow> bool" where
  "preserves R m \<longleftrightarrow> (\<forall>w. R w (snd (m w)))"

lemma preservesD: "preserves R m \<Longrightarrow> m w = (r, w') \<Longrightarrow> R w w'"
  by (metis preserves_def snd_conv)

lemma preservesI: "(\<And>w r w'. m w = (r, w') \<Longrightarrow> R w w') \<Longrightarrow> preserves R m"
  by (metis preserves_def surjective_pairing)

locale frame_rel =
  fixes R :: "'w \<Rightarrow> 'w \<Rightarrow> bool"
  assumes frame_refl: "R w w"
    and frame_trans: "R u v \<Longrightarrow> R v w \<Longrightarrow> R u w"
begin

lemma pres_ret: "preserves R (retE x)"
  by (simp add: preserves_def io_defs frame_refl)

lemma pres_throw: "preserves R (throwE e)"
  by (simp add: preserves_def io_defs frame_refl)

lemma pres_gets: "preserves R (getsE f)"
  by (simp add: preserves_def io_defs frame_refl)

lemma pres_bind: "\<lbrakk> preserves R m; \<And>x. preserves R (f x) \<rbrakk> \<Longrightarrow> preserves R (bindE m f)"
  unfolding preserves_def bindE_def
  by (auto split: prod.splits sum.splits) (metis frame_trans snd_conv)+

lemma pres_catch: "\<lbrakk> preserves R m; \<And>e. preserves R (h e) \<rbrakk> \<Longrightarrow> preserves R (catchE m h)"
  unfolding preserves_def catchE_def
  by (auto split: prod.splits sum.splits) (metis frame_trans snd_conv)+

lemma pres_when: "preserves R m \<Longrightarrow> preserves R (whenE b m)"
  by (simp add: whenE_def pres_ret)

lemma pres_modify: "(\<And>w. R w (f w)) \<Longrightarrow> preserves R (modifyE f)"
  by (simp add: preserves_def modifyE_def)

lemma pres_if: "\<lbrakk> b \<Longrightarrow> preserves R m; \<not> b \<Longrightarrow> preserves R n \<rbrakk> \<Longrightarrow> preserves R (if b then m else n)"
  by simp

lemma pres_option:
  "\<lbrakk> preserves R m; \<And>x. preserves R (f x) \<rbrakk> \<Longrightarrow> preserves R (case z of None \<Rightarrow> m | Some x \<Rightarrow> f x)"
  by (cases z) simp_all

lemma pres_sum:
  "\<lbrakk> \<And>x. preserves R (f x); \<And>x. preserves R (g x) \<rbrakk>
    \<Longrightarrow> preserves R (case z of Inl x \<Rightarrow> f x | Inr y \<Rightarrow> g y)"
  by (cases z) simp_all

lemma pres_prod: "(\<And>x y. preserves R (f x y)) \<Longrightarrow> preserves R (case z of (x, y) \<Rightarrow> f x y)"
  by (cases z) simp

lemma pres_let: "(\<And>x. preserves R (f x)) \<Longrightarrow> preserves R (let x = z in f x)"
  by simp

lemmas pres_rules = pres_ret pres_throw pres_gets pres_bind pres_catch pres_when pres_if
  pres_option pres_sum pres_prod pres_let

end

text \<open>\<open>yields P m\<close>: every result that \<open>m\<close> returns satisfies \<open>P\<close>.\<close>

definition yields :: "('a \<Rightarrow> bool) \<Rightarrow> ('w, 'e, 'a) io \<Rightarrow> bool" where
  "yields P m \<longleftrightarrow> (\<forall>w x w'. m w = (Inr x, w') \<longrightarrow> P x)"

lemma yieldsD: "yields P m \<Longrightarrow> m w = (Inr x, w') \<Longrightarrow> P x"
  unfolding yields_def by blast

lemma yields_ret: "P x \<Longrightarrow> yields P (retE x)"
  by (simp add: yields_def retE_def)

lemma yields_throw: "yields P (throwE e)"
  by (simp add: yields_def throwE_def)

lemma yields_bind: "(\<And>x. yields P (f x)) \<Longrightarrow> yields P (bindE m f)"
  unfolding yields_def bindE_def by (auto split: prod.splits sum.splits)

lemma yields_if: "\<lbrakk> b \<Longrightarrow> yields P m; \<not> b \<Longrightarrow> yields P n \<rbrakk> \<Longrightarrow> yields P (if b then m else n)"
  by simp

lemma yields_option:
  "\<lbrakk> z = None \<Longrightarrow> yields P m; \<And>x. z = Some x \<Longrightarrow> yields P (f x) \<rbrakk> \<Longrightarrow> yields P (case z of None \<Rightarrow> m | Some x \<Rightarrow> f x)"
  by (cases z) simp_all

lemma yields_sum:
  "\<lbrakk> \<And>x. z = Inl x \<Longrightarrow> yields P (f x); \<And>x. z = Inr x \<Longrightarrow> yields P (g x) \<rbrakk>
    \<Longrightarrow> yields P (case z of Inl x \<Rightarrow> f x | Inr y \<Rightarrow> g y)"
  by (cases z) simp_all

lemmas yields_rules = yields_ret yields_throw yields_bind yields_if yields_option yields_sum

section \<open>Transition systems\<close>

text \<open>What every component with a step relation shares: an invariant of the initial states that every
  step keeps holds in every state a run reaches.\<close>

locale transition_inv =
  fixes step :: "'s \<Rightarrow> 's \<Rightarrow> bool"
    and inv :: "'s \<Rightarrow> bool"
  assumes step_inv: "inv s \<Longrightarrow> step s t \<Longrightarrow> inv t"
begin

lemma run_inv: "step\<^sup>*\<^sup>* s t \<Longrightarrow> inv s \<Longrightarrow> inv t"
  by (induction rule: rtranclp_induct) (auto intro: step_inv)

end

end
