(* ===== verification/Json.thy ===== *)
theory Json
  imports Prelude
begin

text \<open>
  The part of the JavaScript standard library that the cursors, the fingerprints and the sinks rely
  on: decimal numbers with \<^verbatim>\<open>Number::toString\<close>, JSON values with \<^verbatim>\<open>JSON.stringify\<close> and
  \<^verbatim>\<open>JSON.parse\<close>. A finite number is its sign, decimal mantissa and decimal exponent, the data
  from which the language standard defines the printed form; the binary rounding of a double is not
  part of the model. The main result is that parsing a printed value gives it back
  (\<open>json_parse_str\<close>), so printing is injective.
\<close>

section \<open>Decimal numbers\<close>

definition digit_char :: "nat \<Rightarrow> char" where
  "digit_char d = char_of (48 + d)"

definition is_digit :: "char \<Rightarrow> bool" where
  "is_digit c \<longleftrightarrow> 48 \<le> (of_char c :: nat) \<and> (of_char c :: nat) \<le> 57"

definition digit_val :: "char \<Rightarrow> nat" where
  "digit_val c = of_char c - 48"

fun nat_str :: "nat \<Rightarrow> string" where
  "nat_str n = (if n < 10 then [digit_char n] else nat_str (n div 10) @ [digit_char (n mod 10)])"

declare nat_str.simps [simp del]

definition str_nat :: "string \<Rightarrow> nat" where
  "str_nat s = foldl (\<lambda>a c. 10 * a + digit_val c) 0 s"

definition int_str :: "int \<Rightarrow> string" where
  "int_str i = (if i < 0 then CHR ''-'' # nat_str (nat (- i)) else nat_str (nat i))"

lemma digit_char_digit: "d < 10 \<Longrightarrow> is_digit (digit_char d)"
  by (simp add: is_digit_def digit_char_def)

lemma digit_val_char: "d < 10 \<Longrightarrow> digit_val (digit_char d) = d"
  by (simp add: digit_val_def digit_char_def)

lemma nat_str_digits: "\<forall>c \<in> set (nat_str n). is_digit c"
proof (induction n rule: nat_str.induct)
  case (1 n)
  then show ?case by (subst nat_str.simps) (auto simp: digit_char_digit)
qed

lemma nat_str_nonempty [simp]: "nat_str n \<noteq> []"
  by (subst nat_str.simps) simp

lemma str_nat_snoc: "str_nat (s @ [c]) = 10 * str_nat s + digit_val c"
  by (simp add: str_nat_def)

lemma str_nat_append: "str_nat (s @ t) = str_nat s * 10 ^ length t + str_nat t"
proof (induction t rule: rev_induct)
  case Nil
  then show ?case by (simp add: str_nat_def)
next
  case (snoc c t)
  then show ?case
    by (simp only: append_assoc [symmetric] str_nat_snoc) (simp add: algebra_simps)
qed

lemma str_nat_nat_str [simp]: "str_nat (nat_str n) = n"
proof (induction n rule: nat_str.induct)
  case (1 n)
  show ?case
  proof (cases "n < 10")
    case True
    then show ?thesis by (subst nat_str.simps) (simp add: str_nat_def digit_val_char)
  next
    case False
    with "1" have "str_nat (nat_str (n div 10)) = n div 10" by simp
    with False show ?thesis
      by (subst nat_str.simps) (simp add: str_nat_snoc digit_val_char)
  qed
qed

lemma nat_str_inj: "nat_str m = nat_str n \<longleftrightarrow> m = n"
  by (metis str_nat_nat_str)

lemma is_digit_minus [simp]: "\<not> is_digit CHR ''-''" "\<not> is_digit CHR ''.''" "\<not> is_digit CHR ''e''"
  "\<not> is_digit CHR ''+''" "\<not> is_digit CHR ''E''"
  by (simp_all add: is_digit_def)

lemma nat_str_hd_digit: "is_digit (hd (nat_str n))"
  using nat_str_digits [of n] hd_in_set [OF nat_str_nonempty [of n]] by blast

lemma int_str_inj: "int_str i = int_str j \<longleftrightarrow> i = j"
proof
  assume *: "int_str i = int_str j"
  have "nat_str n \<noteq> CHR ''-'' # s" for n s
    using nat_str_hd_digit [of n] by auto
  then have "(i < 0) = (j < 0)"
    using * unfolding int_str_def by (auto split: if_splits) metis+
  then show "i = j"
    using * by (auto simp: int_str_def nat_str_inj split: if_splits)
qed simp

text \<open>The first digit is zero only for zero, so a positive number prints without leading zeros.\<close>

lemma nat_str_hd_zero: "0 < n \<Longrightarrow> hd (nat_str n) \<noteq> CHR ''0''"
proof (induction n rule: nat_str.induct)
  case (1 n)
  show ?case
  proof (cases "n < 10")
    case True
    with "1.prems" have "digit_char n \<noteq> CHR ''0''"
      using digit_val_char [of n] by (auto simp: digit_val_def)
    with True show ?thesis by (subst nat_str.simps) simp
  next
    case False
    with "1.IH" have "hd (nat_str (n div 10)) \<noteq> CHR ''0''" by simp
    with False show ?thesis by (subst nat_str.simps) simp
  qed
qed

datatype jsnum = NaN | PosInf | NegInf | Dec (dneg: bool) (dmant: nat) (dexp: int)

fun wf_num :: "jsnum \<Rightarrow> bool" where
  "wf_num (Dec neg m e) = (if m = 0 then \<not> neg \<and> e = 0 else m mod 10 \<noteq> 0)"
| "wf_num _ = True"

fun finite_num :: "jsnum \<Rightarrow> bool" where
  "finite_num (Dec _ _ _) = True"
| "finite_num _ = False"

fun num_val :: "jsnum \<Rightarrow> number" where
  "num_val (Dec neg m e) = (if neg then - 1 else 1) * of_nat m * 10 powi e"
| "num_val _ = 0"

text \<open>\<^verbatim>\<open>Number::toString\<close>: \<open>ds\<close> the digits of the mantissa, \<open>n\<close> the position of the point.\<close>

definition exp_part :: "int \<Rightarrow> string" where
  "exp_part x = (if x < 0 then ''e-'' @ nat_str (nat (- x)) else ''e+'' @ nat_str (nat x))"

definition dec_str :: "nat \<Rightarrow> int \<Rightarrow> string" where
  "dec_str m e =
     (let ds = nat_str m; k = int (length ds); n = k + e in
      if k \<le> n \<and> n \<le> 21 then ds @ replicate (nat (n - k)) CHR ''0''
      else if 0 < n \<and> n \<le> 21 then take (nat n) ds @ ''.'' @ drop (nat n) ds
      else if - 6 < n \<and> n \<le> 0 then ''0.'' @ replicate (nat (- n)) CHR ''0'' @ ds
      else if k = 1 then ds @ exp_part (n - 1)
      else take 1 ds @ ''.'' @ drop 1 ds @ exp_part (n - 1))"

fun num_str :: "jsnum \<Rightarrow> string" where
  "num_str NaN = ''NaN''"
| "num_str PosInf = ''Infinity''"
| "num_str NegInf = ''-Infinity''"
| "num_str (Dec neg m e) =
     (if m = 0 then ''0'' else (if neg then ''-'' else '''') @ dec_str m e)"

text \<open>Normalise mantissa and exponent: trailing zeros of the mantissa move into the exponent.\<close>

fun mk_num :: "bool \<Rightarrow> nat \<Rightarrow> int \<Rightarrow> jsnum" where
  "mk_num neg m e =
     (if m = 0 then Dec False 0 0
      else if m mod 10 = 0 then mk_num neg (m div 10) (e + 1)
      else Dec neg m e)"

declare mk_num.simps [simp del]

lemma mk_num_wf: "wf_num (mk_num neg m e)"
proof (induction neg m e rule: mk_num.induct)
  case (1 neg m e)
  then show ?case by (subst mk_num.simps) auto
qed

lemma mk_num_shift: "m mod 10 \<noteq> 0 \<Longrightarrow> mk_num neg (m * 10 ^ j) e = Dec neg m (e + int j)"
proof (induction j arbitrary: e)
  case 0
  then have "m \<noteq> 0" by (metis mod_0)
  with 0 show ?case by (subst mk_num.simps) simp
next
  case (Suc j)
  then have "m \<noteq> 0" by (metis mod_0)
  then have "mk_num neg (m * 10 ^ Suc j) e = mk_num neg (m * 10 ^ j) (e + 1)"
    by (subst mk_num.simps) (auto simp: mult.assoc [symmetric])
  with Suc show ?case by (simp add: algebra_simps)
qed

lemma mk_num_id: "m mod 10 \<noteq> 0 \<Longrightarrow> mk_num neg m e = Dec neg m e"
  using mk_num_shift [of m neg 0 e] by simp

lemma mk_num_zero: "mk_num neg 0 e = Dec False 0 0"
  by (subst mk_num.simps) simp

section \<open>JSON values and \<^verbatim>\<open>JSON.stringify\<close>\<close>

datatype json = JNull | JBool bool | JNum jsnum | JStr string | JArr "json list"
  | JObj "(string \<times> json) list"

definition hex_char :: "nat \<Rightarrow> char" where
  "hex_char d = (if d < 10 then char_of (48 + d) else char_of (87 + d))"

definition esc_char :: "char \<Rightarrow> string" where
  "esc_char c =
     (if c = CHR 0x22 then [CHR 0x5C, CHR 0x22]
      else if c = CHR 0x5C then [CHR 0x5C, CHR 0x5C]
      else if c = CHR 0x08 then [CHR 0x5C, CHR ''b'']
      else if c = CHR 0x09 then [CHR 0x5C, CHR ''t'']
      else if c = CHR 0x0A then [CHR 0x5C, CHR ''n'']
      else if c = CHR 0x0C then [CHR 0x5C, CHR ''f'']
      else if c = CHR 0x0D then [CHR 0x5C, CHR ''r'']
      else if (of_char c :: nat) < 32 then
        [CHR 0x5C, CHR ''u'', CHR ''0'', CHR ''0'', hex_char (of_char c div 16),
         hex_char (of_char c mod 16)]
      else [c])"

definition quote :: "string \<Rightarrow> string" where
  "quote s = CHR 0x22 # concat (map esc_char s) @ [CHR 0x22]"

fun sep_join :: "string \<Rightarrow> string list \<Rightarrow> string" where
  "sep_join sep [] = []"
| "sep_join sep [x] = x"
| "sep_join sep (x # y # ys) = x @ sep @ sep_join sep (y # ys)"

fun json_str :: "json \<Rightarrow> string" where
  "json_str JNull = ''null''"
| "json_str (JBool b) = (if b then ''true'' else ''false'')"
| "json_str (JNum x) = (if finite_num x then num_str x else ''null'')"
| "json_str (JStr s) = quote s"
| "json_str (JArr vs) = ''['' @ sep_join '','' (map json_str vs) @ '']''"
| "json_str (JObj ms) =
     ''{'' @ sep_join '','' (map (\<lambda>(k, v). quote k @ '':'' @ json_str v) ms) @ ''}''"

section \<open>\<^verbatim>\<open>JSON.parse\<close>\<close>

definition is_ws :: "char \<Rightarrow> bool" where
  "is_ws c \<longleftrightarrow> c = CHR '' '' \<or> c = CHR 0x09 \<or> c = CHR 0x0A \<or> c = CHR 0x0D"

definition skip_ws :: "string \<Rightarrow> string" where
  "skip_ws s = dropWhile is_ws s"

definition hex_val :: "char \<Rightarrow> nat option" where
  "hex_val c =
     (let n = (of_char c :: nat) in
      if 48 \<le> n \<and> n \<le> 57 then Some (n - 48)
      else if 97 \<le> n \<and> n \<le> 102 then Some (n - 87)
      else if 65 \<le> n \<and> n \<le> 70 then Some (n - 55)
      else None)"

definition unesc_short :: "char \<Rightarrow> char option" where
  "unesc_short c =
     (if c = CHR 0x22 \<or> c = CHR 0x5C \<or> c = CHR ''/'' then Some c
      else if c = CHR ''b'' then Some (CHR 0x08)
      else if c = CHR ''t'' then Some (CHR 0x09)
      else if c = CHR ''n'' then Some (CHR 0x0A)
      else if c = CHR ''f'' then Some (CHR 0x0C)
      else if c = CHR ''r'' then Some (CHR 0x0D)
      else None)"

text \<open>A repeated member name keeps its first position and its last value, as in an object. The
  characters of a string literal are read after the opening quote, up to the closing one. An
  escape above \<^verbatim>\<open>\u00ff\<close> has no code unit in the model and is refused.\<close>

fun parse_chars :: "string \<Rightarrow> (string \<times> string) option" where
  "parse_chars [] = None"
| "parse_chars (c # cs) =
     (if c = CHR 0x22 then Some ([], cs)
      else if c = CHR 0x5C then
        (case cs of
           [] \<Rightarrow> None
         | d # ds \<Rightarrow>
             if d = CHR ''u'' then
               (case ds of
                  h1 # h2 # h3 # h4 # rest \<Rightarrow>
                    (case (hex_val h1, hex_val h2, hex_val h3, hex_val h4) of
                       (Some 0, Some 0, Some x, Some y) \<Rightarrow>
                         map_option (\<lambda>(s, r). (char_of (16 * x + y) # s, r)) (parse_chars rest)
                     | _ \<Rightarrow> None)
                | _ \<Rightarrow> None)
             else (case unesc_short d of
                     None \<Rightarrow> None
                   | Some e \<Rightarrow> map_option (\<lambda>(s, r). (e # s, r)) (parse_chars ds)))
      else if (of_char c :: nat) < 32 then None
      else map_option (\<lambda>(s, r). (c # s, r)) (parse_chars cs))"

definition parse_frac :: "string \<Rightarrow> (string \<times> string) option" where
  "parse_frac s =
     (case s of
        c # r \<Rightarrow>
          if c = CHR ''.'' then
            (let ds = takeWhile is_digit r in
             if ds = [] then None else Some (ds, dropWhile is_digit r))
          else Some ([], s)
      | [] \<Rightarrow> Some ([], s))"

definition exp_digits :: "bool \<Rightarrow> string \<Rightarrow> (int \<times> string) option" where
  "exp_digits neg r =
     (let ds = takeWhile is_digit r; x = int (str_nat ds) in
      if ds = [] then None else Some (if neg then - x else x, dropWhile is_digit r))"

definition parse_exp :: "string \<Rightarrow> (int \<times> string) option" where
  "parse_exp s =
     (case s of
        c # r \<Rightarrow>
          if c = CHR ''e'' \<or> c = CHR ''E'' then
            (case r of
               d # r' \<Rightarrow> if d = CHR ''+'' then exp_digits False r'
                          else if d = CHR ''-'' then exp_digits True r'
                          else exp_digits False r
             | [] \<Rightarrow> None)
          else Some (0, s)
      | [] \<Rightarrow> Some (0, s))"

definition parse_unsigned :: "bool \<Rightarrow> string \<Rightarrow> (jsnum \<times> string) option" where
  "parse_unsigned neg s =
     (let ip = takeWhile is_digit s; r = dropWhile is_digit s in
      if ip = [] \<or> (hd ip = CHR ''0'' \<and> tl ip \<noteq> []) then None
      else case parse_frac r of
        None \<Rightarrow> None
      | Some (fp, r2) \<Rightarrow>
          (case parse_exp r2 of
             None \<Rightarrow> None
           | Some (x, r3) \<Rightarrow> Some (mk_num neg (str_nat (ip @ fp)) (x - int (length fp)), r3)))"

definition parse_num :: "string \<Rightarrow> (jsnum \<times> string) option" where
  "parse_num s =
     (case s of
        c # r \<Rightarrow> if c = CHR ''-'' then parse_unsigned True r else parse_unsigned False s
      | [] \<Rightarrow> None)"

definition parse_lit :: "string \<Rightarrow> 'a \<Rightarrow> string \<Rightarrow> ('a \<times> string) option" where
  "parse_lit lit v s = (if take (length lit) s = lit then Some (v, drop (length lit) s) else None)"

fun parse_value :: "nat \<Rightarrow> string \<Rightarrow> (json \<times> string) option"
  and parse_items :: "nat \<Rightarrow> string \<Rightarrow> (json list \<times> string) option"
  and parse_members :: "nat \<Rightarrow> string \<Rightarrow> ((string \<times> json) list \<times> string) option" where
  "parse_value 0 s = None"
| "parse_value (Suc f) s =
     (case skip_ws s of
        [] \<Rightarrow> None
      | c # r \<Rightarrow>
          if c = CHR ''n'' then parse_lit ''null'' JNull (c # r)
          else if c = CHR ''t'' then parse_lit ''true'' (JBool True) (c # r)
          else if c = CHR ''f'' then parse_lit ''false'' (JBool False) (c # r)
          else if c = CHR 0x22 then map_option (\<lambda>(t, r'). (JStr t, r')) (parse_chars r)
          else if c = CHR ''['' then
            (case skip_ws r of
               [] \<Rightarrow> None
             | d # r' \<Rightarrow> if d = CHR '']'' then Some (JArr [], r')
                          else map_option (\<lambda>(vs, r''). (JArr vs, r'')) (parse_items f r))
          else if c = CHR ''{'' then
            (case skip_ws r of
               [] \<Rightarrow> None
             | d # r' \<Rightarrow> if d = CHR ''}'' then Some (JObj [], r')
                          else map_option (\<lambda>(ms, r''). (JObj (set_all fst snd ms []), r''))
                                 (parse_members f r))
          else map_option (\<lambda>(x, r'). (JNum x, r')) (parse_num (c # r)))"
| "parse_items 0 s = None"
| "parse_items (Suc f) s =
     (case parse_value f s of
        None \<Rightarrow> None
      | Some (v, r) \<Rightarrow>
          (case skip_ws r of
             [] \<Rightarrow> None
           | c # r' \<Rightarrow>
               if c = CHR '','' then map_option (\<lambda>(vs, r''). (v # vs, r'')) (parse_items f r')
               else if c = CHR '']'' then Some ([v], r')
               else None))"
| "parse_members 0 s = None"
| "parse_members (Suc f) s =
     (case skip_ws s of
        [] \<Rightarrow> None
      | q # r \<Rightarrow>
          if q \<noteq> CHR 0x22 then None
          else case parse_chars r of
            None \<Rightarrow> None
          | Some (k, r1) \<Rightarrow>
              (case skip_ws r1 of
                 [] \<Rightarrow> None
               | c # r2 \<Rightarrow>
                   if c \<noteq> CHR '':'' then None
                   else case parse_value f r2 of
                     None \<Rightarrow> None
                   | Some (v, r3) \<Rightarrow>
                       (case skip_ws r3 of
                          [] \<Rightarrow> None
                        | d # r4 \<Rightarrow>
                            if d = CHR '','' then
                              map_option (\<lambda>(ms, r5). ((k, v) # ms, r5)) (parse_members f r4)
                            else if d = CHR ''}'' then Some ([(k, v)], r4)
                            else None)))"

text \<open>Every nested call is on a shorter text, so twice the length of the text is enough fuel.\<close>

definition json_parse :: "string \<Rightarrow> json option" where
  "json_parse s =
     (case parse_value (2 * length s + 2) s of
        Some (v, r) \<Rightarrow> if skip_ws r = [] then Some v else None
      | None \<Rightarrow> None)"

section \<open>Parsing what was printed\<close>

fun wf_json :: "json \<Rightarrow> bool" where
  "wf_json (JNum x) = (finite_num x \<and> wf_num x)"
| "wf_json (JArr vs) = list_all wf_json vs"
| "wf_json (JObj ms) = (distinct (map fst ms) \<and> list_all (\<lambda>(k, v). wf_json v) ms)"
| "wf_json _ = True"

definition num_stops :: "string \<Rightarrow> bool" where
  "num_stops r \<longleftrightarrow> r = [] \<or> (\<not> is_digit (hd r) \<and> hd r \<noteq> CHR ''.'' \<and> hd r \<noteq> CHR ''e'' \<and> hd r \<noteq> CHR ''E'')"

lemma num_stops_digit: "num_stops r \<Longrightarrow> is_digit (hd r) \<Longrightarrow> r = []"
  by (auto simp: num_stops_def)

lemma set_all_distinct: "distinct (map fst (m @ ms)) \<Longrightarrow> set_all fst snd ms m = m @ ms"
  by (induction ms arbitrary: m) (auto simp: update_new image_iff)

lemma hex_val_char: "d < 16 \<Longrightarrow> hex_val (hex_char d) = Some d"
  by (auto simp: hex_val_def hex_char_def Let_def)

lemma parse_chars_u:
  assumes "n < 32"
  shows "parse_chars (CHR 0x5C # CHR ''u'' # CHR ''0'' # CHR ''0'' # hex_char (n div 16)
           # hex_char (n mod 16) # t) = map_option (\<lambda>(s, r). (char_of n # s, r)) (parse_chars t)"
proof -
  have "hex_val (CHR ''0'') = Some 0" by (simp add: hex_val_def)
  moreover have "hex_val (hex_char (n div 16)) = Some (n div 16)"
    "hex_val (hex_char (n mod 16)) = Some (n mod 16)"
    using assms by (auto intro: hex_val_char)
  ultimately show ?thesis by simp
qed

lemma parse_chars_short:
  "\<lbrakk> unesc_short d = Some e; d \<noteq> CHR ''u'' \<rbrakk>
    \<Longrightarrow> parse_chars (CHR 0x5C # d # t) = map_option (\<lambda>(s, r). (e # s, r)) (parse_chars t)"
  by simp

lemma parse_chars_plain:
  "\<lbrakk> c \<noteq> CHR 0x22; c \<noteq> CHR 0x5C; 32 \<le> (of_char c :: nat) \<rbrakk>
    \<Longrightarrow> parse_chars (c # t) = map_option (\<lambda>(s, r). (c # s, r)) (parse_chars t)"
  by simp

declare parse_chars.simps(2) [simp del]

lemma unesc_short_simps: "unesc_short CHR 0x22 = Some CHR 0x22" "unesc_short CHR 0x5C = Some CHR 0x5C"
  "unesc_short CHR ''b'' = Some CHR 0x08" "unesc_short CHR ''t'' = Some CHR 0x09"
  "unesc_short CHR ''n'' = Some CHR 0x0A" "unesc_short CHR ''f'' = Some CHR 0x0C"
  "unesc_short CHR ''r'' = Some CHR 0x0D"
  by (simp_all add: unesc_short_def)

lemma parse_chars_esc:
  "parse_chars (esc_char c @ t) = map_option (\<lambda>(s, r). (c # s, r)) (parse_chars t)"
proof -
  have short: "parse_chars ([CHR 0x5C, d] @ t) = map_option (\<lambda>(s, r). (c # s, r)) (parse_chars t)"
    if "unesc_short d = Some c" "d \<noteq> CHR ''u''" for d
    using parse_chars_short [OF that, of t] by (simp only: append_Cons append_Nil)
  have u: "parse_chars ([CHR 0x5C, CHR ''u'', CHR ''0'', CHR ''0'', hex_char (of_char c div 16),
      hex_char (of_char c mod 16)] @ t) = map_option (\<lambda>(s, r). (c # s, r)) (parse_chars t)"
    if "(of_char c :: nat) < 32"
    using parse_chars_u [OF that, of t] by (simp only: append_Cons append_Nil char_of_char)
  have plain: "parse_chars ([c] @ t) = map_option (\<lambda>(s, r). (c # s, r)) (parse_chars t)"
    if "c \<noteq> CHR 0x22" "c \<noteq> CHR 0x5C" "\<not> (of_char c :: nat) < 32"
    using parse_chars_plain [OF that(1,2), of t] that(3) by (simp only: append_Cons append_Nil not_less)
  define special where "special = [CHR 0x22, CHR 0x5C, CHR 0x08, CHR 0x09, CHR 0x0A, CHR 0x0C, CHR 0x0D]"
  show ?thesis
  proof (cases "c \<in> set special")
    case True
    then have "\<exists>d. esc_char c = [CHR 0x5C, d] \<and> unesc_short d = Some c \<and> d \<noteq> CHR ''u''"
      unfolding special_def by (auto simp: esc_char_def unesc_short_simps)
    then show ?thesis using short by metis
  next
    case False
    then have "esc_char c = (if (of_char c :: nat) < 32 then [CHR 0x5C, CHR ''u'', CHR ''0'', CHR ''0'',
        hex_char (of_char c div 16), hex_char (of_char c mod 16)] else [c])"
      unfolding special_def by (simp add: esc_char_def)
    moreover have "c \<noteq> CHR 0x22" "c \<noteq> CHR 0x5C" using False by (auto simp: special_def)
    ultimately show ?thesis using u plain by metis
  qed
qed

lemma parse_chars_quote: "parse_chars (concat (map esc_char s) @ CHR 0x22 # r) = Some (s, r)"
proof (induction s)
  case Nil
  show ?case by (simp only: list.map concat.simps append_Nil parse_chars.simps simp_thms if_True)
next
  case (Cons c s)
  have "parse_chars (concat (map esc_char (c # s)) @ CHR 0x22 # r)
      = parse_chars (esc_char c @ (concat (map esc_char s) @ CHR 0x22 # r))"
    by (simp only: list.map concat.simps append_assoc)
  then show ?case by (simp only: parse_chars_esc Cons.IH option.map prod.case)
qed

lemma quote_inj: "quote s = quote t \<longleftrightarrow> s = t"
proof
  assume "quote s = quote t"
  then have "parse_chars (tl (quote s)) = parse_chars (tl (quote t))" by simp
  then have "Some (s, [] :: string) = Some (t, [])"
    by (simp only: quote_def list.sel parse_chars_quote)
  then show "s = t" by simp
qed simp

text \<open>Numbers.\<close>

lemma span_digits:
  assumes "\<forall>c \<in> set ds. is_digit c" and "r = [] \<or> \<not> is_digit (hd r)"
  shows "takeWhile is_digit (ds @ r) = ds" "dropWhile is_digit (ds @ r) = r"
  using assms by (cases r; simp add: takeWhile_append dropWhile_append)+

lemma parse_frac_none: "num_stops r \<or> (r \<noteq> [] \<and> hd r = CHR ''e'') \<Longrightarrow> parse_frac r = Some ([], r)"
  by (cases r) (auto simp: parse_frac_def num_stops_def)

lemma parse_frac_some:
  assumes "\<forall>c \<in> set ds. is_digit c" "ds \<noteq> []" "r = [] \<or> \<not> is_digit (hd r)"
  shows "parse_frac (CHR ''.'' # ds @ r) = Some (ds, r)"
  using span_digits [OF assms(1,3)] assms(2) by (simp add: parse_frac_def Let_def)

lemma parse_exp_none: "num_stops r \<Longrightarrow> parse_exp r = Some (0, r)"
  by (cases r) (auto simp: parse_exp_def num_stops_def)

lemma parse_exp_part:
  assumes "num_stops r"
  shows "parse_exp (exp_part x @ r) = Some (x, r)"
proof -
  have "r = [] \<or> \<not> is_digit (hd r)" using assms by (auto simp: num_stops_def)
  then show ?thesis
    using span_digits [of "nat_str (nat x)" r] span_digits [of "nat_str (nat (- x))" r]
    by (auto simp: exp_part_def parse_exp_def exp_digits_def nat_str_digits Let_def)
qed

lemma parse_unsigned_intro:
  assumes "\<forall>c \<in> set ip. is_digit c" "ip \<noteq> []" "hd ip = CHR ''0'' \<Longrightarrow> tl ip = []"
    and "rest = [] \<or> \<not> is_digit (hd rest)"
    and "parse_frac rest = Some (fp, r2)" "parse_exp r2 = Some (x, r3)"
  shows "parse_unsigned neg (ip @ rest) = Some (mk_num neg (str_nat (ip @ fp)) (x - int (length fp)), r3)"
  using span_digits [OF assms(1,4)] assms(2,3,5,6) by (simp add: parse_unsigned_def Let_def)

lemma str_nat_zeros: "str_nat (replicate n CHR ''0'') = 0"
  by (induction n) (simp_all add: str_nat_def digit_val_def)

lemma str_nat_zero_prefix: "str_nat (CHR ''0'' # replicate n CHR ''0'' @ ds) = str_nat ds"
  using str_nat_append [of "replicate (Suc n) CHR ''0''" ds] str_nat_zeros [of "Suc n"] by simp

lemma is_digit_zero [simp]: "is_digit CHR ''0''"
  by (simp add: is_digit_def)

lemma exp_part_hd: "exp_part x @ r \<noteq> [] \<and> hd (exp_part x @ r) = CHR ''e''"
  by (simp add: exp_part_def)

lemma mod10_pos: "m mod 10 \<noteq> 0 \<Longrightarrow> 0 < (m :: nat)"
  by (metis gr0I mod_0)

lemma parse_dec_plain:
  assumes m: "m mod 10 \<noteq> 0" and r: "num_stops r"
    and n: "int (length (nat_str m)) \<le> n" "n = int (length (nat_str m)) + e"
  shows "parse_unsigned neg (nat_str m @ replicate (nat (n - int (length (nat_str m)))) CHR ''0'' @ r)
    = Some (Dec neg m e, r)"
proof -
  let ?z = "replicate (nat (n - int (length (nat_str m)))) CHR ''0''"
  have e: "int (nat e) = e" "0 \<le> e" "nat (n - int (length (nat_str m))) = nat e" using n by simp_all
  have "parse_unsigned neg ((nat_str m @ ?z) @ r)
      = Some (mk_num neg (str_nat ((nat_str m @ ?z) @ [])) (0 - int (length ([] :: string))), r)"
    using r mod10_pos [OF m] nat_str_hd_zero [of m]
    by (intro parse_unsigned_intro [where rest = r and ?r2.0 = r])
      (auto simp: nat_str_digits intro: parse_frac_none parse_exp_none dest: num_stops_digit)
  then show ?thesis
    by (simp add: str_nat_append str_nat_zeros e mk_num_shift [OF m])
qed

lemma parse_dec_point:
  assumes m: "m mod 10 \<noteq> 0" and r: "num_stops r"
    and n: "0 < n" "n < int (length (nat_str m))" "n = int (length (nat_str m)) + e"
  shows "parse_unsigned neg (take (nat n) (nat_str m) @ ''.'' @ drop (nat n) (nat_str m) @ r)
    = Some (Dec neg m e, r)"
proof -
  let ?i = "take (nat n) (nat_str m)" and ?f = "drop (nat n) (nat_str m)"
  have ds: "\<forall>c \<in> set ?i. is_digit c" "\<forall>c \<in> set ?f. is_digit c"
    using nat_str_digits [of m] by (auto dest: in_set_takeD in_set_dropD)
  have ne: "?i \<noteq> []" "?f \<noteq> []" "hd ?i = hd (nat_str m)"
    using n by (auto simp: hd_take)
  have "parse_frac (CHR ''.'' # ?f @ r) = Some (?f, r)"
    using ds ne r by (intro parse_frac_some) (auto simp: num_stops_def)
  then have "parse_unsigned neg (?i @ (CHR ''.'' # ?f @ r))
      = Some (mk_num neg (str_nat (?i @ ?f)) (0 - int (length ?f)), r)"
    using r ds ne mod10_pos [OF m] nat_str_hd_zero [of m]
    by (intro parse_unsigned_intro) (auto intro: parse_exp_none)
  moreover have "0 - int (length ?f) = e" using n by simp
  ultimately show ?thesis by (simp add: mk_num_id [OF m] del: length_drop)
qed

lemma parse_dec_small:
  assumes m: "m mod 10 \<noteq> 0" and r: "num_stops r"
    and n: "n \<le> 0" "n = int (length (nat_str m)) + e"
  shows "parse_unsigned neg (''0.'' @ replicate (nat (- n)) CHR ''0'' @ nat_str m @ r)
    = Some (Dec neg m e, r)"
proof -
  let ?f = "replicate (nat (- n)) CHR ''0'' @ nat_str m"
  have "parse_frac (CHR ''.'' # ?f @ r) = Some (?f, r)"
    using r nat_str_digits [of m] by (intro parse_frac_some) (auto simp: num_stops_def)
  then have "parse_unsigned neg (''0'' @ (CHR ''.'' # ?f @ r))
      = Some (mk_num neg (str_nat (''0'' @ ?f)) (0 - int (length ?f)), r)"
    using r by (intro parse_unsigned_intro) (auto intro: parse_exp_none)
  moreover have "str_nat (''0'' @ ?f) = m" by (simp add: str_nat_zero_prefix)
  moreover have "0 - int (length ?f) = e" using n by simp
  ultimately show ?thesis by (simp add: mk_num_id [OF m])
qed

lemma parse_dec_exp1:
  assumes m: "m mod 10 \<noteq> 0" and r: "num_stops r"
  shows "parse_unsigned neg (nat_str m @ exp_part e @ r) = Some (Dec neg m e, r)"
proof -
  have "parse_unsigned neg (nat_str m @ (exp_part e @ r))
      = Some (mk_num neg (str_nat (nat_str m @ [])) (e - int (length ([] :: string))), r)"
    using r mod10_pos [OF m] nat_str_hd_zero [of m] exp_part_hd [of e r]
    by (intro parse_unsigned_intro)
      (auto simp: nat_str_digits intro: parse_exp_part parse_frac_none)
  then show ?thesis by (simp add: mk_num_id [OF m])
qed

lemma parse_dec_exp:
  assumes m: "m mod 10 \<noteq> 0" and r: "num_stops r" and k: "1 < length (nat_str m)"
    and n: "n = int (length (nat_str m)) + e"
  shows "parse_unsigned neg (take 1 (nat_str m) @ ''.'' @ drop 1 (nat_str m) @ exp_part (n - 1) @ r)
    = Some (Dec neg m e, r)"
proof -
  let ?i = "take 1 (nat_str m)" and ?f = "drop 1 (nat_str m)"
  have ds: "\<forall>c \<in> set ?i. is_digit c" "\<forall>c \<in> set ?f. is_digit c"
    using nat_str_digits [of m] by (auto dest: in_set_takeD in_set_dropD)
  have ne: "?i \<noteq> []" "?f \<noteq> []" "hd ?i = hd (nat_str m)"
    using k by (auto simp: hd_take)
  have "parse_frac (CHR ''.'' # ?f @ exp_part (n - 1) @ r) = Some (?f, exp_part (n - 1) @ r)"
    using ds ne exp_part_hd [of "n - 1" r] by (intro parse_frac_some) auto
  then have "parse_unsigned neg (?i @ (CHR ''.'' # ?f @ exp_part (n - 1) @ r))
      = Some (mk_num neg (str_nat (?i @ ?f)) ((n - 1) - int (length ?f)), r)"
    using r ds ne mod10_pos [OF m] nat_str_hd_zero [of m]
    by (intro parse_unsigned_intro) (auto intro: parse_exp_part)
  moreover have "(n - 1) - int (length ?f) = e" using n k by simp
  ultimately show ?thesis by (simp add: mk_num_id [OF m])
qed

lemma parse_dec_str:
  assumes m: "m mod 10 \<noteq> 0" and r: "num_stops r"
  shows "parse_unsigned neg (dec_str m e @ r) = Some (Dec neg m e, r)"
proof -
  let ?k = "int (length (nat_str m))"
  have k: "length (nat_str m) = 1 \<or> 1 < length (nat_str m)"
    by (cases "nat_str m") auto
  show ?thesis
    using parse_dec_plain [OF m r, of "?k + e"] parse_dec_point [OF m r, of "?k + e"]
      parse_dec_small [OF m r, of "?k + e"] parse_dec_exp1 [OF m r] parse_dec_exp [OF m r, of "?k + e"] k
    by (auto simp: dec_str_def Let_def)
qed

lemma dec_str_hd: "0 < m \<Longrightarrow> dec_str m e \<noteq> [] \<and> is_digit (hd (dec_str m e))"
  using nat_str_hd_digit [of m]
  by (auto simp: dec_str_def Let_def hd_append hd_take take_eq_Nil)

lemma parse_num_str:
  assumes "finite_num x" "wf_num x" and r: "num_stops r"
  shows "parse_num (num_str x @ r) = Some (x, r)"
proof (cases x)
  case (Dec neg m e)
  show ?thesis
  proof (cases "m = 0")
    case True
    have "parse_unsigned False (''0'' @ r)
        = Some (mk_num False (str_nat (''0'' @ [])) (0 - int (length ([] :: string))), r)"
      using r by (intro parse_unsigned_intro [where rest = r and ?r2.0 = r])
        (auto intro: parse_frac_none parse_exp_none dest: num_stops_digit)
    then have "parse_unsigned False (CHR ''0'' # r) = Some (Dec False 0 0, r)"
      using str_nat_zeros [of 1] by (simp add: mk_num_zero)
    with True Dec assms(2) show ?thesis by (simp add: parse_num_def)
  next
    case False
    with Dec assms(2) have m: "m mod 10 \<noteq> 0" by simp
    from False obtain c s where cs: "dec_str m e = c # s" "is_digit c"
      using dec_str_hd [of m e] by (cases "dec_str m e") auto
    then have "c \<noteq> CHR ''-''" by auto
    then show ?thesis
      using parse_dec_str [OF m r, of neg e] Dec False cs by (auto simp: parse_num_def)
  qed
qed (use assms in auto)

lemma num_str_hd:
  "\<lbrakk> finite_num x; wf_num x \<rbrakk> \<Longrightarrow> num_str x \<noteq> [] \<and> (is_digit (hd (num_str x)) \<or> hd (num_str x) = CHR ''-'')"
  by (cases x) (auto simp: hd_append dec_str_hd)

text \<open>Values.\<close>

lemma json_str_hd:
  assumes "wf_json v"
  obtains c t where "json_str v = c # t" "\<not> is_ws c" "c \<noteq> CHR '']''" "c \<noteq> CHR ''}''"
proof (cases v)
  case (JNum x)
  with assms num_str_hd [of x] obtain c t where c: "num_str x = c # t" "is_digit c \<or> c = CHR ''-''"
    by (cases "num_str x") auto
  then have "\<not> is_ws c" "c \<noteq> CHR '']''" "c \<noteq> CHR ''}''" by (auto simp: is_ws_def is_digit_def)
  with c JNum assms that show ?thesis by simp
next
  case (JBool b)
  with that show ?thesis by (cases b) (auto simp: is_ws_def)
qed (use that in \<open>auto simp: quote_def is_ws_def\<close>)

lemma num_stops_delims [simp]: "num_stops (CHR '','' # r)" "num_stops (CHR '']'' # r)"
  "num_stops (CHR ''}'' # r)" "num_stops []"
  by (simp_all add: num_stops_def is_digit_def)

lemma skip_ws_delims [simp]: "skip_ws (CHR '','' # r) = CHR '','' # r"
  "skip_ws (CHR '']'' # r) = CHR '']'' # r" "skip_ws (CHR ''}'' # r) = CHR ''}'' # r"
  "skip_ws (CHR '':'' # r) = CHR '':'' # r" "skip_ws (CHR 0x22 # r) = CHR 0x22 # r" "skip_ws [] = []"
  by (simp_all add: skip_ws_def is_ws_def)

lemma parse_items_str:
  assumes IH: "\<And>v f r. \<lbrakk> v \<in> set vs; num_stops r; 2 * length (json_str v) \<le> f \<rbrakk>
      \<Longrightarrow> parse_value f (json_str v @ r) = Some (v, r)"
    and ne: "\<forall>v \<in> set vs. json_str v \<noteq> []" and "vs \<noteq> []"
    and "2 * length (sep_join '','' (map json_str vs)) + 1 \<le> f"
  shows "parse_items f (sep_join '','' (map json_str vs) @ CHR '']'' # r) = Some (vs, r)"
  using assms
proof (induction vs arbitrary: f)
  case Nil
  then show ?case by simp
next
  case (Cons v vs)
  then obtain g where f: "f = Suc g" by (cases f) auto
  show ?case
  proof (cases vs)
    case Nil
    then show ?thesis using Cons.prems(1) [of v "CHR '']'' # r" g] Cons.prems(4) f by simp
  next
    case vs: (Cons v' vs')
    have len: "0 < length (json_str v)" using Cons.prems(2) by simp
    have "parse_value g (json_str v @ CHR '','' # sep_join '','' (map json_str vs) @ CHR '']'' # r)
        = Some (v, CHR '','' # sep_join '','' (map json_str vs) @ CHR '']'' # r)"
      using Cons.prems(1) [of v _ g] Cons.prems(4) f vs by simp
    moreover have "parse_items g (sep_join '','' (map json_str vs) @ CHR '']'' # r) = Some (vs, r)"
      using Cons.prems len f vs by (intro Cons.IH) auto
    ultimately show ?thesis using f vs by simp
  qed
qed

lemma parse_members_str:
  assumes IH: "\<And>k v f r. \<lbrakk> (k, v) \<in> set ms; num_stops r; 2 * length (json_str v) \<le> f \<rbrakk>
      \<Longrightarrow> parse_value f (json_str v @ r) = Some (v, r)"
    and "ms \<noteq> []"
    and "2 * length (sep_join '','' (map (\<lambda>(k, v). quote k @ '':'' @ json_str v) ms)) + 1 \<le> f"
  shows "parse_members f (sep_join '','' (map (\<lambda>(k, v). quote k @ '':'' @ json_str v) ms) @ CHR ''}'' # r)
    = Some (ms, r)"
  using assms
proof (induction ms arbitrary: f)
  case Nil
  then show ?case by simp
next
  case (Cons m ms)
  obtain k v where m: "m = (k, v)" by (cases m)
  from Cons.prems obtain g where f: "f = Suc g" by (cases f) auto
  let ?j = "sep_join '','' (map (\<lambda>(k, v). quote k @ '':'' @ json_str v) ms)"
  show ?case
  proof (cases ms)
    case Nil
    have "parse_value g (json_str v @ CHR ''}'' # r) = Some (v, CHR ''}'' # r)"
      using Cons.prems(1) [of k v "CHR ''}'' # r" g] Cons.prems(3) f m Nil by (simp add: quote_def)
    then show ?thesis using f m Nil by (simp add: quote_def parse_chars_quote)
  next
    case ms: (Cons m' ms')
    have "parse_value g (json_str v @ CHR '','' # ?j @ CHR ''}'' # r) = Some (v, CHR '','' # ?j @ CHR ''}'' # r)"
      using Cons.prems(1) [of k v _ g] Cons.prems(3) f m ms by (simp add: quote_def)
    moreover have "parse_members g (?j @ CHR ''}'' # r) = Some (ms, r)"
      using Cons.prems f m ms by (intro Cons.IH) (auto simp: quote_def)
    ultimately show ?thesis
      using f m ms by (simp add: quote_def parse_chars_quote)
  qed
qed

lemma parse_value_str:
  "\<lbrakk> wf_json v; num_stops r; 2 * length (json_str v) \<le> f \<rbrakk>
    \<Longrightarrow> parse_value f (json_str v @ r) = Some (v, r)"
proof (induction v arbitrary: f r)
  case JNull
  then show ?case by (cases f) (auto simp: skip_ws_def is_ws_def parse_lit_def)
next
  case (JBool b)
  then show ?case by (cases f; cases b) (auto simp: skip_ws_def is_ws_def parse_lit_def)
next
  case (JNum x)
  then obtain c t where c: "num_str x = c # t" "is_digit c \<or> c = CHR ''-''"
    using num_str_hd [of x] by (cases "num_str x") auto
  from c(2) have "\<not> is_ws c" "c \<notin> set ''ntf[{''" "c \<noteq> CHR 0x22" by (auto simp: is_ws_def is_digit_def)
  moreover obtain g where "f = Suc g" using JNum.prems c by (cases f) auto
  ultimately show ?case
    using JNum.prems c parse_num_str [of x r] by (auto simp: skip_ws_def)
next
  case (JStr s)
  then obtain g where "f = Suc g" by (cases f) (auto simp: quote_def)
  then show ?case by (simp add: quote_def parse_chars_quote)
next
  case (JArr vs)
  then obtain g where f: "f = Suc g" by (cases f) auto
  have wf: "\<forall>v \<in> set vs. wf_json v" using JArr.prems by (simp add: list_all_iff)
  show ?case
  proof (cases vs)
    case Nil
    then show ?thesis using f by (simp add: skip_ws_def is_ws_def)
  next
    case (Cons v vs')
    let ?j = "sep_join '','' (map json_str vs)"
    obtain c t where c: "json_str v = c # t" "\<not> is_ws c" "c \<noteq> CHR '']''"
      using json_str_hd [of v] wf Cons by (metis list.set_intros(1))
    then obtain t' where j: "?j = c # t'" using Cons by (cases vs') auto
    have ne: "\<forall>v \<in> set vs. json_str v \<noteq> []" using wf by (metis json_str_hd list.distinct(1))
    have "parse_items g (?j @ CHR '']'' # r) = Some (vs, r)"
      using JArr wf ne Cons f by (intro parse_items_str) auto
    then show ?thesis using f j c by (simp add: skip_ws_def is_ws_def)
  qed
next
  case (JObj ms)
  then obtain g where f: "f = Suc g" by (cases f) auto
  show ?case
  proof (cases ms)
    case Nil
    then show ?thesis using f by (simp add: skip_ws_def is_ws_def)
  next
    case (Cons m ms')
    let ?j = "sep_join '','' (map (\<lambda>(k, v). quote k @ '':'' @ json_str v) ms)"
    obtain t' where j: "?j = CHR 0x22 # t'"
      using Cons by (cases m; cases ms') (auto simp: quote_def)
    have "parse_members g (?j @ CHR ''}'' # r) = Some (ms, r)"
    proof (rule parse_members_str)
      fix k v f r
      assume "(k, v) \<in> set ms" "num_stops r" "2 * length (json_str v) \<le> f"
      then show "parse_value f (json_str v @ r) = Some (v, r)"
        using JObj.IH [of "(k, v)" v r f] JObj.prems(1) by (auto simp: list_all_iff)
    qed (use Cons JObj.prems f in auto)
    moreover have "set_all fst snd ms [] = ms"
      using JObj.prems(1) set_all_distinct [of "[]" ms] by simp
    ultimately show ?thesis using f j by (simp add: skip_ws_def is_ws_def)
  qed
qed

theorem json_parse_str: "wf_json v \<Longrightarrow> json_parse (json_str v) = Some v"
  using parse_value_str [of v "[]" "2 * length (json_str v) + 2"] by (simp add: json_parse_def)

theorem json_str_inj: "\<lbrakk> wf_json v; wf_json w; json_str v = json_str w \<rbrakk> \<Longrightarrow> v = w"
  by (metis json_parse_str option.inject)

end
