(* ===== verification/Errors.thy ===== *)
theory Errors
  imports Json
begin

text \<open>
  \<^verbatim>\<open>src/core/errors.ts\<close>: the error classes as one datatype of thrown values, the constructors the
  rest of the program uses, \<^verbatim>\<open>HttpError.isThrottle\<close> and \<^verbatim>\<open>serializeError\<close>. A thrown value that is
  not an \<^verbatim>\<open>Error\<close> is kept by its printed form. Stack traces are host data and are a field that
  the constructors leave empty.
\<close>

datatype error_code = CONFIG | LEASE_LOST | HTTP | STORE | VALIDATION | HANDLER
  | REPLAY_UNAVAILABLE | BUDGET_TIMEOUT | CIRCUIT_OPEN | NOT_RUNNING | UNKNOWN_POLLER | UNSUPPORTED

fun code_str :: "error_code \<Rightarrow> string" where
  "code_str CONFIG = ''CONFIG''"
| "code_str LEASE_LOST = ''LEASE_LOST''"
| "code_str HTTP = ''HTTP''"
| "code_str STORE = ''STORE''"
| "code_str VALIDATION = ''VALIDATION''"
| "code_str HANDLER = ''HANDLER''"
| "code_str REPLAY_UNAVAILABLE = ''REPLAY_UNAVAILABLE''"
| "code_str BUDGET_TIMEOUT = ''BUDGET_TIMEOUT''"
| "code_str CIRCUIT_OPEN = ''CIRCUIT_OPEN''"
| "code_str NOT_RUNNING = ''NOT_RUNNING''"
| "code_str UNKNOWN_POLLER = ''UNKNOWN_POLLER''"
| "code_str UNSUPPORTED = ''UNSUPPORTED''"

datatype rl_source = Ietf | Legacy | Vendor

record rate_limit_info =
  rl_limit :: "number option"
  rl_remaining :: "number option"
  rl_resetAt :: "number option"
  rl_policy :: "string option"
  rl_source :: rl_source

text \<open>One issue of a failed validation: the message and the path, when there is one.\<close>

record issue =
  is_message :: string
  is_path :: "string list option"

record http_error =
  he_status :: int
  he_url :: string
  he_method :: string
  he_retryAfterMs :: "number option"
  he_rateLimit :: "rate_limit_info option"
  he_problem :: "(string \<times> json) list option"
  he_bodyText :: "string option"

datatype err_class =
    PlainError
  | WatukuyErr error_code
  | LeaseLostErr string string nat
  | HttpErr http_error
  | ValidationErr "issue list"
  | BudgetTimeoutErr string

datatype thrown =
    Thrown (t_class: err_class) (t_name: string) (t_message: string) (t_stack: "string option")
      (t_cause: "thrown option")
  | NonError string

definition plainError :: "string \<Rightarrow> string \<Rightarrow> thrown" where
  "plainError name msg = Thrown PlainError name msg None None"

definition typeError :: "string \<Rightarrow> thrown" where
  "typeError msg = plainError ''TypeError'' msg"

definition watukuyError :: "error_code \<Rightarrow> string \<Rightarrow> thrown" where
  "watukuyError c msg = Thrown (WatukuyErr c) ''WatukuyError'' msg None None"

definition configError :: "string \<Rightarrow> thrown" where
  "configError msg = Thrown (WatukuyErr CONFIG) ''ConfigError'' msg None None"

definition leaseLostError :: "string \<Rightarrow> string \<Rightarrow> nat \<Rightarrow> thrown" where
  "leaseLostError poller part epoch =
     Thrown (LeaseLostErr poller part epoch) ''LeaseLostError''
       (''lease lost for '' @ poller @ ''/'' @ (if part = [] then ''-'' else part)
        @ '' (epoch '' @ nat_str epoch @ ''); another instance owns it now'') None None"

definition problem_string :: "(string \<times> json) list \<Rightarrow> string \<Rightarrow> string option" where
  "problem_string p k = (case map_of p k of Some (JStr s) \<Rightarrow> Some s | _ \<Rightarrow> None)"

text \<open>\<^verbatim>\<open>init.problem?.title ?? init.problem?.detail\<close>, an empty text counting as none.\<close>

definition httpError :: "http_error \<Rightarrow> thrown" where
  "httpError i =
     (let detail = (case he_problem i of
                      None \<Rightarrow> None
                    | Some p \<Rightarrow> (case problem_string p ''title'' of
                                  Some t \<Rightarrow> Some t
                                | None \<Rightarrow> problem_string p ''detail''));
          suffix = (case detail of None \<Rightarrow> '''' | Some d \<Rightarrow> if d = [] then '''' else '': '' @ d)
      in Thrown (HttpErr i) ''HttpError''
           (he_method i @ '' '' @ he_url i @ '' responded '' @ int_str (he_status i) @ suffix) None None)"

definition isThrottle :: "http_error \<Rightarrow> bool" where
  "isThrottle e \<longleftrightarrow> he_status e = 429 \<or> (he_status e = 503 \<and> he_retryAfterMs e \<noteq> None)"

definition storeError :: "string \<Rightarrow> thrown \<Rightarrow> thrown" where
  "storeError msg cause = Thrown (WatukuyErr STORE) ''StoreError'' msg None (Some cause)"

definition validationError :: "issue list \<Rightarrow> thrown" where
  "validationError issues =
     Thrown (ValidationErr issues) ''ValidationError''
       (''item failed schema validation: '' @ sep_join ''; '' (map is_message issues)) None None"

definition handlerError :: "string \<Rightarrow> nat \<Rightarrow> thrown \<Rightarrow> thrown" where
  "handlerError eventId attempt cause =
     Thrown (WatukuyErr HANDLER) ''HandlerError''
       (''handler failed for event '' @ eventId @ '' (attempt '' @ nat_str attempt @ '')'') None (Some cause)"

definition replayUnavailableError :: "string \<Rightarrow> thrown" where
  "replayUnavailableError poller =
     Thrown (WatukuyErr REPLAY_UNAVAILABLE) ''ReplayUnavailableError''
       (''replay is unavailable for poller '' @ [CHR 0x27] @ poller @ [CHR 0x27]
        @ '': enable it with log: { retention: '' @ [CHR 0x27] @ ''7d'' @ [CHR 0x27] @ '' } in definePoller'')
       None None"

definition budgetTimeoutError :: "string \<Rightarrow> string \<Rightarrow> thrown" where
  "budgetTimeoutError budget waited =
     Thrown (BudgetTimeoutErr budget) ''BudgetTimeoutError''
       (''budget '' @ [CHR 0x27] @ budget @ [CHR 0x27] @ '' had no tokens after waiting '' @ waited @ ''ms'')
       None None"

fun is_LeaseLost :: "thrown \<Rightarrow> bool" where
  "is_LeaseLost (Thrown (LeaseLostErr _ _ _) _ _ _ _) = True"
| "is_LeaseLost _ = False"

fun as_HttpError :: "thrown \<Rightarrow> http_error option" where
  "as_HttpError (Thrown (HttpErr h) _ _ _ _) = Some h"
| "as_HttpError _ = None"

fun class_code :: "err_class \<Rightarrow> error_code option" where
  "class_code PlainError = None"
| "class_code (WatukuyErr c) = Some c"
| "class_code (LeaseLostErr _ _ _) = Some LEASE_LOST"
| "class_code (HttpErr _) = Some HTTP"
| "class_code (ValidationErr _) = Some VALIDATION"
| "class_code (BudgetTimeoutErr _) = Some BUDGET_TIMEOUT"

fun class_status :: "err_class \<Rightarrow> int option" where
  "class_status (HttpErr h) = Some (he_status h)"
| "class_status _ = None"

datatype serialized_error =
  SerError (se_name: string) (se_message: string) (se_code: "string option") (se_stack: "string option")
    (se_status: "int option") (se_cause: "serialized_error option")

fun serializeError :: "thrown \<Rightarrow> nat \<Rightarrow> serialized_error" where
  "serializeError (Thrown cls name msg stack cause) depth =
     SerError name msg (map_option code_str (class_code cls))
       (case stack of Some (c # cs) \<Rightarrow> Some (c # cs) | _ \<Rightarrow> None)
       (class_status cls)
       (case cause of
          None \<Rightarrow> None
        | Some c \<Rightarrow> if depth < 3 then Some (serializeError c (depth + 1)) else None)"
| "serializeError (NonError s) depth = SerError ''NonError'' s None None None None"

section \<open>Properties\<close>

text \<open>Only a lease error counts as one for the runner, and no constructor of another class makes one.\<close>

lemma is_LeaseLost_constructors [simp]:
  "is_LeaseLost (leaseLostError p q e)"
  "\<not> is_LeaseLost (plainError n m)" "\<not> is_LeaseLost (configError m)" "\<not> is_LeaseLost (typeError m)"
  "\<not> is_LeaseLost (httpError h)" "\<not> is_LeaseLost (validationError iss)"
  "\<not> is_LeaseLost (watukuyError c m)"
  by (simp_all add: leaseLostError_def plainError_def configError_def typeError_def httpError_def
      validationError_def watukuyError_def Let_def)

text \<open>The number of errors in a serialized chain of causes.\<close>

fun chain_length :: "serialized_error \<Rightarrow> nat" where
  "chain_length (SerError _ _ _ _ _ c) = (case c of None \<Rightarrow> 1 | Some d \<Rightarrow> Suc (chain_length d))"

lemma chain_length_serializeError: "depth \<le> 3 \<Longrightarrow> chain_length (serializeError e depth) \<le> 4 - depth"
proof (induction e depth rule: serializeError.induct)
  case (1 cls name msg stack cause depth)
  show ?case
  proof (cases cause)
    case None
    with "1.prems" show ?thesis by simp
  next
    case (Some c)
    with "1" show ?thesis by (cases "depth < 3") auto
  qed
qed simp

end
