(* ===== verification/JsValue.thy ===== *)
theory JsValue
  imports Errors
begin

text \<open>
  JavaScript values as the change engine meets them (items, identities, versions, cursor fields),
  \<^verbatim>\<open>Date.prototype.toISOString\<close>, the dot paths of \<^verbatim>\<open>src/cursor/path.ts\<close>, and the canonical form of
  \<^verbatim>\<open>src/diff/canonicalize.ts\<close>. Arrays and objects carry the address that identifies them, so that
  the search for cycles is the code's search for an ancestor; a cyclic structure is any finite
  unfolding in which a node repeats the address of an ancestor. An object with a \<^verbatim>\<open>toJSON\<close> method
  is given by the value the method returns.
\<close>

datatype jsval =
    VUndef | VFun | VSym | VNull
  | VBool bool | VStr string | VNum jsnum | VBig int
  | VDate "int option"
  | VToJSON jsval | VBoxed jsval | VMap | VSet
  | VArr nat "jsval list"
  | VObj nat "(string \<times> jsval) list"

section \<open>\<^verbatim>\<open>Date.prototype.toISOString\<close>\<close>

definition pad_left :: "nat \<Rightarrow> string \<Rightarrow> string" where
  "pad_left n s = replicate (n - length s) CHR ''0'' @ s"

definition pad_num :: "nat \<Rightarrow> int \<Rightarrow> string" where
  "pad_num n i = pad_left n (nat_str (nat i))"

text \<open>Year, month and day of a day number counted from 1970-01-01 (proleptic Gregorian).\<close>

definition civil :: "int \<Rightarrow> int \<times> int \<times> int" where
  "civil days =
     (let z = days + 719468; era = z div 146097; doe = z mod 146097;
          yoe = (doe - doe div 1460 + doe div 36524 - doe div 146096) div 365;
          doy = doe - (365 * yoe + yoe div 4 - yoe div 100);
          mp = (5 * doy + 2) div 153;
          m = (if mp < 10 then mp + 3 else mp - 9)
      in (yoe + era * 400 + (if m \<le> 2 then 1 else 0), m, doy - (153 * mp + 2) div 5 + 1))"

definition to_iso :: "int \<Rightarrow> string" where
  "to_iso t =
     (let (y, m, d) = civil (t div 86400000); r = t mod 86400000;
          ys = (if 0 \<le> y \<and> y \<le> 9999 then pad_num 4 y
                else if y < 0 then CHR ''-'' # pad_num 6 (- y) else CHR ''+'' # pad_num 6 y)
      in ys @ ''-'' @ pad_num 2 m @ ''-'' @ pad_num 2 d @ ''T'' @ pad_num 2 (r div 3600000) @ '':''
         @ pad_num 2 (r div 60000 mod 60) @ '':'' @ pad_num 2 (r div 1000 mod 60) @ ''.''
         @ pad_num 3 (r mod 1000) @ ''Z'')"

section \<open>\<^verbatim>\<open>src/cursor/path.ts\<close>\<close>

fun split_on :: "char \<Rightarrow> string \<Rightarrow> string list" where
  "split_on sep [] = [[]]"
| "split_on sep (c # cs) =
     (if c = sep then [] # split_on sep cs
      else case split_on sep cs of [] \<Rightarrow> [[c]] | w # ws \<Rightarrow> (c # w) # ws)"

text \<open>An array element is read by its decimal index, an object member by its name; the elements of a
  string are not reached, since the walk stops at primitives.\<close>

definition member :: "jsval \<Rightarrow> string \<Rightarrow> jsval" where
  "member v k =
     (case v of
        VObj _ ms \<Rightarrow> (case map_of ms k of None \<Rightarrow> VUndef | Some w \<Rightarrow> w)
      | VArr _ vs \<Rightarrow>
          if k = ''length'' then VNum (mk_num False (length vs) 0)
          else if k \<noteq> [] \<and> list_all is_digit k \<and> nat_str (str_nat k) = k
          then (case nth_opt vs (str_nat k) of None \<Rightarrow> VUndef | Some w \<Rightarrow> w)
          else VUndef
      | _ \<Rightarrow> VUndef)"

fun is_object :: "jsval \<Rightarrow> bool" where
  "is_object (VObj _ _) = True"
| "is_object (VArr _ _) = True"
| "is_object (VDate _) = True"
| "is_object (VToJSON _) = True"
| "is_object (VBoxed _) = True"
| "is_object VMap = True"
| "is_object VSet = True"
| "is_object VFun = True"
| "is_object _ = False"

fun walk :: "jsval \<Rightarrow> string list \<Rightarrow> jsval" where
  "walk v [] = v"
| "walk v (seg # segs) = (if is_object v then walk (member v seg) segs else VUndef)"

definition getPath :: "jsval \<Rightarrow> string \<Rightarrow> jsval" where
  "getPath obj path = (if path = [] then obj else walk obj (split_on CHR ''.'' path))"

section \<open>\<^verbatim>\<open>src/diff/canonicalize.ts\<close>\<close>

fun omitted :: "jsval \<Rightarrow> bool" where
  "omitted VUndef = True"
| "omitted VFun = True"
| "omitted VSym = True"
| "omitted _ = False"

definition serializeNumber :: "jsnum \<Rightarrow> thrown + string" where
  "serializeNumber x =
     (if \<not> finite_num x then
        Inl (typeError (''canonicalize: '' @ num_str x @ '' is not representable in JSON''))
      else Inr (num_str x))"

text \<open>Join the pieces in order; the first error is the one thrown.\<close>

fun join_results :: "(thrown + string) list \<Rightarrow> thrown + string list" where
  "join_results [] = Inr []"
| "join_results (r # rs) =
     (case r of
        Inl e \<Rightarrow> Inl e
      | Inr s \<Rightarrow> (case join_results rs of Inl e \<Rightarrow> Inl e | Inr ss \<Rightarrow> Inr (s # ss)))"

definition serializeArray :: "(thrown + string) list \<Rightarrow> thrown + string" where
  "serializeArray rs =
     (case join_results rs of Inl e \<Rightarrow> Inl e | Inr ss \<Rightarrow> Inr (''['' @ sep_join '','' ss @ '']''))"

definition serializeObject :: "(string \<times> bool \<times> (thrown + string)) list \<Rightarrow> thrown + string" where
  "serializeObject ms =
     (let kept = filter (\<lambda>(k, skip, r). \<not> skip) (sort_key fst ms);
          pieces = map (\<lambda>(k, skip, r). map_sum id (\<lambda>s. quote k @ '':'' @ s) r) kept
      in case join_results pieces of
           Inl e \<Rightarrow> Inl e
         | Inr ss \<Rightarrow> Inr (''{'' @ sep_join '','' ss @ ''}''))"

lemma size_member: "m \<in> set ms \<Longrightarrow> size (snd m) < size_list (size_prod size size) ms"
  by (induction ms) auto

lemma size_json_member: "m \<in> set ms \<Longrightarrow> size (snd m) < size_list (size_prod size size) (ms :: (string \<times> json) list)"
  by (induction ms) auto

function (sequential) serialize :: "nat list \<Rightarrow> jsval \<Rightarrow> thrown + string" where
  "serialize anc (VBool b) = Inr (if b then ''true'' else ''false'')"
| "serialize anc (VStr s) = Inr (quote s)"
| "serialize anc (VNum x) = serializeNumber x"
| "serialize anc (VBig i) =
     Inl (typeError ''canonicalize: BigInt values are not representable in JSON; convert them to a string or number in fingerprint()'')"
| "serialize anc (VDate t) = Inr (case t of None \<Rightarrow> ''null'' | Some ms \<Rightarrow> quote (to_iso ms))"
| "serialize anc (VToJSON v) = serialize anc v"
| "serialize anc (VBoxed v) = serialize anc v"
| "serialize anc VMap =
     Inl (typeError ''canonicalize: Map has no JSON representation; convert it in fingerprint() (e.g. Object.fromEntries(map) or [...set])'')"
| "serialize anc VSet =
     Inl (typeError ''canonicalize: Set has no JSON representation; convert it in fingerprint() (e.g. Object.fromEntries(map) or [...set])'')"
| "serialize anc (VArr a vs) =
     (if a \<in> set anc then Inl (typeError ''canonicalize: circular structure cannot be canonicalized'')
      else serializeArray (map (\<lambda>v. serialize (a # anc) v) vs))"
| "serialize anc (VObj a ms) =
     (if a \<in> set anc then Inl (typeError ''canonicalize: circular structure cannot be canonicalized'')
      else serializeObject (map (\<lambda>m. (fst m, omitted (snd m), serialize (a # anc) (snd m))) ms))"
| "serialize anc _ = Inr ''null''"
  by pat_completeness auto
termination
  by (relation "measure (\<lambda>(anc, v). size v)")
    (auto dest: size_member simp: less_Suc_eq_le size_list_estimation')

definition canonicalize :: "jsval \<Rightarrow> thrown + string" where
  "canonicalize v = serialize [] v"

section \<open>\<^verbatim>\<open>JSON.stringify\<close> and \<^verbatim>\<open>JSON.parse\<close> on values\<close>

text \<open>The JSON value that \<^verbatim>\<open>JSON.stringify\<close> prints, or none for \<^verbatim>\<open>undefined\<close>, a function or a symbol.
  Members keep their order. The result of \<^verbatim>\<open>toJSON\<close> is not asked for its own \<^verbatim>\<open>toJSON\<close>.\<close>

fun collect_json :: "(thrown + json option) list \<Rightarrow> thrown + json list" where
  "collect_json [] = Inr []"
| "collect_json (r # rs) =
     (case r of
        Inl e \<Rightarrow> Inl e
      | Inr j \<Rightarrow> (case collect_json rs of Inl e \<Rightarrow> Inl e | Inr js \<Rightarrow> Inr (opt_or j JNull # js)))"

fun collect_members :: "(string \<times> (thrown + json option)) list \<Rightarrow> thrown + (string \<times> json) list" where
  "collect_members [] = Inr []"
| "collect_members ((k, r) # rs) =
     (case r of
        Inl e \<Rightarrow> Inl e
      | Inr j \<Rightarrow>
          (case collect_members rs of
             Inl e \<Rightarrow> Inl e
           | Inr ms \<Rightarrow> Inr (case j of None \<Rightarrow> ms | Some v \<Rightarrow> (k, v) # ms)))"

function (sequential) jsonify :: "nat list \<Rightarrow> jsval \<Rightarrow> thrown + json option" where
  "jsonify anc (VBool b) = Inr (Some (JBool b))"
| "jsonify anc (VStr s) = Inr (Some (JStr s))"
| "jsonify anc (VNum x) = Inr (Some (if finite_num x then JNum x else JNull))"
| "jsonify anc VNull = Inr (Some JNull)"
| "jsonify anc (VBig i) = Inl (typeError ''Do not know how to serialize a BigInt'')"
| "jsonify anc (VDate t) = Inr (Some (case t of None \<Rightarrow> JNull | Some ms \<Rightarrow> JStr (to_iso ms)))"
| "jsonify anc (VToJSON (VToJSON v)) = Inr (Some (JObj []))"
| "jsonify anc (VToJSON (VDate t)) = Inr (Some (JObj []))"
| "jsonify anc (VToJSON v) = jsonify anc v"
| "jsonify anc (VBoxed v) = jsonify anc v"
| "jsonify anc VMap = Inr (Some (JObj []))"
| "jsonify anc VSet = Inr (Some (JObj []))"
| "jsonify anc (VArr a vs) =
     (if a \<in> set anc then Inl (typeError ''Converting circular structure to JSON'')
      else map_sum id (\<lambda>js. Some (JArr js)) (collect_json (map (\<lambda>v. jsonify (a # anc) v) vs)))"
| "jsonify anc (VObj a ms) =
     (if a \<in> set anc then Inl (typeError ''Converting circular structure to JSON'')
      else map_sum id (\<lambda>js. Some (JObj js)) (collect_members (map (\<lambda>m. (fst m, jsonify (a # anc) (snd m))) ms)))"
| "jsonify anc _ = Inr None"
  by pat_completeness auto
termination
  by (relation "measure (\<lambda>(anc, v). size v)")
    (auto dest: size_member simp: less_Suc_eq_le size_list_estimation')

definition stringify :: "jsval \<Rightarrow> thrown + string option" where
  "stringify v = map_sum id (map_option json_str) (jsonify [] v)"

text \<open>A parsed value is made of fresh objects: its address is its depth, so no node has the address of an
  ancestor.\<close>

function val_of_json :: "nat \<Rightarrow> json \<Rightarrow> jsval" where
  "val_of_json d JNull = VNull"
| "val_of_json d (JBool b) = VBool b"
| "val_of_json d (JNum x) = VNum x"
| "val_of_json d (JStr s) = VStr s"
| "val_of_json d (JArr js) = VArr d (map (\<lambda>j. val_of_json (Suc d) j) js)"
| "val_of_json d (JObj ms) = VObj d (map (\<lambda>m. (fst m, val_of_json (Suc d) (snd m))) ms)"
  by pat_completeness auto
termination
  by (relation "measure (\<lambda>(d, j). size j)")
    (auto dest: size_json_member simp: less_Suc_eq_le size_list_estimation')

definition parse_js :: "string \<Rightarrow> thrown + jsval" where
  \<comment> \<open>\<^verbatim>\<open>JSON.parse\<close>\<close>
  "parse_js s = (case json_parse s of
     None \<Rightarrow> Inl (plainError ''SyntaxError'' ''Unexpected token in JSON'')
   | Some j \<Rightarrow> Inr (val_of_json 0 j))"

section \<open>The canonical text is the text of the value's normal form\<close>

text \<open>What a value means as JSON: absent members dropped, members in key order, wrappers removed,
  negative zero as zero.\<close>

fun norm_num :: "jsnum \<Rightarrow> jsnum" where
  "norm_num (Dec neg m e) = (if m = 0 then Dec False 0 0 else Dec neg m e)"
| "norm_num x = x"

function (sequential) norm_val :: "jsval \<Rightarrow> json" where
  "norm_val (VBool b) = JBool b"
| "norm_val (VStr s) = JStr s"
| "norm_val (VNum x) = JNum (norm_num x)"
| "norm_val (VDate t) = (case t of None \<Rightarrow> JNull | Some ms \<Rightarrow> JStr (to_iso ms))"
| "norm_val (VToJSON v) = norm_val v"
| "norm_val (VBoxed v) = norm_val v"
| "norm_val (VArr a vs) = JArr (map norm_val vs)"
| "norm_val (VObj a ms) =
     JObj (sort_key fst (map (\<lambda>m. (fst m, norm_val (snd m))) (filter (\<lambda>m. \<not> omitted (snd m)) ms)))"
| "norm_val _ = JNull"
  by pat_completeness auto
termination
  by (relation "measure size") (auto dest: size_member simp: less_Suc_eq_le size_list_estimation')

fun wf_val :: "jsval \<Rightarrow> bool" where
  "wf_val (VNum x) = wf_num (norm_num x)"
| "wf_val (VToJSON v) = wf_val v"
| "wf_val (VBoxed v) = wf_val v"
| "wf_val (VArr a vs) = list_all wf_val vs"
| "wf_val (VObj a ms) = (distinct (map fst ms) \<and> list_all (\<lambda>(k, v). wf_val v) ms)"
| "wf_val _ = True"

lemma join_results_map_Inr: "join_results (map Inr ss) = Inr ss"
  by (induction ss) simp_all

lemma join_results_Inr: "join_results rs = Inr ss \<longleftrightarrow> rs = map Inr ss"
proof
  show "join_results rs = Inr ss \<Longrightarrow> rs = map Inr ss"
    by (induction rs arbitrary: ss) (auto split: sum.splits)
qed (simp add: join_results_map_Inr)

lemma insort_key_map: "(\<And>x. f (g x) = h x) \<Longrightarrow> insort_key f (g x) (map g xs) = map g (insort_key h x xs)"
  by (induction xs) auto

lemma sort_key_map: "(\<And>x. f (g x) = h x) \<Longrightarrow> sort_key f (map g xs) = map g (sort_key h xs)"
  by (induction xs) (simp_all add: insort_key_map)

lemma num_str_norm: "finite_num x \<Longrightarrow> num_str (norm_num x) = num_str x \<and> finite_num (norm_num x)"
  by (cases x) auto

lemma map_Inr_eq: "map f xs = map Inr ss \<Longrightarrow> x \<in> set xs \<Longrightarrow> \<exists>s \<in> set ss. f x = Inr s"
  by (metis imageE image_eqI list.set_map)

text \<open>A list of results that all succeed with the printed form of a function of the elements.\<close>

lemma results_eq:
  assumes "map f xs = map Inr ss" "\<And>x s. x \<in> set xs \<Longrightarrow> f x = Inr s \<Longrightarrow> s = g x"
  shows "ss = map g xs"
  using assms
proof (induction xs arbitrary: ss)
  case (Cons x xs)
  then obtain s ss' where "ss = s # ss'" by (cases ss) auto
  with Cons show ?case by simp
qed simp

lemma serialize_norm: "serialize anc v = Inr s \<Longrightarrow> s = json_str (norm_val v)"
proof (induction anc v arbitrary: s rule: serialize.induct)
  case (3 anc x)
  then show ?case by (auto simp: serializeNumber_def num_str_norm split: if_splits)
next
  case (5 anc t)
  then show ?case by (cases t) auto
next
  case (10 anc a vs)
  then obtain ss where ss: "map (\<lambda>v. serialize (a # anc) v) vs = map Inr ss"
    "s = ''['' @ sep_join '','' ss @ '']''" "a \<notin> set anc"
    by (auto simp: serializeArray_def join_results_Inr split: if_splits sum.splits)
  have "ss = map (\<lambda>v. json_str (norm_val v)) vs"
    by (rule results_eq [OF ss(1)]) (use "10.IH" [OF ss(3)] in auto)
  with ss show ?case by (simp add: comp_def)
next
  case (11 anc a ms)
  let ?f = "\<lambda>m. (fst m, omitted (snd m), serialize (a # anc) (snd m))"
  let ?kept = "sort_key fst (filter (\<lambda>m. \<not> omitted (snd m)) ms)"
  let ?piece = "\<lambda>m. map_sum id (\<lambda>s. quote (fst m) @ '':'' @ s) (serialize (a # anc) (snd m))"
  have "sort_key fst (map ?f ms) = map ?f (sort_key fst ms)"
    by (rule sort_key_map) simp
  then have "map (\<lambda>(k, skip, r). map_sum id (\<lambda>s. quote k @ '':'' @ s) r)
      (filter (\<lambda>(k, skip, r). \<not> skip) (sort_key fst (map ?f ms))) = map ?piece ?kept"
    by (simp add: filter_map comp_def filter_sort)
  with 11 obtain ss where ss: "map ?piece ?kept = map Inr ss" "s = ''{'' @ sep_join '','' ss @ ''}''"
    "a \<notin> set anc"
    by (auto simp: serializeObject_def Let_def join_results_Inr split: if_splits sum.splits)
  have "ss = map (\<lambda>m. quote (fst m) @ '':'' @ json_str (norm_val (snd m))) ?kept"
  proof (rule results_eq [OF ss(1)])
    fix m t
    assume m: "m \<in> set ?kept" "?piece m = Inr t"
    then obtain u where "serialize (a # anc) (snd m) = Inr u" "t = quote (fst m) @ '':'' @ u"
      by (cases "serialize (a # anc) (snd m)") auto
    with m "11.IH" [OF ss(3), of m] show "t = quote (fst m) @ '':'' @ json_str (norm_val (snd m))" by auto
  qed
  moreover have "sort_key fst (map (\<lambda>m. (fst m, norm_val (snd m))) (filter (\<lambda>m. \<not> omitted (snd m)) ms))
      = map (\<lambda>m. (fst m, norm_val (snd m))) ?kept"
    by (rule sort_key_map) simp
  ultimately show ?case using ss(2) by (simp add: comp_def)
qed auto

lemma serialize_wf: "\<lbrakk> serialize anc v = Inr s; wf_val v \<rbrakk> \<Longrightarrow> wf_json (norm_val v)"
proof (induction anc v arbitrary: s rule: serialize.induct)
  case (3 anc x)
  then show ?case by (auto simp: serializeNumber_def num_str_norm split: if_splits)
next
  case (5 anc t)
  then show ?case by (cases t) auto
next
  case (10 anc a vs)
  then obtain ss where "map (\<lambda>v. serialize (a # anc) v) vs = map Inr ss" "a \<notin> set anc"
    by (auto simp: serializeArray_def join_results_Inr split: if_splits sum.splits)
  then show ?case
    using 10 by (auto simp: list_all_iff dest: map_Inr_eq)
next
  case (11 anc a ms)
  let ?kept = "filter (\<lambda>m. \<not> omitted (snd m)) ms"
  let ?f = "\<lambda>m. (fst m, omitted (snd m), serialize (a # anc) (snd m))"
  from 11 have a: "a \<notin> set anc" by (auto split: if_splits)
  with 11 obtain ss where ss: "map (\<lambda>(k, skip, r). map_sum id (\<lambda>s. quote k @ '':'' @ s) r)
      (filter (\<lambda>(k, skip, r). \<not> skip) (sort_key fst (map ?f ms))) = map Inr ss"
    by (auto simp: serializeObject_def Let_def join_results_Inr split: if_splits sum.splits)
  have "\<exists>s. serialize (a # anc) (snd m) = Inr s" if "m \<in> set ?kept" for m
  proof -
    have "?f m \<in> set (filter (\<lambda>(k, skip, r). \<not> skip) (sort_key fst (map ?f ms)))"
      using that by auto
    from map_Inr_eq [OF ss this] show ?thesis by (cases "serialize (a # anc) (snd m)") auto
  qed
  then have "\<forall>m \<in> set ?kept. wf_json (norm_val (snd m))"
    using "11.IH" [OF a] "11.prems"(2) by (fastforce simp: list_all_iff)
  moreover have "distinct (map fst ?kept)"
    using "11.prems"(2) by (simp add: distinct_map_filter)
  ultimately show ?case
    by (simp add: list_all_iff distinct_map comp_def sort_key_map [of fst _ fst])
qed auto

lemma canonicalize_text: "canonicalize v = Inr s \<Longrightarrow> s = json_str (norm_val v)"
  by (simp add: canonicalize_def serialize_norm)

lemma canonicalize_inj:
  "\<lbrakk> canonicalize v = Inr s; canonicalize w = Inr s; wf_val v; wf_val w \<rbrakk> \<Longrightarrow> norm_val v = norm_val w"
  unfolding canonicalize_def by (metis json_str_inj serialize_norm serialize_wf)

section \<open>Parsing and printing values\<close>

lemma collect_json_Inr: "collect_json (map (\<lambda>j. Inr (Some (f j))) js) = Inr (map f js)"
  by (induction js) auto

lemma collect_members_Inr:
  "collect_members (map (\<lambda>m. (fst m, Inr (Some (f (snd m))))) ms) = Inr (map (\<lambda>m. (fst m, f (snd m))) ms)"
  by (induction ms) auto

lemma jsonify_val_of_json:
  "\<lbrakk> wf_json j; \<forall>a \<in> set anc. a < d \<rbrakk> \<Longrightarrow> jsonify anc (val_of_json d j) = Inr (Some j)"
proof (induction d j arbitrary: anc rule: val_of_json.induct)
  case (5 d js)
  have "jsonify (d # anc) (val_of_json (Suc d) j) = Inr (Some j)" if "j \<in> set js" for j
    using that "5.prems" by (intro "5.IH") (auto simp: list_all_iff intro: less_SucI)
  then have "collect_json (map (\<lambda>j. jsonify (d # anc) (val_of_json (Suc d) j)) js) = Inr js"
    using collect_json_Inr [of "\<lambda>j. j" js] by (simp cong: map_cong)
  moreover have "d \<notin> set anc" using "5.prems"(2) by auto
  ultimately show ?case by (simp add: comp_def)
next
  case (6 d ms)
  have "jsonify (d # anc) (val_of_json (Suc d) (snd m)) = Inr (Some (snd m))" if "m \<in> set ms" for m
    using that "6.prems" by (intro "6.IH") (auto simp: list_all_iff intro: less_SucI)
  then have "collect_members (map (\<lambda>m. (fst m, jsonify (d # anc) (val_of_json (Suc d) (snd m)))) ms) = Inr ms"
    using collect_members_Inr [of "\<lambda>j. j" ms] by (simp cong: map_cong)
  moreover have "d \<notin> set anc" using "6.prems"(2) by auto
  ultimately show ?case by (simp add: comp_def)
qed auto

lemma parse_js_stringify:
  assumes "wf_json j"
  shows "stringify (val_of_json 0 j) = Inr (Some (json_str j))" "parse_js (json_str j) = Inr (val_of_json 0 j)"
  using jsonify_val_of_json [OF assms, of "[]" 0] json_parse_str [OF assms]
  by (simp_all add: stringify_def parse_js_def)

end
