(* ===== verification/EventId.thy ===== *)
theory EventId
  imports JsValue "HOL-Library.Word"
begin

text \<open>
  \<^verbatim>\<open>src/core/hash.ts\<close>, \<^verbatim>\<open>src/diff/hash.ts\<close> and \<^verbatim>\<open>src/diff/event-id.ts\<close>. SHA-256 is the platform's Web
  Crypto, which is not part of the repository: it is the parameter \<open>sha256\<close> (bytes of the digest of
  a text) of the definitions that use it. The 53-bit bucket hash works on 32-bit words.
\<close>

unbundle bit_operations_syntax

section \<open>\<^verbatim>\<open>src/core/hash.ts\<close>\<close>

type_synonym u8 = "8 word"
type_synonym u32 = "32 word"

definition hex_digit :: "nat \<Rightarrow> char" where
  "hex_digit d = (if d < 10 then char_of (48 + d) else char_of (87 + d))"

definition hex_byte :: "u8 \<Rightarrow> string" where
  \<comment> \<open>one entry of the table \<^verbatim>\<open>HEX\<close>\<close>
  "hex_byte b = [hex_digit (unat b div 16), hex_digit (unat b mod 16)]"

definition toHex :: "u8 list \<Rightarrow> string" where
  "toHex bytes = concat (map hex_byte bytes)"

definition sha256Hex :: "(string \<Rightarrow> u8 list) \<Rightarrow> string \<Rightarrow> string" where
  "sha256Hex sha256 input = toHex (sha256 input)"

definition hashUrl :: "(string \<Rightarrow> u8 list) \<Rightarrow> string \<Rightarrow> string" where
  "hashUrl sha256 url = take 32 (sha256Hex sha256 url)"

fun cyrb53_loop :: "string \<Rightarrow> u32 \<Rightarrow> u32 \<Rightarrow> u32 \<times> u32" where
  "cyrb53_loop [] h1 h2 = (h1, h2)"
| "cyrb53_loop (c # cs) h1 h2 =
     cyrb53_loop cs ((h1 XOR of_char c) * 2654435761) ((h2 XOR of_char c) * 1597334677)"

definition cyrb53 :: "string \<Rightarrow> u32 \<Rightarrow> nat" where
  "cyrb53 str seed =
     (let (a1, a2) = cyrb53_loop str (0xdeadbeef XOR seed) (0x41c6ce57 XOR seed);
          b1 = (a1 XOR drop_bit 16 a1) * 2246822507;
          c1 = b1 XOR ((a2 XOR drop_bit 13 a2) * 3266489909);
          b2 = (a2 XOR drop_bit 16 a2) * 2246822507;
          c2 = b2 XOR ((c1 XOR drop_bit 13 c1) * 3266489909)
      in 4294967296 * unat (2097151 AND c2) + unat c1)"

section \<open>\<^verbatim>\<open>src/diff/event-id.ts\<close>\<close>

datatype event_type = Created | Updated | Deleted

fun event_type_str :: "event_type \<Rightarrow> string" where
  "event_type_str Created = ''created''"
| "event_type_str Updated = ''updated''"
| "event_type_str Deleted = ''deleted''"

record event_id_parts =
  ip_source :: string
  ip_partition :: string
  ip_identity :: string
  ip_version :: string
  ip_schemaVersion :: nat
  ip_type :: event_type

definition escapePart :: "string \<Rightarrow> string" where
  "escapePart part =
     concat (map (\<lambda>c. if c = CHR 0x5C \<or> c = CHR 0x7C then [CHR 0x5C, c] else [c]) part)"

definition eventIdMaterial :: "event_id_parts \<Rightarrow> string" where
  "eventIdMaterial p =
     ''watukuy|v1|'' @
     sep_join ''|'' (map escapePart
       [ip_source p, ip_partition p, ip_identity p, ip_version p, nat_str (ip_schemaVersion p),
        event_type_str (ip_type p)])"

definition eventId :: "(string \<Rightarrow> u8 list) \<Rightarrow> event_id_parts \<Rightarrow> string" where
  "eventId sha256 p = sha256Hex sha256 (eventIdMaterial p)"

section \<open>\<^verbatim>\<open>src/diff/hash.ts\<close>\<close>

definition hashValue :: "(string \<Rightarrow> u8 list) \<Rightarrow> jsval \<Rightarrow> thrown + string" where
  "hashValue sha256 v = map_sum id (sha256Hex sha256) (canonicalize v)"

section \<open>Lemmas\<close>

lemma hex_digit_inj: "\<lbrakk> hex_digit a = hex_digit b; a < 16; b < 16 \<rbrakk> \<Longrightarrow> a = b"
  by (auto simp: hex_digit_def split: if_splits)

lemma hex_byte_inj: "hex_byte a = hex_byte b \<longleftrightarrow> a = b"
proof
  assume h: "hex_byte a = hex_byte b"
  have lt: "unat a < 256" "unat b < 256"
    using unsigned_less [of a, where ?'a = nat] unsigned_less [of b, where ?'a = nat] by simp_all
  with h have "unat a div 16 = unat b div 16" "unat a mod 16 = unat b mod 16"
    by (auto simp: hex_byte_def intro: hex_digit_inj)
  then have "unat a = unat b" by (metis div_mult_mod_eq)
  then show "a = b" by (metis unsigned_word_eqI)
qed simp

lemma length_hex_byte [simp]: "length (hex_byte b) = 2"
  by (simp add: hex_byte_def)

lemma length_toHex: "length (toHex bs) = 2 * length bs"
  by (induction bs) (simp_all add: toHex_def)

lemma toHex_inj: "toHex xs = toHex ys \<longleftrightarrow> xs = ys"
proof
  show "toHex xs = toHex ys \<Longrightarrow> xs = ys"
  proof (induction xs arbitrary: ys)
    case Nil
    then show ?case by (cases ys) (simp_all add: toHex_def hex_byte_def)
  next
    case (Cons x xs)
    then obtain y ys' where ys: "ys = y # ys'"
      using length_toHex [of ys] length_toHex [of "x # xs"] by (cases ys) auto
    with Cons.prems have "hex_byte x = hex_byte y \<and> toHex xs = toHex ys'"
      by (simp add: toHex_def)
    with Cons.IH ys show ?case by (simp add: hex_byte_inj)
  qed
qed simp

text \<open>
  Splitting at the first separator that is not escaped undoes the joining: the escaped parts can be
  read back one by one.
\<close>

fun read_part :: "string \<Rightarrow> string \<times> string option" where
  "read_part [] = ([], None)"
| "read_part [c] = (if c = CHR 0x7C then ([], Some []) else ([c], None))"
| "read_part (c # d # cs) =
     (if c = CHR 0x7C then ([], Some (d # cs))
      else if c = CHR 0x5C then map_prod (Cons d) id (read_part cs)
      else map_prod (Cons c) id (read_part (d # cs)))"

lemma escapePart_simps [simp]:
  "escapePart [] = []"
  "escapePart (c # cs) = (if c = CHR 0x5C \<or> c = CHR 0x7C then [CHR 0x5C, c] else [c]) @ escapePart cs"
  by (simp_all add: escapePart_def)

lemma read_part_end: "read_part (escapePart s) = (s, None)"
proof (induction s)
  case (Cons c s)
  then show ?case by (cases "escapePart s") auto
qed simp

lemma read_part_sep: "read_part (escapePart s @ CHR 0x7C # r) = (s, Some r)"
proof (induction s)
  case Nil
  then show ?case by (cases r) auto
next
  case (Cons c s)
  then show ?case by (cases "escapePart s @ CHR 0x7C # r") auto
qed

lemma join_escape_inj:
  "\<lbrakk> length xs = length ys; sep_join ''|'' (map escapePart xs) = sep_join ''|'' (map escapePart ys) \<rbrakk>
    \<Longrightarrow> xs = ys"
proof (induction xs ys rule: list_induct2)
  case (Cons x xs y ys)
  show ?case
  proof (cases xs)
    case Nil
    with Cons have "ys = []" by simp
    with Nil Cons.prems have "read_part (escapePart x) = read_part (escapePart y)" by simp
    with Nil \<open>ys = []\<close> show ?thesis by (simp add: read_part_end)
  next
    case (Cons x' xs')
    with Cons.hyps obtain y' ys' where ys: "ys = y' # ys'" by (cases ys) auto
    let ?jx = "sep_join ''|'' (map escapePart xs)" and ?jy = "sep_join ''|'' (map escapePart ys)"
    have "escapePart x @ CHR 0x7C # ?jx = escapePart y @ CHR 0x7C # ?jy"
      using Cons.prems Cons ys by simp
    then have "read_part (escapePart x @ CHR 0x7C # ?jx) = read_part (escapePart y @ CHR 0x7C # ?jy)"
      by simp
    then have "x = y" "?jx = ?jy" by (simp_all add: read_part_sep)
    with Cons.IH show ?thesis by simp
  qed
qed simp

lemma event_type_str_inj: "event_type_str a = event_type_str b \<longleftrightarrow> a = b"
  by (cases a; cases b) auto

lemma eventIdMaterial_inj_aux:
  assumes "eventIdMaterial p = eventIdMaterial q"
  shows "p = q"
proof -
  have "[ip_source p, ip_partition p, ip_identity p, ip_version p, nat_str (ip_schemaVersion p),
      event_type_str (ip_type p)]
    = [ip_source q, ip_partition q, ip_identity q, ip_version q, nat_str (ip_schemaVersion q),
      event_type_str (ip_type q)]"
    using assms by (intro join_escape_inj) (simp_all add: eventIdMaterial_def)
  then show ?thesis
    by (simp add: nat_str_inj event_type_str_inj)
qed

end
