(* ===== verification/Types.thy ===== *)
theory Types
  imports EventId
begin

text \<open>
  The data that the components share: \<^verbatim>\<open>src/core/store-types.ts\<close>, \<^verbatim>\<open>src/core/event.ts\<close> and the parts of
  \<^verbatim>\<open>src/core/poller-types.ts\<close> that describe a resolved poller and a poll. An optional field or a
  \<^verbatim>\<open>T | null\<close> is an option; \<^verbatim>\<open>Partial<...>\<close> patches are records of options. The callbacks of a
  poller (\<^verbatim>\<open>identity\<close>, \<^verbatim>\<open>version\<close>, \<^verbatim>\<open>fingerprint\<close>, the ordering key) are functions on JavaScript
  values: they are the user's code and parameters of everything that calls them.
\<close>

datatype lane = Live | Backfill | Reconcile | Replay

record pkey =
  k_poller :: string
  k_partition :: string

record lease =
  l_owner :: string
  l_epoch :: nat
  l_expiresAt :: number

section \<open>Schedules\<close>

datatype circuit_state = Closed | Open | HalfOpen

record poll_summary =
  ps_lane :: lane
  ps_startedAt :: number
  ps_durationMs :: number
  ps_pages :: nat
  ps_items :: nat
  ps_created :: nat
  ps_updated :: nat
  ps_deleted :: nat
  ps_notModified :: bool
  ps_truncated :: bool

record schedule_state =
  nextDueAt :: "number option"
  intervalMs :: "number option"
  consecutiveFailures :: nat
  circuit :: circuit_state
  circuitOpenedAt :: "number option"
  throttledUntil :: "number option"
  rateLimit :: "rate_limit_info option"
  lastPollAt :: "number option"
  lastPoll :: "poll_summary option"
  lastError :: "serialized_error option"

record backoff_cfg =
  bo_baseMs :: number
  bo_factor :: number
  bo_maxMs :: number

record schedule_cfg =
  sc_minMs :: number
  sc_maxMs :: number
  sc_adaptive :: bool
  sc_jitter :: number
  sc_backoff :: backoff_cfg

record circuit_cfg =
  ci_failures :: nat
  ci_probeEveryMs :: number

section \<open>Persisted state of a key\<close>

record lane_cursor =
  lc_cursor :: "string option"
  lc_target :: "string option"
  lc_done :: "bool option"
  lc_lastRunAt :: "number option"
  lc_force :: "bool option"

type_synonym lanes = "lane \<Rightarrow> lane_cursor option"

record poller_state =
  st_lanes :: lanes
  st_schedule :: schedule_state
  st_paused :: bool
  st_schemaVersion :: "nat option"
  st_sequence :: nat
  st_createdAt :: number
  st_updatedAt :: number

record state_patch =
  sp_lanes :: "lanes option"
  sp_schedule :: "schedule_state option"
  sp_paused :: "bool option"
  sp_schemaVersion :: "nat option option"
  sp_sequence :: "nat option"
  sp_updatedAt :: "number option"

definition no_patch :: state_patch where
  "no_patch = \<lparr>sp_lanes = None, sp_schedule = None, sp_paused = None, sp_schemaVersion = None,
     sp_sequence = None, sp_updatedAt = None\<rparr>"

record item_row =
  ir_identity :: string
  ir_version :: "string option"
  ir_hash :: string
  ir_schemaVersion :: nat
  ir_payload :: "jsval option"
  ir_seenAt :: number

section \<open>Events, outbox, parked rows, log\<close>

record event =
  ev_id :: string
  ev_type :: event_type
  ev_source :: string
  ev_subject :: string
  ev_time :: string
  ev_poller :: string
  ev_partition :: string
  ev_lane :: lane
  ev_sequence :: nat
  ev_cursor :: json
  ev_data :: jsval
  ev_previous :: "jsval option"
  ev_attempt :: nat

datatype outbox_status = Pending | Delivered

record outbox_row =
  ob_eventId :: string
  ob_sequence :: nat
  ob_event :: event
  ob_status :: outbox_status
  ob_attempts :: nat
  ob_nextAttemptAt :: "number option"
  ob_lastError :: "serialized_error option"
  ob_createdAt :: number

datatype parked_kind = Poison | Invalid

record parked_error =
  pe_error :: serialized_error
  pe_history :: "(number \<times> string) list option"
  pe_issues :: "issue list option"

record parked_row =
  pk_id :: string
  pk_kind :: parked_kind
  pk_event :: "event option"
  pk_item :: jsval
  pk_error :: parked_error
  pk_attempts :: nat
  pk_parkedAt :: number
  pk_holdKey :: "string option"

record validator =
  va_etag :: "string option"
  va_lastModified :: "string option"
  va_storedAt :: number

record logged_event =
  le_sequence :: nat
  le_event :: event
  le_createdAt :: number

record commit_batch =
  cb_statePatch :: state_patch
  cb_upserts :: "item_row list"
  cb_deletes :: "string list"
  cb_events :: "outbox_row list"
  cb_log :: bool
  cb_parked :: "parked_row list"

section \<open>A resolved poller\<close>

datatype retain = RetainHash | RetainPayload
datatype on_invalid = Quarantine | Skip | Fail
datatype on_schema_change = Rebaseline | Emit
datatype poison_action = Park | Halt
datatype ack_mode = AckAuto | AckManual

record delivery_cfg =
  dl_orderingKey :: "(event \<Rightarrow> thrown + string) option"
  dl_concurrency :: nat
  dl_attempts :: nat
  dl_backoff :: backoff_cfg
  dl_poisonAction :: poison_action
  dl_holdKey :: bool
  dl_ackMode :: ack_mode

text \<open>A Standard Schema validator on one item (\<^verbatim>\<open>src/core/standard-schema.ts\<close>): the parsed value or the issues,
  whose path segments are keys or objects with a key. A validator may throw. Whether it answers with a
  promise or a value makes no difference to the result.\<close>

datatype path_segment = SegKey string | SegObj string

record schema_issue =
  si_message :: string
  si_path :: "path_segment list option"

type_synonym schema = "jsval \<Rightarrow> thrown + (schema_issue list + jsval)"

end
