(* ===== verification/Memory_Store.thy ===== *)
theory Memory_Store
  imports Types
begin

text \<open>
  \<^verbatim>\<open>src/stores/memory/memory-store.ts\<close>, the reference implementation of the \<^verbatim>\<open>StateStore\<close> port
  (\<^verbatim>\<open>src/core/store-types.ts\<close>): leases with fencing epochs, the state, items, outbox, parked rows, validators
  and event log of every key. Every method is a function of the store that returns a result or throws. A
  method that calls \<^verbatim>\<open>record(key)\<close> creates the record of a key that has none, also when it then throws.
  \<^verbatim>\<open>structuredClone\<close> copies data, so it is the identity here (values it refuses are outside the model).
\<close>

section \<open>State\<close>

record key_record =
  kr_key :: pkey
  kr_state :: "poller_state option"
  kr_lease :: "lease option"
  kr_epochCounter :: nat
  kr_items :: "(string, item_row) jsmap"
  kr_outbox :: "(string, outbox_row) jsmap"
  kr_parked :: "(string, parked_row) jsmap"
  kr_validators :: "(string, validator) jsmap"
  kr_log :: "logged_event list"

type_synonym store = "(string, key_record) jsmap"
type_synonym 'a store_op = "(store, thrown, 'a) io"

definition empty_schedule :: schedule_state where
  "empty_schedule = \<lparr>nextDueAt = None, intervalMs = None, consecutiveFailures = 0, circuit = Closed,
     circuitOpenedAt = None, throttledUntil = None, rateLimit = None, lastPollAt = None, lastPoll = None,
     lastError = None\<rparr>"

definition emptyPollerState :: "number \<Rightarrow> poller_state" where
  "emptyPollerState now = \<lparr>st_lanes = (\<lambda>_. None), st_schedule = empty_schedule, st_paused = False,
     st_schemaVersion = None, st_sequence = 0, st_createdAt = now, st_updatedAt = now\<rparr>"

definition key_id :: "pkey \<Rightarrow> string" where
  "key_id key = json_str (JArr [JStr (k_poller key), JStr (k_partition key)])"

definition fresh_record :: "pkey \<Rightarrow> key_record" where
  "fresh_record key = \<lparr>kr_key = key, kr_state = None, kr_lease = None, kr_epochCounter = 0, kr_items = [],
     kr_outbox = [], kr_parked = [], kr_validators = [], kr_log = []\<rparr>"

definition peek :: "store \<Rightarrow> pkey \<Rightarrow> key_record option" where
  "peek st key = map_of st (key_id key)"

text \<open>What a key's record holds: the stored one, or the empty one that \<^verbatim>\<open>record(key)\<close> would create.\<close>

definition rec_of :: "store \<Rightarrow> pkey \<Rightarrow> key_record" where
  "rec_of st key = (case peek st key of None \<Rightarrow> fresh_record key | Some r \<Rightarrow> r)"

definition put :: "pkey \<Rightarrow> key_record \<Rightarrow> store \<Rightarrow> store" where
  "put key r st = AList.update (key_id key) r st"

definition with_record :: "pkey \<Rightarrow> (key_record \<Rightarrow> (thrown + 'a) \<times> key_record) \<Rightarrow> 'a store_op" where
  "with_record key f = (\<lambda>st. case f (rec_of st key) of (res, r) \<Rightarrow> (res, put key r st))"

definition matches :: "key_record \<Rightarrow> lease \<Rightarrow> bool" where
  "matches r lease \<longleftrightarrow> (case kr_lease r of None \<Rightarrow> False | Some l \<Rightarrow> l_owner l = l_owner lease \<and> l_epoch l = l_epoch lease)"

definition fence :: "pkey \<Rightarrow> key_record \<Rightarrow> lease \<Rightarrow> thrown + unit" where
  "fence key r lease =
     (if \<not> matches r lease then Inl (leaseLostError (k_poller key) (k_partition key) (l_epoch lease)) else Inr ())"

definition fenced :: "pkey \<Rightarrow> lease \<Rightarrow> (key_record \<Rightarrow> key_record) \<Rightarrow> unit store_op" where
  \<comment> \<open>\<^verbatim>\<open>const rec = this.record(key); this.fence(key, rec, lease); ...\<close>\<close>
  "fenced key lease f =
     with_record key (\<lambda>r. case fence key r lease of Inl e \<Rightarrow> (Inl e, r) | Inr _ \<Rightarrow> (Inr (), f r))"

section \<open>Leases\<close>

definition acquireLease :: "pkey \<Rightarrow> string \<Rightarrow> number \<Rightarrow> number \<Rightarrow> lease option store_op" where
  "acquireLease key owner ttlMs now =
     with_record key (\<lambda>r.
       if (case kr_lease r of None \<Rightarrow> False | Some current \<Rightarrow> l_expiresAt current > now \<and> l_owner current \<noteq> owner)
       then (Inr None, r)
       else let epoch = kr_epochCounter r + 1; l = \<lparr>l_owner = owner, l_epoch = epoch, l_expiresAt = now + ttlMs\<rparr>
            in (Inr (Some l), r\<lparr>kr_epochCounter := epoch, kr_lease := Some l\<rparr>))"

definition renewLease :: "pkey \<Rightarrow> lease \<Rightarrow> number \<Rightarrow> number \<Rightarrow> bool store_op" where
  "renewLease key lease ttlMs now =
     with_record key (\<lambda>r.
       if \<not> matches r lease then (Inr False, r)
       else (Inr True, r\<lparr>kr_lease := map_option (\<lambda>l. l\<lparr>l_expiresAt := now + ttlMs\<rparr>) (kr_lease r)\<rparr>))"

definition releaseLease :: "pkey \<Rightarrow> lease \<Rightarrow> unit store_op" where
  "releaseLease key lease =
     with_record key (\<lambda>r. (Inr (), if matches r lease then r\<lparr>kr_lease := None\<rparr> else r))"

definition getLease :: "pkey \<Rightarrow> lease option store_op" where
  "getLease key = getsE (\<lambda>st. Option.bind (peek st key) kr_lease)"

section \<open>State\<close>

definition loadState :: "pkey \<Rightarrow> poller_state option store_op" where
  "loadState key = getsE (\<lambda>st. Option.bind (peek st key) kr_state)"

definition patched :: "poller_state \<Rightarrow> state_patch \<Rightarrow> poller_state" where
  "patched base patch =
     \<lparr>st_lanes = opt_or (sp_lanes patch) (st_lanes base), st_schedule = opt_or (sp_schedule patch) (st_schedule base),
      st_paused = opt_or (sp_paused patch) (st_paused base),
      st_schemaVersion = opt_or (sp_schemaVersion patch) (st_schemaVersion base),
      st_sequence = opt_or (sp_sequence patch) (st_sequence base), st_createdAt = st_createdAt base,
      st_updatedAt = opt_or (sp_updatedAt patch) (st_updatedAt base)\<rparr>"

definition applyPatch :: "key_record \<Rightarrow> state_patch \<Rightarrow> key_record" where
  "applyPatch r patch =
     (let base = opt_or (kr_state r) (emptyPollerState (opt_or (sp_updatedAt patch) 0))
      in r\<lparr>kr_state := Some (patched base patch)\<rparr>)"

definition saveState :: "pkey \<Rightarrow> lease \<Rightarrow> state_patch \<Rightarrow> unit store_op" where
  "saveState key lease patch = fenced key lease (\<lambda>r. applyPatch r patch)"

definition saveStateUnfenced :: "pkey \<Rightarrow> state_patch \<Rightarrow> unit store_op" where
  "saveStateUnfenced key patch = with_record key (\<lambda>r. (Inr (), applyPatch r patch))"

definition listKeys :: "string option \<Rightarrow> pkey list store_op" where
  "listKeys poller =
     getsE (\<lambda>st. filter (\<lambda>k. poller = None \<or> Some (k_poller k) = poller) (map (\<lambda>(_, r). kr_key r) st))"

definition deleteKey :: "pkey \<Rightarrow> unit store_op" where
  "deleteKey key = modifyE (\<lambda>st. AList.delete (key_id key) st)"

definition update_existing :: "pkey \<Rightarrow> 'a \<Rightarrow> (key_record \<Rightarrow> 'a \<times> key_record) \<Rightarrow> 'a store_op" where
  \<comment> \<open>\<^verbatim>\<open>const rec = this.peek(key); if (!rec) return d; ...\<close>\<close>
  "update_existing key d f =
     (\<lambda>st. case peek st key of None \<Rightarrow> (Inr d, st) | Some r \<Rightarrow> (case f r of (res, r') \<Rightarrow> (Inr res, put key r' st)))"

definition clearItems :: "pkey \<Rightarrow> unit store_op" where
  "clearItems key = update_existing key () (\<lambda>r. ((), r\<lparr>kr_items := []\<rparr>))"

section \<open>Items\<close>

fun versions_of :: "(string, item_row) jsmap \<Rightarrow> string list \<Rightarrow> (string, item_row) jsmap \<Rightarrow> (string, item_row) jsmap" where
  "versions_of items [] out = out"
| "versions_of items (i # is) out =
     versions_of items is (case map_of items i of None \<Rightarrow> out | Some row \<Rightarrow> AList.update i row out)"

definition loadVersions :: "pkey \<Rightarrow> string list \<Rightarrow> (string, item_row) jsmap store_op" where
  "loadVersions key identities =
     getsE (\<lambda>st. case peek st key of None \<Rightarrow> [] | Some r \<Rightarrow> versions_of (kr_items r) identities [])"

text \<open>The batches of \<^verbatim>\<open>streamIdentities\<close> for a positive batch size.\<close>

function batches :: "nat \<Rightarrow> 'a list \<Rightarrow> 'a list list" where
  "batches n xs = (if xs = [] \<or> n = 0 then [] else take n xs # batches n (drop n xs))"
  by pat_completeness auto
termination
  by (relation "measure (\<lambda>(n, xs). length xs)") auto

declare batches.simps [simp del]

definition streamIdentities :: "pkey \<Rightarrow> nat \<Rightarrow> string list list store_op" where
  "streamIdentities key batchSize =
     getsE (\<lambda>st. case peek st key of None \<Rightarrow> [] | Some r \<Rightarrow> batches batchSize (map fst (kr_items r)))"

definition countItems :: "pkey \<Rightarrow> nat store_op" where
  "countItems key = getsE (\<lambda>st. case peek st key of None \<Rightarrow> 0 | Some r \<Rightarrow> length (kr_items r))"

section \<open>Commit and outbox\<close>

definition log_entry :: "outbox_row \<Rightarrow> logged_event" where
  "log_entry row = \<lparr>le_sequence = ob_sequence row, le_event = ob_event row, le_createdAt = ob_createdAt row\<rparr>"

definition commit_record :: "commit_batch \<Rightarrow> key_record \<Rightarrow> key_record" where
  "commit_record batch r =
     (let items = delete_all (cb_deletes batch) (set_all ir_identity (\<lambda>x. x) (cb_upserts batch) (kr_items r));
          outbox = set_all ob_eventId (\<lambda>x. x) (cb_events batch) (kr_outbox r);
          parked = set_all pk_id (\<lambda>x. x) (cb_parked batch) (kr_parked r);
          log = (if cb_log batch then kr_log r @ map log_entry (cb_events batch) else kr_log r)
      in (applyPatch r (cb_statePatch batch))\<lparr>kr_items := items, kr_outbox := outbox, kr_parked := parked, kr_log := log\<rparr>)"

definition commitPoll :: "pkey \<Rightarrow> lease \<Rightarrow> commit_batch \<Rightarrow> unit store_op" where
  "commitPoll key lease batch = fenced key lease (commit_record batch)"

definition pending_rows :: "key_record \<Rightarrow> outbox_row list" where
  "pending_rows r = js_sort_by ob_sequence (filter (\<lambda>row. ob_status row = Pending) (map snd (kr_outbox r)))"

definition loadPending :: "pkey \<Rightarrow> nat \<Rightarrow> outbox_row list store_op" where
  "loadPending key limit = getsE (\<lambda>st. case peek st key of None \<Rightarrow> [] | Some r \<Rightarrow> take limit (pending_rows r))"

definition countPending :: "pkey \<Rightarrow> nat store_op" where
  "countPending key =
     getsE (\<lambda>st. case peek st key of None \<Rightarrow> 0
                 | Some r \<Rightarrow> length (filter (\<lambda>row. ob_status row = Pending) (map snd (kr_outbox r))))"

definition ackEvents :: "pkey \<Rightarrow> lease \<Rightarrow> string list \<Rightarrow> unit store_op" where
  "ackEvents key lease ids = fenced key lease (\<lambda>r. r\<lparr>kr_outbox := delete_all ids (kr_outbox r)\<rparr>)"

definition recordAttempt ::
  "pkey \<Rightarrow> lease \<Rightarrow> string \<Rightarrow> serialized_error option \<Rightarrow> number option \<Rightarrow> unit store_op" where
  "recordAttempt key lease eid error nextAttemptAt =
     fenced key lease (\<lambda>r.
       case map_of (kr_outbox r) eid of
         None \<Rightarrow> r
       | Some row \<Rightarrow>
           r\<lparr>kr_outbox := AList.update eid
               (row\<lparr>ob_attempts := ob_attempts row + 1, ob_lastError := error, ob_nextAttemptAt := nextAttemptAt\<rparr>)
               (kr_outbox r)\<rparr>)"

section \<open>Parked rows\<close>

definition parkEvent :: "pkey \<Rightarrow> lease \<Rightarrow> parked_row \<Rightarrow> unit store_op" where
  "parkEvent key lease row =
     fenced key lease (\<lambda>r.
       r\<lparr>kr_parked := AList.update (pk_id row) row (kr_parked r),
         kr_outbox := (case pk_event row of None \<Rightarrow> kr_outbox r | Some ev \<Rightarrow> AList.delete (ev_id ev) (kr_outbox r))\<rparr>)"

definition listParked :: "pkey \<Rightarrow> parked_kind option \<Rightarrow> nat option \<Rightarrow> parked_row list store_op" where
  "listParked key kind limit =
     getsE (\<lambda>st.
       let rows = js_sort_by pk_parkedAt
             (filter (\<lambda>row. kind = None \<or> Some (pk_kind row) = kind)
               (case peek st key of None \<Rightarrow> [] | Some r \<Rightarrow> map snd (kr_parked r)))
       in take (opt_or limit (length rows)) rows)"

definition countParked :: "pkey \<Rightarrow> nat store_op" where
  "countParked key = getsE (\<lambda>st. case peek st key of None \<Rightarrow> 0 | Some r \<Rightarrow> length (kr_parked r))"

definition retried_row :: "event \<Rightarrow> number \<Rightarrow> outbox_row" where
  "retried_row ev parkedAt = \<lparr>ob_eventId = ev_id ev, ob_sequence = ev_sequence ev, ob_event = ev, ob_status = Pending,
     ob_attempts = 0, ob_nextAttemptAt = None, ob_lastError = None, ob_createdAt = parkedAt\<rparr>"

fun retry_loop :: "string list \<Rightarrow> nat \<Rightarrow> key_record \<Rightarrow> nat \<times> key_record" where
  "retry_loop [] n r = (n, r)"
| "retry_loop (i # ids) n r =
     (case map_of (kr_parked r) i of
        None \<Rightarrow> retry_loop ids n r
      | Some row \<Rightarrow>
          (case (pk_kind row, pk_event row) of
             (Poison, Some ev) \<Rightarrow>
               retry_loop ids (n + 1)
                 (r\<lparr>kr_outbox := AList.update (ev_id ev) (retried_row ev (pk_parkedAt row)) (kr_outbox r),
                    kr_parked := AList.delete i (kr_parked r)\<rparr>)
           | _ \<Rightarrow> retry_loop ids n r))"

definition retryParked :: "pkey \<Rightarrow> string list \<Rightarrow> nat store_op" where
  "retryParked key ids = update_existing key 0 (retry_loop ids 0)"

fun discard_loop :: "string list \<Rightarrow> nat \<Rightarrow> key_record \<Rightarrow> nat \<times> key_record" where
  "discard_loop [] n r = (n, r)"
| "discard_loop (i # ids) n r =
     discard_loop ids (if map_of (kr_parked r) i \<noteq> None then n + 1 else n) (r\<lparr>kr_parked := AList.delete i (kr_parked r)\<rparr>)"

definition discardParked :: "pkey \<Rightarrow> string list \<Rightarrow> nat store_op" where
  "discardParked key ids = update_existing key 0 (discard_loop ids 0)"

definition held_of :: "key_record \<Rightarrow> string set" where
  "held_of r = set (List.map_filter (\<lambda>(_, row). pk_holdKey row) (kr_parked r))"

definition heldKeys :: "pkey \<Rightarrow> string set store_op" where
  "heldKeys key = getsE (\<lambda>st. case peek st key of None \<Rightarrow> {} | Some r \<Rightarrow> held_of r)"

section \<open>Validators and the log\<close>

definition getValidator :: "pkey \<Rightarrow> string \<Rightarrow> validator option store_op" where
  "getValidator key urlHash = getsE (\<lambda>st. Option.bind (peek st key) (\<lambda>r. map_of (kr_validators r) urlHash))"

definition setValidator :: "pkey \<Rightarrow> lease \<Rightarrow> string \<Rightarrow> validator \<Rightarrow> unit store_op" where
  "setValidator key lease urlHash v =
     fenced key lease (\<lambda>r. r\<lparr>kr_validators := AList.update urlHash v (kr_validators r)\<rparr>)"

record log_range =
  lr_afterSequence :: "nat option"
  lr_fromTime :: "number option"
  lr_toTime :: "number option"

definition in_range :: "log_range \<Rightarrow> logged_event \<Rightarrow> bool" where
  "in_range rg e \<longleftrightarrow>
     (case lr_afterSequence rg of None \<Rightarrow> True | Some s \<Rightarrow> le_sequence e > s)
   \<and> (case lr_fromTime rg of None \<Rightarrow> True | Some t \<Rightarrow> le_createdAt e \<ge> t)
   \<and> (case lr_toTime rg of None \<Rightarrow> True | Some t \<Rightarrow> le_createdAt e \<le> t)"

definition readLog :: "pkey \<Rightarrow> log_range \<Rightarrow> nat \<Rightarrow> logged_event list store_op" where
  "readLog key rg limit =
     getsE (\<lambda>st. take limit (js_sort_by le_sequence
       (filter (in_range rg) (case peek st key of None \<Rightarrow> [] | Some r \<Rightarrow> kr_log r))))"

definition pruneLog :: "pkey \<Rightarrow> number \<Rightarrow> nat store_op" where
  "pruneLog key olderThan =
     update_existing key 0 (\<lambda>r.
       let kept = filter (\<lambda>e. le_createdAt e \<ge> olderThan) (kr_log r)
       in (length (kr_log r) - length kept, r\<lparr>kr_log := kept\<rparr>))"

definition debugSize :: "store \<Rightarrow> nat \<times> nat \<times> nat \<times> nat \<times> nat" where
  "debugSize st =
     (length st, sum_list (map (\<lambda>(_, r). length (kr_items r)) st), sum_list (map (\<lambda>(_, r). length (kr_outbox r)) st),
      sum_list (map (\<lambda>(_, r). length (kr_parked r)) st), sum_list (map (\<lambda>(_, r). length (kr_log r)) st))"

section \<open>How the operations act on the records\<close>

lemma key_id_inj: "key_id k = key_id k' \<longleftrightarrow> k = k'"
proof
  assume "key_id k = key_id k'"
  then have "JArr [JStr (k_poller k), JStr (k_partition k)] = JArr [JStr (k_poller k'), JStr (k_partition k')]"
    unfolding key_id_def by (intro json_str_inj) simp_all
  then show "k = k'" by simp
qed simp

lemma rec_of_put [simp]: "rec_of (put key r st) k = (if k = key then r else rec_of st k)"
  by (simp add: rec_of_def peek_def put_def key_id_inj)

lemma with_record_rec:
  "rec_of (snd (with_record key f st)) k = (if k = key then snd (f (rec_of st key)) else rec_of st k)"
  by (simp add: with_record_def split: prod.splits)

lemma with_record_res: "fst (with_record key f st) = fst (f (rec_of st key))"
  by (simp add: with_record_def split: prod.splits)

lemma fenced_res:
  "fst (fenced key lease f st) =
     (if matches (rec_of st key) lease then Inr ()
      else Inl (leaseLostError (k_poller key) (k_partition key) (l_epoch lease)))"
  by (simp add: fenced_def with_record_res fence_def)

lemma fenced_rec:
  "rec_of (snd (fenced key lease f st)) k =
     (if k = key \<and> matches (rec_of st key) lease then f (rec_of st key) else rec_of st k)"
  by (simp add: fenced_def with_record_rec fence_def)

lemma update_existing_rec:
  "snd (f (fresh_record key)) = fresh_record key \<Longrightarrow>
   rec_of (snd (update_existing key d f st)) k = (if k = key then snd (f (rec_of st key)) else rec_of st k)"
  by (auto simp: update_existing_def rec_of_def peek_def put_def key_id_inj split: option.splits prod.splits)

lemma gets_rec [simp]: "snd (getsE f st) = st"
  by (simp add: getsE_def)

lemma retry_loop_fresh [simp]: "retry_loop ids n (fresh_record key) = (n, fresh_record key)"
  by (induction ids) (simp_all add: fresh_record_def)

lemma discard_loop_fresh [simp]: "discard_loop ids n (fresh_record key) = (n, fresh_record key)"
  by (induction ids) (simp_all add: fresh_record_def)

section \<open>Commands\<close>

text \<open>The methods that change the store, as commands: what other instances, the command line and the runner
  itself may interleave.\<close>

datatype store_cmd =
    Acquire pkey string number number | Renew pkey lease number number | Release pkey lease
  | Save pkey lease state_patch | SaveUnfenced pkey state_patch | DeleteKey pkey | Clear pkey
  | Commit pkey lease commit_batch | Ack pkey lease "string list"
  | Attempt pkey lease string "serialized_error option" "number option" | ParkRow pkey lease parked_row
  | Retry pkey "string list" | Discard pkey "string list" | SetVal pkey lease string validator
  | Prune pkey number

fun exec :: "store_cmd \<Rightarrow> store \<Rightarrow> store" where
  "exec (Acquire k owner ttl now) st = snd (acquireLease k owner ttl now st)"
| "exec (Renew k l ttl now) st = snd (renewLease k l ttl now st)"
| "exec (Release k l) st = snd (releaseLease k l st)"
| "exec (Save k l patch) st = snd (saveState k l patch st)"
| "exec (SaveUnfenced k patch) st = snd (saveStateUnfenced k patch st)"
| "exec (DeleteKey k) st = snd (deleteKey k st)"
| "exec (Clear k) st = snd (clearItems k st)"
| "exec (Commit k l batch) st = snd (commitPoll k l batch st)"
| "exec (Ack k l ids) st = snd (ackEvents k l ids st)"
| "exec (Attempt k l eid err next) st = snd (recordAttempt k l eid err next st)"
| "exec (ParkRow k l row) st = snd (parkEvent k l row st)"
| "exec (Retry k ids) st = snd (retryParked k ids st)"
| "exec (Discard k ids) st = snd (discardParked k ids st)"
| "exec (SetVal k l h v) st = snd (setValidator k l h v st)"
| "exec (Prune k t) st = snd (pruneLog k t st)"

fun is_delete :: "store_cmd \<Rightarrow> bool" where
  "is_delete (DeleteKey _) = True"
| "is_delete _ = False"

inductive store_step :: "store \<Rightarrow> store \<Rightarrow> bool" where
  step: "\<not> is_delete c \<Longrightarrow> store_step st (exec c st)"

text \<open>The change a command makes to the record of its key.\<close>

fun cmd_key :: "store_cmd \<Rightarrow> pkey" where
  "cmd_key (Acquire k _ _ _) = k"
| "cmd_key (Renew k _ _ _) = k"
| "cmd_key (Release k _) = k"
| "cmd_key (Save k _ _) = k"
| "cmd_key (SaveUnfenced k _) = k"
| "cmd_key (DeleteKey k) = k"
| "cmd_key (Clear k) = k"
| "cmd_key (Commit k _ _) = k"
| "cmd_key (Ack k _ _) = k"
| "cmd_key (Attempt k _ _ _ _) = k"
| "cmd_key (ParkRow k _ _) = k"
| "cmd_key (Retry k _) = k"
| "cmd_key (Discard k _) = k"
| "cmd_key (SetVal k _ _ _) = k"
| "cmd_key (Prune k _) = k"

lemmas op_defs = acquireLease_def renewLease_def releaseLease_def saveState_def saveStateUnfenced_def clearItems_def
  commitPoll_def ackEvents_def recordAttempt_def parkEvent_def retryParked_def discardParked_def setValidator_def
  pruneLog_def

lemma exec_other_key: "k \<noteq> cmd_key c \<Longrightarrow> rec_of (exec c st) k = rec_of st k"
  by (cases c) (auto simp: op_defs deleteKey_def modifyE_def rec_of_def peek_def key_id_inj with_record_def fenced_def
      update_existing_def put_def split: prod.splits option.splits)

section \<open>Leases and fencing\<close>

definition token_match :: "lease option \<Rightarrow> lease \<Rightarrow> bool" where
  "token_match cur l \<longleftrightarrow> (case cur of None \<Rightarrow> False | Some c \<Rightarrow> l_owner c = l_owner l \<and> l_epoch c = l_epoch l)"

text \<open>What every store promises about leases: the counter of a key never goes back, and a step that puts a
  lease in place which is not the one before it takes an epoch above the counter.\<close>

locale fenced_store =
  fixes step :: "'s \<Rightarrow> 's \<Rightarrow> bool"
    and lease_at :: "'s \<Rightarrow> pkey \<Rightarrow> lease option"
    and counter :: "'s \<Rightarrow> pkey \<Rightarrow> nat"
  assumes counter_mono: "step s t \<Longrightarrow> counter s k \<le> counter t k"
    and new_epoch: "step s t \<Longrightarrow> lease_at t k = Some l \<Longrightarrow> \<not> token_match (lease_at s k) l
      \<Longrightarrow> counter s k < l_epoch l \<and> l_epoch l \<le> counter t k"
begin

lemma counter_run: "step\<^sup>*\<^sup>* s t \<Longrightarrow> counter s k \<le> counter t k"
  by (induction rule: rtranclp_induct) (auto dest: counter_mono [of _ _ k])

lemma stale_step:
  assumes "step s t" "l_epoch old \<le> counter s k" "\<not> token_match (lease_at s k) old"
  shows "\<not> token_match (lease_at t k) old"
proof
  assume m: "token_match (lease_at t k) old"
  then obtain l where l: "lease_at t k = Some l" "l_owner l = l_owner old" "l_epoch l = l_epoch old"
    by (auto simp: token_match_def split: option.splits)
  have "\<not> token_match (lease_at s k) l"
    using assms(3) l(2,3) by (auto simp: token_match_def split: option.splits)
  then show False using new_epoch [OF assms(1) l(1)] l(3) assms(2) by simp
qed

lemma stale_forever:
  "step\<^sup>*\<^sup>* s t \<Longrightarrow> l_epoch old \<le> counter s k \<Longrightarrow> \<not> token_match (lease_at s k) old \<Longrightarrow> \<not> token_match (lease_at t k) old"
proof (induction rule: rtranclp_induct)
  case (step t u)
  have "counter s k \<le> counter t k" using counter_run [OF step.hyps(1)] .
  then show ?case using step stale_step [of t u old k] by simp
qed simp

lemma bounded_run:
  assumes "step\<^sup>*\<^sup>* s t" "\<And>l. lease_at s k = Some l \<Longrightarrow> l_epoch l \<le> counter s k" "lease_at t k = Some l"
  shows "l_epoch l \<le> counter t k"
  using assms
proof (induction arbitrary: l rule: rtranclp_induct)
  case (step t u)
  show ?case
  proof (cases "token_match (lease_at t k) l")
    case True
    then obtain l0 where "lease_at t k = Some l0" "l_epoch l0 = l_epoch l"
      by (auto simp: token_match_def split: option.splits)
    with step.IH [of l0] step.prems(1) show ?thesis using counter_mono [OF step.hyps(2), of k] by fastforce
  next
    case False
    then show ?thesis using new_epoch [OF step.hyps(2) step.prems(2)] by simp
  qed
qed blast

end

lemma applyPatch_fields [simp]:
  "kr_lease (applyPatch r p) = kr_lease r" "kr_epochCounter (applyPatch r p) = kr_epochCounter r"
  "kr_items (applyPatch r p) = kr_items r" "kr_outbox (applyPatch r p) = kr_outbox r"
  "kr_parked (applyPatch r p) = kr_parked r" "kr_log (applyPatch r p) = kr_log r"
  "kr_validators (applyPatch r p) = kr_validators r"
  by (simp_all add: applyPatch_def Let_def)

lemma commit_record_fields [simp]:
  "kr_lease (commit_record b r) = kr_lease r" "kr_epochCounter (commit_record b r) = kr_epochCounter r"
  "kr_outbox (commit_record b r) = set_all ob_eventId (\<lambda>x. x) (cb_events b) (kr_outbox r)"
  "kr_parked (commit_record b r) = set_all pk_id (\<lambda>x. x) (cb_parked b) (kr_parked r)"
  by (simp_all add: commit_record_def Let_def)

lemma retry_loop_lease [simp]:
  "kr_lease (snd (retry_loop ids n r)) = kr_lease r" "kr_epochCounter (snd (retry_loop ids n r)) = kr_epochCounter r"
  by (induction ids n r rule: retry_loop.induct) (auto split: option.splits parked_kind.splits)

lemma discard_loop_lease [simp]:
  "kr_lease (snd (discard_loop ids n r)) = kr_lease r" "kr_epochCounter (snd (discard_loop ids n r)) = kr_epochCounter r"
  "kr_outbox (snd (discard_loop ids n r)) = kr_outbox r"
  by (induction ids n r rule: discard_loop.induct) auto

lemma retry_rec: "rec_of (snd (retryParked key ids st)) k = (if k = key then snd (retry_loop ids 0 (rec_of st key)) else rec_of st k)"
  unfolding retryParked_def by (rule update_existing_rec) simp

lemma discard_rec: "rec_of (snd (discardParked key ids st)) k = (if k = key then snd (discard_loop ids 0 (rec_of st key)) else rec_of st k)"
  unfolding discardParked_def by (rule update_existing_rec) simp

lemma clear_rec: "rec_of (snd (clearItems key st)) k = (if k = key then (rec_of st key)\<lparr>kr_items := []\<rparr> else rec_of st k)"
  by (simp add: clearItems_def update_existing_rec fresh_record_def)

lemma prune_rec: "rec_of (snd (pruneLog key t st)) k =
    (if k = key then (rec_of st key)\<lparr>kr_log := filter (\<lambda>e. le_createdAt e \<ge> t) (kr_log (rec_of st key))\<rparr> else rec_of st k)"
  by (simp add: pruneLog_def update_existing_rec fresh_record_def Let_def)

lemmas rec_simps = with_record_rec with_record_res fenced_rec fenced_res retry_rec discard_rec clear_rec prune_rec

lemma recordAttempt_lease:
  "kr_lease (rec_of (snd (recordAttempt key l eid err next st)) k) = kr_lease (rec_of st k)"
  "kr_epochCounter (rec_of (snd (recordAttempt key l eid err next st)) k) = kr_epochCounter (rec_of st k)"
  by (auto simp: recordAttempt_def fenced_rec split: option.splits)

lemma exec_lease_same:
  assumes "\<not> is_delete c" "\<nexists>k owner ttl now. c = Acquire k owner ttl now" "\<nexists>k l ttl now. c = Renew k l ttl now"
    "\<nexists>k l. c = Release k l"
  shows "kr_lease (rec_of (exec c st) k) = kr_lease (rec_of st k)"
    "kr_epochCounter (rec_of (exec c st) k) = kr_epochCounter (rec_of st k)"
  using assms by (cases c; auto simp: rec_simps recordAttempt_lease saveState_def saveStateUnfenced_def commitPoll_def
      ackEvents_def parkEvent_def setValidator_def)+

lemma acquire_rec:
  "rec_of (snd (acquireLease key owner ttl now st)) k =
     (if k = key \<and> \<not> (\<exists>l. kr_lease (rec_of st key) = Some l \<and> l_expiresAt l > now \<and> l_owner l \<noteq> owner)
      then (rec_of st key)\<lparr>kr_epochCounter := kr_epochCounter (rec_of st key) + 1,
             kr_lease := Some \<lparr>l_owner = owner, l_epoch = kr_epochCounter (rec_of st key) + 1, l_expiresAt = now + ttl\<rparr>\<rparr>
      else rec_of st k)"
  by (auto simp: acquireLease_def with_record_rec Let_def split: option.splits)

lemma acquire_res:
  "fst (acquireLease key owner ttl now st) =
     Inr (if \<exists>l. kr_lease (rec_of st key) = Some l \<and> l_expiresAt l > now \<and> l_owner l \<noteq> owner then None
          else Some \<lparr>l_owner = owner, l_epoch = kr_epochCounter (rec_of st key) + 1, l_expiresAt = now + ttl\<rparr>)"
  by (auto simp: acquireLease_def with_record_res Let_def split: option.splits)

lemma renew_rec:
  "rec_of (snd (renewLease key l ttl now st)) k =
     (if k = key \<and> matches (rec_of st key) l
      then (rec_of st key)\<lparr>kr_lease := map_option (\<lambda>l. l\<lparr>l_expiresAt := now + ttl\<rparr>) (kr_lease (rec_of st key))\<rparr>
      else rec_of st k)"
  by (auto simp: renewLease_def with_record_rec)

lemma release_rec:
  "rec_of (snd (releaseLease key l st)) k =
     (if k = key \<and> matches (rec_of st key) l then (rec_of st key)\<lparr>kr_lease := None\<rparr> else rec_of st k)"
  by (auto simp: releaseLease_def with_record_rec)

lemma matches_token: "matches r l \<longleftrightarrow> token_match (kr_lease r) l"
  by (simp add: matches_def token_match_def)

lemma exec_lease:
  assumes "\<not> is_delete c"
  shows "kr_epochCounter (rec_of st k) \<le> kr_epochCounter (rec_of (exec c st) k)"
    "\<lbrakk> kr_lease (rec_of (exec c st) k) = Some l; \<not> token_match (kr_lease (rec_of st k)) l \<rbrakk>
      \<Longrightarrow> kr_epochCounter (rec_of st k) < l_epoch l \<and> l_epoch l \<le> kr_epochCounter (rec_of (exec c st) k)"
proof -
  consider (acq) key owner ttl now where "c = Acquire key owner ttl now" | (ren) key l0 ttl now where "c = Renew key l0 ttl now"
    | (rel) key l0 where "c = Release key l0"
    | (other) "\<nexists>k owner ttl now. c = Acquire k owner ttl now" "\<nexists>k l ttl now. c = Renew k l ttl now" "\<nexists>k l. c = Release k l"
    by blast
  then show "kr_epochCounter (rec_of st k) \<le> kr_epochCounter (rec_of (exec c st) k)"
    "\<lbrakk> kr_lease (rec_of (exec c st) k) = Some l; \<not> token_match (kr_lease (rec_of st k)) l \<rbrakk>
      \<Longrightarrow> kr_epochCounter (rec_of st k) < l_epoch l \<and> l_epoch l \<le> kr_epochCounter (rec_of (exec c st) k)"
    by (cases; auto simp: acquire_rec renew_rec release_rec exec_lease_same [OF assms] token_match_def
        split: if_splits option.splits)+
qed

interpretation mem: fenced_store store_step "\<lambda>st k. kr_lease (rec_of st k)" "\<lambda>st k. kr_epochCounter (rec_of st k)"
  by unfold_locales (auto elim!: store_step.cases dest: exec_lease)

section \<open>Properties\<close>

lemma stale_fenced:
  "\<not> matches (rec_of st key) l \<Longrightarrow>
     fst (fenced key l f st) = Inl (leaseLostError (k_poller key) (k_partition key) (l_epoch l))
     \<and> rec_of (snd (fenced key l f st)) = rec_of st"
  by (auto simp: fenced_res fenced_rec)


definition sample_key :: pkey where
  "sample_key = \<lparr>k_poller = ''orders'', k_partition = ''''\<rparr>"

definition lease_a :: lease where
  "lease_a = \<lparr>l_owner = ''a'', l_epoch = 1, l_expiresAt = 10\<rparr>"

lemma rec_of_empty [simp]: "rec_of [] k = fresh_record k"
  by (simp add: rec_of_def peek_def)

lemma fresh_lease [simp]: "kr_lease (fresh_record k) = None" "kr_epochCounter (fresh_record k) = 0"
  by (simp_all add: fresh_record_def)


text \<open>Leases are exclusive: a lease is granted exactly when the key has no lease, the caller's own, or one that
  has expired at the given time; it carries an epoch above every earlier one and expires after the ttl;
  a refused request changes no record.\<close>

theorem lease_granted_iff:
  "(fst (acquireLease key owner ttlMs now st) = Inr None \<longleftrightarrow>
      (\<exists>l. kr_lease (rec_of st key) = Some l \<and> now < l_expiresAt l \<and> l_owner l \<noteq> owner))
   \<and> (\<forall>new. fst (acquireLease key owner ttlMs now st) = Inr (Some new) \<longrightarrow>
        new = \<lparr>l_owner = owner, l_epoch = kr_epochCounter (rec_of st key) + 1, l_expiresAt = now + ttlMs\<rparr>
        \<and> kr_lease (rec_of (snd (acquireLease key owner ttlMs now st)) key) = Some new)
   \<and> (fst (acquireLease key owner ttlMs now st) = Inr None \<longrightarrow> rec_of (snd (acquireLease key owner ttlMs now st)) = rec_of st)"
  by (auto simp: acquire_res acquire_rec)

theorem lease_granted_iff_witness:
  "fst (acquireLease sample_key ''b'' 10 5 (exec (Acquire sample_key ''a'' 10 0) [])) = Inr None"
  using lease_granted_iff [of sample_key "''b''" 10 5 "exec (Acquire sample_key ''a'' 10 0) []"]
  by (simp add: acquire_rec)

text \<open>A commit is all or nothing. With the current lease it succeeds and the record of the key holds every
  upserted row that the batch does not delete, none of the deleted ones and the other rows as before, every
  event in the outbox, every parked row, the log extended by the events when the poller logs, and the
  patched state; the lease and every other key stay as they are. With any other lease it throws and no
  record changes.\<close>

theorem commit_all_or_nothing:
  fixes st :: store and key :: pkey and lease :: lease and b :: commit_batch
  assumes "distinct (map ir_identity (cb_upserts b))" "distinct (map ob_eventId (cb_events b))"
    "distinct (map pk_id (cb_parked b))"
  defines "r \<equiv> rec_of st key" and "r' \<equiv> rec_of (snd (commitPoll key lease b st)) key"
  shows "if matches r lease
    then fst (commitPoll key lease b st) = Inr ()
      \<and> (\<forall>row \<in> set (cb_upserts b). ir_identity row \<notin> set (cb_deletes b)
            \<longrightarrow> map_of (kr_items r') (ir_identity row) = Some row)
      \<and> (\<forall>i \<in> set (cb_deletes b). map_of (kr_items r') i = None)
      \<and> (\<forall>i. i \<notin> ir_identity ` set (cb_upserts b) \<and> i \<notin> set (cb_deletes b) \<longrightarrow> map_of (kr_items r') i = map_of (kr_items r) i)
      \<and> (\<forall>row \<in> set (cb_events b). map_of (kr_outbox r') (ob_eventId row) = Some row)
      \<and> (\<forall>i. i \<notin> ob_eventId ` set (cb_events b) \<longrightarrow> map_of (kr_outbox r') i = map_of (kr_outbox r) i)
      \<and> (\<forall>row \<in> set (cb_parked b). map_of (kr_parked r') (pk_id row) = Some row)
      \<and> kr_log r' = kr_log r @ (if cb_log b then map log_entry (cb_events b) else [])
      \<and> kr_state r' = Some (patched (opt_or (kr_state r) (emptyPollerState (opt_or (sp_updatedAt (cb_statePatch b)) 0)))
                             (cb_statePatch b))
      \<and> kr_lease r' = kr_lease r \<and> (\<forall>k. k \<noteq> key \<longrightarrow> rec_of (snd (commitPoll key lease b st)) k = rec_of st k)
    else fst (commitPoll key lease b st) = Inl (leaseLostError (k_poller key) (k_partition key) (l_epoch lease))
      \<and> rec_of (snd (commitPoll key lease b st)) = rec_of st"
proof (cases "matches r lease")
  case True
  then have r': "r' = commit_record b r" "fst (commitPoll key lease b st) = Inr ()"
    by (simp_all add: r'_def r_def commitPoll_def fenced_rec fenced_res)
  have items: "kr_items r' = delete_all (cb_deletes b) (set_all ir_identity (\<lambda>x. x) (cb_upserts b) (kr_items r))"
    "kr_log r' = kr_log r @ (if cb_log b then map log_entry (cb_events b) else [])"
    "kr_state r' = kr_state (applyPatch r (cb_statePatch b))"
    by (simp_all add: r' commit_record_def Let_def)
  show ?thesis
    using True r'(2)
    by (simp add: items map_of_delete_all map_of_set_all_notin map_of_set_all_in [OF assms(1)])
      (simp add: r'(1) map_of_set_all_notin map_of_set_all_in [OF assms(2)] map_of_set_all_in [OF assms(3)]
        applyPatch_def Let_def commitPoll_def fenced_rec)
next
  case False
  then show ?thesis using stale_fenced [of st key lease] by (simp add: r_def commitPoll_def)
qed

definition sample_event :: "string \<Rightarrow> nat \<Rightarrow> event" where
  "sample_event i n = \<lparr>ev_id = i, ev_type = Created, ev_source = ''urn:watukuy:orders'', ev_subject = ''o1'',
     ev_time = '''', ev_poller = ''orders'', ev_partition = '''', ev_lane = Live, ev_sequence = n, ev_cursor = JNull,
     ev_data = VNull, ev_previous = None, ev_attempt = 0\<rparr>"

definition sample_row :: "string \<Rightarrow> nat \<Rightarrow> outbox_row" where
  "sample_row i n = retried_row (sample_event i n) 0"

definition sample_batch :: commit_batch where
  "sample_batch = \<lparr>cb_statePatch = no_patch, cb_upserts = [], cb_deletes = [''x''],
     cb_events = [sample_row ''e1'' 1, sample_row ''e2'' 2], cb_log = True, cb_parked = []\<rparr>"

theorem commit_all_or_nothing_witness:
  "map_of (kr_outbox (rec_of (snd (commitPoll sample_key lease_a sample_batch (exec (Acquire sample_key ''a'' 10 0) []))) sample_key))
     ''e2'' = Some (sample_row ''e2'' 2)"
proof -
  have "matches (rec_of (exec (Acquire sample_key ''a'' 10 0) []) sample_key) lease_a"
    by (simp add: acquire_rec matches_def lease_a_def)
  with commit_all_or_nothing [of sample_batch "exec (Acquire sample_key ''a'' 10 0) []" sample_key lease_a]
  show ?thesis by (simp add: sample_batch_def sample_row_def retried_row_def sample_event_def)
qed

section \<open>Events are never lost\<close>

text \<open>An event identifier is a hexadecimal digest, so it has no colon; the identifier of a quarantined item
  starts with \<^verbatim>\<open>invalid:\<close>.\<close>

definition plain_id :: "string \<Rightarrow> bool" where
  "plain_id s \<longleftrightarrow> CHR '':'' \<notin> set s"

definition row_ok :: "string \<Rightarrow> outbox_row \<Rightarrow> bool" where
  "row_ok i row \<longleftrightarrow> ob_eventId row = i \<and> ev_id (ob_event row) = i \<and> plain_id i"

definition parked_ok :: "string \<Rightarrow> parked_row \<Rightarrow> bool" where
  "parked_ok i row \<longleftrightarrow> pk_id row = i \<and>
     (case pk_kind row of
        Poison \<Rightarrow> plain_id i \<and> (\<exists>ev. pk_event row = Some ev \<and> ev_id ev = i)
      | Invalid \<Rightarrow> \<not> plain_id i \<and> pk_event row = None)"

definition rec_wf :: "key_record \<Rightarrow> bool" where
  "rec_wf r \<longleftrightarrow> (\<forall>i row. map_of (kr_outbox r) i = Some row \<longrightarrow> row_ok i row)
     \<and> (\<forall>i row. map_of (kr_parked r) i = Some row \<longrightarrow> parked_ok i row)"

fun cmd_wf :: "store_cmd \<Rightarrow> bool" where
  "cmd_wf (Commit k l b) = ((\<forall>row \<in> set (cb_events b). row_ok (ob_eventId row) row)
     \<and> (\<forall>row \<in> set (cb_parked b). pk_kind row = Invalid \<and> parked_ok (pk_id row) row))"
| "cmd_wf (ParkRow k l row) = (pk_kind row = Poison \<and> parked_ok (pk_id row) row)"
| "cmd_wf _ = True"

text \<open>The events of a key that no consumer has acknowledged: pending in the outbox, or parked.\<close>

definition undelivered :: "key_record \<Rightarrow> string set" where
  "undelivered r = dom (map_of (kr_outbox r)) \<union> {i. \<exists>row. map_of (kr_parked r) i = Some row \<and> pk_kind row = Poison}"

lemma rec_wf_poison:
  "\<lbrakk> rec_wf r; map_of (kr_parked r) i = Some row; pk_kind row = Poison \<rbrakk>
    \<Longrightarrow> plain_id i \<and> pk_id row = i \<and> (\<exists>ev. pk_event row = Some ev \<and> ev_id ev = i)"
  unfolding rec_wf_def parked_ok_def by fastforce

lemma retry_loop_keeps:
  "rec_wf r \<Longrightarrow> rec_wf (snd (retry_loop ids n r)) \<and> undelivered r \<subseteq> undelivered (snd (retry_loop ids n r))"
proof (induction ids n r rule: retry_loop.induct)
  case (2 i ids n r)
  show ?case
  proof (cases "\<exists>row ev. map_of (kr_parked r) i = Some row \<and> pk_kind row = Poison \<and> pk_event row = Some ev")
    case True
    then obtain row ev where row: "map_of (kr_parked r) i = Some row" "pk_kind row = Poison" "pk_event row = Some ev" by blast
    then have ev: "ev_id ev = i" "plain_id i"
      using rec_wf_poison [OF "2.prems" row(1,2)] row(3) by auto
    let ?r = "r\<lparr>kr_outbox := AList.update (ev_id ev) (retried_row ev (pk_parkedAt row)) (kr_outbox r),
                kr_parked := AList.delete i (kr_parked r)\<rparr>"
    have wf: "rec_wf ?r" using "2.prems" ev by (auto simp: rec_wf_def row_ok_def retried_row_def)
    have "undelivered r \<subseteq> undelivered ?r" using ev by (auto simp: undelivered_def)
    with "2.IH"(3) [OF row(1) refl row(2) row(3) wf] row show ?thesis by auto
  next
    case False
    then have "retry_loop (i # ids) n r = retry_loop ids n r"
      by (auto split: option.splits parked_kind.splits)
    moreover have "rec_wf (snd (retry_loop ids n r)) \<and> undelivered r \<subseteq> undelivered (snd (retry_loop ids n r))"
      using "2.IH" "2.prems" False by (cases "map_of (kr_parked r) i"; cases "pk_kind (the (map_of (kr_parked r) i))"; auto)
    ultimately show ?thesis by simp
  qed
qed simp

lemma commit_keeps:
  assumes "rec_wf r" "cmd_wf (Commit k l b)"
  shows "rec_wf (commit_record b r)" "undelivered r \<subseteq> undelivered (commit_record b r)"
proof -
  show "rec_wf (commit_record b r)"
    using assms unfolding rec_wf_def
    by (auto elim!: map_of_set_all_SomeE)
  have "map_of (set_all pk_id (\<lambda>x. x) (cb_parked b) (kr_parked r)) i = Some row"
    if "map_of (kr_parked r) i = Some row" "pk_kind row = Poison" for i row
  proof -
    have "plain_id i" using that rec_wf_poison [OF assms(1)] by blast
    then have "i \<notin> pk_id ` set (cb_parked b)" using assms(2) by (auto simp: parked_ok_def)
    then show ?thesis using that by (simp add: map_of_set_all_notin)
  qed
  moreover have "dom (map_of (kr_outbox r)) \<subseteq> dom (map_of (kr_outbox (commit_record b r)))"
    by (auto simp: dom_map_of_conv_image_fst keys_set_all)
  ultimately show "undelivered r \<subseteq> undelivered (commit_record b r)"
    unfolding undelivered_def by auto
qed

fun removes_events :: "store_cmd \<Rightarrow> bool" where
  "removes_events (Ack _ _ _) = True"
| "removes_events (Discard _ _) = True"
| "removes_events (DeleteKey _) = True"
| "removes_events _ = False"

lemma park_keeps:
  assumes "rec_wf r" "pk_kind row = Poison" "parked_ok (pk_id row) row"
  defines "r' \<equiv> r\<lparr>kr_parked := AList.update (pk_id row) row (kr_parked r),
         kr_outbox := (case pk_event row of None \<Rightarrow> kr_outbox r | Some ev \<Rightarrow> AList.delete (ev_id ev) (kr_outbox r))\<rparr>"
  shows "rec_wf r'" "undelivered r \<subseteq> undelivered r'"
proof -
  obtain ev where ev: "pk_event row = Some ev" "ev_id ev = pk_id row"
    using assms(2,3) by (auto simp: parked_ok_def)
  then show "rec_wf r'" "undelivered r \<subseteq> undelivered r'"
    using assms(1-3) by (auto simp: r'_def rec_wf_def undelivered_def split: if_splits)
qed

lemma attempt_keeps:
  fixes eid :: string and err :: "serialized_error option" and "next" :: "number option"
  assumes "rec_wf r"
  defines "r' \<equiv> (case map_of (kr_outbox r) eid of None \<Rightarrow> r | Some row \<Rightarrow>
      r\<lparr>kr_outbox := AList.update eid (row\<lparr>ob_attempts := ob_attempts row + 1, ob_lastError := err, ob_nextAttemptAt := next\<rparr>)
        (kr_outbox r)\<rparr>)"
  shows "rec_wf r'" "undelivered r = undelivered r'"
  using assms(1) by (auto simp: r'_def rec_wf_def undelivered_def row_ok_def split: option.splits if_splits)


lemma exec_keeps:
  assumes "cmd_wf c" "\<not> removes_events c" "rec_wf (rec_of st k)"
  shows "rec_wf (rec_of (exec c st) k) \<and> undelivered (rec_of st k) \<subseteq> undelivered (rec_of (exec c st) k)"
proof (cases "k = cmd_key c")
  case False
  then show ?thesis using assms(3) by (simp add: exec_other_key)
next
  case key: True
  show ?thesis
  proof (cases c)
    case (Commit k' l b)
    then show ?thesis using key commit_keeps [OF assms(3), of k' l b] assms(1,3)
      by (auto simp: commitPoll_def fenced_rec)
  next
    case (Attempt k' l eid err nxt)
    then show ?thesis using key attempt_keeps [OF assms(3)] assms(3)
      by (auto simp: recordAttempt_def fenced_rec)
  next
    case (ParkRow k' l row)
    then show ?thesis using key park_keeps [OF assms(3), of row] assms(1,3)
      by (auto simp: parkEvent_def fenced_rec)
  next
    case (Retry k' ids)
    then show ?thesis using key retry_loop_keeps [OF assms(3)] by (simp add: retry_rec)
  qed (use key assms in \<open>auto simp: rec_simps acquire_rec renew_rec release_rec saveState_def saveStateUnfenced_def
      setValidator_def rec_wf_def undelivered_def\<close>)
qed


text \<open>Acknowledging and discarding keep a record well-formed too.\<close>

lemma discard_loop_parked: "map_of (kr_parked (snd (discard_loop ids n r))) i = (if i \<in> set ids then None else map_of (kr_parked r) i)"
  by (induction ids n r rule: discard_loop.induct) auto

lemma exec_wf:
  assumes "cmd_wf c" "rec_wf (rec_of st k)"
  shows "rec_wf (rec_of (exec c st) k)"
proof (cases "removes_events c")
  case False
  then show ?thesis using exec_keeps [OF assms(1) _ assms(2)] by blast
next
  case True
  then show ?thesis
  proof (cases c rule: removes_events.cases)
    case (1 k' l ids)
    then show ?thesis using assms(2) by (auto simp: ackEvents_def fenced_rec rec_wf_def map_of_delete_all)
  next
    case (2 k' ids)
    then show ?thesis using assms(2) by (auto simp: discard_rec rec_wf_def discard_loop_parked)
  next
    case (3 k')
    then show ?thesis using assms(2)
      by (auto simp: deleteKey_def modifyE_def rec_of_def peek_def rec_wf_def fresh_record_def key_id_inj split: option.splits)
  qed (use True in auto)
qed

lemma fold_wf: "list_all cmd_wf cmds \<Longrightarrow> rec_wf (rec_of st k) \<Longrightarrow> rec_wf (rec_of (fold exec cmds st) k)"
  by (induction cmds arbitrary: st) (auto intro: exec_wf)

lemma fold_keeps:
  "\<lbrakk> list_all cmd_wf cmds; list_all (\<lambda>c. \<not> removes_events c) cmds; rec_wf (rec_of st k) \<rbrakk>
    \<Longrightarrow> undelivered (rec_of st k) \<subseteq> undelivered (rec_of (fold exec cmds st) k)"
proof (induction cmds arbitrary: st)
  case (Cons c cmds)
  then have "undelivered (rec_of st k) \<subseteq> undelivered (rec_of (exec c st) k)" "rec_wf (rec_of (exec c st) k)"
    using exec_keeps [of c st k] by auto
  then show ?case using Cons.IH [of "exec c st"] Cons.prems by auto
qed simp


definition poison_row :: parked_row where
  "poison_row = \<lparr>pk_id = ''e1'', pk_kind = Poison, pk_event = Some (sample_event ''e1'' 1), pk_item = VNull,
     pk_error = \<lparr>pe_error = serializeError (typeError ''down'') 0, pe_history = None, pe_issues = None\<rparr>,
     pk_attempts = 5, pk_parkedAt = 3, pk_holdKey = Some ''o1''\<rparr>"


text \<open>Parking and retrying an event is a round trip: after \<^verbatim>\<open>parkEvent\<close> the event is out of the outbox, and
  \<^verbatim>\<open>retryParked\<close> puts it back as a pending row with no attempts, due at once and at its old sequence
  number, counts it, and leaves no parked row of it.\<close>

theorem park_retry_roundtrip:
  assumes "matches (rec_of st key) lease" "pk_kind row = Poison" "pk_event row = Some ev" "pk_id row = ev_id ev"
  shows "let st1 = snd (parkEvent key lease row st); (res, st2) = retryParked key [pk_id row] st1 in
      map_of (kr_outbox (rec_of st1 key)) (ev_id ev) = None
    \<and> map_of (kr_parked (rec_of st1 key)) (pk_id row) = Some row
    \<and> res = Inr 1
    \<and> map_of (kr_outbox (rec_of st2 key)) (ev_id ev) = Some (retried_row ev (pk_parkedAt row))
    \<and> map_of (kr_parked (rec_of st2 key)) (pk_id row) = None"
proof -
  let ?st1 = "snd (parkEvent key lease row st)"
  have r1: "rec_of ?st1 key = (rec_of st key)\<lparr>kr_parked := AList.update (pk_id row) row (kr_parked (rec_of st key)),
       kr_outbox := AList.delete (ev_id ev) (kr_outbox (rec_of st key))\<rparr>"
    using assms by (simp add: parkEvent_def fenced_rec)
  have "peek ?st1 key \<noteq> None"
    by (simp add: parkEvent_def fenced_def with_record_def peek_def put_def split: prod.splits)
  then obtain r where r: "peek ?st1 key = Some r" "r = rec_of ?st1 key" by (auto simp: rec_of_def)
  have loop: "retry_loop [pk_id row] 0 r = (1, r\<lparr>kr_outbox := AList.update (ev_id ev) (retried_row ev (pk_parkedAt row)) (kr_outbox r),
      kr_parked := AList.delete (pk_id row) (kr_parked r)\<rparr>)"
    using assms r1 r(2) by simp
  have "retryParked key [pk_id row] ?st1 = (Inr 1, put key (r\<lparr>kr_outbox := AList.update (ev_id ev)
      (retried_row ev (pk_parkedAt row)) (kr_outbox r), kr_parked := AList.delete (pk_id row) (kr_parked r)\<rparr>) ?st1)"
    unfolding retryParked_def update_existing_def r(1) option.case loop by simp
  then show ?thesis using r1 assms(4) by (simp add: Let_def)
qed

theorem park_retry_roundtrip_witness:
  "fst (retryParked sample_key [''e1''] (snd (parkEvent sample_key lease_a poison_row
     (fold exec [Acquire sample_key ''a'' 10 0, Commit sample_key lease_a sample_batch] [])))) = Inr 1"
proof -
  have "matches (rec_of (fold exec [Acquire sample_key ''a'' 10 0, Commit sample_key lease_a sample_batch] []) sample_key) lease_a"
    by (simp add: acquire_rec commitPoll_def fenced_rec matches_def lease_a_def)
  from park_retry_roundtrip [OF this, of poison_row "sample_event ''e1'' 1"] show ?thesis
    by (simp add: poison_row_def sample_event_def Let_def split: prod.splits)
qed

text \<open>A refused renewal (or fenced write) on a key that was never written creates its record, so the key is listed.\<close>

lemma refused_renewal_lists_key:
  "fst (renewLease sample_key lease_a 10 0 []) = Inr False
    \<and> fst (listKeys None (snd (renewLease sample_key lease_a 10 0 []))) = Inr [sample_key]"
  by (simp add: renewLease_def with_record_def matches_def put_def listKeys_def getsE_def fresh_record_def rec_of_def peek_def)

end
