(* ===== verification/Duration.thy ===== *)
theory Duration
  imports Errors
begin

text \<open>
  \<^verbatim>\<open>src/core/duration.ts\<close>: durations given as numbers or as texts such as \<^verbatim>\<open>1.5s\<close>. The regular
  expression of the source is deterministic (digits, an optional fraction, blanks, a unit, blanks), so
  it is read from left to right.
\<close>

datatype duration = DurNum jsnum | DurStr string

definition unit_ms :: "string \<Rightarrow> nat option" where
  "unit_ms u = map_of [(''ms'', 1), (''s'', 1000), (''m'', 60000), (''h'', 3600000), (''d'', 86400000)] u"

definition re_space :: "char \<Rightarrow> bool" where
  "re_space c \<longleftrightarrow> c = CHR '' '' \<or> (9 \<le> (of_char c :: nat) \<and> (of_char c :: nat) \<le> 13) \<or> (of_char c :: nat) = 160"

definition trim_end :: "string \<Rightarrow> string" where
  "trim_end s = rev (dropWhile re_space (rev s))"

text \<open>The captured amount (integer digits, fraction digits) and the unit.\<close>

definition duration_re :: "string \<Rightarrow> (string \<times> string \<times> string) option" where
  "duration_re s =
     (let body = dropWhile re_space s;
          ip = takeWhile is_digit body;
          r1 = dropWhile is_digit body;
          (fp, r2) = (case r1 of
                        [] \<Rightarrow> ([], r1)
                      | c # r \<Rightarrow> if c = CHR ''.'' \<and> takeWhile is_digit r \<noteq> []
                                 then (takeWhile is_digit r, dropWhile is_digit r) else ([], r1));
          unit = trim_end (dropWhile re_space r2)
      in if ip = [] \<or> unit_ms unit = None then None else Some (ip, fp, unit))"

definition decimal_val :: "string \<Rightarrow> string \<Rightarrow> number" where
  "decimal_val ip fp = of_nat (str_nat ip) + of_nat (str_nat fp) / 10 ^ length fp"

definition parseDuration :: "duration \<Rightarrow> string \<Rightarrow> thrown + number" where
  "parseDuration d label =
     (case d of
        DurNum x \<Rightarrow>
          if \<not> finite_num x \<or> num_val x < 0 then
            Inl (configError (label @ '' must be a non-negative finite number of milliseconds, got '' @ num_str x))
          else Inr (num_val x)
      | DurStr s \<Rightarrow>
          (case duration_re s of
             None \<Rightarrow> Inl (configError (label @ '' must look like '' @ [CHR 0x27] @ ''250ms'' @ [CHR 0x27] @ '', ''
                 @ [CHR 0x27] @ ''5s'' @ [CHR 0x27] @ '', '' @ [CHR 0x27] @ ''2m'' @ [CHR 0x27] @ '', ''
                 @ [CHR 0x27] @ ''6h'' @ [CHR 0x27] @ '' or '' @ [CHR 0x27] @ ''1d'' @ [CHR 0x27] @ '', got '' @ quote s))
           | Some (ip, fp, unit) \<Rightarrow>
               Inr (js_round (decimal_val ip fp * of_nat (opt_or (unit_ms unit) 0)))))"

text \<open>\<^verbatim>\<open>String(n)\<close> of an integral number.\<close>

definition int_num_str :: "int \<Rightarrow> string" where
  "int_num_str i = num_str (mk_num (i < 0) (nat \<bar>i\<bar>) 0)"

fun num_int :: "jsnum \<Rightarrow> int option" where
  "num_int (Dec neg m e) =
     (if m = 0 then Some 0
      else if 0 \<le> e then Some ((if neg then -1 else 1) * int m * 10 ^ nat e)
      else None)"
| "num_int _ = None"

definition formatDuration :: "jsnum \<Rightarrow> string" where
  "formatDuration ms =
     (if \<not> finite_num ms then num_str ms
      else case num_int ms of
        None \<Rightarrow> num_str ms @ ''ms''
      | Some i \<Rightarrow>
          if i mod 86400000 = 0 \<and> i \<noteq> 0 then int_num_str (i div 86400000) @ ''d''
          else if i mod 3600000 = 0 \<and> i \<noteq> 0 then int_num_str (i div 3600000) @ ''h''
          else if i mod 60000 = 0 \<and> i \<noteq> 0 then int_num_str (i div 60000) @ ''m''
          else if i mod 1000 = 0 then int_num_str (i div 1000) @ ''s''
          else num_str ms @ ''ms'')"

section \<open>Lemmas\<close>

lemma digit_char_0 [simp]: "digit_char 0 = CHR ''0''"
  by code_simp

lemma nat_str_shift: "0 < m \<Longrightarrow> nat_str (m * 10 ^ j) = nat_str m @ replicate j CHR ''0''"
proof (induction j)
  case (Suc j)
  have eq: "m * 10 ^ Suc j = 10 * (m * 10 ^ j)" by simp
  have big: "10 \<le> m * 10 ^ Suc j" using Suc.prems by (simp add: eq)
  then have "nat_str (m * 10 ^ Suc j) = nat_str (m * 10 ^ j) @ [digit_char 0]"
    by (subst nat_str.simps) (simp add: eq)
  with Suc show ?case by (simp add: replicate_append_same)
qed simp

lemma length_nat_str: "n < 10 ^ k \<Longrightarrow> 0 < k \<Longrightarrow> length (nat_str n) \<le> k"
proof (induction n arbitrary: k rule: nat_str.induct)
  case (1 n)
  show ?case
  proof (cases "n < 10")
    case True
    then show ?thesis using "1.prems" by (subst nat_str.simps) simp
  next
    case False
    then obtain k' where k: "k = Suc k'" "0 < k'"
      using "1.prems" by (cases k; cases "k - 1") auto
    then have "n div 10 < 10 ^ k'" using "1.prems" by (simp add: div_less_iff_less_mult mult.commute)
    with False "1.IH" k show ?thesis by (subst nat_str.simps) simp
  qed
qed

lemma mk_num_form: "0 < n \<Longrightarrow> \<exists>m j. n = m * 10 ^ j \<and> m mod 10 \<noteq> 0 \<and> mk_num neg n e = Dec neg m (e + int j)"
proof (induction neg n e rule: mk_num.induct)
  case (1 neg n e)
  show ?case
  proof (cases "n mod 10 = 0")
    case True
    then have n: "n = n div 10 * 10" by (metis mod_0_imp_dvd dvd_div_mult_self)
    then have pos: "0 < n div 10" using "1.prems" by (metis gr0I mult_0)
    obtain m j where m: "n div 10 = m * 10 ^ j" "m mod 10 \<noteq> 0"
      "mk_num neg (n div 10) (e + 1) = Dec neg m (e + 1 + int j)"
      using "1.IH" True "1.prems" pos by auto
    have "mk_num neg n e = Dec neg m (e + int (Suc j))"
      using True "1.prems" m(3) by (subst mk_num.simps) simp
    moreover have "n = m * 10 ^ Suc j" using n m(1) by simp
    ultimately show ?thesis using m(2) by blast
  next
    case False
    then have "n = n * 10 ^ 0 \<and> n mod 10 \<noteq> 0 \<and> mk_num neg n e = Dec neg n (e + int 0)"
      using "1.prems" by (subst mk_num.simps) simp
    then show ?thesis by blast
  qed
qed

lemma int_num_str_small:
  assumes "n < 10 ^ 21"
  shows "int_num_str (int n) = nat_str n"
proof (cases "n = 0")
  case True
  then show ?thesis
    by (simp add: int_num_str_def mk_num_zero nat_str.simps [of 0])
next
  case False
  then obtain m j where m: "n = m * 10 ^ j" "m mod 10 \<noteq> 0" "mk_num False n 0 = Dec False m (int j)"
    using mk_num_form [of n False 0] by auto
  have pos: "0 < m" using m(2) by (cases m) auto
  have str: "nat_str n = nat_str m @ replicate j CHR ''0''"
    using nat_str_shift [OF pos] m(1) by simp
  then have "length (nat_str m) + j \<le> 21"
    using length_nat_str [OF assms] by simp
  then show ?thesis
    using m(3) pos str False by (simp add: int_num_str_def dec_str_def Let_def)
qed

lemma re_space_facts [simp]:
  "is_digit c \<Longrightarrow> \<not> re_space c"
  "\<not> re_space CHR ''m''" "\<not> re_space CHR ''s''" "\<not> re_space CHR ''h''" "\<not> re_space CHR ''d''"
  by (auto simp: re_space_def is_digit_def)

lemma is_digit_units [simp]: "\<not> is_digit CHR ''m''" "\<not> is_digit CHR ''s''" "\<not> is_digit CHR ''h''" "\<not> is_digit CHR ''d''"
  by (simp_all add: is_digit_def)

lemma parse_nat_unit:
  assumes "unit_ms u = Some k"
  shows "parseDuration (DurStr (nat_str n @ u)) label = Inr (of_nat (n * k))"
proof -
  have u: "u \<in> {''ms'', ''s'', ''m'', ''h'', ''d''}"
    using assms by (auto simp: unit_ms_def split: if_splits)
  have ws: "dropWhile re_space (nat_str n @ v) = nat_str n @ v" for v
    using nat_str_hd_digit [of n] by (cases "nat_str n") auto
  have take: "takeWhile is_digit (nat_str n @ u) = nat_str n" "dropWhile is_digit (nat_str n @ u) = u"
    using u nat_str_digits [of n] by auto
  have frac: "(case u of [] \<Rightarrow> ([], u) | c # r \<Rightarrow> if c = CHR ''.'' \<and> takeWhile is_digit r \<noteq> []
        then (takeWhile is_digit r, dropWhile is_digit r) else ([], u)) = ([], u)"
    and trim: "trim_end (dropWhile re_space u) = u"
    using u by (auto simp: trim_end_def)
  have "duration_re (nat_str n @ u) = Some (nat_str n, [], u)"
    unfolding duration_re_def Let_def ws take frac using assms by (simp add: trim)
  moreover have "js_round (of_nat n * of_nat k) = of_nat (n * k)"
    using js_round_of_int [of "int (n * k)"] by simp
  ultimately show ?thesis
    using assms by (simp add: parseDuration_def decimal_val_def) (simp add: str_nat_def)
qed


section \<open>Properties\<close>



end
