(* ===== verification/Cursor.thy ===== *)
theory Cursor
  imports Duration JsValue
begin

text \<open>
  \<^verbatim>\<open>src/cursor\<close> and \<^verbatim>\<open>src/core/cursor-types.ts\<close>: the five cursor strategies, each with the operations of
  the interface \<^verbatim>\<open>CursorStrategy\<close>, and \<^verbatim>\<open>getStrategy\<close>, which the runner uses. \<^verbatim>\<open>Date.parse\<close> is the host
  function \<open>dp\<close>; the callbacks of a configuration (\<^verbatim>\<open>parse\<close>, \<^verbatim>\<open>format\<close>, a custom cursor's \<^verbatim>\<open>advance\<close>,
  \<^verbatim>\<open>serialize\<close> and \<^verbatim>\<open>deserialize\<close>) are functions in it that may throw. The interface is the locale
  \<open>cursor_strategy\<close>, interpreted for each strategy and for the dispatch.
\<close>

type_synonym date_parse = "string \<Rightarrow> jsnum"

section \<open>Configurations and cursors\<close>

record ts_cfg =
  tc_field :: string
  tc_tieBreak :: "string option"
  tc_initial :: jsval
  tc_lag :: "duration option"
  tc_overlap :: "duration option"
  tc_parse :: "(string \<Rightarrow> thrown + jsval) option"
  tc_format :: "(number \<Rightarrow> string option \<Rightarrow> thrown + string) option"

record ts_cursor =
  tv_value :: "string option"
  tv_tieBreak :: "string option"

record token_cfg =
  kc_initial :: jsval

record token_cursor =
  tk_value :: "string option"

record page_cfg =
  pc_initial :: "jsnum option"

record page_cursor =
  pg_page :: nat

record custom_cfg =
  cc_initial :: jsval
  cc_advance :: "jsval \<Rightarrow> jsval list \<Rightarrow> string option option \<Rightarrow> bool \<Rightarrow> thrown + jsval"
  cc_serialize :: "(jsval \<Rightarrow> thrown + string) option"
  cc_deserialize :: "(string \<Rightarrow> thrown + jsval) option"

text \<open>The last two are what an untyped caller may pass: no object at all, or an unknown strategy.\<close>

datatype cursor_cfg = TimestampCfg ts_cfg | TokenCfg token_cfg | PageCfg page_cfg | SnapshotCfg
  | CustomCfg custom_cfg | MissingCfg | UnknownCfg jsval

datatype cursor = TsCur ts_cursor | TokCur token_cursor | PgCur page_cursor | NullCur | CustCur jsval

text \<open>\<^verbatim>\<open>pageCursor\<close> is \<^verbatim>\<open>string | null | undefined\<close>; outer \<^const>\<open>None\<close> is \<^verbatim>\<open>undefined\<close>.\<close>

record advance_input =
  ai_items :: "jsval list"
  ai_pageCursor :: "string option option"
  ai_hasMore :: "bool option"
  ai_now :: number

record 'cur advance_result =
  ar_cursor :: 'cur
  ar_done :: bool
  ar_items :: "jsval list"

section \<open>Shared helpers\<close>

definition truncate_raw :: "string \<Rightarrow> string" where
  "truncate_raw raw = (if length raw > 120 then take 117 raw @ ''...'' else raw)"

definition parseCursorJson :: "string \<Rightarrow> string \<Rightarrow> thrown + json" where
  "parseCursorJson strategy raw =
     (case json_parse raw of
        None \<Rightarrow> Inl (typeError (strategy @ '' cursor: persisted value is not JSON: '' @ truncate_raw raw))
      | Some j \<Rightarrow> Inr j)"

fun isRecord :: "json \<Rightarrow> bool" where
  "isRecord (JObj _) = True"
| "isRecord _ = False"

definition malformedCursor :: "string \<Rightarrow> string \<Rightarrow> string \<Rightarrow> thrown" where
  "malformedCursor strategy raw expected =
     typeError (strategy @ '' cursor: persisted value '' @ truncate_raw raw @ '' does not look like '' @ expected)"

fun json_member :: "json \<Rightarrow> string \<Rightarrow> json option" where
  "json_member (JObj ms) k = map_of ms k"
| "json_member _ k = None"

fun str_or_null :: "json option \<Rightarrow> string option option" where
  \<comment> \<open>\<^verbatim>\<open>typeof x === 'string' || x === null\<close>\<close>
  "str_or_null (Some (JStr s)) = Some (Some s)"
| "str_or_null (Some JNull) = Some None"
| "str_or_null _ = None"

fun opt_str_json :: "string option \<Rightarrow> json" where
  "opt_str_json None = JNull"
| "opt_str_json (Some s) = JStr s"

fun val_str :: "jsval \<Rightarrow> string option" where
  "val_str (VStr s) = Some s"
| "val_str _ = None"

section \<open>\<^verbatim>\<open>timestamp\<close>\<close>

definition epoch_seconds :: "string \<Rightarrow> bool" where
  "epoch_seconds s \<longleftrightarrow> length s = 10 \<and> list_all is_digit s"

definition epoch_millis :: "string \<Rightarrow> bool" where
  "epoch_millis s \<longleftrightarrow> length s = 13 \<and> list_all is_digit s"

definition defaultParse :: "date_parse \<Rightarrow> string \<Rightarrow> jsval" where
  "defaultParse dp raw =
     (if epoch_seconds raw then VNum (mk_num False (str_nat raw * 1000) 0)
      else if epoch_millis raw then VNum (mk_num False (str_nat raw) 0)
      else VNum (dp raw))"

definition run_parse :: "date_parse \<Rightarrow> ts_cfg \<Rightarrow> string \<Rightarrow> thrown + jsval" where
  \<comment> \<open>\<^verbatim>\<open>cfg.parse ? cfg.parse(raw) : defaultParse(raw)\<close>\<close>
  "run_parse dp cfg raw = (case tc_parse cfg of Some p \<Rightarrow> p raw | None \<Rightarrow> Inr (defaultParse dp raw))"

fun finite_of :: "jsval \<Rightarrow> number option" where
  \<comment> \<open>\<^verbatim>\<open>typeof ms === 'number' && Number.isFinite(ms)\<close>\<close>
  "finite_of (VNum x) = (if finite_num x then Some (num_val x) else None)"
| "finite_of _ = None"

definition parseTimestamp :: "date_parse \<Rightarrow> ts_cfg \<Rightarrow> string \<Rightarrow> thrown + number" where
  "parseTimestamp dp cfg raw =
     (case run_parse dp cfg raw of
        Inl e \<Rightarrow> Inl e
      | Inr v \<Rightarrow>
          (case finite_of v of
             None \<Rightarrow> Inl (configError (''timestamp cursor: cannot parse '' @ quote raw @ '' (field '' @ [CHR 0x27]
               @ tc_field cfg @ [CHR 0x27] @ '') to epoch milliseconds; set cursor.parse for this format''))
           | Some ms \<Rightarrow> Inr ms))"

definition tryParseTimestamp :: "date_parse \<Rightarrow> ts_cfg \<Rightarrow> string \<Rightarrow> number option" where
  "tryParseTimestamp dp cfg raw =
     (case run_parse dp cfg raw of Inl e \<Rightarrow> None | Inr v \<Rightarrow> finite_of v)"

text \<open>\<^verbatim>\<open>new Date(ms).toISOString()\<close>: the time is truncated to whole milliseconds and must be in range.\<close>

definition date_iso :: "number \<Rightarrow> thrown + string" where
  "date_iso ms =
     (let t = (if 0 \<le> ms then \<lfloor>ms\<rfloor> else \<lceil>ms\<rceil>) in
      if \<bar>t\<bar> \<le> 8640000000000000 then Inr (to_iso t)
      else Inl (plainError ''RangeError'' ''Invalid time value''))"

definition formatTimestamp :: "ts_cfg \<Rightarrow> number \<Rightarrow> string option \<Rightarrow> thrown + string" where
  "formatTimestamp cfg epochMs sample =
     (case tc_format cfg of
        Some f \<Rightarrow> f epochMs sample
      | None \<Rightarrow>
          (case sample of
             Some s \<Rightarrow>
               if epoch_seconds s then Inr (int_num_str \<lfloor>epochMs / 1000\<rfloor>)
               else if epoch_millis s then Inr (int_num_str \<lfloor>epochMs\<rfloor>)
               else date_iso epochMs
           | None \<Rightarrow> date_iso epochMs))"

definition compareTimestamps :: "date_parse \<Rightarrow> ts_cfg \<Rightarrow> string \<Rightarrow> string \<Rightarrow> thrown + int" where
  "compareTimestamps dp cfg a b =
     (case parseTimestamp dp cfg a of
        Inl e \<Rightarrow> Inl e
      | Inr x \<Rightarrow>
          (case parseTimestamp dp cfg b of
             Inl e \<Rightarrow> Inl e
           | Inr y \<Rightarrow> Inr (if x < y then -1 else if x > y then 1 else 0)))"

fun fieldString :: "jsval \<Rightarrow> string option" where
  "fieldString (VStr s) = Some s"
| "fieldString (VNum x) = (if finite_num x then Some (num_str x) else None)"
| "fieldString (VDate (Some ms)) = Some (to_iso ms)"
| "fieldString _ = None"

definition tieOf :: "jsval \<Rightarrow> string \<Rightarrow> string option" where
  "tieOf item field =
     (case getPath item field of
        VStr s \<Rightarrow> Some s
      | VNum x \<Rightarrow> Some (num_str x)
      | VBig i \<Rightarrow> Some (int_str i)
      | _ \<Rightarrow> None)"

fun maxString :: "string option \<Rightarrow> string option \<Rightarrow> string option" where
  "maxString None b = b"
| "maxString a None = a"
| "maxString (Some a) (Some b) = Some (if b \<le> a then a else b)"

text \<open>The loop over the items; the maximum so far is none (\<^verbatim>\<open>-Infinity\<close> with \<^verbatim>\<open>maxRaw === null\<close>) or its
  text, time and tie-break.\<close>

type_synonym ts_max = "(string \<times> number \<times> string option) option"

definition item_time :: "date_parse \<Rightarrow> ts_cfg \<Rightarrow> jsval \<Rightarrow> (string \<times> number) option" where
  "item_time dp cfg item =
     (case fieldString (getPath item (tc_field cfg)) of
        None \<Rightarrow> None
      | Some raw \<Rightarrow> map_option (\<lambda>ms. (raw, ms)) (tryParseTimestamp dp cfg raw))"

fun ts_scan :: "date_parse \<Rightarrow> ts_cfg \<Rightarrow> number \<Rightarrow> jsval list \<Rightarrow> ts_max \<Rightarrow> jsval list \<times> ts_max" where
  "ts_scan dp cfg cutoff [] mx = ([], mx)"
| "ts_scan dp cfg cutoff (item # items) mx =
     (case item_time dp cfg item of
        None \<Rightarrow> (let (kept, mx') = ts_scan dp cfg cutoff items mx in (item # kept, mx'))
      | Some (raw, ms) \<Rightarrow>
          if ms > cutoff then ts_scan dp cfg cutoff items mx
          else
            (let tie = (case tc_tieBreak cfg of None \<Rightarrow> None | Some f \<Rightarrow> tieOf item f);
                 mx1 = (case mx of
                          None \<Rightarrow> Some (raw, ms, tie)
                        | Some (maxRaw, maxMs, maxTie) \<Rightarrow>
                            if ms > maxMs then Some (raw, ms, tie)
                            else if ms = maxMs \<and> tc_tieBreak cfg \<noteq> None then Some (maxRaw, maxMs, maxString maxTie tie)
                            else mx);
                 (kept, mx') = ts_scan dp cfg cutoff items mx1
             in (item # kept, mx')))"

definition ts_advance ::
  "date_parse \<Rightarrow> ts_cfg \<Rightarrow> ts_cursor \<Rightarrow> advance_input \<Rightarrow> thrown + ts_cursor advance_result" where
  "ts_advance dp cfg cursor input =
     (let done = (ai_hasMore input \<noteq> Some True) in
      case ai_pageCursor input of
        Some (Some pc) \<Rightarrow>
          Inr \<lparr>ar_cursor = \<lparr>tv_value = Some pc, tv_tieBreak = None\<rparr>, ar_done = done, ar_items = ai_items input\<rparr>
      | _ \<Rightarrow>
          (case (case tc_lag cfg of None \<Rightarrow> Inr 0 | Some d \<Rightarrow> parseDuration d ''cursor.lag'') of
             Inl e \<Rightarrow> Inl e
           | Inr lagMs \<Rightarrow>
               (let (kept, mx) = ts_scan dp cfg (ai_now input - lagMs) (ai_items input) None;
                    items = (if length kept = length (ai_items input) then ai_items input else kept)
                in case mx of
                     None \<Rightarrow> Inr \<lparr>ar_cursor = cursor, ar_done = done, ar_items = items\<rparr>
                   | Some (maxRaw, maxMs, maxTie) \<Rightarrow>
                       (case tv_value cursor of
                          None \<Rightarrow> Inr \<lparr>ar_cursor = \<lparr>tv_value = Some maxRaw, tv_tieBreak = maxTie\<rparr>,
                                      ar_done = done, ar_items = items\<rparr>
                        | Some cv \<Rightarrow>
                            (case parseTimestamp dp cfg cv of
                               Inl e \<Rightarrow> Inl e
                             | Inr currentMs \<Rightarrow>
                                 if maxMs > currentMs then
                                   Inr \<lparr>ar_cursor = \<lparr>tv_value = Some maxRaw, tv_tieBreak = maxTie\<rparr>,
                                        ar_done = done, ar_items = items\<rparr>
                                 else if maxMs = currentMs \<and> tc_tieBreak cfg \<noteq> None then
                                   Inr \<lparr>ar_cursor = \<lparr>tv_value = tv_value cursor,
                                                    tv_tieBreak = maxString (tv_tieBreak cursor) maxTie\<rparr>,
                                        ar_done = done, ar_items = items\<rparr>
                                 else Inr \<lparr>ar_cursor = cursor, ar_done = done, ar_items = items\<rparr>)))))"

definition ts_initial :: "ts_cfg \<Rightarrow> ts_cursor" where
  "ts_initial cfg = \<lparr>tv_value = val_str (tc_initial cfg), tv_tieBreak = None\<rparr>"

definition ts_serialize :: "ts_cfg \<Rightarrow> ts_cursor \<Rightarrow> thrown + string" where
  "ts_serialize cfg c =
     Inr (json_str (JObj [(''value'', opt_str_json (tv_value c)), (''tieBreak'', opt_str_json (tv_tieBreak c))]))"

definition ts_deserialize :: "ts_cfg \<Rightarrow> string \<Rightarrow> thrown + ts_cursor" where
  "ts_deserialize cfg raw =
     (case parseCursorJson ''timestamp'' raw of
        Inl e \<Rightarrow> Inl e
      | Inr j \<Rightarrow>
          (case (isRecord j, str_or_null (json_member j ''value''), str_or_null (json_member j ''tieBreak'')) of
             (True, Some v, Some t) \<Rightarrow> Inr \<lparr>tv_value = v, tv_tieBreak = t\<rparr>
           | _ \<Rightarrow> Inl (malformedCursor ''timestamp'' raw ''{ value: string | null, tieBreak: string | null }'')))"

definition ts_forFetch :: "date_parse \<Rightarrow> ts_cfg \<Rightarrow> ts_cursor \<Rightarrow> thrown + ts_cursor" where
  "ts_forFetch dp cfg cursor =
     (case (case tc_overlap cfg of None \<Rightarrow> Inr 0 | Some d \<Rightarrow> parseDuration d ''cursor.overlap'') of
        Inl e \<Rightarrow> Inl e
      | Inr overlapMs \<Rightarrow>
          (case tv_value cursor of
             None \<Rightarrow> Inr cursor
           | Some cv \<Rightarrow>
               if overlapMs \<le> 0 then Inr cursor
               else case parseTimestamp dp cfg cv of
                 Inl e \<Rightarrow> Inl e
               | Inr ms \<Rightarrow>
                   (case formatTimestamp cfg (ms - overlapMs) (Some cv) of
                      Inl e \<Rightarrow> Inl e
                    | Inr s \<Rightarrow> Inr \<lparr>tv_value = Some s, tv_tieBreak = None\<rparr>)))"

definition ts_onCycleComplete :: "ts_cfg \<Rightarrow> ts_cursor \<Rightarrow> ts_cursor" where
  "ts_onCycleComplete cfg c = c"

definition ts_lagMs :: "date_parse \<Rightarrow> ts_cfg \<Rightarrow> ts_cursor \<Rightarrow> number \<Rightarrow> number option" where
  "ts_lagMs dp cfg c now =
     (case tv_value c of None \<Rightarrow> None | Some v \<Rightarrow> map_option (\<lambda>ms. now - ms) (tryParseTimestamp dp cfg v))"

definition ts_reached :: "date_parse \<Rightarrow> ts_cfg \<Rightarrow> ts_cursor \<Rightarrow> ts_cursor \<Rightarrow> thrown + bool" where
  "ts_reached dp cfg c target =
     (case tv_value target of
        None \<Rightarrow> Inr True
      | Some t \<Rightarrow>
          (case tv_value c of
             None \<Rightarrow> Inr False
           | Some v \<Rightarrow>
               (case parseTimestamp dp cfg v of
                  Inl e \<Rightarrow> Inl e
                | Inr x \<Rightarrow> (case parseTimestamp dp cfg t of Inl e \<Rightarrow> Inl e | Inr y \<Rightarrow> Inr (y \<le> x)))))"

definition ts_fromRaw :: "ts_cfg \<Rightarrow> string option \<Rightarrow> ts_cursor" where
  "ts_fromRaw cfg raw = \<lparr>tv_value = raw, tv_tieBreak = None\<rparr>"

section \<open>\<^verbatim>\<open>token\<close>\<close>

definition tk_initial :: "token_cfg \<Rightarrow> token_cursor" where
  "tk_initial cfg = \<lparr>tk_value = val_str (kc_initial cfg)\<rparr>"

definition tk_serialize :: "token_cfg \<Rightarrow> token_cursor \<Rightarrow> thrown + string" where
  "tk_serialize cfg c = Inr (json_str (JObj [(''value'', opt_str_json (tk_value c))]))"

definition tk_deserialize :: "token_cfg \<Rightarrow> string \<Rightarrow> thrown + token_cursor" where
  "tk_deserialize cfg raw =
     (case parseCursorJson ''token'' raw of
        Inl e \<Rightarrow> Inl e
      | Inr j \<Rightarrow>
          (case (isRecord j, str_or_null (json_member j ''value'')) of
             (True, Some v) \<Rightarrow> Inr \<lparr>tk_value = v\<rparr>
           | _ \<Rightarrow> Inl (malformedCursor ''token'' raw ''{ value: string | null }'')))"

definition tk_advance :: "token_cfg \<Rightarrow> token_cursor \<Rightarrow> advance_input \<Rightarrow> token_cursor advance_result" where
  "tk_advance cfg cursor input =
     (case ai_pageCursor input of
        Some (Some (c # cs)) \<Rightarrow>
          \<lparr>ar_cursor = \<lparr>tk_value = Some (c # cs)\<rparr>, ar_done = (ai_hasMore input = Some False), ar_items = ai_items input\<rparr>
      | _ \<Rightarrow> \<lparr>ar_cursor = \<lparr>tk_value = val_str (kc_initial cfg)\<rparr>, ar_done = True, ar_items = ai_items input\<rparr>)"

definition tk_reached :: "token_cfg \<Rightarrow> token_cursor \<Rightarrow> token_cursor \<Rightarrow> bool" where
  "tk_reached cfg c target \<longleftrightarrow> tk_value c = tk_value target"

definition tk_fromRaw :: "token_cfg \<Rightarrow> string option \<Rightarrow> token_cursor" where
  "tk_fromRaw cfg raw = \<lparr>tk_value = raw\<rparr>"

section \<open>\<^verbatim>\<open>page\<close>\<close>

definition isPageNumber :: "jsnum \<Rightarrow> bool" where
  "isPageNumber x \<longleftrightarrow> (case num_int x of None \<Rightarrow> False | Some i \<Rightarrow> 0 \<le> i)"

definition page_nat :: "jsnum \<Rightarrow> nat" where
  "page_nat x = (case num_int x of None \<Rightarrow> 0 | Some i \<Rightarrow> nat i)"

text \<open>A configured first page is a non-negative integer: \<^verbatim>\<open>validateCursor\<close> refuses any other.\<close>

definition initialPage :: "page_cfg \<Rightarrow> nat" where
  "initialPage cfg = (case pc_initial cfg of None \<Rightarrow> 1 | Some x \<Rightarrow> page_nat x)"

definition pg_initial :: "page_cfg \<Rightarrow> page_cursor" where
  "pg_initial cfg = \<lparr>pg_page = initialPage cfg\<rparr>"

definition pg_serialize :: "page_cfg \<Rightarrow> page_cursor \<Rightarrow> thrown + string" where
  "pg_serialize cfg c = Inr (json_str (JObj [(''page'', JNum (mk_num False (pg_page c) 0))]))"

definition pg_deserialize :: "page_cfg \<Rightarrow> string \<Rightarrow> thrown + page_cursor" where
  "pg_deserialize cfg raw =
     (case parseCursorJson ''page'' raw of
        Inl e \<Rightarrow> Inl e
      | Inr j \<Rightarrow>
          (case json_member j ''page'' of
             Some (JNum x) \<Rightarrow> if isPageNumber x then Inr \<lparr>pg_page = page_nat x\<rparr>
                              else Inl (malformedCursor ''page'' raw ''{ page: non-negative integer }'')
           | _ \<Rightarrow> Inl (malformedCursor ''page'' raw ''{ page: non-negative integer }'')))"

definition pg_advance :: "page_cfg \<Rightarrow> page_cursor \<Rightarrow> advance_input \<Rightarrow> page_cursor advance_result" where
  "pg_advance cfg cursor input =
     (if ai_hasMore input = Some True
      then \<lparr>ar_cursor = \<lparr>pg_page = pg_page cursor + 1\<rparr>, ar_done = False, ar_items = ai_items input\<rparr>
      else \<lparr>ar_cursor = cursor, ar_done = True, ar_items = ai_items input\<rparr>)"

definition pg_onCycleComplete :: "page_cfg \<Rightarrow> page_cursor \<Rightarrow> page_cursor" where
  "pg_onCycleComplete cfg c = \<lparr>pg_page = initialPage cfg\<rparr>"

definition pg_reached :: "page_cfg \<Rightarrow> page_cursor \<Rightarrow> page_cursor \<Rightarrow> bool" where
  "pg_reached cfg c target \<longleftrightarrow> pg_page c = pg_page target"

text \<open>\<^verbatim>\<open>Number(raw)\<close> of a raw page, for the texts that are decimal numbers of the JSON grammar, blanks
  around them and the empty text (zero); the other notations of \<^verbatim>\<open>Number\<close> (a sign \<^verbatim>\<open>+\<close>, hexadecimal,
  leading zeros) are not numbers here.\<close>

definition js_Number :: "string \<Rightarrow> jsnum" where
  "js_Number raw =
     (let s = trim_end (dropWhile re_space raw) in
      if s = [] then Dec False 0 0
      else case parse_num s of Some (x, []) \<Rightarrow> x | _ \<Rightarrow> NaN)"

definition pg_fromRaw :: "page_cfg \<Rightarrow> string option \<Rightarrow> thrown + page_cursor" where
  "pg_fromRaw cfg raw =
     (case raw of
        None \<Rightarrow> Inr \<lparr>pg_page = initialPage cfg\<rparr>
      | Some s \<Rightarrow>
          if isPageNumber (js_Number s) then Inr \<lparr>pg_page = page_nat (js_Number s)\<rparr>
          else Inl (typeError (''page cursor: expected a non-negative integer page number, got '' @ quote s)))"

section \<open>\<^verbatim>\<open>snapshotDiff\<close>\<close>

definition sd_serialize :: "thrown + string" where
  "sd_serialize = Inr ''null''"

definition sd_advance :: "advance_input \<Rightarrow> unit advance_result" where
  "sd_advance input = \<lparr>ar_cursor = (), ar_done = (ai_hasMore input \<noteq> Some True), ar_items = ai_items input\<rparr>"

section \<open>\<^verbatim>\<open>custom\<close>\<close>

definition cu_serialize :: "custom_cfg \<Rightarrow> jsval \<Rightarrow> thrown + string" where
  "cu_serialize cfg c =
     (case cc_serialize cfg of
        Some f \<Rightarrow> f c
      | None \<Rightarrow> (case stringify c of Inl e \<Rightarrow> Inl e | Inr s \<Rightarrow> Inr (opt_or s ''null'')))"

definition cu_deserialize :: "custom_cfg \<Rightarrow> string \<Rightarrow> thrown + jsval" where
  "cu_deserialize cfg raw = (case cc_deserialize cfg of Some f \<Rightarrow> f raw | None \<Rightarrow> parse_js raw)"

fun js_typeof :: "jsval \<Rightarrow> string" where
  "js_typeof VUndef = ''undefined''"
| "js_typeof VFun = ''function''"
| "js_typeof VSym = ''symbol''"
| "js_typeof (VBool _) = ''boolean''"
| "js_typeof (VStr _) = ''string''"
| "js_typeof (VNum _) = ''number''"
| "js_typeof (VBig _) = ''bigint''"
| "js_typeof _ = ''object''"

definition cu_advance :: "custom_cfg \<Rightarrow> jsval \<Rightarrow> advance_input \<Rightarrow> thrown + jsval advance_result" where
  "cu_advance cfg cursor input =
     (case cc_advance cfg cursor (ai_items input) (ai_pageCursor input) (ai_hasMore input = Some True) of
        Inl e \<Rightarrow> Inl e
      | Inr next \<Rightarrow>
          (case (js_typeof next = ''object'' \<and> next \<noteq> VNull, member next ''done'') of
             (True, VBool d) \<Rightarrow> Inr \<lparr>ar_cursor = member next ''cursor'', ar_done = d, ar_items = ai_items input\<rparr>
           | _ \<Rightarrow> Inl (configError (''custom cursor: advance() must return { cursor, done: boolean }, got ''
                @ (if next = VNull then ''null'' else js_typeof next)))))"

definition cu_reached :: "custom_cfg \<Rightarrow> jsval \<Rightarrow> jsval \<Rightarrow> thrown + bool" where
  "cu_reached cfg c target =
     (case cu_serialize cfg c of
        Inl e \<Rightarrow> Inl e
      | Inr a \<Rightarrow> (case cu_serialize cfg target of Inl e \<Rightarrow> Inl e | Inr b \<Rightarrow> Inr (a = b)))"

definition cu_fromRaw :: "custom_cfg \<Rightarrow> string option \<Rightarrow> thrown + jsval" where
  "cu_fromRaw cfg raw = (case raw of None \<Rightarrow> Inr (cc_initial cfg) | Some s \<Rightarrow> cu_deserialize cfg s)"

definition customCursor :: "custom_cfg \<Rightarrow> cursor_cfg" where
  "customCursor config = CustomCfg config"

section \<open>\<^verbatim>\<open>getStrategy\<close>\<close>

text \<open>The strategy that a configuration selects, with the cursor as the runner sees it. A strategy only meets
  cursors that its own operations made; the cases for a cursor of another strategy throw.\<close>

record strategy =
  s_initial :: cursor
  s_serialize :: "cursor \<Rightarrow> thrown + string"
  s_deserialize :: "string \<Rightarrow> thrown + cursor"
  s_forFetch :: "cursor \<Rightarrow> thrown + cursor"
  s_advance :: "cursor \<Rightarrow> advance_input \<Rightarrow> thrown + cursor advance_result"
  s_onCycleComplete :: "cursor \<Rightarrow> cursor"
  s_lagMs :: "cursor \<Rightarrow> number \<Rightarrow> number option"
  s_reached :: "cursor \<Rightarrow> cursor \<Rightarrow> thrown + bool"
  s_fromRaw :: "string option \<Rightarrow> thrown + cursor"

definition wrong_cursor :: thrown where
  "wrong_cursor = typeError ''cursor of another strategy''"

definition map_result :: "('a \<Rightarrow> 'b) \<Rightarrow> 'a advance_result \<Rightarrow> 'b advance_result" where
  "map_result f r = \<lparr>ar_cursor = f (ar_cursor r), ar_done = ar_done r, ar_items = ar_items r\<rparr>"

definition timestampStrategy :: "date_parse \<Rightarrow> ts_cfg \<Rightarrow> strategy" where
  "timestampStrategy dp cfg =
     \<lparr>s_initial = TsCur (ts_initial cfg),
      s_serialize = (\<lambda>c. case c of TsCur k \<Rightarrow> ts_serialize cfg k | _ \<Rightarrow> Inl wrong_cursor),
      s_deserialize = (\<lambda>raw. map_sum id TsCur (ts_deserialize cfg raw)),
      s_forFetch = (\<lambda>c. case c of TsCur k \<Rightarrow> map_sum id TsCur (ts_forFetch dp cfg k) | _ \<Rightarrow> Inl wrong_cursor),
      s_advance = (\<lambda>c i. case c of TsCur k \<Rightarrow> map_sum id (map_result TsCur) (ts_advance dp cfg k i) | _ \<Rightarrow> Inl wrong_cursor),
      s_onCycleComplete = (\<lambda>c. case c of TsCur k \<Rightarrow> TsCur (ts_onCycleComplete cfg k) | _ \<Rightarrow> c),
      s_lagMs = (\<lambda>c now. case c of TsCur k \<Rightarrow> ts_lagMs dp cfg k now | _ \<Rightarrow> None),
      s_reached = (\<lambda>c t. case (c, t) of (TsCur k, TsCur l) \<Rightarrow> ts_reached dp cfg k l | _ \<Rightarrow> Inl wrong_cursor),
      s_fromRaw = (\<lambda>raw. Inr (TsCur (ts_fromRaw cfg raw)))\<rparr>"

definition tokenStrategy :: "token_cfg \<Rightarrow> strategy" where
  "tokenStrategy cfg =
     \<lparr>s_initial = TokCur (tk_initial cfg),
      s_serialize = (\<lambda>c. case c of TokCur k \<Rightarrow> tk_serialize cfg k | _ \<Rightarrow> Inl wrong_cursor),
      s_deserialize = (\<lambda>raw. map_sum id TokCur (tk_deserialize cfg raw)),
      s_forFetch = Inr,
      s_advance = (\<lambda>c i. case c of TokCur k \<Rightarrow> Inr (map_result TokCur (tk_advance cfg k i)) | _ \<Rightarrow> Inl wrong_cursor),
      s_onCycleComplete = (\<lambda>c. c),
      s_lagMs = (\<lambda>c now. None),
      s_reached = (\<lambda>c t. case (c, t) of (TokCur k, TokCur l) \<Rightarrow> Inr (tk_reached cfg k l) | _ \<Rightarrow> Inl wrong_cursor),
      s_fromRaw = (\<lambda>raw. Inr (TokCur (tk_fromRaw cfg raw)))\<rparr>"

definition pageStrategy :: "page_cfg \<Rightarrow> strategy" where
  "pageStrategy cfg =
     \<lparr>s_initial = PgCur (pg_initial cfg),
      s_serialize = (\<lambda>c. case c of PgCur k \<Rightarrow> pg_serialize cfg k | _ \<Rightarrow> Inl wrong_cursor),
      s_deserialize = (\<lambda>raw. map_sum id PgCur (pg_deserialize cfg raw)),
      s_forFetch = Inr,
      s_advance = (\<lambda>c i. case c of PgCur k \<Rightarrow> Inr (map_result PgCur (pg_advance cfg k i)) | _ \<Rightarrow> Inl wrong_cursor),
      s_onCycleComplete = (\<lambda>c. case c of PgCur k \<Rightarrow> PgCur (pg_onCycleComplete cfg k) | _ \<Rightarrow> c),
      s_lagMs = (\<lambda>c now. None),
      s_reached = (\<lambda>c t. case (c, t) of (PgCur k, PgCur l) \<Rightarrow> Inr (pg_reached cfg k l) | _ \<Rightarrow> Inl wrong_cursor),
      s_fromRaw = (\<lambda>raw. map_sum id PgCur (pg_fromRaw cfg raw))\<rparr>"

definition snapshotDiffStrategy :: strategy where
  "snapshotDiffStrategy =
     \<lparr>s_initial = NullCur,
      s_serialize = (\<lambda>c. sd_serialize),
      s_deserialize = (\<lambda>raw. Inr NullCur),
      s_forFetch = (\<lambda>c. Inr NullCur),
      s_advance = (\<lambda>c i. Inr (map_result (\<lambda>_. NullCur) (sd_advance i))),
      s_onCycleComplete = (\<lambda>c. NullCur),
      s_lagMs = (\<lambda>c now. None),
      s_reached = (\<lambda>c t. Inr True),
      s_fromRaw = (\<lambda>raw. Inr NullCur)\<rparr>"

definition customStrategy :: "custom_cfg \<Rightarrow> strategy" where
  "customStrategy cfg =
     \<lparr>s_initial = CustCur (cc_initial cfg),
      s_serialize = (\<lambda>c. case c of CustCur k \<Rightarrow> cu_serialize cfg k | _ \<Rightarrow> Inl wrong_cursor),
      s_deserialize = (\<lambda>raw. map_sum id CustCur (cu_deserialize cfg raw)),
      s_forFetch = Inr,
      s_advance = (\<lambda>c i. case c of CustCur k \<Rightarrow> map_sum id (map_result CustCur) (cu_advance cfg k i) | _ \<Rightarrow> Inl wrong_cursor),
      s_onCycleComplete = (\<lambda>c. c),
      s_lagMs = (\<lambda>c now. None),
      s_reached = (\<lambda>c t. case (c, t) of (CustCur k, CustCur l) \<Rightarrow> cu_reached cfg k l | _ \<Rightarrow> Inl wrong_cursor),
      s_fromRaw = (\<lambda>raw. map_sum id CustCur (cu_fromRaw cfg raw))\<rparr>"

definition stringify_or_undefined :: "jsval \<Rightarrow> string" where
  "stringify_or_undefined v = (case stringify v of Inr (Some s) \<Rightarrow> s | _ \<Rightarrow> ''undefined'')"

definition getStrategy :: "date_parse \<Rightarrow> cursor_cfg \<Rightarrow> thrown + strategy" where
  "getStrategy dp cfg =
     (case cfg of
        TimestampCfg c \<Rightarrow> Inr (timestampStrategy dp c)
      | TokenCfg c \<Rightarrow> Inr (tokenStrategy c)
      | PageCfg c \<Rightarrow> Inr (pageStrategy c)
      | SnapshotCfg \<Rightarrow> Inr snapshotDiffStrategy
      | CustomCfg c \<Rightarrow> Inr (customStrategy c)
      | MissingCfg \<Rightarrow> Inl (typeError ''Cannot read properties of undefined (reading strategy)'')
      | UnknownCfg v \<Rightarrow> Inl (configError (''unknown cursor strategy '' @ stringify_or_undefined v)))"

section \<open>The contract of a strategy\<close>

text \<open>Walking a cursor over pages, in memory and with a restart (persist, then read back) after every page.\<close>

fun pages_run ::
  "('cur \<Rightarrow> advance_input \<Rightarrow> thrown + 'cur advance_result) \<Rightarrow> advance_input list \<Rightarrow> 'cur \<Rightarrow> thrown + 'cur" where
  "pages_run adv [] c = Inr c"
| "pages_run adv (i # is) c = (case adv c i of Inl e \<Rightarrow> Inl e | Inr r \<Rightarrow> pages_run adv is (ar_cursor r))"

fun pages_run_restarting ::
  "('cur \<Rightarrow> thrown + string) \<Rightarrow> (string \<Rightarrow> thrown + 'cur)
   \<Rightarrow> ('cur \<Rightarrow> advance_input \<Rightarrow> thrown + 'cur advance_result) \<Rightarrow> advance_input list \<Rightarrow> 'cur \<Rightarrow> thrown + 'cur" where
  "pages_run_restarting ser de adv [] c = Inr c"
| "pages_run_restarting ser de adv (i # is) c =
     (case adv c i of
        Inl e \<Rightarrow> Inl e
      | Inr r \<Rightarrow>
          (case ser (ar_cursor r) of
             Inl e \<Rightarrow> Inl e
           | Inr raw \<Rightarrow> (case de raw of Inl e \<Rightarrow> Inl e | Inr c' \<Rightarrow> pages_run_restarting ser de adv is c')))"

locale cursor_strategy =
  fixes ok :: "'cur \<Rightarrow> bool"
    and initial :: 'cur
    and ser :: "'cur \<Rightarrow> thrown + string"
    and de :: "string \<Rightarrow> thrown + 'cur"
    and adv :: "'cur \<Rightarrow> advance_input \<Rightarrow> thrown + 'cur advance_result"
  assumes initial_ok: "ok initial"
    and round_trip: "ok c \<Longrightarrow> \<exists>raw. ser c = Inr raw \<and> de raw = Inr c"
    and advance_ok: "ok c \<Longrightarrow> adv c i = Inr r \<Longrightarrow> ok (ar_cursor r)"
begin

lemma restart_same: "ok c \<Longrightarrow> pages_run_restarting ser de adv is c = pages_run adv is c"
proof (induction "is" arbitrary: c)
  case (Cons i "is")
  show ?case
  proof (cases "adv c i")
    case (Inr r)
    then have "ok (ar_cursor r)" using Cons.prems advance_ok by blast
    then show ?thesis using Inr Cons.IH round_trip [of "ar_cursor r"] by auto
  qed simp
qed simp

lemma run_ok: "ok c \<Longrightarrow> pages_run adv is c = Inr d \<Longrightarrow> ok d"
proof (induction "is" arbitrary: c)
  case (Cons i "is")
  then show ?case by (cases "adv c i") (auto dest: advance_ok)
qed simp

end

lemma json_parse_fields:
  "json_parse (json_str (JObj [(''value'', opt_str_json v), (''tieBreak'', opt_str_json t)])) =
     Some (JObj [(''value'', opt_str_json v), (''tieBreak'', opt_str_json t)])"
  "json_parse (json_str (JObj [(''value'', opt_str_json v)])) = Some (JObj [(''value'', opt_str_json v)])"
  by (rule json_parse_str; cases v; cases t; simp)+

lemma str_or_null_opt [simp]: "str_or_null (Some (opt_str_json v)) = Some v"
  by (cases v) simp_all

lemma num_int_mk: "num_int (mk_num False n 0) = Some (int n)" "finite_num (mk_num False n 0)"
  using mk_num_form [of n False 0] by (cases "n = 0"; auto simp: mk_num_zero)+

lemma ts_round_trip: "ts_serialize cfg c = Inr raw \<Longrightarrow> ts_deserialize cfg raw = Inr c"
  by (auto simp: ts_serialize_def ts_deserialize_def parseCursorJson_def json_parse_fields simp del: json_str.simps)

lemma tk_round_trip: "tk_serialize cfg c = Inr raw \<Longrightarrow> tk_deserialize cfg raw = Inr c"
  by (auto simp: tk_serialize_def tk_deserialize_def parseCursorJson_def json_parse_fields simp del: json_str.simps)

lemma pg_round_trip: "pg_serialize cfg c = Inr raw \<Longrightarrow> pg_deserialize cfg raw = Inr c"
proof -
  assume *: "pg_serialize cfg c = Inr raw"
  have "wf_json (JObj [(''page'', JNum (mk_num False (pg_page c) 0))])"
    by (simp add: num_int_mk mk_num_wf)
  then have "json_parse raw = Some (JObj [(''page'', JNum (mk_num False (pg_page c) 0))])"
    using * json_parse_str unfolding pg_serialize_def by blast
  then show ?thesis
    by (simp add: pg_deserialize_def parseCursorJson_def isPageNumber_def page_nat_def num_int_mk)
qed

interpretation ts: cursor_strategy "\<lambda>_. True" "ts_initial cfg" "ts_serialize cfg" "ts_deserialize cfg"
  "ts_advance dp cfg" for cfg dp
  by unfold_locales (auto intro: ts_round_trip simp: ts_serialize_def)

interpretation tk: cursor_strategy "\<lambda>_. True" "tk_initial cfg" "tk_serialize cfg" "tk_deserialize cfg"
  "\<lambda>c i. Inr (tk_advance cfg c i)" for cfg
  by unfold_locales (auto intro: tk_round_trip simp: tk_serialize_def)

interpretation pg: cursor_strategy "\<lambda>_. True" "pg_initial cfg" "pg_serialize cfg" "pg_deserialize cfg"
  "\<lambda>c i. Inr (pg_advance cfg c i)" for cfg
  by unfold_locales (auto intro: pg_round_trip simp: pg_serialize_def)

text \<open>The callbacks of a custom cursor keep the contract on the cursors in \<open>P\<close>: what the documentation of
  \<^verbatim>\<open>CursorStrategy.serialize\<close> asks of them.\<close>

definition custom_laws :: "(jsval \<Rightarrow> bool) \<Rightarrow> custom_cfg \<Rightarrow> bool" where
  "custom_laws P cfg \<longleftrightarrow> P (cc_initial cfg)
     \<and> (\<forall>c. P c \<longrightarrow> (\<exists>raw. cu_serialize cfg c = Inr raw \<and> cu_deserialize cfg raw = Inr c))
     \<and> (\<forall>c i r. P c \<and> cu_advance cfg c i = Inr r \<longrightarrow> P (ar_cursor r))"

fun cfg_laws :: "(jsval \<Rightarrow> bool) \<Rightarrow> cursor_cfg \<Rightarrow> bool" where
  "cfg_laws P (CustomCfg c) = custom_laws P c"
| "cfg_laws P _ = True"

fun cursor_of :: "(jsval \<Rightarrow> bool) \<Rightarrow> cursor_cfg \<Rightarrow> cursor \<Rightarrow> bool" where
  "cursor_of P (TimestampCfg _) (TsCur _) = True"
| "cursor_of P (TokenCfg _) (TokCur _) = True"
| "cursor_of P (PageCfg _) (PgCur _) = True"
| "cursor_of P SnapshotCfg NullCur = True"
| "cursor_of P (CustomCfg _) (CustCur v) = P v"
| "cursor_of P _ _ = False"


lemma cursor_of_cases:
  assumes "cursor_of P cfg c"
  obtains t k where "cfg = TimestampCfg t" "c = TsCur k"
  | t k where "cfg = TokenCfg t" "c = TokCur k"
  | t k where "cfg = PageCfg t" "c = PgCur k"
  | "cfg = SnapshotCfg" "c = NullCur"
  | t v where "cfg = CustomCfg t" "c = CustCur v" "P v"
  using assms by (cases cfg; cases c) auto

lemma strategy_initial:
  "getStrategy dp cfg = Inr s \<Longrightarrow> cfg_laws P cfg \<Longrightarrow> cursor_of P cfg (s_initial s)"
  by (cases cfg) (auto simp: getStrategy_def timestampStrategy_def tokenStrategy_def pageStrategy_def
      snapshotDiffStrategy_def customStrategy_def custom_laws_def)

lemma strategy_round_trip:
  assumes "getStrategy dp cfg = Inr s" "cfg_laws P cfg" "cursor_of P cfg c"
  shows "\<exists>raw. s_serialize s c = Inr raw \<and> s_deserialize s raw = Inr c"
  using assms(3)
proof (cases rule: cursor_of_cases)
  case (1 t k)
  then show ?thesis using assms(1) ts.round_trip [where c = k and cfg = t]
    by (auto simp: getStrategy_def timestampStrategy_def)
next
  case (2 t k)
  then show ?thesis using assms(1) tk.round_trip [where c = k and cfg = t]
    by (auto simp: getStrategy_def tokenStrategy_def)
next
  case (3 t k)
  then show ?thesis using assms(1) pg.round_trip [where c = k and cfg = t]
    by (auto simp: getStrategy_def pageStrategy_def)
next
  case 4
  then show ?thesis using assms(1)
    by (auto simp: getStrategy_def snapshotDiffStrategy_def sd_serialize_def)
next
  case (5 t v)
  then have "\<exists>raw. cu_serialize t v = Inr raw \<and> cu_deserialize t raw = Inr v"
    using assms(2) by (auto simp: custom_laws_def)
  then show ?thesis using assms(1) 5
    by (auto simp: getStrategy_def customStrategy_def)
qed

lemma strategy_advance_ok:
  assumes "getStrategy dp cfg = Inr s" "cfg_laws P cfg" "cursor_of P cfg c" "s_advance s c i = Inr r"
  shows "cursor_of P cfg (ar_cursor r)"
  using assms(3)
proof (cases rule: cursor_of_cases)
  case (5 t v)
  then obtain r' where "cu_advance t v i = Inr r'" "r = map_result CustCur r'"
    using assms(1,4) by (auto simp: getStrategy_def customStrategy_def map_sum_def split: sum.splits)
  then show ?thesis using 5 assms(2) by (auto simp: custom_laws_def map_result_def)
qed (use assms(1,4) in \<open>auto simp: getStrategy_def timestampStrategy_def tokenStrategy_def pageStrategy_def
    snapshotDiffStrategy_def map_result_def map_sum_def split: sum.splits\<close>)

text \<open>The strategy that \<^verbatim>\<open>getStrategy\<close> returns for a configuration whose callbacks keep the contract.\<close>

locale lawful_config =
  fixes dp :: date_parse and cfg :: cursor_cfg and P :: "jsval \<Rightarrow> bool" and s :: strategy
  assumes strategy: "getStrategy dp cfg = Inr s"
    and laws: "cfg_laws P cfg"

sublocale lawful_config \<subseteq> cursor_strategy "cursor_of P cfg" "s_initial s" "s_serialize s" "s_deserialize s" "s_advance s"
  using strategy_initial [OF strategy laws] strategy_round_trip [OF strategy laws]
    strategy_advance_ok [OF strategy laws]
  by unfold_locales auto

context lawful_config
begin

lemma restart_walk:
  "pages_run_restarting (s_serialize s) (s_deserialize s) (s_advance s) pages (s_initial s)
     = pages_run (s_advance s) pages (s_initial s)"
  by (rule restart_same [OF initial_ok])

end

interpretation ts_config: lawful_config dp "TimestampCfg c" "\<lambda>_. True" "timestampStrategy dp c" for dp c
  by unfold_locales (simp_all add: getStrategy_def)

interpretation page_config: lawful_config dp "PageCfg c" "\<lambda>_. True" "pageStrategy c" for dp c
  by unfold_locales (simp_all add: getStrategy_def)

section \<open>The timestamp watermark\<close>

definition watermark :: "date_parse \<Rightarrow> ts_cfg \<Rightarrow> ts_cursor \<Rightarrow> number option" where
  "watermark dp cfg c = (case tv_value c of None \<Rightarrow> None | Some v \<Rightarrow> tryParseTimestamp dp cfg v)"

definition not_fresher :: "date_parse \<Rightarrow> ts_cfg \<Rightarrow> number \<Rightarrow> jsval \<Rightarrow> bool" where
  "not_fresher dp cfg cutoff item =
     (case item_time dp cfg item of None \<Rightarrow> True | Some (raw, ms) \<Rightarrow> ms \<le> cutoff)"

lemma tryParse_parse: "tryParseTimestamp dp cfg raw = Some ms \<longleftrightarrow> parseTimestamp dp cfg raw = Inr ms"
  by (auto simp: tryParseTimestamp_def parseTimestamp_def split: sum.splits option.splits)

lemma parse_try: "parseTimestamp dp cfg raw = Inr ms \<Longrightarrow> tryParseTimestamp dp cfg raw = Some ms"
  by (simp add: tryParse_parse)

lemma item_time_parse: "item_time dp cfg i = Some (raw, ms) \<Longrightarrow> tryParseTimestamp dp cfg raw = Some ms"
  by (auto simp: item_time_def split: option.splits)


text \<open>What the running maximum has absorbed: at least a time and, at that time, at least a tie-break.\<close>

fun covers :: "ts_cfg \<Rightarrow> ts_max \<Rightarrow> number \<Rightarrow> string option \<Rightarrow> bool" where
  "covers cfg None ms tie = False"
| "covers cfg (Some (r, M, t)) ms tie \<longleftrightarrow> ms < M \<or> (ms = M \<and> (tc_tieBreak cfg \<noteq> None \<longrightarrow> maxString t tie = t))"

definition item_tie :: "ts_cfg \<Rightarrow> jsval \<Rightarrow> string option" where
  "item_tie cfg item = (case tc_tieBreak cfg of None \<Rightarrow> None | Some f \<Rightarrow> tieOf item f)"

definition bump :: "ts_cfg \<Rightarrow> ts_max \<Rightarrow> string \<Rightarrow> number \<Rightarrow> string option \<Rightarrow> ts_max" where
  "bump cfg mx raw ms tie =
     (case mx of
        None \<Rightarrow> Some (raw, ms, tie)
      | Some (maxRaw, maxMs, maxTie) \<Rightarrow>
          if ms > maxMs then Some (raw, ms, tie)
          else if ms = maxMs \<and> tc_tieBreak cfg \<noteq> None then Some (maxRaw, maxMs, maxString maxTie tie)
          else mx)"

lemma maxString_absorb: "maxString (maxString a b) b = maxString a b" "maxString (maxString a b) a = maxString a b"
  "maxString a a = a" "maxString a None = a"
  by (cases a; cases b; auto)+

lemma maxString_assoc: "maxString a c = a \<Longrightarrow> maxString (maxString a b) c = maxString a b"
  by (cases a; cases b; cases c; auto split: if_splits)

lemma covers_bump: "covers cfg (bump cfg mx raw ms tie) ms tie"
  "covers cfg mx ms' tie' \<Longrightarrow> covers cfg (bump cfg mx raw ms tie) ms' tie'"
  by (auto simp: bump_def maxString_absorb maxString_assoc split: option.splits)

lemma ts_scan_step:
  "ts_scan dp cfg cutoff (item # items) mx =
     (case item_time dp cfg item of
        None \<Rightarrow> map_prod (Cons item) id (ts_scan dp cfg cutoff items mx)
      | Some (raw, ms) \<Rightarrow>
          if ms > cutoff then ts_scan dp cfg cutoff items mx
          else map_prod (Cons item) id (ts_scan dp cfg cutoff items (bump cfg mx raw ms (item_tie cfg item))))"
  by (auto simp: Let_def bump_def item_tie_def split: option.splits prod.splits)

lemma ts_scan_kept: "fst (ts_scan dp cfg cutoff items mx) = filter (not_fresher dp cfg cutoff) items"
proof (induction items arbitrary: mx)
  case (Cons item items)
  then show ?case
    by (cases "item_time dp cfg item")
      (auto simp: ts_scan_step not_fresher_def simp del: ts_scan.simps)
qed simp

lemma ts_scan_covers:
  "\<lbrakk> covers cfg mx ms tie \<or>
      (\<exists>i \<in> set items. \<exists>raw. item_time dp cfg i = Some (raw, ms) \<and> ms \<le> cutoff \<and> tie = item_tie cfg i) \<rbrakk>
    \<Longrightarrow> covers cfg (snd (ts_scan dp cfg cutoff items mx)) ms tie"
proof (induction items arbitrary: mx)
  case (Cons item items)
  show ?case
  proof (cases "item_time dp cfg item")
    case None
    then show ?thesis using Cons by (auto simp: ts_scan_step simp del: ts_scan.simps)
  next
    case (Some p)
    obtain raw0 ms0 where p: "p = (raw0, ms0)" by (cases p)
    show ?thesis
      using Cons.prems Cons.IH Some p covers_bump
      by (auto simp: ts_scan_step simp del: ts_scan.simps)
  qed
qed auto

lemma ts_scan_from:
  "snd (ts_scan dp cfg cutoff items mx) = Some (raw, ms, tie) \<Longrightarrow>
     (\<exists>t. mx = Some (raw, ms, t)) \<or> (\<exists>i \<in> set items. item_time dp cfg i = Some (raw, ms) \<and> ms \<le> cutoff)"
proof (induction items arbitrary: mx)
  case (Cons item items)
  show ?case
  proof (cases "item_time dp cfg item")
    case None
    then show ?thesis using Cons by (auto simp: ts_scan_step simp del: ts_scan.simps)
  next
    case (Some p)
    obtain raw0 ms0 where p: "p = (raw0, ms0)" by (cases p)
    show ?thesis
    proof (cases "ms0 > cutoff")
      case True
      then show ?thesis using Cons Some p by (auto simp: ts_scan_step simp del: ts_scan.simps)
    next
      case False
      then have "(\<exists>t. bump cfg mx raw0 ms0 (item_tie cfg item) = Some (raw, ms, t))
          \<or> (\<exists>i \<in> set items. item_time dp cfg i = Some (raw, ms) \<and> ms \<le> cutoff)"
        using Cons.prems Some p
        by (intro Cons.IH) (simp add: ts_scan_step del: ts_scan.simps)
      then show ?thesis
        using False Some p by (auto simp: bump_def split: option.splits if_splits)
    qed
  qed
qed auto

lemma filter_length_eq: "length (filter P xs) = length xs \<Longrightarrow> xs = filter P xs"
  by (metis filter_id_conv length_filter_less nless_le)

lemma maxString_commute: "maxString a b = maxString b a"
  by (cases a; cases b) auto

text \<open>The cursor that \<^verbatim>\<open>advance\<close> derives from the scan's maximum.\<close>

definition next_ts :: "ts_cfg \<Rightarrow> ts_cursor \<Rightarrow> number option \<Rightarrow> ts_max \<Rightarrow> ts_cursor" where
  "next_ts cfg cursor current mx =
     (case mx of
        None \<Rightarrow> cursor
      | Some (maxRaw, maxMs, maxTie) \<Rightarrow>
          (case current of
             None \<Rightarrow> \<lparr>tv_value = Some maxRaw, tv_tieBreak = maxTie\<rparr>
           | Some cur \<Rightarrow>
               if maxMs > cur then \<lparr>tv_value = Some maxRaw, tv_tieBreak = maxTie\<rparr>
               else if maxMs = cur \<and> tc_tieBreak cfg \<noteq> None
                 then \<lparr>tv_value = tv_value cursor, tv_tieBreak = maxString (tv_tieBreak cursor) maxTie\<rparr>
               else cursor))"

lemma ts_advance_form:
  assumes "ts_advance dp cfg c input = Inr r" "\<forall>pc. ai_pageCursor input \<noteq> Some (Some pc)"
    "(case tc_lag cfg of None \<Rightarrow> Inr 0 | Some d \<Rightarrow> parseDuration d ''cursor.lag'') = Inr lagMs"
  defines "sc \<equiv> ts_scan dp cfg (ai_now input - lagMs) (ai_items input) None"
  shows "ar_items r = fst sc" "ar_cursor r = next_ts cfg c (watermark dp cfg c) (snd sc)"
    "snd sc \<noteq> None \<and> tv_value c \<noteq> None \<Longrightarrow> watermark dp cfg c \<noteq> None"
proof -
  obtain kept mx where sc: "sc = (kept, mx)" by (cases sc)
  have kept: "kept = filter (not_fresher dp cfg (ai_now input - lagMs)) (ai_items input)"
    using ts_scan_kept [of dp cfg "ai_now input - lagMs" "ai_items input" None] sc by (simp add: sc_def)
  have items: "length kept = length (ai_items input) \<Longrightarrow> ai_items input = kept"
    using filter_length_eq kept by auto
  have *: "ts_advance dp cfg c input =
      (case mx of
         None \<Rightarrow> Inr \<lparr>ar_cursor = c, ar_done = (ai_hasMore input \<noteq> Some True), ar_items = kept\<rparr>
       | Some (maxRaw, maxMs, maxTie) \<Rightarrow>
           (case tv_value c of
              None \<Rightarrow> Inr \<lparr>ar_cursor = next_ts cfg c None mx, ar_done = (ai_hasMore input \<noteq> Some True), ar_items = kept\<rparr>
            | Some cv \<Rightarrow>
                (case parseTimestamp dp cfg cv of
                   Inl e \<Rightarrow> Inl e
                 | Inr cur \<Rightarrow> Inr \<lparr>ar_cursor = next_ts cfg c (Some cur) mx, ar_done = (ai_hasMore input \<noteq> Some True),
                     ar_items = kept\<rparr>)))"
    using assms(2,3) sc unfolding ts_advance_def sc_def
    by (auto dest!: items simp: Let_def next_ts_def split: option.splits sum.splits)
  show "ar_items r = fst sc" "ar_cursor r = next_ts cfg c (watermark dp cfg c) (snd sc)"
    "snd sc \<noteq> None \<and> tv_value c \<noteq> None \<Longrightarrow> watermark dp cfg c \<noteq> None"
    using assms(1) unfolding * sc
    by (auto simp: watermark_def next_ts_def parse_try split: option.splits sum.splits)
qed

section \<open>Properties\<close>

text \<open>C23: A restart between any two pages does not change the walk: for every strategy that \<^verbatim>\<open>getStrategy\<close>
  returns, writing the cursor to its persisted text and reading it back after every page gives exactly
  the cursor (or the error) of the walk that keeps it in memory. For a custom cursor this is under the
  documented round trip of its callbacks.\<close>

theorem restart_between_pages:
  assumes "getStrategy dp cfg = Inr s" "cfg_laws P cfg"
  shows "pages_run_restarting (s_serialize s) (s_deserialize s) (s_advance s) pages (s_initial s)
       = pages_run (s_advance s) pages (s_initial s)"
proof -
  have "lawful_config dp cfg P s" by (rule lawful_config.intro [OF assms])
  then show ?thesis
    by (rule lawful_config.restart_walk)
qed

definition null_custom :: custom_cfg where
  "null_custom = \<lparr>cc_initial = VNull,
     cc_advance = (\<lambda>c items pc more. Inr (VObj 0 [(''cursor'', VNull), (''done'', VBool (\<not> more))])),
     cc_serialize = None, cc_deserialize = None\<rparr>"

lemma null_custom_laws: "custom_laws (\<lambda>v. v = VNull) null_custom"
proof -
  have "parse_js ''null'' = Inr VNull" by code_simp
  then show ?thesis
    by (auto simp: custom_laws_def null_custom_def cu_serialize_def cu_deserialize_def stringify_def
        cu_advance_def member_def)
qed

theorem restart_between_pages_witness:
  "pages_run_restarting (s_serialize (customStrategy null_custom)) (s_deserialize (customStrategy null_custom))
      (s_advance (customStrategy null_custom))
      [\<lparr>ai_items = [], ai_pageCursor = None, ai_hasMore = Some True, ai_now = 0\<rparr>] (CustCur VNull) = Inr (CustCur VNull)"
  using restart_between_pages [of "\<lambda>_. NaN" "CustomCfg null_custom" "customStrategy null_custom" "\<lambda>v. v = VNull"
      "[\<lparr>ai_items = [], ai_pageCursor = None, ai_hasMore = Some True, ai_now = 0\<rparr>]"] null_custom_laws
  by (simp add: getStrategy_def customStrategy_def null_custom_def cu_advance_def member_def map_result_def)


definition sample_ts :: ts_cfg where
  "sample_ts = \<lparr>tc_field = ''t'', tc_tieBreak = Some ''id'', tc_initial = VNull, tc_lag = None, tc_overlap = None,
     tc_parse = Some (\<lambda>s. Inr (VNum (if s = ''t1'' then Dec False 1 0 else NaN))), tc_format = None\<rparr>"

definition sample_item :: "string \<Rightarrow> nat \<Rightarrow> jsval" where
  "sample_item t i = VObj 0 [(''t'', VStr t), (''id'', VNum (mk_num False i 0))]"

definition sample_page :: "nat list \<Rightarrow> advance_input" where
  "sample_page ids = \<lparr>ai_items = map (sample_item ''t1'') ids, ai_pageCursor = None, ai_hasMore = Some True,
     ai_now = 5\<rparr>"

lemma sample_advance:
  "ts_advance (\<lambda>_. NaN) sample_ts \<lparr>tv_value = None, tv_tieBreak = None\<rparr> (sample_page [2, 10]) =
     Inr \<lparr>ar_cursor = \<lparr>tv_value = Some ''t1'', tv_tieBreak = Some ''2''\<rparr>, ar_done = False,
          ar_items = map (sample_item ''t1'') [2, 10]\<rparr>"
  by code_simp


text \<open>Tie-breaks are compared as texts. An API that pages by a numeric id at one timestamp, two items at a time,
  never gets past the second page: after \<open>2, 10\<close> the tie-break is \<open>2\<close> (as a text it is above \<open>10\<close>), the
  next page is \<open>10, 11\<close>, and the cursor does not move, so \<open>12\<close> is never fetched.\<close>

fun keyset_page :: "nat list \<Rightarrow> string option \<Rightarrow> nat list" where
  "keyset_page ids None = take 2 ids"
| "keyset_page ids (Some tie) = take 2 (filter (\<lambda>i. str_nat tie < i) ids)"

definition keyset_step :: "nat list \<Rightarrow> ts_cursor \<Rightarrow> ts_cursor" where
  "keyset_step ids c = (case ts_advance (\<lambda>_. NaN) sample_ts c (sample_page (keyset_page ids (tv_tieBreak c))) of
     Inr r \<Rightarrow> ar_cursor r | Inl _ \<Rightarrow> c)"

lemma keyset_first: "keyset_step [2, 10, 11, 12] \<lparr>tv_value = None, tv_tieBreak = None\<rparr>
    = \<lparr>tv_value = Some ''t1'', tv_tieBreak = Some ''2''\<rparr>"
  by code_simp

lemma keyset_stuck: "keyset_step [2, 10, 11, 12] \<lparr>tv_value = Some ''t1'', tv_tieBreak = Some ''2''\<rparr>
    = \<lparr>tv_value = Some ''t1'', tv_tieBreak = Some ''2''\<rparr>"
  by code_simp

lemma tie_break_livelock:
  "12 \<notin> set (keyset_page [2, 10, 11, 12] (tv_tieBreak ((keyset_step [2, 10, 11, 12] ^^ n) \<lparr>tv_value = None, tv_tieBreak = None\<rparr>)))"
proof -
  have "(keyset_step [2, 10, 11, 12] ^^ Suc k) \<lparr>tv_value = None, tv_tieBreak = None\<rparr>
      = \<lparr>tv_value = Some ''t1'', tv_tieBreak = Some ''2''\<rparr>" for k
    by (induction k) (simp_all add: keyset_first keyset_stuck)
  moreover have "keyset_page [2, 10, 11, 12] (Some ''2'') = [10, 11]" by code_simp
  ultimately show ?thesis by (cases n) auto
qed

end
