(* ===== verification/Scheduler.thy ===== *)
theory Scheduler
  imports Types
begin

text \<open>
  \<^verbatim>\<open>src/scheduler/scheduler.ts\<close>: the pure functions that plan the next run of a key after a success
  or a failure, the adaptive interval, rate-limit pacing, exponential backoff and the circuit
  breaker. The injected random source is the argument \<open>u\<close>, the value its next call returns.
\<close>

datatype schedule_reason = SpeedUp | BackOffIdle | NotModifiedR | Fixed | CatchUp | Paced | Throttled
  | BackoffR | CircuitOpenR | ProbeFailed

record scheduler_cfg =
  cfg_schedule :: schedule_cfg
  cfg_circuit :: circuit_cfg

record success_outcome =
  so_hadEvents :: bool
  so_notModified :: bool
  so_truncated :: bool
  so_rateLimit :: "rate_limit_info option"
  so_summary :: "poll_summary option"

record success_result =
  sr_state :: schedule_state
  sr_circuitClosed :: bool
  sr_reason :: schedule_reason

record failure_outcome =
  fo_error :: serialized_error
  fo_retryAfterMs :: "number option"
  fo_isThrottle :: bool
  fo_rateLimit :: "rate_limit_info option option" \<comment> \<open>outer \<^const>\<open>None\<close>: \<^verbatim>\<open>undefined\<close>\<close>

record failure_result =
  fr_state :: schedule_state
  fr_circuitOpened :: bool
  fr_reason :: schedule_reason

definition clamp :: "number \<Rightarrow> number \<Rightarrow> number \<Rightarrow> number" where
  "clamp v lo hi = min hi (max lo v)"

definition initialScheduleState :: "number \<Rightarrow> scheduler_cfg \<Rightarrow> schedule_state" where
  "initialScheduleState now cfg =
     \<lparr>nextDueAt = Some now, intervalMs = Some (sc_minMs (cfg_schedule cfg)), consecutiveFailures = 0,
      circuit = Closed, circuitOpenedAt = None, throttledUntil = None, rateLimit = None,
      lastPollAt = None, lastPoll = None, lastError = None\<rparr>"

definition jittered :: "number \<Rightarrow> number \<Rightarrow> number \<Rightarrow> number" where
  "jittered interval jitter u =
     (if \<not> jitter > 0 then max 0 (js_round interval)
      else max 0 (js_round (interval * (1 + (u * 2 - 1) * jitter))))"

datatype jitter_mode = JitterFull | JitterNone

definition backoffDelay :: "number \<Rightarrow> backoff_cfg \<Rightarrow> number \<Rightarrow> jitter_mode \<Rightarrow> number" where
  "backoffDelay attempt b u mode =
     (let n = nat (max 1 \<lfloor>attempt\<rfloor>);
          raw = bo_baseMs b * bo_factor b ^ (n - 1);
          capped = max 0 (min (bo_maxMs b) raw)
      in case mode of JitterNone \<Rightarrow> js_round capped | JitterFull \<Rightarrow> js_round (u * capped))"

definition applyPacing :: "number \<Rightarrow> rate_limit_info option \<Rightarrow> number \<Rightarrow> number" where
  "applyPacing interval rl now =
     (let base = max 0 interval in
      case rl of
        None \<Rightarrow> base
      | Some info \<Rightarrow>
          (case (rl_remaining info, rl_resetAt info) of
             (Some remaining, Some resetAt) \<Rightarrow>
               (let window = resetAt - now in
                if window \<le> 0 then base
                else let spacing = (if remaining \<le> 0 then window else window / max remaining 1)
                     in max base (js_ceil spacing))
           | _ \<Rightarrow> base))"

definition afterSuccess ::
  "schedule_state \<Rightarrow> scheduler_cfg \<Rightarrow> number \<Rightarrow> number \<Rightarrow> success_outcome \<Rightarrow> success_result" where
  "afterSuccess state cfg now u out =
     (let schedule = cfg_schedule cfg;
          previous = clamp (opt_or (intervalMs state) (sc_minMs schedule)) (sc_minMs schedule) (sc_maxMs schedule);
          idle = (so_notModified out \<or> \<not> so_hadEvents out);
          (interval, reason) =
            (if so_truncated out then (previous, CatchUp)
             else if \<not> sc_adaptive schedule then (sc_minMs schedule, Fixed)
             else if idle then (min (sc_maxMs schedule) (js_round (previous * (3 / 2))),
                                if so_notModified out then NotModifiedR else BackOffIdle)
             else (max (sc_minMs schedule) (js_round (previous / 2)), SpeedUp));
          baseWait = (if so_truncated out then 0 else jittered interval (sc_jitter schedule) u);
          wait = applyPacing baseWait (so_rateLimit out) now
      in \<lparr>sr_state = state\<lparr>nextDueAt := Some (now + wait), intervalMs := Some interval,
             consecutiveFailures := 0, circuit := Closed, circuitOpenedAt := None,
             throttledUntil := None, rateLimit := so_rateLimit out, lastPollAt := Some now,
             lastPoll := (case so_summary out of None \<Rightarrow> lastPoll state | Some s \<Rightarrow> Some s),
             lastError := None\<rparr>,
          sr_circuitClosed = (circuit state \<noteq> Closed),
          sr_reason = (if wait > baseWait then Paced else reason)\<rparr>)"

definition afterFailure ::
  "schedule_state \<Rightarrow> scheduler_cfg \<Rightarrow> number \<Rightarrow> number \<Rightarrow> failure_outcome \<Rightarrow> failure_result" where
  "afterFailure state cfg now u out =
     (let rl = (case fo_rateLimit out of None \<Rightarrow> rateLimit state | Some r \<Rightarrow> r) in
      if fo_isThrottle out then
        (let fallback = clamp (opt_or (intervalMs state) (sc_minMs (cfg_schedule cfg)))
                          (sc_minMs (cfg_schedule cfg)) (sc_maxMs (cfg_schedule cfg));
             until = now + max 0 (opt_or (fo_retryAfterMs out) fallback)
         in \<lparr>fr_state = state\<lparr>nextDueAt := Some until, throttledUntil := Some until, rateLimit := rl,
                lastError := Some (fo_error out)\<rparr>,
             fr_circuitOpened = False, fr_reason = Throttled\<rparr>)
      else
        (let failures = consecutiveFailures state + 1;
             common = state\<lparr>consecutiveFailures := failures,
               throttledUntil := (case throttledUntil state of
                                    None \<Rightarrow> None | Some t \<Rightarrow> if t > now then Some t else None),
               rateLimit := rl, lastError := Some (fo_error out)\<rparr>
         in if circuit state \<noteq> Closed then
              \<lparr>fr_state = common\<lparr>circuit := Open, nextDueAt := Some (now + ci_probeEveryMs (cfg_circuit cfg))\<rparr>,
               fr_circuitOpened = False, fr_reason = ProbeFailed\<rparr>
            else if failures \<ge> ci_failures (cfg_circuit cfg) then
              \<lparr>fr_state = common\<lparr>circuit := Open, circuitOpenedAt := Some now,
                  nextDueAt := Some (now + ci_probeEveryMs (cfg_circuit cfg))\<rparr>,
               fr_circuitOpened = True, fr_reason = CircuitOpenR\<rparr>
            else
              \<lparr>fr_state = common\<lparr>nextDueAt := Some (now +
                  backoffDelay (of_nat failures) (sc_backoff (cfg_schedule cfg)) u JitterFull)\<rparr>,
               fr_circuitOpened = False, fr_reason = BackoffR\<rparr>))"

definition isDue :: "schedule_state \<Rightarrow> number \<Rightarrow> bool" where
  "isDue state now =
     (if (case nextDueAt state of None \<Rightarrow> False | Some t \<Rightarrow> t > now) then False
      else if (case throttledUntil state of None \<Rightarrow> False | Some t \<Rightarrow> t > now) then False
      else True)"

definition beginProbe :: "schedule_state \<Rightarrow> schedule_state" where
  "beginProbe state = (if circuit state = Open then state\<lparr>circuit := HalfOpen\<rparr> else state)"

definition timeUntilDue :: "schedule_state \<Rightarrow> number \<Rightarrow> number" where
  "timeUntilDue state now =
     (case nextDueAt state of
        None \<Rightarrow> 0
      | Some t \<Rightarrow>
          let due = (case throttledUntil state of None \<Rightarrow> t | Some th \<Rightarrow> max t th)
          in max 0 (due - now))"

definition makeDue :: "schedule_state \<Rightarrow> number \<Rightarrow> schedule_state" where
  "makeDue state now = state\<lparr>nextDueAt := Some now, throttledUntil := None\<rparr>"

section \<open>Lemmas\<close>

lemma clamp_range: "lo \<le> hi \<Longrightarrow> lo \<le> clamp v lo hi \<and> clamp v lo hi \<le> hi"
  by (auto simp: clamp_def)

lemma clamp_id: "lo \<le> v \<Longrightarrow> v \<le> hi \<Longrightarrow> clamp v lo hi = v"
  by (simp add: clamp_def)

lemma applyPacing_ge: "max 0 i \<le> applyPacing i rl now"
  by (auto simp: applyPacing_def Let_def split: option.splits)

lemma jittered_nonneg: "0 \<le> jittered i j u"
  by (simp add: jittered_def)

text \<open>The wait is long enough for the remaining requests to last until the window resets.\<close>

lemma applyPacing_spacing:
  assumes "rl_remaining info = Some remaining" "rl_resetAt info = Some resetAt" "now < resetAt"
  shows "resetAt - now \<le> applyPacing i (Some info) now * max remaining 1"
proof -
  define window where "window = resetAt - now"
  define spacing where "spacing = (if remaining \<le> 0 then window else window / max remaining 1)"
  have pos: "0 < window" using assms by (simp add: window_def)
  have "spacing \<le> applyPacing i (Some info) now"
    using assms js_ceil_ge [of spacing] by (auto simp: applyPacing_def Let_def spacing_def window_def)
  then have "spacing * max remaining 1 \<le> applyPacing i (Some info) now * max remaining 1"
    by (intro mult_right_mono) auto
  moreover have "window \<le> spacing * max remaining 1"
    using pos by (auto simp: spacing_def max_def)
  ultimately show ?thesis by (simp add: window_def)
qed

lemma backoffDelay_range:
  assumes "0 \<le> u" "u \<le> 1" "0 \<le> bo_maxMs b"
  shows "0 \<le> backoffDelay a b u m" "backoffDelay a b u m \<le> js_round (bo_maxMs b)"
proof -
  define capped where "capped = max 0 (min (bo_maxMs b) (bo_baseMs b * bo_factor b ^ (nat (max 1 \<lfloor>a\<rfloor>) - 1)))"
  have c: "0 \<le> capped" "capped \<le> bo_maxMs b" using assms by (auto simp: capped_def)
  then have "0 \<le> u * capped" "u * capped \<le> bo_maxMs b"
    using assms mult_mono [of u 1 capped "bo_maxMs b"] by auto
  moreover have "backoffDelay a b u m = js_round (case m of JitterNone \<Rightarrow> capped | JitterFull \<Rightarrow> u * capped)"
    by (cases m) (simp_all only: backoffDelay_def Let_def capped_def jitter_mode.case)
  ultimately show "0 \<le> backoffDelay a b u m" "backoffDelay a b u m \<le> js_round (bo_maxMs b)"
    using c by (cases m; simp only: jitter_mode.case js_round_nonneg js_round_mono)+
qed

text \<open>The interval stays in the configured range, and an idle cycle moves it up.\<close>

lemma grow_ge: "1 \<le> x \<Longrightarrow> x \<le> js_round (x * (3 / 2))"
  using js_round_ge_half [of "x * (3 / 2)"] by simp

definition interval_ok :: "scheduler_cfg \<Rightarrow> schedule_state \<Rightarrow> bool" where
  "interval_ok cfg s \<longleftrightarrow> (\<forall>i. intervalMs s = Some i \<longrightarrow>
     sc_minMs (cfg_schedule cfg) \<le> i \<and> i \<le> sc_maxMs (cfg_schedule cfg))"

lemma afterSuccess_interval:
  assumes "1 \<le> sc_minMs (cfg_schedule cfg)" "sc_minMs (cfg_schedule cfg) \<le> sc_maxMs (cfg_schedule cfg)"
  shows "interval_ok cfg (sr_state (afterSuccess s cfg now u out))"
proof -
  let ?p = "clamp (opt_or (intervalMs s) (sc_minMs (cfg_schedule cfg))) (sc_minMs (cfg_schedule cfg))
      (sc_maxMs (cfg_schedule cfg))"
  have p: "sc_minMs (cfg_schedule cfg) \<le> ?p" "?p \<le> sc_maxMs (cfg_schedule cfg)"
    using clamp_range [OF assms(2)] by auto
  have "?p \<le> js_round (?p * (3 / 2))" using p assms by (intro grow_ge) linarith
  moreover have "js_round (?p / 2) \<le> ?p"
    using js_round_le_half [of "?p / 2"] p assms by linarith
  ultimately have bounds: "?p \<le> js_round (?p * (3 / 2))" "js_round (?p / 2) \<le> ?p" by auto
  have "intervalMs (sr_state (afterSuccess s cfg now u out)) =
      Some (if so_truncated out then ?p
            else if \<not> sc_adaptive (cfg_schedule cfg) then sc_minMs (cfg_schedule cfg)
            else if so_notModified out \<or> \<not> so_hadEvents out
              then min (sc_maxMs (cfg_schedule cfg)) (js_round (?p * (3 / 2)))
              else max (sc_minMs (cfg_schedule cfg)) (js_round (?p / 2)))"
    by (simp add: afterSuccess_def Let_def)
  then show ?thesis
    unfolding interval_ok_def using p bounds assms(2) by (auto split: if_splits)
qed

section \<open>The circuit breaker as a state machine\<close>

inductive sched_step :: "scheduler_cfg \<Rightarrow> schedule_state \<Rightarrow> schedule_state \<Rightarrow> bool" for cfg where
  success: "sched_step cfg s (sr_state (afterSuccess s cfg now u out))"
| failure: "sched_step cfg s (fr_state (afterFailure s cfg now u out))"
| probe: "sched_step cfg s (beginProbe s)"
| due: "sched_step cfg s (makeDue s now)"



definition circuit_inv :: "scheduler_cfg \<Rightarrow> schedule_state \<Rightarrow> bool" where
  "circuit_inv cfg s \<longleftrightarrow>
     (if circuit s = Closed then consecutiveFailures s < ci_failures (cfg_circuit cfg) \<and> circuitOpenedAt s = None
      else ci_failures (cfg_circuit cfg) \<le> consecutiveFailures s \<and> circuitOpenedAt s \<noteq> None)"

definition sched_inv :: "scheduler_cfg \<Rightarrow> schedule_state \<Rightarrow> bool" where
  "sched_inv cfg s \<longleftrightarrow> circuit_inv cfg s \<and> interval_ok cfg s"

definition wf_cfg :: "scheduler_cfg \<Rightarrow> bool" where
  "wf_cfg cfg \<longleftrightarrow> 1 \<le> ci_failures (cfg_circuit cfg) \<and> 1 \<le> sc_minMs (cfg_schedule cfg)
     \<and> sc_minMs (cfg_schedule cfg) \<le> sc_maxMs (cfg_schedule cfg)"

lemma afterSuccess_circuit:
  "1 \<le> ci_failures (cfg_circuit cfg) \<Longrightarrow> circuit_inv cfg (sr_state (afterSuccess s cfg now u out))"
  by (auto simp: circuit_inv_def afterSuccess_def Let_def split: prod.splits)

lemma afterFailure_circuit: "circuit_inv cfg s \<Longrightarrow> circuit_inv cfg (fr_state (afterFailure s cfg now u out))"
  by (auto simp: circuit_inv_def afterFailure_def Let_def split: if_splits)

lemma afterFailure_interval:
  "interval_ok cfg s \<Longrightarrow> interval_ok cfg (fr_state (afterFailure s cfg now u out))"
  by (auto simp: interval_ok_def afterFailure_def Let_def split: if_splits)

lemma sched_step_inv:
  assumes "wf_cfg cfg" "sched_inv cfg s" "sched_step cfg s t"
  shows "sched_inv cfg t"
  using assms(3)
proof (cases rule: sched_step.cases)
  case success
  then show ?thesis
    using assms(1) by (auto simp: sched_inv_def wf_cfg_def intro: afterSuccess_circuit afterSuccess_interval)
next
  case failure
  then show ?thesis
    using assms(2) by (auto simp: sched_inv_def intro: afterFailure_circuit afterFailure_interval)
next
  case probe
  then show ?thesis
    using assms(2) by (auto simp: sched_inv_def beginProbe_def circuit_inv_def interval_ok_def split: if_splits)
next
  case due
  then show ?thesis
    using assms(2) by (auto simp: sched_inv_def makeDue_def circuit_inv_def interval_ok_def split: if_splits)
qed

definition wf_sched_step :: "scheduler_cfg \<Rightarrow> schedule_state \<Rightarrow> schedule_state \<Rightarrow> bool" where
  "wf_sched_step cfg s t \<longleftrightarrow> wf_cfg cfg \<and> sched_step cfg s t"

interpretation sched: transition_inv "wf_sched_step cfg" "sched_inv cfg" for cfg
  by unfold_locales (auto simp: wf_sched_step_def intro: sched_step_inv)

lemma initial_sched_inv: "wf_cfg cfg \<Longrightarrow> sched_inv cfg (initialScheduleState now cfg)"
  by (auto simp: sched_inv_def circuit_inv_def interval_ok_def initialScheduleState_def wf_cfg_def)

text \<open>A run of failures that are not throttles.\<close>

fun fail_run :: "scheduler_cfg \<Rightarrow> schedule_state \<Rightarrow> (number \<times> number \<times> failure_outcome) list \<Rightarrow> schedule_state" where
  "fail_run cfg s [] = s"
| "fail_run cfg s ((now, u, out) # outs) = fail_run cfg (fr_state (afterFailure s cfg now u out)) outs"

lemma fail_run_count:
  "list_all (\<lambda>(now, u, out). \<not> fo_isThrottle out) outs
    \<Longrightarrow> consecutiveFailures (fail_run cfg s outs) = consecutiveFailures s + length outs"
  by (induction cfg s outs rule: fail_run.induct) (auto simp: afterFailure_def Let_def)

lemma fail_run_circuit: "circuit_inv cfg s \<Longrightarrow> circuit_inv cfg (fail_run cfg s outs)"
  by (induction cfg s outs rule: fail_run.induct) (auto intro: afterFailure_circuit)

lemma afterFailure_not_halfopen:
  "circuit s \<noteq> HalfOpen \<Longrightarrow> circuit (fr_state (afterFailure s cfg now u out)) \<noteq> HalfOpen"
  by (auto simp: afterFailure_def Let_def)

lemma fail_run_not_halfopen: "circuit s \<noteq> HalfOpen \<Longrightarrow> circuit (fail_run cfg s outs) \<noteq> HalfOpen"
  by (induction cfg s outs rule: fail_run.induct) (simp_all add: afterFailure_not_halfopen)

text \<open>A run of idle cycles.\<close>

fun idle_run :: "scheduler_cfg \<Rightarrow> schedule_state \<Rightarrow> (number \<times> number) list \<Rightarrow> schedule_state" where
  "idle_run cfg s [] = s"
| "idle_run cfg s ((now, u) # ts) =
     idle_run cfg (sr_state (afterSuccess s cfg now u
       \<lparr>so_hadEvents = False, so_notModified = False, so_truncated = False, so_rateLimit = None,
        so_summary = None\<rparr>)) ts"

definition grown :: "number \<Rightarrow> number \<Rightarrow> number" where
  "grown hi x = min hi (js_round (x * (3 / 2)))"

lemma grown_step:
  assumes "1 \<le> x" "x \<le> hi"
  shows "x \<le> grown hi x" "grown hi x \<le> hi" "grown hi x = hi \<or> x + 1 / 2 < grown hi x + 1 / 2"
    "grown hi x = hi \<or> (\<exists>n :: int. grown hi x = of_int n)"
  using grow_ge [OF assms(1)] js_round_ge_half [of "x * (3 / 2)"] assms
  by (auto simp: grown_def min_def js_round_def)

lemma idle_interval:
  assumes "sc_adaptive (cfg_schedule cfg)" "intervalMs s = Some x"
    "sc_minMs (cfg_schedule cfg) \<le> x" "x \<le> sc_maxMs (cfg_schedule cfg)"
  shows "intervalMs (idle_run cfg s [(now, u)]) = Some (grown (sc_maxMs (cfg_schedule cfg)) x)"
  using assms by (simp add: afterSuccess_def Let_def grown_def clamp_id)

lemma grown_int: "1 \<le> k \<Longrightarrow> of_int (k + 1) \<le> js_round (of_int k * (3 / 2))"
proof -
  assume "1 \<le> k"
  then have "k + 1 \<le> \<lfloor>of_int k * (3 / 2) + 1 / 2 :: rat\<rfloor>" by linarith
  then show ?thesis unfolding js_round_def by (simp only: of_int_le_iff)
qed

lemma idle_run_append: "idle_run cfg s (ts @ us) = idle_run cfg (idle_run cfg s ts) us"
  by (induction cfg s ts rule: idle_run.induct) simp_all

lemma idle_run_interval:
  assumes "wf_cfg cfg" "sc_adaptive (cfg_schedule cfg)" "interval_ok cfg s" "intervalMs s \<noteq> None"
  shows "ts \<noteq> [] \<Longrightarrow> \<exists>x. intervalMs (idle_run cfg s ts) = Some x
     \<and> (x = sc_maxMs (cfg_schedule cfg)
         \<or> (\<exists>k. x = of_int k \<and> int (length ts) \<le> k \<and> x \<le> sc_maxMs (cfg_schedule cfg)))
     \<and> sc_minMs (cfg_schedule cfg) \<le> x"
proof (induction ts rule: rev_nonempty_induct)
  case (single t)
  obtain x where x: "intervalMs s = Some x" "sc_minMs (cfg_schedule cfg) \<le> x" "x \<le> sc_maxMs (cfg_schedule cfg)"
    using assms by (auto simp: interval_ok_def)
  have one: "1 \<le> x" using x assms(1) by (simp add: wf_cfg_def)
  have "1 \<le> \<lfloor>x * (3 / 2) + 1 / 2\<rfloor>" using one by linarith
  then show ?case
    using idle_interval [OF assms(2) x, of "fst t" "snd t"] grown_step(1,2) [OF one x(3)] x(2)
    by (cases "sc_maxMs (cfg_schedule cfg) \<le> js_round (x * (3 / 2))")
      (auto simp: grown_def min_def js_round_def)
next
  case (snoc t ts)
  then obtain x where x: "intervalMs (idle_run cfg s ts) = Some x" "sc_minMs (cfg_schedule cfg) \<le> x"
    "x = sc_maxMs (cfg_schedule cfg) \<or> (\<exists>k. x = of_int k \<and> int (length ts) \<le> k \<and> x \<le> sc_maxMs (cfg_schedule cfg))"
    by auto
  have le: "x \<le> sc_maxMs (cfg_schedule cfg)" using x(3) by auto
  have one: "1 \<le> x" using x assms(1) by (simp add: wf_cfg_def)
  have eq: "intervalMs (idle_run cfg s (ts @ [t])) = Some (grown (sc_maxMs (cfg_schedule cfg)) x)"
    using idle_interval [OF assms(2) x(1,2) le, of "fst t" "snd t"] by (simp add: idle_run_append)
  have g: "sc_minMs (cfg_schedule cfg) \<le> grown (sc_maxMs (cfg_schedule cfg)) x"
    using grown_step(1) [OF one le] x(2) by linarith
  from x(3) show ?case
  proof
    assume "x = sc_maxMs (cfg_schedule cfg)"
    then have "grown (sc_maxMs (cfg_schedule cfg)) x = sc_maxMs (cfg_schedule cfg)"
      using grow_ge [OF one] by (simp add: grown_def)
    then show ?thesis using eq g by simp
  next
    assume "\<exists>k. x = of_int k \<and> int (length ts) \<le> k \<and> x \<le> sc_maxMs (cfg_schedule cfg)"
    then obtain k where k: "x = of_int k" "int (length ts) \<le> k" by auto
    have k1: "1 \<le> k" using one k(1) by simp
    have "int (length (ts @ [t])) \<le> \<lfloor>x * (3 / 2) + 1 / 2\<rfloor>"
      using grown_int [OF k1] k unfolding js_round_def by (simp only: of_int_le_iff) simp
    then show ?thesis
      using eq g by (cases "sc_maxMs (cfg_schedule cfg) \<le> js_round (x * (3 / 2))")
        (auto simp: grown_def min_def js_round_def)
  qed
qed

section \<open>Properties\<close>

text \<open>C18: In every state that a run of schedule operations reaches from the initial state, with any
  clock readings, random values and outcomes, the circuit is closed exactly while fewer failures than the
  configured threshold have been counted, the opening time is recorded exactly while it is not closed,
  and the adaptive interval is inside \<^verbatim>\<open>[minMs, maxMs]\<close>.\<close>

theorem schedule_reachable:
  assumes "wf_cfg cfg" "(wf_sched_step cfg)\<^sup>*\<^sup>* (initialScheduleState now cfg) s"
  shows "(circuit s = Closed \<longleftrightarrow> consecutiveFailures s < ci_failures (cfg_circuit cfg))
    \<and> (circuit s = Closed \<longleftrightarrow> circuitOpenedAt s = None)
    \<and> (\<forall>i. intervalMs s = Some i \<longrightarrow> sc_minMs (cfg_schedule cfg) \<le> i \<and> i \<le> sc_maxMs (cfg_schedule cfg))"
  using sched.run_inv [OF assms(2) initial_sched_inv [OF assms(1)]]
  by (auto simp: sched_inv_def circuit_inv_def interval_ok_def split: if_splits)

definition sample_cfg :: scheduler_cfg where
  "sample_cfg = \<lparr>cfg_schedule = \<lparr>sc_minMs = 1000, sc_maxMs = 4000, sc_adaptive = True, sc_jitter = 0,
     sc_backoff = \<lparr>bo_baseMs = 1000, bo_factor = 2, bo_maxMs = 60000\<rparr>\<rparr>,
     cfg_circuit = \<lparr>ci_failures = 2, ci_probeEveryMs = 30000\<rparr>\<rparr>"

definition sample_failure :: failure_outcome where
  "sample_failure = \<lparr>fo_error = serializeError (typeError ''down'') 0, fo_retryAfterMs = None,
     fo_isThrottle = False, fo_rateLimit = None\<rparr>"

lemma sample_cfg_wf: "wf_cfg sample_cfg"
  by (simp add: wf_cfg_def sample_cfg_def)

theorem schedule_reachable_witness:
  "circuit (fr_state (afterFailure (initialScheduleState 0 sample_cfg) sample_cfg 5 0 sample_failure)) = Closed
    \<and> consecutiveFailures (fr_state (afterFailure (initialScheduleState 0 sample_cfg) sample_cfg 5 0 sample_failure)) < 2"
proof -
  let ?s = "fr_state (afterFailure (initialScheduleState 0 sample_cfg) sample_cfg 5 0 sample_failure)"
  have "(wf_sched_step sample_cfg)\<^sup>*\<^sup>* (initialScheduleState 0 sample_cfg) ?s"
    using sample_cfg_wf by (intro r_into_rtranclp) (simp add: wf_sched_step_def sched_step.failure)
  from schedule_reachable [OF sample_cfg_wf this] show ?thesis
    by (simp add: sample_cfg_def afterFailure_def initialScheduleState_def sample_failure_def)
qed

text \<open>C19: From a fresh schedule, a run of failures none of which is a throttle opens the circuit exactly
  when it is as long as the configured number of failures, and it stays open after that.\<close>

theorem circuit_opens_exactly:
  assumes "wf_cfg cfg" "list_all (\<lambda>(now, u, out). \<not> fo_isThrottle out) outs"
  shows "circuit (fail_run cfg (initialScheduleState t0 cfg) outs) =
    (if ci_failures (cfg_circuit cfg) \<le> length outs then Open else Closed)"
proof -
  let ?s = "fail_run cfg (initialScheduleState t0 cfg) outs"
  have "circuit_inv cfg ?s"
    using initial_sched_inv [OF assms(1)] by (auto simp: sched_inv_def intro: fail_run_circuit)
  moreover have "consecutiveFailures ?s = length outs"
    using fail_run_count [OF assms(2)] by (simp add: initialScheduleState_def)
  moreover have "circuit ?s \<noteq> HalfOpen"
    by (rule fail_run_not_halfopen) (simp add: initialScheduleState_def)
  ultimately show ?thesis
    by (cases "circuit ?s") (auto simp: circuit_inv_def)
qed

theorem circuit_opens_exactly_witness:
  "circuit (fail_run sample_cfg (initialScheduleState 0 sample_cfg) [(1, 0, sample_failure), (9, 0, sample_failure)]) = Open"
  using circuit_opens_exactly [OF sample_cfg_wf, of "[(1, 0, sample_failure), (9, 0, sample_failure)]" 0]
  by (simp add: sample_failure_def sample_cfg_def)

text \<open>A throttled poll (429 or 503 with \<^verbatim>\<open>Retry-After\<close>) is not due again before the time the server
  asked for and is due from then on, and it neither counts as a failure nor moves the circuit.\<close>

theorem throttle_honours_retry_after:
  assumes "fo_isThrottle out" "fo_retryAfterMs out = Some r" "0 \<le> r"
  shows "let s' = fr_state (afterFailure s cfg now u out)
         in (isDue s' t \<longleftrightarrow> now + r \<le> t) \<and> timeUntilDue s' now = r
            \<and> consecutiveFailures s' = consecutiveFailures s \<and> circuit s' = circuit s"
  using assms by (auto simp: afterFailure_def Let_def isDue_def timeUntilDue_def)

theorem throttle_honours_retry_after_witness:
  "isDue (fr_state (afterFailure (initialScheduleState 0 sample_cfg) sample_cfg 10 0
     \<lparr>fo_error = serializeError (typeError ''429'') 0, fo_retryAfterMs = Some 500, fo_isThrottle = True,
      fo_rateLimit = None\<rparr>)) 510"
  using throttle_honours_retry_after [of "\<lparr>fo_error = serializeError (typeError ''429'') 0,
      fo_retryAfterMs = Some 500, fo_isThrottle = True, fo_rateLimit = None\<rparr>" 500
      "initialScheduleState 0 sample_cfg" sample_cfg 10 0 510]
  by (simp add: Let_def)

text \<open>C20: An adaptive schedule that keeps finding nothing slows down to its slowest pace: after at least
  \<^verbatim>\<open>maxMs\<close> plus one idle cycles the interval is exactly \<^verbatim>\<open>maxMs\<close>, whatever it was before.\<close>

theorem idle_cycles_reach_max:
  assumes "wf_cfg cfg" "sc_adaptive (cfg_schedule cfg)" "interval_ok cfg s" "intervalMs s \<noteq> None"
    "sc_maxMs (cfg_schedule cfg) + 1 \<le> of_nat (length ts)"
  shows "intervalMs (idle_run cfg s ts) = Some (sc_maxMs (cfg_schedule cfg))"
proof -
  have "ts \<noteq> []" using assms(1,5) by (auto simp: wf_cfg_def)
  from idle_run_interval [OF assms(1-4) this] obtain x where
    x: "intervalMs (idle_run cfg s ts) = Some x"
       "x = sc_maxMs (cfg_schedule cfg) \<or> (\<exists>k. x = of_int k \<and> int (length ts) \<le> k \<and> x \<le> sc_maxMs (cfg_schedule cfg))"
    by auto
  have "\<not> (\<exists>k. x = of_int k \<and> int (length ts) \<le> k \<and> x \<le> sc_maxMs (cfg_schedule cfg))"
  proof
    assume "\<exists>k. x = of_int k \<and> int (length ts) \<le> k \<and> x \<le> sc_maxMs (cfg_schedule cfg)"
    then obtain k where k: "x = of_int k" "int (length ts) \<le> k" "x \<le> sc_maxMs (cfg_schedule cfg)" by auto
    then have "(of_int (int (length ts)) :: rat) \<le> x" by (simp only: of_int_le_iff)
    then show False using k(3) assms(5) by simp
  qed
  with x show ?thesis by auto
qed

definition tiny_cfg :: scheduler_cfg where
  "tiny_cfg = sample_cfg\<lparr>cfg_schedule := (cfg_schedule sample_cfg)\<lparr>sc_minMs := 1, sc_maxMs := 3\<rparr>\<rparr>"

theorem idle_cycles_reach_max_witness:
  "intervalMs (idle_run tiny_cfg (initialScheduleState 0 tiny_cfg) [(1, 0), (2, 0), (4, 0), (7, 0)]) = Some 3"
  using idle_cycles_reach_max [of tiny_cfg "initialScheduleState 0 tiny_cfg" "[(1, 0), (2, 0), (4, 0), (7, 0)]"]
  by (simp add: tiny_cfg_def sample_cfg_def wf_cfg_def interval_ok_def initialScheduleState_def)

text \<open>C21: Rate-limit pacing: after a successful poll whose response announced the remaining requests and the
  reset time of its window, the remaining requests spaced by the planned wait last at least until the
  window resets, however short the configured interval is.\<close>

theorem pacing_lasts_until_reset:
  assumes "so_rateLimit out = Some info" "rl_remaining info = Some remaining"
    "rl_resetAt info = Some resetAt" "now < resetAt"
  shows "\<exists>due. nextDueAt (sr_state (afterSuccess s cfg now u out)) = Some due
    \<and> resetAt - now \<le> (due - now) * max remaining 1"
proof -
  have "\<exists>w. nextDueAt (sr_state (afterSuccess s cfg now u out)) = Some (now + applyPacing w (Some info) now)"
    using assms(1) by (auto simp: afterSuccess_def Let_def split: prod.split)
  then show ?thesis using applyPacing_spacing [OF assms(2-4)] by auto
qed

definition sample_limit :: rate_limit_info where
  "sample_limit = \<lparr>rl_limit = Some 100, rl_remaining = Some 2, rl_resetAt = Some 61000, rl_policy = None,
     rl_source = Ietf\<rparr>"

theorem pacing_lasts_until_reset_witness:
  "\<exists>due. nextDueAt (sr_state (afterSuccess (initialScheduleState 0 sample_cfg) sample_cfg 1000 0
      \<lparr>so_hadEvents = True, so_notModified = False, so_truncated = False, so_rateLimit = Some sample_limit,
       so_summary = None\<rparr>)) = Some due \<and> 60000 \<le> (due - 1000) * max 2 1"
  using pacing_lasts_until_reset [of "\<lparr>so_hadEvents = True, so_notModified = False, so_truncated = False,
      so_rateLimit = Some sample_limit, so_summary = None\<rparr>" sample_limit 2 61000 1000
      "initialScheduleState 0 sample_cfg" sample_cfg 0]
  by (simp add: sample_limit_def)

text \<open>What the two readings of a schedule mean to the engine agree: a schedule with a planned time is
  due exactly when the time until it is due is zero; with no planned time \<^verbatim>\<open>timeUntilDue\<close> is zero.\<close>

theorem isDue_iff_timeUntilDue:
  "(nextDueAt s \<noteq> None \<and> isDue s now) \<longleftrightarrow> (nextDueAt s \<noteq> None \<and> timeUntilDue s now = 0)"
  by (auto simp: isDue_def timeUntilDue_def Let_def split: option.splits)

end
