(* ===== verification/Poller_Config.thy ===== *)
theory Poller_Config
  imports Types Cursor Scheduler
begin

text \<open>
  \<^verbatim>\<open>src/core/define-poller.ts\<close>: from the configuration that a caller writes to the resolved poller, with
  every check and every default. A configuration comes from an untyped caller: a callback that is not a
  function is absent, and a number is a rational or \<^verbatim>\<open>NaN\<close> (\<^const>\<open>None\<close>), which fails every comparison;
  infinite numbers are outside the model. The \<^verbatim>\<open>fetch\<close>, \<^verbatim>\<open>reconcile.fetch\<close> and \<^verbatim>\<open>partitions\<close> functions talk to
  the outside world, so a poller only records whether they are there.
\<close>

section \<open>Configurations\<close>

type_synonym jsfloat = "number option"

definition flt_ge :: "jsfloat \<Rightarrow> number \<Rightarrow> bool" where
  "flt_ge x y \<longleftrightarrow> (case x of None \<Rightarrow> False | Some v \<Rightarrow> y \<le> v)"

definition flt_gt :: "jsfloat \<Rightarrow> number \<Rightarrow> bool" where
  "flt_gt x y \<longleftrightarrow> (case x of None \<Rightarrow> False | Some v \<Rightarrow> y < v)"

definition flt_lt :: "jsfloat \<Rightarrow> number \<Rightarrow> bool" where
  "flt_lt x y \<longleftrightarrow> (case x of None \<Rightarrow> False | Some v \<Rightarrow> v < y)"

definition flt_int_ge1 :: "jsfloat \<Rightarrow> bool" where
  \<comment> \<open>\<^verbatim>\<open>Number.isInteger(x) && x >= 1\<close>\<close>
  "flt_int_ge1 x \<longleftrightarrow> (case x of None \<Rightarrow> False | Some v \<Rightarrow> v = of_int \<lfloor>v\<rfloor> \<and> 1 \<le> v)"

definition flt_nat :: "jsfloat \<Rightarrow> nat" where
  "flt_nat x = (case x of None \<Rightarrow> 0 | Some v \<Rightarrow> nat \<lfloor>v\<rfloor>)"

definition flt_val :: "jsfloat \<Rightarrow> number" where
  "flt_val x = opt_or x 0"

record backoff_config =
  bc_base :: "duration option"
  bc_factor :: "jsfloat option"
  bc_max :: "duration option"

record schedule_config =
  scc_min :: duration
  scc_max :: duration
  scc_adaptive :: "bool option"
  scc_jitter :: "jsfloat option"
  scc_backoff :: "backoff_config option"

record delivery_config =
  dc_orderingKey :: "(event \<Rightarrow> thrown + string) option"
  dc_concurrency :: "jsfloat option"
  dc_attempts :: "jsfloat option"
  dc_backoff :: "backoff_config option"
  dc_poisonAction :: "poison_action option"
  dc_holdKey :: "bool option"
  dc_ackMode :: "ack_mode option"

definition empty_delivery :: delivery_config where
  "empty_delivery = \<lparr>dc_orderingKey = None, dc_concurrency = None, dc_attempts = None, dc_backoff = None,
     dc_poisonAction = None, dc_holdKey = None, dc_ackMode = None\<rparr>"

record reconcile_config =
  rc_every :: duration
  rc_hasFetch :: bool

text \<open>A value for \<^verbatim>\<open>schema\<close>: it implements Standard Schema v1 or it does not.\<close>

datatype schema_value = StandardSchema schema | NotASchema

type_synonym callback = "jsval \<Rightarrow> thrown + jsval"

record poller_config =
  cf_name :: jsval
  cf_source :: "string option"
  cf_identity :: "callback option"
  cf_version :: "callback option"
  cf_fingerprint :: "callback option"
  cf_schema :: "schema_value option"
  cf_schemaVersion :: "jsfloat option"
  cf_cursor :: cursor_cfg
  cf_hasFetch :: bool
  cf_hasCustomAdvance :: bool \<comment> \<open>the custom cursor's \<^verbatim>\<open>advance\<close> is a function\<close>
  cf_schedule :: "schedule_config option"
  cf_budget :: "string option"
  cf_budgetWeight :: "jsfloat option"
  cf_budgetCost :: "jsfloat option"
  cf_hasPartitions :: bool
  cf_partitionsRefresh :: "duration option"
  cf_delivery :: "delivery_config option"
  cf_retain :: "retain option"
  cf_reconcile :: "reconcile_config option"
  cf_onInvalid :: "on_invalid option"
  cf_onSchemaChange :: "on_schema_change option"
  cf_maxPages :: "jsfloat option"
  cf_circuitFailures :: "jsfloat option"
  cf_circuitProbe :: "duration option"
  cf_logRetention :: "duration option"

record resolved_poller =
  rp_name :: string
  rp_source :: string
  rp_schema :: "schema option"
  rp_identity :: callback
  rp_version :: "callback option"
  rp_fingerprint :: "callback option"
  rp_schemaVersion :: nat
  rp_cursor :: cursor_cfg
  rp_schedule :: schedule_cfg
  rp_budget :: "string option"
  rp_budgetWeight :: number
  rp_budgetCost :: number
  rp_hasPartitions :: bool
  rp_partitionsRefreshMs :: number
  rp_delivery :: delivery_cfg
  rp_retain :: retain
  rp_reconcileEveryMs :: "number option"
  rp_onInvalid :: on_invalid
  rp_onSchemaChange :: on_schema_change
  rp_maxPages :: nat
  rp_circuit :: circuit_cfg
  rp_logRetentionMs :: "number option"

section \<open>\<^verbatim>\<open>definePoller\<close>\<close>

definition q :: "string \<Rightarrow> string" where
  "q s = [CHR 0x27] @ s @ [CHR 0x27]"

definition name_char :: "char \<Rightarrow> bool" where
  "name_char c \<longleftrightarrow> is_digit c \<or> (CHR ''a'' \<le> c \<and> c \<le> CHR ''z'') \<or> (CHR ''A'' \<le> c \<and> c \<le> CHR ''Z'')
     \<or> c = CHR ''.'' \<or> c = CHR ''_'' \<or> c = CHR ''-''"

definition name_re :: "string \<Rightarrow> bool" where
  "name_re s \<longleftrightarrow> (case s of [] \<Rightarrow> False
     | c # cs \<Rightarrow> name_char c \<and> c \<noteq> CHR ''.'' \<and> c \<noteq> CHR ''_'' \<and> c \<noteq> CHR ''-'' \<and> length cs \<le> 127 \<and> list_all name_char cs)"

definition require :: "bool \<Rightarrow> string \<Rightarrow> (thrown + 'a) \<Rightarrow> thrown + 'a" where
  \<comment> \<open>\<^verbatim>\<open>if (!b) throw new ConfigError(msg)\<close>, then the rest\<close>
  "require b msg k = (if b then k else Inl (configError msg))"

definition bindR :: "(thrown + 'a) \<Rightarrow> ('a \<Rightarrow> thrown + 'b) \<Rightarrow> thrown + 'b" where
  "bindR m f = (case m of Inl e \<Rightarrow> Inl e | Inr x \<Rightarrow> f x)"

lemma bindR_Inr: "bindR m f = Inr y \<longleftrightarrow> (\<exists>x. m = Inr x \<and> f x = Inr y)"
  by (cases m) (auto simp: bindR_def)

lemma require_Inr: "require b msg k = Inr y \<longleftrightarrow> b \<and> k = Inr y"
  by (auto simp: require_def)

definition backoff ::
  "backoff_config option \<Rightarrow> duration \<Rightarrow> number \<Rightarrow> duration \<Rightarrow> string \<Rightarrow> thrown + backoff_cfg" where
  "backoff cfg dbase dfactor dmax label =
     bindR (parseDuration (opt_or (Option.bind cfg bc_base) dbase) (label @ ''.backoff.base'')) (\<lambda>baseMs.
     bindR (parseDuration (opt_or (Option.bind cfg bc_max) dmax) (label @ ''.backoff.max'')) (\<lambda>maxMs.
     let factor = opt_or (Option.bind cfg bc_factor) (Some dfactor) in
     require (flt_ge factor 1) (label @ ''.backoff.factor must be >= 1'')
     (require (\<not> maxMs < baseMs) (label @ ''.backoff.max must be >= base'')
     (Inr \<lparr>bo_baseMs = baseMs, bo_factor = flt_val factor, bo_maxMs = maxMs\<rparr>))))"

fun str_or_null_val :: "jsval \<Rightarrow> bool" where
  "str_or_null_val VNull = True"
| "str_or_null_val (VStr _) = True"
| "str_or_null_val _ = False"

definition validateCursor :: "cursor_cfg \<Rightarrow> bool \<Rightarrow> string \<Rightarrow> thrown + unit" where
  "validateCursor cursor hasAdvance name =
     (case cursor of
        MissingCfg \<Rightarrow> Inl (configError (''poller '' @ q name @ '': cursor is required''))
      | TimestampCfg c \<Rightarrow>
          require (tc_field c \<noteq> []) (''poller '' @ q name @ '': cursor.field is required for timestamp strategy'')
          (require (str_or_null_val (tc_initial c)) (''poller '' @ q name @ '': cursor.initial must be a string or null'')
          (bindR (case tc_lag c of None \<Rightarrow> Inr 0 | Some d \<Rightarrow> parseDuration d (''poller '' @ q name @ '' cursor.lag'')) (\<lambda>_.
           bindR (case tc_overlap c of None \<Rightarrow> Inr 0 | Some d \<Rightarrow> parseDuration d (''poller '' @ q name @ '' cursor.overlap'')) (\<lambda>_.
           Inr ()))))
      | TokenCfg c \<Rightarrow>
          require (str_or_null_val (kc_initial c)) (''poller '' @ q name @ '': cursor.initial must be a string or null'')
          (Inr ())
      | PageCfg c \<Rightarrow>
          require (case pc_initial c of None \<Rightarrow> True | Some x \<Rightarrow> isPageNumber x)
            (''poller '' @ q name @ '': cursor.initial must be a non-negative integer'')
          (Inr ())
      | SnapshotCfg \<Rightarrow> Inr ()
      | CustomCfg c \<Rightarrow>
          require hasAdvance (''poller '' @ q name @ '': custom cursor requires advance()'') (Inr ())
      | UnknownCfg v \<Rightarrow>
          Inl (configError (''poller '' @ q name @ '': unknown cursor strategy '' @ stringify_or_undefined v)))"

fun is_snapshot :: "cursor_cfg \<Rightarrow> bool" where
  "is_snapshot SnapshotCfg = True"
| "is_snapshot _ = False"

text \<open>The checks of \<^verbatim>\<open>resolvePoller\<close> up to the \<^verbatim>\<open>return\<close>, in order; the results are the values that the object
  literal uses.\<close>

record checked =
  ck_name :: string
  ck_schema :: "schema option"
  ck_identity :: callback
  ck_minMs :: number
  ck_maxMs :: number
  ck_jitter :: number
  ck_delivery :: delivery_config
  ck_concurrency :: nat
  ck_attempts :: nat
  ck_schemaVersion :: nat
  ck_maxPages :: nat
  ck_failures :: nat
  ck_weight :: number
  ck_cost :: number

definition default_schedule :: schedule_config where
  "default_schedule = \<lparr>scc_min = DurStr ''30s'', scc_max = DurStr ''5m'', scc_adaptive = None, scc_jitter = None,
     scc_backoff = None\<rparr>"

definition check_poller :: "poller_config \<Rightarrow> thrown + checked" where
  "check_poller config =
     (case cf_name config of
        VStr name \<Rightarrow>
          require (name_re name) (''poller name must match /^[a-zA-Z0-9][a-zA-Z0-9._-]{0,127}$/ (letters, digits, ''
            @ q ''.'' @ '', '' @ q ''_'' @ '', '' @ q ''-'' @ ''; max 128 chars), got '' @ quote name)
          (case cf_identity config of
             None \<Rightarrow> Inl (configError (''poller '' @ q name @ '': identity() is required''))
           | Some ident \<Rightarrow>
          require (cf_hasFetch config) (''poller '' @ q name @ '': fetch() is required'')
          (bindR (validateCursor (cf_cursor config) (cf_hasCustomAdvance config) name) (\<lambda>_.
           bindR (case cf_schema config of
                    None \<Rightarrow> Inr None
                  | Some (StandardSchema s) \<Rightarrow> Inr (Some s)
                  | Some NotASchema \<Rightarrow> Inl (configError (''poller '' @ q name
                      @ '': schema must implement Standard Schema v1 ('' @ q ''~standard'' @ ''.validate)''))) (\<lambda>schema.
           let schedule = opt_or (cf_schedule config) default_schedule in
           bindR (parseDuration (scc_min schedule) (''poller '' @ q name @ '' schedule.min'')) (\<lambda>minMs.
           bindR (parseDuration (scc_max schedule) (''poller '' @ q name @ '' schedule.max'')) (\<lambda>maxMs.
           require (\<not> minMs \<le> 0) (''poller '' @ q name @ '': schedule.min must be > 0'')
          (require (\<not> maxMs < minMs) (''poller '' @ q name @ '': schedule.max must be >= schedule.min'')
          (let jitter = opt_or (scc_jitter schedule) (Some (1 / 10)) in
           require (flt_ge jitter 0 \<and> flt_lt jitter 1) (''poller '' @ q name @ '': schedule.jitter must be in [0, 1)'')
          (let delivery = opt_or (cf_delivery config) empty_delivery;
               concurrency = opt_or (dc_concurrency delivery) (Some 1);
               attempts = opt_or (dc_attempts delivery) (Some 5);
               schemaVersion = opt_or (cf_schemaVersion config) (Some 1);
               maxPages = opt_or (cf_maxPages config) (Some 50);
               failures = opt_or (cf_circuitFailures config) (Some 5);
               weight = opt_or (cf_budgetWeight config) (Some 1);
               cost = opt_or (cf_budgetCost config) (Some 1) in
           require (flt_int_ge1 concurrency) (''poller '' @ q name @ '': delivery.concurrency must be an integer >= 1'')
          (require (flt_int_ge1 attempts) (''poller '' @ q name @ '': delivery.retry.attempts must be an integer >= 1'')
          (require (flt_int_ge1 schemaVersion) (''poller '' @ q name @ '': schemaVersion must be an integer >= 1'')
          (require (flt_int_ge1 maxPages) (''poller '' @ q name @ '': maxPagesPerCycle must be an integer >= 1'')
          (require (flt_int_ge1 failures) (''poller '' @ q name @ '': circuit.failures must be an integer >= 1'')
          (require (flt_gt weight 0) (''poller '' @ q name @ '': budgetWeight must be > 0'')
          (require (flt_ge cost 0) (''poller '' @ q name @ '': budgetCost must be >= 0'')
          (require (\<not> (cf_reconcile config \<noteq> None \<and> is_snapshot (cf_cursor config)))
             (''poller '' @ q name @ '': reconcile is redundant with snapshotDiff (it already detects deletes)'')
          (require (case cf_reconcile config of None \<Rightarrow> True | Some r \<Rightarrow> rc_hasFetch r)
             (''poller '' @ q name @ '': reconcile.fetch() is required'')
          (Inr \<lparr>ck_name = name, ck_schema = schema, ck_identity = ident, ck_minMs = minMs, ck_maxMs = maxMs,
                ck_jitter = flt_val jitter, ck_delivery = delivery, ck_concurrency = flt_nat concurrency,
                ck_attempts = flt_nat attempts, ck_schemaVersion = flt_nat schemaVersion,
                ck_maxPages = flt_nat maxPages, ck_failures = flt_nat failures, ck_weight = flt_val weight,
                ck_cost = flt_val cost\<rparr>))))))))))))))))))
      | v \<Rightarrow> Inl (configError (''poller name must match /^[a-zA-Z0-9][a-zA-Z0-9._-]{0,127}$/ (letters, digits, ''
            @ q ''.'' @ '', '' @ q ''_'' @ '', '' @ q ''-'' @ ''; max 128 chars), got '' @ stringify_or_undefined v)))"

definition resolvePoller :: "poller_config \<Rightarrow> thrown + resolved_poller" where
  "resolvePoller config =
     bindR (check_poller config) (\<lambda>ck.
     let name = ck_name ck; delivery = ck_delivery ck; schedule = opt_or (cf_schedule config) default_schedule in
     bindR (backoff (scc_backoff schedule) (DurStr ''1s'') 2 (DurStr ''10m'') (''poller '' @ q name @ '' schedule'')) (\<lambda>sb.
     bindR (parseDuration (opt_or (cf_partitionsRefresh config) (DurStr ''5m'')) (''poller '' @ q name @ '' partitionsRefresh'')) (\<lambda>refresh.
     bindR (backoff (dc_backoff delivery) (DurStr ''1s'') 2 (DurStr ''2m'') (''poller '' @ q name @ '' delivery.retry'')) (\<lambda>db.
     bindR (case cf_reconcile config of
              None \<Rightarrow> Inr None
            | Some r \<Rightarrow> map_sum id Some (parseDuration (rc_every r) (''poller '' @ q name @ '' reconcile.every''))) (\<lambda>every.
     bindR (case cf_circuitProbe config of
              None \<Rightarrow> Inr (ck_maxMs ck)
            | Some d \<Rightarrow> parseDuration d (''poller '' @ q name @ '' circuit.probeEvery'')) (\<lambda>probe.
     bindR (case cf_logRetention config of
              None \<Rightarrow> Inr None
            | Some d \<Rightarrow> map_sum id Some (parseDuration d (''poller '' @ q name @ '' log.retention''))) (\<lambda>log.
     Inr \<lparr>rp_name = name, rp_source = opt_or (cf_source config) (''urn:watukuy:'' @ name), rp_schema = ck_schema ck,
          rp_identity = ck_identity ck, rp_version = cf_version config, rp_fingerprint = cf_fingerprint config,
          rp_schemaVersion = ck_schemaVersion ck, rp_cursor = cf_cursor config,
          rp_schedule = \<lparr>sc_minMs = ck_minMs ck, sc_maxMs = ck_maxMs ck, sc_adaptive = opt_or (scc_adaptive schedule) True,
             sc_jitter = ck_jitter ck, sc_backoff = sb\<rparr>,
          rp_budget = cf_budget config, rp_budgetWeight = ck_weight ck, rp_budgetCost = ck_cost ck,
          rp_hasPartitions = cf_hasPartitions config, rp_partitionsRefreshMs = refresh,
          rp_delivery = \<lparr>dl_orderingKey = dc_orderingKey delivery, dl_concurrency = ck_concurrency ck,
             dl_attempts = ck_attempts ck, dl_backoff = db,
             dl_poisonAction = opt_or (dc_poisonAction delivery) Park, dl_holdKey = opt_or (dc_holdKey delivery) True,
             dl_ackMode = opt_or (dc_ackMode delivery) AckAuto\<rparr>,
          rp_retain = opt_or (cf_retain config) RetainHash, rp_reconcileEveryMs = every,
          rp_onInvalid = opt_or (cf_onInvalid config) Quarantine,
          rp_onSchemaChange = opt_or (cf_onSchemaChange config) Rebaseline, rp_maxPages = ck_maxPages ck,
          rp_circuit = \<lparr>ci_failures = ck_failures ck, ci_probeEveryMs = probe\<rparr>, rp_logRetentionMs = log\<rparr>)))))))"

record poller_definition =
  pd_name :: string
  pd_resolved :: resolved_poller

definition definePoller :: "poller_config \<Rightarrow> thrown + poller_definition" where
  "definePoller config =
     bindR (resolvePoller config) (\<lambda>resolved. Inr \<lparr>pd_name = rp_name resolved, pd_resolved = resolved\<rparr>)"

definition scheduler_of :: "resolved_poller \<Rightarrow> scheduler_cfg" where
  "scheduler_of p = \<lparr>cfg_schedule = rp_schedule p, cfg_circuit = rp_circuit p\<rparr>"

section \<open>Lemmas\<close>

lemma parseDuration_nonneg: "parseDuration d l = Inr x \<Longrightarrow> 0 \<le> x"
  by (auto simp: parseDuration_def decimal_val_def intro!: js_round_nonneg mult_nonneg_nonneg add_nonneg_nonneg
      split: duration.splits if_splits option.splits prod.splits)

lemma flt_nat_ge1: "flt_int_ge1 x \<Longrightarrow> 0 < flt_nat x"
proof (cases x)
  case (Some v)
  assume "flt_int_ge1 x"
  with Some have "1 \<le> v" by (simp add: flt_int_ge1_def)
  then have "1 \<le> \<lfloor>v\<rfloor>" by linarith
  then show ?thesis using Some by (simp add: flt_nat_def)
qed (simp add: flt_int_ge1_def)

lemma backoff_ok:
  "backoff cfg b f m l = Inr r \<Longrightarrow> 0 \<le> bo_baseMs r \<and> bo_baseMs r \<le> bo_maxMs r \<and> 1 \<le> bo_factor r"
  by (auto simp: backoff_def bindR_Inr require_Inr Let_def flt_ge_def flt_val_def
      dest: parseDuration_nonneg split: option.splits)

lemma validateCursor_strategy:
  "validateCursor c h n = Inr u \<Longrightarrow> \<exists>s. getStrategy dp c = Inr s"
  by (auto simp: validateCursor_def getStrategy_def split: cursor_cfg.splits)

lemma check_poller_ok:
  assumes "check_poller config = Inr ck"
  shows "name_re (ck_name ck)" "0 < ck_minMs ck" "ck_minMs ck \<le> ck_maxMs ck"
    "0 \<le> ck_jitter ck" "ck_jitter ck < 1" "0 < ck_concurrency ck" "0 < ck_attempts ck"
    "0 < ck_schemaVersion ck" "0 < ck_maxPages ck" "0 < ck_failures ck" "0 < ck_weight ck" "0 \<le> ck_cost ck"
    "\<exists>s. getStrategy dp (cf_cursor config) = Inr s"
    "cf_reconcile config \<noteq> None \<Longrightarrow> \<not> is_snapshot (cf_cursor config)"
proof -
  obtain name where n: "cf_name config = VStr name"
    using assms by (auto simp: check_poller_def split: jsval.splits)
  obtain ident where i: "cf_identity config = Some ident"
    using assms n by (cases "cf_identity config") (auto simp: check_poller_def require_def split: if_splits)
  note all = assms [unfolded check_poller_def n i Let_def jsval.case option.case bindR_Inr require_Inr]
  show "name_re (ck_name ck)" "0 < ck_minMs ck" "ck_minMs ck \<le> ck_maxMs ck"
    "0 \<le> ck_jitter ck" "ck_jitter ck < 1" "0 < ck_concurrency ck" "0 < ck_attempts ck"
    "0 < ck_schemaVersion ck" "0 < ck_maxPages ck" "0 < ck_failures ck" "0 < ck_weight ck" "0 \<le> ck_cost ck"
    "\<exists>s. getStrategy dp (cf_cursor config) = Inr s"
    "cf_reconcile config \<noteq> None \<Longrightarrow> \<not> is_snapshot (cf_cursor config)"
    using all by (auto simp: flt_ge_def flt_lt_def flt_gt_def flt_val_def intro: flt_nat_ge1 validateCursor_strategy
        split: option.splits)
qed

section \<open>Properties\<close>

text \<open>C31: Whatever \<^verbatim>\<open>definePoller\<close> accepts is a usable poller: its name matches the pattern, \<^verbatim>\<open>0 < min <= max\<close>,
  the jitter is in \<^verbatim>\<open>[0, 1)\<close>, both backoffs have a factor of at least one and \<^verbatim>\<open>0 <= base <= max\<close>, every
  count is at least one, the budget weight is positive and the cost not negative, every duration is not
  negative, the cursor strategy exists, and \<^verbatim>\<open>reconcile\<close> is not combined with \<^verbatim>\<open>snapshotDiff\<close>.\<close>

theorem definePoller_valid:
  assumes "definePoller config = Inr d"
  defines "p \<equiv> pd_resolved d"
  shows "pd_name d = rp_name p \<and> name_re (rp_name p)
    \<and> 0 < sc_minMs (rp_schedule p) \<and> sc_minMs (rp_schedule p) \<le> sc_maxMs (rp_schedule p)
    \<and> 0 \<le> sc_jitter (rp_schedule p) \<and> sc_jitter (rp_schedule p) < 1
    \<and> (\<forall>b \<in> {sc_backoff (rp_schedule p), dl_backoff (rp_delivery p)}.
         0 \<le> bo_baseMs b \<and> bo_baseMs b \<le> bo_maxMs b \<and> 1 \<le> bo_factor b)
    \<and> 1 \<le> dl_concurrency (rp_delivery p) \<and> 1 \<le> dl_attempts (rp_delivery p) \<and> 1 \<le> rp_schemaVersion p
    \<and> 1 \<le> rp_maxPages p \<and> 1 \<le> ci_failures (rp_circuit p) \<and> 0 \<le> ci_probeEveryMs (rp_circuit p)
    \<and> 0 < rp_budgetWeight p \<and> 0 \<le> rp_budgetCost p \<and> 0 \<le> rp_partitionsRefreshMs p
    \<and> (\<exists>s. getStrategy dp (rp_cursor p) = Inr s)
    \<and> (rp_reconcileEveryMs p \<noteq> None \<longrightarrow> \<not> is_snapshot (rp_cursor p))"
proof -
  obtain ck where ck: "check_poller config = Inr ck"
    using assms(1) by (auto simp: definePoller_def resolvePoller_def bindR_Inr)
  note ok = check_poller_ok [OF ck]
  have max: "0 \<le> ck_maxMs ck" using ok(2,3) by linarith
  show ?thesis
    using assms(1) ck ok max
    by (auto simp: p_def definePoller_def resolvePoller_def bindR_Inr Let_def Suc_le_eq
        dest!: backoff_ok dest: parseDuration_nonneg split: option.splits)
qed

definition sample_config :: poller_config where
  "sample_config = \<lparr>cf_name = VStr ''orders'', cf_source = None, cf_identity = Some (\<lambda>v. Inr (getPath v ''id'')),
     cf_version = None, cf_fingerprint = None, cf_schema = None, cf_schemaVersion = None, cf_cursor = SnapshotCfg,
     cf_hasFetch = True, cf_hasCustomAdvance = False, cf_schedule = None, cf_budget = None, cf_budgetWeight = None,
     cf_budgetCost = None, cf_hasPartitions = False, cf_partitionsRefresh = None, cf_delivery = None,
     cf_retain = None, cf_reconcile = None, cf_onInvalid = None, cf_onSchemaChange = None, cf_maxPages = None,
     cf_circuitFailures = None, cf_circuitProbe = None, cf_logRetention = None\<rparr>"

lemma default_durations:
  "parseDuration (DurStr ''30s'') l = Inr 30000" "parseDuration (DurStr ''5m'') l = Inr 300000"
  "parseDuration (DurStr ''1s'') l = Inr 1000" "parseDuration (DurStr ''10m'') l = Inr 600000"
  "parseDuration (DurStr ''2m'') l = Inr 120000"
proof -
  have "nat_str 30 = ''30''" "nat_str 5 = ''5''" "nat_str 1 = ''1''" "nat_str 10 = ''10''" "nat_str 2 = ''2''"
    by code_simp+
  then show "parseDuration (DurStr ''30s'') l = Inr 30000" "parseDuration (DurStr ''5m'') l = Inr 300000"
    "parseDuration (DurStr ''1s'') l = Inr 1000" "parseDuration (DurStr ''10m'') l = Inr 600000"
    "parseDuration (DurStr ''2m'') l = Inr 120000"
    using parse_nat_unit [of "''s''" 1000 30 l] parse_nat_unit [of "''m''" 60000 5 l]
      parse_nat_unit [of "''s''" 1000 1 l] parse_nat_unit [of "''m''" 60000 10 l] parse_nat_unit [of "''m''" 60000 2 l]
    by (simp_all add: unit_ms_def)
qed

definition sample_poller :: resolved_poller where
  "sample_poller = \<lparr>rp_name = ''orders'', rp_source = ''urn:watukuy:orders'', rp_schema = None,
     rp_identity = (\<lambda>v. Inr (getPath v ''id'')), rp_version = None, rp_fingerprint = None, rp_schemaVersion = 1,
     rp_cursor = SnapshotCfg,
     rp_schedule = \<lparr>sc_minMs = 30000, sc_maxMs = 300000, sc_adaptive = True, sc_jitter = 1 / 10,
        sc_backoff = \<lparr>bo_baseMs = 1000, bo_factor = 2, bo_maxMs = 600000\<rparr>\<rparr>,
     rp_budget = None, rp_budgetWeight = 1, rp_budgetCost = 1, rp_hasPartitions = False, rp_partitionsRefreshMs = 300000,
     rp_delivery = \<lparr>dl_orderingKey = None, dl_concurrency = 1, dl_attempts = 5,
        dl_backoff = \<lparr>bo_baseMs = 1000, bo_factor = 2, bo_maxMs = 120000\<rparr>, dl_poisonAction = Park, dl_holdKey = True,
        dl_ackMode = AckAuto\<rparr>,
     rp_retain = RetainHash, rp_reconcileEveryMs = None, rp_onInvalid = Quarantine, rp_onSchemaChange = Rebaseline,
     rp_maxPages = 50, rp_circuit = \<lparr>ci_failures = 5, ci_probeEveryMs = 300000\<rparr>, rp_logRetentionMs = None\<rparr>"

lemma sample_config_defaults: "definePoller sample_config = Inr \<lparr>pd_name = ''orders'', pd_resolved = sample_poller\<rparr>"
proof -
  have "name_re ''orders''" by code_simp
  then show ?thesis
    by (simp add: definePoller_def resolvePoller_def check_poller_def sample_config_def bindR_def require_def Let_def
        validateCursor_def default_schedule_def empty_delivery_def default_durations flt_ge_def flt_lt_def flt_gt_def
        flt_int_ge1_def backoff_def flt_nat_def flt_val_def sample_poller_def)
qed

theorem definePoller_valid_witness:
  "1 \<le> dl_attempts (rp_delivery sample_poller) \<and> 0 < sc_minMs (rp_schedule sample_poller)"
  using definePoller_valid [OF sample_config_defaults] by simp

end
