(* ===== verification/Lease_Keeper.thy ===== *)
theory Lease_Keeper
  imports Memory_Store Poller_Config
begin

text \<open>
  The world in which the dispatcher, the runner and the engine run, and \<^verbatim>\<open>src/core/lease-keeper.ts\<close>. The
  environment answers every question that the code asks of its surroundings, numbered by a counter of
  awaits: the clock, the random source, the abort signal, a failing store call, whether the heartbeat timer
  fires, what other instances and operators have done to the store in the meantime, what the consumer does
  with an event, what the poller's \<^verbatim>\<open>fetch\<close> and \<^verbatim>\<open>partitions\<close> functions do, and which of several running promises goes on next. The
  world is the store, the counter, the heartbeat and a trace of what was done. \<open>e_fuel\<close> bounds the rounds of
  one drain of the outbox, a loop that others can keep busy for ever; \<open>w_exhausted\<close> records that it was hit.
\<close>

text \<open>What a call of a poller's \<^verbatim>\<open>fetch\<close> does, in order: calls of \<^verbatim>\<open>ctx.http\<close> with what they report to the cycle
  (a response with rate-limit headers, a 304, new validators), pages, and possibly an exception.\<close>

record fetch_ctx =
  fc_cursor :: cursor
  fc_page :: nat
  fc_lane :: lane
  fc_attempt :: nat

record fetched_page =
  fp_items :: "jsval list option" \<comment> \<open>\<^const>\<open>None\<close>: not an array\<close>
  fp_cursor :: "string option option"
  fp_hasMore :: "bool option"

datatype fetch_step =
    FRateLimit rate_limit_info | FNotModified | FValidator string validator | FPage fetched_page | FThrow thrown

record env =
  e_now :: "nat \<Rightarrow> number"
  e_random :: "nat \<Rightarrow> number"
  e_abort :: "nat \<Rightarrow> bool"
  e_fail :: "nat \<Rightarrow> thrown option"
  e_others :: "nat \<Rightarrow> store \<Rightarrow> store"
  e_beat :: "nat \<Rightarrow> bool"
  e_deliver :: "nat \<Rightarrow> event \<Rightarrow> thrown option"
  e_fetch :: "nat \<Rightarrow> fetch_ctx \<Rightarrow> fetch_step list"
  e_sched :: "nat \<Rightarrow> nat"
  e_partitions :: "nat \<Rightarrow> string \<Rightarrow> thrown + jsval"
  e_reason :: thrown \<comment> \<open>the reason of the engine's abort signal\<close>
  e_fuel :: nat

record keeper =
  lk_key :: pkey
  lk_lease :: lease
  lk_ttlMs :: number
  lk_stopped :: bool
  lk_lost :: bool

datatype trace =
    TDeliver event \<comment> \<open>an event handed to the consumer\<close>
  | TOutcome event bool \<comment> \<open>whether the consumer accepted it\<close>
  | TDelivered event | TRetry event number | TParked parked_row
  | TPollStart lane | TFetch nat nat bool | TCommit nat nat nat | TEvent event | TInvalid jsval
  | TPollEnd poll_summary | TError serialized_error | TSchedule number number
  | TLeaseAcquired lease | TLeaseLost nat | TCircuitOpen nat number | TCircuitClose

record world =
  w_store :: store
  w_tick :: nat
  w_outer :: bool \<comment> \<open>the engine's signal\<close>
  w_aborted :: bool \<comment> \<open>the signal of the running cycle\<close>
  w_keeper :: "keeper option"
  w_trace :: "trace list"
  w_exhausted :: bool
type_synonym 'a wio = "(world, thrown, 'a) io"

section \<open>Awaits\<close>

definition tick :: "env \<Rightarrow> world \<Rightarrow> world" where
  "tick en w = w\<lparr>w_tick := w_tick w + 1, w_outer := (w_outer w \<or> e_abort en (w_tick w)),
     w_aborted := (w_aborted w \<or> e_abort en (w_tick w))\<rparr>"

definition nowE :: "env \<Rightarrow> number wio" where
  "nowE en = (\<lambda>w. (Inr (e_now en (w_tick w)), tick en w))"

definition randomE :: "env \<Rightarrow> number wio" where
  "randomE en = (\<lambda>w. (Inr (e_random en (w_tick w)), tick en w))"

definition traceE :: "trace \<Rightarrow> unit wio" where
  "traceE t = modifyE (\<lambda>w. w\<lparr>w_trace := w_trace w @ [t]\<rparr>)"

definition abortedE :: "bool wio" where
  "abortedE = getsE w_aborted"

text \<open>A store call: what others did first, then the call itself, unless it fails.\<close>

definition raw_store :: "env \<Rightarrow> 'a store_op \<Rightarrow> 'a wio" where
  "raw_store en op = (\<lambda>w.
     let st = e_others en (w_tick w) (w_store w) in
     case e_fail en (w_tick w) of
       Some e \<Rightarrow> (Inl e, (tick en w)\<lparr>w_store := st\<rparr>)
     | None \<Rightarrow> (case op st of (r, st') \<Rightarrow> (r, (tick en w)\<lparr>w_store := st'\<rparr>)))"

section \<open>The heartbeat\<close>

definition new_keeper :: "pkey \<Rightarrow> lease \<Rightarrow> number \<Rightarrow> keeper" where
  "new_keeper key lease ttlMs = \<lparr>lk_key = key, lk_lease = lease, lk_ttlMs = ttlMs, lk_stopped = False, lk_lost = False\<rparr>"

definition keeper_lost :: "unit wio" where
  \<comment> \<open>\<^verbatim>\<open>this.lost = true; abort.abort(...); this.stop()\<close>\<close>
  "keeper_lost = modifyE (\<lambda>w. w\<lparr>w_aborted := True,
     w_keeper := map_option (\<lambda>k. k\<lparr>lk_lost := True, lk_stopped := True\<rparr>) (w_keeper w)\<rparr>)"

definition keeper_renew :: "env \<Rightarrow> keeper \<Rightarrow> bool wio" where
  "keeper_renew en k =
     bindE (nowE en) (\<lambda>now. raw_store en (renewLease (lk_key k) (lk_lease k) (lk_ttlMs k) now))"

definition beat :: "env \<Rightarrow> unit wio" where
  "beat en =
     bindE (getsE w_keeper) (\<lambda>kp.
     case kp of
       None \<Rightarrow> retE ()
     | Some k \<Rightarrow>
         if lk_stopped k then retE ()
         else catchE
           (bindE (keeper_renew en k) (\<lambda>ok.
            if \<not> ok then keeper_lost
            else bindE (nowE en) (\<lambda>now. modifyE (\<lambda>w. w\<lparr>w_keeper :=
                   map_option (\<lambda>k. k\<lparr>lk_lease := (lk_lease k)\<lparr>l_expiresAt := now + lk_ttlMs k\<rparr>\<rparr>) (w_keeper w)\<rparr>))))
           (\<lambda>err. retE ()))"

definition renewNow :: "env \<Rightarrow> bool wio" where
  "renewNow en =
     bindE (getsE w_keeper) (\<lambda>kp.
     case kp of
       None \<Rightarrow> retE True
     | Some k \<Rightarrow>
         if lk_stopped k then retE (\<not> lk_lost k)
         else bindE (keeper_renew en k) (\<lambda>ok.
              bindE (whenE (\<not> ok) keeper_lost) (\<lambda>_. retE ok)))"

definition keeper_start :: "keeper \<Rightarrow> unit wio" where
  "keeper_start k = modifyE (\<lambda>w. w\<lparr>w_keeper := Some k\<rparr>)"

definition keeper_stop :: "unit wio" where
  "keeper_stop = modifyE (\<lambda>w. w\<lparr>w_keeper := map_option (\<lambda>k. k\<lparr>lk_stopped := True\<rparr>) (w_keeper w)\<rparr>)"

text \<open>A store call of the cycle, before which the heartbeat may fire.\<close>

definition callS :: "env \<Rightarrow> 'a store_op \<Rightarrow> 'a wio" where
  "callS en op =
     bindE (getsE (\<lambda>w. e_beat en (w_tick w))) (\<lambda>fires.
     bindE (whenE fires (beat en)) (\<lambda>_. raw_store en op))"

section \<open>What a holder of a stale lease can do to the store\<close>

text \<open>Nobody else touches the store.\<close>

definition alone :: "env \<Rightarrow> bool" where
  "alone en \<longleftrightarrow> (\<forall>n st. e_others en n st = st)"

definition keeper_of :: "pkey \<Rightarrow> lease \<Rightarrow> keeper \<Rightarrow> bool" where
  "keeper_of key l k \<longleftrightarrow> lk_key k = key \<and> l_owner (lk_lease k) = l_owner l \<and> l_epoch (lk_lease k) = l_epoch l"

definition keeps :: "pkey \<Rightarrow> lease \<Rightarrow> world \<Rightarrow> bool" where
  "keeps key l w \<longleftrightarrow> (\<forall>k. w_keeper w = Some k \<longrightarrow> keeper_of key l k)"

text \<open>While the heartbeat, if there is one, is for \<open>l\<close>: it stays so, and as long as \<open>key\<close> is not leased under
  \<open>l\<close> nothing in the records changes.\<close>

definition inert :: "pkey \<Rightarrow> lease \<Rightarrow> world \<Rightarrow> world \<Rightarrow> bool" where
  "inert key l w w' \<longleftrightarrow> (keeps key l w \<longrightarrow> keeps key l w' \<and>
     (\<not> matches (rec_of (w_store w) key) l \<longrightarrow> rec_of (w_store w') = rec_of (w_store w)))"

interpretation inert: frame_rel "inert key l" for key l
  by unfold_locales (auto simp: inert_def)

text \<open>Operations that read, and writes that are fenced by \<open>l\<close>.\<close>

definition harmless :: "pkey \<Rightarrow> lease \<Rightarrow> 'a store_op \<Rightarrow> bool" where
  "harmless key l op \<longleftrightarrow> (\<forall>st. \<not> matches (rec_of st key) l \<longrightarrow> rec_of (snd (op st)) = rec_of st)"

lemma harmless_gets: "harmless key l (getsE f)"
  by (simp add: harmless_def)

lemma harmless_fenced: "harmless key l (fenced key l f)"
  using stale_fenced by (auto simp: harmless_def)

lemma harmless_ops [simp, intro]:
  "harmless key l (loadState k)" "harmless key l (loadVersions k ids)" "harmless key l (streamIdentities k n)"
  "harmless key l (loadPending k n)" "harmless key l (countPending k)" "harmless key l (heldKeys k)"
  "harmless key l (getValidator k h)" "harmless key l (getLease k)" "harmless key l (countItems k)"
  "harmless key l (saveState key l p)" "harmless key l (commitPoll key l b)" "harmless key l (ackEvents key l ids)"
  "harmless key l (recordAttempt key l i e t)" "harmless key l (parkEvent key l row)" "harmless key l (setValidator key l h v)"
  unfolding loadState_def loadVersions_def streamIdentities_def loadPending_def countPending_def heldKeys_def
    getValidator_def getLease_def countItems_def saveState_def commitPoll_def ackEvents_def recordAttempt_def parkEvent_def
    setValidator_def
  by (rule harmless_gets harmless_fenced)+

lemma harmless_renew [simp, intro]: "l_owner l' = l_owner l \<Longrightarrow> l_epoch l' = l_epoch l \<Longrightarrow> harmless key l (renewLease key l' t n)"
  by (auto simp: harmless_def renew_rec matches_def fun_eq_iff split: option.splits)

lemma harmless_release [simp, intro]: "harmless key l (releaseLease key l)"
  by (auto simp: harmless_def release_rec fun_eq_iff)

lemma tick_simps [simp]: "w_store (tick en w) = w_store w" "w_keeper (tick en w) = w_keeper w"
  by (simp_all add: tick_def)

lemma inert_same: "w_store w' = w_store w \<Longrightarrow> w_keeper w' = w_keeper w \<Longrightarrow> inert key l w w'"
  by (simp add: inert_def keeps_def)

lemma pres_now: "preserves (inert key l) (nowE en)"
  by (auto simp: preserves_def nowE_def intro: inert_same)

lemma pres_random: "preserves (inert key l) (randomE en)"
  by (auto simp: preserves_def randomE_def intro: inert_same)

lemma pres_trace: "preserves (inert key l) (traceE t)"
  by (auto simp: traceE_def intro!: inert.pres_modify inert_same)

lemma pres_aborted: "preserves (inert key l) abortedE"
  by (simp add: abortedE_def inert.pres_gets)

lemma pres_raw: "alone en \<Longrightarrow> harmless key l op \<Longrightarrow> preserves (inert key l) (raw_store en op)"
  unfolding preserves_def raw_store_def inert_def harmless_def alone_def keeps_def Let_def
  by (auto split: option.splits prod.splits)

lemma pres_lost: "preserves (inert key l) keeper_lost"
  by (auto simp: keeper_lost_def inert_def keeps_def keeper_of_def intro!: inert.pres_modify)

lemma pres_stop: "preserves (inert key l) keeper_stop"
  by (auto simp: keeper_stop_def inert_def keeps_def keeper_of_def intro!: inert.pres_modify)

lemma pres_start: "keeper_of key l k \<Longrightarrow> preserves (inert key l) (keeper_start k)"
  by (auto simp: keeper_start_def inert_def keeps_def intro!: inert.pres_modify)

lemma pres_renew: "alone en \<Longrightarrow> keeper_of key l k \<Longrightarrow> preserves (inert key l) (keeper_renew en k)"
  unfolding keeper_renew_def keeper_of_def
  by (intro inert.pres_bind pres_now pres_raw) auto

lemma pres_with_keeper:
  assumes "preserves (inert key l) (f None)" "\<And>k. keeper_of key l k \<Longrightarrow> preserves (inert key l) (f (Some k))"
  shows "preserves (inert key l) (bindE (getsE w_keeper) f)"
proof (rule preservesI)
  fix w r w'
  assume "bindE (getsE w_keeper) f w = (r, w')"
  then have run: "f (w_keeper w) w = (r, w')" by (simp add: bindE_def getsE_def)
  show "inert key l w w'"
  proof (cases "keeps key l w")
    case True
    then have "preserves (inert key l) (f (w_keeper w))"
      using assms by (cases "w_keeper w") (auto simp: keeps_def)
    then show ?thesis using run by (rule preservesD)
  qed (simp add: inert_def)
qed

lemma pres_extend:
  "preserves (inert key l) (modifyE (\<lambda>w. w\<lparr>w_keeper :=
     map_option (\<lambda>k. k\<lparr>lk_lease := (lk_lease k)\<lparr>l_expiresAt := f k\<rparr>\<rparr>) (w_keeper w)\<rparr>))"
  by (auto simp: inert_def keeps_def keeper_of_def intro!: inert.pres_modify)

lemma pres_beat: "alone en \<Longrightarrow> preserves (inert key l) (beat en)"
  unfolding beat_def
proof (rule pres_with_keeper, goal_cases)
  case 1
  show ?case by (simp add: inert.pres_ret)
next
  case (2 k)
  then show ?case
    unfolding option.case by (intro inert.pres_if inert.pres_ret inert.pres_catch inert.pres_bind pres_renew pres_lost pres_now pres_extend)
qed

lemma pres_renewNow: "alone en \<Longrightarrow> preserves (inert key l) (renewNow en)"
  unfolding renewNow_def
proof (rule pres_with_keeper, goal_cases)
  case 1
  show ?case by (simp add: inert.pres_ret)
next
  case (2 k)
  then show ?case
    unfolding option.case by (intro inert.pres_if inert.pres_ret inert.pres_bind inert.pres_when pres_renew pres_lost)
qed

lemma pres_call: "alone en \<Longrightarrow> harmless key l op \<Longrightarrow> preserves (inert key l) (callS en op)"
  unfolding callS_def by (intro inert.pres_rules pres_beat pres_raw)

lemmas inert_rules = inert.pres_rules pres_now pres_random pres_trace pres_aborted pres_call pres_renewNow pres_stop pres_start

end
