(* ===== verification/Dispatcher.thy ===== *)
theory Dispatcher
  imports Lease_Keeper
begin

text \<open>
  \<^verbatim>\<open>src/core/dispatcher.ts\<close>: delivering the outbox. The rows of a slice are grouped by ordering key and a pool of
  workers takes the groups in order; inside a group a worker goes row by row. A worker runs without
  interruption up to handing an event to the consumer, and again from the consumer's answer to the end of
  the row's bookkeeping; between the two any other worker may go on, as the environment's schedule says.
\<close>

section \<open>State\<close>

record dispatcher_deps =
  dd_poller :: resolved_poller
  dd_key :: pkey
  dd_batch :: nat

record drain_result =
  dr_delivered :: nat
  dr_parked :: nat
  dr_failed :: nat
  dr_nextRetryAt :: "number option"
  dr_halted :: bool
  dr_remaining :: nat

definition empty_drain :: drain_result where
  "empty_drain = \<lparr>dr_delivered = 0, dr_parked = 0, dr_failed = 0, dr_nextRetryAt = None, dr_halted = False, dr_remaining = 0\<rparr>"

type_synonym group = "string \<times> outbox_row list"

text \<open>Where a worker is: about to take a group, at the rest of a group, waiting for the consumer with the row in
  flight and the rest of its group, or returned.\<close>

datatype worker = Idle | AtGroup string "outbox_row list" | InFlight string outbox_row "outbox_row list" | Done

record pool =
  pl_queue :: "group list"
  pl_workers :: "worker list"
  pl_result :: drain_result
  pl_blocked :: "string list"
  pl_progress :: nat

definition ordering_key :: "resolved_poller \<Rightarrow> outbox_row \<Rightarrow> thrown + string" where
  "ordering_key p row =
     (case dl_orderingKey (rp_delivery p) of
        Some f \<Rightarrow> f (ob_event row)
      | None \<Rightarrow> Inr (ev_subject (ob_event row)))"

fun group_rows :: "resolved_poller \<Rightarrow> outbox_row list \<Rightarrow> group list \<Rightarrow> thrown + group list" where
  "group_rows p [] groups = Inr groups"
| "group_rows p (row # rows) groups =
     bindR (ordering_key p row) (\<lambda>k.
     group_rows p rows (AList.update k (opt_or (map_of groups k) [] @ [row]) groups))"

definition groupByOrderingKey :: "resolved_poller \<Rightarrow> outbox_row list \<Rightarrow> thrown + group list" where
  "groupByOrderingKey p rows = group_rows p rows []"

section \<open>One row\<close>

definition liftR :: "thrown + 'a \<Rightarrow> 'a wio" where
  "liftR r = (case r of Inl e \<Rightarrow> throwE e | Inr x \<Rightarrow> retE x)"

definition tryE :: "'a wio \<Rightarrow> (thrown + 'a) wio" where
  "tryE m = (\<lambda>w. case m w of (r, w') \<Rightarrow> (Inr r, w'))"

definition attempt_of :: "outbox_row \<Rightarrow> nat" where
  "attempt_of row = ob_attempts row + 1"

definition event_of :: "outbox_row \<Rightarrow> event" where
  "event_of row = (ob_event row)\<lparr>ev_attempt := attempt_of row\<rparr>"

definition set_worker :: "nat \<Rightarrow> worker \<Rightarrow> pool \<Rightarrow> pool" where
  "set_worker i wk pl = pl\<lparr>pl_workers := (pl_workers pl)[i := wk]\<rparr>"

definition upd_result :: "(drain_result \<Rightarrow> drain_result) \<Rightarrow> pool \<Rightarrow> pool" where
  "upd_result f pl = pl\<lparr>pl_result := f (pl_result pl)\<rparr>"

definition note_retry :: "number \<Rightarrow> pool \<Rightarrow> pool" where
  "note_retry t = upd_result (\<lambda>r. r\<lparr>dr_nextRetryAt := min_opt (dr_nextRetryAt r) t\<rparr>)"

definition block_key :: "string \<Rightarrow> pool \<Rightarrow> pool" where
  "block_key k pl = pl\<lparr>pl_blocked := k # pl_blocked pl\<rparr>"

definition add_progress :: "pool \<Rightarrow> pool" where
  "add_progress pl = pl\<lparr>pl_progress := pl_progress pl + 1\<rparr>"

text \<open>The consumer's answer, and the acknowledgement when it accepts.\<close>

definition deliver_and_ack :: "env \<Rightarrow> dispatcher_deps \<Rightarrow> lease \<Rightarrow> outbox_row \<Rightarrow> unit wio" where
  "deliver_and_ack en dd lease row =
     bindE (getsE (\<lambda>w. e_deliver en (w_tick w) (event_of row))) (\<lambda>answer.
     bindE (modifyE (tick en)) (\<lambda>_.
     bindE (traceE (TOutcome (event_of row) (answer = None))) (\<lambda>_.
     case answer of
       Some err \<Rightarrow> throwE err
     | None \<Rightarrow> callS en (ackEvents (dd_key dd) lease [ob_eventId row]))))"

definition parked_of :: "dispatcher_deps \<Rightarrow> string \<Rightarrow> outbox_row \<Rightarrow> serialized_error \<Rightarrow> number \<Rightarrow> number \<Rightarrow> parked_row" where
  "parked_of dd k row err now1 now2 =
     \<lparr>pk_id = ob_eventId row, pk_kind = Poison, pk_event = Some (ob_event row), pk_item = VUndef,
      pk_error = \<lparr>pe_error = err,
        pe_history = Some ((case ob_lastError row of None \<Rightarrow> [] | Some e \<Rightarrow> [(ob_createdAt row, se_message e)])
          @ [(now1, se_message err)]),
        pe_issues = None\<rparr>,
      pk_attempts = attempt_of row, pk_parkedAt = now2,
      pk_holdKey = (if dl_holdKey (rp_delivery (dd_poller dd)) then Some k else None)\<rparr>"

text \<open>The \<^verbatim>\<open>catch\<close> block: park after the last attempt, otherwise record the attempt.\<close>

definition handle_failure ::
  "env \<Rightarrow> dispatcher_deps \<Rightarrow> lease \<Rightarrow> nat \<Rightarrow> string \<Rightarrow> outbox_row \<Rightarrow> outbox_row list \<Rightarrow> pool \<Rightarrow> thrown \<Rightarrow> pool wio" where
  "handle_failure en dd lease i k row rest pl err =
     (let delivery = rp_delivery (dd_poller dd); serialized = serializeError err 0 in
      if is_LeaseLost err then throwE err
      else if attempt_of row \<ge> dl_attempts delivery then
        bindE (nowE en) (\<lambda>now1. bindE (nowE en) (\<lambda>now2.
        let parked = parked_of dd k row serialized now1 now2 in
        bindE (callS en (parkEvent (dd_key dd) lease parked)) (\<lambda>_.
        bindE (traceE (TParked parked)) (\<lambda>_.
        let pl1 = add_progress (upd_result (\<lambda>r. r\<lparr>dr_parked := dr_parked r + 1\<rparr>) pl) in
        retE (if dl_poisonAction delivery = Halt then set_worker i Done (upd_result (\<lambda>r. r\<lparr>dr_halted := True\<rparr>) pl1)
              else if dl_holdKey delivery then set_worker i Idle (block_key k pl1)
              else set_worker i (AtGroup k rest) pl1)))))
      else
        bindE (randomE en) (\<lambda>u.
        let delay = backoffDelay (of_nat (attempt_of row)) (dl_backoff delivery) u JitterFull in
        bindE (nowE en) (\<lambda>now.
        bindE (callS en (recordAttempt (dd_key dd) lease (ob_eventId row) (Some serialized) (Some (now + delay)))) (\<lambda>_.
        bindE (traceE (TRetry (event_of row) delay)) (\<lambda>_.
        retE (set_worker i Idle (block_key k (note_retry (now + delay)
          (upd_result (\<lambda>r. r\<lparr>dr_failed := dr_failed r + 1\<rparr>) pl)))))))))"

definition finish_row ::
  "env \<Rightarrow> dispatcher_deps \<Rightarrow> lease \<Rightarrow> nat \<Rightarrow> string \<Rightarrow> outbox_row \<Rightarrow> outbox_row list \<Rightarrow> pool \<Rightarrow> pool wio" where
  "finish_row en dd lease i k row rest pl =
     bindE (tryE (deliver_and_ack en dd lease row)) (\<lambda>res.
     case res of
       Inl err \<Rightarrow> handle_failure en dd lease i k row rest pl err
     | Inr _ \<Rightarrow>
         bindE (nowE en) (\<lambda>now.
         bindE (traceE (TDelivered (event_of row))) (\<lambda>_.
         retE (set_worker i (AtGroup k rest)
           (add_progress (upd_result (\<lambda>r. r\<lparr>dr_delivered := dr_delivered r + 1\<rparr>) pl))))))"

definition start_row ::
  "env \<Rightarrow> nat \<Rightarrow> string \<Rightarrow> outbox_row \<Rightarrow> outbox_row list \<Rightarrow> pool \<Rightarrow> pool wio" where
  "start_row en i k row rest pl =
     bindE (nowE en) (\<lambda>now.
     case ob_nextAttemptAt row of
       Some t \<Rightarrow>
         if t > now then retE (set_worker i Idle (block_key k (note_retry t pl)))
         else bindE (traceE (TDeliver (event_of row))) (\<lambda>_. retE (set_worker i (InFlight k row rest) pl))
     | None \<Rightarrow> bindE (traceE (TDeliver (event_of row))) (\<lambda>_. retE (set_worker i (InFlight k row rest) pl)))"

section \<open>The workers\<close>

definition worker_step :: "env \<Rightarrow> dispatcher_deps \<Rightarrow> lease \<Rightarrow> nat \<Rightarrow> pool \<Rightarrow> pool wio" where
  "worker_step en dd lease i pl =
     bindE abortedE (\<lambda>aborted.
     let stop = (aborted \<or> dr_halted (pl_result pl)) in
     case pl_workers pl ! i of
       Done \<Rightarrow> retE pl
     | Idle \<Rightarrow>
         (case pl_queue pl of
            [] \<Rightarrow> retE (set_worker i Done pl)
          | (k, rows) # queue \<Rightarrow>
              retE (set_worker i (if stop then Done else AtGroup k rows) (pl\<lparr>pl_queue := queue\<rparr>)))
     | AtGroup k [] \<Rightarrow> retE (set_worker i Idle pl)
     | AtGroup k (row # rest) \<Rightarrow>
         if stop then retE (set_worker i Done pl) else start_row en i k row rest pl
     | InFlight k row rest \<Rightarrow> finish_row en dd lease i k row rest pl)"

definition live_workers :: "pool \<Rightarrow> nat list" where
  "live_workers pl = filter (\<lambda>i. pl_workers pl ! i \<noteq> Done) [0..<length (pl_workers pl)]"

fun worker_size :: "worker \<Rightarrow> nat" where
  "worker_size Idle = 1"
| "worker_size (AtGroup k rows) = 2 * length rows + 2"
| "worker_size (InFlight k row rest) = 2 * length rest + 3"
| "worker_size Done = 0"

definition pool_size :: "pool \<Rightarrow> nat" where
  "pool_size pl = sum_list (map (\<lambda>g. 2 * length (snd g) + 2) (pl_queue pl)) + sum_list (map worker_size (pl_workers pl))"

text \<open>A step of the pool: the schedule picks a worker; a worker that throws is done and rejects the pool, and once
  it is rejected the schedule may also resume the caller (\<^verbatim>\<open>Promise.all\<close> rejects at the first error while the
  other workers run on).\<close>

definition pool_step ::
  "env \<Rightarrow> dispatcher_deps \<Rightarrow> lease \<Rightarrow> thrown option \<Rightarrow> pool \<Rightarrow> world \<Rightarrow> (thrown option \<times> pool \<times> world) option" where
  "pool_step en dd lease failed pl w =
     (let live = live_workers pl;
          n = length live + (if failed = None then 0 else 1);
          c = e_sched en (w_tick w) mod n
      in if live = [] \<or> c \<ge> length live then None
         else let i = live ! c in
           case worker_step en dd lease i pl (tick en w) of
             (Inr pl', w') \<Rightarrow> Some (failed, pl', w')
           | (Inl e, w') \<Rightarrow> Some (Some (case failed of None \<Rightarrow> e | Some f \<Rightarrow> f), set_worker i Done pl, w'))"

lemma pool_fields [simp]:
  "pl_workers (set_worker i wk pl) = (pl_workers pl)[i := wk]" "pl_queue (set_worker i wk pl) = pl_queue pl"
  "pl_workers (upd_result f pl) = pl_workers pl" "pl_queue (upd_result f pl) = pl_queue pl"
  "pl_workers (note_retry t pl) = pl_workers pl" "pl_queue (note_retry t pl) = pl_queue pl"
  "pl_workers (block_key k pl) = pl_workers pl" "pl_queue (block_key k pl) = pl_queue pl"
  "pl_workers (add_progress pl) = pl_workers pl" "pl_queue (add_progress pl) = pl_queue pl"
  by (simp_all add: set_worker_def upd_result_def note_retry_def block_key_def add_progress_def)

text \<open>What a step does to the queue and the worker: the worker takes the first group or leaves it, or goes on in
  its own.\<close>

inductive moves :: "worker \<Rightarrow> group list \<Rightarrow> worker \<Rightarrow> group list \<Rightarrow> bool" where
  stop: "moves wk queue Done queue"
| take: "moves Idle ((k, rows) # queue) (AtGroup k rows) queue"
| drop_group: "moves Idle (g # queue) Done queue"
| group_end: "moves (AtGroup k []) queue Idle queue"
| wait: "moves (AtGroup k (row # rest)) queue Idle queue"
| start: "moves (AtGroup k (row # rest)) queue (InFlight k row rest) queue"
| finish: "moves (InFlight k row rest) queue (AtGroup k rest) queue"
| give_up: "moves (InFlight k row rest) queue Idle queue"

definition moved :: "nat \<Rightarrow> pool \<Rightarrow> pool \<Rightarrow> bool" where
  "moved i pl pl' \<longleftrightarrow> (\<exists>wk. pl_workers pl' = (pl_workers pl)[i := wk] \<and> moves (pl_workers pl ! i) (pl_queue pl) wk (pl_queue pl'))"

lemma movedI:
  "pl_workers pl' = (pl_workers pl)[i := wk] \<Longrightarrow> moves (pl_workers pl ! i) (pl_queue pl) wk (pl_queue pl') \<Longrightarrow> moved i pl pl'"
  by (auto simp: moved_def)

lemma start_row_moved:
  "pl_workers pl ! i = AtGroup k (row # rest) \<Longrightarrow> yields (moved i pl) (start_row en i k row rest pl)"
  unfolding start_row_def by (intro yields_rules) (auto intro!: movedI moves.intros)

lemma handle_failure_moved:
  "pl_workers pl ! i = InFlight k row rest \<Longrightarrow> yields (moved i pl) (handle_failure en dd lease i k row rest pl err)"
  unfolding handle_failure_def Let_def by (intro yields_rules) (auto intro!: movedI moves.intros)

lemma finish_row_moved:
  "pl_workers pl ! i = InFlight k row rest \<Longrightarrow> yields (moved i pl) (finish_row en dd lease i k row rest pl)"
  unfolding finish_row_def by (intro yields_rules handle_failure_moved) (auto intro!: movedI moves.intros)

lemma worker_step_moved:
  assumes "worker_step en dd lease i pl w = (Inr pl', w')" "pl_workers pl ! i \<noteq> Done"
  shows "moved i pl pl'"
proof -
  have "yields (moved i pl) (worker_step en dd lease i pl)"
  proof (cases "pl_workers pl ! i")
    case Idle
    then show ?thesis unfolding worker_step_def Let_def
      by (intro yields_bind) (auto intro!: yields_ret movedI moves.intros split: list.split)
  next
    case (AtGroup k rows)
    show ?thesis
    proof (cases rows)
      case Nil
      with AtGroup show ?thesis unfolding worker_step_def Let_def
        by (intro yields_bind) (auto intro!: yields_ret movedI moves.intros)
    next
      case (Cons row rest)
      with AtGroup show ?thesis unfolding worker_step_def Let_def
        by (intro yields_bind) (auto intro!: yields_ret movedI moves.stop start_row_moved)
    qed
  next
    case (InFlight k row rest)
    then show ?thesis unfolding worker_step_def Let_def by (auto intro!: yields_bind finish_row_moved)
  qed (use assms(2) in simp)
  then show ?thesis using assms(1) by (rule yieldsD)
qed

definition queue_size :: "group list \<Rightarrow> nat" where
  "queue_size gs = sum_list (map (\<lambda>g. 2 * length (snd g) + 2) gs)"

lemma worker_size_pos: "wk \<noteq> Done \<Longrightarrow> 0 < worker_size wk"
  by (cases wk) simp_all

lemma moves_smaller: "moves wk queue wk' queue' \<Longrightarrow> wk \<noteq> Done \<Longrightarrow>
    worker_size wk' + queue_size queue' < worker_size wk + queue_size queue"
  by (induction rule: moves.induct) (auto simp: queue_size_def worker_size_pos)

lemma sum_list_update_less:
  fixes xs :: "nat list"
  assumes "i < length xs"
  shows "sum_list (xs[i := v]) + xs ! i = sum_list xs + v"
  using assms
proof (induction xs arbitrary: i)
  case (Cons x xs)
  then show ?case by (cases i) auto
qed simp

lemma live_workers_iff: "i \<in> set (live_workers pl) \<longleftrightarrow> i < length (pl_workers pl) \<and> pl_workers pl ! i \<noteq> Done"
  by (auto simp: live_workers_def)

lemma moved_smaller: "i \<in> set (live_workers pl) \<Longrightarrow> moved i pl pl' \<Longrightarrow> pool_size pl' < pool_size pl"
proof -
  assume i: "i \<in> set (live_workers pl)" and "moved i pl pl'"
  then obtain wk where wk: "pl_workers pl' = (pl_workers pl)[i := wk]"
    "moves (pl_workers pl ! i) (pl_queue pl) wk (pl_queue pl')" by (auto simp: moved_def)
  have "worker_size wk + queue_size (pl_queue pl') < worker_size (pl_workers pl ! i) + queue_size (pl_queue pl)"
    using moves_smaller [OF wk(2)] i by (simp add: live_workers_iff)
  moreover have "sum_list (map worker_size (pl_workers pl')) + worker_size (pl_workers pl ! i)
      = sum_list (map worker_size (pl_workers pl)) + worker_size wk"
    using sum_list_update_less [of i "map worker_size (pl_workers pl)" "worker_size wk"] i
    by (simp add: wk(1) map_update live_workers_iff)
  ultimately show ?thesis unfolding pool_size_def queue_size_def by linarith
qed

lemma pool_stepE:
  assumes "pool_step en dd lease failed pl w = Some (failed', pl', w')"
  obtains i r where "i \<in> set (live_workers pl)" "worker_step en dd lease i pl (tick en w) = (r, w')"
    "case r of Inr p \<Rightarrow> pl' = p | Inl e \<Rightarrow> pl' = set_worker i Done pl"
proof -
  let ?live = "live_workers pl"
  let ?c = "e_sched en (w_tick w) mod (length ?live + (if failed = None then 0 else 1))"
  have c: "?live \<noteq> []" "?c < length ?live"
    using assms by (auto simp: pool_step_def Let_def split: if_splits)
  obtain r w1 where run: "worker_step en dd lease (?live ! ?c) pl (tick en w) = (r, w1)"
    by (cases "worker_step en dd lease (?live ! ?c) pl (tick en w)")
  have "w1 = w'" "case r of Inr p \<Rightarrow> pl' = p | Inl e \<Rightarrow> pl' = set_worker (?live ! ?c) Done pl"
    using assms c run by (cases r; simp add: pool_step_def Let_def)+
  with run c that [of "?live ! ?c" r] show ?thesis by simp
qed

lemma pool_step_moved:
  assumes "pool_step en dd lease failed pl w = Some (failed', pl', w')"
  obtains i where "i \<in> set (live_workers pl)" "moved i pl pl'"
proof -
  obtain j r where j: "j \<in> set (live_workers pl)" "worker_step en dd lease j pl (tick en w) = (r, w')"
    "case r of Inr p \<Rightarrow> pl' = p | Inl e \<Rightarrow> pl' = set_worker j Done pl"
    using assms by (rule pool_stepE)
  have "moved j pl (set_worker j Done pl)" by (rule movedI [of _ _ _ Done]) (simp_all add: moves.stop)
  then have "moved j pl pl'"
    using j worker_step_moved [of en dd lease j pl "tick en w"] by (cases r) (auto simp: live_workers_iff)
  with j(1) that show ?thesis by blast
qed

lemma pool_step_world:
  assumes "pool_step en dd lease failed pl w = Some (failed', pl', w')"
  obtains i where "i \<in> set (live_workers pl)" "w' = snd (worker_step en dd lease i pl (tick en w))"
  using assms by (rule pool_stepE) (metis that snd_conv)

lemma pool_step_smaller: "pool_step en dd lease failed pl w = Some (failed', pl', w') \<Longrightarrow> pool_size pl' < pool_size pl"
  by (elim pool_step_moved) (rule moved_smaller)

function run_pool :: "env \<Rightarrow> dispatcher_deps \<Rightarrow> lease \<Rightarrow> thrown option \<Rightarrow> pool \<Rightarrow> world \<Rightarrow> (thrown + pool) \<times> world" where
  "run_pool en dd lease failed pl w =
     (case pool_step en dd lease failed pl w of
        None \<Rightarrow> (case failed of Some e \<Rightarrow> Inl e | None \<Rightarrow> Inr pl, w)
      | Some (failed', pl', w') \<Rightarrow> run_pool en dd lease failed' pl' w')"
  by pat_completeness auto
termination
  by (relation "measure (\<lambda>(en, dd, lease, failed, pl, w). pool_size pl)") (auto dest: pool_step_smaller)

declare run_pool.simps [simp del]

section \<open>The drain\<close>

definition start_pool :: "resolved_poller \<Rightarrow> group list \<Rightarrow> drain_result \<Rightarrow> string list \<Rightarrow> pool" where
  "start_pool p groups result blocked =
     \<lparr>pl_queue = groups, pl_workers = replicate (min (dl_concurrency (rp_delivery p)) (length groups)) Idle,
      pl_result = result, pl_blocked = blocked, pl_progress = 0\<rparr>"

definition open_groups :: "string set \<Rightarrow> string list \<Rightarrow> group list \<Rightarrow> group list" where
  "open_groups held blocked groups = filter (\<lambda>g. fst g \<notin> held \<and> fst g \<notin> set blocked) groups"

text \<open>The loop, for at most the given number of rounds.\<close>

fun drain_loop ::
  "nat \<Rightarrow> env \<Rightarrow> dispatcher_deps \<Rightarrow> lease \<Rightarrow> nat \<Rightarrow> drain_result \<Rightarrow> string list \<Rightarrow> drain_result wio" where
  "drain_loop 0 en dd lease window result blocked =
     bindE (modifyE (\<lambda>w. w\<lparr>w_exhausted := True\<rparr>)) (\<lambda>_. retE result)"
| "drain_loop (Suc n) en dd lease window result blocked =
     bindE abortedE (\<lambda>aborted.
     if aborted \<or> dr_halted result then retE result
     else
       bindE (callS en (loadPending (dd_key dd) window)) (\<lambda>rows.
       if rows = [] then retE result
       else
         bindE (callS en (heldKeys (dd_key dd))) (\<lambda>held.
         bindE (liftR (groupByOrderingKey (dd_poller dd) rows)) (\<lambda>all_groups.
         let groups = open_groups held blocked all_groups in
         if groups = [] then
           (if length rows < window \<or> window \<ge> dd_batch dd * 16 then retE result
            else drain_loop n en dd lease (window * 2) result blocked)
         else
           bindE (run_pool en dd lease None (start_pool (dd_poller dd) groups result blocked)) (\<lambda>pl.
           if pl_progress pl = 0 then retE (pl_result pl)
           else drain_loop n en dd lease window (pl_result pl) (pl_blocked pl))))))"

definition drainOutbox :: "env \<Rightarrow> dispatcher_deps \<Rightarrow> lease \<Rightarrow> bool \<Rightarrow> drain_result wio" where
  "drainOutbox en dd lease hasConsumer =
     bindE (if hasConsumer then drain_loop (e_fuel en) en dd lease (dd_batch dd) empty_drain [] else retE empty_drain) (\<lambda>result.
     bindE (callS en (countPending (dd_key dd))) (\<lambda>n.
     retE (result\<lparr>dr_remaining := n\<rparr>)))"

section \<open>A stale lease delivers nothing durable\<close>

lemma pres_try: "preserves R m \<Longrightarrow> preserves R (tryE m)"
  by (auto simp: preserves_def tryE_def split: prod.splits) (metis snd_conv)

lemma pres_lift: "preserves (inert key l) (liftR r)"
  by (cases r) (simp_all add: liftR_def inert.pres_rules)

lemma pres_tick: "preserves (inert key l) (modifyE (tick en))"
  by (intro inert.pres_modify inert_same) simp_all

lemma pres_start_row: "preserves (inert key l) (start_row en i k row rest pl)"
  unfolding start_row_def by (intro inert_rules)

lemma pres_finish_row:
  assumes "alone en"
  shows "preserves (inert (dd_key dd) l) (finish_row en dd l i k row rest pl)"
  unfolding finish_row_def deliver_and_ack_def handle_failure_def Let_def
  by (intro inert_rules pres_try pres_tick assms harmless_ops)

lemma pres_worker_step:
  assumes "alone en"
  shows "preserves (inert (dd_key dd) l) (worker_step en dd l i pl)"
  unfolding worker_step_def Let_def
proof (intro inert.pres_bind pres_aborted)
  fix aborted
  show "preserves (inert (dd_key dd) l) (case pl_workers pl ! i of Idle \<Rightarrow>
      (case pl_queue pl of [] \<Rightarrow> retE (set_worker i Done pl)
       | (k, rows) # queue \<Rightarrow> retE (set_worker i (if aborted \<or> dr_halted (pl_result pl) then Done else AtGroup k rows)
           (pl\<lparr>pl_queue := queue\<rparr>)))
    | AtGroup k [] \<Rightarrow> retE (set_worker i Idle pl)
    | AtGroup k (row # rest) \<Rightarrow>
        if aborted \<or> dr_halted (pl_result pl) then retE (set_worker i Done pl) else start_row en i k row rest pl
    | InFlight k row rest \<Rightarrow> finish_row en dd l i k row rest pl | Done \<Rightarrow> retE pl)"
    by (auto split: worker.split list.split intro!: inert.pres_ret pres_start_row pres_finish_row assms)
qed


lemma inert_pool_step:
  assumes "alone en" "pool_step en dd l failed pl w = Some (failed', pl', w')"
  shows "inert (dd_key dd) l w w'"
proof -
  obtain i where i: "w' = snd (worker_step en dd l i pl (tick en w))" using assms(2) by (rule pool_step_world)
  have "inert (dd_key dd) l w (tick en w)" by (rule inert_same) simp_all
  moreover have "inert (dd_key dd) l (tick en w) w'"
    using pres_worker_step [OF assms(1)] i by (auto simp: preserves_def)
  ultimately show ?thesis by (rule inert.frame_trans)
qed

lemma run_pool_inv:
  assumes step: "\<And>failed pl w failed' pl' w'. pool_step en dd l failed pl w = Some (failed', pl', w') \<Longrightarrow> I failed pl w \<Longrightarrow> I failed' pl' w'"
    and init: "I failed pl w"
  obtains failed' pl' w' where "I failed' pl' w'" "pool_step en dd l failed' pl' w' = None"
    "run_pool en dd l failed pl w = (case failed' of Some e \<Rightarrow> Inl e | None \<Rightarrow> Inr pl', w')"
proof -
  have "\<exists>failed' pl' w'. I failed' pl' w' \<and> pool_step en dd l failed' pl' w' = None
      \<and> run_pool en dd l failed pl w = (case failed' of Some e \<Rightarrow> Inl e | None \<Rightarrow> Inr pl', w')"
    using init
  proof (induction "pool_size pl" arbitrary: failed pl w rule: less_induct)
    case less
    show ?case
    proof (cases "pool_step en dd l failed pl w")
      case None
      with less.prems show ?thesis by (auto simp: run_pool.simps)
    next
      case (Some s)
      obtain f pl' w1 where s: "s = (f, pl', w1)" by (cases s)
      with Some have st: "pool_step en dd l failed pl w = Some (f, pl', w1)" by simp
      have "run_pool en dd l failed pl w = run_pool en dd l f pl' w1" by (subst run_pool.simps) (simp add: st)
      with less.hyps [OF pool_step_smaller [OF st] step [OF st less.prems]] show ?thesis by metis
    qed
  qed
  then show ?thesis using that by blast
qed

lemma pres_run_pool:
  assumes "alone en"
  shows "preserves (inert (dd_key dd) l) (run_pool en dd l failed pl)"
proof (rule preservesI)
  fix w r w'
  assume run: "run_pool en dd l failed pl w = (r, w')"
  have "inert (dd_key dd) l w u" if "pool_step en dd l f p v = Some (f', p', u)" "inert (dd_key dd) l w v" for f p v f' p' u
    using inert_pool_step [OF assms that(1)] that(2) by (rule inert.frame_trans [rotated])
  then show "inert (dd_key dd) l w w'"
    by (rule run_pool_inv [where I = "\<lambda>_ _. inert (dd_key dd) l w" and en = en and dd = dd and l = l
          and failed = failed and pl = pl and w = w]) (use run in \<open>auto simp: inert.frame_refl\<close>)
qed

lemma pres_exhausted: "preserves (inert key l) (modifyE (\<lambda>w. w\<lparr>w_exhausted := True\<rparr>))"
  by (intro inert.pres_modify inert_same) simp_all

lemma pres_drain_loop:
  "alone en \<Longrightarrow> preserves (inert (dd_key dd) l) (drain_loop n en dd l window result blocked)"
proof (induction n arbitrary: window result blocked)
  case 0
  show ?case by (simp only: drain_loop.simps) (intro inert_rules pres_exhausted)
next
  case (Suc n)
  then show ?case
    unfolding drain_loop.simps Let_def by (intro inert_rules pres_lift pres_run_pool harmless_ops Suc)
qed

lemma pres_drainOutbox: "alone en \<Longrightarrow> preserves (inert (dd_key dd) l) (drainOutbox en dd l hasConsumer)"
  unfolding drainOutbox_def by (intro inert_rules pres_drain_loop harmless_ops)

section \<open>Order within a key\<close>

text \<open>Everything but \<^const>\<open>start_row\<close> extends the trace without handing out an event.\<close>

definition is_deliver :: "trace \<Rightarrow> bool" where
  "is_deliver t \<longleftrightarrow> (\<exists>ev. t = TDeliver ev)"

definition quiet :: "world \<Rightarrow> world \<Rightarrow> bool" where
  "quiet w w' \<longleftrightarrow> (\<exists>T. w_trace w' = w_trace w @ T \<and> (\<forall>t \<in> set T. \<not> is_deliver t))"

interpretation quiet: frame_rel quiet
  by unfold_locales (force simp: quiet_def)+

lemma quiet_same: "w_trace w' = w_trace w \<Longrightarrow> quiet w w'"
  by (simp add: quiet_def)

lemma trace_tick [simp]: "w_trace (tick en w) = w_trace w"
  by (simp add: tick_def)

lemma quiet_call: "preserves quiet (callS en op)"
proof -
  have raw: "preserves quiet (raw_store en op')" for op' :: "'c store_op"
    by (auto simp: preserves_def raw_store_def Let_def intro!: quiet_same split: option.splits prod.splits)
  have now: "preserves quiet (nowE en)" by (auto simp: preserves_def nowE_def intro: quiet_same)
  have lost: "preserves quiet keeper_lost" by (auto simp: keeper_lost_def intro!: quiet.pres_modify quiet_same)
  have "preserves quiet (beat en)"
    unfolding beat_def keeper_renew_def
    by (intro quiet.pres_rules raw now lost quiet.pres_modify quiet_same) simp
  then show ?thesis unfolding callS_def by (intro quiet.pres_rules raw)
qed

lemma quiet_trace: "\<not> is_deliver t \<Longrightarrow> preserves quiet (traceE t)"
  by (auto simp: traceE_def quiet_def intro!: quiet.pres_modify)

lemma quiet_basic: "preserves quiet (nowE en)" "preserves quiet (randomE en)" "preserves quiet (modifyE (tick en))" "preserves quiet abortedE"
  by (auto simp: preserves_def nowE_def randomE_def modifyE_def abortedE_def getsE_def intro: quiet_same)

lemma quiet_finish_row: "preserves quiet (finish_row en dd l i k row rest pl)"
  unfolding finish_row_def deliver_and_ack_def handle_failure_def Let_def
  by (intro quiet.pres_rules quiet_call quiet_trace quiet_basic pres_try) (simp_all add: is_deliver_def)

lemma traceE_Inr: "traceE t w = (Inr x, w') \<longleftrightarrow> w' = w\<lparr>w_trace := w_trace w @ [t]\<rparr>"
  by (auto simp: traceE_def modifyE_def)

lemma retE_Inr: "retE x w = (Inr y, w') \<longleftrightarrow> x = y \<and> w = w'"
  by (auto simp: retE_def)

lemma parked_quiet:
  assumes "handle_failure en dd l i k row rest pl err w = (Inr pl', w')" "i < length (pl_workers pl)"
    "pl_workers pl' ! i = AtGroup k' rows"
  shows "\<exists>p w1. w_trace w' = w_trace w1 @ [TParked p] \<and> pk_event p = Some (ob_event row) \<and> quiet w w1"
proof -
  obtain now1 now2 w1 w2 w3 where p: "nowE en w = (Inr now1, w1)" "nowE en w1 = (Inr now2, w2)"
    "callS en (parkEvent (dd_key dd) l (parked_of dd k row (serializeError err 0) now1 now2)) w2 = (Inr (), w3)"
    "w_trace w' = w_trace w3 @ [TParked (parked_of dd k row (serializeError err 0) now1 now2)]"
    using assms unfolding handle_failure_def Let_def
    by (auto simp: bindE_Inr traceE_Inr retE_Inr throwE_def split: if_splits)
  have "quiet w w3"
    using preservesD [OF quiet_basic(1) p(1)] preservesD [OF quiet_basic(1) p(2)] preservesD [OF quiet_call p(3)]
    by (blast intro: quiet.frame_trans)
  with p(4) show ?thesis by (auto simp: parked_of_def)
qed

definition settled :: "trace list \<Rightarrow> outbox_row \<Rightarrow> bool" where
  "settled T row \<longleftrightarrow> TDelivered (event_of row) \<in> set T \<or> (\<exists>p. TParked p \<in> set T \<and> pk_event p = Some (ob_event row))"

lemma settled_extend: "settled T row \<Longrightarrow> settled (T @ U) row"
  by (auto simp: settled_def)

text \<open>A worker that goes on to the rest of its group has settled the row, as the last entry of the trace.\<close>

lemma finish_row_settled:
  assumes "finish_row en dd l i k row rest pl w = (Inr pl', w')" "i < length (pl_workers pl)"
    "pl_workers pl' ! i = AtGroup k' rows"
  shows "\<exists>T t. w_trace w' = w_trace w @ T @ [t] \<and> settled [t] row"
proof -
  obtain res w1 where res: "tryE (deliver_and_ack en dd l row) w = (Inr res, w1)"
    and run: "(case res of Inl err \<Rightarrow> handle_failure en dd l i k row rest pl err
       | Inr _ \<Rightarrow> bindE (nowE en) (\<lambda>now. bindE (traceE (TDelivered (event_of row))) (\<lambda>_.
           retE (set_worker i (AtGroup k rest)
             (add_progress (upd_result (\<lambda>r. r\<lparr>dr_delivered := dr_delivered r + 1\<rparr>) pl)))))) w1 = (Inr pl', w')"
    using assms(1) unfolding finish_row_def bindE_Inr by blast
  have q1: "quiet w w1"
    using res by (rule preservesD [rotated]) (unfold deliver_and_ack_def, intro quiet.pres_rules quiet_call quiet_trace
        quiet_basic pres_try, simp add: is_deliver_def)
  show ?thesis
  proof (cases res)
    case (Inr u)
    with run obtain now w2 where n: "nowE en w1 = (Inr now, w2)" "w_trace w' = w_trace w2 @ [TDelivered (event_of row)]"
      by (auto simp: bindE_Inr traceE_Inr retE_Inr)
    have "quiet w w2" using q1 preservesD [OF quiet_basic(1) n(1)] by (rule quiet.frame_trans)
    with n(2) show ?thesis by (auto simp: quiet_def settled_def)
  next
    case (Inl err)
    with run have h: "handle_failure en dd l i k row rest pl err w1 = (Inr pl', w')" by simp
    have "\<exists>p w2. w_trace w' = w_trace w2 @ [TParked p] \<and> pk_event p = Some (ob_event row) \<and> quiet w1 w2"
      by (rule parked_quiet [OF h]) (use assms(2,3) in auto)
    then obtain p w2 where p: "w_trace w' = w_trace w2 @ [TParked p]" "pk_event p = Some (ob_event row)" "quiet w1 w2"
      by blast
    have "quiet w w2" using q1 p(3) by (rule quiet.frame_trans)
    with p(1,2) show ?thesis by (auto simp: quiet_def settled_def)
  qed
qed

lemma finish_row_settled_new:
  assumes "finish_row en dd l i k row rest pl w = (Inr pl', w')" "i < length (pl_workers pl)"
    "pl_workers pl' ! i = AtGroup k' rows" "w_trace w' = tr @ T'" "w_trace w = tr @ T"
  shows "settled T' row"
  using finish_row_settled [OF assms(1-3)] assms(4,5) by (auto simp: settled_def)

definition rid :: "outbox_row \<Rightarrow> string" where
  "rid row = ev_id (ob_event row)"

definition in_order :: "trace list \<Rightarrow> outbox_row list \<Rightarrow> bool" where
  "in_order T rows \<longleftrightarrow> (\<forall>i j n. i < j \<and> j < length rows \<and> n < length T \<and> T ! n = TDeliver (event_of (rows ! j))
     \<longrightarrow> settled (take n T) (rows ! i))"

lemma in_order_extend:
  assumes "in_order T rows"
    "\<And>i j n. i < j \<Longrightarrow> j < length rows \<Longrightarrow> n < length S \<Longrightarrow> S ! n = TDeliver (event_of (rows ! j)) \<Longrightarrow> settled (T @ take n S) (rows ! i)"
  shows "in_order (T @ S) rows"
  unfolding in_order_def
proof (intro allI impI)
  fix i j n
  assume a: "i < j \<and> j < length rows \<and> n < length (T @ S) \<and> (T @ S) ! n = TDeliver (event_of (rows ! j))"
  show "settled (take n (T @ S)) (rows ! i)"
  proof (cases "n < length T")
    case True
    with a assms(1) show ?thesis by (auto simp: in_order_def nth_append)
  next
    case False
    with a assms(2) [of i j "n - length T"] show ?thesis by (auto simp: nth_append)
  qed
qed

fun at_ok :: "group list \<Rightarrow> trace list \<Rightarrow> worker \<Rightarrow> bool" where
  "at_ok groups T (AtGroup k rest) \<longleftrightarrow> (\<exists>before. (k, before @ rest) \<in> set groups \<and> (\<forall>r \<in> set before. settled T r))"
| "at_ok groups T (InFlight k row rest) \<longleftrightarrow>
     (\<exists>before. (k, before @ row # rest) \<in> set groups \<and> (\<forall>r \<in> set before. settled T r))"
| "at_ok groups T _ \<longleftrightarrow> True"

lemma at_ok_append: "at_ok groups T wk \<Longrightarrow> at_ok groups (T @ S) wk"
  by (cases wk) (auto intro: settled_extend)

definition ord_inv :: "group list \<Rightarrow> world \<Rightarrow> pool \<Rightarrow> world \<Rightarrow> bool" where
  "ord_inv groups w0 pl w \<longleftrightarrow> (\<exists>T. w_trace w = w_trace w0 @ T \<and> (\<forall>g \<in> set groups. in_order T (snd g))
     \<and> set (pl_queue pl) \<subseteq> set groups \<and> (\<forall>wk \<in> set (pl_workers pl). at_ok groups T wk))"

lemma distinct_positions:
  assumes "distinct (map rid (concat (map snd groups)))" "(k, xs) \<in> set groups" "(k', ys) \<in> set groups"
    "i < length xs" "j < length ys" "rid (xs ! i) = rid (ys ! j)"
  shows "xs = ys \<and> i = j"
  using assms
proof (induction groups)
  case (Cons g groups)
  have disj: "rid ` set (snd g) \<inter> rid ` set (concat (map snd groups)) = {}" and d: "distinct (map rid (snd g))"
    using Cons.prems(1) by auto
  have in_rest: "rid (zs ! n) \<in> rid ` set (concat (map snd groups))" if "(k, zs) \<in> set groups" "n < length zs" for k zs n
    using that nth_mem by fastforce
  have pos: "i = j" if "xs = ys" "xs = snd g"
    using d Cons.prems(4-6) that by (metis length_map nth_eq_iff_index_eq nth_map)
  show ?case
    using Cons.prems(2,3) pos Cons.IH [OF _ _ _ Cons.prems(4-6)] Cons.prems(1) disj in_rest Cons.prems(4-6)
    by (auto 0 3) (metis IntI empty_iff image_eqI nth_mem snd_conv)+
qed simp

lemma event_of_rid: "event_of r = event_of r' \<Longrightarrow> rid r = rid r'"
  by (simp add: event_of_def rid_def) (metis event.select_convs(1) event.surjective event.update_convs(13))

lemma ord_inv_step:
  assumes inv: "ord_inv groups w0 pl w" and quiet: "quiet w w'"
    and queue: "set (pl_queue pl') \<subseteq> set groups" and workers: "pl_workers pl' = (pl_workers pl)[i := wk]"
    and ok: "\<And>T. w_trace w' = w_trace w0 @ T \<Longrightarrow> at_ok groups T wk"
  shows "ord_inv groups w0 pl' w'"
proof -
  obtain T S where T: "w_trace w = w_trace w0 @ T" "\<forall>g \<in> set groups. in_order T (snd g)"
      "\<forall>wk \<in> set (pl_workers pl). at_ok groups T wk"
    and S: "w_trace w' = w_trace w @ S" "\<forall>t \<in> set S. \<not> is_deliver t"
    using inv quiet by (auto simp: ord_inv_def quiet_def)
  have T': "w_trace w' = w_trace w0 @ (T @ S)" using T(1) S(1) by simp
  have "in_order (T @ S) (snd g)" if "g \<in> set groups" for g
    using T(2) that S(2) by (intro in_order_extend) (auto simp: is_deliver_def dest: nth_mem)
  moreover have "\<forall>x \<in> set (pl_workers pl'). at_ok groups (T @ S) x"
    using T(3) ok [OF T'] at_ok_append set_update_subset_insert [of "pl_workers pl" i wk] by (auto simp: workers)
  ultimately show ?thesis using T' queue by (auto simp: ord_inv_def)
qed

lemma ord_inv_tick: "ord_inv groups w0 pl (tick en w) \<longleftrightarrow> ord_inv groups w0 pl w"
  by (simp add: ord_inv_def)

lemma ord_inv_deliver:
  assumes inv: "ord_inv groups w0 pl w" and d: "distinct (map rid (concat (map snd groups)))"
    and wk: "pl_workers pl ! i = AtGroup k (row # rest)" "i < length (pl_workers pl)"
    and w': "w_trace w' = w_trace w @ [TDeliver (event_of row)]"
  shows "ord_inv groups w0 (set_worker i (InFlight k row rest) pl) w'"
proof -
  obtain T where T: "w_trace w = w_trace w0 @ T" "\<forall>g \<in> set groups. in_order T (snd g)"
      "set (pl_queue pl) \<subseteq> set groups" "\<forall>wk \<in> set (pl_workers pl). at_ok groups T wk"
    using inv by (auto simp: ord_inv_def)
  let ?S = "[TDeliver (event_of row)]"
  have "at_ok groups T (AtGroup k (row # rest))" using T(4) wk nth_mem by metis
  then obtain before where g: "(k, before @ row # rest) \<in> set groups" "\<forall>r \<in> set before. settled T r" by auto
  have order: "in_order (T @ ?S) rows" if rows: "(k', rows) \<in> set groups" for k' rows
  proof (rule in_order_extend)
    show "in_order T rows" using T(2) rows by force
    fix i j n
    assume ij: "i < j" "j < length rows" "n < length ?S" "?S ! n = TDeliver (event_of (rows ! j))"
    then have "event_of (rows ! j) = event_of row" by auto
    then have "rid (rows ! j) = rid ((before @ row # rest) ! length before)"
      using event_of_rid [of "rows ! j" row] by simp
    then have "rows = before @ row # rest \<and> j = length before"
      using distinct_positions [OF d rows g(1) ij(2), of "length before"] by simp
    then show "settled (T @ take n ?S) (rows ! i)"
      using g(2) ij(1) by (auto simp: nth_append intro!: settled_extend)
  qed
  have "at_ok groups (T @ ?S) (InFlight k row rest)" using g by (auto intro: settled_extend)
  moreover have "\<forall>wk \<in> set (pl_workers pl). at_ok groups (T @ ?S) wk" using T(4) at_ok_append by blast
  ultimately have "\<forall>wk \<in> set (pl_workers (set_worker i (InFlight k row rest) pl)). at_ok groups (T @ ?S) wk"
    using set_update_subset_insert [of "pl_workers pl" i "InFlight k row rest"] by (auto simp del: at_ok.simps)
  with order T(1,3) w' show ?thesis unfolding ord_inv_def by (intro exI [of _ "T @ ?S"]) auto
qed

lemma start_row_ord:
  assumes inv: "ord_inv groups w0 pl w" and d: "distinct (map rid (concat (map snd groups)))"
    and wk: "pl_workers pl ! i = AtGroup k (row # rest)" "i < length (pl_workers pl)"
    and run: "start_row en i k row rest pl w = (Inr pl', w')"
  shows "ord_inv groups w0 pl' w'"
proof -
  have "(pl_workers pl' = (pl_workers pl)[i := Idle] \<and> pl_queue pl' = pl_queue pl \<and> w_trace w' = w_trace w)
      \<or> pl' = set_worker i (InFlight k row rest) pl \<and> w_trace w' = w_trace w @ [TDeliver (event_of row)]"
    using run
    by (auto simp: start_row_def bindE_Inr nowE_def traceE_Inr retE_Inr split: option.splits if_splits)
  then show ?thesis
  proof (elim disjE conjE)
    assume a: "pl_workers pl' = (pl_workers pl)[i := Idle]" "pl_queue pl' = pl_queue pl" "w_trace w' = w_trace w"
    have "set (pl_queue pl') \<subseteq> set groups" using inv a by (auto simp: ord_inv_def)
    then show ?thesis using a by (intro ord_inv_step [OF inv quiet_same, where wk = Idle and i = i]) auto
  next
    assume "pl' = set_worker i (InFlight k row rest) pl" "w_trace w' = w_trace w @ [TDeliver (event_of row)]"
    then show ?thesis using ord_inv_deliver [OF inv d wk] by simp
  qed
qed

lemma finish_row_ord:
  assumes inv: "ord_inv groups w0 pl w"
    and wk: "pl_workers pl ! i = InFlight k row rest" "i < length (pl_workers pl)"
    and run: "finish_row en dd l i k row rest pl w = (Inr pl', w')"
  shows "ord_inv groups w0 pl' w'"
proof -
  have q: "quiet w w'" using quiet_finish_row run by (rule preservesD)
  obtain T where T: "w_trace w = w_trace w0 @ T" "set (pl_queue pl) \<subseteq> set groups" "\<forall>wk \<in> set (pl_workers pl). at_ok groups T wk"
    using inv by (auto simp: ord_inv_def)
  have "at_ok groups T (InFlight k row rest)" using T(3) wk nth_mem by metis
  then obtain before where b: "(k, before @ row # rest) \<in> set groups" "\<forall>r \<in> set before. settled T r" by auto
  have "moved i pl pl'" using finish_row_moved [OF wk(1)] run by (rule yieldsD)
  then obtain x where x: "pl_workers pl' = (pl_workers pl)[i := x]" "moves (InFlight k row rest) (pl_queue pl) x (pl_queue pl')"
    using wk(1) by (auto simp: moved_def)
  then have "pl_queue pl' = pl_queue pl \<and> (x = Done \<or> x = Idle \<or> x = AtGroup k rest)"
    by (auto elim: moves.cases)
  moreover have "at_ok groups T' x" if t: "w_trace w' = w_trace w0 @ T'" and c: "x = Done \<or> x = Idle \<or> x = AtGroup k rest" for T'
  proof -
    have "settled T' row" if "x = AtGroup k rest"
      by (rule finish_row_settled_new [OF run wk(2) _ t T(1)]) (use that x(1) wk(2) in simp)
    moreover obtain S where "T' = T @ S" using q T(1) t by (auto simp: quiet_def)
    ultimately show ?thesis using c b by (fastforce intro: settled_extend exI [of _ "before @ [row]"])
  qed
  ultimately show ?thesis using T(2) x(1) by (intro ord_inv_step [OF inv q]) auto
qed

lemma worker_step_ord:
  assumes inv: "ord_inv groups w0 pl w" and d: "distinct (map rid (concat (map snd groups)))"
    and i: "i \<in> set (live_workers pl)" and run: "worker_step en dd l i pl w = (Inr pl', w')"
  shows "ord_inv groups w0 pl' w'"
proof -
  have len: "i < length (pl_workers pl)" and nd: "pl_workers pl ! i \<noteq> Done" using i by (auto simp: live_workers_iff)
  have queue: "set (pl_queue pl) \<subseteq> set groups" using inv by (auto simp: ord_inv_def)
  let ?stop = "w_aborted w \<or> dr_halted (pl_result pl)"
  have same: "ord_inv groups w0 (set_worker i wk pl) w" if "\<And>T. at_ok groups T wk" for wk
    using queue that by (intro ord_inv_step [OF inv quiet_same, where i = i and wk = wk]) auto
  show ?thesis
  proof (cases "pl_workers pl ! i")
    case Idle
    show ?thesis
    proof (cases "pl_queue pl")
      case Nil
      then show ?thesis using run Idle same [of Done]
        by (auto simp: worker_step_def Let_def abortedE_def getsE_def bindE_Inr retE_Inr)
    next
      case (Cons g rest)
      obtain k rows where g: "g = (k, rows)" by (cases g)
      let ?wk = "if ?stop then Done else AtGroup k rows"
      have pl': "pl' = set_worker i ?wk (pl\<lparr>pl_queue := rest\<rparr>)" "w' = w"
        using run Idle Cons g by (auto simp: worker_step_def Let_def abortedE_def getsE_def bindE_Inr retE_Inr)
      have "(k, rows) \<in> set groups" using queue Cons g by simp
      then have "at_ok groups T ?wk" for T by (auto intro: exI [of _ "[]"])
      then show ?thesis using pl' queue Cons
        by (intro ord_inv_step [OF inv quiet_same, where i = i and wk = ?wk]) auto
    qed
  next
    case (AtGroup k rows)
    then show ?thesis using run same [of Idle] same [of Done] start_row_ord [OF inv d _ len]
      by (auto simp: worker_step_def Let_def abortedE_def getsE_def bindE_Inr retE_Inr split: list.splits if_splits)
  next
    case (InFlight k row rest)
    then have "finish_row en dd l i k row rest pl w = (Inr pl', w')"
      using run by (auto simp: worker_step_def Let_def abortedE_def getsE_def bindE_Inr)
    then show ?thesis by (rule finish_row_ord [OF inv InFlight len])
  qed (use nd in simp)
qed

lemma worker_step_fails_quiet:
  assumes "worker_step en dd l i pl w = (Inl e, w')"
  shows "quiet w w'"
proof (cases "pl_workers pl ! i")
  case (InFlight k row rest)
  then have "finish_row en dd l i k row rest pl w = (Inl e, w')"
    using assms by (simp add: worker_step_def abortedE_def getsE_def bindE_def Let_def)
  then show ?thesis by (rule preservesD [OF quiet_finish_row])
qed (use assms in \<open>auto simp: worker_step_def abortedE_def getsE_def bindE_def Let_def retE_def start_row_def nowE_def
      traceE_def modifyE_def split: list.splits if_splits option.splits\<close>)

lemma pool_step_ord:
  assumes inv: "ord_inv groups w0 pl w" and d: "distinct (map rid (concat (map snd groups)))"
    and run: "pool_step en dd l failed pl w = Some (failed', pl', w')"
  shows "ord_inv groups w0 pl' w'"
proof -
  have tick: "ord_inv groups w0 pl (tick en w)" using inv by (simp add: ord_inv_tick)
  obtain i r where i: "i \<in> set (live_workers pl)" "worker_step en dd l i pl (tick en w) = (r, w')"
    "case r of Inr p \<Rightarrow> pl' = p | Inl e \<Rightarrow> pl' = set_worker i Done pl"
    using run by (rule pool_stepE)
  show ?thesis
  proof (cases r)
    case (Inr p)
    then show ?thesis using worker_step_ord [OF tick d i(1)] i(2,3) by simp
  next
    case (Inl e)
    have "set (pl_queue pl) \<subseteq> set groups" using inv by (auto simp: ord_inv_def)
    then show ?thesis using i(2,3) Inl
      by (intro ord_inv_step [OF tick worker_step_fails_quiet, where i = i and wk = Done]) auto
  qed
qed

text \<open>The groups of a slice: the rows of each ordering key in the order of the slice.\<close>

lemma group_rows_spec:
  "\<lbrakk> group_rows p rows groups = Inr out; distinct (map fst groups) \<rbrakk> \<Longrightarrow>
     distinct (map fst out)
   \<and> (\<forall>k. opt_or (map_of out k) [] = opt_or (map_of groups k) [] @ filter (\<lambda>r. ordering_key p r = Inr k) rows)
   \<and> (\<forall>r \<in> set rows. \<exists>k. ordering_key p r = Inr k \<and> map_of out k \<noteq> None) \<and> (\<forall>k. map_of groups k \<noteq> None \<longrightarrow> map_of out k \<noteq> None)"
proof (induction p rows groups rule: group_rows.induct)
  case (2 p row rows groups)
  obtain k where k: "ordering_key p row = Inr k"
    using "2.prems"(1) by (cases "ordering_key p row") (auto simp: bindR_def)
  let ?g = "AList.update k (opt_or (map_of groups k) [] @ [row]) groups"
  have "group_rows p rows ?g = Inr out" using "2.prems"(1) k by (simp add: bindR_def)
  from "2.IH" [OF this distinct_keys_update [OF "2.prems"(2)]] k show ?case
    by (auto split: if_splits)
qed simp

lemma groups_filter:
  assumes "groupByOrderingKey p rows = Inr groups"
  shows "distinct (map fst groups)" "(k, xs) \<in> set groups \<Longrightarrow> xs = filter (\<lambda>r. ordering_key p r = Inr k) rows"
    "r \<in> set rows \<Longrightarrow> \<exists>k xs. ordering_key p r = Inr k \<and> (k, xs) \<in> set groups"
proof -
  note spec = group_rows_spec [OF assms [unfolded groupByOrderingKey_def]]
  show d: "distinct (map fst groups)" using spec by simp
  show "xs = filter (\<lambda>r. ordering_key p r = Inr k) rows" if "(k, xs) \<in> set groups"
    using spec d that by simp (metis map_of_eq_Some_iff opt_or_simps(2))
  show "\<exists>k xs. ordering_key p r = Inr k \<and> (k, xs) \<in> set groups" if "r \<in> set rows"
    using spec d that by (metis map_of_eq_Some_iff not_None_eq list.distinct(1) distinct.simps(1) list.map(1))
qed

lemma filter_positions:
  assumes "i < j" "j < length xs" "P (xs ! i)" "P (xs ! j)"
  obtains i' j' where "i' < j'" "j' < length (filter P xs)" "filter P xs ! i' = xs ! i" "filter P xs ! j' = xs ! j"
proof
  have split: "xs = take m xs @ xs ! m # drop (Suc m) xs" if "m < length xs" for m using that by (rule id_take_nth_drop)
  have nth: "filter P xs ! length (filter P (take m xs)) = xs ! m \<and> length (filter P (take m xs)) < length (filter P xs)"
    if "m < length xs" "P (xs ! m)" for m
    by (subst (1 3) split [OF that(1)]) (simp add: that(2) nth_append, subst split [OF that(1)], simp add: that(2))
  show "length (filter P (take i xs)) < length (filter P (take j xs))"
  proof -
    have "take j xs = take i xs @ xs ! i # drop (Suc i) (take j xs)"
      using assms(1,2) id_take_nth_drop [of i "take j xs"] by (simp add: min_def)
    then have "filter P (take j xs) = filter P (take i xs) @ xs ! i # filter P (drop (Suc i) (take j xs))"
      using assms(3) by (metis filter.simps(2) filter_append)
    then show ?thesis by simp
  qed
  show "length (filter P (take j xs)) < length (filter P xs)" "filter P xs ! length (filter P (take i xs)) = xs ! i"
    "filter P xs ! length (filter P (take j xs)) = xs ! j"
    using nth assms by auto
qed

lemma concat_open_groups:
  assumes g: "groupByOrderingKey p rows = Inr all_groups" and d: "distinct (map rid rows)"
  shows "distinct (map rid (concat (map snd (open_groups held blocked all_groups))))"
proof -
  have d1: "distinct (map fst gs) \<Longrightarrow> (\<And>k xs. (k, xs) \<in> set gs \<Longrightarrow> xs = filter (\<lambda>r. ordering_key p r = Inr k) rows)
      \<Longrightarrow> distinct (map rid (concat (map snd gs)))" for gs :: "group list"
  proof (induction gs)
    case (Cons a gs)
    obtain k xs where a: "a = (k, xs)" by (cases a)
    have xs: "xs = filter (\<lambda>r. ordering_key p r = Inr k) rows" using Cons.prems(2) a by simp
    have ih: "distinct (map rid (concat (map snd gs)))" using Cons by simp
    have rest: "\<exists>k'. k' \<noteq> k \<and> ordering_key p r = Inr k' \<and> r \<in> set rows" if r: "r \<in> set (concat (map snd gs))" for r
    proof -
      obtain k' ys where ys: "(k', ys) \<in> set gs" "r \<in> set ys" using r by auto
      have "ys = filter (\<lambda>r. ordering_key p r = Inr k') rows" using Cons.prems(2) ys(1) by simp
      moreover have "k' \<noteq> k" using Cons.prems(1) a ys(1) by force
      ultimately show ?thesis using ys(2) by auto
    qed
    have inj: "inj_on rid (set rows)" using d by (simp add: distinct_map)
    have "rid x \<noteq> rid y" if "x \<in> set xs" "y \<in> set (concat (map snd gs))" for x y
      using inj_onD [OF inj, of x y] rest [OF that(2)] that(1) xs by auto
    then have "rid ` set xs \<inter> rid ` set (concat (map snd gs)) = {}" by blast
    moreover have "distinct (map rid xs)" using d xs distinct_map_filter by auto
    ultimately show ?case using ih a by auto
  qed simp
  show ?thesis
    by (rule d1) (use groups_filter [OF g] in \<open>auto simp: open_groups_def intro: distinct_map_filter\<close>)
qed

text \<open>C4: Within one slice of a drain, events of one ordering key are delivered in order whatever the workers'
  interleaving and whatever fails: when an event is handed to the consumer, every earlier row of the slice with
  the same ordering key has already been acknowledged or parked.\<close>

theorem delivery_in_order:
  assumes groups: "groupByOrderingKey p rows = Inr all_groups" and "distinct (map rid rows)"
    and run: "run_pool en dd l None (start_pool p (open_groups held blocked all_groups) result blocked) w = (r, w')"
    and T: "w_trace w' = w_trace w @ T" "n < length T" "T ! n = TDeliver (event_of (rows ! j))"
    and ij: "i < j" "j < length rows" "ordering_key p (rows ! i) = ordering_key p (rows ! j)"
    and picked: "ordering_key p (rows ! j) = Inr k" "k \<notin> held" "k \<notin> set blocked"
  shows "settled (take n T) (rows ! i)"
proof -
  let ?gs = "open_groups held blocked all_groups"
  let ?xs = "filter (\<lambda>r. ordering_key p r = Inr k) rows"
  have d: "distinct (map rid (concat (map snd ?gs)))" using concat_open_groups [OF groups assms(2)] .
  have "ord_inv ?gs w (start_pool p ?gs result blocked) w" by (auto simp: ord_inv_def start_pool_def in_order_def)
  then obtain pl' where "ord_inv ?gs w pl' w'"
    by (rule run_pool_inv [where I = "\<lambda>_ pl u. ord_inv ?gs w pl u" and en = en and dd = dd and l = l and failed = None
          and w = w, rotated]) (use run pool_step_ord [OF _ d] in auto)
  then have ord: "in_order T (snd g)" if "g \<in> set ?gs" for g using T(1) that by (auto simp: ord_inv_def)
  obtain ks where ks: "(k, ks) \<in> set all_groups" using groups_filter(3) [OF groups, of "rows ! j"] ij(2) picked(1) by auto
  then have "(k, ?xs) \<in> set ?gs" using picked groups_filter(2) [OF groups ks] by (simp add: open_groups_def)
  from ord [OF this] have xs: "in_order T ?xs" by simp
  obtain i' j' where "i' < j'" "j' < length ?xs" "?xs ! i' = rows ! i" "?xs ! j' = rows ! j"
    by (rule filter_positions [OF ij(1,2), of "\<lambda>r. ordering_key p r = Inr k"]) (use ij(3) picked(1) in auto)
  with xs T(2,3) show ?thesis by (metis in_order_def)
qed

definition sample_env :: env where
  "sample_env = \<lparr>e_now = \<lambda>_. 0, e_random = \<lambda>_. 0, e_abort = \<lambda>_. False, e_fail = \<lambda>_. None, e_others = \<lambda>_ st. st,
     e_beat = \<lambda>_. False, e_deliver = \<lambda>_ _. None, e_fetch = \<lambda>_ _. [], e_sched = \<lambda>_. 0,
     e_partitions = \<lambda>_ _. Inr VUndef, e_reason = plainError ''Error'' ''watukuy: engine stopped'', e_fuel = 50\<rparr>"

definition sample_store :: store where
  "sample_store = fold exec [Acquire sample_key ''a'' 10 0, Commit sample_key lease_a sample_batch] []"

definition sample_world :: world where
  "sample_world = \<lparr>w_store = sample_store, w_tick = 0, w_outer = False, w_aborted = False, w_keeper = None, w_trace = [], w_exhausted = False\<rparr>"

definition sample_deps :: dispatcher_deps where
  "sample_deps = \<lparr>dd_poller = sample_poller, dd_key = sample_key, dd_batch = 10\<rparr>"

definition sample_rows :: "outbox_row list" where
  "sample_rows = [sample_row ''e1'' 1, sample_row ''e2'' 2]"

definition sample_run :: "(thrown + pool) \<times> world" where
  "sample_run = run_pool sample_env sample_deps lease_a None
     (start_pool sample_poller (open_groups {} [] [(''o1'', sample_rows)]) empty_drain []) sample_world"

lemma sample_run_trace:
  "length (w_trace (snd sample_run)) = 6" "w_trace (snd sample_run) ! 3 = TDeliver (event_of (sample_rows ! 1))"
  by code_simp+

theorem delivery_in_order_witness: "settled (take 3 (w_trace (snd sample_run))) (sample_row ''e1'' 1)"
proof -
  have g: "groupByOrderingKey sample_poller sample_rows = Inr [(''o1'', sample_rows)]" by code_simp
  have d: "distinct (map rid sample_rows)" by code_simp
  have r: "run_pool sample_env sample_deps lease_a None
     (start_pool sample_poller (open_groups {} [] [(''o1'', sample_rows)]) empty_drain []) sample_world
     = (fst sample_run, snd sample_run)" by (simp add: sample_run_def)
  have t: "w_trace (snd sample_run) = w_trace sample_world @ w_trace (snd sample_run)" by (simp add: sample_world_def)
  have k: "ordering_key sample_poller (sample_rows ! 1) = Inr ''o1''"
    "ordering_key sample_poller (sample_rows ! 0) = ordering_key sample_poller (sample_rows ! 1)" by code_simp+
  have "settled (take 3 (w_trace (snd sample_run))) (sample_rows ! 0)"
    by (rule delivery_in_order [OF g d r t _ sample_run_trace(2) _ _ k(2,1)]) (simp_all add: sample_run_trace sample_rows_def)
  then show ?thesis by (simp add: sample_rows_def)
qed

end
