(* ===== verification/Delivery.thy ===== *)
theory Delivery
  imports Dispatcher
begin

text \<open>
  At-least-once delivery: what a drain of the outbox (\<^verbatim>\<open>src/core/dispatcher.ts\<close>) does to the events of its key,
  whatever the interleaving of its workers, whatever fails and whatever others add meanwhile, and that a drain
  that nobody interferes with ends.
\<close>

section \<open>Well-formed records\<close>

definition rec_ok :: "key_record \<Rightarrow> bool" where
  "rec_ok r \<longleftrightarrow> rec_wf r \<and> distinct (map fst (kr_outbox r))"

lemma retry_loop_distinct:
  "distinct (map fst (kr_outbox r)) \<Longrightarrow> distinct (map fst (kr_outbox (snd (retry_loop ids n r))))"
  by (induction ids n r rule: retry_loop.induct)
    (auto simp: distinct_keys_update split: option.splits parked_kind.splits prod.splits)

lemma discard_loop_outbox: "kr_outbox (snd (discard_loop ids n r)) = kr_outbox r"
  by (induction ids n r rule: discard_loop.induct) auto

lemma exec_distinct:
  assumes "distinct (map fst (kr_outbox (rec_of st k)))"
  shows "distinct (map fst (kr_outbox (rec_of (exec c st) k)))"
proof (cases "k = cmd_key c")
  case False
  then show ?thesis using assms by (simp add: exec_other_key)
next
  case key: True
  show ?thesis
  proof (cases "is_delete c")
    case True
    then obtain k' where "c = DeleteKey k'" by (cases c) auto
    with key show ?thesis
      by (simp add: deleteKey_def modifyE_def rec_of_def peek_def fresh_record_def)
  next
    case False
    then show ?thesis
      by (cases c) (use key assms in \<open>auto simp: acquire_rec renew_rec release_rec retry_rec discard_rec clear_rec prune_rec
        saveState_def saveStateUnfenced_def with_record_rec setValidator_def commitPoll_def ackEvents_def parkEvent_def
        recordAttempt_def fenced_rec commit_record_def applyPatch_def Let_def distinct_set_all distinct_delete_all
        distinct_keys_update distinct_keys_delete retry_loop_distinct discard_loop_outbox split: option.splits\<close>)
  qed
qed

lemma exec_ok: "cmd_wf c \<Longrightarrow> rec_ok (rec_of st k) \<Longrightarrow> rec_ok (rec_of (exec c st) k)"
  by (simp add: rec_ok_def exec_wf exec_distinct)

lemma exec_ok_keeps:
  "\<lbrakk> cmd_wf c; \<not> removes_events c; rec_ok (rec_of st k) \<rbrakk>
    \<Longrightarrow> rec_ok (rec_of (exec c st) k) \<and> undelivered (rec_of st k) \<subseteq> undelivered (rec_of (exec c st) k)"
  using exec_keeps by (auto simp: rec_ok_def exec_distinct)

text \<open>The environment never removes an event of a key: others may commit, retry, park and take leases, as long as
  they acknowledge and discard nothing.\<close>

definition keeps_events :: "env \<Rightarrow> bool" where
  "keeps_events en \<longleftrightarrow> (\<forall>n st k. rec_ok (rec_of st k) \<longrightarrow> rec_ok (rec_of (e_others en n st) k)
     \<and> undelivered (rec_of st k) \<subseteq> undelivered (rec_of (e_others en n st) k))"

lemma alone_keeps_events: "alone en \<Longrightarrow> keeps_events en"
  by (simp add: alone_def keeps_events_def)

lemma commands_keep_events:
  assumes "\<And>n st. e_others en n st = fold exec (cmds n) st"
    "\<And>n. list_all cmd_wf (cmds n)" "\<And>n. list_all (\<lambda>c. \<not> removes_events c) (cmds n)"
  shows "keeps_events en"
proof -
  have "rec_ok (rec_of (fold exec cs st) k) \<and> undelivered (rec_of st k) \<subseteq> undelivered (rec_of (fold exec cs st) k)"
    if "list_all cmd_wf cs" "list_all (\<lambda>c. \<not> removes_events c) cs" "rec_ok (rec_of st k)" for cs st k
    using that
  proof (induction cs arbitrary: st)
    case (Cons c cs)
    then have "rec_ok (rec_of (exec c st) k)" "undelivered (rec_of st k) \<subseteq> undelivered (rec_of (exec c st) k)"
      using exec_ok_keeps [of c st k] by auto
    then show ?case using Cons.IH [of "exec c st"] Cons.prems by auto
  qed simp
  then show ?thesis using assms by (simp add: keeps_events_def)
qed

section \<open>Nothing leaves without an answer\<close>

definition accepted :: "trace list \<Rightarrow> string \<Rightarrow> bool" where
  "accepted T i \<longleftrightarrow> (\<exists>ev. ev_id ev = i \<and> TOutcome ev True \<in> set T)"

definition kept :: "string set \<Rightarrow> pkey \<Rightarrow> world \<Rightarrow> world \<Rightarrow> bool" where
  "kept X key w w' \<longleftrightarrow> (rec_ok (rec_of (w_store w) key) \<longrightarrow> rec_ok (rec_of (w_store w') key)
     \<and> (\<exists>T. w_trace w' = w_trace w @ T
         \<and> (\<forall>i \<in> undelivered (rec_of (w_store w) key). i \<in> undelivered (rec_of (w_store w') key) \<or> i \<in> X \<or> accepted T i)))"

lemma accepted_append: "accepted (T @ U) i \<longleftrightarrow> accepted T i \<or> accepted U i"
  by (auto simp: accepted_def)

lemma kept_trans: "kept X key u v \<Longrightarrow> kept X key v w \<Longrightarrow> kept X key u w"
proof -
  assume uv: "kept X key u v" and vw: "kept X key v w"
  show ?thesis
    unfolding kept_def
  proof (intro impI conjI)
    assume ok: "rec_ok (rec_of (w_store u) key)"
    then have v: "rec_ok (rec_of (w_store v) key)" using uv by (simp add: kept_def)
    then show "rec_ok (rec_of (w_store w) key)" using vw by (simp add: kept_def)
    obtain T where T: "w_trace v = w_trace u @ T"
      "\<forall>i \<in> undelivered (rec_of (w_store u) key). i \<in> undelivered (rec_of (w_store v) key) \<or> i \<in> X \<or> accepted T i"
      using uv ok by (auto simp: kept_def)
    obtain U where U: "w_trace w = w_trace v @ U"
      "\<forall>i \<in> undelivered (rec_of (w_store v) key). i \<in> undelivered (rec_of (w_store w) key) \<or> i \<in> X \<or> accepted U i"
      using vw v by (auto simp: kept_def)
    show "\<exists>T. w_trace w = w_trace u @ T \<and> (\<forall>i \<in> undelivered (rec_of (w_store u) key).
        i \<in> undelivered (rec_of (w_store w) key) \<or> i \<in> X \<or> accepted T i)"
      using T U by (intro exI [of _ "T @ U"]) (auto simp: accepted_append)
  qed
qed

interpretation kept: frame_rel "kept X key" for X key
proof unfold_locales
  show "kept X key w w" for w by (simp add: kept_def)
  show "kept X key u v \<Longrightarrow> kept X key v w \<Longrightarrow> kept X key u w" for u v w by (rule kept_trans)
qed

lemma kept_same: "w_store w' = w_store w \<Longrightarrow> w_trace w' = w_trace w \<Longrightarrow> kept X key w w'"
  by (simp add: kept_def)

lemma kept_mono: "kept {} key w w' \<Longrightarrow> kept X key w w'"
  by (fastforce simp: kept_def)

definition safe_op :: "string set \<Rightarrow> pkey \<Rightarrow> 'a store_op \<Rightarrow> bool" where
  "safe_op X key op \<longleftrightarrow> (\<forall>st. rec_ok (rec_of st key) \<longrightarrow> rec_ok (rec_of (snd (op st)) key)
     \<and> undelivered (rec_of st key) \<subseteq> undelivered (rec_of (snd (op st)) key) \<union> X)"

lemma safe_gets: "safe_op X key (getsE f)"
  by (auto simp: safe_op_def)

lemma safe_cmd: "\<lbrakk> cmd_wf c; \<not> removes_events c; \<And>st. snd (op st) = exec c st \<rbrakk> \<Longrightarrow> safe_op X key op"
  using exec_ok_keeps by (fastforce simp: safe_op_def)

lemma safe_reads [simp, intro]:
  "safe_op X key (loadState k)" "safe_op X key (loadVersions k ids)" "safe_op X key (streamIdentities k n)"
  "safe_op X key (loadPending k n)" "safe_op X key (countPending k)" "safe_op X key (heldKeys k)"
  "safe_op X key (getValidator k h)" "safe_op X key (getLease k)" "safe_op X key (countItems k)"
  unfolding loadState_def loadVersions_def streamIdentities_def loadPending_def countPending_def heldKeys_def
    getValidator_def getLease_def countItems_def
  by (rule safe_gets)+

lemma safe_writes [simp, intro]:
  "safe_op X key (renewLease k l t n)" "safe_op X key (releaseLease k l)" "safe_op X key (acquireLease k own t n)"
  "safe_op X key (saveState k l patch)" "safe_op X key (recordAttempt k l i e due)" "safe_op X key (setValidator k l h v)"
  by (auto intro: safe_cmd [of "Renew k l t n"] safe_cmd [of "Release k l"] safe_cmd [of "Acquire k own t n"]
      safe_cmd [of "Save k l patch"] safe_cmd [of "Attempt k l i e due"] safe_cmd [of "SetVal k l h v"])

lemma safe_park: "cmd_wf (ParkRow k l row) \<Longrightarrow> safe_op X key (parkEvent k l row)"
  by (rule safe_cmd [of "ParkRow k l row"]) simp_all

lemma safe_commit: "cmd_wf (Commit k l b) \<Longrightarrow> safe_op X key (commitPoll k l b)"
  by (rule safe_cmd [of "Commit k l b"]) simp_all

lemma safe_ack: "safe_op (set ids) key (ackEvents k l ids)"
  unfolding safe_op_def
proof (intro allI impI conjI)
  fix st
  assume ok: "rec_ok (rec_of st key)"
  have "rec_ok (rec_of (exec (Ack k l ids) st) key)" using ok by (intro exec_ok) simp_all
  then show "rec_ok (rec_of (snd (ackEvents k l ids st)) key)" by simp
  show "undelivered (rec_of st key) \<subseteq> undelivered (rec_of (snd (ackEvents k l ids st)) key) \<union> set ids"
    by (auto simp: ackEvents_def fenced_rec undelivered_def map_of_delete_all)
qed

lemma kept_raw:
  assumes "keeps_events en" "safe_op X key op"
  shows "preserves (kept X key) (raw_store en op)"
proof (rule preservesI)
  fix w r w'
  assume run: "raw_store en op w = (r, w')"
  let ?st = "e_others en (w_tick w) (w_store w)"
  have st: "w_trace w' = w_trace w" "w_store w' = ?st \<or> w_store w' = snd (op ?st)"
    using run by (auto simp: raw_store_def Let_def split: option.splits prod.splits)
  show "kept X key w w'"
    unfolding kept_def
  proof (intro impI)
    assume "rec_ok (rec_of (w_store w) key)"
    then have o: "rec_ok (rec_of ?st key)" "undelivered (rec_of (w_store w) key) \<subseteq> undelivered (rec_of ?st key)"
      using assms(1) by (auto simp: keeps_events_def)
    then have "rec_ok (rec_of (snd (op ?st)) key)" "undelivered (rec_of ?st key) \<subseteq> undelivered (rec_of (snd (op ?st)) key) \<union> X"
      using assms(2) by (auto simp: safe_op_def)
    with o st show "rec_ok (rec_of (w_store w') key) \<and> (\<exists>T. w_trace w' = w_trace w @ T \<and>
        (\<forall>i \<in> undelivered (rec_of (w_store w) key). i \<in> undelivered (rec_of (w_store w') key) \<or> i \<in> X \<or> accepted T i))"
      by auto
  qed
qed

lemma kept_basic:
  "preserves (kept X key) (nowE en)" "preserves (kept X key) (randomE en)" "preserves (kept X key) (modifyE (tick en))"
  "preserves (kept X key) abortedE" "preserves (kept X key) keeper_lost" "preserves (kept X key) (liftR r)"
  "preserves (kept X key) (modifyE (\<lambda>w. w\<lparr>w_exhausted := True\<rparr>))"
  by (auto simp: preserves_def nowE_def randomE_def modifyE_def abortedE_def getsE_def keeper_lost_def liftR_def throwE_def
      retE_def tick_def intro: kept_same split: sum.splits)

lemma kept_trace: "preserves (kept X key) (traceE t)"
  by (auto simp: traceE_def kept_def intro!: kept.pres_modify)

lemma kept_beat: "keeps_events en \<Longrightarrow> preserves (kept X key) (beat en)"
  unfolding beat_def keeper_renew_def
  by (intro kept.pres_rules kept_basic kept_raw safe_writes kept.pres_modify kept_same) simp_all

lemma kept_call: "keeps_events en \<Longrightarrow> safe_op X key op \<Longrightarrow> preserves (kept X key) (callS en op)"
  unfolding callS_def by (intro kept.pres_rules kept_beat kept_raw)

lemma kept_renewNow: "keeps_events en \<Longrightarrow> preserves (kept X key) (renewNow en)"
  unfolding renewNow_def keeper_renew_def
  by (intro kept.pres_rules kept_basic kept_raw safe_writes)

text \<open>The rows that a drain handles carry their event under its own identifier.\<close>

definition good_row :: "outbox_row \<Rightarrow> bool" where
  "good_row row \<longleftrightarrow> row_ok (ob_eventId row) row"

lemma kept_acknowledge:
  assumes "keeps_events en"
  shows "preserves (kept {} key) (bindE (traceE (TOutcome ev True)) (\<lambda>_. callS en (ackEvents key l [ev_id ev])))"
proof (rule preservesI)
  fix w r w'
  assume run: "bindE (traceE (TOutcome ev True)) (\<lambda>_. callS en (ackEvents key l [ev_id ev])) w = (r, w')"
  let ?w1 = "w\<lparr>w_trace := w_trace w @ [TOutcome ev True]\<rparr>"
  have "safe_op {ev_id ev} key (ackEvents key l [ev_id ev])" using safe_ack [of "[ev_id ev]"] by simp
  then have pres: "preserves (kept {ev_id ev} key) (callS en (ackEvents key l [ev_id ev]))"
    by (rule kept_call [OF assms])
  have "callS en (ackEvents key l [ev_id ev]) ?w1 = (r, w')"
    using run by (simp add: bindE_def traceE_def modifyE_def)
  with pres have k: "kept {ev_id ev} key ?w1 w'" by (rule preservesD)
  show "kept {} key w w'"
    unfolding kept_def
  proof (intro impI)
    assume "rec_ok (rec_of (w_store w) key)"
    then obtain T where "rec_ok (rec_of (w_store w') key)" "w_trace w' = w_trace w @ TOutcome ev True # T"
      "\<forall>i \<in> undelivered (rec_of (w_store w) key). i \<in> undelivered (rec_of (w_store w') key) \<or> i = ev_id ev \<or> accepted T i"
      using k by (auto simp: kept_def)
    then show "rec_ok (rec_of (w_store w') key) \<and> (\<exists>T. w_trace w' = w_trace w @ T \<and> (\<forall>i \<in> undelivered (rec_of (w_store w) key).
        i \<in> undelivered (rec_of (w_store w') key) \<or> i \<in> {} \<or> accepted T i))"
      by (intro conjI exI [of _ "TOutcome ev True # T"]) (auto simp: accepted_def)
  qed
qed

lemma deliver_and_ack_alt:
  "deliver_and_ack en dd l row = bindE (getsE (\<lambda>w. e_deliver en (w_tick w) (event_of row))) (\<lambda>answer.
     bindE (modifyE (tick en)) (\<lambda>_. case answer of
       Some err \<Rightarrow> bindE (traceE (TOutcome (event_of row) False)) (\<lambda>_. throwE err)
     | None \<Rightarrow> bindE (traceE (TOutcome (event_of row) True)) (\<lambda>_. callS en (ackEvents (dd_key dd) l [ob_eventId row]))))"
  unfolding deliver_and_ack_def by (intro arg_cong2 [where f = bindE] refl ext) (auto split: option.splits)

lemma kept_deliver:
  assumes "keeps_events en" "good_row row"
  shows "preserves (kept {} (dd_key dd)) (deliver_and_ack en dd l row)"
proof -
  have i: "ob_eventId row = ev_id (event_of row)" using assms(2) by (simp add: good_row_def row_ok_def event_of_def)
  have refuse: "preserves (kept {} (dd_key dd)) (bindE (traceE (TOutcome (event_of row) False)) (\<lambda>_. throwE err :: unit wio))" for err
    by (intro kept.pres_bind kept_trace kept.pres_throw)
  have "preserves (kept {} (dd_key dd)) (case answer of
       Some err \<Rightarrow> bindE (traceE (TOutcome (event_of row) False)) (\<lambda>_. throwE err)
     | None \<Rightarrow> bindE (traceE (TOutcome (event_of row) True)) (\<lambda>_. callS en (ackEvents (dd_key dd) l [ev_id (event_of row)])))" for answer
    by (rule kept.pres_option [OF kept_acknowledge [OF assms(1)] refuse])
  then show ?thesis unfolding deliver_and_ack_alt i by (intro kept.pres_bind kept.pres_gets kept_basic)
qed

lemma kept_finish_row:
  assumes "keeps_events en" "good_row row"
  shows "preserves (kept {} (dd_key dd)) (finish_row en dd l i k row rest pl)"
proof -
  have "cmd_wf (ParkRow (dd_key dd) l (parked_of dd k row err n1 n2))" for err n1 n2
    using assms(2) by (simp add: parked_of_def parked_ok_def good_row_def row_ok_def)
  then have park: "safe_op {} (dd_key dd) (parkEvent (dd_key dd) l (parked_of dd k row err n1 n2))" for err n1 n2
    by (rule safe_park)
  show ?thesis unfolding finish_row_def handle_failure_def Let_def
    by (intro kept.pres_rules kept_basic kept_trace kept_call pres_try kept_deliver assms park safe_writes)
qed

lemma kept_start_row: "preserves (kept {} key) (start_row en i k row rest pl)"
  unfolding start_row_def by (intro kept.pres_rules kept_basic kept_trace)

definition good_pool :: "pool \<Rightarrow> bool" where
  "good_pool pl \<longleftrightarrow> (\<forall>g \<in> set (pl_queue pl). \<forall>row \<in> set (snd g). good_row row)
     \<and> (\<forall>wk \<in> set (pl_workers pl). case wk of AtGroup k rows \<Rightarrow> \<forall>row \<in> set rows. good_row row
          | InFlight k row rest \<Rightarrow> good_row row \<and> (\<forall>r \<in> set rest. good_row r) | _ \<Rightarrow> True)"

lemma good_pool_moved:
  assumes "good_pool pl" "i < length (pl_workers pl)" "moved i pl pl'"
  shows "good_pool pl'"
proof -
  obtain wk where wk: "pl_workers pl' = (pl_workers pl)[i := wk]" "moves (pl_workers pl ! i) (pl_queue pl) wk (pl_queue pl')"
    using assms(3) by (auto simp: moved_def)
  have old: "case pl_workers pl ! i of AtGroup k rows \<Rightarrow> \<forall>row \<in> set rows. good_row row
      | InFlight k row rest \<Rightarrow> good_row row \<and> (\<forall>r \<in> set rest. good_row r) | _ \<Rightarrow> True"
    using assms(1,2) by (auto simp: good_pool_def)
  have "(\<forall>g \<in> set (pl_queue pl'). \<forall>row \<in> set (snd g). good_row row)
    \<and> (case wk of AtGroup k rows \<Rightarrow> \<forall>row \<in> set rows. good_row row
          | InFlight k row rest \<Rightarrow> good_row row \<and> (\<forall>r \<in> set rest. good_row r) | _ \<Rightarrow> True)"
    using wk(2) old assms(1) unfolding good_pool_def by cases auto
  then show ?thesis
    using assms(1) set_update_subset_insert [of "pl_workers pl" i wk] unfolding good_pool_def wk(1) by auto
qed

lemma kept_worker_step:
  assumes "keeps_events en" "good_pool pl" "i < length (pl_workers pl)"
  shows "preserves (kept {} (dd_key dd)) (worker_step en dd l i pl)"
proof (cases "pl_workers pl ! i")
  case (InFlight k row rest)
  then have "good_row row" using assms(2,3) nth_mem [OF assms(3)] by (auto simp: good_pool_def)
  then show ?thesis unfolding worker_step_def Let_def InFlight worker.case
    by (intro kept.pres_bind kept_basic kept_finish_row assms)
qed (auto simp: worker_step_def Let_def intro!: kept.pres_bind kept_basic kept.pres_ret kept_start_row split: list.split)

lemma kept_pool_step:
  assumes "keeps_events en" "good_pool pl" and run: "pool_step en dd l failed pl w = Some (failed', pl', w')"
  shows "kept {} (dd_key dd) w w' \<and> good_pool pl'"
proof -
  obtain i where i: "i \<in> set (live_workers pl)" "w' = snd (worker_step en dd l i pl (tick en w))"
    using run by (rule pool_step_world)
  then have "kept {} (dd_key dd) (tick en w) w'"
    using kept_worker_step [OF assms(1,2), of i dd l] by (auto simp: preserves_def live_workers_iff)
  then have "kept {} (dd_key dd) w w'" by (rule kept_trans [OF kept_same, rotated -1]) simp_all
  moreover obtain j where "j \<in> set (live_workers pl)" "moved j pl pl'" using run by (rule pool_step_moved)
  then have "good_pool pl'" using good_pool_moved [OF assms(2)] by (auto simp: live_workers_iff)
  ultimately show ?thesis by simp
qed

lemma kept_run_pool:
  assumes "keeps_events en" "good_pool pl"
  shows "preserves (kept {} (dd_key dd)) (run_pool en dd l failed pl)"
proof (rule preservesI)
  fix w r w'
  assume run: "run_pool en dd l failed pl w = (r, w')"
  show "kept {} (dd_key dd) w w'"
    by (rule run_pool_inv [where I = "\<lambda>_ p u. kept {} (dd_key dd) w u \<and> good_pool p" and en = en and dd = dd and l = l
          and failed = failed and pl = pl and w = w])
      (use run assms kept_pool_step [OF assms(1)] kept.frame_trans [of "{}" "dd_key dd"] kept.frame_refl in \<open>auto 0 4\<close>)
qed

lemma pending_good:
  assumes "rec_ok r" "row \<in> set (pending_rows r)"
  shows "good_row row"
proof -
  obtain i where "(i, row) \<in> set (kr_outbox r)" using assms(2) by (auto simp: pending_rows_def)
  then have "map_of (kr_outbox r) i = Some row" using assms(1) by (simp add: rec_ok_def)
  then have "row_ok i row" using assms(1) by (auto simp: rec_ok_def rec_wf_def)
  then show ?thesis by (simp add: good_row_def row_ok_def)
qed

lemma load_good:
  assumes "keeps_events en" "rec_ok (rec_of (w_store w) key)" "callS en (loadPending key n) w = (Inr rows, w')"
  shows "\<forall>row \<in> set rows. good_row row"
proof -
  obtain w1 u where w1: "whenE (e_beat en (w_tick w)) (beat en) w = (Inr u, w1)" "raw_store en (loadPending key n) w1 = (Inr rows, w')"
    using assms(3) by (auto simp: callS_def bindE_Inr getsE_def)
  have "kept {} key w w1" by (rule preservesD [OF kept.pres_when [OF kept_beat [OF assms(1)]] w1(1)])
  then have ok: "rec_ok (rec_of (e_others en (w_tick w1) (w_store w1)) key)"
    using assms(1,2) by (auto simp: kept_def keeps_events_def)
  let ?st = "e_others en (w_tick w1) (w_store w1)"
  have "rows = (case peek ?st key of None \<Rightarrow> [] | Some r \<Rightarrow> take n (pending_rows r))"
    using w1(2) by (auto simp: raw_store_def loadPending_def getsE_def Let_def split: option.splits)
  then show ?thesis
    using pending_good [OF ok] by (auto simp: rec_of_def split: option.splits dest: in_set_takeD)
qed

lemma kept_bind_ok:
  assumes "preserves (kept X key) m"
    "\<And>w x w1. rec_ok (rec_of (w_store w) key) \<Longrightarrow> m w = (Inr x, w1) \<Longrightarrow> Q x"
    "\<And>x. Q x \<Longrightarrow> preserves (kept X key) (f x)"
  shows "preserves (kept X key) (bindE m f)"
proof (rule preservesI)
  fix w r w'
  assume run: "bindE m f w = (r, w')"
  show "kept X key w w'"
  proof (cases "rec_ok (rec_of (w_store w) key)")
    case True
    obtain r1 w1 where m: "m w = (r1, w1)" by (cases "m w")
    have k: "kept X key w w1" using assms(1) m by (rule preservesD)
    show ?thesis
    proof (cases r1)
      case (Inr x)
      then have "f x w1 = (r, w')" "Q x" using run m assms(2) [OF True] by (auto simp: bindE_def)
      then show ?thesis using assms(3) k by (blast intro: kept.frame_trans preservesD)
    qed (use run m k in \<open>simp add: bindE_def\<close>)
  qed (simp add: kept_def)
qed

lemma good_start_pool:
  assumes "\<forall>row \<in> set rows. good_row row" "groupByOrderingKey p rows = Inr gs"
  shows "good_pool (start_pool p (open_groups held blocked gs) result bl)"
  using assms groups_filter(2) [OF assms(2)] by (fastforce simp: good_pool_def start_pool_def open_groups_def)

lemma kept_drain_loop:
  "keeps_events en \<Longrightarrow> preserves (kept {} (dd_key dd)) (drain_loop n en dd l window result blocked)"
proof (induction n arbitrary: window result blocked)
  case 0
  show ?case by (simp only: drain_loop.simps) (intro kept.pres_rules kept_basic)
next
  case (Suc n)
  have load: "preserves (kept {} (dd_key dd)) (bindE (callS en (loadPending (dd_key dd) window)) f)"
    if "\<And>rows. \<forall>row \<in> set rows. good_row row \<Longrightarrow> preserves (kept {} (dd_key dd)) (f rows)" for f :: "outbox_row list \<Rightarrow> drain_result wio"
    by (rule kept_bind_ok [OF kept_call [OF Suc.prems safe_reads(4)] load_good [OF Suc.prems]]) (use that in auto)
  have group: "preserves (kept {} (dd_key dd)) (bindE (liftR (groupByOrderingKey (dd_poller dd) rows)) f)"
    if "\<And>gs. groupByOrderingKey (dd_poller dd) rows = Inr gs \<Longrightarrow> preserves (kept {} (dd_key dd)) (f gs)"
    for rows and f :: "group list \<Rightarrow> drain_result wio"
    by (rule kept_bind_ok [OF kept_basic(6), where Q = "\<lambda>gs. groupByOrderingKey (dd_poller dd) rows = Inr gs"])
      (use that in \<open>auto simp: liftR_def retE_def throwE_def split: sum.splits\<close>)
  show ?case
    unfolding drain_loop.simps Let_def
    by (intro kept.pres_bind [OF kept_basic(4)] kept.pres_if kept.pres_ret load group kept.pres_bind [OF kept_call]
        kept.pres_bind [OF kept_run_pool] Suc good_start_pool safe_reads | assumption)+
qed

lemma kept_drainOutbox: "keeps_events en \<Longrightarrow> preserves (kept {} (dd_key dd)) (drainOutbox en dd l hasConsumer)"
  unfolding drainOutbox_def
  by (intro kept.pres_bind kept.pres_if kept_drain_loop kept.pres_ret kept_call safe_reads)

text \<open>C3: At-least-once delivery: in a drain of the outbox, under any interleaving of the workers, any failures of the
  consumer, of the store and of the lease, and whatever commits, retries and leases of others happen in
  between, an event of the key that was pending or parked as poison is still pending or parked afterwards,
  unless the consumer accepted it during this drain.\<close>

theorem drain_at_least_once:
  assumes "keeps_events en" "rec_ok (rec_of (w_store w) (dd_key dd))" "drainOutbox en dd lease hasConsumer w = (res, w')"
    "i \<in> undelivered (rec_of (w_store w) (dd_key dd))"
  shows "i \<in> undelivered (rec_of (w_store w') (dd_key dd))
    \<or> (\<exists>ev. ev_id ev = i \<and> TOutcome ev True \<in> set (drop (length (w_trace w)) (w_trace w')))"
proof -
  have "kept {} (dd_key dd) w w'" using kept_drainOutbox [OF assms(1)] assms(3) by (rule preservesD)
  then show ?thesis using assms(2,4) by (auto simp: kept_def accepted_def)
qed

text \<open>A consumer that refuses every event: it is parked or kept for a retry.\<close>

definition refusing_env :: env where
  "refusing_env = sample_env\<lparr>e_deliver := \<lambda>_ _. Some (typeError ''down'')\<rparr>"

lemma sample_store_ok: "rec_ok (rec_of sample_store sample_key)"
proof -
  have "rec_ok (fresh_record sample_key)" by (simp add: rec_ok_def rec_wf_def fresh_record_def)
  then show ?thesis unfolding sample_store_def
    by (simp del: exec.simps) (intro exec_ok; simp add: sample_batch_def sample_row_def retried_row_def sample_event_def row_ok_def plain_id_def)
qed

theorem drain_at_least_once_witness:
  "''e1'' \<in> undelivered (rec_of (w_store (snd (drainOutbox refusing_env sample_deps lease_a True sample_world))) sample_key)
   \<or> (\<exists>ev. ev_id ev = ''e1'' \<and> TOutcome ev True \<in> set (drop (length (w_trace sample_world))
        (w_trace (snd (drainOutbox refusing_env sample_deps lease_a True sample_world)))))"
proof -
  have "keeps_events refusing_env" by (intro alone_keeps_events) (simp add: alone_def refusing_env_def sample_env_def)
  moreover have "''e1'' \<in> undelivered (rec_of sample_store sample_key)"
    by (simp add: sample_store_def acquire_rec commitPoll_def fenced_rec matches_def lease_a_def undelivered_def
        commit_record_def applyPatch_def Let_def sample_batch_def sample_row_def retried_row_def sample_event_def)
  ultimately show ?thesis
    using drain_at_least_once [of refusing_env sample_world sample_deps lease_a True] sample_store_ok
    by (metis (no_types, lifting) dispatcher_deps.select_convs(2) prod.collapse sample_deps_def sample_world_def world.select_convs(1))
qed

section \<open>A drain ends\<close>

definition outbox_at :: "pkey \<Rightarrow> world \<Rightarrow> string \<Rightarrow> outbox_row option" where
  "outbox_at key w = map_of (kr_outbox (rec_of (w_store w) key))"

definition pend :: "pkey \<Rightarrow> world \<Rightarrow> string set" where
  "pend key w = {i. \<exists>row. outbox_at key w i = Some row \<and> ob_status row = Pending}"

definition touch :: "string set \<Rightarrow> pkey \<Rightarrow> world \<Rightarrow> world \<Rightarrow> bool" where
  "touch X key w w' \<longleftrightarrow> (\<forall>i. i \<notin> X \<longrightarrow> outbox_at key w' i = outbox_at key w i) \<and> w_exhausted w' = w_exhausted w"

interpretation touch: frame_rel "touch X key" for X key
  by unfold_locales (simp_all add: touch_def)

lemma touch_mono: "touch X key w w' \<Longrightarrow> X \<subseteq> Y \<Longrightarrow> touch Y key w w'"
  by (auto simp: touch_def)

lemma touch_same: "w_store w' = w_store w \<Longrightarrow> w_exhausted w' = w_exhausted w \<Longrightarrow> touch X key w w'"
  by (simp add: touch_def outbox_at_def)

definition touches :: "string set \<Rightarrow> pkey \<Rightarrow> 'a store_op \<Rightarrow> bool" where
  "touches X key op \<longleftrightarrow> (\<forall>st i. i \<notin> X \<longrightarrow> map_of (kr_outbox (rec_of (snd (op st)) key)) i = map_of (kr_outbox (rec_of st key)) i)"

lemma touches_ops:
  "touches X key (getsE f)" "touches X key (renewLease k l t n)" "touches (set ids) key (ackEvents k l ids)"
  "touches {i} key (recordAttempt k l i e due)" "pk_event row = Some ev \<Longrightarrow> touches {ev_id ev} key (parkEvent k l row)"
  by (auto simp: touches_def renew_rec ackEvents_def recordAttempt_def parkEvent_def fenced_rec map_of_delete_all split: option.splits)

lemma touches_reads: "touches X key (loadPending k n)" "touches X key (heldKeys k)" "touches X key (countPending k)"
  unfolding loadPending_def heldKeys_def countPending_def by (rule touches_ops)+

lemma exhausted_tick [simp]: "w_exhausted (tick en w) = w_exhausted w"
  by (simp add: tick_def)

lemma touch_raw: "alone en \<Longrightarrow> touches X key op \<Longrightarrow> preserves (touch X key) (raw_store en op)"
  unfolding preserves_def raw_store_def touch_def touches_def alone_def outbox_at_def Let_def
  by (auto split: option.splits prod.splits) (metis snd_conv)+

lemma touch_basic:
  "preserves (touch X key) (nowE en)" "preserves (touch X key) (randomE en)" "preserves (touch X key) (modifyE (tick en))"
  "preserves (touch X key) abortedE" "preserves (touch X key) keeper_lost" "preserves (touch X key) (liftR r)"
  "preserves (touch X key) (traceE t)"
  by (auto simp: preserves_def nowE_def randomE_def modifyE_def abortedE_def getsE_def keeper_lost_def liftR_def throwE_def
      retE_def traceE_def intro: touch_same split: sum.splits)

lemma touch_beat: "alone en \<Longrightarrow> preserves (touch X key) (beat en)"
  unfolding beat_def keeper_renew_def
  by (intro touch.pres_rules touch_basic touch_raw touches_ops touch.pres_modify touch_same) simp_all

lemma touch_call: "alone en \<Longrightarrow> touches X key op \<Longrightarrow> preserves (touch X key) (callS en op)"
  unfolding callS_def by (intro touch.pres_rules touch_beat touch_raw)

lemma touch_finish_row:
  assumes "alone en" "good_row row"
  shows "preserves (touch {ob_eventId row} key) (finish_row en dd l i k row rest pl)"
proof -
  have park: "touches {ob_eventId row} key (parkEvent (dd_key dd) l (parked_of dd k row err n1 n2))" for err n1 n2
    using touches_ops(5) [of "parked_of dd k row err n1 n2" "ob_event row"] assms(2)
    by (simp add: parked_of_def good_row_def row_ok_def)
  have ack: "touches {ob_eventId row} key (ackEvents (dd_key dd) l [ob_eventId row])"
    using touches_ops(3) [of "[ob_eventId row]"] by simp
  show ?thesis unfolding finish_row_def deliver_and_ack_def handle_failure_def Let_def
    by (intro touch.pres_rules touch_basic touch_call pres_try assms park ack touches_ops)
qed

text \<open>A step that counts as progress has taken its row out of the outbox.\<close>

lemma callS_Inr:
  assumes "callS en op w = (Inr x, w')" "alone en"
  obtains w1 where "op w1 = (Inr x, w_store w')"
  using assms that
  by (auto simp: callS_def bindE_Inr raw_store_def alone_def Let_def getsE_def split: option.splits prod.splits)

lemma fenced_ok:
  assumes "fenced key l f st = (Inr x, st')"
  shows "rec_of st' key = f (rec_of st key)"
proof -
  have "fst (fenced key l f st) = Inr x" "st' = snd (fenced key l f st)" using assms by simp_all
  then show ?thesis by (auto simp: fenced_res fenced_rec split: if_splits)
qed

lemma ack_removes: "ackEvents key l [i] st = (Inr x, st') \<Longrightarrow> map_of (kr_outbox (rec_of st' key)) i = None"
  unfolding ackEvents_def by (drule fenced_ok) (simp add: map_of_delete_all)

lemma park_removes:
  "parkEvent key l row st = (Inr x, st') \<Longrightarrow> pk_event row = Some ev \<Longrightarrow> map_of (kr_outbox (rec_of st' key)) (ev_id ev) = None"
  unfolding parkEvent_def by (drule fenced_ok) simp

lemma progress_fields [simp]:
  "pl_progress (set_worker i wk pl) = pl_progress pl" "pl_progress (upd_result f pl) = pl_progress pl"
  "pl_progress (note_retry t pl) = pl_progress pl" "pl_progress (block_key k pl) = pl_progress pl"
  "pl_progress (add_progress pl) = Suc (pl_progress pl)"
  by (simp_all add: set_worker_def upd_result_def note_retry_def block_key_def add_progress_def)

lemma handle_failure_progress:
  assumes "alone en" "good_row row" "handle_failure en dd l i k row rest pl err w = (Inr pl', w')"
  shows "pl_progress pl' = pl_progress pl \<or> outbox_at (dd_key dd) w' (ob_eventId row) = None"
proof (cases "attempt_of row \<ge> dl_attempts (rp_delivery (dd_poller dd))")
  case True
  then obtain now1 now2 w1 w2 where
    p: "callS en (parkEvent (dd_key dd) l (parked_of dd k row (serializeError err 0) now1 now2)) w1 = (Inr (), w2)" "w_store w' = w_store w2"
    using assms(3) unfolding handle_failure_def Let_def by (auto simp: bindE_Inr traceE_Inr retE_Inr throwE_def split: if_splits)
  obtain st where "parkEvent (dd_key dd) l (parked_of dd k row (serializeError err 0) now1 now2) st = (Inr (), w_store w2)"
    using p(1) assms(1) by (rule callS_Inr)
  from park_removes [OF this, of "ob_event row"] show ?thesis
    using p(2) assms(2) by (simp add: parked_of_def outbox_at_def good_row_def row_ok_def)
next
  case False
  then show ?thesis
    using assms(3) unfolding handle_failure_def Let_def by (auto simp: bindE_Inr traceE_Inr retE_Inr throwE_def split: if_splits)
qed

lemma finish_row_progress:
  assumes "alone en" "good_row row" "finish_row en dd l i k row rest pl w = (Inr pl', w')"
  shows "pl_progress pl' = pl_progress pl \<or> outbox_at (dd_key dd) w' (ob_eventId row) = None"
proof -
  obtain res w1 where res: "tryE (deliver_and_ack en dd l row) w = (Inr res, w1)"
    and run: "(case res of Inl err \<Rightarrow> handle_failure en dd l i k row rest pl err
       | Inr _ \<Rightarrow> bindE (nowE en) (\<lambda>now. bindE (traceE (TDelivered (event_of row))) (\<lambda>_.
           retE (set_worker i (AtGroup k rest)
             (add_progress (upd_result (\<lambda>r. r\<lparr>dr_delivered := dr_delivered r + 1\<rparr>) pl)))))) w1 = (Inr pl', w')"
    using assms(3) unfolding finish_row_def bindE_Inr by blast
  show ?thesis
  proof (cases res)
    case (Inl err)
    then show ?thesis using run handle_failure_progress [OF assms(1,2)] by simp
  next
    case (Inr u)
    then have st: "w_store w' = w_store w1" using run by (auto simp: bindE_Inr traceE_Inr retE_Inr nowE_def)
    have "deliver_and_ack en dd l row w = (Inr u, w1)" using res Inr by (auto simp: tryE_def split: prod.splits)
    then obtain w2 where "callS en (ackEvents (dd_key dd) l [ob_eventId row]) w2 = (Inr u, w1)"
      by (auto simp: deliver_and_ack_def bindE_Inr throwE_def split: option.splits)
    then obtain st where "ackEvents (dd_key dd) l [ob_eventId row] st = (Inr u, w_store w1)"
      using assms(1) by (rule callS_Inr)
    from ack_removes [OF this] show ?thesis using st by (simp add: outbox_at_def)
  qed
qed

fun worker_rows :: "worker \<Rightarrow> outbox_row list" where
  "worker_rows (AtGroup k rows) = rows"
| "worker_rows (InFlight k row rest) = row # rest"
| "worker_rows _ = []"

fun in_flight :: "worker \<Rightarrow> outbox_row list" where
  "in_flight (InFlight k row rest) = [row]"
| "in_flight _ = []"

definition open_rows :: "pool \<Rightarrow> outbox_row list" where
  "open_rows pl = concat (map snd (pl_queue pl)) @ concat (map worker_rows (pl_workers pl))"

lemma in_flight_rows: "mset (in_flight wk) \<subseteq># mset (worker_rows wk)"
  by (cases wk) simp_all

lemma moves_rows: "moves wk queue wk' queue' \<Longrightarrow>
    mset (worker_rows wk') + mset (concat (map snd queue')) + mset (in_flight wk)
      \<subseteq># mset (worker_rows wk) + mset (concat (map snd queue))"
  by (induction rule: moves.induct) (auto simp: in_flight_rows)

lemma mset_concat_update:
  "i < length xs \<Longrightarrow> mset (concat (map f (xs[i := x]))) + mset (f (xs ! i)) = mset (concat (map f xs)) + mset (f x)"
proof (induction xs arbitrary: i)
  case (Cons y ys)
  then show ?case by (cases i) (auto simp: ac_simps)
qed simp

lemma moved_rows:
  assumes "moved i pl pl'" "i < length (pl_workers pl)"
  shows "mset (open_rows pl') + mset (in_flight (pl_workers pl ! i)) \<subseteq># mset (open_rows pl)"
proof -
  obtain wk where wk: "pl_workers pl' = (pl_workers pl)[i := wk]" "moves (pl_workers pl ! i) (pl_queue pl) wk (pl_queue pl')"
    using assms(1) by (auto simp: moved_def)
  define W where "W = mset (worker_rows (pl_workers pl ! i))"
  define F where "F = mset (in_flight (pl_workers pl ! i))"
  define C where "C = mset (concat (map worker_rows (pl_workers pl)))"
  define C' where "C' = mset (concat (map worker_rows (pl_workers pl')))"
  define Q where "Q = mset (concat (map snd (pl_queue pl)))"
  define Q' where "Q' = mset (concat (map snd (pl_queue pl')))"
  have eq: "C' + W = C + mset (worker_rows wk)"
    unfolding C'_def W_def C_def wk(1) by (rule mset_concat_update [OF assms(2)])
  have "mset (worker_rows wk) + Q' + F \<subseteq># W + Q"
    using moves_rows [OF wk(2)] by (simp add: Q'_def F_def W_def Q_def)
  then have "C + (mset (worker_rows wk) + Q' + F) \<subseteq># C + (W + Q)" by simp
  moreover have "C + (mset (worker_rows wk) + Q' + F) = (Q' + C' + F) + W"
    using eq [symmetric] by (simp add: add.assoc [symmetric] add.commute [of _ Q'] add.left_commute)
  moreover have "C + (W + Q) = (Q + C) + W" by (simp add: ac_simps)
  ultimately have "(Q' + C' + F) + W \<subseteq># (Q + C) + W" by simp
  then have "Q' + C' + F \<subseteq># Q + C" by simp
  then show ?thesis by (simp add: open_rows_def Q_def Q'_def C_def C'_def F_def)
qed

lemma distinct_submset: "distinct (map f xs) \<Longrightarrow> mset ys \<subseteq># mset xs \<Longrightarrow> distinct (map f ys)"
proof -
  assume "distinct (map f xs)" "mset ys \<subseteq># mset xs"
  then have "mset (map f ys) \<subseteq># mset (map f xs)" by (simp add: image_mset_subseteq_mono)
  then obtain zs where "mset (map f xs) = mset (map f ys @ zs)" by (metis ex_mset mset_append subset_mset.le_iff_add)
  with \<open>distinct (map f xs)\<close> have "distinct (map f ys @ zs)" by (metis mset_eq_imp_distinct_iff)
  then show ?thesis by simp
qed

definition pool_inv :: "pkey \<Rightarrow> string set \<Rightarrow> pool \<Rightarrow> world \<Rightarrow> bool" where
  "pool_inv key S pl w \<longleftrightarrow> distinct (map ob_eventId (open_rows pl))
     \<and> (\<forall>row \<in> set (open_rows pl). good_row row \<and> ob_status row = Pending \<and> outbox_at key w (ob_eventId row) = Some row)
     \<and> pend key w \<subseteq> S \<and> (pl_progress pl = 0 \<or> pend key w \<subset> S) \<and> \<not> w_exhausted w"

lemma touch_pend:
  assumes "touch X key w w'" "X \<subseteq> pend key w"
  shows "pend key w' \<subseteq> pend key w"
proof
  fix i assume i: "i \<in> pend key w'"
  show "i \<in> pend key w"
  proof (cases "i \<in> X")
    case False
    with i assms(1) show ?thesis by (simp add: pend_def touch_def)
  qed (use assms(2) in blast)
qed

text \<open>What a step touches and whether it counts as progress.\<close>

lemma worker_step_touch:
  assumes "alone en" "i < length (pl_workers pl)" "\<forall>row \<in> set (open_rows pl). good_row row"
    and run: "worker_step en dd l i pl w = (r, w')"
  shows "touch (ob_eventId ` set (in_flight (pl_workers pl ! i))) key w w'"
proof (cases "pl_workers pl ! i")
  case (InFlight k row rest)
  then have "row \<in> set (open_rows pl)" using nth_mem [OF assms(2)] by (force simp: open_rows_def)
  then have "good_row row" using assms(3) by simp
  moreover have "finish_row en dd l i k row rest pl w = (r, w')"
    using run InFlight by (simp add: worker_step_def abortedE_def getsE_def bindE_def Let_def)
  ultimately show ?thesis using InFlight preservesD [OF touch_finish_row [OF assms(1)]] by simp
qed (use run in \<open>auto simp: worker_step_def abortedE_def getsE_def bindE_def Let_def retE_def start_row_def nowE_def
      traceE_def modifyE_def intro!: touch_same split: list.splits if_splits option.splits\<close>)

lemma worker_step_progress:
  assumes "alone en" "i < length (pl_workers pl)" "\<forall>row \<in> set (open_rows pl). good_row row"
    and run: "worker_step en dd l i pl w = (Inr pl', w')"
  shows "pl_progress pl' = pl_progress pl \<or> (\<exists>row \<in> set (in_flight (pl_workers pl ! i)). outbox_at (dd_key dd) w' (ob_eventId row) = None)"
proof (cases "pl_workers pl ! i")
  case (InFlight k row rest)
  then have "row \<in> set (open_rows pl)" using nth_mem [OF assms(2)] by (force simp: open_rows_def)
  then have "good_row row" using assms(3) by simp
  moreover have "finish_row en dd l i k row rest pl w = (Inr pl', w')"
    using run InFlight by (simp add: worker_step_def abortedE_def getsE_def bindE_def Let_def)
  ultimately show ?thesis using InFlight finish_row_progress [OF assms(1)] by simp
qed (use run in \<open>auto simp: worker_step_def abortedE_def getsE_def bindE_def Let_def retE_def start_row_def nowE_def
      traceE_def modifyE_def split: list.splits if_splits option.splits\<close>)

lemma pool_inv_step:
  assumes inv: "pool_inv key S pl w" and t: "touch (ob_eventId ` set F) key w w'"
    and rows: "mset (open_rows pl') + mset F \<subseteq># mset (open_rows pl)"
    and prog: "pl_progress pl' = pl_progress pl \<or> (\<exists>row \<in> set F. outbox_at key w' (ob_eventId row) = None)"
  shows "pool_inv key S pl' w'"
proof -
  have app: "mset (open_rows pl' @ F) \<subseteq># mset (open_rows pl)" using rows by simp
  have d: "distinct (map ob_eventId (open_rows pl' @ F))"
    by (rule distinct_submset [OF _ app]) (use inv in \<open>simp add: pool_inv_def\<close>)
  have sub: "set (open_rows pl' @ F) \<subseteq> set (open_rows pl)" using app by (metis set_mset_mono set_mset_mset)
  have rows': "\<forall>row \<in> set (open_rows pl'). good_row row \<and> ob_status row = Pending \<and> outbox_at key w' (ob_eventId row) = Some row"
  proof
    fix row assume row: "row \<in> set (open_rows pl')"
    then have "ob_eventId row \<notin> ob_eventId ` set F" using d by auto
    then have "outbox_at key w' (ob_eventId row) = outbox_at key w (ob_eventId row)" using t by (auto simp: touch_def)
    then show "good_row row \<and> ob_status row = Pending \<and> outbox_at key w' (ob_eventId row) = Some row"
      using inv sub row by (auto simp: pool_inv_def)
  qed
  have F: "ob_eventId ` set F \<subseteq> pend key w" using inv sub by (fastforce simp: pool_inv_def pend_def)
  have p: "pend key w' \<subseteq> pend key w" using t F by (rule touch_pend)
  have "pl_progress pl' = 0 \<or> pend key w' \<subset> S"
    using prog
  proof
    assume "\<exists>row \<in> set F. outbox_at key w' (ob_eventId row) = None"
    then obtain row where "row \<in> set F" "ob_eventId row \<notin> pend key w'" by (auto simp: pend_def)
    then have "pend key w' \<noteq> pend key w" using F by auto
    then show ?thesis using p inv by (auto simp: pool_inv_def)
  qed (use p inv in \<open>auto simp: pool_inv_def\<close>)
  then show ?thesis using d rows' p inv t by (auto simp: pool_inv_def touch_def)
qed

lemma pool_step_inv:
  assumes "alone en" and inv: "pool_inv (dd_key dd) S pl w" and run: "pool_step en dd l failed pl w = Some (failed', pl', w')"
  shows "pool_inv (dd_key dd) S pl' w'"
proof -
  obtain i r where i: "i \<in> set (live_workers pl)" "worker_step en dd l i pl (tick en w) = (r, w')"
    "case r of Inr p \<Rightarrow> pl' = p | Inl e \<Rightarrow> pl' = set_worker i Done pl"
    using run by (rule pool_stepE)
  then have len: "i < length (pl_workers pl)" "pl_workers pl ! i \<noteq> Done" by (auto simp: live_workers_iff)
  have good: "\<forall>row \<in> set (open_rows pl). good_row row" using inv by (simp add: pool_inv_def)
  have inv1: "pool_inv (dd_key dd) S pl (tick en w)" using inv by (simp add: pool_inv_def pend_def outbox_at_def)
  have t: "touch (ob_eventId ` set (in_flight (pl_workers pl ! i))) (dd_key dd) (tick en w) w'"
    by (rule worker_step_touch [OF assms(1) len(1) good i(2)])
  have m: "moved i pl pl'"
    using i(2,3) worker_step_moved [of en dd l i pl "tick en w"] len(2)
    by (cases r) (auto intro!: movedI [of _ _ _ Done] moves.stop)
  have prog: "pl_progress pl' = pl_progress pl \<or>
      (\<exists>row \<in> set (in_flight (pl_workers pl ! i)). outbox_at (dd_key dd) w' (ob_eventId row) = None)"
    using i(2,3) worker_step_progress [OF assms(1) len(1) good, of dd l "tick en w"] by (cases r) auto
  show ?thesis by (rule pool_inv_step [OF inv1 t moved_rows [OF m len(1)] prog])
qed

lemma run_pool_shrinks:
  assumes "alone en" "pool_inv (dd_key dd) S pl w" "run_pool en dd l failed pl w = (r, w')"
  shows "pend (dd_key dd) w' \<subseteq> S \<and> \<not> w_exhausted w' \<and> (\<forall>pl'. r = Inr pl' \<longrightarrow> pl_progress pl' \<noteq> 0 \<longrightarrow> pend (dd_key dd) w' \<subset> S)"
proof -
  obtain f p u where "pool_inv (dd_key dd) S p u" "run_pool en dd l failed pl w = (case f of Some e \<Rightarrow> Inl e | None \<Rightarrow> Inr p, u)"
    by (rule run_pool_inv [where I = "\<lambda>_ p u. pool_inv (dd_key dd) S p u", OF pool_step_inv [OF assms(1)] assms(2)])
  then show ?thesis using assms(3) by (auto simp: pool_inv_def split: option.splits)
qed

text \<open>The rows that are loaded are in the outbox, pending and different.\<close>

definition loaded :: "pkey \<Rightarrow> world \<Rightarrow> outbox_row list \<Rightarrow> bool" where
  "loaded key w rows \<longleftrightarrow> distinct (map ob_eventId rows)
     \<and> (\<forall>row \<in> set rows. good_row row \<and> ob_status row = Pending \<and> outbox_at key w (ob_eventId row) = Some row)"

lemma pending_loaded:
  assumes "rec_ok (rec_of (w_store w) key)"
  shows "loaded key w (take n (pending_rows (rec_of (w_store w) key)))"
proof -
  let ?r = "rec_of (w_store w) key"
  have row: "good_row row \<and> ob_status row = Pending \<and> outbox_at key w (ob_eventId row) = Some row" if row: "row \<in> set (pending_rows ?r)" for row
  proof -
    obtain i where i: "(i, row) \<in> set (kr_outbox ?r)" "ob_status row = Pending" using row by (auto simp: pending_rows_def)
    then have m: "map_of (kr_outbox ?r) i = Some row" using assms by (simp add: rec_ok_def)
    then have "row_ok i row" using assms by (auto simp: rec_ok_def rec_wf_def)
    with m i(2) show ?thesis using pending_good [OF assms row] by (simp add: outbox_at_def row_ok_def)
  qed
  have "distinct (map ob_eventId (map snd (kr_outbox ?r)))"
  proof -
    have "ob_eventId (snd p) = fst p" if "p \<in> set (kr_outbox ?r)" for p
      using assms that by (cases p) (auto simp: rec_ok_def rec_wf_def row_ok_def)
    then have "map ob_eventId (map snd (kr_outbox ?r)) = map fst (kr_outbox ?r)" by simp
    then show ?thesis using assms by (metis rec_ok_def)
  qed
  then have "distinct (map ob_eventId (filter (\<lambda>row. ob_status row = Pending) (map snd (kr_outbox ?r))))"
    by (rule distinct_map_filter)
  then have "distinct (map ob_eventId (pending_rows ?r))"
    unfolding pending_rows_def by (rule distinct_submset) simp
  then have "distinct (map ob_eventId (take n (pending_rows ?r)))" by (simp add: take_map [symmetric])
  then show ?thesis using row by (auto simp: loaded_def dest: in_set_takeD)
qed

lemma load_loaded:
  assumes "alone en" "rec_ok (rec_of (w_store w) key)" "callS en (loadPending key n) w = (Inr rows, w')"
  shows "loaded key w' rows \<and> touch {} key w w'"
proof
  show t: "touch {} key w w'" using touch_call [OF assms(1) touches_reads(1)] assms(3) by (rule preservesD)
  have "kept {} key w w'" using kept_call [OF alone_keeps_events [OF assms(1)] safe_reads(4)] assms(3) by (rule preservesD)
  then have ok: "rec_ok (rec_of (w_store w') key)" using assms(2) by (simp add: kept_def)
  obtain st where "loadPending key n st = (Inr rows, w_store w')" using assms(3,1) by (rule callS_Inr)
  then have "rows = (case peek (w_store w') key of None \<Rightarrow> [] | Some r \<Rightarrow> take n (pending_rows r))"
    by (auto simp: loadPending_def getsE_def)
  then have "rows = take n (pending_rows (rec_of (w_store w') key))"
    by (auto simp: rec_of_def pending_rows_def js_sort_by_def fresh_record_def split: option.splits)
  then show "loaded key w' rows" using pending_loaded [OF ok] by simp
qed

lemma loaded_pool:
  assumes "loaded key w rows" "groupByOrderingKey p rows = Inr gs" "\<not> w_exhausted w"
  shows "pool_inv key (pend key w) (start_pool p (open_groups held blocked gs) result bl) w"
proof -
  let ?gs = "open_groups held blocked gs"
  have r: "rid row = ob_eventId row" if "row \<in> set rows" for row
    using assms(1) that by (simp add: loaded_def rid_def good_row_def row_ok_def)
  have sub: "set (concat (map snd ?gs)) \<subseteq> set rows"
    using groups_filter(2) [OF assms(2)] by (fastforce simp: open_groups_def)
  have "distinct (map rid rows)" using assms(1) r by (simp add: loaded_def cong: map_cong)
  from concat_open_groups [OF assms(2) this] have "distinct (map rid (concat (map snd ?gs)))" .
  moreover have "map rid (concat (map snd ?gs)) = map ob_eventId (concat (map snd ?gs))" using sub r by (intro map_cong) auto
  moreover have "open_rows (start_pool p ?gs result bl) = concat (map snd ?gs)" by (simp add: open_rows_def start_pool_def)
  ultimately show ?thesis using assms(1,3) sub by (auto simp: pool_inv_def start_pool_def loaded_def)
qed

lemma finite_pend: "finite (pend key w)"
proof (rule finite_subset)
  show "pend key w \<subseteq> dom (outbox_at key w)" by (auto simp: pend_def)
  show "finite (dom (outbox_at key w))" by (simp add: outbox_at_def finite_dom_map_of)
qed

lemma touch_empty: "touch {} key w w' \<Longrightarrow> pend key w' = pend key w \<and> w_exhausted w' = w_exhausted w \<and> (loaded key w' rows \<longleftrightarrow> loaded key w rows)"
  by (simp add: touch_def pend_def loaded_def)

lemma bindE_cases:
  assumes "bindE m f w = (r, w')"
  obtains e w1 where "m w = (Inl e, w1)" "r = Inl e" "w' = w1" | x w1 where "m w = (Inr x, w1)" "f x w1 = (r, w')"
  using assms by (auto simp: bindE_def split: prod.splits sum.splits)

lemma drain_loop_ends:
  assumes "alone en"
  shows "\<lbrakk> rec_ok (rec_of (w_store w) (dd_key dd)); \<not> w_exhausted w; window = dd_batch dd * 2 ^ k; k \<le> 4;
      card (pend (dd_key dd) w) + (4 - k) + 1 \<le> n; drain_loop n en dd l window result blocked w = (r, w') \<rbrakk>
    \<Longrightarrow> \<not> w_exhausted w'"
proof (induction n arbitrary: window k result blocked w)
  case (Suc n)
  let ?key = "dd_key dd"
  note ok = Suc.prems(1) and run = Suc.prems(6)
  have keep: "keeps_events en" using assms by (rule alone_keeps_events)
  have ok': "rec_ok (rec_of (w_store v) ?key)" if "kept {} ?key u v" "rec_ok (rec_of (w_store u) ?key)" for u v
    using that by (simp add: kept_def)
  consider "w' = w"
    | (load) r1 w1 where "callS en (loadPending ?key window) w = (r1, w1)" "\<And>rows. r1 \<noteq> Inr rows" "w' = w1"
    | (empty) w1 where "callS en (loadPending ?key window) w = (Inr [], w1)" "w' = w1"
    | (held) rows w1 r2 w2 where "callS en (loadPending ?key window) w = (Inr rows, w1)" "callS en (heldKeys ?key) w1 = (r2, w2)" "w' = w2"
    | (wider) rows w1 held w2 where "callS en (loadPending ?key window) w = (Inr rows, w1)" "callS en (heldKeys ?key) w1 = (Inr held, w2)"
        "\<not> window \<ge> dd_batch dd * 16" "drain_loop n en dd l (window * 2) result blocked w2 = (r, w')"
    | (pool) rows w1 held w2 gs r3 w3 where "callS en (loadPending ?key window) w = (Inr rows, w1)" "callS en (heldKeys ?key) w1 = (Inr held, w2)"
        "groupByOrderingKey (dd_poller dd) rows = Inr gs"
        "run_pool en dd l None (start_pool (dd_poller dd) (open_groups held blocked gs) result blocked) w2 = (r3, w3)"
        "w' = w3 \<or> (\<exists>pl. r3 = Inr pl \<and> pl_progress pl \<noteq> 0 \<and> drain_loop n en dd l window (pl_result pl) (pl_blocked pl) w3 = (r, w'))"
    using run unfolding drain_loop.simps Let_def
    by (auto elim!: bindE_cases simp: abortedE_def getsE_def retE_def liftR_def throwE_def split: if_splits sum.splits)
  then show ?case
  proof cases
    case load
    have "touch {} ?key w w1" using touch_call [OF assms touches_reads(1)] load(1) by (rule preservesD)
    then show ?thesis using load Suc.prems(2) by (simp add: touch_def)
  next
    case empty
    then show ?thesis using load_loaded [OF assms ok] Suc.prems(2) by (auto simp: touch_def)
  next
    case held
    have "touch {} ?key w1 w2" using touch_call [OF assms touches_reads(2)] held(2) by (rule preservesD)
    then show ?thesis using held load_loaded [OF assms ok held(1)] Suc.prems(2) by (simp add: touch_def)
  next
    case wider
    have t1: "touch {} ?key w w1" using load_loaded [OF assms ok wider(1)] by simp
    have t2: "touch {} ?key w1 w2" using touch_call [OF assms touches_reads(2)] wider(2) by (rule preservesD)
    have k1: "kept {} ?key w w1" using kept_call [OF keep safe_reads(4)] wider(1) by (rule preservesD)
    have k2: "kept {} ?key w1 w2" using kept_call [OF keep safe_reads(6)] wider(2) by (rule preservesD)
    have "k < 4"
    proof (rule ccontr)
      assume "\<not> k < 4"
      then have "k = 4" using Suc.prems(4) by simp
      then show False using wider(3) Suc.prems(3) by simp
    qed
    then show ?thesis
      using touch_empty [OF t1] touch_empty [OF t2] Suc.prems(2,3,5)
      by (intro Suc.IH [OF ok' [OF k2 ok' [OF k1 ok]] _ _ _ _ wider(4), of "Suc k"]) auto
  next
    case pool
    have l1: "loaded ?key w1 rows" "touch {} ?key w w1" using load_loaded [OF assms ok pool(1)] by simp_all
    have t2: "touch {} ?key w1 w2" using touch_call [OF assms touches_reads(2)] pool(2) by (rule preservesD)
    have k1: "kept {} ?key w w1" using kept_call [OF keep safe_reads(4)] pool(1) by (rule preservesD)
    have k2: "kept {} ?key w1 w2" using kept_call [OF keep safe_reads(6)] pool(2) by (rule preservesD)
    have pend: "pend ?key w2 = pend ?key w" "\<not> w_exhausted w2" "loaded ?key w2 rows"
      using touch_empty [OF l1(2)] touch_empty [OF t2] l1(1) Suc.prems(2) by auto
    note shr = run_pool_shrinks [OF assms loaded_pool [OF pend(3) pool(3) pend(2)] pool(4)]
    have k3: "kept {} ?key w2 w3"
      by (rule preservesD [OF kept_run_pool [OF keep good_start_pool [OF _ pool(3)]] pool(4)])
        (use pend(3) in \<open>auto simp: loaded_def\<close>)
    from pool(5) show ?thesis
    proof (elim disjE exE conjE)
      fix pl
      assume pl: "r3 = Inr pl" "pl_progress pl \<noteq> 0" "drain_loop n en dd l window (pl_result pl) (pl_blocked pl) w3 = (r, w')"
      then have "pend ?key w3 \<subset> pend ?key w2" using shr by simp
      then have "card (pend ?key w3) < card (pend ?key w2)" by (rule psubset_card_mono [OF finite_pend])
      then show ?thesis
        using pend(1) shr Suc.prems(3-5) by (intro Suc.IH [OF ok' [OF k3 ok' [OF k2 ok' [OF k1 ok]]] _ _ _ _ pl(3)]) auto
    qed (use shr in simp)
  qed (use Suc.prems(2) in simp)
qed simp

text \<open>C16: A drain that nobody interferes with ends: after at most as many rounds as there are pending rows plus the
  four widenings of the window and one last look, whatever the consumer does, whatever the order of the
  workers and whatever store calls fail.\<close>

theorem drain_ends:
  assumes "alone en" "rec_ok (rec_of (w_store w) (dd_key dd))" "\<not> w_exhausted w"
    "length (pending_rows (rec_of (w_store w) (dd_key dd))) + 5 \<le> e_fuel en"
    "drainOutbox en dd lease hasConsumer w = (res, w')"
  shows "\<not> w_exhausted w'"
proof -
  let ?rows = "pending_rows (rec_of (w_store w) (dd_key dd))"
  have "pend (dd_key dd) w \<subseteq> ob_eventId ` set ?rows"
  proof
    fix i assume "i \<in> pend (dd_key dd) w"
    then obtain row where row: "outbox_at (dd_key dd) w i = Some row" "ob_status row = Pending" by (auto simp: pend_def)
    then have "row_ok i row" using assms(2) by (auto simp: rec_ok_def rec_wf_def outbox_at_def)
    moreover have "row \<in> set ?rows" using row by (force simp: pending_rows_def outbox_at_def dest: map_of_SomeD)
    ultimately show "i \<in> ob_eventId ` set ?rows" by (auto simp: row_ok_def)
  qed
  then have "card (pend (dd_key dd) w) \<le> card (ob_eventId ` set ?rows)" by (intro card_mono) simp_all
  also have "\<dots> \<le> length ?rows" by (metis card_image_le List.finite_set card_length order.trans)
  finally have card: "card (pend (dd_key dd) w) + (4 - 0) + 1 \<le> e_fuel en" using assms(4) by simp
  obtain r1 w1 where r1: "(if hasConsumer then drain_loop (e_fuel en) en dd lease (dd_batch dd) empty_drain [] else retE empty_drain) w = (r1, w1)"
    by (cases "(if hasConsumer then drain_loop (e_fuel en) en dd lease (dd_batch dd) empty_drain [] else retE empty_drain) w")
  have "\<not> w_exhausted w1"
  proof (cases hasConsumer)
    case True
    then show ?thesis using r1 card by (intro drain_loop_ends [OF assms(1-3), of "dd_batch dd" 0 "e_fuel en"]) auto
  qed (use r1 assms(3) in \<open>simp add: retE_def\<close>)
  moreover have "w' = w1 \<or> (\<exists>x. touch {} (dd_key dd) w1 w')"
    using assms(5) r1 unfolding drainOutbox_def
    by (elim bindE_cases) (auto simp: retE_def dest: preservesD [OF touch_call [OF assms(1) touches_reads(3)]])
  ultimately show ?thesis by (auto simp: touch_def)
qed

theorem drain_ends_witness:
  "\<not> w_exhausted (snd (drainOutbox refusing_env sample_deps lease_a True sample_world))"
proof (rule drain_ends)
  show "alone refusing_env" by (simp add: alone_def refusing_env_def sample_env_def)
  show "rec_ok (rec_of (w_store sample_world) (dd_key sample_deps))"
    using sample_store_ok by (simp add: sample_world_def sample_deps_def)
  show "\<not> w_exhausted sample_world" by (simp add: sample_world_def)
  show "length (pending_rows (rec_of (w_store sample_world) (dd_key sample_deps))) + 5 \<le> e_fuel refusing_env" by code_simp
qed (rule prod.collapse [symmetric])

text \<open>The window stops growing at sixteen slices: when the ordering keys of that many rows at the head of the outbox
  are held, a drain delivers nothing, however many rows of other keys wait behind them.\<close>

definition calm :: "env \<Rightarrow> bool" where
  "calm en \<longleftrightarrow> alone en \<and> (\<forall>n. e_fail en n = None \<and> \<not> e_abort en n \<and> \<not> e_beat en n)"

lemma callS_calm:
  "calm en \<Longrightarrow> callS en op w = (fst (op (w_store w)), (tick en w)\<lparr>w_store := snd (op (w_store w))\<rparr>)"
  by (simp add: calm_def alone_def callS_def raw_store_def bindE_def getsE_def whenE_def retE_def Let_def split: prod.splits)

lemma group_rows_total:
  "\<forall>row \<in> set rows. \<exists>k. ordering_key p row = Inr k \<Longrightarrow> \<exists>gs. group_rows p rows groups = Inr gs
     \<and> fst ` set gs \<subseteq> fst ` set groups \<union> {k. \<exists>row \<in> set rows. ordering_key p row = Inr k}"
proof (induction rows arbitrary: groups)
  case (Cons row rows)
  then obtain k where k: "ordering_key p row = Inr k" by auto
  obtain gs where gs: "group_rows p rows (AList.update k (opt_or (map_of groups k) [] @ [row]) groups) = Inr gs"
    "fst ` set gs \<subseteq> fst ` set (AList.update k (opt_or (map_of groups k) [] @ [row]) groups)
       \<union> {k. \<exists>row \<in> set rows. ordering_key p row = Inr k}"
    using Cons.IH [of "AList.update k (opt_or (map_of groups k) [] @ [row]) groups"] Cons.prems by auto
  then show ?case using k by (auto simp: bindR_def dom_update)
qed simp

definition head_held :: "dispatcher_deps \<Rightarrow> nat \<Rightarrow> store \<Rightarrow> bool" where
  "head_held dd n st \<longleftrightarrow> (\<exists>r. peek st (dd_key dd) = Some r \<and> n \<le> length (pending_rows r)
     \<and> (\<forall>row \<in> set (take n (pending_rows r)). \<exists>k \<in> held_of r. ordering_key (dd_poller dd) row = Inr k))"

lemma held_round:
  assumes "calm en" "head_held dd (dd_batch dd * 16) (w_store w)" "\<not> w_aborted w" "0 < window" "window \<le> dd_batch dd * 16"
    "\<not> dr_halted result"
  shows "\<exists>w'. w_store w' = w_store w \<and> w_trace w' = w_trace w \<and> \<not> w_aborted w' \<and> drain_loop (Suc n) en dd l window result bl w
    = (if window \<ge> dd_batch dd * 16 then (Inr result, w') else drain_loop n en dd l (window * 2) result bl w')"
proof -
  obtain r where r: "peek (w_store w) (dd_key dd) = Some r" "dd_batch dd * 16 \<le> length (pending_rows r)"
    "\<forall>row \<in> set (take (dd_batch dd * 16) (pending_rows r)). \<exists>k \<in> held_of r. ordering_key (dd_poller dd) row = Inr k"
    using assms(2) by (auto simp: head_held_def)
  let ?rows = "take window (pending_rows r)"
  have rows: "\<forall>row \<in> set ?rows. \<exists>k \<in> held_of r. ordering_key (dd_poller dd) row = Inr k"
    by (intro ballI bspec [OF r(3)] subsetD [OF set_take_subset_set_take [OF assms(5)]])
  have len: "length ?rows = window" "?rows \<noteq> []" using r(2) assms(4,5) by auto
  obtain gs where gs: "groupByOrderingKey (dd_poller dd) ?rows = Inr gs"
    "fst ` set gs \<subseteq> {k. \<exists>row \<in> set ?rows. ordering_key (dd_poller dd) row = Inr k}"
  proof -
    have "\<forall>row \<in> set ?rows. \<exists>k. ordering_key (dd_poller dd) row = Inr k" using rows by blast
    from group_rows_total [OF this, of "[]"] show thesis using that by (auto simp: groupByOrderingKey_def)
  qed
  have "fst g \<in> held_of r" if g: "g \<in> set gs" for g
  proof -
    obtain row where "row \<in> set ?rows" "ordering_key (dd_poller dd) row = Inr (fst g)" using gs(2) g by blast
    moreover from this rows obtain k where "k \<in> held_of r" "ordering_key (dd_poller dd) row = Inr k" by blast
    ultimately show ?thesis by simp
  qed
  then have none: "open_groups (held_of r) bl gs = []" by (auto simp: open_groups_def filter_empty_conv)
  have t: "\<not> w_aborted (tick en v)" if "\<not> w_aborted v" for v using assms(1) that by (simp add: tick_def calm_def)
  let ?w1 = "(tick en w)\<lparr>w_store := w_store w\<rparr>"
  let ?w2 = "(tick en ?w1)\<lparr>w_store := w_store w\<rparr>"
  have load: "callS en (loadPending (dd_key dd) window) w = (Inr ?rows, ?w1)"
    using assms(1) by (simp add: callS_calm loadPending_def getsE_def r(1))
  have held: "callS en (heldKeys (dd_key dd)) ?w1 = (Inr (held_of r), ?w2)"
    using assms(1) by (simp add: callS_calm heldKeys_def getsE_def r(1))
  have "drain_loop (Suc n) en dd l window result bl w
    = (if window \<ge> dd_batch dd * 16 then (Inr result, ?w2) else drain_loop n en dd l (window * 2) result bl ?w2)"
    unfolding drain_loop.simps bindE_def abortedE_def getsE_def load held
    using assms(3,6) len by (simp add: load held gs(1) none liftR_def retE_def Let_def)
  moreover have "\<not> w_aborted ?w2" using t [OF t [OF assms(3)]] by (simp add: tick_def)
  ultimately show ?thesis by (intro exI [of _ ?w2]) simp
qed

lemma held_loop:
  assumes "calm en"
  shows "\<lbrakk> head_held dd (dd_batch dd * 16) (w_store w); \<not> w_aborted w; 0 < dd_batch dd; k \<le> 4; 4 < n + k \<rbrakk> \<Longrightarrow>
    \<exists>w'. w_store w' = w_store w \<and> w_trace w' = w_trace w \<and>
      drain_loop n en dd l (dd_batch dd * 2 ^ k) empty_drain [] w = (Inr empty_drain, w')"
proof (induction n arbitrary: k w)
  case (Suc n)
  have "(2::nat) ^ k \<le> 2 ^ 4" using Suc.prems(4) by (intro power_increasing) simp_all
  then have le: "dd_batch dd * 2 ^ k \<le> dd_batch dd * 16" by simp
  obtain w1 where w1: "w_store w1 = w_store w" "w_trace w1 = w_trace w" "\<not> w_aborted w1"
    "drain_loop (Suc n) en dd l (dd_batch dd * 2 ^ k) empty_drain [] w
      = (if dd_batch dd * 2 ^ k \<ge> dd_batch dd * 16 then (Inr empty_drain, w1)
         else drain_loop n en dd l (dd_batch dd * 2 ^ k * 2) empty_drain [] w1)"
    using held_round [OF assms Suc.prems(1,2) _ le, of empty_drain n l "[]"] Suc.prems(3) by (auto simp: empty_drain_def)
  show ?case
  proof (cases "k = 4")
    case True
    then show ?thesis using w1 by auto
  next
    case False
    then have k: "Suc k \<le> 4" "4 < n + Suc k" using Suc.prems(4,5) by simp_all
    have "(2::nat) ^ k < 2 ^ 4" using False Suc.prems(4) by (intro power_strict_increasing) simp_all
    then have "\<not> dd_batch dd * 2 ^ k \<ge> dd_batch dd * 16" using Suc.prems(3) by simp
    moreover have "dd_batch dd * 2 ^ k * 2 = dd_batch dd * 2 ^ Suc k" by simp
    ultimately have "drain_loop (Suc n) en dd l (dd_batch dd * 2 ^ k) empty_drain [] w
        = drain_loop n en dd l (dd_batch dd * 2 ^ Suc k) empty_drain [] w1" using w1(4) by metis
    with Suc.IH [of w1, OF _ w1(3) Suc.prems(3) k] w1(1,2) Suc.prems(1) show ?thesis by auto
  qed
qed simp

lemma held_rows_starve_others:
  assumes "calm en" "head_held dd (dd_batch dd * 16) (w_store w)" "\<not> w_aborted w" "0 < dd_batch dd" "5 \<le> e_fuel en"
  shows "\<exists>w' n. w_store w' = w_store w \<and> w_trace w' = w_trace w \<and>
    drainOutbox en dd l True w = (Inr (empty_drain\<lparr>dr_remaining := n\<rparr>), w')"
proof -
  obtain w1 where "w_store w1 = w_store w" "w_trace w1 = w_trace w"
      "drain_loop (e_fuel en) en dd l (dd_batch dd) empty_drain [] w = (Inr empty_drain, w1)"
    using held_loop [OF assms(1-4), of 0 "e_fuel en" l] assms(5) by auto
  then show ?thesis
    using assms(1) by (auto simp: drainOutbox_def bindE_def callS_calm countPending_def getsE_def retE_def)
qed

end
