(* ===== verification/Validate.thy ===== *)
theory Validate
  imports Poller_Config
begin

text \<open>\<^verbatim>\<open>src/validate/validate.ts\<close>: validation of a page of items with a Standard Schema.\<close>

record invalid_item =
  iv_item :: jsval
  iv_issues :: "issue list"

fun segment_key :: "path_segment \<Rightarrow> string" where
  "segment_key (SegKey k) = k"
| "segment_key (SegObj k) = k"

definition normalizeIssues :: "schema_issue list \<Rightarrow> issue list" where
  "normalizeIssues = map (\<lambda>i. \<lparr>is_message = si_message i, is_path = map_option (map segment_key) (si_path i)\<rparr>)"

fun validate_loop :: "schema \<Rightarrow> jsval list \<Rightarrow> thrown + (jsval list \<times> invalid_item list)" where
  "validate_loop validate [] = Inr ([], [])"
| "validate_loop validate (item # items) =
     (case validate item of
        Inl e \<Rightarrow> Inl e
      | Inr result \<Rightarrow>
          bindR (validate_loop validate items) (\<lambda>(valid, invalid).
          case result of
            Inr value \<Rightarrow> Inr (value # valid, invalid)
          | Inl issues \<Rightarrow> Inr (valid, \<lparr>iv_item = item, iv_issues = normalizeIssues issues\<rparr> # invalid)))"

definition validateItems :: "schema option \<Rightarrow> jsval list \<Rightarrow> thrown + (jsval list \<times> invalid_item list)" where
  "validateItems schema items =
     (case schema of None \<Rightarrow> Inr (items, []) | Some validate \<Rightarrow> validate_loop validate items)"

definition parseWith :: "schema \<Rightarrow> jsval \<Rightarrow> thrown + jsval" where
  "parseWith schema value =
     (case schema value of
        Inl e \<Rightarrow> Inl e
      | Inr (Inl issues) \<Rightarrow> Inl (validationError (normalizeIssues issues))
      | Inr (Inr v) \<Rightarrow> Inr v)"

lemma validate_loop_split:
  "validate_loop validate items = Inr (valid, invalid) \<Longrightarrow>
     map Inr valid = filter (\<lambda>r. \<exists>v. r = Inr v) (map (\<lambda>i. case validate i of Inr r \<Rightarrow> r | Inl e \<Rightarrow> Inl []) items)
   \<and> map iv_item invalid = filter (\<lambda>i. \<exists>iss. validate i = Inr (Inl iss)) items
   \<and> length valid + length invalid = length items"
  by (induction items arbitrary: valid invalid)
    (auto simp: bindR_def split: sum.splits prod.splits)

text \<open>Validation splits a page: the valid outputs are the parsed values in item order, the invalid ones are
  exactly the items whose validator reports issues, in item order, and together they are as many as the
  items: no item is lost and none is in both.\<close>

theorem validateItems_partition:
  assumes "validateItems (Some validate) items = Inr (valid, invalid)"
  shows "map Inr valid = filter (\<lambda>r. \<exists>v. r = Inr v) (map (\<lambda>i. case validate i of Inr r \<Rightarrow> r | Inl e \<Rightarrow> Inl []) items)
    \<and> map iv_item invalid = filter (\<lambda>i. \<exists>iss. validate i = Inr (Inl iss)) items
    \<and> length valid + length invalid = length items"
  using validate_loop_split assms by (simp add: validateItems_def)

definition strings_only :: schema where
  "strings_only v = (case v of VStr s \<Rightarrow> Inr (Inr v)
     | _ \<Rightarrow> Inr (Inl [\<lparr>si_message = ''not a string'', si_path = Some [SegObj ''id'']\<rparr>]))"

theorem validateItems_partition_witness:
  "map iv_item [\<lparr>iv_item = VNull, iv_issues = [\<lparr>is_message = ''not a string'', is_path = Some [''id'']\<rparr>]\<rparr>]
     = filter (\<lambda>i. \<exists>iss. strings_only i = Inr (Inl iss)) [VStr ''a'', VNull]"
  using validateItems_partition [of strings_only "[VStr ''a'', VNull]" "[VStr ''a'']"
      "[\<lparr>iv_item = VNull, iv_issues = [\<lparr>is_message = ''not a string'', is_path = Some [''id'']\<rparr>]\<rparr>]"]
  by (simp add: validateItems_def strings_only_def bindR_def normalizeIssues_def)

end
