(* ===== verification/Diff.thy ===== *)
theory Diff
  imports Validate
begin

text \<open>
  \<^verbatim>\<open>src/diff/diff.ts\<close> and \<^verbatim>\<open>src/diff/hash.ts\<close>: identities, versions and fingerprints of a page of items, the
  comparison with the stored rows and the detection of deletes. SHA-256 is the host function \<open>sha\<close>, and
  the stored rows are a \<^verbatim>\<open>Map\<close> from identities.
\<close>

type_synonym sha256 = "string \<Rightarrow> u8 list"
type_synonym rows = "(string, item_row) jsmap"

record candidate =
  cd_identity :: string
  cd_item :: jsval
  cd_version :: "string option"
  cd_hash :: string

record change =
  ch_type :: event_type
  ch_identity :: string
  ch_item :: jsval
  ch_previous :: "jsval option"
  ch_version :: "string option"
  ch_hash :: string

record diff_result =
  df_changes :: "change list"
  df_upserts :: "item_row list"
  df_unchanged :: "string list"
  df_rebaselined :: "string list"

definition fingerprintOf :: "sha256 \<Rightarrow> resolved_poller \<Rightarrow> jsval \<Rightarrow> thrown + string" where
  "fingerprintOf sha p item =
     bindR (case rp_fingerprint p of None \<Rightarrow> Inr item | Some f \<Rightarrow> f item) (\<lambda>subject. hashValue sha subject)"

definition identityOf :: "resolved_poller \<Rightarrow> jsval \<Rightarrow> thrown + string" where
  "identityOf p item =
     bindR (rp_identity p item) (\<lambda>id.
     case id of
       VStr s \<Rightarrow> Inr s
     | VNum x \<Rightarrow> Inr (num_str x)
     | VBig i \<Rightarrow> Inr (int_str i)
     | _ \<Rightarrow> Inl (typeError (''poller '' @ q (rp_name p) @ '': identity() must return a string, got ''
              @ (if id = VNull then ''null'' else js_typeof id))))"

text \<open>\<^verbatim>\<open>String(v)\<close>; a version is a string or a number by its type, so the last case does not arise.\<close>

fun js_String :: "jsval \<Rightarrow> string" where
  "js_String (VStr s) = s"
| "js_String (VNum x) = num_str x"
| "js_String (VBig i) = int_str i"
| "js_String (VBool b) = (if b then ''true'' else ''false'')"
| "js_String VNull = ''null''"
| "js_String VUndef = ''undefined''"
| "js_String _ = ''[object Object]''"

definition versionOf :: "resolved_poller \<Rightarrow> jsval \<Rightarrow> thrown + string option" where
  "versionOf p item =
     (case rp_version p of None \<Rightarrow> Inr None | Some f \<Rightarrow> bindR (f item) (\<lambda>v. Inr (Some (js_String v))))"

fun latest_of :: "resolved_poller \<Rightarrow> jsval list \<Rightarrow> (string, jsval) jsmap \<Rightarrow> thrown + (string, jsval) jsmap" where
  "latest_of p [] m = Inr m"
| "latest_of p (item # items) m = bindR (identityOf p item) (\<lambda>id. latest_of p items (AList.update id item m))"

definition fast_path :: "resolved_poller \<Rightarrow> string option \<Rightarrow> item_row option \<Rightarrow> bool" where
  "fast_path p version row \<longleftrightarrow>
     (case row of None \<Rightarrow> False
      | Some r \<Rightarrow> version \<noteq> None \<and> ir_version r = version \<and> ir_schemaVersion r = rp_schemaVersion p)"

fun candidates_of ::
  "sha256 \<Rightarrow> resolved_poller \<Rightarrow> rows \<Rightarrow> (string \<times> jsval) list \<Rightarrow> thrown + (candidate list \<times> string list)" where
  "candidates_of sha p existing [] = Inr ([], [])"
| "candidates_of sha p existing ((ident, item) # rest) =
     bindR (versionOf p item) (\<lambda>version.
     if fast_path p version (map_of existing ident)
     then bindR (candidates_of sha p existing rest) (\<lambda>(cs, un). Inr (cs, ident # un))
     else bindR (fingerprintOf sha p item) (\<lambda>hash.
          bindR (candidates_of sha p existing rest) (\<lambda>(cs, un).
          Inr (\<lparr>cd_identity = ident, cd_item = item, cd_version = version, cd_hash = hash\<rparr> # cs, un))))"

definition prepareCandidates ::
  "sha256 \<Rightarrow> resolved_poller \<Rightarrow> jsval list \<Rightarrow> rows \<Rightarrow> thrown + (candidate list \<times> string list)" where
  "prepareCandidates sha p items existing =
     bindR (latest_of p items []) (\<lambda>latest. candidates_of sha p existing latest)"

definition rowFor :: "resolved_poller \<Rightarrow> candidate \<Rightarrow> number \<Rightarrow> item_row" where
  "rowFor p c now =
     \<lparr>ir_identity = cd_identity c, ir_version = cd_version c, ir_hash = cd_hash c,
      ir_schemaVersion = rp_schemaVersion p,
      ir_payload = (if rp_retain p = RetainPayload then Some (cd_item c) else None), ir_seenAt = now\<rparr>"

fun diff_loop ::
  "resolved_poller \<Rightarrow> rows \<Rightarrow> number \<Rightarrow> bool \<Rightarrow> candidate list \<Rightarrow> diff_result \<Rightarrow> diff_result" where
  "diff_loop p existing now touch [] res = res"
| "diff_loop p existing now touch (c # cs) res =
     (case map_of existing (cd_identity c) of
        None \<Rightarrow>
          diff_loop p existing now touch cs
            (res\<lparr>df_changes := df_changes res @ [\<lparr>ch_type = Created, ch_identity = cd_identity c, ch_item = cd_item c,
                   ch_previous = None, ch_version = cd_version c, ch_hash = cd_hash c\<rparr>],
                 df_upserts := df_upserts res @ [rowFor p c now]\<rparr>)
      | Some row \<Rightarrow>
          let drifted = (ir_schemaVersion row \<noteq> rp_schemaVersion p) in
          if drifted \<and> rp_onSchemaChange p = Rebaseline then
            diff_loop p existing now touch cs
              (res\<lparr>df_rebaselined := df_rebaselined res @ [cd_identity c],
                   df_upserts := df_upserts res @ [rowFor p c now]\<rparr>)
          else if ir_hash row \<noteq> cd_hash c then
            diff_loop p existing now touch cs
              (res\<lparr>df_changes := df_changes res @ [\<lparr>ch_type = Updated, ch_identity = cd_identity c,
                     ch_item = cd_item c,
                     ch_previous = (if rp_retain p = RetainPayload then ir_payload row else None),
                     ch_version = cd_version c, ch_hash = cd_hash c\<rparr>],
                   df_upserts := df_upserts res @ [rowFor p c now]\<rparr>)
          else if drifted then
            diff_loop p existing now touch cs
              (res\<lparr>df_rebaselined := df_rebaselined res @ [cd_identity c],
                   df_upserts := df_upserts res @ [rowFor p c now]\<rparr>)
          else
            diff_loop p existing now touch cs
              (res\<lparr>df_unchanged := df_unchanged res @ [cd_identity c],
                   df_upserts := df_upserts res
                     @ (if touch \<or> ir_version row \<noteq> cd_version c then [rowFor p c now] else [])\<rparr>))"

definition diffCandidates ::
  "resolved_poller \<Rightarrow> candidate list \<Rightarrow> rows \<Rightarrow> number \<Rightarrow> bool \<Rightarrow> diff_result" where
  "diffCandidates p cs existing now touch =
     diff_loop p existing now touch cs
       \<lparr>df_changes = [], df_upserts = [], df_unchanged = [], df_rebaselined = []\<rparr>"

definition detectDeletes :: "string list \<Rightarrow> string set \<Rightarrow> string list" where
  "detectDeletes existing seen = sort (filter (\<lambda>id. id \<notin> seen) existing)"

section \<open>The decision table\<close>

text \<open>The table in the documentation of \<^verbatim>\<open>diffCandidates\<close>, one row at a time.\<close>

datatype verdict = IsCreated | IsUpdated | IsRebaselined | IsUnchanged

fun verdict_of :: "resolved_poller \<Rightarrow> item_row option \<Rightarrow> string \<Rightarrow> verdict" where
  "verdict_of p None hash = IsCreated"
| "verdict_of p (Some row) hash =
     (if ir_schemaVersion row = rp_schemaVersion p
      then (if ir_hash row = hash then IsUnchanged else IsUpdated)
      else case rp_onSchemaChange p of
        Rebaseline \<Rightarrow> IsRebaselined
      | Emit \<Rightarrow> if ir_hash row = hash then IsRebaselined else IsUpdated)"

definition verdict_for :: "resolved_poller \<Rightarrow> rows \<Rightarrow> candidate \<Rightarrow> verdict" where
  "verdict_for p existing c = verdict_of p (map_of existing (cd_identity c)) (cd_hash c)"

definition change_of :: "resolved_poller \<Rightarrow> rows \<Rightarrow> candidate \<Rightarrow> change" where
  "change_of p existing c =
     \<lparr>ch_type = (if verdict_for p existing c = IsCreated then Created else Updated), ch_identity = cd_identity c,
      ch_item = cd_item c,
      ch_previous = (case map_of existing (cd_identity c) of
                       None \<Rightarrow> None
                     | Some row \<Rightarrow> if rp_retain p = RetainPayload then ir_payload row else None),
      ch_version = cd_version c, ch_hash = cd_hash c\<rparr>"

definition row_written :: "resolved_poller \<Rightarrow> rows \<Rightarrow> bool \<Rightarrow> candidate \<Rightarrow> bool" where
  "row_written p existing touch c \<longleftrightarrow>
     verdict_for p existing c \<noteq> IsUnchanged \<or> touch
     \<or> map_option ir_version (map_of existing (cd_identity c)) \<noteq> Some (cd_version c)"

definition spec_diff :: "resolved_poller \<Rightarrow> candidate list \<Rightarrow> rows \<Rightarrow> number \<Rightarrow> bool \<Rightarrow> diff_result" where
  "spec_diff p cs existing now touch =
     \<lparr>df_changes = map (change_of p existing) (filter (\<lambda>c. verdict_for p existing c \<in> {IsCreated, IsUpdated}) cs),
      df_upserts = map (\<lambda>c. rowFor p c now) (filter (row_written p existing touch) cs),
      df_unchanged = map cd_identity (filter (\<lambda>c. verdict_for p existing c = IsUnchanged) cs),
      df_rebaselined = map cd_identity (filter (\<lambda>c. verdict_for p existing c = IsRebaselined) cs)\<rparr>"

definition append_diff :: "diff_result \<Rightarrow> diff_result \<Rightarrow> diff_result" where
  "append_diff a b = \<lparr>df_changes = df_changes a @ df_changes b, df_upserts = df_upserts a @ df_upserts b,
     df_unchanged = df_unchanged a @ df_unchanged b, df_rebaselined = df_rebaselined a @ df_rebaselined b\<rparr>"

lemma diff_loop_step:
  "diff_loop p existing now touch (c # cs) res =
     diff_loop p existing now touch cs (append_diff res (spec_diff p [c] existing now touch))"
  by (cases res; cases "rp_onSchemaChange p"; cases "map_of existing (cd_identity c)")
    (auto simp: Let_def append_diff_def spec_diff_def verdict_for_def change_of_def row_written_def)

lemma append_diff_assoc: "append_diff (append_diff a b) c = append_diff a (append_diff b c)"
  by (simp add: append_diff_def)

lemma spec_diff_Cons:
  "spec_diff p (c # cs) existing now touch = append_diff (spec_diff p [c] existing now touch) (spec_diff p cs existing now touch)"
  by (simp add: append_diff_def spec_diff_def)

lemma diff_loop_spec: "diff_loop p existing now touch cs res = append_diff res (spec_diff p cs existing now touch)"
proof (induction cs arbitrary: res)
  case Nil
  show ?case by (simp add: append_diff_def spec_diff_def)
next
  case (Cons c cs)
  show ?case
    by (simp only: diff_loop_step Cons.IH append_diff_assoc spec_diff_Cons [of p c cs])
qed

lemma diffCandidates_spec: "diffCandidates p cs existing now touch = spec_diff p cs existing now touch"
  unfolding diffCandidates_def diff_loop_spec by (simp add: append_diff_def)

section \<open>Candidates\<close>

lemma latest_of_keys:
  "latest_of p items m = Inr m' \<Longrightarrow> distinct (map fst m) \<Longrightarrow>
     distinct (map fst m') \<and> (\<forall>i \<in> set items. \<exists>ident. identityOf p i = Inr ident)
     \<and> fst ` set m' = fst ` set m \<union> {ident. \<exists>i \<in> set items. identityOf p i = Inr ident}"
proof (induction p items m rule: latest_of.induct)
  case (2 p item items m)
  obtain ident where ident: "identityOf p item = Inr ident" "latest_of p items (AList.update ident item m) = Inr m'"
    using "2.prems"(1) by (auto simp: bindR_Inr)
  note ih = "2.IH" [OF ident(2) distinct_update [OF "2.prems"(2)]]
  show ?case using ih ident(1) by (auto simp: dom_update)
qed auto

lemma candidates_of_split:
  "candidates_of sha p existing latest = Inr (cs, un) \<Longrightarrow> distinct (map fst latest) \<Longrightarrow>
     distinct (map cd_identity cs) \<and> distinct un \<and> set un \<inter> cd_identity ` set cs = {}
     \<and> set un \<union> cd_identity ` set cs = fst ` set latest
     \<and> (\<forall>c \<in> set cs. (cd_identity c, cd_item c) \<in> set latest \<and> fingerprintOf sha p (cd_item c) = Inr (cd_hash c)
            \<and> versionOf p (cd_item c) = Inr (cd_version c)
            \<and> \<not> fast_path p (cd_version c) (map_of existing (cd_identity c)))
     \<and> (\<forall>u \<in> set un. \<exists>item v. (u, item) \<in> set latest \<and> versionOf p item = Inr v \<and> fast_path p v (map_of existing u))"
proof (induction sha p existing latest arbitrary: cs un rule: candidates_of.induct)
  case (2 sha p existing ident item rest)
  obtain v where v: "versionOf p item = Inr v" using "2.prems"(1) by (auto simp: bindR_Inr)
  show ?case
  proof (cases "fast_path p v (map_of existing ident)")
    case True
    then obtain un' where un: "candidates_of sha p existing rest = Inr (cs, un')" "un = ident # un'"
      using "2.prems"(1) v by (auto simp: bindR_def split: sum.splits)
    have "ident \<notin> fst ` set rest" using "2.prems"(2) by simp
    with "2.IH"(1) [OF True un(1)] "2.prems"(2) un(2) v True show ?thesis by (auto, blast)
  next
    case False
    then obtain h cs' where cs: "fingerprintOf sha p item = Inr h" "candidates_of sha p existing rest = Inr (cs', un)"
      "cs = \<lparr>cd_identity = ident, cd_item = item, cd_version = v, cd_hash = h\<rparr> # cs'"
      using "2.prems"(1) v by (auto simp: bindR_def split: sum.splits)
    have "ident \<notin> fst ` set rest" using "2.prems"(2) by simp
    with "2.IH"(2) [OF False cs(2)] "2.prems"(2) cs v False show ?thesis by (auto, blast)
  qed
qed auto

lemmas prepare_facts = prepareCandidates_def bindR_Inr

lemma prepareCandidates_split:
  assumes "prepareCandidates sha p items existing = Inr (cs, un)"
  obtains latest where "latest_of p items [] = Inr latest" "candidates_of sha p existing latest = Inr (cs, un)"
    "distinct (map fst latest)"
  using assms latest_of_keys [of p items "[]"] by (auto simp: prepare_facts)

section \<open>Writing the rows back\<close>

definition apply_upserts :: "item_row list \<Rightarrow> rows \<Rightarrow> rows" where
  "apply_upserts ups existing = set_all ir_identity (\<lambda>r. r) ups existing"

lemma rowFor_identity [simp]: "ir_identity (rowFor p c now) = cd_identity c"
  by (simp add: rowFor_def)

lemma apply_upserts_row:
  assumes "distinct (map cd_identity cs)" "c \<in> set cs"
  shows "map_of (apply_upserts (df_upserts (spec_diff p cs existing now touch)) existing) (cd_identity c) =
    (if row_written p existing touch c then Some (rowFor p c now) else map_of existing (cd_identity c))"
proof (cases "row_written p existing touch c")
  case True
  let ?ups = "map (\<lambda>c. rowFor p c now) (filter (row_written p existing touch) cs)"
  have "distinct (map ir_identity ?ups)"
    using assms(1) by (simp add: comp_def distinct_map_filter)
  moreover have "rowFor p c now \<in> set ?ups" using True assms(2) by auto
  ultimately have "map_of (set_all ir_identity (\<lambda>r. r) ?ups existing) (ir_identity (rowFor p c now)) = Some (rowFor p c now)"
    by (rule map_of_set_all_in)
  then show ?thesis using True by (simp add: apply_upserts_def spec_diff_def)
next
  case False
  have "cd_identity c \<notin> ir_identity ` set (map (\<lambda>c. rowFor p c now) (filter (row_written p existing touch) cs))"
    using False assms by (auto simp: distinct_map dest: inj_onD)
  then show ?thesis using False by (simp add: apply_upserts_def spec_diff_def map_of_set_all_notin)
qed

lemma apply_upserts_other:
  "ident \<notin> cd_identity ` set cs \<Longrightarrow>
     map_of (apply_upserts (df_upserts (spec_diff p cs existing now touch)) existing) ident = map_of existing ident"
  unfolding apply_upserts_def spec_diff_def by (intro map_of_set_all_notin) auto

text \<open>After the rows are written, the same candidate is unchanged.\<close>

lemma verdict_after:
  assumes "distinct (map cd_identity cs)" "c \<in> set cs"
  shows "verdict_for p (apply_upserts (df_upserts (spec_diff p cs existing now touch)) existing) c = IsUnchanged"
proof (cases "row_written p existing touch c")
  case True
  then show ?thesis
    using apply_upserts_row [OF assms] by (simp add: verdict_for_def rowFor_def)
next
  case False
  then have "verdict_for p existing c = IsUnchanged" by (simp add: row_written_def)
  then show ?thesis
    using apply_upserts_row [OF assms] False by (simp add: verdict_for_def)
qed

section \<open>Properties\<close>

text \<open>\<^verbatim>\<open>diffCandidates\<close> implements the decision table of its documentation: the changes are exactly the
  candidates with no stored row (\<^verbatim>\<open>created\<close>) or with a changed hash that the schema policy lets through
  (\<^verbatim>\<open>updated\<close>, with the stored payload as \<^verbatim>\<open>previous\<close> under \<^verbatim>\<open>retain: payload\<close>), in candidate order; the other
  candidates are exactly the rebaselined and the unchanged ones; and a row is written for every candidate
  except an unchanged one with the same version that need not be touched.\<close>

theorem diff_decision_table:
  "diffCandidates p cs existing now touch = spec_diff p cs existing now touch"
  by (rule diffCandidates_spec)

text \<open>C22: Re-seen items never emit again: when a page was diffed and its rows were written, diffing the same
  items against the new rows (an overlap re-scan, a retry after a crash) finds no change and rebaselines
  nothing, at any later time and with or without touching.\<close>

theorem rescan_emits_nothing:
  assumes "prepareCandidates sha p items existing = Inr (cs, un)"
    and "existing' = apply_upserts (df_upserts (diffCandidates p cs existing now touch)) existing"
    and "prepareCandidates sha p items existing' = Inr (cs', un')"
  shows "df_changes (diffCandidates p cs' existing' now' touch') = []
    \<and> df_rebaselined (diffCandidates p cs' existing' now' touch') = []"
proof -
  obtain latest where l: "latest_of p items [] = Inr latest" "distinct (map fst latest)"
    "candidates_of sha p existing latest = Inr (cs, un)"
    using prepareCandidates_split [OF assms(1)] by blast
  have l': "candidates_of sha p existing' latest = Inr (cs', un')"
    using assms(3) l(1) by (simp add: prepareCandidates_def bindR_def)
  note split = candidates_of_split [OF l(3,2)] and split' = candidates_of_split [OF l' l(2)]
  have "verdict_for p existing' c = IsUnchanged" if c: "c \<in> set cs'" for c
  proof -
    have in_latest: "(cd_identity c, cd_item c) \<in> set latest" using split' c by blast
    have same: "i = cd_item c" if "(cd_identity c, i) \<in> set latest" for i
      using eq_key_imp_eq_value [OF l(2) that in_latest] .
    have "cd_identity c \<notin> set un"
    proof
      assume u: "cd_identity c \<in> set un"
      then have "map_of existing' (cd_identity c) = map_of existing (cd_identity c)"
        using split by (auto simp: assms(2) diffCandidates_spec intro!: apply_upserts_other)
      moreover obtain item v where "(cd_identity c, item) \<in> set latest" "versionOf p item = Inr v"
        "fast_path p v (map_of existing (cd_identity c))" using split u by blast
      moreover have "versionOf p (cd_item c) = Inr (cd_version c)"
        "\<not> fast_path p (cd_version c) (map_of existing' (cd_identity c))" using split' c by blast+
      ultimately show False using same by fastforce
    qed
    moreover have "cd_identity c \<in> set un \<union> cd_identity ` set cs"
      using split in_latest by (metis fst_conv image_eqI)
    ultimately have "cd_identity c \<in> cd_identity ` set cs" by blast
    then obtain d where d: "d \<in> set cs" "cd_identity d = cd_identity c" by auto
    have "(cd_identity d, cd_item d) \<in> set latest" "fingerprintOf sha p (cd_item d) = Inr (cd_hash d)"
      using split d(1) by blast+
    moreover have "fingerprintOf sha p (cd_item c) = Inr (cd_hash c)" using split' c by blast
    moreover have "cd_item d = cd_item c" using same [of "cd_item d"] calculation(1) d(2) by simp
    ultimately have "cd_hash d = cd_hash c" by simp
    moreover have "verdict_for p existing' d = IsUnchanged"
      using verdict_after [of cs d] split d(1) by (simp add: assms(2) diffCandidates_spec)
    ultimately show ?thesis using d(2) by (simp add: verdict_for_def)
  qed
  then show ?thesis by (auto simp: diffCandidates_spec spec_diff_def filter_empty_conv)
qed

text \<open>Delete detection is exact: the reported identities are the stored ones that were not seen, each once,
  in code-unit order.\<close>

theorem detectDeletes_exact:
  "set (detectDeletes existing seen) = set existing - seen
    \<and> sorted (detectDeletes existing seen)
    \<and> (distinct (detectDeletes existing seen) \<longleftrightarrow> distinct (filter (\<lambda>i. i \<notin> seen) existing))"
  by (auto simp: detectDeletes_def)

definition sample_items :: "jsval list" where
  "sample_items = [VObj 0 [(''id'', VStr ''a'')], VObj 1 [(''id'', VStr ''b'')], VObj 2 [(''id'', VStr ''a'')]]"

definition sample_cands :: "candidate list" where
  "sample_cands = [\<lparr>cd_identity = ''a'', cd_item = VObj 2 [(''id'', VStr ''a'')], cd_version = None, cd_hash = ''01''\<rparr>,
     \<lparr>cd_identity = ''b'', cd_item = VObj 1 [(''id'', VStr ''b'')], cd_version = None, cd_hash = ''01''\<rparr>]"

lemma sample_prepare: "prepareCandidates (\<lambda>_. [1]) sample_poller sample_items existing = Inr (sample_cands, [])"
proof -
  have ident: "identityOf sample_poller (VObj n [(''id'', VStr s)]) = Inr s" for n s
    by (simp add: identityOf_def sample_poller_def bindR_def getPath_def member_def)
  have "fingerprintOf (\<lambda>_. [1]) sample_poller (VObj n [(''id'', VStr s)]) = Inr ''01''" for n s
  proof -
    have "toHex [1] = ''01''" by code_simp
    then show ?thesis
      by (simp add: fingerprintOf_def sample_poller_def bindR_def hashValue_def canonicalize_def sha256Hex_def
          serializeObject_def)
  qed
  moreover have "versionOf sample_poller v = Inr None" for v by (simp add: versionOf_def sample_poller_def)
  moreover have "\<not> fast_path sample_poller None r" for r by (simp add: fast_path_def split: option.splits)
  ultimately show ?thesis
    by (simp add: prepareCandidates_def sample_items_def sample_cands_def bindR_def ident)
qed

theorem rescan_emits_nothing_witness:
  "df_changes (diffCandidates sample_poller sample_cands
     (apply_upserts (df_upserts (diffCandidates sample_poller sample_cands [] 0 False)) []) 9 True) = []"
  using rescan_emits_nothing [OF sample_prepare refl sample_prepare] by blast

section \<open>A consumer's replica\<close>

text \<open>The abstract view of the stored rows is the fingerprint of every known item; a consumer that keeps such a
  map applies each change it is told of.\<close>

definition replica :: "rows \<Rightarrow> string \<rightharpoonup> string" where
  "replica existing = map_option ir_hash \<circ> map_of existing"

definition apply_change :: "change \<Rightarrow> (string \<rightharpoonup> string) \<Rightarrow> (string \<rightharpoonup> string)" where
  "apply_change c m = m(ch_identity c \<mapsto> ch_hash c)"

lemma fold_apply_notin: "x \<notin> ch_identity ` set chs \<Longrightarrow> fold apply_change chs m x = m x"
  by (induction chs arbitrary: m) (auto simp: apply_change_def)

lemma fold_apply_in:
  "distinct (map ch_identity chs) \<Longrightarrow> c \<in> set chs \<Longrightarrow> fold apply_change chs m (ch_identity c) = Some (ch_hash c)"
proof (induction chs arbitrary: m)
  case (Cons a chs)
  then show ?case
  proof (cases "c = a")
    case True
    with Cons.prems(1) show ?thesis by (simp add: fold_apply_notin) (simp add: apply_change_def)
  qed auto
qed simp

lemma change_of_fields [simp]: "ch_identity (change_of p existing c) = cd_identity c" "ch_hash (change_of p existing c) = cd_hash c"
  by (simp_all add: change_of_def)

text \<open>What a candidate's verdict says of the fingerprint on record, unless a schema change is absorbed silently.\<close>

lemma silent_verdict:
  assumes "rp_onSchemaChange p = Emit \<or> (\<forall>r. map_of existing (cd_identity c) = Some r \<longrightarrow> ir_schemaVersion r = rp_schemaVersion p)"
    "verdict_for p existing c \<notin> {IsCreated, IsUpdated}"
  shows "replica existing (cd_identity c) = Some (cd_hash c)"
  using assms by (cases "map_of existing (cd_identity c)") (auto simp: verdict_for_def replica_def split: if_splits)



end
