(* ===== verification/Runner.thy ===== *)
theory Runner
  imports Delivery Diff
begin

text \<open>
  \<^verbatim>\<open>src/core/runner.ts\<close>: everything due for one \<^verbatim>\<open>(poller, partition)\<close>. A cycle fetches pages, validates and diffs
  them, commits each page with its cursor and its events in one step, delivers, detects deletes after a full
  scan and plans the next poll. The local variables of \<^verbatim>\<open>runCycle\<close> are a record beside the world, so that its
  \<^verbatim>\<open>catch\<close> block sees them as they were when something was thrown.
\<close>

record runner_deps =
  rd_poller :: resolved_poller
  rd_key :: pkey
  rd_instanceId :: string
  rd_consumer :: bool \<comment> \<open>whether a consumer is attached\<close>
  rd_batch :: nat
  rd_leaseTtlMs :: number
  rd_sha :: sha256
  rd_dateParse :: date_parse

definition dispatcher_of :: "runner_deps \<Rightarrow> dispatcher_deps" where
  "dispatcher_of rd = \<lparr>dd_poller = rd_poller rd, dd_key = rd_key rd, dd_batch = rd_batch rd\<rparr>"

record tick_poll_result =
  tp_poller :: string
  tp_partition :: string
  tp_lane :: lane
  tp_items :: nat
  tp_events :: nat
  tp_delivered :: nat
  tp_durationMs :: number
  tp_error :: "serialized_error option"

section \<open>Small functions\<close>

definition FULL_SCAN_PAGE_CAP :: nat where
  "FULL_SCAN_PAGE_CAP = 10000"

definition nowIso :: "number \<Rightarrow> thrown + string" where
  "nowIso ms = date_iso ms"

definition isAbortError :: "thrown \<Rightarrow> bool" where
  "isAbortError err \<longleftrightarrow>
     (case err of Thrown cls name msg stack cause \<Rightarrow> name = ''AbortError'' \<or> prefix ''watukuy: lease lost'' msg
      | NonError s \<Rightarrow> False)"

definition emptyState :: "number \<Rightarrow> resolved_poller \<Rightarrow> poller_state" where
  "emptyState now p = \<lparr>st_lanes = (\<lambda>_. None), st_schedule = initialScheduleState now (scheduler_of p), st_paused = False,
     st_schemaVersion = None, st_sequence = 0, st_createdAt = now, st_updatedAt = now\<rparr>"

definition reconcileDue :: "resolved_poller \<Rightarrow> poller_state \<Rightarrow> number \<Rightarrow> bool" where
  "reconcileDue p state now =
     (case rp_reconcileEveryMs p of
        None \<Rightarrow> False
      | Some everyMs \<Rightarrow>
          (case Option.bind (st_lanes state Reconcile) lc_lastRunAt of
             None \<Rightarrow> True
           | Some lastRun \<Rightarrow> lastRun + everyMs \<le> now))"

definition backfillActive :: "poller_state \<Rightarrow> bool" where
  "backfillActive state = (case st_lanes state Backfill of None \<Rightarrow> False | Some lane \<Rightarrow> lc_done lane \<noteq> Some True)"

text \<open>\<^verbatim>\<open>String(value)\<close>; the text of a date is its ISO form here.\<close>

fun to_string_js :: "nat list \<Rightarrow> jsval \<Rightarrow> string" where
  "to_string_js seen (VArr i xs) =
     (if i \<in> set seen then []
      else sep_join '','' (map (\<lambda>x. if x = VNull \<or> x = VUndef then [] else to_string_js (i # seen) x) xs))"
| "to_string_js seen (VBoxed v) = to_string_js seen v"
| "to_string_js seen (VDate (Some ms)) = to_iso ms"
| "to_string_js seen (VDate None) = ''Invalid Date''"
| "to_string_js seen VMap = ''[object Map]''"
| "to_string_js seen VSet = ''[object Set]''"
| "to_string_js seen v = js_String v"

definition safeJson :: "jsval \<Rightarrow> string" where
  "safeJson v = (case stringify v of Inr (Some s) \<Rightarrow> s | Inr None \<Rightarrow> ''undefined'' | Inl e \<Rightarrow> to_string_js [] v)"

definition safeParse :: "string \<Rightarrow> json" where
  "safeParse raw = (case json_parse raw of Some j \<Rightarrow> j | None \<Rightarrow> JStr raw)"

section \<open>Events of a page\<close>

definition buildEventRow ::
  "env \<Rightarrow> runner_deps \<Rightarrow> lane \<Rightarrow> event_type \<Rightarrow> string \<Rightarrow> string \<Rightarrow> jsval \<Rightarrow> jsval option \<Rightarrow> nat \<Rightarrow> string \<Rightarrow> outbox_row wio" where
  "buildEventRow en rd lane type identity version data previous sequence cursor =
     (let p = rd_poller rd; key = rd_key rd;
          eid = eventId (rd_sha rd) \<lparr>ip_source = rp_source p, ip_partition = k_partition key, ip_identity = identity,
                  ip_version = version, ip_schemaVersion = rp_schemaVersion p, ip_type = type\<rparr>
      in
      bindE (nowE en) (\<lambda>now.
      bindE (liftR (nowIso now)) (\<lambda>iso.
      retE \<lparr>ob_eventId = eid, ob_sequence = sequence,
            ob_event = \<lparr>ev_id = eid, ev_type = type, ev_source = rp_source p, ev_subject = identity, ev_time = iso,
              ev_poller = k_poller key, ev_partition = k_partition key, ev_lane = lane, ev_sequence = sequence,
              ev_cursor = safeParse cursor, ev_data = data, ev_previous = previous, ev_attempt = 0\<rparr>,
            ob_status = Pending, ob_attempts = 0, ob_nextAttemptAt = None, ob_lastError = None, ob_createdAt = now\<rparr>)))"

text \<open>An event to build: its type, identity, version, data and previous value.\<close>

type_synonym event_spec = "event_type \<times> string \<times> string \<times> jsval \<times> jsval option"

fun build_rows :: "env \<Rightarrow> runner_deps \<Rightarrow> lane \<Rightarrow> string \<Rightarrow> event_spec list \<Rightarrow> nat \<Rightarrow> outbox_row list wio" where
  \<comment> \<open>the loops \<^verbatim>\<open>sequence++; events.push(await buildEventRow(...))\<close>\<close>
  "build_rows en rd lane cursor [] sequence = retE []"
| "build_rows en rd lane cursor ((type, identity, version, data, previous) # specs) sequence =
     bindE (buildEventRow en rd lane type identity version data previous (sequence + 1) cursor) (\<lambda>row.
     bindE (build_rows en rd lane cursor specs (sequence + 1)) (\<lambda>rows. retE (row # rows)))"

record page_commit =
  pm_upserts :: "item_row list"
  pm_events :: "outbox_row list"
  pm_parked :: "parked_row list"
  pm_sequence :: nat
  pm_created :: nat
  pm_updated :: nat
  pm_seen :: "string list" \<comment> \<open>the identities a full scan adds to \<^verbatim>\<open>seen\<close>\<close>

definition invalid_row :: "sha256 \<Rightarrow> number \<Rightarrow> invalid_item \<Rightarrow> parked_row" where
  "invalid_row sha now bad =
     \<lparr>pk_id = ''invalid:'' @ take 32 (sha256Hex sha (safeJson (iv_item bad))), pk_kind = Invalid, pk_event = None,
      pk_item = iv_item bad,
      pk_error = \<lparr>pe_error = SerError ''ValidationError'' (sep_join ''; '' (map is_message (iv_issues bad))) None None None None,
        pe_history = None, pe_issues = Some (iv_issues bad)\<rparr>,
      pk_attempts = 0, pk_parkedAt = now, pk_holdKey = None\<rparr>"

fun mapR :: "('a \<Rightarrow> thrown + 'b) \<Rightarrow> 'a list \<Rightarrow> thrown + 'b list" where
  "mapR f [] = Inr []"
| "mapR f (x # xs) = bindR (f x) (\<lambda>y. bindR (mapR f xs) (\<lambda>ys. Inr (y # ys)))"

text \<open>The items re-emitted by a forced backfill. The stored rows are keyed by strings, so only identities that are
  strings can match; \<^verbatim>\<open>byIdentity\<close> maps an identity to the last item that has it.\<close>

fun forced_specs :: "resolved_poller \<Rightarrow> rows \<Rightarrow> string set \<Rightarrow> (string, jsval) jsmap \<Rightarrow> string list \<Rightarrow> event_spec list" where
  "forced_specs p existing changed byIdentity [] = []"
| "forced_specs p existing changed byIdentity (identity # ids) =
     (if identity \<in> changed then forced_specs p existing changed byIdentity ids
      else case (map_of byIdentity identity, map_of existing identity) of
        (Some item, Some row) \<Rightarrow>
          (if item = VUndef then forced_specs p existing changed byIdentity ids
           else (Updated, identity, opt_or (ir_version row) (ir_hash row), item,
                 if rp_retain p = RetainPayload then ir_payload row else None)
                # forced_specs p existing changed byIdentity ids)
      | _ \<Rightarrow> forced_specs p existing changed byIdentity ids)"

definition change_spec :: "change \<Rightarrow> event_spec" where
  "change_spec c = (ch_type c, ch_identity c, opt_or (ch_version c) (ch_hash c), ch_item c, ch_previous c)"

definition processPage ::
  "env \<Rightarrow> runner_deps \<Rightarrow> lane \<Rightarrow> jsval list \<Rightarrow> nat \<Rightarrow> bool \<Rightarrow> bool \<Rightarrow> string \<Rightarrow> page_commit wio" where
  "processPage en rd lane rawItems sequenceStart isFullScan force cursorAfterPage =
     (let p = rd_poller rd in
      bindE (nowE en) (\<lambda>now.
      bindE (liftR (validateItems (rp_schema p) rawItems)) (\<lambda>(valid, invalid).
      if invalid \<noteq> [] \<and> rp_onInvalid p = Fail then throwE (validationError (iv_issues (hd invalid)))
      else
        let parked = (if rp_onInvalid p = Quarantine then map (invalid_row (rd_sha rd) now) invalid else []) in
        bindE (liftR (mapR (rp_identity p) valid)) (\<lambda>identities.
        let ids = List.map_filter val_str identities in
        bindE (callS en (loadVersions (rd_key rd) ids)) (\<lambda>existing.
        bindE (liftR (prepareCandidates (rd_sha rd) p valid existing)) (\<lambda>(candidates, _).
        let diff = diffCandidates p candidates existing now isFullScan;
            changed = ch_identity ` set (df_changes diff);
            byIdentity = set_all fst snd (List.map_filter (\<lambda>(v, item). map_option (\<lambda>s. (s, item)) (val_str v)) (zip identities valid)) [];
            forced = (if force then forced_specs p existing changed byIdentity ids else []);
            specs = map change_spec (df_changes diff) @ forced in
        bindE (build_rows en rd lane cursorAfterPage specs sequenceStart) (\<lambda>events.
        retE \<lparr>pm_upserts = df_upserts diff, pm_events = events, pm_parked = parked,
              pm_sequence = sequenceStart + length specs,
              pm_created = length (filter (\<lambda>c. ch_type c = Created) (df_changes diff)),
              pm_updated = length (filter (\<lambda>c. ch_type c = Updated) (df_changes diff)) + length forced,
              pm_seen = (if isFullScan then ids else [])\<rparr>)))))))"

section \<open>A cycle\<close>

record cycle =
  cy_state :: poller_state
  cy_cursor :: cursor
  cy_sequence :: nat
  cy_pages :: nat
  cy_items :: nat
  cy_created :: nat
  cy_updated :: nat
  cy_deleted :: nat
  cy_truncated :: bool
  cy_sawNotModified :: bool
  cy_seen :: "string set"
  cy_rateLimit :: "rate_limit_info option"
  cy_drain :: "drain_result option"
  cy_halted :: bool
  cy_done :: bool

type_synonym 'a cio = "(world \<times> cycle, thrown, 'a) io"

definition inW :: "'a wio \<Rightarrow> (world \<times> 'c, thrown, 'a) io" where
  "inW m = (\<lambda>(w, c). case m w of (r, w') \<Rightarrow> (r, (w', c)))"

definition getC :: "('c \<Rightarrow> 'a) \<Rightarrow> (world \<times> 'c, thrown, 'a) io" where
  "getC f = getsE (\<lambda>(w, c). f c)"

definition setC :: "('c \<Rightarrow> 'c) \<Rightarrow> (world \<times> 'c, thrown, unit) io" where
  "setC f = modifyE (\<lambda>(w, c). (w, f c))"

text \<open>What does not change during a cycle: the lane, its strategy, its persisted start and what follows from them.\<close>

record cycle_cfg =
  cc_lane :: lane
  cc_strategy :: strategy
  cc_lease :: lease
  cc_deadline :: "number option"
  cc_startedAt :: number
  cc_laneState :: lane_cursor
  cc_target :: "cursor option"
  cc_force :: bool
  cc_fullScan :: bool
  cc_cap :: nat

definition empty_lane :: lane_cursor where
  "empty_lane = \<lparr>lc_cursor = None, lc_target = None, lc_done = None, lc_lastRunAt = None, lc_force = None\<rparr>"

definition poison_halt_message :: string where
  "poison_halt_message = ''poison event with action '' @ [CHR 0x22] @ ''halt'' @ [CHR 0x22] @ ''; circuit opened''"

definition openCircuitForHalt :: "env \<Rightarrow> runner_deps \<Rightarrow> lease \<Rightarrow> poller_state \<Rightarrow> poller_state wio" where
  "openCircuitForHalt en rd lease state =
     bindE (nowE en) (\<lambda>now.
     let p = rd_poller rd; sch = st_schedule state;
         schedule = sch\<lparr>circuit := Open, circuitOpenedAt := Some now, nextDueAt := Some (now + ci_probeEveryMs (rp_circuit p)),
           consecutiveFailures := max (consecutiveFailures sch) (ci_failures (rp_circuit p)),
           lastError := Some (SerError ''PoisonHalt'' poison_halt_message None None None None)\<rparr> in
     bindE (callS en (saveState (rd_key rd) lease (no_patch\<lparr>sp_schedule := Some schedule, sp_updatedAt := Some now\<rparr>))) (\<lambda>_.
     bindE (traceE (TCircuitOpen (consecutiveFailures schedule) (now + ci_probeEveryMs (rp_circuit p)))) (\<lambda>_.
     retE (state\<lparr>st_schedule := schedule, st_updatedAt := now\<rparr>))))"

fun traces :: "trace list \<Rightarrow> unit wio" where
  "traces [] = retE ()"
| "traces (t # ts) = bindE (traceE t) (\<lambda>_. traces ts)"

text \<open>The cursor of a lane as it is committed with a page.\<close>

definition lane_next :: "cycle_cfg \<Rightarrow> string \<Rightarrow> lane_cursor" where
  "lane_next cc ser =
     (let base = (cc_laneState cc)\<lparr>lc_cursor := Some ser\<rparr> in
      case cc_lane cc of
        Backfill \<Rightarrow> base\<lparr>lc_done := Some False, lc_force := Some (cc_force cc)\<rparr>
      | Reconcile \<Rightarrow> base\<lparr>lc_done := Some False\<rparr>
      | _ \<Rightarrow> base)"

definition commit_page :: "env \<Rightarrow> runner_deps \<Rightarrow> cycle_cfg \<Rightarrow> string \<Rightarrow> page_commit \<Rightarrow> unit cio" where
  "commit_page en rd cc ser commit =
     bindE (inW (nowE en)) (\<lambda>now.
     bindE (getC cy_state) (\<lambda>state.
     let p = rd_poller rd; sequence = pm_sequence commit;
         lanes = (st_lanes state)(cc_lane cc \<mapsto> lane_next cc ser);
         batch = \<lparr>cb_statePatch = no_patch\<lparr>sp_lanes := Some lanes, sp_schedule := Some (st_schedule state), sp_sequence := Some sequence,
                     sp_schemaVersion := Some (Some (rp_schemaVersion p)), sp_updatedAt := Some now\<rparr>,
                  cb_upserts = pm_upserts commit, cb_deletes = [], cb_events = pm_events commit,
                  cb_log = (rp_logRetentionMs p \<noteq> None), cb_parked = pm_parked commit\<rparr> in
     bindE (inW (nowE en)) (\<lambda>commitStarted.
     bindE (inW (callS en (commitPoll (rd_key rd) (cc_lease cc) batch))) (\<lambda>_.
     bindE (inW (nowE en)) (\<lambda>now2.
     bindE (setC (\<lambda>c. c\<lparr>cy_state := state\<lparr>st_lanes := lanes, st_sequence := sequence,
         st_schemaVersion := Some (rp_schemaVersion p), st_updatedAt := now2\<rparr>\<rparr>)) (\<lambda>_.
     bindE (inW (traceE (TCommit (length (pm_events commit)) (length (pm_upserts commit)) 0))) (\<lambda>_.
     bindE (inW (traces (map (\<lambda>row. TEvent (ob_event row)) (pm_events commit)))) (\<lambda>_.
     inW (traces (map (\<lambda>row. TInvalid (pk_item row)) (pm_parked commit)))))))))))"

text \<open>How the page loop goes on after a page.\<close>

datatype flow = Continue | BreakInner | BreakOuter

text \<open>After the commit: deliver, renew the lease, and decide.\<close>

definition drain_cycle :: "env \<Rightarrow> runner_deps \<Rightarrow> cycle_cfg \<Rightarrow> drain_result cio" where
  "drain_cycle en rd cc =
     bindE (inW (drainOutbox en (dispatcher_of rd) (cc_lease cc) (rd_consumer rd))) (\<lambda>d.
     bindE (setC (\<lambda>c. c\<lparr>cy_drain := Some d\<rparr>)) (\<lambda>_. retE d))"

definition after_commit :: "env \<Rightarrow> runner_deps \<Rightarrow> cycle_cfg \<Rightarrow> flow cio" where
  "after_commit en rd cc =
     bindE (inW (renewNow en)) (\<lambda>ok.
     if \<not> ok then throwE (leaseLostError (k_poller (rd_key rd)) (k_partition (rd_key rd)) (l_epoch (cc_lease cc)))
     else
       bindE (getC cy_done) (\<lambda>done.
       bindE (inW abortedE) (\<lambda>aborted.
       if done \<or> aborted then retE BreakInner
       else
         bindE (inW (nowE en)) (\<lambda>now.
         bindE (getC cy_pages) (\<lambda>pages.
         if (case cc_deadline cc of None \<Rightarrow> False | Some t \<Rightarrow> now \<ge> t) \<or> pages \<ge> cc_cap cc
         then bindE (setC (\<lambda>c. c\<lparr>cy_truncated := True\<rparr>)) (\<lambda>_. retE BreakOuter)
         else retE Continue)))))"

definition page_body :: "env \<Rightarrow> runner_deps \<Rightarrow> cycle_cfg \<Rightarrow> fetched_page \<Rightarrow> flow cio" where
  "page_body en rd cc page =
     bindE (setC (\<lambda>c. c\<lparr>cy_pages := cy_pages c + 1\<rparr>)) (\<lambda>_.
     let items = opt_or (fp_items page) []; strategy = cc_strategy cc in
     bindE (inW (nowE en)) (\<lambda>_.
     bindE (getC (\<lambda>c. (cy_pages c, cy_sawNotModified c))) (\<lambda>(pages, saw).
     bindE (inW (traceE (TFetch pages (length items) saw))) (\<lambda>_.
     bindE (inW (nowE en)) (\<lambda>now.
     bindE (getC cy_cursor) (\<lambda>cursor.
     bindE (inW (liftR (s_advance strategy cursor
       \<lparr>ai_items = items, ai_pageCursor = fp_cursor page, ai_hasMore = fp_hasMore page, ai_now = now\<rparr>))) (\<lambda>adv.
     bindE (inW (liftR (s_serialize strategy (ar_cursor adv)))) (\<lambda>ser.
     bindE (getC cy_sequence) (\<lambda>sequence.
     bindE (inW (processPage en rd (cc_lane cc) (ar_items adv) sequence (cc_fullScan cc) (cc_force cc) ser)) (\<lambda>commit.
     bindE (setC (\<lambda>c. c\<lparr>cy_sequence := pm_sequence commit, cy_items := cy_items c + length (ar_items adv),
         cy_created := cy_created c + pm_created commit, cy_updated := cy_updated c + pm_updated commit,
         cy_cursor := ar_cursor adv, cy_done := ar_done adv, cy_seen := cy_seen c \<union> set (pm_seen commit)\<rparr>)) (\<lambda>_.
     bindE (case cc_target cc of
              None \<Rightarrow> retE False
            | Some target \<Rightarrow> inW (liftR (s_reached strategy (ar_cursor adv) target))) (\<lambda>reached.
     bindE (setC (\<lambda>c. if reached then c\<lparr>cy_done := True\<rparr> else c)) (\<lambda>_.
     bindE (commit_page en rd cc ser commit) (\<lambda>_.
     if pm_events commit = [] then after_commit en rd cc
     else
       bindE (drain_cycle en rd cc) (\<lambda>d.
       if dr_halted d then
         bindE (getC cy_state) (\<lambda>state.
         bindE (inW (openCircuitForHalt en rd (cc_lease cc) state)) (\<lambda>state'.
         bindE (setC (\<lambda>c. c\<lparr>cy_state := state', cy_halted := True, cy_done := True\<rparr>)) (\<lambda>_.
         retE BreakOuter)))
       else after_commit en rd cc)))))))))))))))"

text \<open>\<^verbatim>\<open>for await (const page of pages)\<close>: the calls of \<^verbatim>\<open>ctx.http\<close> on the way only report back. A failing write of
  validators is logged.\<close>

fun page_loop :: "env \<Rightarrow> runner_deps \<Rightarrow> cycle_cfg \<Rightarrow> fetch_step list \<Rightarrow> nat \<Rightarrow> (flow \<times> nat) cio" where
  "page_loop en rd cc [] n = retE (Continue, n)"
| "page_loop en rd cc (FThrow e # steps) n = throwE e"
| "page_loop en rd cc (FRateLimit info # steps) n =
     bindE (setC (\<lambda>c. c\<lparr>cy_rateLimit := Some info\<rparr>)) (\<lambda>_. page_loop en rd cc steps n)"
| "page_loop en rd cc (FNotModified # steps) n =
     bindE (setC (\<lambda>c. c\<lparr>cy_sawNotModified := True\<rparr>)) (\<lambda>_. page_loop en rd cc steps n)"
| "page_loop en rd cc (FValidator h v # steps) n =
     bindE (catchE (inW (callS en (setValidator (rd_key rd) (cc_lease cc) h v))) (\<lambda>_. retE ())) (\<lambda>_. page_loop en rd cc steps n)"
| "page_loop en rd cc (FPage page # steps) n =
     bindE (page_body en rd cc page) (\<lambda>fl.
     if fl = Continue then page_loop en rd cc steps (n + 1) else retE (fl, n + 1))"

text \<open>One turn of the loop \<^verbatim>\<open>outer\<close>: whether there is another.\<close>

definition fetch_turn :: "env \<Rightarrow> runner_deps \<Rightarrow> cycle_cfg \<Rightarrow> bool cio" where
  "fetch_turn en rd cc =
     bindE (getC cy_done) (\<lambda>done.
     if done then retE False
     else
       bindE (inW abortedE) (\<lambda>aborted.
       if aborted then throwE (e_reason en)
       else
         bindE (inW (nowE en)) (\<lambda>now.
         bindE (getC cy_pages) (\<lambda>pages.
         if (case cc_deadline cc of None \<Rightarrow> False | Some t \<Rightarrow> now \<ge> t) \<or> pages \<ge> cc_cap cc
         then bindE (setC (\<lambda>c. c\<lparr>cy_truncated := True\<rparr>)) (\<lambda>_. retE False)
         else
           bindE (getC cy_cursor) (\<lambda>cursor.
           bindE (if pages = 0 then bindE (inW (nowE en)) (\<lambda>_. inW (liftR (s_forFetch (cc_strategy cc) cursor))) else retE cursor) (\<lambda>fetchCursor.
           bindE (inW (nowE en)) (\<lambda>fetchStarted.
           bindE (inW (getsE (\<lambda>w. e_fetch en (w_tick w)
             \<lparr>fc_cursor = fetchCursor, fc_page = pages + 1, fc_lane = cc_lane cc, fc_attempt = 1\<rparr>))) (\<lambda>steps.
           bindE (inW (modifyE (tick en))) (\<lambda>_.
           bindE (page_loop en rd cc steps 0) (\<lambda>(fl, pagesInCall).
           if fl = BreakOuter then retE False
           else
             bindE (setC (\<lambda>c. if pagesInCall = 0 \<or> pagesInCall > 1 then c\<lparr>cy_done := True\<rparr> else c)) (\<lambda>_.
             retE True)))))))))))"

fun fetch_loop :: "nat \<Rightarrow> env \<Rightarrow> runner_deps \<Rightarrow> cycle_cfg \<Rightarrow> unit cio" where
  "fetch_loop 0 en rd cc = inW (modifyE (\<lambda>w. w\<lparr>w_exhausted := True\<rparr>))"
| "fetch_loop (Suc n) en rd cc =
     bindE (fetch_turn en rd cc) (\<lambda>more_pages. if more_pages then fetch_loop n en rd cc else retE ())"

section \<open>Deletes after a full scan\<close>

fun delete_rows :: "env \<Rightarrow> runner_deps \<Rightarrow> cycle_cfg \<Rightarrow> rows \<Rightarrow> string list \<Rightarrow> outbox_row list cio" where
  "delete_rows en rd cc rows [] = retE []"
| "delete_rows en rd cc rows (i # missing) =
     (case map_of rows i of
        None \<Rightarrow> delete_rows en rd cc rows missing
      | Some row \<Rightarrow>
          bindE (setC (\<lambda>c. c\<lparr>cy_sequence := cy_sequence c + 1\<rparr>)) (\<lambda>_.
          bindE (getC (\<lambda>c. (cy_sequence c, cy_cursor c))) (\<lambda>(sequence, cursor).
          bindE (inW (liftR (s_serialize (cc_strategy cc) cursor))) (\<lambda>ser.
          let payload = (if rp_retain (rd_poller rd) = RetainPayload then ir_payload row else None) in
          bindE (inW (buildEventRow en rd (cc_lane cc) Deleted i (opt_or (ir_version row) (ir_hash row)) (opt_or payload VUndef)
            payload sequence ser)) (\<lambda>ev.
          bindE (delete_rows en rd cc rows missing) (\<lambda>evs. retE (ev # evs)))))))"

definition delete_missing :: "env \<Rightarrow> runner_deps \<Rightarrow> cycle_cfg \<Rightarrow> unit cio" where
  "delete_missing en rd cc =
     bindE (inW (callS en (streamIdentities (rd_key rd) 1000))) (\<lambda>batchList.
     bindE (getC cy_seen) (\<lambda>seen.
     let missing = concat (map (\<lambda>b. detectDeletes b seen) batchList) in
     if missing = [] then retE ()
     else
       bindE (inW (callS en (loadVersions (rd_key rd) missing))) (\<lambda>rows.
       bindE (delete_rows en rd cc rows missing) (\<lambda>events.
       bindE (inW (nowE en)) (\<lambda>now.
       bindE (getC (\<lambda>c. (cy_state c, cy_sequence c))) (\<lambda>(state, sequence).
       bindE (inW (callS en (commitPoll (rd_key rd) (cc_lease cc)
         \<lparr>cb_statePatch = no_patch\<lparr>sp_schedule := Some (st_schedule state), sp_sequence := Some sequence, sp_updatedAt := Some now\<rparr>,
          cb_upserts = [], cb_deletes = missing, cb_events = events,
          cb_log = (rp_logRetentionMs (rd_poller rd) \<noteq> None), cb_parked = []\<rparr>))) (\<lambda>_.
       bindE (inW (nowE en)) (\<lambda>now2.
       bindE (setC (\<lambda>c. c\<lparr>cy_state := state\<lparr>st_sequence := sequence, st_updatedAt := now2\<rparr>, cy_deleted := cy_deleted c + length events\<rparr>)) (\<lambda>_.
       bindE (inW (traceE (TCommit (length events) 0 (length missing)))) (\<lambda>_.
       bindE (inW (traces (map (\<lambda>row. TEvent (ob_event row)) events))) (\<lambda>_.
       if events = [] then retE () else bindE (drain_cycle en rd cc) (\<lambda>_. retE ()))))))))))))"

section \<open>The end of a cycle\<close>

record cycle_result =
  cr_state :: poller_state
  cr_result :: tick_poll_result
  cr_drain :: "drain_result option"
  cr_aborted :: bool

definition summary_of :: "cycle_cfg \<Rightarrow> cycle \<Rightarrow> number \<Rightarrow> bool \<Rightarrow> poll_summary" where
  "summary_of cc c durationMs notModified =
     \<lparr>ps_lane = cc_lane cc, ps_startedAt = cc_startedAt cc, ps_durationMs = durationMs, ps_pages = cy_pages c,
      ps_items = cy_items c, ps_created = cy_created c, ps_updated = cy_updated c, ps_deleted = cy_deleted c,
      ps_notModified = notModified, ps_truncated = cy_truncated c\<rparr>"

definition poll_result :: "runner_deps \<Rightarrow> cycle_cfg \<Rightarrow> cycle \<Rightarrow> nat \<Rightarrow> number \<Rightarrow> serialized_error option \<Rightarrow> tick_poll_result" where
  "poll_result rd cc c events durationMs err =
     \<lparr>tp_poller = k_poller (rd_key rd), tp_partition = k_partition (rd_key rd), tp_lane = cc_lane cc, tp_items = cy_items c,
      tp_events = events, tp_delivered = (case cy_drain c of None \<Rightarrow> 0 | Some d \<Rightarrow> dr_delivered d),
      tp_durationMs = durationMs, tp_error = err\<rparr>"

definition event_count :: "cycle \<Rightarrow> nat" where
  "event_count c = cy_created c + cy_updated c + cy_deleted c"

definition lane_final :: "cycle_cfg \<Rightarrow> bool \<Rightarrow> string \<Rightarrow> number \<Rightarrow> lane_cursor" where
  "lane_final cc done ser now =
     (case cc_lane cc of
        Reconcile \<Rightarrow> empty_lane\<lparr>lc_lastRunAt := (if done then Some now else lc_lastRunAt (cc_laneState cc)), lc_done := Some done\<rparr>
      | Backfill \<Rightarrow> empty_lane\<lparr>lc_cursor := Some ser, lc_target := lc_target (cc_laneState cc), lc_done := Some done,
                      lc_force := Some (cc_force cc)\<rparr>
      | _ \<Rightarrow> empty_lane\<lparr>lc_cursor := Some ser\<rparr>)"

definition plan_next :: "env \<Rightarrow> runner_deps \<Rightarrow> cycle_cfg \<Rightarrow> cycle \<Rightarrow> poll_summary \<Rightarrow> schedule_state wio" where
  "plan_next en rd cc c summary =
     (let sch = st_schedule (cy_state c); p = rd_poller rd in
      if cy_halted c then bindE (nowE en) (\<lambda>now. retE (sch\<lparr>lastPoll := Some summary, lastPollAt := Some now\<rparr>))
      else if cc_lane cc = Live then
        bindE (nowE en) (\<lambda>now.
        bindE (randomE en) (\<lambda>u.
        let r = afterSuccess sch (scheduler_of p) now u
              \<lparr>so_hadEvents = (event_count c > 0), so_notModified = ps_notModified summary, so_truncated = cy_truncated c,
               so_rateLimit = cy_rateLimit c, so_summary = Some summary\<rparr>;
            schedule = sr_state r in
        bindE (if sr_circuitClosed r then traceE TCircuitClose else retE ()) (\<lambda>_.
        bindE (nowE en) (\<lambda>now2.
        bindE (traceE (TSchedule (opt_or (intervalMs schedule) (sc_minMs (rp_schedule p))) (opt_or (nextDueAt schedule) now2))) (\<lambda>_.
        retE schedule)))))
      else retE (sch\<lparr>lastPoll := Some summary\<rparr>))"

definition finish_cycle :: "env \<Rightarrow> runner_deps \<Rightarrow> cycle_cfg \<Rightarrow> cycle_result cio" where
  "finish_cycle en rd cc =
     bindE (setC (\<lambda>c. if cy_done c then c\<lparr>cy_cursor := s_onCycleComplete (cc_strategy cc) (cy_cursor c)\<rparr> else c)) (\<lambda>_.
     bindE (getC (\<lambda>c. (cy_done c, cy_cursor c))) (\<lambda>(done, cursor).
     bindE (inW (nowE en)) (\<lambda>now.
     bindE (if cc_lane cc = Reconcile then retE [] else inW (liftR (s_serialize (cc_strategy cc) cursor))) (\<lambda>ser.
     let laneFinal = lane_final cc done ser now in
     bindE (inW (nowE en)) (\<lambda>now2.
     bindE (getC (\<lambda>c. c)) (\<lambda>c.
     let summary = summary_of cc c (now2 - cc_startedAt cc) (cy_sawNotModified c \<and> cy_items c = 0) in
     bindE (inW (plan_next en rd cc c summary)) (\<lambda>schedule.
     bindE (inW (nowE en)) (\<lambda>now3.
     let state = cy_state c; lanes = (st_lanes state)(cc_lane cc \<mapsto> laneFinal) in
     bindE (inW (callS en (saveState (rd_key rd) (cc_lease cc)
       (no_patch\<lparr>sp_lanes := Some lanes, sp_schedule := Some schedule, sp_sequence := Some (cy_sequence c), sp_updatedAt := Some now3\<rparr>)))) (\<lambda>_.
     let state' = state\<lparr>st_lanes := lanes, st_schedule := schedule, st_sequence := cy_sequence c, st_updatedAt := now3\<rparr> in
     bindE (setC (\<lambda>c. c\<lparr>cy_state := state'\<rparr>)) (\<lambda>_.
     bindE (inW (traceE (TPollEnd summary))) (\<lambda>_.
     retE \<lparr>cr_state = state', cr_result = poll_result rd cc c (event_count c) (now2 - cc_startedAt cc) None,
           cr_drain = cy_drain c, cr_aborted = False\<rparr>)))))))))))"

definition keeper_is_lost :: "bool wio" where
  "keeper_is_lost = getsE (\<lambda>w. case w_keeper w of None \<Rightarrow> False | Some k \<Rightarrow> lk_lost k)"

text \<open>The schedule after an error: only the live lane backs off.\<close>

definition plan_failure :: "env \<Rightarrow> runner_deps \<Rightarrow> cycle_cfg \<Rightarrow> schedule_state \<Rightarrow> thrown \<Rightarrow> schedule_state wio" where
  "plan_failure en rd cc sch err =
     (let serialized = serializeError err 0; p = rd_poller rd; http = as_HttpError err in
      if cc_lane cc = Live then
        bindE (nowE en) (\<lambda>now.
        bindE (randomE en) (\<lambda>u.
        let r = afterFailure sch (scheduler_of p) now u
              \<lparr>fo_error = serialized, fo_retryAfterMs = Option.bind http he_retryAfterMs,
               fo_isThrottle = (case http of None \<Rightarrow> False | Some h \<Rightarrow> isThrottle h),
               fo_rateLimit = map_option Some (Option.bind http he_rateLimit)\<rparr>;
            schedule = fr_state r in
        bindE (nowE en) (\<lambda>now2.
        bindE (if fr_circuitOpened r then traceE (TCircuitOpen (consecutiveFailures schedule) (opt_or (nextDueAt schedule) now2)) else retE ()) (\<lambda>_.
        bindE (traceE (TSchedule (opt_or (intervalMs schedule) (sc_minMs (rp_schedule p))) (opt_or (nextDueAt schedule) now2))) (\<lambda>_.
        retE schedule)))))
      else retE (sch\<lparr>lastError := Some serialized\<rparr>))"

definition fail_cycle :: "env \<Rightarrow> runner_deps \<Rightarrow> cycle_cfg \<Rightarrow> thrown \<Rightarrow> cycle_result cio" where
  "fail_cycle en rd cc err =
     (if is_LeaseLost err then throwE err
      else
        bindE (inW abortedE) (\<lambda>aborted.
        bindE (inW keeper_is_lost) (\<lambda>lost.
        bindE (getC (\<lambda>c. c)) (\<lambda>c.
        if aborted \<and> (lost \<or> isAbortError err) then
          (if lost then throwE (leaseLostError (k_poller (rd_key rd)) (k_partition (rd_key rd)) (l_epoch (cc_lease cc)))
           else
             bindE (inW (nowE en)) (\<lambda>now.
             retE \<lparr>cr_state = cy_state c, cr_result = poll_result rd cc c 0 (now - cc_startedAt cc) (Some (serializeError err 0)),
                   cr_drain = cy_drain c, cr_aborted = True\<rparr>))
        else
          bindE (inW (plan_failure en rd cc (st_schedule (cy_state c)) err)) (\<lambda>schedule.
          bindE (inW (traceE (TError (serializeError err 0)))) (\<lambda>_.
          bindE (inW (nowE en)) (\<lambda>now.
          bindE (catchE (inW (callS en (saveState (rd_key rd) (cc_lease cc)
                   (no_patch\<lparr>sp_schedule := Some schedule, sp_sequence := Some (cy_sequence c), sp_updatedAt := Some now\<rparr>))))
                 (\<lambda>saveErr. if is_LeaseLost saveErr then throwE saveErr else retE ())) (\<lambda>_.
          let state' = (cy_state c)\<lparr>st_schedule := schedule, st_sequence := cy_sequence c\<rparr> in
          bindE (setC (\<lambda>c. c\<lparr>cy_state := state'\<rparr>)) (\<lambda>_.
          bindE (inW (nowE en)) (\<lambda>now2.
          bindE (inW (traceE (TPollEnd (summary_of cc c (now2 - cc_startedAt cc) False)))) (\<lambda>_.
          retE \<lparr>cr_state = state',
                cr_result = poll_result rd cc c (event_count c) (now2 - cc_startedAt cc) (Some (serializeError err 0)),
                cr_drain = cy_drain c, cr_aborted = False\<rparr>)))))))))))"

definition cycle_body :: "env \<Rightarrow> runner_deps \<Rightarrow> cycle_cfg \<Rightarrow> cycle_result cio" where
  "cycle_body en rd cc =
     catchE
       (bindE (fetch_loop (cc_cap cc + 2) en rd cc) (\<lambda>_.
        bindE (getC (\<lambda>c. cy_done c \<and> cc_fullScan cc \<and> \<not> cy_truncated c \<and> \<not> cy_sawNotModified c \<and> \<not> cy_halted c)) (\<lambda>complete.
        bindE (if complete then delete_missing en rd cc else retE ()) (\<lambda>_.
        finish_cycle en rd cc))))
       (fail_cycle en rd cc)"

definition start_cycle :: "poller_state \<Rightarrow> cursor \<Rightarrow> cycle" where
  "start_cycle state cursor =
     \<lparr>cy_state = state, cy_cursor = cursor, cy_sequence = st_sequence state, cy_pages = 0, cy_items = 0, cy_created = 0,
      cy_updated = 0, cy_deleted = 0, cy_truncated = False, cy_sawNotModified = False, cy_seen = {},
      cy_rateLimit = rateLimit (st_schedule state), cy_drain = None, cy_halted = False, cy_done = False\<rparr>"

definition lane_cfg :: "resolved_poller \<Rightarrow> lane \<Rightarrow> cursor_cfg" where
  "lane_cfg p lane = (if lane = Reconcile then PageCfg \<lparr>pc_initial = Some (mk_num False 1 0)\<rparr> else rp_cursor p)"

definition runCycle :: "env \<Rightarrow> runner_deps \<Rightarrow> lease \<Rightarrow> number option \<Rightarrow> poller_state \<Rightarrow> lane \<Rightarrow> cycle_result wio" where
  "runCycle en rd lease deadline startState lane =
     bindE (nowE en) (\<lambda>startedAt.
     bindE (traceE (TPollStart lane)) (\<lambda>_.
     let p = rd_poller rd; cfg = lane_cfg p lane; isFullScan = (lane = Reconcile \<or> is_snapshot cfg);
         laneState = opt_or (st_lanes startState lane) empty_lane in
     bindE (liftR (getStrategy (rd_dateParse rd) cfg)) (\<lambda>strategy.
     bindE (case lc_cursor laneState of Some s \<Rightarrow> liftR (s_deserialize strategy s) | None \<Rightarrow> retE (s_initial strategy)) (\<lambda>cursor.
     bindE (case lc_target laneState of
              Some t \<Rightarrow> if lane = Backfill then bindE (liftR (s_deserialize strategy t)) (\<lambda>c. retE (Some c)) else retE None
            | None \<Rightarrow> retE None) (\<lambda>target.
     let cc = \<lparr>cc_lane = lane, cc_strategy = strategy, cc_lease = lease, cc_deadline = deadline, cc_startedAt = startedAt,
               cc_laneState = laneState, cc_target = target, cc_force = (lane = Backfill \<and> lc_force laneState = Some True),
               cc_fullScan = isFullScan, cc_cap = (if isFullScan then FULL_SCAN_PAGE_CAP else rp_maxPages p)\<rparr> in
     (\<lambda>w. case cycle_body en rd cc (w, start_cycle startState cursor) of (r, (w', c)) \<Rightarrow> (r, w')))))))"

section \<open>Everything due for a key\<close>

datatype skip_reason = NotDue | Paused | Leased | Aborted

record run_key_result =
  rk_ran :: bool
  rk_reason :: "skip_reason option"
  rk_results :: "tick_poll_result list"
  rk_state :: "poller_state option"
  rk_nextRetryAt :: "number option"
  rk_leaseLost :: bool
  rk_drainedBefore :: nat

definition noteRetry :: "drain_result option \<Rightarrow> run_key_result \<Rightarrow> run_key_result" where
  "noteRetry drain out =
     (case Option.bind drain dr_nextRetryAt of
        None \<Rightarrow> out
      | Some t \<Rightarrow> out\<lparr>rk_nextRetryAt := min_opt (rk_nextRetryAt out) t\<rparr>)"

type_synonym 'a kio = "(world \<times> run_key_result, thrown, 'a) io"

definition empty_run :: run_key_result where
  "empty_run = \<lparr>rk_ran = False, rk_reason = None, rk_results = [], rk_state = None, rk_nextRetryAt = None, rk_leaseLost = False,
     rk_drainedBefore = 0\<rparr>"

text \<open>One lane of \<^verbatim>\<open>runKey\<close>: \<^const>\<open>None\<close> when the cycle was aborted, which ends the run.\<close>

definition run_lane :: "env \<Rightarrow> runner_deps \<Rightarrow> lease \<Rightarrow> number option \<Rightarrow> lane \<Rightarrow> poller_state \<Rightarrow> poller_state option kio" where
  "run_lane en rd lease deadline lane state =
     bindE (inW (runCycle en rd lease deadline state lane)) (\<lambda>r.
     bindE (setC (\<lambda>out. noteRetry (cr_drain r) (out\<lparr>rk_results := rk_results out @ [cr_result r]\<rparr>))) (\<lambda>_.
     if cr_aborted r then bindE (setC (\<lambda>out. out\<lparr>rk_reason := Some Aborted\<rparr>)) (\<lambda>_. retE None)
     else retE (Some (cr_state r))))"

definition bind_state :: "poller_state option kio \<Rightarrow> (poller_state \<Rightarrow> poller_state option kio) \<Rightarrow> poller_state option kio" where
  \<comment> \<open>go on unless the run has ended\<close>
  "bind_state m f = bindE m (\<lambda>s. case s of None \<Rightarrow> retE None | Some state \<Rightarrow> f state)"

definition run_lanes :: "env \<Rightarrow> runner_deps \<Rightarrow> lease \<Rightarrow> number option \<Rightarrow> bool \<Rightarrow> bool \<Rightarrow> poller_state \<Rightarrow> poller_state option kio" where
  "run_lanes en rd lease deadline force halted state0 =
     bind_state
       (bindE (inW (nowE en)) (\<lambda>now.
        if \<not> halted \<and> (force \<or> isDue (st_schedule state0) now)
        then run_lane en rd lease deadline Live
               (if circuit (st_schedule state0) = Open then state0\<lparr>st_schedule := beginProbe (st_schedule state0)\<rparr> else state0)
        else retE (Some state0)))
       (\<lambda>state1. bind_state
         (bindE (inW (nowE en)) (\<lambda>now. bindE (inW abortedE) (\<lambda>aborted.
          if \<not> halted \<and> reconcileDue (rd_poller rd) state1 now \<and> \<not> aborted
          then run_lane en rd lease deadline Reconcile state1 else retE (Some state1))))
         (\<lambda>state2.
          bindE (inW abortedE) (\<lambda>aborted.
          if \<not> halted \<and> backfillActive state2 \<and> \<not> aborted
          then run_lane en rd lease deadline Backfill state2 else retE (Some state2))))"

text \<open>The \<^verbatim>\<open>try\<close> block under the lease.\<close>

definition run_leased :: "env \<Rightarrow> runner_deps \<Rightarrow> lease \<Rightarrow> number option \<Rightarrow> bool \<Rightarrow> unit kio" where
  "run_leased en rd lease deadline force =
     bindE (inW (callS en (loadState (rd_key rd)))) (\<lambda>loaded.
     bindE (inW (nowE en)) (\<lambda>now.
     let state = opt_or loaded (emptyState now (rd_poller rd)) in
     if st_paused state then setC (\<lambda>out. out\<lparr>rk_reason := Some Paused\<rparr>)
     else
       bindE (setC (\<lambda>out. out\<lparr>rk_ran := True\<rparr>)) (\<lambda>_.
       bindE (inW (drainOutbox en (dispatcher_of rd) lease (rd_consumer rd))) (\<lambda>drained.
       bindE (setC (\<lambda>out. (noteRetry (Some drained) out)\<lparr>rk_drainedBefore := dr_delivered drained\<rparr>)) (\<lambda>_.
       bindE (if dr_halted drained then inW (openCircuitForHalt en rd lease state) else retE state) (\<lambda>state1.
       bindE (run_lanes en rd lease deadline force (dr_halted drained) state1) (\<lambda>final.
       case final of None \<Rightarrow> retE () | Some st \<Rightarrow> setC (\<lambda>out. out\<lparr>rk_state := Some st\<rparr>))))))))"

definition lost_lease :: "lease \<Rightarrow> thrown \<Rightarrow> unit kio" where
  "lost_lease lease err =
     bindE (inW keeper_is_lost) (\<lambda>lost.
     if is_LeaseLost err \<or> lost
     then bindE (setC (\<lambda>out. out\<lparr>rk_leaseLost := True\<rparr>)) (\<lambda>_. inW (traceE (TLeaseLost (l_epoch lease))))
     else throwE err)"

definition finallyE :: "('w, 'e, 'a) io \<Rightarrow> ('w, 'e, unit) io \<Rightarrow> ('w, 'e, 'a) io" where
  "finallyE m f = (\<lambda>w. case m w of (r, w1) \<Rightarrow> (case f w1 of (Inl e, w2) \<Rightarrow> (Inl e, w2) | (Inr _, w2) \<Rightarrow> (r, w2)))"

definition release_key :: "env \<Rightarrow> runner_deps \<Rightarrow> lease \<Rightarrow> unit wio" where
  "release_key en rd lease =
     bindE keeper_stop (\<lambda>_. catchE (callS en (releaseLease (rd_key rd) lease)) (\<lambda>_. retE ()))"

text \<open>The cycle's abort controller follows the engine's signal.\<close>

definition link_signal :: "unit wio" where
  "link_signal = modifyE (\<lambda>w. w\<lparr>w_aborted := w_outer w\<rparr>)"

definition runKey :: "env \<Rightarrow> runner_deps \<Rightarrow> number option \<Rightarrow> bool \<Rightarrow> run_key_result wio" where
  "runKey en rd deadline force =
     bindE (nowE en) (\<lambda>now0.
     bindE (callS en (loadState (rd_key rd))) (\<lambda>loaded.
     let p = rd_poller rd; pre = opt_or loaded (emptyState now0 p); out = empty_run\<lparr>rk_state := Some pre\<rparr> in
     if st_paused pre then retE (out\<lparr>rk_reason := Some Paused\<rparr>)
     else
       bindE (if rd_consumer rd then bindE (callS en (countPending (rd_key rd))) (\<lambda>n. retE (n > 0)) else retE False) (\<lambda>hasPending.
       if \<not> (force \<or> isDue (st_schedule pre) now0) \<and> \<not> reconcileDue p pre now0 \<and> \<not> backfillActive pre \<and> \<not> hasPending
       then retE (out\<lparr>rk_reason := Some NotDue\<rparr>)
       else
         bindE (nowE en) (\<lambda>now.
         bindE (callS en (acquireLease (rd_key rd) (rd_instanceId rd) (rd_leaseTtlMs rd) now)) (\<lambda>granted.
         case granted of
           None \<Rightarrow> retE (out\<lparr>rk_reason := Some Leased\<rparr>)
         | Some lease \<Rightarrow>
             bindE (traceE (TLeaseAcquired lease)) (\<lambda>_.
             bindE link_signal (\<lambda>_.
             bindE (keeper_start (new_keeper (rd_key rd) lease (rd_leaseTtlMs rd))) (\<lambda>_.
             finallyE
               (\<lambda>w. case catchE (run_leased en rd lease deadline force) (lost_lease lease) (w, out) of
                      (Inl e, (w', _)) \<Rightarrow> (Inl e, w')
                    | (Inr _, (w', out')) \<Rightarrow> (Inr out', w'))
               (release_key en rd lease)))))))))"


end
