(* ===== verification/Budget_Store.thy ===== *)
theory Budget_Store
  imports Types Duration
begin

text \<open>
  \<^verbatim>\<open>src/budget/memory-store.ts\<close> and \<^verbatim>\<open>src/budget/policy.ts\<close>: the token bucket behind a rate budget and the
  resolution of a budget's configuration. The contents of a bucket are scaled by \<^verbatim>\<open>perMs\<close>, as in the code.
  The bucket is interpreted as the interface \<open>rate_budget\<close>, whose one law bounds what may be granted.
\<close>

record budget_policy =
  bp_requests :: number
  bp_perMs :: number
  bp_burst :: number

record bucket =
  bk_scaled :: number
  bk_updatedAt :: number

type_synonym buckets = "(string, bucket) jsmap"

datatype take_result = Taken (remaining: number) | Retry (retryInMs: number)

definition EPSILON :: number where
  "EPSILON = 1 / 10 ^ 9"

definition refill :: "string \<Rightarrow> budget_policy \<Rightarrow> number \<Rightarrow> number \<Rightarrow> buckets \<Rightarrow> bucket \<times> buckets" where
  "refill name policy now capacityTokens bs =
     (let cap = capacityTokens * bp_perMs policy in
      case map_of bs name of
        None \<Rightarrow> let b = \<lparr>bk_scaled = min cap (bp_burst policy * bp_perMs policy), bk_updatedAt = now\<rparr>
                 in (b, AList.update name b bs)
      | Some b \<Rightarrow>
          let elapsed = now - bk_updatedAt b;
              b' = (if elapsed > 0 then \<lparr>bk_scaled = min cap (bk_scaled b + elapsed * bp_requests policy), bk_updatedAt = now\<rparr>
                    else if bk_scaled b > cap then b\<lparr>bk_scaled := cap\<rparr> else b)
          in (b', AList.update name b' bs))"

definition take_tokens :: "string \<Rightarrow> number \<Rightarrow> budget_policy \<Rightarrow> number \<Rightarrow> buckets \<Rightarrow> take_result \<times> buckets" where
  "take_tokens name cost policy now bs =
     (if \<not> cost > 0 then
        (let (b, bs') = refill name policy now (bp_burst policy) bs in (Taken (bk_scaled b / bp_perMs policy), bs'))
      else
        (let capacity = max (bp_burst policy) cost;
             (b, bs') = refill name policy now capacity bs;
             need = cost * bp_perMs policy in
         if bk_scaled b + EPSILON \<ge> need then
           (let b' = b\<lparr>bk_scaled := max 0 (bk_scaled b - need)\<rparr>
            in (Taken (bk_scaled b' / bp_perMs policy), AList.update name b' bs'))
         else
           (let deficit = need - bk_scaled b
            in (Retry (max 1 (js_ceil (deficit / bp_requests policy - EPSILON))), bs'))))"

definition peek_tokens :: "string \<Rightarrow> budget_policy \<Rightarrow> number \<Rightarrow> buckets \<Rightarrow> number \<times> buckets" where
  "peek_tokens name policy now bs =
     (let (b, bs') = refill name policy now (bp_burst policy) bs in (bk_scaled b / bp_perMs policy, bs'))"

definition clear_buckets :: "buckets \<Rightarrow> buckets" where
  "clear_buckets bs = []"

section \<open>\<^verbatim>\<open>resolveBudgetPolicy\<close>\<close>

datatype fairness = RoundRobin | Weighted

text \<open>\<^verbatim>\<open>fairness\<close> as an untyped caller may pass it; \<^verbatim>\<open>requests\<close> and \<^verbatim>\<open>burst\<close> are numbers.\<close>

record budget_config =
  bg_requests :: jsnum
  bg_per :: duration
  bg_burst :: "jsnum option"
  bg_fairness :: "string option"
  bg_maxWait :: "duration option"

record resolved_budget =
  rb_policy :: budget_policy
  rb_fairness :: fairness
  rb_maxWaitMs :: "number option"

definition budget_msg :: "string \<Rightarrow> string \<Rightarrow> thrown" where
  "budget_msg name what = configError (''budget '' @ [CHR 0x27] @ name @ [CHR 0x27] @ what)"

definition resolveBudgetPolicy :: "string \<Rightarrow> budget_config option \<Rightarrow> thrown + resolved_budget" where
  "resolveBudgetPolicy name config =
     (if name = [] then Inl (configError ''budget name must be a non-empty string'')
      else case config of
        None \<Rightarrow> Inl (budget_msg name '': config must be an object'')
      | Some cfg \<Rightarrow>
          if \<not> finite_num (bg_requests cfg) \<or> num_val (bg_requests cfg) < 1
          then Inl (budget_msg name '': requests must be a finite number >= 1'')
          else case parseDuration (bg_per cfg) (''budget '' @ [CHR 0x27] @ name @ [CHR 0x27] @ '' per'') of
            Inl e \<Rightarrow> Inl e
          | Inr perMs \<Rightarrow>
              if perMs \<le> 0 then Inl (budget_msg name '': per must be > 0'')
              else let burst = opt_or (bg_burst cfg) (bg_requests cfg) in
              if \<not> finite_num burst \<or> num_val burst < 1
              then Inl (budget_msg name '': burst must be a finite number >= 1'')
              else let f = opt_or (bg_fairness cfg) ''round-robin'' in
              if f \<noteq> ''round-robin'' \<and> f \<noteq> ''weighted''
              then Inl (budget_msg name ('': fairness must be '' @ [CHR 0x27] @ ''round-robin'' @ [CHR 0x27] @ '' or ''
                          @ [CHR 0x27] @ ''weighted'' @ [CHR 0x27] @ '', got '' @ quote f))
              else case (case bg_maxWait cfg of
                           None \<Rightarrow> Inr None
                         | Some d \<Rightarrow> map_sum id Some (parseDuration d (''budget '' @ [CHR 0x27] @ name @ [CHR 0x27] @ '' maxWait''))) of
                Inl e \<Rightarrow> Inl e
              | Inr maxWaitMs \<Rightarrow>
                  Inr \<lparr>rb_policy = \<lparr>bp_requests = num_val (bg_requests cfg), bp_perMs = perMs, bp_burst = num_val burst\<rparr>,
                       rb_fairness = (if f = ''weighted'' then Weighted else RoundRobin), rb_maxWaitMs = maxWaitMs\<rparr>)"

section \<open>Conservation\<close>

definition wf_policy :: "budget_policy \<Rightarrow> bool" where
  "wf_policy p \<longleftrightarrow> 1 \<le> bp_requests p \<and> 0 < bp_perMs p \<and> 1 \<le> bp_burst p"

lemma resolveBudgetPolicy_wf: "resolveBudgetPolicy name config = Inr r \<Longrightarrow> wf_policy (rb_policy r)"
  by (auto simp: resolveBudgetPolicy_def wf_policy_def Let_def split: if_splits option.splits sum.splits)

text \<open>A history of takes on one name: what was asked when, and what was granted.\<close>

fun take_all :: "string \<Rightarrow> budget_policy \<Rightarrow> (number \<times> number) list \<Rightarrow> buckets \<Rightarrow> number \<times> buckets" where
  "take_all name p [] bs = (0, bs)"
| "take_all name p ((cost, now) # reqs) bs =
     (case take_tokens name cost p now bs of
        (Taken _, bs') \<Rightarrow> (let (g, bs'') = take_all name p reqs bs' in (max 0 cost + g, bs''))
      | (Retry _, bs') \<Rightarrow> take_all name p reqs bs')"

lemma EPSILON_pos: "0 < EPSILON"
  by (simp add: EPSILON_def)

text \<open>The potential of a bucket at a time: its contents, and what it would still gain until then.\<close>

definition potential :: "budget_policy \<Rightarrow> number \<Rightarrow> bucket \<Rightarrow> number" where
  "potential p T b = bk_scaled b + bp_requests p * (T - bk_updatedAt b)"

lemma refill_some:
  assumes "map_of bs name = Some b" "refill name p now cap bs = (b', bs')" "wf_policy p"
  shows "map_of bs' name = Some b'" "potential p T b' \<le> potential p T b"
    "0 \<le> bk_scaled b \<Longrightarrow> 0 \<le> cap \<Longrightarrow> 0 \<le> bk_scaled b'" "bk_updatedAt b' = max now (bk_updatedAt b)"
proof -
  show "map_of bs' name = Some b'" "potential p T b' \<le> potential p T b" "bk_updatedAt b' = max now (bk_updatedAt b)"
    using assms
    by (auto simp: refill_def Let_def potential_def wf_policy_def algebra_simps min_def max_def split: if_splits)
  assume pos: "0 \<le> bk_scaled b" "0 \<le> cap"
  have "0 \<le> (now - bk_updatedAt b) * bp_requests p" if "bk_updatedAt b < now"
    using that assms(3) by (simp add: wf_policy_def)
  moreover have "0 \<le> cap * bp_perMs p" using pos assms(3) by (simp add: wf_policy_def)
  ultimately show "0 \<le> bk_scaled b'"
    using assms(1,2) pos by (auto simp: refill_def Let_def split: if_splits)
qed

lemma refill_none:
  assumes "map_of bs name = None" "refill name p now cap bs = (b', bs')"
  shows "map_of bs' name = Some b'" "bk_scaled b' \<le> bp_burst p * bp_perMs p" "bk_updatedAt b' = now"
    "bk_scaled b' = min (cap * bp_perMs p) (bp_burst p * bp_perMs p)"
  using assms by (auto simp: refill_def Let_def)

text \<open>One take on a bucket that exists: the potential pays for what is granted.\<close>

lemma take_tokens_some:
  assumes "map_of bs name = Some b" "0 \<le> bk_scaled b" "wf_policy p" "take_tokens name cost p now bs = (res, bs')"
  obtains b' where "map_of bs' name = Some b'" "0 \<le> bk_scaled b'" "bk_updatedAt b' = max now (bk_updatedAt b)"
    "potential p T b' + (case res of Taken _ \<Rightarrow> max 0 cost * bp_perMs p | Retry _ \<Rightarrow> 0) \<le> potential p T b + EPSILON"
proof (cases "cost > 0")
  case False
  obtain b1 bs1 where r: "refill name p now (bp_burst p) bs = (b1, bs1)" by (cases "refill name p now (bp_burst p) bs")
  have "0 \<le> bp_burst p" using assms(3) by (simp add: wf_policy_def)
  then have b1: "map_of bs1 name = Some b1" "0 \<le> bk_scaled b1" "bk_updatedAt b1 = max now (bk_updatedAt b)"
    "potential p T b1 \<le> potential p T b"
    using refill_some [OF assms(1) r assms(3)] assms(2) by auto
  have "res = Taken (bk_scaled b1 / bp_perMs p)" "bs' = bs1"
    using assms(4) False r by (auto simp: take_tokens_def)
  then show ?thesis using b1 False EPSILON_pos by (intro that [of b1]) (auto simp: max_def)
next
  case True
  define capacity where "capacity = max (bp_burst p) cost"
  obtain b1 bs1 where r: "refill name p now capacity bs = (b1, bs1)" by (cases "refill name p now capacity bs")
  have "0 \<le> capacity" using True by (simp add: capacity_def)
  note f = refill_some [OF assms(1) r assms(3)]
  have b1: "map_of bs1 name = Some b1" "0 \<le> bk_scaled b1" "bk_updatedAt b1 = max now (bk_updatedAt b)"
    "potential p T b1 \<le> potential p T b"
    using f \<open>0 \<le> capacity\<close> assms(2) by auto
  show ?thesis
  proof (cases "bk_scaled b1 + EPSILON \<ge> cost * bp_perMs p")
    case enough: True
    let ?b = "b1\<lparr>bk_scaled := max 0 (bk_scaled b1 - cost * bp_perMs p)\<rparr>"
    have "res = Taken (bk_scaled ?b / bp_perMs p)" "bs' = AList.update name ?b bs1"
      using assms(4) True enough r by (auto simp: take_tokens_def capacity_def Let_def)
    moreover have "potential p T ?b + cost * bp_perMs p \<le> potential p T b1 + EPSILON"
      using enough EPSILON_pos by (auto simp: potential_def max_def)
    ultimately show ?thesis using True b1 by (intro that [of ?b]) auto
  next
    case False
    then have "bs' = bs1" "\<exists>t. res = Retry t"
      using assms(4) True r by (auto simp: take_tokens_def capacity_def Let_def)
    then show ?thesis using b1 EPSILON_pos by (intro that [of b1]) auto
  qed
qed

lemma take_all_some:
  "\<lbrakk> map_of bs name = Some b; 0 \<le> bk_scaled b; wf_policy p; bk_updatedAt b \<le> T; \<forall>(c, t) \<in> set reqs. t \<le> T;
     take_all name p reqs bs = (g, bs') \<rbrakk>
    \<Longrightarrow> g * bp_perMs p \<le> potential p T b + of_nat (length reqs) * EPSILON"
proof (induction reqs arbitrary: bs b g bs')
  case Nil
  have "0 \<le> bp_requests p * (T - bk_updatedAt b)" using Nil by (simp add: wf_policy_def)
  then show ?case using Nil by (simp add: potential_def)
next
  case (Cons req reqs)
  obtain cost now where req: "req = (cost, now)" by (cases req)
  obtain res bs1 where tk: "take_tokens name cost p now bs = (res, bs1)" by (cases "take_tokens name cost p now bs")
  obtain b1 where b1: "map_of bs1 name = Some b1" "0 \<le> bk_scaled b1" "bk_updatedAt b1 = max now (bk_updatedAt b)"
    "potential p T b1 + (case res of Taken _ \<Rightarrow> max 0 cost * bp_perMs p | Retry _ \<Rightarrow> 0) \<le> potential p T b + EPSILON"
    by (rule take_tokens_some [OF Cons.prems(1-3) tk])
  obtain g1 bs2 where g1: "take_all name p reqs bs1 = (g1, bs2)" by (cases "take_all name p reqs bs1")
  have "bk_updatedAt b1 \<le> T" using b1(3) Cons.prems(4,5) req by auto
  then have ih: "g1 * bp_perMs p \<le> potential p T b1 + of_nat (length reqs) * EPSILON"
    using Cons.IH [OF b1(1,2) Cons.prems(3) _ _ g1] Cons.prems(5) by auto
  have "g = (case res of Taken _ \<Rightarrow> max 0 cost + g1 | Retry _ \<Rightarrow> g1)"
    using Cons.prems(6) req tk g1 by (auto split: take_result.splits)
  then show ?case using ih b1(4) by (cases res) (auto simp: algebra_simps)
qed

text \<open>What a client of a rate budget relies on: a history of requests from a name that is not in use yet is never
  granted more than the burst and the refill of the elapsed time allow, up to the tolerance per request.\<close>

locale rate_budget =
  fixes granted :: "'st \<Rightarrow> string \<Rightarrow> budget_policy \<Rightarrow> (number \<times> number) list \<Rightarrow> number"
    and unused :: "'st \<Rightarrow> string \<Rightarrow> bool"
  assumes conserve: "\<lbrakk> wf_policy p; unused s name; \<forall>(c, t) \<in> set ((c0, t0) # reqs). t0 \<le> t \<and> t \<le> T \<rbrakk>
    \<Longrightarrow> granted s name p ((c0, t0) # reqs) * bp_perMs p
        \<le> max (bp_burst p) 0 * bp_perMs p + bp_requests p * (T - t0) + of_nat (Suc (length reqs)) * EPSILON"
begin

text \<open>In one window of \<^verbatim>\<open>perMs\<close> milliseconds at most \<^verbatim>\<open>burst + requests\<close> tokens are granted.\<close>

lemma one_window:
  assumes "wf_policy p" "unused s name" "\<forall>(c, t) \<in> set ((c0, t0) # reqs). t0 \<le> t \<and> t \<le> t0 + bp_perMs p"
  shows "granted s name p ((c0, t0) # reqs)
    \<le> bp_burst p + bp_requests p + of_nat (Suc (length reqs)) * EPSILON / bp_perMs p"
proof -
  have pos: "0 < bp_perMs p" using assms(1) by (simp add: wf_policy_def)
  have "granted s name p ((c0, t0) # reqs) * bp_perMs p
      \<le> (bp_burst p + bp_requests p) * bp_perMs p + of_nat (Suc (length reqs)) * EPSILON"
    using conserve [OF assms] assms(1) by (simp add: wf_policy_def algebra_simps)
  then have "granted s name p ((c0, t0) # reqs)
      \<le> ((bp_burst p + bp_requests p) * bp_perMs p + of_nat (Suc (length reqs)) * EPSILON) / bp_perMs p"
    using pos by (simp add: pos_le_divide_eq)
  then show ?thesis using pos by (simp add: add_divide_distrib)
qed

end

lemma take_first:
  assumes "map_of bs name = None" "wf_policy p" "take_tokens name cost p now bs = (res, bs')"
  obtains b' where "map_of bs' name = Some b'" "0 \<le> bk_scaled b'" "bk_updatedAt b' = now"
    "bk_scaled b' + (case res of Taken _ \<Rightarrow> max 0 cost * bp_perMs p | Retry _ \<Rightarrow> 0) \<le> bp_burst p * bp_perMs p + EPSILON"
proof -
  let ?b = "\<lparr>bk_scaled = bp_burst p * bp_perMs p, bk_updatedAt = now\<rparr>"
  let ?bs = "AList.update name ?b bs"
  have pol: "0 < bp_perMs p" "1 \<le> bp_burst p" using assms(2) by (auto simp: wf_policy_def)
  have "min (max (bp_burst p) c * bp_perMs p) (bp_burst p * bp_perMs p) = bp_burst p * bp_perMs p" for c
    using pol by (intro min_absorb2 mult_right_mono) auto
  then have same: "refill name p now (max (bp_burst p) c) bs = (?b, ?bs)"
      "refill name p now (bp_burst p) bs = (?b, ?bs)" for c
    using assms(1) by (simp_all add: refill_def Let_def)
  have again: "refill name p now (max (bp_burst p) c) ?bs = (?b, ?bs)" "refill name p now (bp_burst p) ?bs = (?b, ?bs)" for c
    using pol by (auto simp: refill_def Let_def max_def mult_le_cancel_right)
  have "take_tokens name cost p now ?bs = (res, bs')"
    using assms(3) unfolding take_tokens_def Let_def same again .
  then obtain b' where "map_of bs' name = Some b'" "0 \<le> bk_scaled b'" "bk_updatedAt b' = max now (bk_updatedAt ?b)"
    "potential p now b' + (case res of Taken _ \<Rightarrow> max 0 cost * bp_perMs p | Retry _ \<Rightarrow> 0) \<le> potential p now ?b + EPSILON"
    using take_tokens_some [of ?bs name ?b p cost now res bs' now] assms(2) pol by auto
  then show ?thesis using that by (auto simp: potential_def)
qed

lemma take_all_conserve:
  assumes "wf_policy p" "map_of bs name = None" "\<forall>(c, t) \<in> set ((c0, t0) # reqs). t0 \<le> t \<and> t \<le> T"
  shows "fst (take_all name p ((c0, t0) # reqs) bs) * bp_perMs p
        \<le> max (bp_burst p) 0 * bp_perMs p + bp_requests p * (T - t0) + of_nat (Suc (length reqs)) * EPSILON"
proof -
  obtain res bs1 where tk: "take_tokens name c0 p t0 bs = (res, bs1)" by (cases "take_tokens name c0 p t0 bs")
  obtain b1 where b1: "map_of bs1 name = Some b1" "0 \<le> bk_scaled b1" "bk_updatedAt b1 = t0"
    "bk_scaled b1 + (case res of Taken _ \<Rightarrow> max 0 c0 * bp_perMs p | Retry _ \<Rightarrow> 0) \<le> bp_burst p * bp_perMs p + EPSILON"
    by (rule take_first [OF assms(2,1) tk])
  obtain g1 bs2 where g1: "take_all name p reqs bs1 = (g1, bs2)" by (cases "take_all name p reqs bs1")
  have "g1 * bp_perMs p \<le> potential p T b1 + of_nat (length reqs) * EPSILON"
    using take_all_some [OF b1(1,2) assms(1) _ _ g1] assms(3) b1(3) by auto
  moreover have "fst (take_all name p ((c0, t0) # reqs) bs) = (case res of Taken _ \<Rightarrow> max 0 c0 + g1 | Retry _ \<Rightarrow> g1)"
    using tk g1 by (auto split: take_result.splits)
  moreover have "max (bp_burst p) 0 = bp_burst p" using assms(1) by (simp add: wf_policy_def)
  ultimately show ?thesis using b1(3,4) by (cases res) (auto simp: potential_def algebra_simps)
qed

interpretation memory_budget: rate_budget "\<lambda>bs name p reqs. fst (take_all name p reqs bs)" "\<lambda>bs name. map_of bs name = None"
  by unfold_locales (rule take_all_conserve)

section \<open>Properties\<close>


definition sample_policy :: budget_policy where
  "sample_policy = \<lparr>bp_requests = 10, bp_perMs = 1000, bp_burst = 10\<rparr>"


lemma ceil_covers:
  assumes "d \<in> \<int>" "n \<in> \<int>" "1 \<le> n" "n < 10 ^ 9"
  shows "d \<le> max 1 (js_ceil (d / n - EPSILON)) * n"
proof -
  obtain i where i: "d = of_int i" using assms(1) by (auto elim: Ints_cases)
  obtain k where k: "n = of_int k" using assms(2) by (auto elim: Ints_cases)
  define r where "r = max 1 \<lceil>d / n - EPSILON\<rceil>"
  have k1: "1 \<le> k" "k < 10 ^ 9" using assms(3,4) by (simp_all add: k)
  have "d / n - EPSILON \<le> of_int r"
  proof -
    have "\<lceil>d / n - EPSILON\<rceil> \<le> r" by (simp add: r_def)
    then show ?thesis by (simp add: ceiling_le_iff)
  qed
  then have "d / n \<le> of_int r + EPSILON" by simp
  then have "d \<le> (of_int r + EPSILON) * n" using assms(3) by (simp add: pos_divide_le_eq)
  moreover have "EPSILON * n < 1" using assms(4) by (simp add: EPSILON_def)
  ultimately have "d < of_int r * n + 1" by (simp add: algebra_simps)
  then have "(of_int i :: rat) < of_int (r * k + 1)" by (simp add: i k)
  then have "i < r * k + 1" by (simp only: of_int_less_iff)
  then have "i \<le> r * k" by linarith
  then have "(of_int i :: rat) \<le> of_int (r * k)" by (simp only: of_int_le_iff)
  then show ?thesis by (simp add: i k r_def js_ceil_def)
qed

text \<open>C37: A refusal tells the truth about when to come back: with whole numbers in the policy, the cost and the
  bucket and a clock that does not run backwards, a request that is refused with \<^verbatim>\<open>retryInMs\<close> is granted when it is repeated after that time, also
  when its cost is above the burst.\<close>

theorem retry_time_suffices:
  assumes "wf_policy p" "take_tokens name cost p now bs = (Retry t, bs')"
    "bp_requests p \<in> \<int>" "bp_requests p < 10 ^ 9" "cost * bp_perMs p \<in> \<int>"
    "bk_scaled (fst (refill name p now (max (bp_burst p) cost) bs)) \<in> \<int>"
    "\<forall>b. map_of bs name = Some b \<longrightarrow> bk_updatedAt b \<le> now"
  shows "\<exists>left. fst (take_tokens name cost p (now + t) bs') = Taken left"
proof -
  obtain b1 bs1 where r: "refill name p now (max (bp_burst p) cost) bs = (b1, bs1)"
    by (cases "refill name p now (max (bp_burst p) cost) bs")
  have cost: "0 < cost" using assms(2) by (auto simp: take_tokens_def Let_def split: if_splits prod.splits)
  then have short: "bs' = bs1" "bk_scaled b1 + EPSILON < cost * bp_perMs p"
    "t = max 1 (js_ceil ((cost * bp_perMs p - bk_scaled b1) / bp_requests p - EPSILON))"
    using assms(2) r by (auto simp: take_tokens_def Let_def split: if_splits)
  have stored: "map_of bs1 name = Some b1"
    using r by (auto simp: refill_def Let_def split: option.splits)
  have upd: "bk_updatedAt b1 = now"
    using r assms(7) by (fastforce simp: refill_def Let_def split: option.splits if_splits)
  have gain: "cost * bp_perMs p - bk_scaled b1 \<le> t * bp_requests p"
    unfolding short(3) using assms r by (intro ceil_covers) (auto simp: wf_policy_def)
  have pos: "0 < bp_perMs p" "1 \<le> bp_requests p" using assms(1) by (auto simp: wf_policy_def)
  have cap: "cost * bp_perMs p \<le> max (bp_burst p) cost * bp_perMs p" using pos by (intro mult_right_mono) auto
  let ?b2 = "\<lparr>bk_scaled = min (max (bp_burst p) cost * bp_perMs p) (bk_scaled b1 + t * bp_requests p), bk_updatedAt = now + t\<rparr>"
  have "1 \<le> t" by (simp add: short(3))
  then have "refill name p (now + t) (max (bp_burst p) cost) bs1 = (?b2, AList.update name ?b2 bs1)"
    using stored upd by (simp add: refill_def Let_def)
  moreover have "cost * bp_perMs p \<le> min (max (bp_burst p) cost * bp_perMs p) (bk_scaled b1 + t * bp_requests p) + EPSILON"
    using gain cap EPSILON_pos by (simp add: min_def)
  ultimately show ?thesis
    using cost short(1) by (simp add: take_tokens_def Let_def)
qed

theorem retry_time_suffices_witness:
  "\<exists>left. fst (take_tokens ''erp'' 1 sample_policy (0 + 100) [(''erp'', \<lparr>bk_scaled = 0, bk_updatedAt = 0\<rparr>)]) = Taken left"
proof (rule retry_time_suffices)
  have "js_ceil ((1000 :: number) / 10 - EPSILON) = 100"
    by (simp add: js_ceil_def EPSILON_def ceiling_eq_iff)
  then show "take_tokens ''erp'' 1 sample_policy 0 [(''erp'', \<lparr>bk_scaled = 0, bk_updatedAt = 0\<rparr>)]
      = (Retry 100, [(''erp'', \<lparr>bk_scaled = 0, bk_updatedAt = 0\<rparr>)])"
    by (simp add: take_tokens_def refill_def sample_policy_def EPSILON_def Let_def)
qed (simp_all add: sample_policy_def wf_policy_def refill_def Let_def)

end
