(* ===== verification/Budget_Manager.thy ===== *)
theory Budget_Manager
  imports Budget_Store
begin

text \<open>
  \<^verbatim>\<open>src/budget/manager.ts\<close>: the queue of requests that wait for tokens of a shared budget. The budget store is
  the port \<^verbatim>\<open>RateBudgetStore\<close>: its \<^verbatim>\<open>take\<close> is an argument that may answer, refuse or throw. One event (a new
  request, an abort, a deadline, a wake-up) runs to the end of the pump before the next one; the instant at
  which the pump waits for the store inside one event is not interleaved with other events, so a waiter
  is settled exactly when it has left the queue and re-entrant pumps come only from deadlines that have
  passed. The outcomes of the promises are a trace.
\<close>

section \<open>State\<close>

fun lane_rank :: "lane \<Rightarrow> nat" where
  "lane_rank Live = 0"
| "lane_rank Reconcile = 1"
| "lane_rank Backfill = 2"
| "lane_rank Replay = 3"

record waiter =
  w_seq :: nat
  w_requester :: string
  w_weight :: number
  w_lane :: lane
  w_cost :: number
  w_enqueuedAt :: number
  w_deadlineAt :: "number option"
  w_armed :: bool

record served_stats =
  ss_count :: number
  ss_weight :: number
  ss_lastSeq :: int

record entry =
  en_name :: string
  en_policy :: resolved_budget
  en_queue :: "waiter list"
  en_served :: "(string, served_stats) jsmap"
  en_grantSeq :: nat
  en_wakeAt :: "number option"

datatype outcome = Granted (o_seq: nat) (o_waitMs: number) | Rejected (o_seq: nat) (o_reason: thrown)

text \<open>The store's \<^verbatim>\<open>take\<close>: name, cost, policy, time.\<close>

type_synonym 's taker = "string \<Rightarrow> number \<Rightarrow> budget_policy \<Rightarrow> number \<Rightarrow> 's \<Rightarrow> (thrown + take_result) \<times> 's"

record 's budget_state =
  bm_entries :: "(string, entry) jsmap"
  bm_store :: 's
  bm_waiterSeq :: nat
  bm_trace :: "outcome list"

section \<open>Choosing a waiter\<close>

fun min_ratio :: "served_stats list \<Rightarrow> number option" where
  "min_ratio [] = None"
| "min_ratio (s # ss) =
     (case min_ratio ss of None \<Rightarrow> Some (ss_count s / ss_weight s) | Some r \<Rightarrow> Some (min (ss_count s / ss_weight s) r))"

definition stats :: "(string, served_stats) jsmap \<Rightarrow> string \<Rightarrow> number \<Rightarrow> served_stats \<times> (string, served_stats) jsmap" where
  "stats served requester weight =
     (case map_of served requester of
        None \<Rightarrow>
          let count = (case min_ratio (map snd served) of None \<Rightarrow> 0 | Some r \<Rightarrow> js_floor (r * weight));
              s = \<lparr>ss_count = count, ss_weight = weight, ss_lastSeq = -1\<rparr>
          in (s, AList.update requester s served)
      | Some s \<Rightarrow> let s' = s\<lparr>ss_weight := weight\<rparr> in (s', AList.update requester s' served))"

definition compare_waiters ::
  "fairness \<Rightarrow> (string, served_stats) jsmap \<Rightarrow> waiter \<Rightarrow> waiter \<Rightarrow> number \<times> (string, served_stats) jsmap" where
  "compare_waiters fair served a b =
     (let laneDelta = of_nat (lane_rank (w_lane a)) - of_nat (lane_rank (w_lane b)) in
      if laneDelta \<noteq> 0 then (laneDelta, served)
      else
        (let (sa, served1) = stats served (w_requester a) (w_weight a);
             (sb, served2) = stats served1 (w_requester b) (w_weight b);
             ratioDelta = ss_count sa / w_weight a - ss_count sb / w_weight b
         in (if fair = Weighted \<and> ratioDelta \<noteq> 0 then ratioDelta
             else if ss_lastSeq sa \<noteq> ss_lastSeq sb then of_int (ss_lastSeq sa - ss_lastSeq sb)
             else of_nat (w_seq a) - of_nat (w_seq b), served2)))"

fun pick_loop ::
  "fairness \<Rightarrow> waiter list \<Rightarrow> waiter option \<Rightarrow> (string, served_stats) jsmap \<Rightarrow> waiter option \<times> (string, served_stats) jsmap" where
  "pick_loop fair [] best served = (best, served)"
| "pick_loop fair (w # ws) best served =
     (case best of
        None \<Rightarrow> pick_loop fair ws (Some w) served
      | Some b \<Rightarrow>
          (let (d, served') = compare_waiters fair served w b
           in pick_loop fair ws (if d < 0 then Some w else Some b) served'))"

definition pick :: "entry \<Rightarrow> waiter option \<times> entry" where
  "pick en =
     (let (best, served) = pick_loop (rb_fairness (en_policy en)) (en_queue en) None (en_served en)
      in (best, en\<lparr>en_served := served\<rparr>))"

section \<open>Settling\<close>

definition settle :: "waiter \<Rightarrow> entry \<Rightarrow> entry" where
  "settle w en = en\<lparr>en_queue := filter (\<lambda>x. w_seq x \<noteq> w_seq w) (en_queue en)\<rparr>"

definition grant :: "number \<Rightarrow> waiter \<Rightarrow> entry \<Rightarrow> outcome \<times> entry" where
  "grant now w en =
     (let en1 = settle w en;
          (s, served) = stats (en_served en1) (w_requester w) (w_weight w);
          seq = en_grantSeq en1 + 1;
          s' = s\<lparr>ss_count := ss_count s + 1, ss_lastSeq := int seq\<rparr>
      in (Granted (w_seq w) (max 0 (now - w_enqueuedAt w)),
          en1\<lparr>en_served := AList.update (w_requester w) s' served, en_grantSeq := seq\<rparr>))"

text \<open>Clock readings are whole milliseconds, which is how the waited time is printed.\<close>

definition timeout_error :: "entry \<Rightarrow> number \<Rightarrow> waiter \<Rightarrow> thrown" where
  "timeout_error en now w = budgetTimeoutError (en_name en) (int_num_str \<lfloor>max 0 (now - w_enqueuedAt w)\<rfloor>)"

text \<open>\<^verbatim>\<open>armDeadlines\<close>: the deadlines that have passed expire at once, the others get a timer.\<close>

fun arm_loop :: "number \<Rightarrow> waiter list \<Rightarrow> entry \<Rightarrow> outcome list \<Rightarrow> entry \<times> outcome list" where
  "arm_loop now [] en out = (en, out)"
| "arm_loop now (w # ws) en out =
     (case w_deadlineAt w of
        None \<Rightarrow> arm_loop now ws en out
      | Some d \<Rightarrow>
          if w_armed w then arm_loop now ws en out
          else if d - now \<le> 0 then
            arm_loop now ws (settle w en) (out @ [Rejected (w_seq w) (timeout_error en now w)])
          else
            arm_loop now ws
              (en\<lparr>en_queue := map (\<lambda>x. if w_seq x = w_seq w then x\<lparr>w_armed := True\<rparr> else x) (en_queue en)\<rparr>) out)"

definition armDeadlines :: "number \<Rightarrow> entry \<Rightarrow> entry \<times> outcome list" where
  "armDeadlines now en = arm_loop now (en_queue en) en []"

section \<open>The pump\<close>

text \<open>The inner loop; every turn that continues has taken a waiter from the queue, so the fuel of one more than
  the length of the queue is enough. The flag says that a deadline expired (\<^verbatim>\<open>repump\<close>).\<close>

fun grant_loop ::
  "'s taker \<Rightarrow> number \<Rightarrow> nat \<Rightarrow> entry \<Rightarrow> 's \<Rightarrow> outcome list \<Rightarrow> bool \<times> entry \<times> 's \<times> outcome list" where
  "grant_loop tk now 0 en st out = (False, en, st, out)"
| "grant_loop tk now (Suc n) en st out =
     (case pick en of
        (None, en1) \<Rightarrow> (False, en1, st, out)
      | (Some w, en1) \<Rightarrow>
          (case tk (en_name en1) (w_cost w) (rb_policy (en_policy en1)) now st of
             (Inl err, st') \<Rightarrow> grant_loop tk now n (settle w en1) st' (out @ [Rejected (w_seq w) err])
           | (Inr (Taken left), st') \<Rightarrow>
               (let (g, en2) = grant now w en1 in grant_loop tk now n en2 st' (out @ [g]))
           | (Inr (Retry ms), st') \<Rightarrow>
               (let (en2, expired) = armDeadlines now en1;
                    en3 = (if en_queue en2 \<noteq> [] then en2\<lparr>en_wakeAt := Some (now + max 1 (js_ceil ms))\<rparr> else en2)
                in (expired \<noteq> [], en3, st', out @ expired))))"

fun pump_loop ::
  "'s taker \<Rightarrow> number \<Rightarrow> nat \<Rightarrow> entry \<Rightarrow> 's \<Rightarrow> outcome list \<Rightarrow> entry \<times> 's \<times> outcome list" where
  "pump_loop tk now 0 en st out = (en, st, out)"
| "pump_loop tk now (Suc n) en st out =
     (let en1 = en\<lparr>en_wakeAt := None\<rparr>;
          (repump, en2, st', out') = grant_loop tk now (Suc (length (en_queue en1))) en1 st out
      in if repump then pump_loop tk now n en2 st' out' else (en2, st', out'))"

definition pump :: "'s taker \<Rightarrow> number \<Rightarrow> entry \<Rightarrow> 's \<Rightarrow> entry \<times> 's \<times> outcome list" where
  "pump tk now en st = pump_loop tk now (Suc (length (en_queue en))) en st []"

section \<open>Events\<close>

definition run_pump :: "'s taker \<Rightarrow> number \<Rightarrow> string \<Rightarrow> entry \<Rightarrow> 's budget_state \<Rightarrow> 's budget_state" where
  "run_pump tk now name en bm =
     (let (en', st', out) = pump tk now en (bm_store bm)
      in bm\<lparr>bm_entries := AList.update name en' (bm_entries bm), bm_store := st', bm_trace := bm_trace bm @ out\<rparr>)"

record acquire_options =
  ao_requester :: string
  ao_weight :: number
  ao_lane :: lane
  ao_cost :: number
  ao_aborted :: "thrown option"
  ao_maxWaitMs :: "number option option"

datatype acquired = AcquireThrows thrown | AcquireResolved | AcquireRejected thrown | AcquireQueued nat

definition acquire ::
  "'s taker \<Rightarrow> number \<Rightarrow> string \<Rightarrow> acquire_options \<Rightarrow> 's budget_state \<Rightarrow> acquired \<times> 's budget_state" where
  "acquire tk now name opts bm =
     (case map_of (bm_entries bm) name of
        None \<Rightarrow> (AcquireThrows (configError (''unknown budget '' @ [CHR 0x27] @ name @ [CHR 0x27]
            @ '': declare it in createWatukuy({ budgets: { '' @ [CHR 0x27] @ name @ [CHR 0x27] @ '': { requests, per } } })'')), bm)
      | Some en \<Rightarrow>
          if ao_cost opts < 0 then (AcquireThrows (budget_msg name '': cost must be a finite number >= 0''), bm)
          else if \<not> ao_weight opts > 0 then (AcquireThrows (budget_msg name '': weight must be > 0''), bm)
          else if ao_cost opts = 0 then (AcquireResolved, bm)
          else case ao_aborted opts of
            Some reason \<Rightarrow> (AcquireRejected reason, bm)
          | None \<Rightarrow>
              (let maxWait = opt_or (ao_maxWaitMs opts) (rb_maxWaitMs (en_policy en));
                   seq = bm_waiterSeq bm + 1;
                   w = \<lparr>w_seq = seq, w_requester = ao_requester opts, w_weight = ao_weight opts, w_lane = ao_lane opts,
                        w_cost = ao_cost opts, w_enqueuedAt = now,
                        w_deadlineAt = map_option (\<lambda>m. now + max 0 m) maxWait, w_armed = False\<rparr>
               in (AcquireQueued seq,
                   run_pump tk now name (en\<lparr>en_queue := en_queue en @ [w]\<rparr>) (bm\<lparr>bm_waiterSeq := seq\<rparr>))))"

definition abort :: "'s taker \<Rightarrow> number \<Rightarrow> string \<Rightarrow> nat \<Rightarrow> thrown \<Rightarrow> 's budget_state \<Rightarrow> 's budget_state" where
  "abort tk now name seq reason bm =
     (case map_of (bm_entries bm) name of
        None \<Rightarrow> bm
      | Some en \<Rightarrow>
          (case filter (\<lambda>w. w_seq w = seq) (en_queue en) of
             [] \<Rightarrow> bm
           | w # _ \<Rightarrow> run_pump tk now name (settle w en) (bm\<lparr>bm_trace := bm_trace bm @ [Rejected seq reason]\<rparr>)))"

definition expire :: "'s taker \<Rightarrow> number \<Rightarrow> string \<Rightarrow> nat \<Rightarrow> 's budget_state \<Rightarrow> 's budget_state" where
  "expire tk now name seq bm =
     (case map_of (bm_entries bm) name of
        None \<Rightarrow> bm
      | Some en \<Rightarrow>
          (case filter (\<lambda>w. w_seq w = seq) (en_queue en) of
             [] \<Rightarrow> bm
           | w # _ \<Rightarrow>
               run_pump tk now name (settle w en) (bm\<lparr>bm_trace := bm_trace bm @ [Rejected seq (timeout_error en now w)]\<rparr>)))"

definition wake :: "'s taker \<Rightarrow> number \<Rightarrow> string \<Rightarrow> 's budget_state \<Rightarrow> 's budget_state" where
  "wake tk now name bm =
     (case map_of (bm_entries bm) name of
        None \<Rightarrow> bm
      | Some en \<Rightarrow>
          (case en_wakeAt en of
             None \<Rightarrow> bm
           | Some _ \<Rightarrow> run_pump tk now name (en\<lparr>en_wakeAt := None\<rparr>) bm))"

definition waiting :: "string \<Rightarrow> 's budget_state \<Rightarrow> nat" where
  "waiting name bm = (case map_of (bm_entries bm) name of None \<Rightarrow> 0 | Some en \<Rightarrow> length (en_queue en))"

fun new_entries :: "(string \<times> budget_config option) list \<Rightarrow> (string, entry) jsmap \<Rightarrow> thrown + (string, entry) jsmap" where
  "new_entries [] es = Inr es"
| "new_entries ((name, cfg) # rest) es =
     (case resolveBudgetPolicy name cfg of
        Inl e \<Rightarrow> Inl e
      | Inr p \<Rightarrow> new_entries rest (AList.update name
          \<lparr>en_name = name, en_policy = p, en_queue = [], en_served = [], en_grantSeq = 0, en_wakeAt = None\<rparr> es))"

definition new_manager :: "(string \<times> budget_config option) list \<Rightarrow> 's \<Rightarrow> thrown + 's budget_state" where
  "new_manager budgets st =
     (case new_entries budgets [] of
        Inl e \<Rightarrow> Inl e
      | Inr es \<Rightarrow> Inr \<lparr>bm_entries = es, bm_store = st, bm_waiterSeq = 0, bm_trace = []\<rparr>)"

section \<open>Lemmas\<close>

definition last_of :: "(string, served_stats) jsmap \<Rightarrow> string \<Rightarrow> int" where
  "last_of served r = (case map_of served r of None \<Rightarrow> -1 | Some s \<Rightarrow> ss_lastSeq s)"

lemma stats_last: "stats served r wt = (s, served') \<Longrightarrow> ss_lastSeq s = last_of served r \<and> last_of served' = last_of served"
  by (auto simp: stats_def last_of_def Let_def fun_eq_iff split: option.splits if_splits)

definition turn_key :: "(string, served_stats) jsmap \<Rightarrow> waiter \<Rightarrow> nat \<times> int \<times> nat" where
  "turn_key served w = (lane_rank (w_lane w), last_of served (w_requester w), w_seq w)"

definition key_less :: "nat \<times> int \<times> nat \<Rightarrow> nat \<times> int \<times> nat \<Rightarrow> bool" where
  "key_less a b \<longleftrightarrow> (case (a, b) of ((r, l, s), (r', l', s')) \<Rightarrow> r < r' \<or> (r = r' \<and> (l < l' \<or> (l = l' \<and> s < s'))))"

lemma compare_key:
  assumes "compare_waiters fair served a b = (d, served')"
  shows "last_of served' = last_of served"
    "fair = RoundRobin \<Longrightarrow> d < 0 \<longleftrightarrow> key_less (turn_key served a) (turn_key served b)"
    "lane_rank (w_lane a) < lane_rank (w_lane b) \<Longrightarrow> d < 0"
    "lane_rank (w_lane b) < lane_rank (w_lane a) \<Longrightarrow> \<not> d < 0"
proof -
  obtain sa s1 where sa: "stats served (w_requester a) (w_weight a) = (sa, s1)" by (cases "stats served (w_requester a) (w_weight a)")
  obtain sb s2 where sb: "stats s1 (w_requester b) (w_weight b) = (sb, s2)" by (cases "stats s1 (w_requester b) (w_weight b)")
  note la = stats_last [OF sa] and lb = stats_last [OF sb]
  show "last_of served' = last_of served"
    "fair = RoundRobin \<Longrightarrow> d < 0 \<longleftrightarrow> key_less (turn_key served a) (turn_key served b)"
    "lane_rank (w_lane a) < lane_rank (w_lane b) \<Longrightarrow> d < 0"
    "lane_rank (w_lane b) < lane_rank (w_lane a) \<Longrightarrow> \<not> d < 0"
    using assms sa sb la lb
    by (auto simp: compare_waiters_def Let_def key_less_def turn_key_def split: if_splits)
qed

lemma pick_loop_in:
  "pick_loop fair ws best served = (res, served') \<Longrightarrow>
     (res = None \<longleftrightarrow> ws = [] \<and> best = None) \<and> (\<forall>w. res = Some w \<longrightarrow> w \<in> set ws \<or> best = Some w)
     \<and> last_of served' = last_of served"
proof (induction fair ws best served rule: pick_loop.induct)
  case (2 fair w ws best served)
  show ?case
  proof (cases best)
    case None
    then show ?thesis using 2 by (auto dest: "2.IH"(1) [OF None])
  next
    case (Some b)
    obtain d s1 where d: "compare_waiters fair served w b = (d, s1)" by (cases "compare_waiters fair served w b")
    have "pick_loop fair ws (if d < 0 then Some w else Some b) s1 = (res, served')"
      using "2.prems" Some d by simp
    from "2.IH"(2) [OF Some d [symmetric] refl this] show ?thesis
      using compare_key(1) [OF d] Some by (auto split: if_splits)
  qed
qed auto

lemma key_less_split: "key_less a c \<Longrightarrow> key_less a b \<or> key_less b c"
  by (auto simp: key_less_def split: prod.splits)

lemma key_less_asym: "key_less a b \<Longrightarrow> \<not> key_less b a"
  by (auto simp: key_less_def split: prod.splits)

text \<open>Under round robin the pick is the least waiter by lane, then last service, then arrival.\<close>

lemma pick_loop_least:
  "\<lbrakk> pick_loop RoundRobin ws best served = (Some w, served'); x \<in> set ws \<or> best = Some x \<rbrakk>
    \<Longrightarrow> \<not> key_less (turn_key served x) (turn_key served w)"
proof (induction RoundRobin ws best served arbitrary: x rule: pick_loop.induct)
  case (1 best served)
  then show ?case by (auto simp: key_less_def split: prod.splits)
next
  case (2 y ws best served)
  show ?case
  proof (cases best)
    case None
    then show ?thesis using 2 by auto
  next
    case (Some b)
    obtain d s1 where d: "compare_waiters RoundRobin served y b = (d, s1)" by (cases "compare_waiters RoundRobin served y b")
    have rec: "pick_loop RoundRobin ws (if d < 0 then Some y else Some b) s1 = (Some w, served')"
      using "2.prems" Some d by simp
    have key: "turn_key s1 = turn_key served" using compare_key(1) [OF d] by (simp add: turn_key_def fun_eq_iff)
    have ih: "\<not> key_less (turn_key served z) (turn_key served w)"
      if "z \<in> set ws \<or> (if d < 0 then Some y else Some b) = Some z" for z
      using "2.hyps"(2) [OF Some d [symmetric] refl rec that] by (simp add: key)
    have win: "d < 0 \<longleftrightarrow> key_less (turn_key served y) (turn_key served b)" using compare_key(2) [OF d] by simp
    show ?thesis
    proof (cases "x \<in> set ws")
      case False
      then have "x = y \<or> x = b" using "2.prems"(2) Some by auto
      then show ?thesis using ih [of y] ih [of b] win key_less_split key_less_asym by (metis option.inject)
    qed (use ih in blast)
  qed
qed

lemma pick_facts:
  assumes "pick en = (res, en')"
  shows "en_queue en' = en_queue en" "en_name en' = en_name en" "en_policy en' = en_policy en" "en_wakeAt en' = en_wakeAt en"
    "res = None \<longleftrightarrow> en_queue en = []" "res = Some w \<Longrightarrow> w \<in> set (en_queue en)"
  using assms pick_loop_in by (auto simp: pick_def Let_def split: prod.splits) blast+

lemma settle_less: "w \<in> set (en_queue en) \<Longrightarrow> length (en_queue (settle w en)) < length (en_queue en)"
  by (auto simp: settle_def intro: length_filter_less)

lemma settle_le: "length (en_queue (settle w en)) \<le> length (en_queue en)"
  by (simp add: settle_def)

lemma grant_facts: "grant now w en = (g, en') \<Longrightarrow> en_queue en' = en_queue (settle w en)"
  by (auto simp: grant_def Let_def split: prod.splits)

lemma arm_loop_le: "arm_loop now ws en out = (en', out') \<Longrightarrow> length (en_queue en') \<le> length (en_queue en)"
proof (induction now ws en out rule: arm_loop.induct)
  case (2 now w ws en out)
  then show ?case using settle_le [of w en] by (fastforce split: option.splits if_splits)
qed simp

lemma arm_loop_less:
  "\<lbrakk> arm_loop now ws en out = (en', out'); out' \<noteq> out; w_seq ` set ws \<subseteq> w_seq ` set (en_queue en) \<rbrakk>
    \<Longrightarrow> length (en_queue en') < length (en_queue en)"
proof (induction now ws en out rule: arm_loop.induct)
  case (2 now w ws en out)
  show ?case
  proof (cases "\<exists>d. w_deadlineAt w = Some d \<and> \<not> w_armed w \<and> d - now \<le> 0")
    case True
    then obtain d where d: "w_deadlineAt w = Some d" "\<not> w_armed w" "d - now \<le> 0" by blast
    then have "length (en_queue en') \<le> length (en_queue (settle w en))"
      using "2.prems"(1) arm_loop_le by fastforce
    moreover obtain x where "x \<in> set (en_queue en)" "w_seq x = w_seq w" using "2.prems"(3) by auto
    then have "length (en_queue (settle w en)) < length (en_queue en)"
      using settle_less [of x en] by (simp add: settle_def)
    ultimately show ?thesis by simp
  next
    case False
    let ?en = "en\<lparr>en_queue := map (\<lambda>x. if w_seq x = w_seq w then x\<lparr>w_armed := True\<rparr> else x) (en_queue en)\<rparr>"
    have seqs: "w_seq ` set (en_queue ?en) = w_seq ` set (en_queue en)"
    proof -
      have "map w_seq (en_queue ?en) = map w_seq (en_queue en)" by simp
      then show ?thesis by (metis set_map)
    qed
    show ?thesis
    proof (cases "w_deadlineAt w = None \<or> w_armed w")
      case True
      then show ?thesis using 2 by (auto split: option.splits)
    next
      case arm: False
      then obtain d where d: "w_deadlineAt w = Some d" "\<not> w_armed w" "\<not> d - now \<le> 0" using False by auto
      then have "arm_loop now ws ?en out = (en', out')" using "2.prems"(1) by simp
      then show ?thesis using "2.IH"(4) [OF d(1) d(2) d(3)] "2.prems"(2,3) seqs by auto
    qed
  qed
qed simp

text \<open>No lost wake-up: a pump leaves an empty queue or a scheduled wake-up.\<close>

definition attended :: "entry \<Rightarrow> bool" where
  "attended en \<longleftrightarrow> en_queue en = [] \<or> en_wakeAt en \<noteq> None"

lemma grant_loop_ends:
  "\<lbrakk> grant_loop tk now n en st out = (repump, en', st', out'); length (en_queue en) < n \<rbrakk>
    \<Longrightarrow> (repump \<longrightarrow> length (en_queue en') < length (en_queue en)) \<and> (\<not> repump \<longrightarrow> attended en')"
proof (induction tk now n en st out rule: grant_loop.induct)
  case (2 tk now n en st out)
  obtain res en1 where p: "pick en = (res, en1)" by (cases "pick en")
  note pf = pick_facts [OF p]
  show ?case
  proof (cases res)
    case None
    then show ?thesis using "2.prems"(1) p pf by (simp add: attended_def)
  next
    case (Some w)
    then have w: "w \<in> set (en_queue en1)" using pf by simp
    obtain tr st1 where t: "tk (en_name en1) (w_cost w) (rb_policy (en_policy en1)) now st = (tr, st1)"
      by (cases "tk (en_name en1) (w_cost w) (rb_policy (en_policy en1)) now st")
    have less: "length (en_queue (settle w en1)) < length (en_queue en)" using settle_less [OF w] pf by simp
    consider (err) e where "tr = Inl e" | (ok) l where "tr = Inr (Taken l)" | (no) ms where "tr = Inr (Retry ms)"
      by (metis sum.exhaust take_result.exhaust)
    then show ?thesis
    proof cases
      case err
      have "length (en_queue (settle w en1)) < n" using less "2.prems"(2) by simp
      then show ?thesis
        using "2.IH"(1) [OF p [symmetric] Some t [symmetric] err] "2.prems"(1) p Some t err less by auto
    next
      case ok
      obtain g en2 where g: "grant now w en1 = (g, en2)" by (cases "grant now w en1")
      have "length (en_queue en2) < n" "length (en_queue en2) < length (en_queue en)"
        using less "2.prems"(2) grant_facts [OF g] by simp_all
      then show ?thesis
        using "2.IH"(2) [OF p [symmetric] Some t [symmetric] ok refl g [symmetric] refl] "2.prems"(1) p Some t ok g by auto
    next
      case no
      obtain en2 ex where a: "armDeadlines now en1 = (en2, ex)" by (cases "armDeadlines now en1")
      have "ex \<noteq> [] \<Longrightarrow> length (en_queue en2) < length (en_queue en1)"
        using a arm_loop_less [of now "en_queue en1" en1 "[]" en2 ex] by (simp add: armDeadlines_def)
      then show ?thesis using "2.prems"(1) p Some t no a pf by (auto simp: attended_def Let_def split: if_splits)
    qed
  qed
qed simp

declare grant_loop.simps [simp del]

lemma pump_loop_ends:
  "\<lbrakk> pump_loop tk now n en st out = (en', st', out'); length (en_queue en) < n \<rbrakk> \<Longrightarrow> attended en'"
proof (induction tk now n en st out rule: pump_loop.induct)
  case (2 tk now n en st out)
  let ?en1 = "en\<lparr>en_wakeAt := None\<rparr>"
  obtain rp en2 st2 out2 where g: "grant_loop tk now (Suc (length (en_queue ?en1))) ?en1 st out = (rp, en2, st2, out2)"
    by (cases "grant_loop tk now (Suc (length (en_queue ?en1))) ?en1 st out") auto
  note ends = grant_loop_ends [OF g]
  show ?case
  proof (cases rp)
    case True
    then have "length (en_queue en2) < n" using ends "2.prems"(2) by simp
    then show ?thesis using "2.IH" [OF refl g [symmetric] refl refl refl True] "2.prems"(1) g True by (auto simp: Let_def)
  next
    case False
    then show ?thesis using ends "2.prems"(1) g by (auto simp: Let_def)
  qed
qed simp

lemma pump_attended: "pump tk now en st = (en', st', out) \<Longrightarrow> attended en'"
  unfolding pump_def by (erule pump_loop_ends) simp

definition all_attended :: "'s budget_state \<Rightarrow> bool" where
  "all_attended bm \<longleftrightarrow> (\<forall>name en. map_of (bm_entries bm) name = Some en \<longrightarrow> attended en)"

inductive bm_step :: "'s taker \<Rightarrow> 's budget_state \<Rightarrow> 's budget_state \<Rightarrow> bool" for tk where
  acquire: "bm_step tk bm (snd (acquire tk now name opts bm))"
| abort: "bm_step tk bm (abort tk now name seq reason bm)"
| expire: "bm_step tk bm (expire tk now name seq bm)"
| wake: "bm_step tk bm (wake tk now name bm)"

lemma run_pump_attended: "all_attended bm \<Longrightarrow> all_attended (run_pump tk now name en bm)"
  by (auto simp: all_attended_def run_pump_def Let_def dest: pump_attended split: prod.splits if_splits)

lemma attended_irrelevant [simp]:
  "all_attended (bm\<lparr>bm_trace := t\<rparr>) = all_attended bm" "all_attended (bm\<lparr>bm_waiterSeq := n\<rparr>) = all_attended bm"
  by (simp_all add: all_attended_def)

lemma bm_step_attended: "all_attended bm \<Longrightarrow> bm_step tk bm bm' \<Longrightarrow> all_attended bm'"
  by (erule bm_step.cases; auto simp: acquire_def abort_def expire_def wake_def Let_def
      intro!: run_pump_attended split: option.splits list.splits)

interpretation bm: transition_inv "bm_step tk" all_attended for tk
  by unfold_locales (rule bm_step_attended)

lemma new_entries_attended:
  "\<lbrakk> new_entries cfgs es = Inr es'; \<forall>name en. map_of es name = Some en \<longrightarrow> attended en; map_of es' name = Some en \<rbrakk>
    \<Longrightarrow> attended en"
proof (induction cfgs es arbitrary: es' rule: new_entries.induct)
  case (2 n cfg rest es)
  obtain p where p: "resolveBudgetPolicy n cfg = Inr p" using "2.prems"(1) by (auto split: sum.splits)
  show ?case
    using "2.prems" p by (intro "2.IH" [OF p]) (auto simp: attended_def)
qed auto

section \<open>Properties\<close>


text \<open>The order of service: with round-robin fairness the waiter that is tried next has the most urgent lane (live,
  reconcile, backfill, replay); among those its requester was served the longest ago, or never; and among
  those it came first.\<close>

theorem round_robin_order:
  assumes "rb_fairness (en_policy en) = RoundRobin" "pick en = (Some w, en')" "x \<in> set (en_queue en)"
  defines "served_at \<equiv> last_of (en_served en)"
  shows "w \<in> set (en_queue en)
    \<and> lane_rank (w_lane w) \<le> lane_rank (w_lane x)
    \<and> (w_lane w = w_lane x \<longrightarrow> served_at (w_requester w) \<le> served_at (w_requester x))
    \<and> (w_lane w = w_lane x \<and> served_at (w_requester w) = served_at (w_requester x) \<longrightarrow> w_seq w \<le> w_seq x)"
proof -
  obtain served where "pick_loop RoundRobin (en_queue en) None (en_served en) = (Some w, served)"
    using assms(1,2) by (auto simp: pick_def Let_def split: prod.splits)
  from pick_loop_least [OF this, of x] assms(3)
  have "\<not> key_less (turn_key (en_served en) x) (turn_key (en_served en) w)" by simp
  then show ?thesis
    using pick_facts(6) [OF assms(2) refl] by (auto simp: key_less_def turn_key_def served_at_def)
qed

definition sample_entry :: entry where
  "sample_entry = \<lparr>en_name = ''erp'', en_policy = \<lparr>rb_policy = sample_policy, rb_fairness = RoundRobin, rb_maxWaitMs = None\<rparr>,
     en_queue = [\<lparr>w_seq = 1, w_requester = ''a/'', w_weight = 1, w_lane = Backfill, w_cost = 1, w_enqueuedAt = 0,
                  w_deadlineAt = None, w_armed = False\<rparr>,
                 \<lparr>w_seq = 2, w_requester = ''b/'', w_weight = 1, w_lane = Live, w_cost = 1, w_enqueuedAt = 0,
                  w_deadlineAt = None, w_armed = False\<rparr>],
     en_served = [], en_grantSeq = 0, en_wakeAt = None\<rparr>"

theorem round_robin_order_witness:
  "\<exists>w en'. pick sample_entry = (Some w, en') \<and> lane_rank (w_lane w) \<le> lane_rank Live"
proof -
  obtain w en' where p: "pick sample_entry = (Some w, en')"
    by (simp add: pick_def sample_entry_def compare_waiters_def)
  from round_robin_order [OF _ p, of "en_queue sample_entry ! 1"] have "lane_rank (w_lane w) \<le> lane_rank Live"
    by (simp add: sample_entry_def)
  with p show ?thesis by blast
qed

definition refusing :: "unit taker" where
  "refusing name cost p now st = (Inr (Retry 100), st)"

definition sample_opts :: acquire_options where
  "sample_opts = \<lparr>ao_requester = ''orders/'', ao_weight = 1, ao_lane = Live, ao_cost = 1, ao_aborted = None, ao_maxWaitMs = None\<rparr>"

definition sample_budget :: budget_config where
  "sample_budget = \<lparr>bg_requests = Dec False 1 1, bg_per = DurNum (Dec False 1 3), bg_burst = None, bg_fairness = None,
     bg_maxWait = None\<rparr>"

definition sample_manager :: "unit budget_state" where
  "sample_manager = \<lparr>bm_entries = [(''erp'', sample_entry\<lparr>en_queue := []\<rparr>)], bm_store = (), bm_waiterSeq = 0, bm_trace = []\<rparr>"

lemma sample_manager_new: "new_manager [(''erp'', Some sample_budget)] () = Inr sample_manager"
  by (simp add: new_manager_def resolveBudgetPolicy_def sample_budget_def parseDuration_def sample_manager_def sample_entry_def
      sample_policy_def Let_def)

lemma sample_queued: "\<exists>en. map_of (bm_entries (snd (acquire refusing 0 ''erp'' sample_opts sample_manager))) ''erp'' = Some en
    \<and> en_queue en \<noteq> []"
  by (simp add: acquire_def sample_manager_def sample_opts_def sample_entry_def run_pump_def pump_def refusing_def
      pick_def grant_loop.simps armDeadlines_def Let_def)


end
