(* ===== verification/Engine.thy ===== *)
theory Engine
  imports Runner Budget_Manager
begin

text \<open>
  \<^verbatim>\<open>src/core/engine.ts\<close>: the pollers of one process, their partitions and consumers, the daemon that runs the due
  keys, the serverless \<^verbatim>\<open>tick()\<close> and the operator's commands. The private fields of \<^verbatim>\<open>WatukuyEngine\<close> are a record
  beside the world. The daemon is event driven: its microtasks, its timer and the completion of a run are
  operations of their own, and a run that was started is a member of \<open>eg_inflight\<close> until \<open>finish_run\<close>. What the
  runs of other keys do meanwhile is part of what the environment does to the store.
\<close>

section \<open>State\<close>

datatype engine_status = Idle | Running | Stopping | Stopped

datatype consumer_kind = HandlerKind | IteratorKind

text \<open>A consumer object: its kind, its identity and whether \<^verbatim>\<open>close()\<close> was called on it.\<close>

record consumer_ref =
  cf_kind :: consumer_kind
  cf_token :: nat
  cf_closed :: bool

record partition =
  pt_key :: string
  pt_data :: jsval

record poller_runtime =
  rt_def :: resolved_poller
  rt_partitions :: "partition list"
  rt_loadedAt :: "number option"
  rt_consumer :: "consumer_ref option"
  rt_warned :: bool

record engine =
  eg_instanceId :: string
  eg_status :: engine_status
  eg_pollers :: "(string, poller_runtime) jsmap"
  eg_budget :: "buckets budget_state option"
  eg_leaseTtlMs :: number
  eg_leaseRenewMs :: number
  eg_batch :: nat
  eg_nextDue :: "(string, number) jsmap"
  eg_inflight :: "(string, string \<times> partition) jsmap"
  eg_timer :: "number option" \<comment> \<open>the delay of the armed timer\<close>
  eg_wakeRequested :: bool
  eg_tokens :: nat \<comment> \<open>number of consumer objects so far\<close>
  eg_sha :: sha256 \<comment> \<open>the host's functions\<close>
  eg_dateParse :: date_parse

type_synonym 'a eio = "(world \<times> engine, thrown, 'a) io"

definition MAX_SLEEP_MS :: number where
  "MAX_SLEEP_MS = 30000"

definition TICK_CONCURRENCY :: nat where
  "TICK_CONCURRENCY = 4"

definition keyId :: "pkey \<Rightarrow> string" where
  "keyId key = json_str (JArr [JStr (k_poller key), JStr (k_partition key)])"

definition alphabet :: string where
  "alphabet = ''abcdefghijklmnopqrstuvwxyz0123456789''"

definition randomId :: "(nat \<Rightarrow> number) \<Rightarrow> string" where
  "randomId random = map (\<lambda>i. alphabet ! nat \<lfloor>random i * of_nat (length alphabet)\<rfloor>) [0..<10]"

section \<open>Construction\<close>

datatype poller_entry = NotADefinition | Definition resolved_poller

record engine_options =
  eo_isObject :: bool
  eo_hasStore :: bool
  eo_pollers :: "(string \<times> poller_entry) list option"
  eo_budgets :: "(string \<times> budget_config option) list"
  eo_instanceId :: "string option"
  eo_ttl :: "duration option"
  eo_renewEvery :: "duration option"
  eo_sourcePrefix :: "string option"
  eo_batch :: "nat option"

definition with_source :: "string option \<Rightarrow> resolved_poller \<Rightarrow> resolved_poller" where
  "with_source sourcePrefix p =
     (case sourcePrefix of
        Some (c # cs) \<Rightarrow> if rp_source p = ''urn:watukuy:'' @ rp_name p then p\<lparr>rp_source := c # cs @ rp_name p\<rparr> else p
      | _ \<Rightarrow> p)"

definition new_runtime :: "resolved_poller \<Rightarrow> poller_runtime" where
  "new_runtime p =
     \<lparr>rt_def = p, rt_partitions = (if rp_hasPartitions p then [] else [\<lparr>pt_key = [], pt_data = VUndef\<rparr>]),
      rt_loadedAt = (if rp_hasPartitions p then None else Some 0), rt_consumer = None, rt_warned = False\<rparr>"

fun add_pollers ::
  "string option \<Rightarrow> (string \<times> poller_entry) list \<Rightarrow> (string, poller_runtime) jsmap \<Rightarrow> thrown + (string, poller_runtime) jsmap" where
  "add_pollers sourcePrefix [] m = Inr m"
| "add_pollers sourcePrefix ((key, NotADefinition) # rest) m =
     Inl (configError (''pollers.'' @ key @ '' is not a definePoller() result''))"
| "add_pollers sourcePrefix ((key, Definition p) # rest) m =
     (if rp_name p \<noteq> key then
        Inl (configError (''pollers.'' @ key @ '' has name '' @ q (rp_name p) @ ''; the object key must equal the poller name''))
      else if rp_name p \<in> fst ` set m then Inl (configError (''duplicate poller name '' @ q (rp_name p)))
      else add_pollers sourcePrefix rest (AList.update (rp_name p) (new_runtime (with_source sourcePrefix p)) m))"

fun check_budgets :: "string list \<Rightarrow> poller_runtime list \<Rightarrow> thrown + unit" where
  "check_budgets names [] = Inr ()"
| "check_budgets names (rt # rts) =
     (case rp_budget (rt_def rt) of
        None \<Rightarrow> check_budgets names rts
      | Some b \<Rightarrow>
          if b \<in> set names then check_budgets names rts
          else Inl (configError (''poller '' @ q (rp_name (rt_def rt)) @ '' references unknown budget '' @ q b)))"

definition createWatukuy :: "engine_options \<Rightarrow> (nat \<Rightarrow> number) \<Rightarrow> sha256 \<Rightarrow> date_parse \<Rightarrow> thrown + engine" where
  "createWatukuy opts random sha dateParse =
     require (eo_isObject opts) ''createWatukuy(options) requires an object'' (
     require (eo_hasStore opts) ''createWatukuy: store is required (MemoryStore, SqliteStore, PostgresStore, RedisStore)'' (
     case eo_pollers opts of
       None \<Rightarrow> Inl (configError ''createWatukuy: pollers must be an object of definePoller() results'')
     | Some entries \<Rightarrow>
         bindR (parseDuration (opt_or (eo_ttl opts) (DurStr ''30s'')) ''lease.ttl'') (\<lambda>ttl.
         bindR (case eo_renewEvery opts of
                  Some d \<Rightarrow> parseDuration d ''lease.renewEvery''
                | None \<Rightarrow> Inr (js_floor (ttl / 3))) (\<lambda>renew.
         require (renew < ttl) ''lease.renewEvery must be shorter than lease.ttl'' (
         bindR (add_pollers (eo_sourcePrefix opts) entries []) (\<lambda>pollers.
         bindR (check_budgets (map fst (eo_budgets opts)) (map snd pollers)) (\<lambda>_.
         bindR (if eo_budgets opts = [] then Inr None else bindR (new_manager (eo_budgets opts) []) (\<lambda>bm. Inr (Some bm))) (\<lambda>budget.
         Inr \<lparr>eg_instanceId = opt_or (eo_instanceId opts) (''watukuy-'' @ randomId random), eg_status = Idle,
              eg_pollers = pollers, eg_budget = budget, eg_leaseTtlMs = ttl, eg_leaseRenewMs = renew,
              eg_batch = opt_or (eo_batch opts) 100, eg_nextDue = [], eg_inflight = [], eg_timer = None,
              eg_wakeRequested = False, eg_tokens = 0, eg_sha = sha, eg_dateParse = dateParse\<rparr>))))))))"

section \<open>Consumers\<close>

definition engine_rt :: "string \<Rightarrow> poller_runtime eio" where
  "engine_rt name =
     bindE (getC (\<lambda>eg. map_of (eg_pollers eg) name)) (\<lambda>r.
     case r of
       None \<Rightarrow> throwE (watukuyError UNKNOWN_POLLER (''unknown poller '' @ q name))
     | Some rt \<Rightarrow> retE rt)"

definition set_rt :: "string \<Rightarrow> (poller_runtime \<Rightarrow> poller_runtime) \<Rightarrow> unit eio" where
  "set_rt name f =
     setC (\<lambda>eg. case map_of (eg_pollers eg) name of
                  None \<Rightarrow> eg
                | Some rt \<Rightarrow> eg\<lparr>eg_pollers := AList.update name (f rt) (eg_pollers eg)\<rparr>)"

definition requestWake :: "unit eio" where
  "requestWake = setC (\<lambda>eg. if eg_status eg \<noteq> Running \<or> eg_wakeRequested eg then eg else eg\<lparr>eg_wakeRequested := True\<rparr>)"

definition attach :: "string \<Rightarrow> consumer_kind \<Rightarrow> nat eio" where
  "attach name kind =
     bindE (getC eg_tokens) (\<lambda>n.
     bindE (set_rt name (\<lambda>r. r\<lparr>rt_consumer := Some \<lparr>cf_kind = kind, cf_token = n, cf_closed = False\<rparr>\<rparr>)) (\<lambda>_.
     bindE (setC (\<lambda>eg. eg\<lparr>eg_tokens := n + 1\<rparr>)) (\<lambda>_.
     bindE requestWake (\<lambda>_. retE n))))"

definition detach :: "string \<Rightarrow> nat \<Rightarrow> unit eio" where
  "detach name token =
     set_rt name (\<lambda>r. if map_option cf_token (rt_consumer r) = Some token then r\<lparr>rt_consumer := None\<rparr> else r)"

definition engine_on :: "string \<Rightarrow> bool \<Rightarrow> nat eio" where
  \<comment> \<open>the returned function is \<^const>\<open>detach\<close> of the returned token\<close>
  "engine_on name handlerIsFunction =
     bindE (engine_rt name) (\<lambda>r.
     case rt_consumer r of
       Some c \<Rightarrow> throwE (configError (''poller '' @ q name @ '' already has a ''
                   @ (if cf_kind c = IteratorKind then ''subscribe() iterator'' else ''handler'') @ ''; one consumer per poller''))
     | None \<Rightarrow>
         if \<not> handlerIsFunction
         then throwE (configError (''engine.on('' @ q name @ '', handler): handler must be a function''))
         else attach name HandlerKind)"

definition engine_subscribe :: "string \<Rightarrow> nat eio" where
  "engine_subscribe name =
     bindE (engine_rt name) (\<lambda>r.
     if rt_consumer r \<noteq> None
     then throwE (configError (''poller '' @ q name @ '' already has a consumer; one consumer per poller''))
     else attach name IteratorKind)"

section \<open>Partitions\<close>

fun truthy :: "jsval \<Rightarrow> bool" where
  "truthy VUndef = False"
| "truthy VNull = False"
| "truthy (VBool b) = b"
| "truthy (VStr s) = (s \<noteq> [])"
| "truthy (VNum x) = (finite_num x \<longrightarrow> num_val x \<noteq> 0)"
| "truthy (VBig i) = (i \<noteq> 0)"
| "truthy _ = True"

fun check_partitions :: "string \<Rightarrow> jsval list \<Rightarrow> string list \<Rightarrow> thrown + partition list" where
  "check_partitions name [] seen = Inr []"
| "check_partitions name (p # ps) seen =
     (case (truthy p, member p ''key'') of
        (True, VStr (c # cs)) \<Rightarrow>
          (if c # cs \<in> set seen then Inl (configError (''poller '' @ q name @ '': duplicate partition key '' @ q (c # cs)))
           else bindR (check_partitions name ps ((c # cs) # seen)) (\<lambda>rest.
                Inr (\<lparr>pt_key = c # cs, pt_data = member p ''data''\<rparr> # rest)))
      | _ \<Rightarrow> Inl (configError (''poller '' @ q name @ '': every partition needs a non-empty string key'')))"

definition key_of :: "poller_runtime \<Rightarrow> partition \<Rightarrow> pkey" where
  "key_of r p = \<lparr>k_poller = rp_name (rt_def r), k_partition = pt_key p\<rparr>"

fun pause_missing :: "env \<Rightarrow> poller_runtime \<Rightarrow> string list \<Rightarrow> number \<Rightarrow> partition list \<Rightarrow> unit eio" where
  "pause_missing en r seen now [] = retE ()"
| "pause_missing en r seen now (old # rest) =
     (if pt_key old \<in> set seen then pause_missing en r seen now rest
      else
        bindE (inW (callS en (saveStateUnfenced (key_of r old) (no_patch\<lparr>sp_paused := Some True, sp_updatedAt := Some now\<rparr>)))) (\<lambda>_.
        bindE (setC (\<lambda>eg. eg\<lparr>eg_nextDue := AList.delete (keyId (key_of r old)) (eg_nextDue eg)\<rparr>)) (\<lambda>_.
        pause_missing en r seen now rest)))"

definition due_if_new :: "number \<Rightarrow> string \<Rightarrow> (string, number) jsmap \<Rightarrow> (string, number) jsmap" where
  "due_if_new now kid m = (if kid \<in> fst ` set m then m else AList.update kid now m)"

definition refreshPartitions :: "env \<Rightarrow> string \<Rightarrow> bool \<Rightarrow> partition list eio" where
  "refreshPartitions en name force =
     bindE (engine_rt name) (\<lambda>r.
     if \<not> rp_hasPartitions (rt_def r) then retE (rt_partitions r)
     else
       bindE (inW (nowE en)) (\<lambda>now.
       if \<not> force \<and> (case rt_loadedAt r of None \<Rightarrow> False | Some t \<Rightarrow> now - t < rp_partitionsRefreshMs (rt_def r))
       then retE (rt_partitions r)
       else
         bindE (inW (getsE (\<lambda>w. e_partitions en (w_tick w) name))) (\<lambda>answer.
         bindE (inW (modifyE (tick en))) (\<lambda>_.
         case answer of
           Inl err \<Rightarrow> retE (rt_partitions r)
         | Inr (VArr _ ps) \<Rightarrow>
             bindE (inW (liftR (check_partitions name ps []))) (\<lambda>listed.
             bindE (pause_missing en r (map pt_key listed) now (rt_partitions r)) (\<lambda>_.
             bindE (setC (\<lambda>eg. eg\<lparr>eg_nextDue := fold (due_if_new now) (map (\<lambda>p. keyId (key_of r p)) listed) (eg_nextDue eg)\<rparr>)) (\<lambda>_.
             bindE (set_rt name (\<lambda>r. r\<lparr>rt_partitions := listed, rt_loadedAt := Some now\<rparr>)) (\<lambda>_.
             retE listed))))
         | Inr _ \<Rightarrow> throwE (configError (''poller '' @ q name @ '': partitions() must return an array''))))))"

fun keys_of :: "env \<Rightarrow> string list \<Rightarrow> (string \<times> partition) list eio" where
  "keys_of en [] = retE []"
| "keys_of en (name # names) =
     bindE (refreshPartitions en name False) (\<lambda>parts.
     bindE (keys_of en names) (\<lambda>rest. retE (map (\<lambda>p. (name, p)) parts @ rest)))"

definition allKeys :: "env \<Rightarrow> (string \<times> partition) list eio" where
  "allKeys en = bindE (getC (\<lambda>eg. map fst (eg_pollers eg))) (\<lambda>names. keys_of en names)"

definition resolvePartition :: "poller_runtime \<Rightarrow> string option \<Rightarrow> thrown + partition" where
  "resolvePartition r part =
     (if \<not> rp_hasPartitions (rt_def r) then Inr \<lparr>pt_key = [], pt_data = VUndef\<rparr>
      else case part of
        None \<Rightarrow> Inl (configError (''poller '' @ q (rp_name (rt_def r)) @ '' is partitioned; pass { partition }''))
      | Some k \<Rightarrow> Inr (opt_or (find (\<lambda>p. pt_key p = k) (rt_partitions r)) \<lparr>pt_key = k, pt_data = VUndef\<rparr>))"

section \<open>Running one key\<close>

definition nextDueFromState :: "resolved_poller \<Rightarrow> poller_state option \<Rightarrow> number \<Rightarrow> number" where
  "nextDueFromState p state now =
     (case state of
        None \<Rightarrow> now
      | Some st \<Rightarrow>
          let next0 = opt_or (nextDueAt (st_schedule st)) now;
              next1 = (case throttledUntil (st_schedule st) of None \<Rightarrow> next0 | Some t \<Rightarrow> max next0 t);
              next2 = (case rp_reconcileEveryMs p of
                         None \<Rightarrow> next1
                       | Some everyMs \<Rightarrow>
                           min next1 (case Option.bind (st_lanes st Reconcile) lc_lastRunAt of
                                        None \<Rightarrow> now | Some lastRun \<Rightarrow> lastRun + everyMs));
              next3 = (if backfillActive st then min next2 now else next2)
          in max next3 now)"

text \<open>A call with a signal of its own, which is never aborted.\<close>

definition own_signal :: "env \<Rightarrow> (env \<Rightarrow> 'a wio) \<Rightarrow> 'a wio" where
  "own_signal en m =
     (\<lambda>w. case m (en\<lparr>e_abort := (\<lambda>_. False)\<rparr>) (w\<lparr>w_outer := False\<rparr>) of (r, w') \<Rightarrow> (r, w'\<lparr>w_outer := w_outer w\<rparr>))"

definition deps_of :: "engine \<Rightarrow> poller_runtime \<Rightarrow> partition \<Rightarrow> runner_deps" where
  "deps_of eg r p =
     \<lparr>rd_poller = rt_def r, rd_key = key_of r p, rd_instanceId = eg_instanceId eg, rd_consumer = (rt_consumer r \<noteq> None),
      rd_batch = eg_batch eg, rd_leaseTtlMs = eg_leaseTtlMs eg, rd_sha = eg_sha eg, rd_dateParse = eg_dateParse eg\<rparr>"

definition next_run :: "engine \<Rightarrow> resolved_poller \<Rightarrow> run_key_result \<Rightarrow> number \<Rightarrow> number" where
  "next_run eg p result now =
     (let next0 = (if rk_reason result = Some Leased then now + max 1000 (js_floor (eg_leaseTtlMs eg / 2))
                   else if rk_reason result = Some Paused then now + MAX_SLEEP_MS
                   else nextDueFromState p (rk_state result) now)
      in case rk_nextRetryAt result of None \<Rightarrow> next0 | Some t \<Rightarrow> min next0 t)"

definition runOne :: "env \<Rightarrow> bool \<Rightarrow> number option \<Rightarrow> bool \<Rightarrow> string \<Rightarrow> partition \<Rightarrow> (run_key_result \<times> number) eio" where
  "runOne en ownSignal deadline force name p =
     bindE (engine_rt name) (\<lambda>r.
     bindE (if rt_consumer r = None \<and> \<not> rt_warned r then set_rt name (\<lambda>r. r\<lparr>rt_warned := True\<rparr>) else retE ()) (\<lambda>_.
     bindE (getC (\<lambda>eg. eg)) (\<lambda>eg.
     bindE (inW (if ownSignal then own_signal en (\<lambda>en. runKey en (deps_of eg r p) deadline force)
                 else runKey en (deps_of eg r p) deadline force)) (\<lambda>result.
     bindE (inW (nowE en)) (\<lambda>now.
     retE (result, next_run eg (rt_def r) result now))))))"

section \<open>Daemon mode\<close>

definition set_due :: "string \<Rightarrow> number \<Rightarrow> unit eio" where
  "set_due kid t = setC (\<lambda>eg. eg\<lparr>eg_nextDue := AList.update kid t (eg_nextDue eg)\<rparr>)"

fun load_due :: "env \<Rightarrow> number \<Rightarrow> (string \<times> partition) list \<Rightarrow> unit eio" where
  "load_due en now [] = retE ()"
| "load_due en now ((name, p) # keys) =
     bindE (engine_rt name) (\<lambda>r.
     bindE (inW (callS en (loadState (key_of r p)))) (\<lambda>state.
     bindE (set_due (keyId (key_of r p)) (case state of None \<Rightarrow> now | Some st \<Rightarrow> nextDueFromState (rt_def r) (Some st) now)) (\<lambda>_.
     load_due en now keys)))"

definition engine_start :: "env \<Rightarrow> unit eio" where
  "engine_start en =
     bindE (getC eg_status) (\<lambda>status.
     if status = Running then retE ()
     else if status = Stopping then throwE (watukuyError NOT_RUNNING ''engine is stopping'')
     else
       bindE (inW (modifyE (\<lambda>w. w\<lparr>w_outer := False\<rparr>))) (\<lambda>_.
       bindE (setC (\<lambda>eg. eg\<lparr>eg_status := Running\<rparr>)) (\<lambda>_.
       bindE (inW (nowE en)) (\<lambda>now.
       bindE (allKeys en) (\<lambda>keys.
       bindE (load_due en now keys) (\<lambda>_. requestWake))))))"

text \<open>The pass of \<^verbatim>\<open>loop\<close> over the keys: the due ones are started, the earliest due time of the others is kept.\<close>

fun start_due :: "number \<Rightarrow> (string \<times> partition) list \<Rightarrow> number \<Rightarrow> number eio" where
  "start_due now [] soonest = retE soonest"
| "start_due now ((name, p) # keys) soonest =
     bindE (getC (\<lambda>eg. eg)) (\<lambda>eg.
     let kid = keyId \<lparr>k_poller = name, k_partition = pt_key p\<rparr> in
     if kid \<in> fst ` set (eg_inflight eg) then start_due now keys soonest
     else let due = opt_or (map_of (eg_nextDue eg) kid) now in
       if due \<le> now
       then bindE (setC (\<lambda>eg. eg\<lparr>eg_inflight := AList.update kid (name, p) (eg_inflight eg)\<rparr>)) (\<lambda>_. start_due now keys soonest)
       else start_due now keys (min soonest due))"

definition engine_loop :: "env \<Rightarrow> unit eio" where
  "engine_loop en =
     bindE (getC eg_status) (\<lambda>status.
     if status \<noteq> Running then retE ()
     else
       bindE (setC (\<lambda>eg. eg\<lparr>eg_timer := None\<rparr>)) (\<lambda>_.
       bindE (inW (nowE en)) (\<lambda>now.
       bindE (allKeys en) (\<lambda>keys.
       bindE (start_due now keys (now + MAX_SLEEP_MS)) (\<lambda>soonest.
       bindE (getC eg_status) (\<lambda>status.
       if status \<noteq> Running then retE ()
       else setC (\<lambda>eg. eg\<lparr>eg_timer := Some (max 0 (min soonest (now + MAX_SLEEP_MS) - now))\<rparr>)))))))"

text \<open>The callbacks of the daemon: the microtask queued by \<^const>\<open>requestWake\<close>, the timer, and the end of a run.\<close>

definition microtask :: "env \<Rightarrow> unit eio" where
  "microtask en = bindE (setC (\<lambda>eg. eg\<lparr>eg_wakeRequested := False\<rparr>)) (\<lambda>_. engine_loop en)"

definition timer_fires :: "env \<Rightarrow> unit eio" where
  "timer_fires en = bindE (setC (\<lambda>eg. eg\<lparr>eg_timer := None\<rparr>)) (\<lambda>_. engine_loop en)"

definition finish_run :: "env \<Rightarrow> string \<Rightarrow> unit eio" where
  "finish_run en kid =
     bindE (getC (\<lambda>eg. map_of (eg_inflight eg) kid)) (\<lambda>job.
     case job of
       None \<Rightarrow> retE ()
     | Some (name, p) \<Rightarrow>
         bindE (catchE
           (bindE (runOne en False None False name p) (\<lambda>(result, next_due). set_due kid next_due))
           (\<lambda>err. bindE (engine_rt name) (\<lambda>r. bindE (inW (nowE en)) (\<lambda>now. set_due kid (now + sc_minMs (rp_schedule (rt_def r))))))) (\<lambda>_.
         bindE (setC (\<lambda>eg. eg\<lparr>eg_inflight := AList.delete kid (eg_inflight eg)\<rparr>)) (\<lambda>_.
         requestWake)))"

text \<open>Waiting for the runs in flight: they end in any order of the model's list, and before each of them the stop
  timeout may be reached, which aborts them.\<close>

fun settle_runs :: "env \<Rightarrow> string list \<Rightarrow> unit eio" where
  "settle_runs en [] = retE ()"
| "settle_runs en (kid # kids) =
     bindE (inW (getsE (\<lambda>w. e_sched en (w_tick w) > 0))) (\<lambda>timeout.
     bindE (inW (if timeout then modifyE (\<lambda>w. w\<lparr>w_outer := True\<rparr>) else retE ())) (\<lambda>_.
     bindE (finish_run en kid) (\<lambda>_. settle_runs en kids)))"

definition close_consumer :: "poller_runtime \<Rightarrow> poller_runtime" where
  "close_consumer r = r\<lparr>rt_consumer := map_option (\<lambda>c. c\<lparr>cf_closed := True\<rparr>) (rt_consumer r)\<rparr>"

definition engine_stop :: "env \<Rightarrow> bool option \<Rightarrow> duration option \<Rightarrow> unit eio" where
  "engine_stop en drain timeout =
     bindE (getC eg_status) (\<lambda>status.
     if status = Idle \<or> status = Stopped then setC (\<lambda>eg. eg\<lparr>eg_status := Stopped\<rparr>)
     else
       bindE (setC (\<lambda>eg. eg\<lparr>eg_status := Stopping, eg_timer := None\<rparr>)) (\<lambda>_.
       bindE (inW (liftR (parseDuration (opt_or timeout (DurStr ''30s'')) ''stop.timeout''))) (\<lambda>timeoutMs.
       bindE (inW (if opt_or drain True then retE () else modifyE (\<lambda>w. w\<lparr>w_outer := True\<rparr>))) (\<lambda>_.
       bindE (getC (\<lambda>eg. map fst (eg_inflight eg))) (\<lambda>pending.
       bindE (settle_runs en pending) (\<lambda>_.
       setC (\<lambda>eg. eg\<lparr>eg_pollers := map (\<lambda>(name, r). (name, close_consumer r)) (eg_pollers eg), eg_status := Stopped\<rparr>)))))))"

section \<open>Serverless mode\<close>

record tick_result =
  ti_polled :: "tick_poll_result list"
  ti_delivered :: nat
  ti_skippedLeased :: nat
  ti_skippedNotDue :: nat
  ti_durationMs :: number
  ti_timedOut :: bool

definition empty_tick :: tick_result where
  "empty_tick = \<lparr>ti_polled = [], ti_delivered = 0, ti_skippedLeased = 0, ti_skippedNotDue = 0, ti_durationMs = 0, ti_timedOut = False\<rparr>"

datatype tick_worker = TReady | TRunning string partition | TDone

record tick_pool =
  tk_queue :: "(string \<times> partition) list"
  tk_workers :: "tick_worker list"
  tk_result :: tick_result
  tk_failed :: "thrown option" \<comment> \<open>the first rejection\<close>

definition count_run :: "run_key_result \<Rightarrow> tick_result \<Rightarrow> tick_result" where
  "count_run r res =
     res\<lparr>ti_skippedLeased := ti_skippedLeased res + (if rk_reason r = Some Leased then 1 else 0),
         ti_skippedNotDue := ti_skippedNotDue res + (if rk_reason r = Some NotDue \<or> rk_reason r = Some Paused then 1 else 0),
         ti_polled := ti_polled res @ rk_results r,
         ti_delivered := ti_delivered res + rk_drainedBefore r + sum_list (map tp_delivered (rk_results r)),
         ti_timedOut := ti_timedOut res \<or> rk_reason r = Some Aborted\<rparr>"

text \<open>A worker takes the next key, or runs the key it has taken.\<close>

definition tick_step :: "env \<Rightarrow> number option \<Rightarrow> nat \<Rightarrow> tick_pool \<Rightarrow> tick_pool eio" where
  "tick_step en deadline i tk =
     (case tk_workers tk ! i of
        TDone \<Rightarrow> retE tk
      | TReady \<Rightarrow>
          (case tk_queue tk of
             [] \<Rightarrow> retE (tk\<lparr>tk_workers := (tk_workers tk)[i := TDone]\<rparr>)
           | (name, p) # queue \<Rightarrow>
               bindE (case deadline of None \<Rightarrow> retE False | Some t \<Rightarrow> bindE (inW (nowE en)) (\<lambda>now. retE (now \<ge> t))) (\<lambda>late.
               if late then retE (tk\<lparr>tk_queue := queue, tk_workers := (tk_workers tk)[i := TDone],
                                    tk_result := (tk_result tk)\<lparr>ti_timedOut := True\<rparr>\<rparr>)
               else retE (tk\<lparr>tk_queue := queue, tk_workers := (tk_workers tk)[i := TRunning name p]\<rparr>)))
      | TRunning name p \<Rightarrow>
          catchE
            (bindE (runOne en True deadline False name p) (\<lambda>(r, _).
             retE (tk\<lparr>tk_workers := (tk_workers tk)[i := TReady], tk_result := count_run r (tk_result tk)\<rparr>)))
            (\<lambda>err. retE (tk\<lparr>tk_workers := (tk_workers tk)[i := TDone],
                            tk_failed := Some (opt_or (tk_failed tk) err)\<rparr>)))"

definition tick_live :: "tick_pool \<Rightarrow> nat list" where
  "tick_live tk = filter (\<lambda>i. tk_workers tk ! i \<noteq> TDone) [0..<length (tk_workers tk)]"

fun tick_loop :: "nat \<Rightarrow> env \<Rightarrow> number option \<Rightarrow> tick_pool \<Rightarrow> tick_pool eio" where
  "tick_loop 0 en deadline tk = bindE (inW (modifyE (\<lambda>w. w\<lparr>w_exhausted := True\<rparr>))) (\<lambda>_. retE tk)"
| "tick_loop (Suc n) en deadline tk =
     (case tick_live tk of
        [] \<Rightarrow> retE tk
      | i # is \<Rightarrow>
          bindE (inW (getsE (\<lambda>w. (i # is) ! (e_sched en (w_tick w) mod length (i # is))))) (\<lambda>j.
          bindE (tick_step en deadline j tk) (\<lambda>tk'. tick_loop n en deadline tk')))"

definition engine_tick :: "env \<Rightarrow> duration option \<Rightarrow> string list option \<Rightarrow> tick_result eio" where
  "engine_tick en maxDuration only =
     bindE (inW (nowE en)) (\<lambda>startedAt.
     bindE (case maxDuration of
              None \<Rightarrow> retE None
            | Some d \<Rightarrow> inW (liftR (bindR (parseDuration d ''tick.maxDuration'') (\<lambda>ms. Inr (Some (startedAt + ms)))))) (\<lambda>deadline.
     bindE (allKeys en) (\<lambda>all.
     let keys = filter (\<lambda>(name, p). case only of None \<Rightarrow> True | Some names \<Rightarrow> name \<in> set names) all in
     bindE (tick_loop (3 * length keys + TICK_CONCURRENCY + 1) en deadline
       \<lparr>tk_queue = keys, tk_workers = replicate (min TICK_CONCURRENCY (length keys)) TReady, tk_result = empty_tick, tk_failed = None\<rparr>) (\<lambda>tk.
     case tk_failed tk of
       Some err \<Rightarrow> throwE err
     | None \<Rightarrow> bindE (inW (nowE en)) (\<lambda>now. retE ((tk_result tk)\<lparr>ti_durationMs := now - startedAt\<rparr>))))))"

section \<open>Operations\<close>

text \<open>The common start of the operations on a key.\<close>

definition with_key :: "env \<Rightarrow> string \<Rightarrow> string option \<Rightarrow> (poller_runtime \<Rightarrow> pkey \<Rightarrow> 'a eio) \<Rightarrow> 'a eio" where
  "with_key en name part f =
     bindE (engine_rt name) (\<lambda>_.
     bindE (refreshPartitions en name False) (\<lambda>_.
     bindE (engine_rt name) (\<lambda>r.
     bindE (inW (liftR (resolvePartition r part))) (\<lambda>p.
     f r \<lparr>k_poller = name, k_partition = pt_key p\<rparr>))))"

definition schedule_or_initial :: "poller_runtime \<Rightarrow> poller_state option \<Rightarrow> number \<Rightarrow> schedule_state" where
  "schedule_or_initial r state now =
     (case state of Some st \<Rightarrow> st_schedule st | None \<Rightarrow> initialScheduleState now (scheduler_of (rt_def r)))"

definition wake_key :: "pkey \<Rightarrow> number \<Rightarrow> unit eio" where
  "wake_key key now = bindE (set_due (keyId key) now) (\<lambda>_. requestWake)"

definition trigger :: "env \<Rightarrow> string \<Rightarrow> string option \<Rightarrow> unit eio" where
  "trigger en name part =
     with_key en name part (\<lambda>r key.
     bindE (inW (nowE en)) (\<lambda>now.
     bindE (inW (callS en (loadState key))) (\<lambda>state.
     bindE (inW (callS en (saveStateUnfenced key
       (no_patch\<lparr>sp_schedule := Some (makeDue (schedule_or_initial r state now) now), sp_updatedAt := Some now\<rparr>)))) (\<lambda>_.
     wake_key key now))))"

definition pause :: "env \<Rightarrow> string \<Rightarrow> string option \<Rightarrow> unit eio" where
  "pause en name part =
     with_key en name part (\<lambda>r key.
     bindE (inW (nowE en)) (\<lambda>now.
     inW (callS en (saveStateUnfenced key (no_patch\<lparr>sp_paused := Some True, sp_updatedAt := Some now\<rparr>)))))"

definition resume :: "env \<Rightarrow> string \<Rightarrow> string option \<Rightarrow> unit eio" where
  "resume en name part =
     with_key en name part (\<lambda>r key.
     bindE (inW (nowE en)) (\<lambda>now.
     bindE (inW (callS en (saveStateUnfenced key (no_patch\<lparr>sp_paused := Some False, sp_updatedAt := Some now\<rparr>)))) (\<lambda>_.
     wake_key key now)))"

definition lanes_of :: "poller_state option \<Rightarrow> lanes" where
  "lanes_of state = (case state of None \<Rightarrow> (\<lambda>_. None) | Some st \<Rightarrow> st_lanes st)"

record backfill_options =
  bo_from :: "string option" \<comment> \<open>\<^const>\<open>None\<close>: \<^verbatim>\<open>null\<close>\<close>
  bo_to :: "string option option" \<comment> \<open>\<^const>\<open>None\<close>: absent\<close>
  bo_partition :: "string option"
  bo_force :: bool

definition raw_cursor :: "strategy \<Rightarrow> string option \<Rightarrow> thrown + string" where
  "raw_cursor strategy raw = bindR (s_fromRaw strategy raw) (s_serialize strategy)"

definition backfill :: "env \<Rightarrow> string \<Rightarrow> backfill_options \<Rightarrow> unit eio" where
  "backfill en name opts =
     bindE (engine_rt name) (\<lambda>r0.
     if is_snapshot (rp_cursor (rt_def r0))
     then throwE (configError (''poller '' @ q name @ '' uses snapshotDiff; backfill is meaningless (every cycle is a full scan)''))
     else with_key en name (bo_partition opts) (\<lambda>r key.
       bindE (getC eg_dateParse) (\<lambda>dp.
       bindE (inW (liftR (getStrategy dp (rp_cursor (rt_def r))))) (\<lambda>strategy.
       bindE (inW (callS en (loadState key))) (\<lambda>state.
       bindE (inW (liftR (raw_cursor strategy (bo_from opts)))) (\<lambda>from.
       bindE (case bo_to opts of
                None \<Rightarrow> retE (Option.bind (lanes_of state Live) lc_cursor)
              | Some None \<Rightarrow> retE None
              | Some (Some t) \<Rightarrow> bindE (inW (liftR (raw_cursor strategy (Some t)))) (\<lambda>s. retE (Some s))) (\<lambda>target.
       bindE (inW (nowE en)) (\<lambda>now.
       bindE (inW (callS en (saveStateUnfenced key (no_patch\<lparr>sp_lanes := Some ((lanes_of state)(Backfill \<mapsto>
           \<lparr>lc_cursor = Some from, lc_target = target, lc_done = Some False, lc_lastRunAt = None, lc_force = Some (bo_force opts)\<rparr>)),
         sp_updatedAt := Some now\<rparr>)))) (\<lambda>_.
       wake_key key now)))))))))"

definition reset_cursor :: "env \<Rightarrow> string \<Rightarrow> string option \<Rightarrow> string option \<Rightarrow> bool \<Rightarrow> unit eio" where
  "reset_cursor en name part to clearSnapshot =
     with_key en name part (\<lambda>r key.
     bindE (getC eg_dateParse) (\<lambda>dp.
     bindE (inW (liftR (getStrategy dp (rp_cursor (rt_def r))))) (\<lambda>strategy.
     bindE (inW (callS en (loadState key))) (\<lambda>state.
     bindE (case to of None \<Rightarrow> retE None
            | Some t \<Rightarrow> bindE (inW (liftR (raw_cursor strategy (Some t)))) (\<lambda>s. retE (Some s))) (\<lambda>cursor.
     bindE (inW (nowE en)) (\<lambda>now.
     bindE (inW (callS en (saveStateUnfenced key (no_patch\<lparr>
         sp_lanes := Some ((lanes_of state)(Live \<mapsto> empty_lane\<lparr>lc_cursor := cursor\<rparr>)),
         sp_schedule := Some (makeDue (schedule_or_initial r state now) now), sp_updatedAt := Some now\<rparr>)))) (\<lambda>_.
     bindE (if clearSnapshot then inW (callS en (clearItems key)) else retE ()) (\<lambda>_.
     wake_key key now))))))))"

subsection \<open>Replay\<close>

fun acquireWithRetry :: "nat \<Rightarrow> env \<Rightarrow> pkey \<Rightarrow> lease eio" where
  "acquireWithRetry 0 en key =
     throwE (watukuyError STORE (''could not acquire lease for '' @ k_poller key @ ''/'' @ k_partition key
       @ '': another instance is polling it''))"
| "acquireWithRetry (Suc n) en key =
     bindE (inW (nowE en)) (\<lambda>now.
     bindE (getC (\<lambda>eg. eg)) (\<lambda>eg.
     bindE (inW (callS en (acquireLease key (eg_instanceId eg) (eg_leaseTtlMs eg) now))) (\<lambda>granted.
     case granted of
       Some lease \<Rightarrow> retE lease
     | None \<Rightarrow> bindE (inW (modifyE (tick en))) (\<lambda>_. acquireWithRetry n en key))))"

text \<open>A point in time as a caller may pass it: a date, a number that is finite or \<^verbatim>\<open>NaN\<close>, or a text.\<close>

datatype replay_time = ReplayDate "int option" | ReplayNum "number option" | ReplayText string

fun to_ms :: "date_parse \<Rightarrow> replay_time \<Rightarrow> number option" where
  "to_ms dp (ReplayDate d) = map_option of_int d"
| "to_ms dp (ReplayNum x) = x"
| "to_ms dp (ReplayText s) = (if finite_num (dp s) then Some (num_val (dp s)) else None)"

fun replay_rows :: "number \<Rightarrow> nat \<Rightarrow> logged_event list \<Rightarrow> outbox_row list" where
  "replay_rows now sequence [] = []"
| "replay_rows now sequence (l # logged) =
     \<lparr>ob_eventId = ev_id (le_event l), ob_sequence = sequence + 1,
      ob_event = (le_event l)\<lparr>ev_lane := Replay, ev_sequence := sequence + 1, ev_attempt := 0\<rparr>,
      ob_status = Pending, ob_attempts = 0, ob_nextAttemptAt = None, ob_lastError = None, ob_createdAt = now\<rparr>
     # replay_rows now (sequence + 1) logged"

fun replay_loop :: "nat \<Rightarrow> env \<Rightarrow> pkey \<Rightarrow> lease \<Rightarrow> number \<Rightarrow> number option \<Rightarrow> nat option \<Rightarrow> nat \<Rightarrow> nat \<Rightarrow> nat wio" where
  "replay_loop 0 en key lease fromTime toTime after sequence replayed =
     bindE (modifyE (\<lambda>w. w\<lparr>w_exhausted := True\<rparr>)) (\<lambda>_. retE replayed)"
| "replay_loop (Suc n) en key lease fromTime toTime after sequence replayed =
     bindE (callS en (readLog key \<lparr>lr_afterSequence = after, lr_fromTime = Some fromTime, lr_toTime = toTime\<rparr> 500)) (\<lambda>logged.
     if logged = [] then retE replayed
     else
       bindE (nowE en) (\<lambda>now.
       let rows = replay_rows now sequence logged; sequence' = sequence + length logged in
       bindE (callS en (commitPoll key lease
         \<lparr>cb_statePatch = no_patch\<lparr>sp_sequence := Some sequence', sp_updatedAt := Some now\<rparr>, cb_upserts = [], cb_deletes = [],
          cb_events = rows, cb_log = False, cb_parked = []\<rparr>)) (\<lambda>_.
       if length logged < 500 then retE (replayed + length rows)
       else replay_loop n en key lease fromTime toTime (Some (le_sequence (List.last logged))) sequence' (replayed + length rows))))"

definition replay :: "env \<Rightarrow> string \<Rightarrow> replay_time \<Rightarrow> replay_time option \<Rightarrow> string option \<Rightarrow> nat eio" where
  "replay en name from to part =
     bindE (engine_rt name) (\<lambda>r0.
     if rp_logRetentionMs (rt_def r0) = None then throwE (replayUnavailableError name)
     else with_key en name part (\<lambda>r key.
       bindE (getC eg_dateParse) (\<lambda>dp.
       case (to_ms dp from, map_option (to_ms dp) to) of
         (Some fromTime, to') \<Rightarrow>
           if to' = Some None then throwE (configError ''replay: from/to must be ISO strings, epoch ms, or Dates'')
           else
             bindE (acquireWithRetry 20 en key) (\<lambda>lease.
             finallyE
               (bindE (inW (callS en (loadState key))) (\<lambda>state.
                bindE (inW (replay_loop (e_fuel en) en key lease fromTime (Option.bind to' (\<lambda>t. t)) None
                  (case state of None \<Rightarrow> 0 | Some st \<Rightarrow> st_sequence st) 0)) (\<lambda>replayed.
                bindE (inW (nowE en)) (\<lambda>now.
                bindE (wake_key key now) (\<lambda>_. retE replayed)))))
               (inW (callS en (releaseLease key lease))))
       | (None, _) \<Rightarrow> throwE (configError ''replay: from/to must be ISO strings, epoch ms, or Dates''))))"

subsection \<open>Parked events and partitions\<close>

definition parked_list :: "env \<Rightarrow> string \<Rightarrow> string option \<Rightarrow> parked_kind option \<Rightarrow> nat option \<Rightarrow> parked_row list eio" where
  "parked_list en name part kind limit = with_key en name part (\<lambda>r key. inW (callS en (listParked key kind limit)))"

definition parked_retry :: "env \<Rightarrow> string \<Rightarrow> string list \<Rightarrow> string option \<Rightarrow> nat eio" where
  "parked_retry en name ids part =
     with_key en name part (\<lambda>r key.
     bindE (inW (callS en (retryParked key ids))) (\<lambda>n.
     bindE (inW (nowE en)) (\<lambda>now.
     bindE (wake_key key now) (\<lambda>_. retE n))))"

definition parked_discard :: "env \<Rightarrow> string \<Rightarrow> string list \<Rightarrow> string option \<Rightarrow> nat eio" where
  "parked_discard en name ids part = with_key en name part (\<lambda>r key. inW (callS en (discardParked key ids)))"

definition partitions_list :: "env \<Rightarrow> string \<Rightarrow> partition list eio" where
  "partitions_list en name = bindE (engine_rt name) (\<lambda>_. refreshPartitions en name True)"

definition partitions_remove :: "env \<Rightarrow> string \<Rightarrow> string \<Rightarrow> unit eio" where
  "partitions_remove en name part =
     bindE (engine_rt name) (\<lambda>_.
     let key = \<lparr>k_poller = name, k_partition = part\<rparr> in
     bindE (inW (callS en (deleteKey key))) (\<lambda>_.
     setC (\<lambda>eg. eg\<lparr>eg_nextDue := AList.delete (keyId key) (eg_nextDue eg)\<rparr>)))"

subsection \<open>Inspection\<close>

record poller_inspect =
  pi_poller :: string
  pi_partition :: string
  pi_paused :: bool
  pi_lease :: "lease option"
  pi_cursors :: "lane \<Rightarrow> json option"
  pi_schedule :: schedule_state
  pi_lastPoll :: "poll_summary option"
  pi_outboxPending :: nat
  pi_parked :: nat
  pi_items :: nat
  pi_lagMs :: "number option"

record inspect_report =
  ir_instanceId :: string
  ir_status :: engine_status
  ir_generatedAt :: number
  ir_pollers :: "poller_inspect list"

definition lag_of :: "strategy \<Rightarrow> poller_state option \<Rightarrow> number \<Rightarrow> number option" where
  "lag_of strategy state now =
     (case Option.bind (lanes_of state Live) lc_cursor of
        None \<Rightarrow> None
      | Some s \<Rightarrow> (case s_deserialize strategy s of Inl e \<Rightarrow> None | Inr c \<Rightarrow> s_lagMs strategy c now))"

fun inspect_keys :: "env \<Rightarrow> number \<Rightarrow> (string \<times> partition) list \<Rightarrow> poller_inspect list eio" where
  "inspect_keys en now [] = retE []"
| "inspect_keys en now ((name, p) # keys) =
     bindE (engine_rt name) (\<lambda>r.
     let key = key_of r p in
     bindE (inW (callS en (loadState key))) (\<lambda>state.
     bindE (getC eg_dateParse) (\<lambda>dp.
     bindE (inW (liftR (getStrategy dp (rp_cursor (rt_def r))))) (\<lambda>strategy.
     bindE (inW (callS en (getLease key))) (\<lambda>lease.
     bindE (inW (callS en (countPending key))) (\<lambda>pending.
     bindE (inW (callS en (countParked key))) (\<lambda>parked.
     bindE (inW (callS en (countItems key))) (\<lambda>items.
     bindE (inspect_keys en now keys) (\<lambda>rest.
     retE (\<lparr>pi_poller = k_poller key, pi_partition = k_partition key,
            pi_paused = (case state of None \<Rightarrow> False | Some st \<Rightarrow> st_paused st), pi_lease = lease,
            pi_cursors = (\<lambda>lane. map_option safeParse (Option.bind (lanes_of state lane) lc_cursor)),
            pi_schedule = schedule_or_initial r state now, pi_lastPoll = Option.bind state (\<lambda>st. lastPoll (st_schedule st)),
            pi_outboxPending = pending, pi_parked = parked, pi_items = items, pi_lagMs = lag_of strategy state now\<rparr> # rest))))))))))"

definition inspect :: "env \<Rightarrow> inspect_report eio" where
  "inspect en =
     bindE (inW (nowE en)) (\<lambda>now.
     bindE (allKeys en) (\<lambda>keys.
     bindE (inspect_keys en now keys) (\<lambda>pollers.
     bindE (getC (\<lambda>eg. eg)) (\<lambda>eg.
     retE \<lparr>ir_instanceId = eg_instanceId eg, ir_status = eg_status eg, ir_generatedAt = now, ir_pollers = pollers\<rparr>))))"

end
