(* ===== verification/Runner_Safety.thy ===== *)
theory Runner_Safety
  imports Runner
begin

text \<open>
  What a cycle and a run of a key can do to the store: a cycle whose lease was taken over changes nothing, no run
  loses an event, and the fetch loop of a cycle is bounded by its page cap.
\<close>

section \<open>Relations between worlds, beside local variables\<close>

definition onW :: "('w \<Rightarrow> 'w \<Rightarrow> bool) \<Rightarrow> 'w \<times> 'c \<Rightarrow> 'w \<times> 'c \<Rightarrow> bool" where
  "onW R s s' \<longleftrightarrow> R (fst s) (fst s')"

context frame_rel
begin

lemma onW_frame: "frame_rel (onW R)"
  by unfold_locales (auto simp: onW_def frame_refl intro: frame_trans)

lemma pres_bind_yields:
  "\<lbrakk> preserves R m; yields P m; \<And>x. P x \<Longrightarrow> preserves R (f x) \<rbrakk> \<Longrightarrow> preserves R (bindE m f)"
  unfolding preserves_def bindE_def yields_def
  by (auto split: prod.splits sum.splits) (metis frame_trans snd_conv)+

lemma pres_finally: "\<lbrakk> preserves R m; preserves R f \<rbrakk> \<Longrightarrow> preserves R (finallyE m f)"
  unfolding preserves_def finallyE_def
  by (auto split: prod.splits sum.splits) (metis frame_trans snd_conv)+

end

lemma onW_in: "preserves R m \<Longrightarrow> preserves (onW R) (inW m)"
  by (auto simp: preserves_def inW_def onW_def split: prod.splits) (metis snd_conv)

lemma onW_get: "(\<And>w. R w w) \<Longrightarrow> preserves (onW R) (getC f)"
  by (simp add: preserves_def getC_def getsE_def onW_def)

lemma onW_set: "(\<And>w. R w w) \<Longrightarrow> preserves (onW R) (setC f)"
  by (auto simp: preserves_def setC_def modifyE_def onW_def split: prod.splits)

lemma onW_run: "preserves (onW R) m \<Longrightarrow> preserves R (\<lambda>w. case m (w, c) of (r, (w', c')) \<Rightarrow> (r, w'))"
  by (auto simp: preserves_def onW_def split: prod.splits) (metis fst_conv snd_conv)

interpretation inertC: frame_rel "onW (inert key l)" for key l
  by (rule inert.onW_frame)

interpretation keptC: frame_rel "onW (kept X key)" for X key
  by (rule kept.onW_frame)

section \<open>A cycle under a lease that was taken over\<close>

lemma pres_rule_case: "preserves R (f a b) \<Longrightarrow> preserves R (case (a, b) of (x, y) \<Rightarrow> f x y)"
  by simp

lemma inert_get: "preserves (onW (inert key l)) (getC f)"
  by (rule onW_get) (rule inert.frame_refl)

lemma inert_set: "preserves (onW (inert key l)) (setC f)"
  by (rule onW_set) (rule inert.frame_refl)

lemmas inertC_rules = inertC.pres_rules inert_get inert_set

lemma inert_build: "preserves (inert key l) (buildEventRow en rd lane type i v d p s c)"
  unfolding buildEventRow_def Let_def by (intro inert_rules pres_lift)

lemma inert_build_rows: "preserves (inert key l) (build_rows en rd lane cursor specs n)"
  by (induction specs arbitrary: n) (auto simp del: bindE_retE intro!: inert_rules inert_build)

lemma inert_traces: "preserves (inert key l) (traces ts)"
  by (induction ts) (auto intro!: inert_rules)

lemma inert_halt: "alone en \<Longrightarrow> preserves (inert (rd_key rd) l) (openCircuitForHalt en rd l state)"
  unfolding openCircuitForHalt_def Let_def by (intro inert_rules harmless_ops)

lemma inert_process:
  assumes "alone en"
  shows "preserves (inert (rd_key rd) l) (processPage en rd lane items n full force cur)"
  unfolding processPage_def Let_def
  by (intro inert_rules pres_lift inert_build_rows harmless_ops assms)

lemma inert_drain: "alone en \<Longrightarrow> preserves (inert (rd_key rd) l) (drainOutbox en (dispatcher_of rd) l hasConsumer)"
  using pres_drainOutbox [of en "dispatcher_of rd" l] by (simp add: dispatcher_of_def)

lemma inert_commit_page:
  assumes "alone en"
  shows "preserves (onW (inert (rd_key rd) (cc_lease cc))) (commit_page en rd cc ser commit)"
  unfolding commit_page_def Let_def
  by (intro inertC_rules onW_in inert_rules inert_traces harmless_ops assms)

lemma inert_after_commit:
  assumes "alone en"
  shows "preserves (onW (inert (rd_key rd) (cc_lease cc))) (after_commit en rd cc)"
  unfolding after_commit_def by (intro inertC_rules onW_in inert_rules assms)

lemma inert_drain_cycle:
  assumes "alone en"
  shows "preserves (onW (inert (rd_key rd) (cc_lease cc))) (drain_cycle en rd cc)"
  unfolding drain_cycle_def by (intro inertC_rules onW_in inert_drain assms)

lemma inert_page_body:
  assumes "alone en"
  shows "preserves (onW (inert (rd_key rd) (cc_lease cc))) (page_body en rd cc page)"
  unfolding page_body_def Let_def
  by (intro inertC_rules onW_in inert_rules pres_lift inert_process inert_commit_page inert_after_commit inert_drain_cycle
      inert_halt assms)

lemma inert_page_loop:
  "alone en \<Longrightarrow> preserves (onW (inert (rd_key rd) (cc_lease cc))) (page_loop en rd cc steps n)"
proof (induction steps arbitrary: n)
  case (Cons s steps)
  then show ?case
    by (cases s) (auto simp del: bindE_retE intro!: inertC_rules onW_in inert_page_body pres_call harmless_ops)
qed (simp add: inertC.pres_ret)

lemma inert_fetch_loop:
  "alone en \<Longrightarrow> preserves (onW (inert (rd_key rd) (cc_lease cc))) (fetch_loop n en rd cc)"
proof (induction n)
  case 0
  show ?case by (simp only: fetch_loop.simps) (intro onW_in pres_exhausted)
next
  case (Suc n)
  show ?case unfolding fetch_loop.simps fetch_turn_def
    by (intro inertC_rules onW_in inert_rules pres_lift pres_tick inert_page_loop Suc)
qed

lemma inert_delete_rows:
  "preserves (onW (inert (rd_key rd) l)) (delete_rows en rd cc rows missing)"
proof (induction missing)
  case (Cons i missing)
  then show ?case unfolding delete_rows.simps Let_def
    by (intro inertC_rules onW_in pres_lift inert_build)
qed (simp add: inertC.pres_ret)

lemma inert_delete_missing:
  assumes "alone en"
  shows "preserves (onW (inert (rd_key rd) (cc_lease cc))) (delete_missing en rd cc)"
  unfolding delete_missing_def Let_def
  by (intro inertC_rules onW_in inert_rules inert_traces inert_delete_rows inert_drain_cycle harmless_ops assms)

lemma inert_plan: "preserves (inert key l) (plan_next en rd cc c summary)" "preserves (inert key l) (plan_failure en rd cc sch err)"
  unfolding plan_next_def plan_failure_def Let_def by (intro inert_rules)+

lemma inert_finish_cycle:
  assumes "alone en"
  shows "preserves (onW (inert (rd_key rd) (cc_lease cc))) (finish_cycle en rd cc)"
  unfolding finish_cycle_def Let_def
  by (intro inertC_rules onW_in inert_rules pres_lift inert_plan harmless_ops assms)

lemma inert_fail_cycle:
  assumes "alone en"
  shows "preserves (onW (inert (rd_key rd) (cc_lease cc))) (fail_cycle en rd cc err)"
  unfolding fail_cycle_def Let_def keeper_is_lost_def
  by (intro inertC_rules onW_in inert_rules inert_plan harmless_ops assms)

lemma inert_cycle_body:
  assumes "alone en"
  shows "preserves (onW (inert (rd_key rd) (cc_lease cc))) (cycle_body en rd cc)"
  unfolding cycle_body_def
  by (intro inertC_rules onW_in inert_fetch_loop inert_delete_missing inert_finish_cycle inert_fail_cycle assms)

lemma inert_runCycle:
  assumes "alone en"
  shows "preserves (inert (rd_key rd) lease) (runCycle en rd lease deadline state lane)"
proof -
  have "preserves (inert (rd_key rd) lease) (\<lambda>w. case cycle_body en rd cc (w, c) of (r, (w', c')) \<Rightarrow> (r, w'))"
    if "cc_lease cc = lease" for cc c
    using onW_run [OF inert_cycle_body [OF assms, of rd cc]] that by simp
  then show ?thesis unfolding runCycle_def Let_def by (intro inert_rules pres_lift) simp_all
qed

text \<open>C2: A cycle whose lease has been taken over is inert: when another instance holds the key (the stored lease is
  not the one of the cycle), the whole cycle, with its heartbeat, its commits, its deliveries and its final
  save, leaves every record of the store as it was, whatever it fetched and however it ends.\<close>

theorem stale_cycle_is_inert:
  assumes "alone en" "\<not> matches (rec_of (w_store w) (rd_key rd)) lease"
    "\<forall>k. w_keeper w = Some k \<longrightarrow> lk_key k = rd_key rd \<and> l_owner (lk_lease k) = l_owner lease \<and> l_epoch (lk_lease k) = l_epoch lease"
    "runCycle en rd lease deadline state lane w = (res, w')"
  shows "rec_of (w_store w') = rec_of (w_store w)"
proof -
  have "inert (rd_key rd) lease w w'" using inert_runCycle [OF assms(1)] assms(4) by (rule preservesD)
  then show ?thesis using assms(2,3) by (auto simp: inert_def keeps_def keeper_of_def)
qed

section \<open>No run loses an event\<close>

lemma hex_digit_plain:
  assumes "n < 16"
  shows "hex_digit n \<noteq> CHR '':''"
proof -
  have "list_all (\<lambda>n. hex_digit n \<noteq> CHR '':'') [0..<16]" by code_simp
  then show ?thesis using assms by (simp add: list_all_iff)
qed

lemma hex_plain: "CHR '':'' \<notin> set (toHex bs)"
proof -
  have "CHR '':'' \<notin> set (hex_byte b)" for b
  proof -
    have "unat b < 256" using unsigned_less [of b, where ?'a = nat] by simp
    then have "unat b div 16 < 16" "unat b mod 16 < 16" by simp_all
    then show ?thesis using hex_digit_plain by (metis hex_byte_def insert_iff list.set(1,2) empty_iff)
  qed
  then show ?thesis by (simp add: toHex_def)
qed

lemma event_id_plain: "plain_id (eventId sha parts)"
  by (simp add: plain_id_def eventId_def sha256Hex_def hex_plain)

lemma build_good: "yields good_row (buildEventRow en rd lane type i v d p s c)"
  unfolding buildEventRow_def Let_def
  by (intro yields_rules) (simp add: good_row_def row_ok_def event_id_plain)

lemma build_rows_good: "yields (\<lambda>rows. \<forall>row \<in> set rows. good_row row) (build_rows en rd lane cursor specs n)"
proof (induction specs arbitrary: n)
  case (Cons spec specs)
  obtain ty i v d p where s: "spec = (ty, i, v, d, p)" by (cases spec)
  show ?case
    unfolding s build_rows.simps
    using build_good Cons by (fastforce simp: yields_def bindE_Inr retE_Inr)
qed (simp add: yields_def retE_def)

definition good_commit :: "page_commit \<Rightarrow> bool" where
  "good_commit commit \<longleftrightarrow> (\<forall>row \<in> set (pm_events commit). good_row row)
     \<and> (\<forall>row \<in> set (pm_parked commit). pk_kind row = Invalid \<and> parked_ok (pk_id row) row)"

lemma invalid_row_ok: "pk_kind (invalid_row sha now bad) = Invalid \<and> parked_ok (pk_id (invalid_row sha now bad)) (invalid_row sha now bad)"
  by (simp add: invalid_row_def parked_ok_def plain_id_def)

lemma yields_case: "(\<And>x y. z = (x, y) \<Longrightarrow> yields P (f x y)) \<Longrightarrow> yields P (case z of (x, y) \<Rightarrow> f x y)"
  by (cases z) simp

lemma yields_bind_from: "yields Q m \<Longrightarrow> (\<And>x. Q x \<Longrightarrow> yields P (f x)) \<Longrightarrow> yields P (bindE m f)"
  unfolding yields_def bindE_Inr by blast

lemma process_good: "yields good_commit (processPage en rd lane items n full force cur)"
proof -
  have parked: "\<forall>row \<in> set (if b then map (invalid_row sha now) bad else []). pk_kind row = Invalid \<and> parked_ok (pk_id row) row" for b sha now bad
    using invalid_row_ok by auto
  show ?thesis
    unfolding processPage_def Let_def
    by (intro yields_bind yields_case yields_if yields_throw yields_bind_from [OF build_rows_good] yields_ret)
      (use parked in \<open>auto simp: good_commit_def\<close>)
qed

lemma kept_get: "preserves (onW (kept X key)) (getC f)"
  by (rule onW_get) (rule kept.frame_refl)

lemma kept_set: "preserves (onW (kept X key)) (setC f)"
  by (rule onW_set) (rule kept.frame_refl)

lemmas kept_rules = kept.pres_rules kept_basic kept_trace kept_call kept_renewNow
lemmas keptC_rules = keptC.pres_rules kept_get kept_set

lemma kept_build: "preserves (kept X key) (buildEventRow en rd lane type i v d p s c)"
  unfolding buildEventRow_def Let_def by (intro kept_rules)

lemma kept_build_rows: "preserves (kept X key) (build_rows en rd lane cursor specs n)"
  by (induction specs arbitrary: n) (auto simp del: bindE_retE intro!: kept_rules kept_build)

lemma kept_traces: "preserves (kept X key) (traces ts)"
  by (induction ts) (auto intro!: kept_rules)

lemma kept_halt: "keeps_events en \<Longrightarrow> preserves (kept X key) (openCircuitForHalt en rd l state)"
  unfolding openCircuitForHalt_def Let_def by (intro kept_rules safe_writes)

lemma kept_process:
  assumes "keeps_events en"
  shows "preserves (kept X key) (processPage en rd lane items n full force cur)"
  unfolding processPage_def Let_def
  by (intro kept_rules kept_build_rows safe_reads assms)

lemma kept_drain: "keeps_events en \<Longrightarrow> preserves (kept {} (rd_key rd)) (drainOutbox en (dispatcher_of rd) l hasConsumer)"
  using kept_drainOutbox [of en "dispatcher_of rd" l] by (simp add: dispatcher_of_def)

lemma kept_commit_page:
  assumes "keeps_events en" "good_commit commit"
  shows "preserves (onW (kept X key)) (commit_page en rd cc ser commit)"
proof -
  have "safe_op X key (commitPoll k l \<lparr>cb_statePatch = sp, cb_upserts = pm_upserts commit, cb_deletes = [],
      cb_events = pm_events commit, cb_log = lg, cb_parked = pm_parked commit\<rparr>)" for k l sp lg
    using assms(2) by (intro safe_commit) (auto simp: good_commit_def good_row_def)
  then show ?thesis
    unfolding commit_page_def Let_def by (intro keptC_rules onW_in kept_rules kept_traces assms)
qed

lemma kept_after_commit: "keeps_events en \<Longrightarrow> preserves (onW (kept X key)) (after_commit en rd cc)"
  unfolding after_commit_def by (intro keptC_rules onW_in kept_rules)

lemma kept_drain_cycle: "keeps_events en \<Longrightarrow> preserves (onW (kept {} (rd_key rd))) (drain_cycle en rd cc)"
  unfolding drain_cycle_def by (intro keptC_rules onW_in kept_drain)

lemma yields_in: "yields P m \<Longrightarrow> yields P (inW m)"
  by (fastforce simp: yields_def inW_def split: prod.splits)

lemma kept_page_body:
  assumes "keeps_events en"
  shows "preserves (onW (kept {} (rd_key rd))) (page_body en rd cc page)"
  unfolding page_body_def Let_def
  by (intro keptC.pres_bind [OF kept_set] keptC.pres_bind [OF kept_get] keptC.pres_bind [OF onW_in [OF kept_basic(1)]]
      keptC.pres_bind [OF onW_in [OF kept_trace]] keptC.pres_bind [OF onW_in [OF kept_basic(6)]] keptC.pres_prod
      keptC.pres_bind_yields [OF onW_in [OF kept_process [OF assms]] yields_in [OF process_good]]
      keptC.pres_bind [OF keptC.pres_option] keptC.pres_bind [OF kept_commit_page] keptC.pres_bind [OF kept_drain_cycle]
      keptC.pres_bind [OF onW_in [OF kept_halt]] keptC.pres_if keptC.pres_ret kept_after_commit onW_in kept_basic assms)

lemma kept_page_loop:
  "keeps_events en \<Longrightarrow> preserves (onW (kept {} (rd_key rd))) (page_loop en rd cc steps n)"
proof (induction steps arbitrary: n)
  case (Cons s steps)
  then show ?case
    by (cases s) (auto simp del: bindE_retE intro!: keptC_rules onW_in kept_page_body kept_call safe_writes)
qed (simp add: keptC.pres_ret)

lemma kept_fetch_loop:
  "keeps_events en \<Longrightarrow> preserves (onW (kept {} (rd_key rd))) (fetch_loop n en rd cc)"
proof (induction n)
  case 0
  show ?case by (simp only: fetch_loop.simps) (intro onW_in kept_basic)
next
  case (Suc n)
  show ?case unfolding fetch_loop.simps fetch_turn_def
    by (intro keptC_rules onW_in kept_rules kept_page_loop Suc)
qed

lemma delete_rows_good: "yields (\<lambda>rows. \<forall>row \<in> set rows. good_row row) (delete_rows en rd cc rows missing)"
proof (induction missing)
  case (Cons i missing)
  have "yields (\<lambda>rows. \<forall>row \<in> set rows. good_row row) (bindE (inW (buildEventRow en rd lane type j v d p s c))
     (\<lambda>ev. bindE (delete_rows en rd cc rows missing) (\<lambda>evs. retE (ev # evs))))" for lane type j v d p s c
    by (intro yields_bind_from [OF yields_in [OF build_good]] yields_bind_from [OF Cons] yields_ret) auto
  with Cons show ?case
    unfolding delete_rows.simps Let_def
    by (intro yields_option) (auto intro!: yields_bind [of _ _ "setC _"] yields_bind [of _ _ "getC _"]
        yields_bind [of _ _ "inW (liftR _)"])
qed (simp add: yields_def retE_def)

lemma kept_delete_rows: "preserves (onW (kept X key)) (delete_rows en rd cc rows missing)"
proof (induction missing)
  case (Cons i missing)
  then show ?case unfolding delete_rows.simps Let_def
    by (intro keptC_rules onW_in kept_basic kept_build)
qed (simp add: keptC.pres_ret)

lemma kept_delete_missing:
  assumes "keeps_events en"
  shows "preserves (onW (kept {} (rd_key rd))) (delete_missing en rd cc)"
proof -
  have "safe_op {} (rd_key rd) (commitPoll k l \<lparr>cb_statePatch = sp, cb_upserts = [], cb_deletes = ms,
      cb_events = evs, cb_log = lg, cb_parked = []\<rparr>)" if "\<forall>row \<in> set evs. good_row row" for k l sp lg ms evs
    using that by (intro safe_commit) (auto simp: good_row_def)
  then show ?thesis
    unfolding delete_missing_def Let_def
    by (intro keptC.pres_bind [OF onW_in [OF kept_call [OF assms safe_reads(3)]]] keptC.pres_bind [OF kept_get] keptC.pres_if
        keptC.pres_ret keptC.pres_bind [OF onW_in [OF kept_call [OF assms safe_reads(2)]]]
        keptC.pres_bind_yields [OF kept_delete_rows delete_rows_good] keptC.pres_bind [OF onW_in [OF kept_basic(1)]]
        keptC.pres_prod keptC.pres_bind [OF onW_in [OF kept_call [OF assms]]] keptC.pres_bind [OF kept_set]
        keptC.pres_bind [OF onW_in [OF kept_trace]] keptC.pres_bind [OF onW_in [OF kept_traces]]
        keptC.pres_bind [OF kept_drain_cycle [OF assms]])
qed

lemma kept_plan: "preserves (kept X key) (plan_next en rd cc c summary)" "preserves (kept X key) (plan_failure en rd cc sch err)"
  unfolding plan_next_def plan_failure_def Let_def by (intro kept_rules)+

lemma kept_finish_cycle: "keeps_events en \<Longrightarrow> preserves (onW (kept X key)) (finish_cycle en rd cc)"
  unfolding finish_cycle_def Let_def by (intro keptC_rules onW_in kept_rules kept_plan safe_writes)

lemma kept_fail_cycle: "keeps_events en \<Longrightarrow> preserves (onW (kept X key)) (fail_cycle en rd cc err)"
  unfolding fail_cycle_def Let_def keeper_is_lost_def by (intro keptC_rules onW_in kept_rules kept_plan safe_writes)

lemma kept_cycle_body: "keeps_events en \<Longrightarrow> preserves (onW (kept {} (rd_key rd))) (cycle_body en rd cc)"
  unfolding cycle_body_def
  by (intro keptC_rules kept_fetch_loop kept_delete_missing kept_finish_cycle kept_fail_cycle)

lemma kept_runCycle:
  assumes "keeps_events en"
  shows "preserves (kept {} (rd_key rd)) (runCycle en rd lease deadline state lane)"
  unfolding runCycle_def Let_def by (intro kept_rules onW_run kept_cycle_body assms)

lemma kept_run_lane: "keeps_events en \<Longrightarrow> preserves (onW (kept {} (rd_key rd))) (run_lane en rd lease deadline lane state)"
  unfolding run_lane_def by (intro keptC_rules onW_in kept_runCycle)

lemma kept_run_lanes:
  assumes "keeps_events en"
  shows "preserves (onW (kept {} (rd_key rd))) (run_lanes en rd lease deadline force halted state)"
  unfolding run_lanes_def bind_state_def by (intro keptC_rules onW_in kept_basic kept_run_lane assms)

lemma kept_run_leased:
  assumes "keeps_events en"
  shows "preserves (onW (kept {} (rd_key rd))) (run_leased en rd lease deadline force)"
  unfolding run_leased_def Let_def
  by (intro keptC_rules onW_in kept_rules kept_drain kept_halt kept_run_lanes safe_reads assms)

lemma kept_lost: "preserves (onW (kept X key)) (lost_lease lease err)"
  unfolding lost_lease_def keeper_is_lost_def by (intro keptC_rules onW_in kept_rules)

lemma onW_run_result:
  "preserves (onW R) m \<Longrightarrow> preserves R (\<lambda>w. case m (w, c) of (Inl e, (w', _)) \<Rightarrow> (Inl e, w') | (Inr _, (w', c')) \<Rightarrow> (Inr c', w'))"
  by (auto simp: preserves_def onW_def split: prod.splits sum.splits) (metis fst_conv snd_conv)+

lemma kept_same_mod: "(\<And>w. w_store (f w) = w_store w \<and> w_trace (f w) = w_trace w) \<Longrightarrow> preserves (kept X key) (modifyE f)"
  by (intro kept.pres_modify kept_same) simp_all

lemma kept_release: "keeps_events en \<Longrightarrow> preserves (kept X key) (release_key en rd lease)"
  unfolding release_key_def keeper_stop_def by (intro kept_rules kept_same_mod safe_writes) simp

lemma kept_runKey:
  assumes "keeps_events en"
  shows "preserves (kept {} (rd_key rd)) (runKey en rd deadline force)"
  unfolding runKey_def Let_def link_signal_def keeper_start_def
  by (intro kept_rules kept.pres_finally onW_run_result keptC.pres_catch kept_run_leased kept_lost kept_release
      kept_same_mod safe_reads safe_writes assms) simp_all

text \<open>C1: No run of a key loses an event: whatever is polled, delivered, parked, replayed or aborted in it, whatever
  fails, and whatever commits and leases of others happen in between, an event that was pending or parked as
  poison before is pending or parked afterwards, unless the consumer accepted it during the run.\<close>

theorem run_at_least_once:
  assumes "keeps_events en" "rec_ok (rec_of (w_store w) (rd_key rd))" "runKey en rd deadline force w = (res, w')"
    "i \<in> undelivered (rec_of (w_store w) (rd_key rd))"
  shows "i \<in> undelivered (rec_of (w_store w') (rd_key rd))
    \<or> (\<exists>ev. ev_id ev = i \<and> TOutcome ev True \<in> set (drop (length (w_trace w)) (w_trace w')))"
proof -
  have "kept {} (rd_key rd) w w'" using kept_runKey [OF assms(1)] assms(3) by (rule preservesD)
  then show ?thesis using assms(2,4) by (auto simp: kept_def accepted_def)
qed

text \<open>A runner for the sample poller, whose hash is a byte per character.\<close>

definition toy_sha :: sha256 where
  "toy_sha s = map (\<lambda>c. of_nat (of_char c)) s"

definition sample_runner :: runner_deps where
  "sample_runner = \<lparr>rd_poller = sample_poller, rd_key = sample_key, rd_instanceId = ''a'', rd_consumer = True, rd_batch = 10,
     rd_leaseTtlMs = 10, rd_sha = toy_sha, rd_dateParse = (\<lambda>_. mk_num False 0 0)\<rparr>"

theorem run_at_least_once_witness:
  "''e1'' \<in> undelivered (rec_of (w_store (snd (runKey refusing_env sample_runner None True sample_world))) sample_key)
   \<or> (\<exists>ev. ev_id ev = ''e1'' \<and> TOutcome ev True \<in> set (drop (length (w_trace sample_world))
        (w_trace (snd (runKey refusing_env sample_runner None True sample_world)))))"
proof -
  have "keeps_events refusing_env" by (intro alone_keeps_events) (simp add: alone_def refusing_env_def sample_env_def)
  moreover have "''e1'' \<in> undelivered (rec_of sample_store sample_key)"
    by (simp add: sample_store_def acquire_rec commitPoll_def fenced_rec matches_def lease_a_def undelivered_def
        commit_record_def applyPatch_def Let_def sample_batch_def sample_row_def retried_row_def sample_event_def)
  ultimately show ?thesis
    using run_at_least_once [of refusing_env sample_world sample_runner None True] sample_store_ok
    by (metis (no_types, lifting) runner_deps.select_convs(2) prod.collapse sample_runner_def sample_world_def world.select_convs(1))
qed

theorem stale_cycle_is_inert_witness:
  "rec_of (w_store (snd (runCycle sample_env sample_runner (lease_a\<lparr>l_epoch := 7\<rparr>) None (emptyState 0 sample_poller) Live sample_world)))
     = rec_of sample_store"
proof -
  have "\<not> matches (rec_of sample_store sample_key) (lease_a\<lparr>l_epoch := 7\<rparr>)"
    by (simp add: sample_store_def acquire_rec commitPoll_def fenced_rec matches_def lease_a_def commit_record_def
        applyPatch_def Let_def)
  moreover have "alone sample_env" by (simp add: alone_def sample_env_def)
  ultimately show ?thesis
    using stale_cycle_is_inert [of sample_env sample_world sample_runner "lease_a\<lparr>l_epoch := 7\<rparr>" None "emptyState 0 sample_poller" Live]
    by (simp add: sample_world_def sample_runner_def) (metis prod.collapse)
qed

end
