(* ===== verification/Runner_Progress.thy ===== *)
theory Runner_Progress
  imports Runner_Safety
begin

text \<open>
  How a cycle progresses: the sequence numbers of the events of a page, the bound on the pages of a cycle, that
  the fuel of the fetch loop is enough, and which errors leave a cycle.
\<close>

section \<open>Errors that leave a computation\<close>

text \<open>\<open>throws P m\<close>: every error that \<open>m\<close> throws satisfies \<open>P\<close>.\<close>

definition throws :: "('e \<Rightarrow> bool) \<Rightarrow> ('w, 'e, 'a) io \<Rightarrow> bool" where
  "throws P m \<longleftrightarrow> (\<forall>w e w'. m w = (Inl e, w') \<longrightarrow> P e)"

lemma throwsD: "throws P m \<Longrightarrow> m w = (Inl e, w') \<Longrightarrow> P e"
  unfolding throws_def by blast

lemma throws_ret: "throws P (retE x)"
  by (simp add: throws_def retE_def)

lemma throws_throw: "P e \<Longrightarrow> throws P (throwE e)"
  by (simp add: throws_def throwE_def)

lemma throws_bind: "throws P m \<Longrightarrow> (\<And>x. throws P (f x)) \<Longrightarrow> throws P (bindE m f)"
  unfolding throws_def bindE_def by (auto split: prod.splits sum.splits)

lemma throws_catch: "(\<And>e. throws P (h e)) \<Longrightarrow> throws P (catchE m h)"
  unfolding throws_def catchE_def by (auto split: prod.splits sum.splits)

lemma throws_if: "(b \<Longrightarrow> throws P m) \<Longrightarrow> (\<not> b \<Longrightarrow> throws P n) \<Longrightarrow> throws P (if b then m else n)"
  by simp

lemma throws_let: "(\<And>x. throws P (f x)) \<Longrightarrow> throws P (let x = z in f x)"
  by simp

lemma throws_in: "throws P m \<Longrightarrow> throws P (inW m)"
  by (auto simp: throws_def inW_def split: prod.splits)

lemma throws_basic:
  "throws P (nowE en)" "throws P (randomE en)" "throws P (traceE t)" "throws P abortedE" "throws P (getC f)" "throws P (setC g)"
  "throws P keeper_is_lost"
  by (auto simp: throws_def nowE_def randomE_def traceE_def abortedE_def getC_def setC_def keeper_is_lost_def io_defs
      split: prod.splits)

lemmas throws_rules = throws_ret throws_throw throws_bind throws_catch throws_if throws_let throws_in throws_basic

lemma throws_fail_cycle: "throws is_LeaseLost (fail_cycle en rd cc err)"
  unfolding fail_cycle_def plan_failure_def
  by (intro throws_rules) simp_all

lemma throws_cycle_body: "throws is_LeaseLost (cycle_body en rd cc)"
  unfolding cycle_body_def by (intro throws_catch throws_fail_cycle)


section \<open>Sequence numbers\<close>

lemma build_sequence: "yields (\<lambda>row. ob_sequence row = s \<and> ev_sequence (ob_event row) = s) (buildEventRow en rd lane type i v d p s c)"
  unfolding buildEventRow_def Let_def by (intro yields_rules) simp

lemma build_rows_sequence:
  "yields (\<lambda>rows. map ob_sequence rows = [Suc n..<Suc n + length specs]) (build_rows en rd lane cursor specs n)"
proof (induction specs arbitrary: n)
  case (Cons spec specs)
  obtain ty i v d p where s: "spec = (ty, i, v, d, p)" by (cases spec)
  have step: "map ob_sequence (row # rows) = [Suc n..<Suc n + length (spec # specs)]"
    if "ob_sequence row = n + 1 \<and> ev_sequence (ob_event row) = n + 1"
      "map ob_sequence rows = [Suc (n + 1)..<Suc (n + 1) + length specs]" for row rows
    using that upt_conv_Cons [of "Suc n" "Suc n + length (spec # specs)"] by simp
  show ?case
    unfolding s build_rows.simps
    by (intro yields_bind_from [OF build_sequence] yields_bind_from [OF Cons.IH] yields_ret step [unfolded s])
qed (simp add: yields_def retE_def)

text \<open>The events of a page are numbered without gaps: they carry, in order, the numbers that follow the
  sequence the page started from, and the sequence committed with the page is the number of its last event.\<close>

theorem page_sequence_numbers:
  assumes "processPage en rd lane items n full force cur w = (Inr commit, w')"
  shows "map ob_sequence (pm_events commit) = [Suc n..<Suc (pm_sequence commit)]"
proof -
  have "yields (\<lambda>c. map ob_sequence (pm_events c) = [Suc n..<Suc (pm_sequence c)]) (processPage en rd lane items n full force cur)"
    unfolding processPage_def Let_def
    by (intro yields_bind yields_case yields_if yields_throw yields_bind_from [OF build_rows_sequence] yields_ret)
      (simp del: upt_Suc)
  then show ?thesis using assms by (rule yieldsD)
qed

section \<open>The pages of a cycle\<close>

text \<open>\<open>ends Q m\<close>: what \<open>m\<close> returns and the state it ends in satisfy \<open>Q\<close>.\<close>

definition ends :: "('a \<Rightarrow> 'w \<Rightarrow> bool) \<Rightarrow> ('w, 'e, 'a) io \<Rightarrow> bool" where
  "ends Q m \<longleftrightarrow> (\<forall>w x w'. m w = (Inr x, w') \<longrightarrow> Q x w')"

lemma ends_bind: "(\<And>x. ends Q (f x)) \<Longrightarrow> ends Q (bindE m f)"
  unfolding ends_def bindE_Inr by blast

lemma ends_if: "(b \<Longrightarrow> ends Q m) \<Longrightarrow> (\<not> b \<Longrightarrow> ends Q n) \<Longrightarrow> ends Q (if b then m else n)"
  by simp

lemma ends_ret: "(\<And>w. Q x w) \<Longrightarrow> ends Q (retE x)"
  by (simp add: ends_def retE_Inr)

lemma ends_throw: "ends Q (throwE e)"
  by (simp add: ends_def throwE_def)

lemma ends_prod: "(\<And>x y. ends Q (f x y)) \<Longrightarrow> ends Q (case z of (x, y) \<Rightarrow> f x y)"
  by (cases z) simp

lemmas ends_rules = ends_bind ends_if ends_ret ends_throw ends_prod

definition same_pages :: "world \<times> cycle \<Rightarrow> world \<times> cycle \<Rightarrow> bool" where
  "same_pages s s' \<longleftrightarrow> cy_pages (snd s') = cy_pages (snd s)"

interpretation pg: frame_rel same_pages
  by unfold_locales (auto simp: same_pages_def)

lemma pages_basic:
  "preserves same_pages (inW m)" "preserves same_pages (getC f)"
  "(\<And>c. cy_pages (g c) = cy_pages c) \<Longrightarrow> preserves same_pages (setC g)"
  by (auto simp: preserves_def same_pages_def inW_def getC_def setC_def io_defs split: prod.splits)

lemmas pages_rules = pg.pres_rules pages_basic

lemma pages_commit: "preserves same_pages (commit_page en rd cc ser commit)"
  unfolding commit_page_def Let_def by (intro pages_rules) simp

lemma pages_after: "preserves same_pages (after_commit en rd cc)"
  unfolding after_commit_def by (intro pages_rules) simp

lemma pages_drain: "preserves same_pages (drain_cycle en rd cc)"
  unfolding drain_cycle_def by (intro pages_rules) simp

lemma setC_bind: "bindE (setC g) f (w, c) = f () (w, g c)"
  by (simp add: bindE_def setC_def modifyE_def)

lemma page_body_pages:
  assumes "page_body en rd cc page (w, c) = (r, s')"
  shows "cy_pages (snd s') = Suc (cy_pages c)"
proof -
  have step: "R s s'" if "bindE (setC g) f (w, c) = (r, s')" "preserves R (f ())" "s = (w, g c)" for R g f s
    using that by (auto simp: setC_bind dest: preservesD)
  have "same_pages (w, c\<lparr>cy_pages := cy_pages c + 1\<rparr>) s'"
    using assms unfolding page_body_def Let_def
    by (rule step) (intro pages_rules pages_commit pages_after pages_drain, simp_all)
  then show ?thesis by (simp add: same_pages_def)
qed

lemma after_commit_continues: "ends (\<lambda>fl s. fl = Continue \<longrightarrow> cy_pages (snd s) < cc_cap cc) (after_commit en rd cc)"
proof -
  have go: "ends (\<lambda>fl s. fl = Continue \<longrightarrow> cy_pages (snd s) < cc_cap cc)
      (bindE (getC cy_pages) (\<lambda>pages. if D \<or> pages \<ge> cc_cap cc
         then bindE (setC g) (\<lambda>_. retE BreakOuter) else retE Continue))" for D g
    by (auto simp: ends_def bindE_Inr getC_def getsE_def retE_Inr split: if_splits)
  show ?thesis unfolding after_commit_def by (intro ends_bind ends_if ends_throw go) (simp add: ends_ret)
qed

lemma page_body_continues: "ends (\<lambda>fl s. fl = Continue \<longrightarrow> cy_pages (snd s) < cc_cap cc) (page_body en rd cc page)"
  unfolding page_body_def Let_def
  by (intro ends_bind ends_if ends_prod after_commit_continues) (simp add: ends_ret)

lemma page_loop_pages:
  "page_loop en rd cc steps n (w, c) = (r, s') \<Longrightarrow> cy_pages c < cc_cap cc \<Longrightarrow>
     cy_pages (snd s') \<le> cc_cap cc \<and> (\<forall>fl k. r = Inr (fl, k) \<longrightarrow> k + cy_pages c = n + cy_pages (snd s'))"
proof (induction steps arbitrary: n w c)
  case Nil
  then show ?case by (auto simp: retE_def)
next
  case (Cons st steps)
  show ?case
  proof (cases st)
    case (FPage page)
    obtain r1 w1 c1 where b: "page_body en rd cc page (w, c) = (r1, (w1, c1))" by (metis surj_pair)
    note p = page_body_pages [OF b]
    show ?thesis
    proof (cases r1)
      case (Inl e)
      then show ?thesis using Cons.prems b FPage p by (auto simp: bindE_def)
    next
      case (Inr fl)
      show ?thesis
      proof (cases "fl = Continue")
        case True
        then have "cy_pages c1 < cc_cap cc"
          using page_body_continues [unfolded ends_def] b Inr by fastforce
        moreover have "page_loop en rd cc steps (n + 1) (w1, c1) = (r, s')"
          using Cons.prems(1) b FPage Inr True by (simp add: bindE_def)
        ultimately show ?thesis using Cons.IH [of "n + 1" w1 c1] p by auto
      next
        case False
        then show ?thesis using Cons.prems b FPage p Inr by (auto simp: bindE_def retE_def)
      qed
    qed
  next
    case (FValidator h v)
    let ?m = "catchE (inW (callS en (setValidator (rd_key rd) (cc_lease cc) h v))) (\<lambda>_. retE ())"
    obtain x w1 where "callS en (setValidator (rd_key rd) (cc_lease cc) h v) w = (x, w1)" by (metis surj_pair)
    then have "?m (w, c) = (Inr (), (w1, c))" by (cases x) (simp_all add: catchE_def inW_def retE_def)
    then show ?thesis using Cons.prems FValidator Cons.IH [of n w1 c] by (simp add: bindE_def)
  next
    case (FRateLimit info)
    then show ?thesis using Cons.prems Cons.IH [of n w "c\<lparr>cy_rateLimit := Some info\<rparr>"] by (simp add: setC_bind)
  next
    case FNotModified
    then show ?thesis using Cons.prems Cons.IH [of n w "c\<lparr>cy_sawNotModified := True\<rparr>"] by (simp add: setC_bind)
  qed (use Cons.prems in \<open>auto simp: throwE_def\<close>)
qed

lemma inW_flat:
  "bindE (inW m) (\<lambda>x. inW (f x)) = inW (bindE m f)" "retE y = inW (retE y)" "(if b then inW m else inW m') = inW (if b then m else m')"
  by (auto simp: inW_def bindE_def retE_def fun_eq_iff split: prod.splits sum.splits)

lemma retE_at: "retE x s = (r, s') \<longleftrightarrow> r = Inr x \<and> s' = s"
  by (auto simp: retE_def)

lemma getC_bind: "bindE (getC g) f (w, c) = f (g c) (w, c)"
  by (simp add: bindE_def getC_def getsE_def)

lemma inW_bindE:
  assumes "bindE (inW m) f (w, c) = (r, s')"
  obtains e w1 where "r = Inl e" "s' = (w1, c)" | x w1 where "f x (w1, c) = (r, s')"
  using assms by (auto simp: bindE_def inW_def split: prod.splits sum.splits)

definition turn_tail :: "env \<Rightarrow> runner_deps \<Rightarrow> cycle_cfg \<Rightarrow> fetch_step list \<Rightarrow> bool cio" where
  "turn_tail en rd cc steps =
     bindE (page_loop en rd cc steps 0) (\<lambda>(fl, pagesInCall). if fl = BreakOuter then retE False
       else bindE (setC (\<lambda>c. if pagesInCall = 0 \<or> pagesInCall > 1 then c\<lparr>cy_done := True\<rparr> else c)) (\<lambda>_. retE True))"

lemma fetch_turn_tail:
  assumes "turn_tail en rd cc steps (w, c) = (r, s')" "cy_pages c < cc_cap cc"
  shows "cy_pages (snd s') \<le> cc_cap cc"
    and "r = Inr True \<Longrightarrow> cy_done (snd s') \<or> cy_pages (snd s') = Suc (cy_pages c)"
proof -
  obtain r1 w1 c1 where p: "page_loop en rd cc steps 0 (w, c) = (r1, (w1, c1))" by (metis surj_pair)
  note pages = page_loop_pages [OF p assms(2)]
  show "cy_pages (snd s') \<le> cc_cap cc"
    using assms(1) p pages by (cases r1) (auto simp: turn_tail_def bindE_def setC_def modifyE_def retE_def split: if_splits prod.splits)
  show "cy_done (snd s') \<or> cy_pages (snd s') = Suc (cy_pages c)" if "r = Inr True"
    using assms(1) p pages that
    by (cases r1) (auto simp: turn_tail_def bindE_def setC_def modifyE_def retE_def split: if_splits prod.splits)
qed

text \<open>The part of a turn that leads to the call of \<^verbatim>\<open>fetch\<close> changes no local variable but \<^verbatim>\<open>truncated\<close>.\<close>

lemma fetch_turn_pages:
  assumes "fetch_turn en rd cc (w, c) = (r, s')" "cy_pages c \<le> cc_cap cc"
  shows "cy_pages (snd s') \<le> cc_cap cc"
    "r = Inr True \<Longrightarrow> \<not> cy_done c \<and> cy_pages c < cc_cap cc \<and> (cy_done (snd s') \<or> cy_pages (snd s') = Suc (cy_pages c))"
proof -
  have "cy_pages (snd s') \<le> cc_cap cc
    \<and> (r = Inr True \<longrightarrow> \<not> cy_done c \<and> cy_pages c < cc_cap cc \<and> (cy_done (snd s') \<or> cy_pages (snd s') = Suc (cy_pages c)))"
    using assms unfolding fetch_turn_def [folded turn_tail_def]
    by (auto simp: getC_bind setC_bind throwE_def retE_at bindE_assoc not_le split: if_splits elim!: inW_bindE)
      (fastforce dest: fetch_turn_tail)+
  then show "cy_pages (snd s') \<le> cc_cap cc"
    "r = Inr True \<Longrightarrow> \<not> cy_done c \<and> cy_pages c < cc_cap cc \<and> (cy_done (snd s') \<or> cy_pages (snd s') = Suc (cy_pages c))"
    by blast+
qed

lemma fetch_loop_pages:
  "fetch_loop n en rd cc (w, c) = (r, s') \<Longrightarrow> cy_pages c \<le> cc_cap cc \<Longrightarrow> cy_pages (snd s') \<le> cc_cap cc"
proof (induction n arbitrary: w c)
  case 0
  then show ?case by (auto simp: inW_def modifyE_def)
next
  case (Suc n)
  obtain r1 w1 c1 where t: "fetch_turn en rd cc (w, c) = (r1, (w1, c1))" by (metis surj_pair)
  note p = fetch_turn_pages(1) [OF t Suc.prems(2)]
  show ?case
  proof (cases "r1 = Inr True")
    case True
    then show ?thesis using Suc t p by (auto simp: bindE_def)
  next
    case False
    then show ?thesis using Suc.prems t p by (cases r1) (auto simp: bindE_def retE_at)
  qed
qed

definition enough :: "nat \<Rightarrow> cycle_cfg \<Rightarrow> cycle \<Rightarrow> bool" where
  "enough n cc c \<longleftrightarrow> 0 < n \<and> (\<not> cy_done c \<longrightarrow> cc_cap cc < cy_pages c + n)"

lemma fetch_loop_enough:
  "enough n cc c \<Longrightarrow> enough m cc c \<Longrightarrow> cy_pages c \<le> cc_cap cc \<Longrightarrow> fetch_loop n en rd cc (w, c) = fetch_loop m en rd cc (w, c)"
proof (induction n arbitrary: m w c)
  case (Suc n)
  then obtain m' where m: "m = Suc m'" by (cases m) (auto simp: enough_def)
  obtain r1 w1 c1 where t: "fetch_turn en rd cc (w, c) = (r1, (w1, c1))" by (metis surj_pair)
  show ?case
  proof (cases "r1 = Inr True")
    case True
    note p = fetch_turn_pages [OF t Suc.prems(3)]
    have "enough n cc c1" "enough m' cc c1" using Suc.prems p(2) [OF True] m by (auto simp: enough_def)
    then have "fetch_loop n en rd cc (w1, c1) = fetch_loop m' en rd cc (w1, c1)" using p(1) by (intro Suc.IH) simp_all
    then show ?thesis using t m True by (simp add: bindE_def)
  next
    case False
    then show ?thesis using t m by (cases r1) (auto simp: bindE_def)
  qed
qed (simp add: enough_def)

text \<open>C17: The fetch loop of a cycle ends, and within its page budget: whatever the API returns, even if it always
  announces more pages, the loop reads at most as many pages as its cap (\<^verbatim>\<open>maxPagesPerCycle\<close>, or the hard cap of a
  full scan), and the number of turns that the model allows it is enough: with any larger number the result is
  the same.\<close>

theorem fetch_loop_terminates:
  assumes "cy_pages c = 0" "cc_cap cc + 2 \<le> n"
  shows "fetch_loop n en rd cc (w, c) = fetch_loop (cc_cap cc + 2) en rd cc (w, c)
    \<and> cy_pages (snd (snd (fetch_loop (cc_cap cc + 2) en rd cc (w, c)))) \<le> cc_cap cc"
proof
  show "fetch_loop n en rd cc (w, c) = fetch_loop (cc_cap cc + 2) en rd cc (w, c)"
    using assms by (intro fetch_loop_enough) (auto simp: enough_def)
  show "cy_pages (snd (snd (fetch_loop (cc_cap cc + 2) en rd cc (w, c)))) \<le> cc_cap cc"
    using assms fetch_loop_pages [of "cc_cap cc + 2" en rd cc w c] by (metis le0 prod.collapse)
qed

section \<open>Witnesses\<close>

definition sample_cfg :: cycle_cfg where
  "sample_cfg = \<lparr>cc_lane = Live, cc_strategy = pageStrategy \<lparr>pc_initial = None\<rparr>, cc_lease = lease_a, cc_deadline = None, cc_startedAt = 0,
     cc_laneState = empty_lane, cc_target = None, cc_force = False, cc_fullScan = False, cc_cap = 3\<rparr>"

definition sample_cycle :: cycle where
  "sample_cycle = start_cycle (emptyState 0 sample_poller) (s_initial (cc_strategy sample_cfg))"

definition lost_env :: env where
  "lost_env = sample_env\<lparr>e_reason := leaseLostError ''p'' [] 1\<rparr>"


theorem fetch_loop_terminates_witness:
  "fetch_loop 9 sample_env sample_runner sample_cfg (sample_world, sample_cycle)
     = fetch_loop 5 sample_env sample_runner sample_cfg (sample_world, sample_cycle)
   \<and> cy_pages (snd (snd (fetch_loop 5 sample_env sample_runner sample_cfg (sample_world, sample_cycle)))) \<le> 3"
  using fetch_loop_terminates [of sample_cycle sample_cfg 9 sample_env sample_runner sample_world]
  by (simp add: sample_cycle_def start_cycle_def sample_cfg_def)

theorem page_sequence_numbers_witness:
  "\<exists>commit w'. processPage sample_env (sample_runner\<lparr>rd_sha := (\<lambda>_. [1])\<rparr>) Live sample_items 5 False False [] sample_world = (Inr commit, w')
     \<and> map ob_sequence (pm_events commit) = [Suc 5..<Suc (pm_sequence commit)] \<and> pm_sequence commit = 7"
proof -
  have "case processPage sample_env (sample_runner\<lparr>rd_sha := (\<lambda>_. [1])\<rparr>) Live sample_items 5 False False [] sample_world of
      (Inl e, w') \<Rightarrow> False | (Inr commit, w') \<Rightarrow> pm_sequence commit = 7" by code_simp
  then obtain commit w' where "processPage sample_env (sample_runner\<lparr>rd_sha := (\<lambda>_. [1])\<rparr>) Live sample_items 5 False False [] sample_world = (Inr commit, w')"
    "pm_sequence commit = 7" by (auto split: prod.splits sum.splits)
  with page_sequence_numbers [OF this(1)] show ?thesis by blast
qed

end
