(* ===== verification/Engine_Daemon.thy ===== *)
theory Engine_Daemon
  imports Engine Runner_Progress
begin

text \<open>
  Properties of the engine's daemon and of its construction: which fields the operations change, the reachable
  states, and that every key is either running or covered by the armed timer.
\<close>

section \<open>Construction\<close>

definition runtime_ok :: "string \<Rightarrow> poller_runtime \<Rightarrow> bool" where
  "runtime_ok name r \<longleftrightarrow> rp_name (rt_def r) = name
     \<and> distinct (map pt_key (rt_partitions r))"

definition pollers_ok :: "(string, poller_runtime) jsmap \<Rightarrow> bool" where
  "pollers_ok m \<longleftrightarrow> distinct (map fst m) \<and> (\<forall>(name, r) \<in> set m. runtime_ok name r)"

lemma with_source_fields [simp]:
  "rp_name (with_source pre p) = rp_name p" "rp_hasPartitions (with_source pre p) = rp_hasPartitions p" "rp_budget (with_source pre p) = rp_budget p"
  by (auto simp: with_source_def split: option.splits list.splits)

lemma update_pollers_ok: "pollers_ok m \<Longrightarrow> runtime_ok name r \<Longrightarrow> pollers_ok (AList.update name r m)"
  unfolding pollers_ok_def using set_update_subset [of name r m] by (auto intro: distinct_keys_update)

lemma add_pollers_ok:
  "add_pollers pre entries m = Inr m' \<Longrightarrow> pollers_ok m \<Longrightarrow> pollers_ok m'"
proof (induction pre entries m rule: add_pollers.induct)
  case (3 pre key p rest m)
  have "pollers_ok (AList.update (rp_name p) (new_runtime (with_source pre p)) m)"
    using "3.prems"(2) by (intro update_pollers_ok) (simp_all add: runtime_ok_def new_runtime_def)
  then show ?case using 3 by (auto split: if_splits)
qed auto

lemma check_budgets_known:
  "check_budgets names rts = Inr u \<Longrightarrow> r \<in> set rts \<Longrightarrow> rp_budget (rt_def r) = Some b \<Longrightarrow> b \<in> set names"
  by (induction names rts rule: check_budgets.induct) (auto split: option.splits if_splits)

section \<open>What the operations leave alone\<close>

text \<open>Only \<^verbatim>\<open>start\<close>, \<^verbatim>\<open>stop\<close>, the callbacks of the daemon and the end of a run touch the status, the timer and the runs in
  flight; no operation forgets a requested wake-up, adds or removes a poller.\<close>

definition steady :: "world \<times> engine \<Rightarrow> world \<times> engine \<Rightarrow> bool" where
  "steady s s' \<longleftrightarrow> eg_status (snd s') = eg_status (snd s) \<and> eg_timer (snd s') = eg_timer (snd s)
     \<and> eg_inflight (snd s') = eg_inflight (snd s) \<and> (eg_wakeRequested (snd s) \<longrightarrow> eg_wakeRequested (snd s'))
     \<and> (pollers_ok (eg_pollers (snd s)) \<longrightarrow> pollers_ok (eg_pollers (snd s')))
     \<and> map fst (eg_pollers (snd s')) = map fst (eg_pollers (snd s))"

interpretation steady: frame_rel steady
  by unfold_locales (auto simp: steady_def)

lemma steady_in: "preserves steady (inW m)"
  by (auto simp: preserves_def steady_def inW_def split: prod.splits)

lemma steady_get: "preserves steady (getC f)"
  by (simp add: preserves_def steady_def getC_def getsE_def)

lemma steady_set:
  "(\<And>eg. eg_status (f eg) = eg_status eg \<and> eg_timer (f eg) = eg_timer eg \<and> eg_inflight (f eg) = eg_inflight eg
      \<and> (eg_wakeRequested eg \<longrightarrow> eg_wakeRequested (f eg)) \<and> eg_pollers (f eg) = eg_pollers eg) \<Longrightarrow> preserves steady (setC f)"
  by (auto simp: preserves_def steady_def setC_def modifyE_def split: prod.splits)

lemma steady_set_rt:
  assumes "\<And>r. runtime_ok name r \<Longrightarrow> runtime_ok name (f r)"
  shows "preserves steady (set_rt name f)"
proof -
  have "pollers_ok (AList.update name (f r) m)" if "pollers_ok m" "map_of m name = Some r" for m r
    using that assms [of r] by (intro update_pollers_ok) (auto simp: pollers_ok_def dest!: map_of_SomeD)
  moreover have "map fst (AList.update name (f r) m) = map fst m" if "map_of m name = Some r" for m r
    using that by (force simp: update_keys dest!: map_of_SomeD)
  ultimately show ?thesis
    by (auto simp: preserves_def steady_def set_rt_def setC_def modifyE_def split: prod.splits option.splits)
qed

lemmas steady_rules = steady.pres_rules steady_in steady_get

lemma steady_rt: "preserves steady (engine_rt name)"
  unfolding engine_rt_def by (intro steady_rules)

lemma steady_wake: "preserves steady requestWake"
  unfolding requestWake_def by (intro steady_set) simp

lemma steady_due: "preserves steady (set_due kid t)"
  unfolding set_due_def by (intro steady_set) simp

lemma steady_wake_key: "preserves steady (wake_key key t)"
  unfolding wake_key_def by (intro steady_rules steady_due steady_wake)

lemma steady_attach: "preserves steady (attach name kind)"
  unfolding attach_def by (intro steady_rules steady_wake steady_set_rt steady_set) (simp_all add: runtime_ok_def)

lemma steady_detach: "preserves steady (detach name token)"
  unfolding detach_def by (intro steady_set_rt) (simp add: runtime_ok_def)

lemma steady_pause_missing: "preserves steady (pause_missing en r seen now parts)"
proof (induction parts)
  case (Cons old parts)
  show ?case unfolding pause_missing.simps by (intro steady_rules Cons steady_set) simp
qed (simp add: steady.pres_ret)

lemma check_partitions_distinct:
  "check_partitions name ps seen = Inr listed \<Longrightarrow> distinct (map pt_key listed) \<and> set (map pt_key listed) \<inter> set seen = {}"
proof (induction name ps seen arbitrary: listed rule: check_partitions.induct)
  case (2 name p ps seen)
  then obtain c cs rest where "truthy p" "member p ''key'' = VStr (c # cs)" "c # cs \<notin> set seen"
    "check_partitions name ps ((c # cs) # seen) = Inr rest" "listed = \<lparr>pt_key = c # cs, pt_data = member p ''data''\<rparr> # rest"
    by (auto simp: bindR_Inr split: bool.splits jsval.splits list.splits if_splits)
  with "2.IH" [of True "member p ''key''" "c # cs" c cs rest] show ?case by auto
qed simp

lemma yields_lift: "yields (\<lambda>x. r = Inr x) (liftR r)"
  by (auto simp: yields_def liftR_def retE_def throwE_def split: sum.splits)

lemma steady_refresh: "preserves steady (refreshPartitions en name force)"
proof -
  have step: "preserves steady (bindE (inW (liftR (check_partitions name ps []))) f)"
    if "\<And>l. distinct (map pt_key l) \<Longrightarrow> preserves steady (f l)" for f :: "partition list \<Rightarrow> partition list eio" and ps
    by (rule steady.pres_bind_yields [OF steady_in yields_in [OF yields_lift]])
      (use that check_partitions_distinct in fastforce)
  show ?thesis
    unfolding refreshPartitions_def
    by (intro steady_rules steady_rt, (split jsval.split, intro conjI allI impI steady_rules step)?)
      (auto intro!: steady_rules steady_pause_missing steady_set_rt steady_set simp: runtime_ok_def)
qed

lemma steady_keys_of: "preserves steady (keys_of en names)"
  by (induction names) (auto simp del: bindE_retE intro!: steady_rules steady_refresh)

lemma steady_allKeys: "preserves steady (allKeys en)"
  unfolding allKeys_def by (intro steady_rules steady_keys_of)

lemma steady_load_due: "preserves steady (load_due en now keys)"
  by (induction keys) (auto simp del: bindE_retE intro!: steady_rules steady_rt steady_due)

lemma steady_runOne: "preserves steady (runOne en own deadline force name p)"
  unfolding runOne_def by (intro steady_rules steady_rt steady_set_rt) (simp add: runtime_ok_def)

lemma steady_with_key: "(\<And>r key. preserves steady (f r key)) \<Longrightarrow> preserves steady (with_key en name part f)"
  unfolding with_key_def by (intro steady_rules steady_rt steady_refresh)

lemma steady_tick_step: "preserves steady (tick_step en deadline i tk)"
  unfolding tick_step_def
  by (cases "tk_workers tk ! i") (auto simp del: bindE_retE intro!: steady_rules steady_runOne split: list.splits prod.splits)

lemma steady_tick_loop: "preserves steady (tick_loop n en deadline tk)"
proof (induction n arbitrary: tk)
  case (Suc n)
  show ?case by (auto simp del: bindE_retE intro!: steady_rules steady_tick_step Suc split: list.splits)
qed (auto simp del: bindE_retE intro!: steady_rules)

lemma steady_acquire: "preserves steady (acquireWithRetry n en key)"
  by (induction n) (auto simp del: bindE_retE intro!: steady_rules)

lemma steady_inspect_keys: "preserves steady (inspect_keys en now keys)"
  by (induction keys) (auto simp del: bindE_retE simp: Let_def intro!: steady_rules steady_rt)

text \<open>The operations that only request a wake-up.\<close>

lemma steady_operations:
  "preserves steady (engine_on name isFun)" "preserves steady (engine_subscribe name)" "preserves steady (detach name token)"
  "preserves steady (engine_tick en maxDuration only)" "preserves steady (trigger en name part)" "preserves steady (pause en name part)"
  "preserves steady (resume en name part)" "preserves steady (backfill en name bopts)"
  "preserves steady (reset_cursor en name part to clearSnapshot)" "preserves steady (replay en name from rto part)"
  "preserves steady (parked_list en name part kind limit)" "preserves steady (parked_retry en name ids part)"
  "preserves steady (parked_discard en name ids part)" "preserves steady (partitions_list en name)"
  "preserves steady (partitions_remove en name prt)" "preserves steady (inspect en)"
  unfolding engine_on_def engine_subscribe_def engine_tick_def trigger_def pause_def resume_def backfill_def reset_cursor_def
    replay_def parked_list_def parked_retry_def parked_discard_def partitions_list_def partitions_remove_def inspect_def Let_def
  by (intro steady_rules steady.pres_finally steady_rt steady_attach steady_detach steady_allKeys steady_tick_loop steady_with_key
      steady_wake_key steady_acquire steady_refresh steady_inspect_keys steady_set; simp)+

section \<open>Reachable states\<close>

datatype engine_cmd =
    CmdOn string bool | CmdSubscribe string | CmdDetach string nat
  | CmdTick "duration option" "string list option" | CmdTrigger string "string option" | CmdPause string "string option"
  | CmdResume string "string option" | CmdBackfill string backfill_options
  | CmdReset string "string option" "string option" bool
  | CmdReplay string replay_time "replay_time option" "string option"
  | CmdParkedRetry string "string list" "string option" | CmdParkedDiscard string "string list" "string option"
  | CmdPartitions string | CmdRemove string string | CmdInspect

definition discard :: "('w, 'e, 'a) io \<Rightarrow> ('w, 'e, unit) io" where
  "discard m = bindE m (\<lambda>_. retE ())"

fun run_cmd :: "env \<Rightarrow> engine_cmd \<Rightarrow> unit eio" where
  "run_cmd en (CmdOn name isFun) = discard (engine_on name isFun)"
| "run_cmd en (CmdSubscribe name) = discard (engine_subscribe name)"
| "run_cmd en (CmdDetach name token) = detach name token"
| "run_cmd en (CmdTick maxDuration only) = discard (engine_tick en maxDuration only)"
| "run_cmd en (CmdTrigger name part) = trigger en name part"
| "run_cmd en (CmdPause name part) = pause en name part"
| "run_cmd en (CmdResume name part) = resume en name part"
| "run_cmd en (CmdBackfill name opts) = backfill en name opts"
| "run_cmd en (CmdReset name part to clear) = reset_cursor en name part to clear"
| "run_cmd en (CmdReplay name from to part) = discard (replay en name from to part)"
| "run_cmd en (CmdParkedRetry name ids part) = discard (parked_retry en name ids part)"
| "run_cmd en (CmdParkedDiscard name ids part) = discard (parked_discard en name ids part)"
| "run_cmd en (CmdPartitions name) = discard (partitions_list en name)"
| "run_cmd en (CmdRemove name part) = partitions_remove en name part"
| "run_cmd en CmdInspect = discard (inspect en)"

text \<open>A step of the engine in its world: a command that succeeds or fails, \<^verbatim>\<open>start\<close> when it succeeds, \<^verbatim>\<open>stop\<close>, a callback of the
  daemon that does not fail, or the end of a run.\<close>

inductive engine_step :: "world \<times> engine \<Rightarrow> world \<times> engine \<Rightarrow> bool" where
  step_cmd: "run_cmd en cmd s = (r, s') \<Longrightarrow> engine_step s s'"
| step_start: "engine_start en s = (Inr (), s') \<Longrightarrow> engine_step s s'"
| step_stop: "engine_stop en drain timeout s = (r, s') \<Longrightarrow> engine_step s s'"
| step_microtask: "eg_wakeRequested (snd s) \<Longrightarrow> microtask en s = (Inr (), s') \<Longrightarrow> engine_step s s'"
| step_timer: "eg_timer (snd s) \<noteq> None \<Longrightarrow> timer_fires en s = (Inr (), s') \<Longrightarrow> engine_step s s'"
| step_finish: "finish_run en kid s = (r, s') \<Longrightarrow> engine_step s s'"

lemma steady_run_cmd: "preserves steady (run_cmd en cmd)"
  by (cases cmd) (auto simp: discard_def simp del: bindE_retE intro!: steady_operations steady.pres_bind steady.pres_ret)

definition daemon_ok :: "engine \<Rightarrow> bool" where
  "daemon_ok eg \<longleftrightarrow> distinct (map fst (eg_inflight eg)) \<and> (eg_timer eg \<noteq> None \<longrightarrow> eg_status eg = Running)
     \<and> (eg_status eg = Running \<longrightarrow> eg_timer eg \<noteq> None \<or> eg_wakeRequested eg) \<and> pollers_ok (eg_pollers eg)"

text \<open>\<open>stable\<close> is what remains of \<^const>\<open>steady\<close> when runs start and end and the timer is set again.\<close>

definition stable :: "bool \<Rightarrow> world \<times> engine \<Rightarrow> world \<times> engine \<Rightarrow> bool" where
  "stable t s s' \<longleftrightarrow> eg_status (snd s') = eg_status (snd s) \<and> (t \<longrightarrow> eg_timer (snd s') = eg_timer (snd s))
     \<and> (distinct (map fst (eg_inflight (snd s))) \<longrightarrow> distinct (map fst (eg_inflight (snd s'))))
     \<and> (eg_wakeRequested (snd s) \<longrightarrow> eg_wakeRequested (snd s'))
     \<and> (pollers_ok (eg_pollers (snd s)) \<longrightarrow> pollers_ok (eg_pollers (snd s')))"

interpretation stable: frame_rel "stable t" for t
  by unfold_locales (auto simp: stable_def)

lemma steady_stable: "preserves steady m \<Longrightarrow> preserves (stable t) m"
  by (auto simp: preserves_def steady_def stable_def)

lemma stable_set:
  "(\<And>eg. eg_status (f eg) = eg_status eg \<and> (t \<longrightarrow> eg_timer (f eg) = eg_timer eg)
      \<and> (distinct (map fst (eg_inflight eg)) \<longrightarrow> distinct (map fst (eg_inflight (f eg))))
      \<and> eg_wakeRequested (f eg) = eg_wakeRequested eg \<and> eg_pollers (f eg) = eg_pollers eg) \<Longrightarrow> preserves (stable t) (setC f)"
  by (auto simp: preserves_def stable_def setC_def modifyE_def split: prod.splits)

lemma stable_start_due: "preserves (stable t) (start_due now keys soonest)"
proof (induction keys arbitrary: soonest)
  case (Cons key keys)
  show ?case
    by (cases key) (auto simp: Let_def simp del: bindE_retE intro!: stable.pres_rules steady_stable [OF steady_get] stable_set Cons
        distinct_keys_update)
qed (simp add: stable.pres_ret)

lemma stable_finish: "preserves (stable t) (finish_run en kid)"
  unfolding finish_run_def
  by (intro stable.pres_rules steady_stable steady_get steady_runOne steady_due steady_rt steady_in steady_wake stable_set)
    (simp add: distinct_delete)

lemma stable_settle: "preserves (stable t) (settle_runs en kids)"
  by (induction kids) (auto simp del: bindE_retE intro!: stable.pres_rules steady_stable [OF steady_in] stable_finish)

definition loop_tail :: "env \<Rightarrow> unit eio" where
  "loop_tail en =
     bindE (setC (\<lambda>eg. eg\<lparr>eg_timer := None\<rparr>)) (\<lambda>_.
       bindE (inW (nowE en)) (\<lambda>now.
       bindE (allKeys en) (\<lambda>keys.
       bindE (start_due now keys (now + MAX_SLEEP_MS)) (\<lambda>soonest.
       bindE (getC eg_status) (\<lambda>status.
       if status \<noteq> Running then retE ()
       else setC (\<lambda>eg. eg\<lparr>eg_timer := Some (max 0 (min soonest (now + MAX_SLEEP_MS) - now))\<rparr>))))))"

lemma engine_loop_tail: "engine_loop en (w, eg) = (if eg_status eg \<noteq> Running then (Inr (), (w, eg)) else loop_tail en (w, eg))"
  by (simp add: engine_loop_def loop_tail_def getC_bind retE_def)

lemma stable_loop: "preserves (stable False) (loop_tail en)"
  unfolding loop_tail_def
  by (intro stable.pres_rules steady_stable [OF steady_in] steady_stable [OF steady_get] steady_stable [OF steady_allKeys] stable_start_due
      stable_set) simp_all

lemma loop_sets_timer: "ends (\<lambda>_ s. eg_status (snd s) = Running \<longrightarrow> eg_timer (snd s) \<noteq> None) (loop_tail en)"
proof -
  have timer: "ends (\<lambda>_ s. eg_status (snd s) = Running \<longrightarrow> eg_timer (snd s) \<noteq> None)
      (bindE (getC eg_status) (\<lambda>status. if status \<noteq> Running then retE () else setC (\<lambda>eg. eg\<lparr>eg_timer := Some d\<rparr>)))" for d
    by (auto simp: ends_def bindE_Inr getC_def getsE_def setC_def modifyE_def retE_Inr split: if_splits prod.splits)
  show ?thesis unfolding loop_tail_def by (intro ends_bind timer)
qed

lemma loop_ok:
  assumes "engine_loop en (w, eg) = (Inr (), s')" "distinct (map fst (eg_inflight eg))" "pollers_ok (eg_pollers eg)"
    "eg_timer eg \<noteq> None \<longrightarrow> eg_status eg = Running"
  shows "daemon_ok (snd s')"
proof (cases "eg_status eg = Running")
  case True
  then have l: "loop_tail en (w, eg) = (Inr (), s')" using assms(1) by (simp add: engine_loop_tail)
  then have "stable False (w, eg) s'" by (rule preservesD [OF stable_loop])
  moreover have "eg_status (snd s') = Running \<longrightarrow> eg_timer (snd s') \<noteq> None" using loop_sets_timer l unfolding ends_def by blast
  ultimately show ?thesis using assms True by (auto simp: daemon_ok_def stable_def)
next
  case False
  then show ?thesis using assms by (auto simp: engine_loop_tail daemon_ok_def)
qed

lemma wake_wakes: "ends (\<lambda>_ s. eg_status (snd s) = Running \<longrightarrow> eg_wakeRequested (snd s)) requestWake"
  by (auto simp: ends_def requestWake_def setC_def modifyE_def)

lemma start_ok:
  assumes "engine_start en (w, eg) = (Inr (), s')" "daemon_ok eg"
  shows "daemon_ok (snd s')"
proof (cases "eg_status eg = Running \<or> eg_status eg = Stopping")
  case True
  then show ?thesis using assms by (auto simp: engine_start_def getC_bind retE_at throwE_def)
next
  case False
  define tail where "tail = bindE (inW (nowE en)) (\<lambda>now. bindE (allKeys en) (\<lambda>keys. bindE (load_due en now keys) (\<lambda>_. requestWake)))"
  have t: "tail (w\<lparr>w_outer := False\<rparr>, eg\<lparr>eg_status := Running\<rparr>) = (Inr (), s')"
    using assms(1) False by (simp add: engine_start_def getC_bind tail_def) (simp add: bindE_def inW_def modifyE_def setC_def)
  have "preserves steady tail" unfolding tail_def by (intro steady_rules steady_allKeys steady_load_due steady_wake)
  then have "steady (w\<lparr>w_outer := False\<rparr>, eg\<lparr>eg_status := Running\<rparr>) s'" using t by (rule preservesD)
  moreover have "ends (\<lambda>_ s. eg_status (snd s) = Running \<longrightarrow> eg_wakeRequested (snd s)) tail"
    unfolding tail_def by (intro ends_bind wake_wakes)
  then have "eg_status (snd s') = Running \<longrightarrow> eg_wakeRequested (snd s')" using t unfolding ends_def by blast
  ultimately show ?thesis using assms(2) by (auto simp: daemon_ok_def steady_def)
qed

lemma stop_ok:
  assumes "engine_stop en drain timeout (w, eg) = (r, s')" "daemon_ok eg"
  shows "daemon_ok (snd s')"
proof (cases "eg_status eg = Idle \<or> eg_status eg = Stopped")
  case True
  then show ?thesis using assms by (auto simp: engine_stop_def getC_bind setC_def modifyE_def daemon_ok_def)
next
  case False
  define eg1 where "eg1 = eg\<lparr>eg_status := Stopping, eg_timer := None\<rparr>"
  define body where "body = bindE (inW (liftR (parseDuration (opt_or timeout (DurStr ''30s'')) ''stop.timeout''))) (\<lambda>timeoutMs.
       bindE (inW (if opt_or drain True then retE () else modifyE (\<lambda>w. w\<lparr>w_outer := True\<rparr>))) (\<lambda>_.
       bindE (getC (\<lambda>eg. map fst (eg_inflight eg))) (\<lambda>pending. settle_runs en pending)))"
  define close :: "unit eio" where "close = setC (\<lambda>eg. eg\<lparr>eg_pollers := map (\<lambda>(name, r). (name, close_consumer r)) (eg_pollers eg), eg_status := Stopped\<rparr>)"
  have stop: "bindE body (\<lambda>_. close) (w, eg1) = (r, s')"
    using assms(1) False by (simp add: engine_stop_def getC_bind setC_bind body_def close_def eg1_def bindE_assoc)
  obtain r1 w1 eg2 where b: "body (w, eg1) = (r1, (w1, eg2))" by (metis surj_pair)
  have "preserves (stable True) body"
    unfolding body_def by (intro stable.pres_rules steady_stable [OF steady_in] steady_stable [OF steady_get] stable_settle)
  then have st: "stable True (w, eg1) (w1, eg2)" using b by (rule preservesD)
  have close_pollers: "pollers_ok (map (\<lambda>(name, r). (name, close_consumer r)) m)" if "pollers_ok m" for m
    using that by (auto simp: pollers_ok_def runtime_ok_def close_consumer_def comp_def case_prod_unfold)
  have eg2: "eg_status eg2 = Stopping" "eg_timer eg2 = None" "distinct (map fst (eg_inflight eg2))" "pollers_ok (eg_pollers eg2)"
    using st assms(2) by (simp_all add: daemon_ok_def stable_def eg1_def)
  show ?thesis
  proof (cases r1)
    case (Inl e)
    then show ?thesis using stop b eg2 by (auto simp: bindE_def daemon_ok_def)
  next
    case (Inr u)
    then have "close (w1, eg2) = (r, s')" using stop b by (simp add: bindE_def)
    then show ?thesis using eg2 close_pollers [OF eg2(4)] by (auto simp: close_def setC_def modifyE_def daemon_ok_def)
  qed
qed

lemma finish_ok:
  assumes "finish_run en kid (w, eg) = (r, s')" "daemon_ok eg"
  shows "daemon_ok (snd s')"
  using preservesD [OF stable_finish [of True] assms(1)] assms(2) by (auto simp: daemon_ok_def stable_def)

lemma engine_step_ok: "engine_step s s' \<Longrightarrow> daemon_ok (snd s) \<Longrightarrow> daemon_ok (snd s')"
proof (induction rule: engine_step.induct)
  case (step_cmd en cmd s r s')
  then show ?case using preservesD [OF steady_run_cmd step_cmd.hyps] by (auto simp: daemon_ok_def steady_def)
next
  case (step_start en s s')
  then show ?case using start_ok [of en "fst s" "snd s"] by simp
next
  case (step_stop en drain timeout s r s')
  then show ?case using stop_ok [of en drain timeout "fst s" "snd s"] by simp
next
  case (step_microtask s en s')
  obtain w eg where s: "s = (w, eg)" by (cases s)
  then have "engine_loop en (w, eg\<lparr>eg_wakeRequested := False\<rparr>) = (Inr (), s')" using step_microtask.hyps(2) by (simp add: microtask_def setC_bind)
  then show ?case using step_microtask.prems s by (intro loop_ok) (auto simp: daemon_ok_def)
next
  case (step_timer s en s')
  obtain w eg where s: "s = (w, eg)" by (cases s)
  then have "engine_loop en (w, eg\<lparr>eg_timer := None\<rparr>) = (Inr (), s')" using step_timer.hyps(2) by (simp add: timer_fires_def setC_bind)
  then show ?case using step_timer.prems s by (intro loop_ok) (auto simp: daemon_ok_def)
next
  case (step_finish en kid s r s')
  then show ?case using finish_ok [of en kid "fst s" "snd s"] by simp
qed

lemma created_ok:
  assumes "createWatukuy opts random sha dp = Inr eg"
  shows "daemon_ok eg"
proof -
  have "pollers_ok []" by (simp add: pollers_ok_def)
  then show ?thesis
    using assms add_pollers_ok by (fastforce simp: createWatukuy_def require_Inr bindR_Inr daemon_ok_def split: option.splits)
qed


section \<open>No key is forgotten\<close>

definition kid_of :: "string \<Rightarrow> partition \<Rightarrow> string" where
  "kid_of name p = keyId \<lparr>k_poller = name, k_partition = pt_key p\<rparr>"

definition covered :: "number \<Rightarrow> number \<Rightarrow> engine \<Rightarrow> string \<Rightarrow> partition \<Rightarrow> bool" where
  "covered now t eg name p \<longleftrightarrow> kid_of name p \<in> fst ` set (eg_inflight eg)
     \<or> (\<exists>due. map_of (eg_nextDue eg) (kid_of name p) = Some due \<and> now < due \<and> t \<le> due)"

lemma start_due_spec:
  "start_due now keys soonest (w, eg) = (Inr s, (w', eg')) \<Longrightarrow>
     s \<le> soonest \<and> eg_nextDue eg' = eg_nextDue eg \<and> eg_pollers eg' = eg_pollers eg
     \<and> fst ` set (eg_inflight eg) \<subseteq> fst ` set (eg_inflight eg')
     \<and> (\<forall>(name, p) \<in> set keys. covered now s eg' name p)"
proof (induction keys arbitrary: soonest eg)
  case (Cons key keys)
  obtain name p where key: "key = (name, p)" by (cases key)
  let ?kid = "kid_of name p"
  show ?case
  proof (cases "?kid \<in> fst ` set (eg_inflight eg)")
    case True
    then have "start_due now keys soonest (w, eg) = (Inr s, (w', eg'))" using Cons.prems by (simp add: key getC_bind kid_of_def Let_def)
    from Cons.IH [OF this] True show ?thesis by (auto simp: key covered_def)
  next
    case new: False
    show ?thesis
    proof (cases "opt_or (map_of (eg_nextDue eg) ?kid) now \<le> now")
      case True
      then have "start_due now keys soonest (w, eg\<lparr>eg_inflight := AList.update ?kid (name, p) (eg_inflight eg)\<rparr>) = (Inr s, (w', eg'))"
        using Cons.prems new by (simp add: key getC_bind setC_bind kid_of_def Let_def)
      from Cons.IH [OF this] show ?thesis by (auto simp: key covered_def dom_update)
    next
      case False
      then obtain due where due: "map_of (eg_nextDue eg) ?kid = Some due" "now < due"
        by (cases "map_of (eg_nextDue eg) ?kid") (auto simp: opt_or_def)
      then have "start_due now keys (min soonest due) (w, eg) = (Inr s, (w', eg'))"
        using Cons.prems new by (simp add: key getC_bind kid_of_def Let_def opt_or_def)
      from Cons.IH [OF this] due show ?thesis by (auto simp: key covered_def)
    qed
  qed
qed (auto simp: retE_def)

definition same_pollers :: "world \<times> engine \<Rightarrow> world \<times> engine \<Rightarrow> bool" where
  "same_pollers s s' \<longleftrightarrow> eg_pollers (snd s') = eg_pollers (snd s)"

interpretation spo: frame_rel same_pollers
  by unfold_locales (auto simp: same_pollers_def)

lemma same_pollers_basic:
  "preserves same_pollers (inW m)" "(\<And>eg. eg_pollers (f eg) = eg_pollers eg) \<Longrightarrow> preserves same_pollers (setC f)"
  by (auto simp: preserves_def same_pollers_def inW_def setC_def modifyE_def split: prod.splits)

lemma same_pollers_pause: "preserves same_pollers (pause_missing en r seen now parts)"
  by (induction parts) (auto simp del: bindE_retE intro!: spo.pres_rules same_pollers_basic)

lemma refresh_tail:
  assumes "bindE (pause_missing en r seen now old) (\<lambda>_. bindE (setC f) (\<lambda>_. bindE (set_rt name g) (\<lambda>_. retE listed))) (w, eg) = (Inr parts, (w', eg'))"
    "\<And>eg. eg_pollers (f eg) = eg_pollers eg" "map_of (eg_pollers eg) name \<noteq> None" "\<And>r. rt_partitions (g r) = listed"
  shows "(\<exists>r. map_of (eg_pollers eg') name = Some r \<and> rt_partitions r = parts)
    \<and> (\<forall>n. n \<noteq> name \<longrightarrow> map_of (eg_pollers eg') n = map_of (eg_pollers eg) n)"
proof -
  obtain w1 eg1 where p: "pause_missing en r seen now old (w, eg) = (Inr (), (w1, eg1))"
    and t: "bindE (setC f) (\<lambda>_. bindE (set_rt name g) (\<lambda>_. retE listed)) (w1, eg1) = (Inr parts, (w', eg'))"
    using assms(1) by (auto simp: bindE_Inr)
  have "eg_pollers eg1 = eg_pollers eg" using preservesD [OF same_pollers_pause p] by (simp add: same_pollers_def)
  then show ?thesis using t assms(2-4) by (auto simp: set_rt_def setC_bind retE_at)
qed

lemma engine_rt_bind:
  "map_of (eg_pollers eg) name = Some r \<Longrightarrow> bindE (engine_rt name) f (w, eg) = f r (w, eg)"
  "map_of (eg_pollers eg) name = None \<Longrightarrow> bindE (engine_rt name) f (w, eg) = (Inl (watukuyError UNKNOWN_POLLER (''unknown poller '' @ q name)), (w, eg))"
  by (simp_all add: engine_rt_def bindE_def getC_def getsE_def retE_def throwE_def)

lemma refresh_result:
  assumes "refreshPartitions en name force (w, eg) = (Inr parts, (w', eg'))"
  shows "(\<exists>r. map_of (eg_pollers eg') name = Some r \<and> rt_partitions r = parts)
    \<and> (\<forall>n. n \<noteq> name \<longrightarrow> map_of (eg_pollers eg') n = map_of (eg_pollers eg) n)"
proof (cases "map_of (eg_pollers eg) name")
  case None
  then show ?thesis using assms by (simp add: refreshPartitions_def engine_rt_bind)
next
  case (Some r)
  have eq: "(case answer of Inl err \<Rightarrow> retE (rt_partitions r) | Inr (VArr i ps) \<Rightarrow> F ps | Inr _ \<Rightarrow> throwE e) (w1, eg) = (Inr parts, (w', eg'))
      \<longleftrightarrow> (\<exists>err. answer = Inl err \<and> parts = rt_partitions r \<and> w' = w1 \<and> eg' = eg)
        \<or> (\<exists>i ps. answer = Inr (VArr i ps) \<and> F ps (w1, eg) = (Inr parts, (w', eg')))" for answer F e w1
    by (auto simp: retE_at throwE_def split: sum.splits jsval.splits)
  show ?thesis using assms Some unfolding refreshPartitions_def
    by (auto simp: engine_rt_bind retE_at eq split: if_splits elim!: inW_bindE dest!: refresh_tail)
qed

lemma keys_of_result:
  "keys_of en names (w, eg) = (Inr keys, (w', eg')) \<Longrightarrow> distinct names \<Longrightarrow>
     (\<forall>n \<in> set names. \<exists>r. map_of (eg_pollers eg') n = Some r \<and> (\<forall>p \<in> set (rt_partitions r). (n, p) \<in> set keys))
     \<and> (\<forall>n. n \<notin> set names \<longrightarrow> map_of (eg_pollers eg') n = map_of (eg_pollers eg) n)"
proof (induction names arbitrary: w eg keys)
  case (Cons name names)
  obtain parts w1 eg1 rest where r: "refreshPartitions en name False (w, eg) = (Inr parts, (w1, eg1))"
    and k: "keys_of en names (w1, eg1) = (Inr rest, (w', eg'))" and keys: "keys = map (\<lambda>p. (name, p)) parts @ rest"
    using Cons.prems(1) by (auto simp: bindE_Inr retE_at)
  note ih = Cons.IH [OF k] and res = refresh_result [OF r]
  have "name \<notin> set names" "distinct names" using Cons.prems(2) by simp_all
  then show ?case using ih res keys by auto
qed (auto simp: retE_def)

lemma loop_covers:
  assumes "engine_loop en (w, eg) = (Inr (), (w', eg'))" "eg_status eg = Running" "distinct (map fst (eg_pollers eg))"
  shows "\<exists>d. eg_timer eg' = Some d \<and> 0 \<le> d \<and> d \<le> MAX_SLEEP_MS
    \<and> (\<forall>name r p. map_of (eg_pollers eg') name = Some r \<and> p \<in> set (rt_partitions r)
          \<longrightarrow> covered (e_now en (w_tick w)) (e_now en (w_tick w) + d) eg' name p)"
proof -
  let ?now = "e_now en (w_tick w)" and ?names = "map fst (eg_pollers eg)"
  have now: "nowE en w = (Inr ?now, tick en w)" by (simp add: nowE_def bindE_def getsE_def modifyE_def retE_def)
  obtain keys w1 eg1 soonest w2 eg2 where a: "keys_of en ?names (tick en w, eg\<lparr>eg_timer := None\<rparr>) = (Inr keys, (w1, eg1))"
    and sd: "start_due ?now keys (?now + MAX_SLEEP_MS) (w1, eg1) = (Inr soonest, (w2, eg2))"
    and fin: "(if eg_status eg2 \<noteq> Running then retE ()
       else setC (\<lambda>eg. eg\<lparr>eg_timer := Some (max 0 (min soonest (?now + MAX_SLEEP_MS) - ?now))\<rparr>)) (w2, eg2) = (Inr (), (w', eg'))"
    using assms(1,2)
    by (auto simp: engine_loop_tail loop_tail_def setC_bind bindE_Inr inW_def now allKeys_def getC_def getsE_def split: prod.splits)
  have "steady (tick en w, eg\<lparr>eg_timer := None\<rparr>) (w1, eg1)" by (rule preservesD [OF steady_keys_of a])
  moreover have "stable True (w1, eg1) (w2, eg2)" by (rule preservesD [OF stable_start_due sd])
  ultimately have run: "eg_status eg2 = Running" using assms(2) by (simp add: steady_def stable_def)
  define d where "d = max 0 (min soonest (?now + MAX_SLEEP_MS) - ?now)"
  have eg': "eg' = eg2\<lparr>eg_timer := Some d\<rparr>" using fin run by (simp add: setC_def modifyE_def d_def)
  note spec = start_due_spec [OF sd]
  have cov: "covered ?now (?now + d) eg' name p" if r: "map_of (eg_pollers eg') name = Some r" "p \<in> set (rt_partitions r)" for name r p
  proof -
    have "map_of (eg_pollers eg1) name = Some r" using r spec eg' by simp
    moreover have "name \<in> set ?names"
    proof (rule ccontr)
      assume n: "name \<notin> set ?names"
      then have "map_of (eg_pollers eg1) name = None"
        using keys_of_result [OF a assms(3)] by (auto simp: map_of_eq_None_iff)
      with calculation show False by simp
    qed
    ultimately have "(name, p) \<in> set keys" using keys_of_result [OF a assms(3)] r(2) by fastforce
    then have "covered ?now soonest eg2 name p" using spec by auto
    then show ?thesis by (auto simp: covered_def eg' d_def)
  qed
  moreover have "0 \<le> d" "d \<le> MAX_SLEEP_MS" by (auto simp: d_def MAX_SLEEP_MS_def)
  ultimately show ?thesis using eg' by auto
qed



section \<open>Witnesses\<close>

definition sample_options :: "resolved_poller \<Rightarrow> engine_options" where
  "sample_options p = \<lparr>eo_isObject = True, eo_hasStore = True, eo_pollers = Some [(rp_name p, Definition p)], eo_budgets = [],
     eo_instanceId = Some ''a'', eo_ttl = None, eo_renewEvery = None, eo_sourcePrefix = None, eo_batch = None\<rparr>"

definition sample_engine :: "resolved_poller \<Rightarrow> engine" where
  "sample_engine p = \<lparr>eg_instanceId = ''a'', eg_status = Idle, eg_pollers = [(rp_name p, new_runtime p)], eg_budget = None,
     eg_leaseTtlMs = 30000, eg_leaseRenewMs = 10000, eg_batch = 100, eg_nextDue = [], eg_inflight = [], eg_timer = None,
     eg_wakeRequested = False, eg_tokens = 0, eg_sha = toy_sha, eg_dateParse = (\<lambda>_. NaN)\<rparr>"

lemma sample_created:
  assumes "rp_budget p = None"
  shows "createWatukuy (sample_options p) (\<lambda>_. 0) toy_sha (\<lambda>_. NaN) = Inr (sample_engine p)"
proof -
  have renew: "js_floor 10000 = 10000" by code_simp
  have pollers: "add_pollers None [(rp_name p, Definition p)] [] = Inr [(rp_name p, new_runtime p)]" by (simp add: with_source_def)
  have budgets: "check_budgets [] [new_runtime p] = Inr ()" using assms by (simp add: new_runtime_def)
  show ?thesis
    unfolding createWatukuy_def sample_options_def sample_engine_def
    by (simp add: require_def bindR_def opt_or_def default_durations renew pollers budgets del: add_pollers.simps check_budgets.simps)
qed

definition started :: "world \<times> engine" where
  "started = snd (engine_start sample_env (sample_world, sample_engine sample_poller))"

lemma started_step: "engine_step (sample_world, sample_engine sample_poller) (fst started, snd started)"
proof -
  have "fst (engine_start sample_env (sample_world, sample_engine sample_poller)) = Inr ()" by code_simp
  then show ?thesis unfolding started_def by (metis prod.collapse step_start)
qed

lemma started_reached: "engine_step\<^sup>*\<^sup>* (sample_world, sample_engine sample_poller) (fst started, snd started)"
  by (rule r_into_rtranclp) (rule started_step)

lemma sample_no_budget: "rp_budget sample_poller = None"
  by (simp add: sample_poller_def)




section \<open>A failing pass\<close>

text \<open>When a poller's \<^verbatim>\<open>partitions()\<close> returns something that is refused, \<^verbatim>\<open>start()\<close> fails after it has marked the engine as
  running, and nothing will ever wake it: no timer is armed, no wake-up is queued, and a second \<^verbatim>\<open>start()\<close> returns
  at once.\<close>

definition partitioned :: resolved_poller where
  "partitioned = sample_poller\<lparr>rp_hasPartitions := True\<rparr>"

lemma failed_start_stalls:
  "(case engine_start sample_env (sample_world, sample_engine partitioned) of
      (Inl e, (w, eg)) \<Rightarrow> eg_status eg = Running \<and> eg_timer eg = None \<and> \<not> eg_wakeRequested eg
    | (Inr _, s) \<Rightarrow> False)"
  by code_simp

lemma second_start_is_silent: "eg_status eg = Running \<Longrightarrow> engine_start en (w, eg) = (Inr (), (w, eg))"
  by (simp add: engine_start_def getC_bind retE_def)

end
