(* ===== verification/Engine_Ops.thy ===== *)
theory Engine_Ops
  imports Engine_Daemon
begin

text \<open>
  Properties of the engine's operations: a paused key is left alone, a replay enqueues the whole range of the
  log, and a tick ends with every worker done.
\<close>

section \<open>Store calls without a heartbeat\<close>

lemma callS_plain:
  assumes "alone en" "w_keeper w = None" "callS en op w = (r, w')"
  shows "w_keeper w' = None \<and> w_trace w' = w_trace w \<and> w_exhausted w' = w_exhausted w
    \<and> ((\<exists>e. r = Inl e \<and> w_store w' = w_store w) \<or> op (w_store w) = (r, w_store w'))"
proof -
  have "raw_store en op w = (r, w')"
    using assms(2,3) by (cases "e_beat en (w_tick w)") (simp_all add: callS_def bindE_def getsE_def whenE_def beat_def retE_def)
  then show ?thesis
    using assms(1,2) by (auto simp: raw_store_def alone_def tick_def Let_def split: option.splits prod.splits)
qed

lemma callS_read:
  assumes "alone en" "w_keeper w = None" "callS en (getsE f) w = (Inr x, w')"
  shows "x = f (w_store w) \<and> w_store w' = w_store w \<and> w_keeper w' = None \<and> w_trace w' = w_trace w \<and> w_exhausted w' = w_exhausted w"
  using callS_plain [OF assms] by (auto simp: getsE_def)

lemma nowE_same:
  "nowE en w = (r, w') \<Longrightarrow> w_store w' = w_store w \<and> w_keeper w' = w_keeper w \<and> w_trace w' = w_trace w \<and> w_exhausted w' = w_exhausted w"
  by (auto simp: nowE_def bindE_def getsE_def modifyE_def retE_def tick_def)

section \<open>Paused keys\<close>

text \<open>C9: A paused key is left alone: a run of it, even a forced one, reports that the key is paused, runs no lane,
  takes no lease, fetches and delivers nothing and leaves the store as it is.\<close>

theorem paused_key_is_left_alone:
  assumes "alone en" "w_keeper w = None" "kr_state (rec_of (w_store w) (rd_key rd)) = Some st" "st_paused st"
    "runKey en rd deadline force w = (Inr r, w')"
  shows "rk_reason r = Some Paused \<and> \<not> rk_ran r \<and> rk_results r = [] \<and> w_store w' = w_store w \<and> w_trace w' = w_trace w"
proof -
  have load: "Option.bind (peek st0 key) kr_state = kr_state (rec_of st0 key)" for st0 key
    by (auto simp: rec_of_def fresh_record_def split: option.splits)
  obtain w1 where n: "nowE en w = (Inr (e_now en (w_tick w)), w1)" by (simp add: nowE_def bindE_def getsE_def modifyE_def retE_def)
  note n' = nowE_same [OF n]
  obtain x w2 where l: "callS en (loadState (rd_key rd)) w1 = (x, w2)" by (metis surj_pair)
  have "x \<noteq> Inl e" for e using assms(5) n l by (auto simp: runKey_def bindE_def)
  then obtain loaded where x: "x = Inr loaded" by (cases x) auto
  have "loaded = Some st" "w_store w2 = w_store w" "w_trace w2 = w_trace w"
    using callS_read [OF assms(1) _ l [unfolded x loadState_def]] n' assms(2,3) load by simp_all
  then show ?thesis
    using assms(4,5) n l x by (auto simp: runKey_def bindE_def opt_or_def Let_def retE_at empty_run_def)
qed

section \<open>Replay\<close>

text \<open>The rows of the log that are still to be replayed, in order.\<close>

definition to_replay :: "number \<Rightarrow> number option \<Rightarrow> nat option \<Rightarrow> logged_event list \<Rightarrow> logged_event list" where
  "to_replay fromTime toTime after logged =
     js_sort_by le_sequence (filter (in_range \<lparr>lr_afterSequence = after, lr_fromTime = Some fromTime, lr_toTime = toTime\<rparr>) logged)"

lemma in_range_after:
  "a \<le> b \<Longrightarrow> in_range \<lparr>lr_afterSequence = Some b, lr_fromTime = f, lr_toTime = t\<rparr> e
     \<longleftrightarrow> b < le_sequence e \<and> in_range \<lparr>lr_afterSequence = Some a, lr_fromTime = f, lr_toTime = t\<rparr> e"
  "in_range \<lparr>lr_afterSequence = Some b, lr_fromTime = f, lr_toTime = t\<rparr> e
     \<longleftrightarrow> b < le_sequence e \<and> in_range \<lparr>lr_afterSequence = None, lr_fromTime = f, lr_toTime = t\<rparr> e"
  by (auto simp: in_range_def)

lemma to_replay_after:
  assumes "case after of None \<Rightarrow> True | Some a \<Rightarrow> a \<le> b"
  shows "to_replay f t (Some b) logged = filter (\<lambda>e. b < le_sequence e) (to_replay f t after logged)"
proof -
  have "filter (in_range \<lparr>lr_afterSequence = Some b, lr_fromTime = Some f, lr_toTime = t\<rparr>) logged
      = filter (\<lambda>e. b < le_sequence e) (filter (in_range \<lparr>lr_afterSequence = after, lr_fromTime = Some f, lr_toTime = t\<rparr>) logged)"
    using assms by (cases after) (auto simp: in_range_after(2) in_range_after(1) intro: filter_cong)
  then show ?thesis by (simp add: to_replay_def js_sort_by_def filter_sort del: filter_filter)
qed

lemma strictly_sorted_log:
  assumes "distinct (map le_sequence logged)"
  shows "sorted_wrt (<) (map le_sequence (to_replay f t after logged))"
proof -
  have "distinct (map le_sequence (to_replay f t after logged))"
    using assms by (simp add: to_replay_def js_sort_by_def distinct_map distinct_filter inj_on_def)
  moreover have "sorted (map le_sequence (to_replay f t after logged))" by (simp add: to_replay_def)
  ultimately show ?thesis by (simp add: strict_sorted_iff)
qed

lemma drop_by_last:
  fixes f :: "'a \<Rightarrow> 'b::linorder"
  assumes "sorted_wrt (<) (map f xs)" "0 < n" "n \<le> length xs"
  shows "filter (\<lambda>x. f (List.last (take n xs)) < f x) xs = drop n xs"
proof -
  let ?l = "List.last (take n xs)"
  have ne: "take n xs \<noteq> []" using assms(2,3) by (cases xs) auto
  have srt: "sorted_wrt (\<lambda>x y. f x < f y) xs" using assms(1) by (simp add: sorted_wrt_map)
  then have all: "sorted_wrt (\<lambda>x y. f x < f y) (take n xs @ drop n xs)" by simp
  have "\<not> f ?l < f x" if "x \<in> set (take n xs)" for x
  proof -
    have "take n xs = butlast (take n xs) @ [?l]" using ne by simp
    moreover have "sorted_wrt (\<lambda>x y. f x < f y) (take n xs)" using srt by (rule sorted_wrt_take)
    ultimately have "x \<in> set (butlast (take n xs)) \<and> f x < f ?l \<or> x = ?l" using that
      by (metis (no_types, lifting) Un_iff empty_iff empty_set list.set_intros(1) set_ConsD set_append sorted_wrt_append)
    then show ?thesis by auto
  qed
  moreover have "f ?l < f x" if "x \<in> set (drop n xs)" for x
  proof -
    have "\<forall>y \<in> set (take n xs). \<forall>x \<in> set (drop n xs). f y < f x" using all unfolding sorted_wrt_append by blast
    then show ?thesis using that last_in_set [OF ne] by blast
  qed
  ultimately have "filter (\<lambda>x. f ?l < f x) (take n xs @ drop n xs) = drop n xs"
    unfolding filter_append by (subst filter_False, blast, subst filter_True) auto
  then show ?thesis by simp
qed

lemma set_all_present:
  "x \<in> set xs \<Longrightarrow> \<exists>y \<in> set xs. key y = key x \<and> map_of (set_all key val xs m) (key x) = Some (val y)"
proof (induction xs arbitrary: m x)
  case (Cons a xs)
  show ?case
  proof (cases "key x \<in> key ` set xs")
    case True
    then obtain z where z: "z \<in> set xs" "key z = key x" by auto
    from Cons.IH [OF z(1)] z(2) obtain y where "y \<in> set xs" "key y = key x"
      "map_of (set_all key val xs (AList.update (key a) (val a) m)) (key x) = Some (val y)" by metis
    then show ?thesis by auto
  next
    case False
    then have "x = a" using Cons.prems by auto
    then show ?thesis using False by (auto simp: map_of_set_all_notin)
  qed
qed simp

text \<open>An event waits in the outbox as a replayed one.\<close>

definition queued :: "key_record \<Rightarrow> logged_event \<Rightarrow> bool" where
  "queued r e \<longleftrightarrow> (\<exists>row. map_of (kr_outbox r) (ev_id (le_event e)) = Some row \<and> ob_status row = Pending \<and> ev_lane (ob_event row) = Replay)"

lemma replay_rows_in:
  "row \<in> set (replay_rows now n es) \<Longrightarrow> ob_status row = Pending \<and> ev_lane (ob_event row) = Replay"
  "e \<in> set es \<Longrightarrow> \<exists>row \<in> set (replay_rows now n es). ob_eventId row = ev_id (le_event e)"
  by (induction es arbitrary: n) auto

lemma length_replay_rows [simp]: "length (replay_rows now n es) = length es"
  by (induction es arbitrary: n) simp_all

definition replay_batch :: "number \<Rightarrow> nat \<Rightarrow> logged_event list \<Rightarrow> commit_batch" where
  "replay_batch now n es =
     \<lparr>cb_statePatch = no_patch\<lparr>sp_sequence := Some (n + length es), sp_updatedAt := Some now\<rparr>, cb_upserts = [], cb_deletes = [],
      cb_events = replay_rows now n es, cb_log = False, cb_parked = []\<rparr>"

lemma replay_commit:
  "kr_log (commit_record (replay_batch now n es) r) = kr_log r"
  "e \<in> set es \<Longrightarrow> queued (commit_record (replay_batch now n es) r) e"
  "queued r e \<Longrightarrow> queued (commit_record (replay_batch now n es) r) e"
proof -
  show "kr_log (commit_record (replay_batch now n es) r) = kr_log r"
    by (simp add: commit_record_def replay_batch_def Let_def)
  have kept: "queued (commit_record (replay_batch now n es) r) e"
    if "ev_id (le_event e) \<in> ob_eventId ` set (replay_rows now n es)" for e
  proof -
    from that obtain x where "ev_id (le_event e) = ob_eventId x" "x \<in> set (replay_rows now n es)" by (rule imageE)
    from set_all_present [OF this(2), of ob_eventId "\<lambda>x. x" "kr_outbox r"] this(1) obtain y where
      y: "y \<in> set (replay_rows now n es)" "map_of (set_all ob_eventId (\<lambda>x. x) (replay_rows now n es) (kr_outbox r)) (ev_id (le_event e)) = Some y"
      by metis
    have "kr_outbox (commit_record (replay_batch now n es) r) = set_all ob_eventId (\<lambda>x. x) (replay_rows now n es) (kr_outbox r)"
      by (simp add: replay_batch_def)
    then show ?thesis using y(2) replay_rows_in(1) [OF y(1)] by (simp add: queued_def)
  qed
  show "e \<in> set es \<Longrightarrow> queued (commit_record (replay_batch now n es) r) e"
    using replay_rows_in(2) [of e es now n] kept by (metis image_eqI)
  show "queued r e \<Longrightarrow> queued (commit_record (replay_batch now n es) r) e"
  proof (cases "ev_id (le_event e) \<in> ob_eventId ` set (replay_rows now n es)")
    case False
    then show "queued r e \<Longrightarrow> ?thesis" by (simp add: queued_def replay_batch_def map_of_set_all_notin)
  qed (use kept in blast)
qed

lemma replay_round:
  assumes "alone en" "w_keeper w = None" "es \<noteq> []"
    "bindE (nowE en) (\<lambda>now. bindE (callS en (commitPoll key lease (replay_batch now n es))) (\<lambda>_. K)) w = (Inr m, w')"
  obtains now w2 where "K w2 = (Inr m, w')" "w_keeper w2 = None" "w_exhausted w2 = w_exhausted w"
    "rec_of (w_store w2) key = commit_record (replay_batch now n es) (rec_of (w_store w) key)"
proof -
  obtain now w1 w2 where n: "nowE en w = (Inr now, w1)" and c: "callS en (commitPoll key lease (replay_batch now n es)) w1 = (Inr (), w2)"
    and k: "K w2 = (Inr m, w')" using assms(4) by (auto simp: bindE_Inr)
  note n' = nowE_same [OF n]
  then have "w_keeper w1 = None" using assms(2) by simp
  from callS_plain [OF assms(1) this c] have keep: "w_keeper w2 = None" "w_exhausted w2 = w_exhausted w"
    and op: "commitPoll key lease (replay_batch now n es) (w_store w) = (Inr (), w_store w2)" using n' by auto
  have "matches (rec_of (w_store w) key) lease"
    using fenced_res [of key lease "commit_record (replay_batch now n es)" "w_store w"] op by (auto simp: commitPoll_def split: if_splits)
  then have "rec_of (w_store w2) key = commit_record (replay_batch now n es) (rec_of (w_store w) key)"
    using fenced_rec [of key lease "commit_record (replay_batch now n es)" "w_store w" key] op by (simp add: commitPoll_def)
  with keep k that show ?thesis by blast
qed

lemma replay_loop_Suc:
  "replay_loop (Suc n) en key lease f t after sequence replayed =
     bindE (callS en (readLog key \<lparr>lr_afterSequence = after, lr_fromTime = Some f, lr_toTime = t\<rparr> 500)) (\<lambda>es.
     if es = [] then retE replayed
     else bindE (nowE en) (\<lambda>now. bindE (callS en (commitPoll key lease (replay_batch now sequence es))) (\<lambda>_.
       if length es < 500 then retE (replayed + length es)
       else replay_loop n en key lease f t (Some (le_sequence (List.last es))) (sequence + length es) (replayed + length es))))"
  unfolding replay_loop.simps replay_batch_def Let_def length_replay_rows ..

lemma replay_loop_reads_all:
  "replay_loop n en key lease f t after sequence replayed w = (Inr m, w') \<Longrightarrow> alone en \<Longrightarrow> w_keeper w = None \<Longrightarrow>
     distinct (map le_sequence (kr_log (rec_of (w_store w) key))) \<Longrightarrow>
     length (to_replay f t after (kr_log (rec_of (w_store w) key))) < n \<Longrightarrow>
     m = replayed + length (to_replay f t after (kr_log (rec_of (w_store w) key))) \<and> w_exhausted w' = w_exhausted w
     \<and> (\<forall>e. e \<in> set (to_replay f t after (kr_log (rec_of (w_store w) key))) \<or> queued (rec_of (w_store w) key) e
           \<longrightarrow> queued (rec_of (w_store w') key) e)"
proof (induction n arbitrary: after sequence replayed w)
  case (Suc n)
  let ?log = "kr_log (rec_of (w_store w) key)"
  let ?rest = "to_replay f t after ?log"
  have readLog: "readLog key \<lparr>lr_afterSequence = after, lr_fromTime = Some f, lr_toTime = t\<rparr> 500
      = getsE (\<lambda>st. take 500 (to_replay f t after (kr_log (rec_of st key))))"
    by (simp add: readLog_def to_replay_def rec_of_def fresh_record_def getsE_def fun_eq_iff split: option.splits)
  obtain es w1 where rd: "callS en (readLog key \<lparr>lr_afterSequence = after, lr_fromTime = Some f, lr_toTime = t\<rparr> 500) w = (Inr es, w1)"
    and go: "(if es = [] then retE replayed
       else bindE (nowE en) (\<lambda>now. bindE (callS en (commitPoll key lease (replay_batch now sequence es))) (\<lambda>_.
         if length es < 500 then retE (replayed + length es)
         else replay_loop n en key lease f t (Some (le_sequence (List.last es))) (sequence + length es) (replayed + length es)))) w1 = (Inr m, w')"
    using Suc.prems(1) unfolding replay_loop_Suc by (subst (asm) bindE_Inr) blast
  note w1 = callS_read [OF Suc.prems(2,3) rd [unfolded readLog]]
  then have es: "es = take 500 ?rest" by blast
  show ?case
  proof (cases "es = []")
    case True
    then show ?thesis using go w1 es by (auto simp: retE_at)
  next
    case False
    let ?K = "if length es < 500 then retE (replayed + length es)
         else replay_loop n en key lease f t (Some (le_sequence (List.last es))) (sequence + length es) (replayed + length es)"
    have k1: "w_keeper w1 = None" using w1 by blast
    obtain now w2 where k: "?K w2 = (Inr m, w')" "w_keeper w2 = None" "w_exhausted w2 = w_exhausted w1"
      "rec_of (w_store w2) key = commit_record (replay_batch now sequence es) (rec_of (w_store w1) key)"
      using go False by (auto elim!: replay_round [OF Suc.prems(2) k1 False])
    have queue: "queued (rec_of (w_store w2) key) e" if "e \<in> set es \<or> queued (rec_of (w_store w) key) e" for e
      using that k(4) w1 replay_commit(2,3) by auto
    have log2: "kr_log (rec_of (w_store w2) key) = ?log" using k(4) w1 replay_commit(1) by simp
    show ?thesis
    proof (cases "length es < 500")
      case True
      then have "es = ?rest" using es by simp
      then show ?thesis using True k queue w1 by (auto simp: retE_at)
    next
      case long: False
      have strict: "sorted_wrt (<) (map le_sequence ?rest)" using Suc.prems(4) by (rule strictly_sorted_log)
      have len: "500 \<le> length ?rest" using long es by simp
      have "List.last es \<in> set ?rest" using es False by (metis in_set_takeD last_in_set)
      then have "case after of None \<Rightarrow> True | Some a \<Rightarrow> a \<le> le_sequence (List.last es)"
        by (auto simp: to_replay_def in_range_def split: option.splits)
      from to_replay_after [OF this] have rest': "to_replay f t (Some (le_sequence (List.last es))) ?log = drop 500 ?rest"
        using drop_by_last [OF strict _ len] es by simp
      have go2: "replay_loop n en key lease f t (Some (le_sequence (List.last es))) (sequence + length es) (replayed + length es) w2 = (Inr m, w')"
        using k(1) long by simp
      have "length (drop 500 ?rest) < n" using Suc.prems(5) len by simp
      note ih = Suc.IH [OF go2 Suc.prems(2) k(2), unfolded log2 rest', OF Suc.prems(4) this]
      have "set ?rest = set es \<union> set (drop 500 ?rest)" by (metis es append_take_drop_id set_append)
      then show ?thesis using ih k(3) w1 queue len es by auto
    qed
  qed
qed simp

text \<open>C7: A replay covers the requested range: with nobody interfering and one sequence number per log entry, a replay
  that returns has read every logged event of the range exactly once, however many pages of five hundred that
  takes, the number it returns is the number of those events, and each of them waits in the outbox for
  delivery as a replayed event.\<close>

theorem replay_covers_range:
  assumes "replay_loop n en key lease fromTime toTime None sequence 0 w = (Inr m, w')" "alone en" "w_keeper w = None"
    "distinct (map le_sequence (kr_log (rec_of (w_store w) key)))" "length (kr_log (rec_of (w_store w) key)) < n"
  shows "m = length (filter (in_range \<lparr>lr_afterSequence = None, lr_fromTime = Some fromTime, lr_toTime = toTime\<rparr>)
       (kr_log (rec_of (w_store w) key)))
    \<and> w_exhausted w' = w_exhausted w
    \<and> (\<forall>e \<in> set (kr_log (rec_of (w_store w) key)).
         in_range \<lparr>lr_afterSequence = None, lr_fromTime = Some fromTime, lr_toTime = toTime\<rparr> e \<longrightarrow>
         (\<exists>row. map_of (kr_outbox (rec_of (w_store w') key)) (ev_id (le_event e)) = Some row
            \<and> ob_status row = Pending \<and> ev_lane (ob_event row) = Replay))"
proof -
  let ?log = "kr_log (rec_of (w_store w) key)"
  have len: "length (to_replay fromTime toTime None ?log) < n"
    using le_less_trans [OF length_filter_le assms(5)] by (simp add: to_replay_def)
  note all = replay_loop_reads_all [OF assms(1-4) len]
  have "\<forall>e \<in> set ?log. in_range \<lparr>lr_afterSequence = None, lr_fromTime = Some fromTime, lr_toTime = toTime\<rparr> e
      \<longrightarrow> e \<in> set (to_replay fromTime toTime None ?log)" by (simp add: to_replay_def)
  with all show ?thesis by (simp add: to_replay_def queued_def)
qed

section \<open>Ticks\<close>

fun tick_worker_size :: "tick_worker \<Rightarrow> nat" where
  "tick_worker_size TReady = 1"
| "tick_worker_size (TRunning _ _) = 2"
| "tick_worker_size TDone = 0"

definition tick_size :: "tick_pool \<Rightarrow> nat" where
  "tick_size tk = 3 * length (tk_queue tk) + sum_list (map tick_worker_size (tk_workers tk))"

lemma size_update:
  "i < length ws \<Longrightarrow> sum_list (map tick_worker_size (ws[i := v])) + tick_worker_size (ws ! i) = sum_list (map tick_worker_size ws) + tick_worker_size v"
  by (induction ws arbitrary: i) (auto split: nat.splits)

lemma tick_step_returns: "throws (\<lambda>_. False) (tick_step en deadline i tk)"
  unfolding tick_step_def
  by (cases "tk_workers tk ! i") (auto split: list.splits prod.splits option.splits simp del: bindE_retE intro!: throws_rules)

lemma yields_catch: "yields P m \<Longrightarrow> (\<And>e. yields P (h e)) \<Longrightarrow> yields P (catchE m h)"
  unfolding yields_def catchE_def by (auto split: prod.splits sum.splits)

text \<open>While keys are queued, a worker is done only after the deadline or a failure.\<close>

definition tick_inv :: "tick_pool \<Rightarrow> bool" where
  "tick_inv tk \<longleftrightarrow> tk_queue tk = [] \<or> ti_timedOut (tk_result tk) \<or> tk_failed tk \<noteq> None
     \<or> (tk_workers tk \<noteq> [] \<and> TDone \<notin> set (tk_workers tk))"

lemma tick_step_progress:
  assumes "i < length (tk_workers tk)" "tk_workers tk ! i \<noteq> TDone" "tick_inv tk"
  shows "yields (\<lambda>tk'. tick_size tk' < tick_size tk \<and> tick_inv tk') (tick_step en deadline i tk)"
proof -
  note upd = size_update [OF assms(1)]
  have new: "TDone \<notin> set ((tk_workers tk)[i := v])" if "TDone \<notin> set (tk_workers tk)" "v \<noteq> TDone" for v
    using that set_update_subset_insert by fastforce
  show ?thesis
  proof (cases "tk_workers tk ! i")
    case TReady
    show ?thesis
    proof (cases "tk_queue tk")
      case Nil
      then show ?thesis using TReady upd [of TDone] by (simp add: tick_step_def yields_ret tick_size_def tick_inv_def)
    next
      case (Cons key queue)
      obtain name p where key: "key = (name, p)" by (cases key)
      have "tick_size (tk\<lparr>tk_queue := queue, tk_workers := (tk_workers tk)[i := v], tk_result := res\<rparr>) < tick_size tk" for v res
        using TReady Cons upd [of v] by (cases v) (simp_all add: tick_size_def)
      moreover have "tick_size (tk\<lparr>tk_queue := queue, tk_workers := (tk_workers tk)[i := v]\<rparr>) < tick_size tk" for v
        using TReady Cons upd [of v] by (cases v) (simp_all add: tick_size_def)
      moreover have "tick_inv (tk\<lparr>tk_queue := queue, tk_workers := (tk_workers tk)[i := TRunning name p]\<rparr>)"
        using assms(1,3) Cons new [of "TRunning name p"] by (auto simp: tick_inv_def)
      moreover have "tick_inv (tk\<lparr>tk_queue := queue, tk_workers := (tk_workers tk)[i := TDone], tk_result := (tk_result tk)\<lparr>ti_timedOut := True\<rparr>\<rparr>)"
        by (simp add: tick_inv_def)
      ultimately show ?thesis
        unfolding tick_step_def TReady Cons key by (simp del: bindE_retE) (intro yields_bind yields_if yields_ret conjI; blast)
    qed
  next
    case (TRunning name p)
    have "tick_inv (tk\<lparr>tk_workers := (tk_workers tk)[i := TReady], tk_result := count_run r (tk_result tk)\<rparr>)" for r
      using assms(3) new [of TReady] by (auto simp: tick_inv_def count_run_def)
    moreover have "tick_size (tk\<lparr>tk_workers := (tk_workers tk)[i := TReady], tk_result := res\<rparr>) < tick_size tk" for res
      using TRunning upd [of TReady] by (simp add: tick_size_def)
    moreover have "tick_size (tk\<lparr>tk_workers := (tk_workers tk)[i := TDone], tk_failed := Some err\<rparr>) < tick_size tk" for err
      using TRunning upd [of TDone] by (simp add: tick_size_def)
    moreover have "tick_inv (tk\<lparr>tk_workers := (tk_workers tk)[i := TDone], tk_failed := Some err\<rparr>)" for err
      by (simp add: tick_inv_def)
    ultimately show ?thesis
      unfolding tick_step_def TRunning by (simp del: bindE_retE) (intro yields_catch yields_bind yields_case yields_ret conjI; blast)
  qed (use assms(2) in simp)
qed

lemma tick_loop_ends:
  "tick_size tk < n \<Longrightarrow> tick_inv tk \<Longrightarrow>
     \<exists>tk' s'. tick_loop n en deadline tk s = (Inr tk', s') \<and> tick_live tk' = [] \<and> tick_inv tk'"
proof (induction n arbitrary: tk s)
  case (Suc n)
  show ?case
  proof (cases "tick_live tk")
    case Nil
    then show ?thesis using Suc.prems by (auto simp: retE_at)
  next
    case (Cons i live)
    obtain w eg where s: "s = (w, eg)" by (cases s)
    let ?live = "i # live"
    define j where "j = ?live ! (e_sched en (w_tick w) mod length ?live)"
    have "j \<in> set ?live" unfolding j_def by (rule nth_mem) simp
    then have j: "j < length (tk_workers tk)" "tk_workers tk ! j \<noteq> TDone" using Cons by (auto simp: tick_live_def filter_eq_Cons_iff dest!: arg_cong [where f = set])
    obtain r s1 where st: "tick_step en deadline j tk (w, eg) = (r, s1)" by (metis surj_pair)
    then obtain tk1 where r: "r = Inr tk1" using throwsD [OF tick_step_returns] by (cases r) blast+
    have "tick_size tk1 < tick_size tk" "tick_inv tk1"
      using yieldsD [OF tick_step_progress [OF j Suc.prems(2)]] st r by auto
    then obtain tk' s' where "tick_loop n en deadline tk1 s1 = (Inr tk', s')" "tick_live tk' = []" "tick_inv tk'"
      using Suc.IH [of tk1 s1] Suc.prems(1) by auto
    moreover have "tick_loop (Suc n) en deadline tk s = tick_loop n en deadline tk1 s1"
      using Cons st r by (simp add: s bindE_def inW_def getsE_def j_def)
    ultimately show ?thesis by simp
  qed
qed simp

text \<open>C8: A tick ends: under every interleaving of its workers, and whatever the runs do, all workers finish within the
  number of turns that the model allows, and no key is left in the queue unless the time budget was used up or a
  run failed with an exception.\<close>

theorem tick_finishes:
  "\<exists>tk' s'. tick_loop (3 * length keys + TICK_CONCURRENCY + 1) en deadline
       \<lparr>tk_queue = keys, tk_workers = replicate (min TICK_CONCURRENCY (length keys)) TReady, tk_result = empty_tick, tk_failed = None\<rparr> s
       = (Inr tk', s')
     \<and> list_all (\<lambda>wk. wk = TDone) (tk_workers tk')
     \<and> (tk_queue tk' = [] \<or> ti_timedOut (tk_result tk') \<or> (\<exists>e. tk_failed tk' = Some e))"
proof -
  let ?tk = "\<lparr>tk_queue = keys, tk_workers = replicate (min TICK_CONCURRENCY (length keys)) TReady, tk_result = empty_tick, tk_failed = None\<rparr>"
  have "tick_size ?tk < 3 * length keys + TICK_CONCURRENCY + 1" by (simp add: tick_size_def sum_list_replicate)
  moreover have "tick_inv ?tk" by (auto simp: tick_inv_def TICK_CONCURRENCY_def)
  ultimately obtain tk' s' where e: "tick_loop (3 * length keys + TICK_CONCURRENCY + 1) en deadline ?tk s = (Inr tk', s')"
    "tick_live tk' = []" "tick_inv tk'" using tick_loop_ends by blast
  have all_done: "tk_workers tk' ! i = TDone" if "i < length (tk_workers tk')" for i
    using e(2) that by (simp add: tick_live_def filter_empty_conv)
  then have "list_all (\<lambda>wk. wk = TDone) (tk_workers tk')" by (simp add: list_all_length)
  moreover have "TDone \<in> set (tk_workers tk')" if "tk_workers tk' \<noteq> []"
    using all_done [of 0] that by (metis length_greater_0_conv nth_mem)
  ultimately show ?thesis using e by (auto simp: tick_inv_def)
qed

section \<open>Witnesses\<close>

definition paused_world :: world where
  "paused_world = sample_world\<lparr>w_store := put sample_key ((fresh_record sample_key)\<lparr>kr_state := Some ((emptyState 0 sample_poller)\<lparr>st_paused := True\<rparr>)\<rparr>) []\<rparr>"

theorem paused_key_is_left_alone_witness:
  "w_store (snd (runKey sample_env sample_runner None True paused_world)) = w_store paused_world"
proof -
  have "alone sample_env" "w_keeper paused_world = None" by (simp_all add: alone_def sample_env_def paused_world_def sample_world_def)
  moreover have "kr_state (rec_of (w_store paused_world) (rd_key sample_runner)) = Some ((emptyState 0 sample_poller)\<lparr>st_paused := True\<rparr>)"
    by (simp add: paused_world_def sample_runner_def)
  moreover have "\<not> isl (fst (runKey sample_env sample_runner None True paused_world))" by code_simp
  then obtain r where "runKey sample_env sample_runner None True paused_world = (Inr r, snd (runKey sample_env sample_runner None True paused_world))"
    by (metis prod.collapse sum.collapse(2))
  ultimately show ?thesis using paused_key_is_left_alone [of sample_env paused_world sample_runner _ None True r] by simp
qed

definition logged_world :: world where
  "logged_world = sample_world\<lparr>w_store := put sample_key ((fresh_record sample_key)\<lparr>kr_lease := Some lease_a,
     kr_log := [\<lparr>le_sequence = 1, le_event = sample_event ''e1'' 1, le_createdAt = 5\<rparr>, \<lparr>le_sequence = 2, le_event = sample_event ''e2'' 2, le_createdAt = 50\<rparr>]\<rparr>) []\<rparr>"

theorem replay_covers_range_witness:
  "\<exists>w'. replay_loop 3 sample_env sample_key lease_a 0 (Some 10) None 2 0 logged_world = (Inr 1, w')"
proof -
  have "\<not> isl (fst (replay_loop 3 sample_env sample_key lease_a 0 (Some 10) None 2 0 logged_world))" by code_simp
  then obtain m w' where r: "replay_loop 3 sample_env sample_key lease_a 0 (Some 10) None 2 0 logged_world = (Inr m, w')"
    by (metis prod.collapse sum.collapse(2))
  have env: "alone sample_env" "w_keeper logged_world = None" by (simp_all add: alone_def sample_env_def logged_world_def sample_world_def)
  have lg: "kr_log (rec_of (w_store logged_world) sample_key) = [\<lparr>le_sequence = 1, le_event = sample_event ''e1'' 1, le_createdAt = 5\<rparr>,
      \<lparr>le_sequence = 2, le_event = sample_event ''e2'' 2, le_createdAt = 50\<rparr>]" by (simp add: logged_world_def)
  have "m = 1" using replay_covers_range [OF r env] by (simp add: lg in_range_def)
  with r show ?thesis by blast
qed

end
