(* ===== verification/Runner_Findings.thy ===== *)
theory Runner_Findings
  imports Runner_Progress
begin

text \<open>
  Behaviours of \<^verbatim>\<open>src/core/runner.ts\<close> that differ from what its comments and its documentation say, each as a
  fact about the model.
\<close>

section \<open>An aborted scan counts as a complete one\<close>

text \<open>A listing of three pages, of which the engine is stopped after the second: the item of the third page is in
  the store and still in the API.\<close>

definition scan_page :: "jsval list \<Rightarrow> bool \<Rightarrow> fetch_step" where
  "scan_page items hasMore = FPage \<lparr>fp_items = Some items, fp_cursor = None, fp_hasMore = Some hasMore\<rparr>"

definition scan_env :: "nat \<Rightarrow> env" where
  "scan_env stop = sample_env\<lparr>e_abort := (\<lambda>n. n = stop),
     e_fetch := (\<lambda>_ _. [scan_page [] True, scan_page [] True, scan_page [VObj 0 [(''id'', VStr ''i3'')]] False])\<rparr>"

definition scan_world :: world where
  "scan_world = sample_world\<lparr>w_store := put sample_key ((fresh_record sample_key)\<lparr>kr_lease := Some lease_a,
     kr_items := [(''i3'', \<lparr>ir_identity = ''i3'', ir_version = None, ir_hash = '''', ir_schemaVersion = 1, ir_payload = None,
        ir_seenAt = 0\<rparr>)]\<rparr>) []\<rparr>"

definition scan_runner :: runner_deps where
  "scan_runner = sample_runner\<lparr>rd_consumer := False, rd_sha := (\<lambda>_. [])\<rparr>"

definition scan_cfg :: cycle_cfg where
  "scan_cfg = sample_cfg\<lparr>cc_lane := Reconcile, cc_fullScan := True\<rparr>"

definition scanned :: "nat \<Rightarrow> string list" where
  "scanned stop = map fst (kr_items (rec_of (w_store (fst (snd
     (cycle_body (scan_env stop) scan_runner scan_cfg (scan_world, sample_cycle))))) sample_key))"

text \<open>Left alone, the scan keeps the item; stopped after the second page, it deletes it.\<close>

lemma complete_scan_keeps: "scanned 100 = [''i3'']"
  by code_simp

lemma aborted_scan_deletes: "scanned 16 = []"
  by code_simp

section \<open>The engine's own stop is a failed poll\<close>

lemma stop_is_no_abort_error: "\<not> isAbortError (plainError ''Error'' ''watukuy: engine stopped'')"
  by (simp add: isAbortError_def plainError_def)

text \<open>A live cycle that the engine stops is planned like a failed poll, although nothing failed.\<close>

lemma stop_counts_as_failure:
  assumes "w_aborted w" "w_keeper w = None" "cc_lane cc = Live"
    "fail_cycle en rd cc (plainError ''Error'' ''watukuy: engine stopped'') (w, c) = (Inr r, s')"
  shows "consecutiveFailures (st_schedule (cr_state r)) = Suc (consecutiveFailures (st_schedule (cy_state c)))"
  using assms
  by (auto simp: fail_cycle_def plan_failure_def stop_is_no_abort_error [unfolded plainError_def] bindE_def inW_def abortedE_def getsE_def
      keeper_is_lost_def getC_def setC_def modifyE_def retE_def nowE_def randomE_def traceE_def catchE_def Let_def
      plainError_def afterFailure_def
      split: prod.splits sum.splits if_splits)

section \<open>A cursor that cannot be read\<close>

text \<open>The persisted cursor is decoded before the \<^verbatim>\<open>try\<close> block, so that a cursor that does not decode leaves the cycle
  as an exception instead of a result with an error.\<close>

lemma unreadable_cursor_escapes:
  assumes "getStrategy (rd_dateParse rd) (rp_cursor (rd_poller rd)) = Inr strategy"
    "st_lanes state Live = Some ls" "lc_cursor ls = Some s" "s_deserialize strategy s = Inl e"
  shows "fst (runCycle en rd lease deadline state Live w) = Inl e"
  using assms by (simp add: runCycle_def lane_cfg_def liftR_def bindE_def retE_def throwE_def nowE_def traceE_def getsE_def modifyE_def Let_def
      split: prod.splits sum.splits)

end
