(* ===== verification/Consumers.thy ===== *)
theory Consumers
  imports Types
begin

text \<open>
  \<^verbatim>\<open>src/core/consumers.ts\<close>: where delivered events go. A handler consumer answers at once; the subscription
  behind \<^verbatim>\<open>engine.subscribe()\<close> is a state machine whose promises are identified by numbers: \<open>Acked i\<close> and
  \<open>Nacked i\<close> settle the \<^verbatim>\<open>deliver\<close> promise \<open>i\<close>, \<open>Yielded j e\<close> and \<open>Finished j\<close> the \<^verbatim>\<open>next\<close> promise \<open>j\<close>.
\<close>

section \<open>Handlers\<close>

text \<open>A handler returns or throws, and may call \<^verbatim>\<open>ctx.ack()\<close>.\<close>

datatype handler_run = HandlerReturns (called_ack: bool) | HandlerThrows thrown

definition handler_deliver :: "(event \<Rightarrow> handler_run) \<Rightarrow> ack_mode \<Rightarrow> event \<Rightarrow> thrown option" where
  "handler_deliver handler ackMode ev =
     (case handler ev of
        HandlerThrows e \<Rightarrow> Some e
      | HandlerReturns acked \<Rightarrow>
          if ackMode = AckManual \<and> \<not> acked
          then Some (plainError ''Error'' (''handler returned without calling ctx.ack() for event '' @ ev_id ev
                 @ '' (delivery.ackMode is '' @ [CHR 0x27] @ ''manual'' @ [CHR 0x27] @ '')''))
          else None)"

section \<open>Subscriptions\<close>

datatype settlement = Acked nat | Nacked nat thrown | Yielded nat event | Finished nat

record subscription =
  su_puller :: "nat option"
  su_inflight :: "(nat \<times> event) option"
  su_queue :: "(nat \<times> event) list"
  su_closed :: bool
  su_closeReason :: "thrown option"
  su_iterated :: bool
  su_delivers :: nat \<comment> \<open>number of \<^verbatim>\<open>deliver\<close> promises so far\<close>
  su_pulls :: nat \<comment> \<open>number of \<^verbatim>\<open>next\<close> promises so far\<close>
  su_out :: "settlement list"

definition new_subscription :: subscription where
  "new_subscription = \<lparr>su_puller = None, su_inflight = None, su_queue = [], su_closed = False, su_closeReason = None,
     su_iterated = False, su_delivers = 0, su_pulls = 0, su_out = []\<rparr>"

definition emit :: "settlement list \<Rightarrow> subscription \<Rightarrow> subscription" where
  "emit xs s = s\<lparr>su_out := su_out s @ xs\<rparr>"

definition sub_pump :: "subscription \<Rightarrow> subscription" where
  "sub_pump s =
     (case (su_puller s, su_inflight s, su_queue s) of
        (Some j, None, nxt # rest) \<Rightarrow>
          emit [Yielded j (snd nxt)] (s\<lparr>su_queue := rest, su_puller := None, su_inflight := Some nxt\<rparr>)
      | _ \<Rightarrow> s)"

definition closed_error :: "thrown option \<Rightarrow> string \<Rightarrow> thrown" where
  "closed_error reason msg = opt_or reason (plainError ''Error'' msg)"

definition sub_deliver :: "event \<Rightarrow> subscription \<Rightarrow> subscription" where
  "sub_deliver ev s =
     (let i = su_delivers s; s1 = s\<lparr>su_delivers := i + 1\<rparr> in
      if su_closed s then emit [Nacked i (closed_error (su_closeReason s) ''subscriber closed'')] s1
      else sub_pump (s1\<lparr>su_queue := su_queue s1 @ [(i, ev)]\<rparr>))"

definition settleInflight :: "bool \<Rightarrow> thrown option \<Rightarrow> subscription \<Rightarrow> subscription" where
  "settleInflight ok reason s =
     (case su_inflight s of
        None \<Rightarrow> s
      | Some (i, _) \<Rightarrow>
          emit [if ok then Acked i else Nacked i (closed_error reason ''event not acknowledged'')] (s\<lparr>su_inflight := None\<rparr>))"

definition sub_close :: "thrown option \<Rightarrow> subscription \<Rightarrow> subscription" where
  "sub_close reason s =
     (if su_closed s then s
      else
        let s1 = s\<lparr>su_closed := True, su_closeReason := reason\<rparr>;
            s2 = settleInflight False (Some (closed_error reason ''subscriber closed while event in flight'')) s1;
            s3 = emit (map (\<lambda>p. Nacked (fst p) (closed_error reason ''subscriber closed'')) (su_queue s2)) (s2\<lparr>su_queue := []\<rparr>)
        in (case su_puller s3 of None \<Rightarrow> s3 | Some j \<Rightarrow> emit [Finished j] (s3\<lparr>su_puller := None\<rparr>)))"

definition sub_next :: "subscription \<Rightarrow> subscription" where
  "sub_next s =
     (let s1 = settleInflight True None s; j = su_pulls s1; s2 = s1\<lparr>su_pulls := j + 1\<rparr> in
      if su_closed s2 then emit [Finished j] s2 else sub_pump (s2\<lparr>su_puller := Some j\<rparr>))"

definition sub_return :: "subscription \<Rightarrow> subscription" where
  "sub_return s =
     (let s1 = sub_close None (settleInflight True None s); j = su_pulls s1 in emit [Finished j] (s1\<lparr>su_pulls := j + 1\<rparr>))"

definition sub_throw :: "thrown option \<Rightarrow> subscription \<Rightarrow> subscription" where
  "sub_throw err s =
     (let s1 = sub_close err (settleInflight False err s); j = su_pulls s1 in emit [Finished j] (s1\<lparr>su_pulls := j + 1\<rparr>))"

definition sub_iterate :: "subscription \<Rightarrow> thrown + subscription" where
  "sub_iterate s =
     (if su_iterated s then Inl (plainError ''Error'' ''a watukuy subscription can only be iterated once'')
      else Inr (s\<lparr>su_iterated := True\<rparr>))"

definition subscribe_with :: "thrown option option \<Rightarrow> subscription" where
  \<comment> \<open>the constructor; the argument is the reason of a signal that is already aborted\<close>
  "subscribe_with aborted = (case aborted of None \<Rightarrow> new_subscription | Some reason \<Rightarrow> sub_close reason new_subscription)"

inductive sub_step :: "subscription \<Rightarrow> subscription \<Rightarrow> bool" where
  deliver: "sub_step s (sub_deliver ev s)"
| nxt: "sub_step s (sub_next s)"
| return: "sub_step s (sub_return s)"
| throwing: "sub_step s (sub_throw err s)"
| close: "sub_step s (sub_close reason s)"
| iterate: "sub_iterate s = Inr s' \<Longrightarrow> sub_step s s'"

section \<open>Every delivery is settled once\<close>

fun settled_of :: "settlement list \<Rightarrow> nat list" where
  "settled_of [] = []"
| "settled_of (Acked i # xs) = i # settled_of xs"
| "settled_of (Nacked i _ # xs) = i # settled_of xs"
| "settled_of (_ # xs) = settled_of xs"

lemma settled_append [simp]: "settled_of (xs @ ys) = settled_of xs @ settled_of ys"
  by (induction xs rule: settled_of.induct) auto

lemma settled_nacks [simp]: "settled_of (map (\<lambda>p. Nacked (fst p) e) q) = map fst q"
  by (induction q) auto

definition open_ids :: "subscription \<Rightarrow> nat list" where
  "open_ids s = (case su_inflight s of None \<Rightarrow> [] | Some p \<Rightarrow> [fst p]) @ map fst (su_queue s)"

text \<open>The settled promises followed by the open ones are exactly the promises made so far, in order.\<close>

definition sub_inv :: "subscription \<Rightarrow> bool" where
  "sub_inv s \<longleftrightarrow> settled_of (su_out s) @ open_ids s = [0..<su_delivers s]
     \<and> (su_closed s \<longrightarrow> su_inflight s = None \<and> su_queue s = [] \<and> su_puller s = None)
     \<and> (su_puller s \<noteq> None \<and> su_inflight s = None \<longrightarrow> su_queue s = [])
     \<and> (su_puller s \<noteq> None \<longrightarrow> su_inflight s = None)"

lemma emit_simps [simp]:
  "su_out (emit xs s) = su_out s @ xs" "su_puller (emit xs s) = su_puller s" "su_inflight (emit xs s) = su_inflight s"
  "su_queue (emit xs s) = su_queue s" "su_closed (emit xs s) = su_closed s" "su_delivers (emit xs s) = su_delivers s"
  "su_pulls (emit xs s) = su_pulls s"
  by (simp_all add: emit_def)

lemma settle_inv: "sub_inv s \<Longrightarrow> sub_inv (settleInflight ok r s)"
  by (auto simp: sub_inv_def settleInflight_def open_ids_def split: option.splits)

lemma settle_inflight [simp]: "su_inflight (settleInflight ok r s) = None"
  "su_closed (settleInflight ok r s) = su_closed s" "su_delivers (settleInflight ok r s) = su_delivers s"
  by (auto simp: settleInflight_def split: option.splits)

lemma close_inv: "sub_inv s \<Longrightarrow> sub_inv (sub_close reason s)"
  by (auto simp: sub_inv_def sub_close_def settleInflight_def open_ids_def Let_def split: option.splits)

lemma finish_inv: "sub_inv s \<Longrightarrow> sub_inv (emit [Finished j] (s\<lparr>su_pulls := n\<rparr>))"
  by (auto simp: sub_inv_def open_ids_def)

lemma deliver_inv: "sub_inv s \<Longrightarrow> sub_inv (sub_deliver ev s)"
  by (auto simp: sub_inv_def sub_deliver_def sub_pump_def open_ids_def Let_def split: option.splits list.splits)

lemma next_inv: "sub_inv s \<Longrightarrow> sub_inv (sub_next s)"
  using settle_inv [of s True None]
  by (auto simp: sub_inv_def sub_next_def sub_pump_def open_ids_def Let_def split: option.splits list.splits)

lemma sub_step_inv: "sub_inv s \<Longrightarrow> sub_step s t \<Longrightarrow> sub_inv t"
proof (erule sub_step.cases)
  fix s0 s' assume "sub_inv s" "s = s0" "t = s'" "sub_iterate s0 = Inr s'"
  then show "sub_inv t" by (auto simp: sub_iterate_def sub_inv_def open_ids_def split: if_splits)
qed (auto simp: sub_return_def sub_throw_def Let_def intro: deliver_inv next_inv close_inv settle_inv finish_inv)

interpretation sub: transition_inv sub_step sub_inv
  by unfold_locales (rule sub_step_inv)

section \<open>Properties\<close>

text \<open>C40: A subscription settles every delivery exactly once and in order: in every state that deliveries, pulls,
  returns, throws and closes reach, the deliveries settled so far (acknowledged or refused), then the one in
  flight, then the queued ones are exactly all deliveries in the order they were made; at most one event is
  in flight; while a consumer waits nothing is queued; and a closed subscription has nothing open.\<close>

theorem subscription_settles_in_order:
  assumes "sub_step\<^sup>*\<^sup>* new_subscription s"
  shows "settled_of (su_out s) @ map fst (case su_inflight s of None \<Rightarrow> [] | Some p \<Rightarrow> [p]) @ map fst (su_queue s) = [0..<su_delivers s]
    \<and> (su_puller s \<noteq> None \<longrightarrow> su_inflight s = None \<and> su_queue s = [])
    \<and> (su_closed s \<longrightarrow> settled_of (su_out s) = [0..<su_delivers s])"
proof -
  have "sub_inv s" by (rule sub.run_inv [OF assms]) (simp add: sub_inv_def new_subscription_def open_ids_def)
  then show ?thesis by (auto simp: sub_inv_def open_ids_def split: option.splits)
qed

theorem subscription_settles_in_order_witness:
  "su_closed (sub_close None (sub_next new_subscription))
    \<and> settled_of (su_out (sub_close None (sub_next new_subscription))) = [0..<0]"
proof -
  have "sub_step\<^sup>*\<^sup>* new_subscription (sub_close None (sub_next new_subscription))"
    by (meson rtranclp.rtrancl_into_rtrancl rtranclp.rtrancl_refl sub_step.nxt sub_step.close)
  from subscription_settles_in_order [OF this] show ?thesis
    by (simp add: sub_close_def sub_next_def settleInflight_def sub_pump_def new_subscription_def Let_def emit_def)
qed

end
