(* ===== verification/Sinks.thy ===== *)
theory Sinks
  imports Types
begin

text \<open>
  Sinks: \<^verbatim>\<open>src/core/cloudevents.ts\<close>, \<^verbatim>\<open>src/sinks/serialize.ts\<close> and \<^verbatim>\<open>src/sinks/queues.ts\<close>. An object literal of
  the source is the list of its members; it is a fresh object, so \<^verbatim>\<open>JSON.stringify\<close> cannot meet it again below itself
  and only its members are walked. The queue client is the environment: it decides which calls fail; the world
  keeps the calls and counts the acknowledgements.
\<close>

section \<open>Events as objects\<close>

type_synonym fields = "(string \<times> jsval) list"

fun lane_text :: "lane \<Rightarrow> string" where
  "lane_text Live = ''live''"
| "lane_text Backfill = ''backfill''"
| "lane_text Reconcile = ''reconcile''"
| "lane_text Replay = ''replay''"

definition nat_val :: "nat \<Rightarrow> jsval" where
  "nat_val n = VNum (mk_num False n 0)"

definition event_fields :: "event \<Rightarrow> fields" where
  \<comment> \<open>the envelope as the runner builds it\<close>
  "event_fields ev =
     [(''id'', VStr (ev_id ev)), (''type'', VStr (event_type_str (ev_type ev))), (''source'', VStr (ev_source ev)),
      (''subject'', VStr (ev_subject ev)), (''time'', VStr (ev_time ev)), (''poller'', VStr (ev_poller ev)),
      (''partition'', VStr (ev_partition ev)), (''lane'', VStr (lane_text (ev_lane ev))), (''sequence'', nat_val (ev_sequence ev)),
      (''cursor'', val_of_json 0 (ev_cursor ev)), (''data'', ev_data ev), (''attempt'', nat_val (ev_attempt ev))]
     @ (case ev_previous ev of None \<Rightarrow> [] | Some p \<Rightarrow> [(''previous'', p)])"

definition event_type_of :: "event \<Rightarrow> string" where
  \<comment> \<open>\<^verbatim>\<open>`${event.poller}.${event.type}`\<close>\<close>
  "event_type_of ev = ev_poller ev @ ''.'' @ event_type_str (ev_type ev)"

definition toCloudEvent :: "event \<Rightarrow> fields" where
  "toCloudEvent ev =
     [(''specversion'', VStr ''1.0''), (''id'', VStr (ev_id ev)), (''source'', VStr (ev_source ev)), (''type'', VStr (event_type_of ev)),
      (''subject'', VStr (ev_subject ev)), (''time'', VStr (ev_time ev)), (''datacontenttype'', VStr ''application/json''),
      (''data'', ev_data ev), (''watukuypartition'', VStr (ev_partition ev)), (''watukuylane'', VStr (lane_text (ev_lane ev))),
      (''watukuysequence'', nat_val (ev_sequence ev)), (''watukuypoller'', VStr (ev_poller ev))]
     @ (case ev_previous ev of None \<Rightarrow> [] | Some p \<Rightarrow> [(''watukuyprevious'', p)])"

section \<open>\<^verbatim>\<open>src/sinks/serialize.ts\<close>\<close>

datatype sink_format = FmtCloudEvents | FmtRaw

definition CLOUDEVENTS_CONTENT_TYPE :: string where
  "CLOUDEVENTS_CONTENT_TYPE = ''application/cloudevents+json''"

definition JSON_CONTENT_TYPE :: string where
  "JSON_CONTENT_TYPE = ''application/json''"

definition toSinkPayload :: "event \<Rightarrow> sink_format \<Rightarrow> fields" where
  "toSinkPayload ev format = (if format = FmtCloudEvents then toCloudEvent ev else event_fields ev)"

definition stringify_object :: "fields \<Rightarrow> thrown + string" where
  \<comment> \<open>\<^verbatim>\<open>JSON.stringify\<close> of an object literal\<close>
  "stringify_object fs = map_sum id (\<lambda>ms. json_str (JObj ms)) (collect_members (map (\<lambda>(k, v). (k, jsonify [] v)) fs))"

record serialized_event =
  sz_body :: string
  sz_contentType :: string

definition serializeEvent :: "event \<Rightarrow> sink_format \<Rightarrow> thrown + serialized_event" where
  "serializeEvent ev format =
     map_sum id (\<lambda>body. \<lparr>sz_body = body,
         sz_contentType = (if format = FmtCloudEvents then CLOUDEVENTS_CONTENT_TYPE else JSON_CONTENT_TYPE)\<rparr>)
       (stringify_object (toSinkPayload ev format))"

section \<open>\<^verbatim>\<open>src/sinks/queues.ts\<close>\<close>

text \<open>What a client was asked to send; \<open>'m\<close> is the message of the kind of queue.\<close>

record 'm sink_world =
  sk_tick :: nat
  sk_calls :: "'m list"
  sk_acks :: nat

type_synonym ('m, 'a) sio = "('m sink_world, thrown, 'a) io"

definition liftS :: "thrown + 'a \<Rightarrow> ('m, 'a) sio" where
  "liftS r = (case r of Inl e \<Rightarrow> throwE e | Inr x \<Rightarrow> retE x)"

definition send_call :: "(nat \<Rightarrow> thrown option) \<Rightarrow> 'm \<Rightarrow> ('m, unit) sio" where
  "send_call fails m =
     (\<lambda>w. ((case fails (sk_tick w) of None \<Rightarrow> Inr () | Some e \<Rightarrow> Inl e),
           w\<lparr>sk_tick := Suc (sk_tick w), sk_calls := sk_calls w @ [m]\<rparr>))"

definition ackS :: "('m, unit) sio" where
  "ackS = modifyE (\<lambda>w. w\<lparr>sk_acks := Suc (sk_acks w)\<rparr>)"

text \<open>An option that is a fixed text or computed from the event (a function of the user, which may throw).\<close>

datatype text_option = TextFixed string | TextOf "event \<Rightarrow> thrown + string"

fun text_value :: "text_option option \<Rightarrow> string \<Rightarrow> event \<Rightarrow> thrown + string" where
  "text_value None dflt ev = Inr dflt"
| "text_value (Some (TextFixed s)) dflt ev = Inr s"
| "text_value (Some (TextOf f)) dflt ev = f ev"

subsection \<open>BullMQ\<close>

record bull_call =
  bq_name :: string
  bq_data :: fields
  bq_opts :: "(string, jsval) jsmap"

record bull_options =
  bo_jobName :: "text_option option"
  bo_jobOptions :: "(string, jsval) jsmap option"
  bo_format :: "sink_format option"

definition defaultJobName :: "event \<Rightarrow> string" where
  "defaultJobName ev = event_type_of ev"

definition bull_message_of :: "bull_options \<Rightarrow> event \<Rightarrow> thrown + bull_call" where
  "bull_message_of opts ev =
     map_sum id (\<lambda>name. \<lparr>bq_name = name, bq_data = toSinkPayload ev (opt_or (bo_format opts) FmtCloudEvents),
         bq_opts = AList.update ''jobId'' (VStr (ev_id ev)) (opt_or (bo_jobOptions opts) [])\<rparr>)
       (text_value (bo_jobName opts) (defaultJobName ev) ev)"

definition bullmqSink :: "(nat \<Rightarrow> thrown option) \<Rightarrow> bull_options \<Rightarrow> event \<Rightarrow> (bull_call, unit) sio" where
  "bullmqSink fails opts ev =
     bindE (liftS (bull_message_of opts ev)) (\<lambda>m.
     bindE (send_call fails m) (\<lambda>_. ackS))"

subsection \<open>SQS\<close>

record sqs_attribute =
  sa_dataType :: string
  sa_stringValue :: string

record sqs_input =
  sq_queueUrl :: string
  sq_messageBody :: string
  sq_attributes :: "(string \<times> sqs_attribute) list"
  sq_deduplicationId :: "string option"
  sq_groupId :: "string option"

record sqs_options =
  so_queueUrl :: string
  so_fifo :: "bool option"
  so_format :: "sink_format option"
  so_messageGroupId :: "text_option option"

definition stringAttribute :: "string \<Rightarrow> sqs_attribute" where
  "stringAttribute v = \<lparr>sa_dataType = ''String'', sa_stringValue = v\<rparr>"

text \<open>\<^verbatim>\<open>createCommand\<close> wraps the input for the SDK; the call is given by its input.\<close>

definition sqs_message_of :: "sqs_options \<Rightarrow> event \<Rightarrow> thrown + sqs_input" where
  "sqs_message_of opts ev =
     (case serializeEvent ev (opt_or (so_format opts) FmtCloudEvents) of
        Inl e \<Rightarrow> Inl e
      | Inr s \<Rightarrow>
          let input = \<lparr>sq_queueUrl = so_queueUrl opts, sq_messageBody = sz_body s,
                sq_attributes = [(''poller'', stringAttribute (ev_poller ev)), (''type'', stringAttribute (event_type_str (ev_type ev))),
                                 (''contentType'', stringAttribute (sz_contentType s))],
                sq_deduplicationId = None, sq_groupId = None\<rparr>
          in if opt_or (so_fifo opts) True
             then map_sum id (\<lambda>g. input\<lparr>sq_deduplicationId := Some (ev_id ev), sq_groupId := Some g\<rparr>)
                    (text_value (so_messageGroupId opts) (ev_subject ev) ev)
             else Inr input)"

definition sqsSink :: "(nat \<Rightarrow> thrown option) \<Rightarrow> sqs_options \<Rightarrow> event \<Rightarrow> (sqs_input, unit) sio" where
  "sqsSink fails opts ev =
     bindE (liftS (sqs_message_of opts ev)) (\<lambda>input.
     bindE (send_call fails input) (\<lambda>_. ackS))"

subsection \<open>Kafka\<close>

record kafka_message =
  km_topic :: string
  km_key :: string
  km_value :: "string option"
  km_headers :: "(string, string) jsmap"

datatype kafka_format = KafkaBinary | KafkaStructured

record kafka_options =
  ko_topic :: string
  ko_format :: "kafka_format option"

definition header_text :: "jsval \<Rightarrow> thrown + string option" where
  \<comment> \<open>\<^verbatim>\<open>typeof value === 'string' ? value : JSON.stringify(value)\<close>\<close>
  "header_text v = (case v of VStr s \<Rightarrow> Inr (Some s) | _ \<Rightarrow> stringify v)"

fun kafka_headers_loop :: "fields \<Rightarrow> (string, string) jsmap \<Rightarrow> thrown + (string, string) jsmap" where
  "kafka_headers_loop [] h = Inr h"
| "kafka_headers_loop ((name, v) # fs) h =
     (if name \<in> {''data'', ''datacontenttype'', ''watukuyprevious''} \<or> v = VUndef \<or> v = VStr [] then kafka_headers_loop fs h
      else case header_text v of
             Inl e \<Rightarrow> Inl e
           | Inr None \<Rightarrow> kafka_headers_loop fs h
           | Inr (Some s) \<Rightarrow> kafka_headers_loop fs (AList.update (''ce_'' @ name) s h))"

definition kafkaBinaryHeaders :: "event \<Rightarrow> thrown + (string, string) jsmap" where
  "kafkaBinaryHeaders ev = kafka_headers_loop (toCloudEvent ev) [(''content-type'', JSON_CONTENT_TYPE)]"

definition kafka_message_of :: "kafka_options \<Rightarrow> event \<Rightarrow> thrown + kafka_message" where
  "kafka_message_of opts ev =
     (case opt_or (ko_format opts) KafkaBinary of
        KafkaStructured \<Rightarrow>
          map_sum id (\<lambda>body. \<lparr>km_topic = ko_topic opts, km_key = ev_subject ev, km_value = Some body,
              km_headers = [(''content-type'', CLOUDEVENTS_CONTENT_TYPE)]\<rparr>) (stringify_object (toCloudEvent ev))
      | KafkaBinary \<Rightarrow>
          (case stringify (if ev_data ev = VUndef then VNull else ev_data ev) of
             Inl e \<Rightarrow> Inl e
           | Inr body \<Rightarrow>
               map_sum id (\<lambda>h. \<lparr>km_topic = ko_topic opts, km_key = ev_subject ev, km_value = body, km_headers = h\<rparr>)
                 (kafkaBinaryHeaders ev)))"

definition kafkaSink :: "(nat \<Rightarrow> thrown option) \<Rightarrow> kafka_options \<Rightarrow> event \<Rightarrow> (kafka_message, unit) sio" where
  "kafkaSink fails opts ev =
     bindE (liftS (kafka_message_of opts ev)) (\<lambda>m.
     bindE (send_call fails m) (\<lambda>_. ackS))"

section \<open>What the sinks promise\<close>

text \<open>A handler keeps the contract of a sink when one call of it acknowledges the event exactly if it returns, and it
  returns exactly if one message was handed over and accepted; \<open>ident\<close> is the identity under which the receiver recognises a redelivery.\<close>

locale sink =
  fixes handler :: "(nat \<Rightarrow> thrown option) \<Rightarrow> 'o \<Rightarrow> event \<Rightarrow> ('m, unit) sio"
    and ident :: "'o \<Rightarrow> event \<Rightarrow> 'm \<Rightarrow> bool"
  assumes acked: "handler fails opts ev w = (Inr (), w') \<Longrightarrow>
      \<exists>m. sk_calls w' = sk_calls w @ [m] \<and> ident opts ev m \<and> fails (sk_tick w) = None \<and> sk_acks w' = Suc (sk_acks w)"
    and refused: "handler fails opts ev w = (Inl e, w') \<Longrightarrow>
      sk_acks w' = sk_acks w \<and> (sk_calls w' = sk_calls w \<or> (\<exists>m. sk_calls w' = sk_calls w @ [m] \<and> ident opts ev m \<and> fails (sk_tick w) = Some e))"
begin

lemma acks_count: "handler fails opts ev w = (r, w') \<Longrightarrow> sk_acks w' = sk_acks w + (if r = Inr () then 1 else 0)"
  by (cases r) (auto dest: acked refused)

lemma call_is_event: "handler fails opts ev w = (r, w') \<Longrightarrow> m \<in> set (sk_calls w') \<Longrightarrow> m \<in> set (sk_calls w) \<or> ident opts ev m"
  by (cases r) (auto dest: acked refused)

end

lemma map_sum_Inr_iff: "map_sum id f r = Inr y \<longleftrightarrow> (\<exists>x. r = Inr x \<and> y = f x)"
  by (cases r) auto

lemma sink_contract:
  assumes "handler = (\<lambda>fails opts ev. bindE (liftS (message opts ev)) (\<lambda>m. bindE (send_call fails m) (\<lambda>_. ackS)))"
    and "\<And>opts ev m. message opts ev = Inr m \<Longrightarrow> ident opts ev m"
  shows "sink handler ident"
  by unfold_locales
    (auto simp: assms(1) bindE_def liftS_def throwE_def retE_def send_call_def ackS_def modifyE_def dest: assms(2)
      split: sum.splits option.splits)

definition bull_ident :: "bull_options \<Rightarrow> event \<Rightarrow> bull_call \<Rightarrow> bool" where
  "bull_ident opts ev m \<longleftrightarrow> map_of (bq_opts m) ''jobId'' = Some (VStr (ev_id ev))"

definition sqs_ident :: "sqs_options \<Rightarrow> event \<Rightarrow> sqs_input \<Rightarrow> bool" where
  "sqs_ident opts ev m \<longleftrightarrow> (opt_or (so_fifo opts) True \<longrightarrow> sq_deduplicationId m = Some (ev_id ev))"

definition kafka_ident :: "kafka_options \<Rightarrow> event \<Rightarrow> kafka_message \<Rightarrow> bool" where
  "kafka_ident opts ev m \<longleftrightarrow> km_key m = ev_subject ev"

interpretation bull: sink bullmqSink bull_ident
  by (rule sink_contract [where message = bull_message_of])
    (auto simp: bullmqSink_def bull_message_of_def bull_ident_def fun_eq_iff map_sum_Inr_iff)

interpretation sqs: sink sqsSink sqs_ident
  by (rule sink_contract [where message = sqs_message_of])
    (auto simp: sqsSink_def sqs_message_of_def sqs_ident_def Let_def fun_eq_iff map_sum_Inr_iff split: sum.splits if_splits)

interpretation kafka: sink kafkaSink kafka_ident
  by (rule sink_contract [where message = kafka_message_of])
    (auto simp: kafkaSink_def kafka_message_of_def kafka_ident_def fun_eq_iff map_sum_Inr_iff split: sum.splits if_splits kafka_format.splits)

end
