(* ===== verification/Base64.thy ===== *)
theory Base64
  imports EventId
begin

text \<open>
  \<^verbatim>\<open>btoa\<close>, \<^verbatim>\<open>atob\<close> and \<^verbatim>\<open>TextEncoder\<close> as the webhook sink uses them, and its helpers \<^verbatim>\<open>base64Encode\<close> and
  \<^verbatim>\<open>base64Decode\<close> (\<^verbatim>\<open>src/sinks/webhook.ts\<close>). A byte string is a string of code units below 256.
\<close>

section \<open>The platform\<close>

definition b64_char :: "nat \<Rightarrow> char" where
  "b64_char d =
     (if d < 26 then char_of (65 + d) else if d < 52 then char_of (71 + d) else if d < 62 then char_of (d - 4)
      else if d = 62 then CHR ''+'' else CHR ''/'')"

definition b64_val :: "char \<Rightarrow> nat option" where
  "b64_val c =
     (let n = of_char c
      in if 65 \<le> n \<and> n \<le> 90 then Some (n - 65)
         else if 97 \<le> n \<and> n \<le> 122 then Some (n - 71)
         else if 48 \<le> n \<and> n \<le> 57 then Some (n + 4)
         else if c = CHR ''+'' then Some 62
         else if c = CHR ''/'' then Some 63
         else None)"

text \<open>Three bytes are four digits; one or two bytes at the end are padded.\<close>

fun btoa_bytes :: "nat list \<Rightarrow> string" where
  "btoa_bytes (a # b # c # bs) =
     [b64_char (a div 4), b64_char (a mod 4 * 16 + b div 16), b64_char (b mod 16 * 4 + c div 64), b64_char (c mod 64)] @ btoa_bytes bs"
| "btoa_bytes [a, b] = [b64_char (a div 4), b64_char (a mod 4 * 16 + b div 16), b64_char (b mod 16 * 4), CHR ''='']"
| "btoa_bytes [a] = [b64_char (a div 4), b64_char (a mod 4 * 16), CHR ''='', CHR ''='']"
| "btoa_bytes [] = []"

definition btoa :: "string \<Rightarrow> string" where
  "btoa binary = btoa_bytes (map of_char binary)"

fun atob_digits :: "nat list \<Rightarrow> nat list option" where
  "atob_digits (p # q # r # s # ds) =
     map_option (\<lambda>bs. (p * 4 + q div 16) # (q mod 16 * 16 + r div 4) # (r mod 4 * 64 + s) # bs) (atob_digits ds)"
| "atob_digits [p, q, r] = Some [p * 4 + q div 16, q mod 16 * 16 + r div 4]"
| "atob_digits [p, q] = Some [p * 4 + q div 16]"
| "atob_digits [p] = None"
| "atob_digits [] = Some []"

fun all_some :: "'a option list \<Rightarrow> 'a list option" where
  "all_some [] = Some []"
| "all_some (x # xs) = (case x of None \<Rightarrow> None | Some y \<Rightarrow> map_option ((#) y) (all_some xs))"

definition strip_pad :: "string \<Rightarrow> string" where
  \<comment> \<open>one or two equals signs at the end of a text whose length is a multiple of four\<close>
  "strip_pad s =
     (if length s mod 4 \<noteq> 0 \<or> s = [] \<or> last s \<noteq> CHR ''='' then s
      else if butlast s \<noteq> [] \<and> last (butlast s) = CHR ''='' then butlast (butlast s) else butlast s)"

definition ascii_space :: "char \<Rightarrow> bool" where
  "ascii_space c \<longleftrightarrow> c \<in> {CHR 0x09, CHR 0x0A, CHR 0x0C, CHR 0x0D, CHR '' ''}"

definition atob :: "string \<Rightarrow> thrown + string" where
  "atob text =
     (case Option.bind (all_some (map b64_val (strip_pad (filter (\<lambda>c. \<not> ascii_space c) text)))) atob_digits of
        None \<Rightarrow> Inl (plainError ''InvalidCharacterError'' ''The string to be decoded is not correctly encoded.'')
      | Some bs \<Rightarrow> Inr (map char_of bs))"

definition utf8 :: "string \<Rightarrow> u8 list" where
  \<comment> \<open>\<^verbatim>\<open>TextEncoder.encode\<close>\<close>
  "utf8 s = concat (map (\<lambda>c. let n = of_char c :: nat in
     if n < 128 then [word_of_nat n] else [word_of_nat (192 + n div 64), word_of_nat (128 + n mod 64)]) s)"

section \<open>\<^verbatim>\<open>base64Encode\<close> and \<^verbatim>\<open>base64Decode\<close>\<close>

definition CHUNK :: nat where
  "CHUNK = 32768"

function binary_of :: "u8 list \<Rightarrow> string" where
  \<comment> \<open>the loop that builds the binary string, \<^verbatim>\<open>0x8000\<close> bytes at a time\<close>
  "binary_of bytes =
     (if bytes = [] then [] else map (\<lambda>b. char_of (unat b)) (take CHUNK bytes) @ binary_of (drop CHUNK bytes))"
  by pat_completeness auto
termination
  by (relation "measure length") (auto simp: CHUNK_def)

declare binary_of.simps [simp del]

definition base64Encode :: "u8 list \<Rightarrow> string" where
  "base64Encode bytes = btoa (binary_of bytes)"

definition base64Decode :: "string \<Rightarrow> thrown + u8 list" where
  "base64Decode text = map_sum id (map (\<lambda>c. word_of_nat (of_char c))) (atob text)"

section \<open>Decoding undoes encoding\<close>

lemma binary_of_map: "binary_of bytes = map (\<lambda>b. char_of (unat b)) bytes"
proof (induction bytes rule: binary_of.induct)
  case (1 bytes)
  then show ?case by (subst binary_of.simps) (simp flip: map_append)
qed

lemma b64_val_char: "d < 64 \<Longrightarrow> b64_val (b64_char d) = Some d"
  by (auto simp: b64_char_def b64_val_def Let_def)

lemma b64_char_plain: "d < 64 \<Longrightarrow> b64_char d \<noteq> CHR ''='' \<and> \<not> ascii_space (b64_char d)"
proof -
  have "b64_val CHR ''='' = None" "ascii_space c \<Longrightarrow> b64_val c = None" for c
    by (auto simp: b64_val_def ascii_space_def)
  then show "d < 64 \<Longrightarrow> ?thesis" using b64_val_char [of d] by (metis option.distinct(1))
qed

text \<open>The digits of a byte string, and how many equals signs follow them.\<close>

fun b64_digits :: "nat list \<Rightarrow> nat list" where
  "b64_digits (a # b # c # bs) = [a div 4, a mod 4 * 16 + b div 16, b mod 16 * 4 + c div 64, c mod 64] @ b64_digits bs"
| "b64_digits [a, b] = [a div 4, a mod 4 * 16 + b div 16, b mod 16 * 4]"
| "b64_digits [a] = [a div 4, a mod 4 * 16]"
| "b64_digits [] = []"

definition pad_count :: "nat list \<Rightarrow> nat" where
  "pad_count bs = (if length bs mod 3 = 0 then 0 else 3 - length bs mod 3)"

lemma btoa_bytes_digits: "btoa_bytes bs = map b64_char (b64_digits bs) @ replicate (pad_count bs) CHR ''=''"
  by (induction bs rule: btoa_bytes.induct) (auto simp: pad_count_def numeral_2_eq_2)

lemma b64_digits_small: "\<forall>b \<in> set bs. b < 256 \<Longrightarrow> \<forall>d \<in> set (b64_digits bs). d < 64"
proof (induction bs rule: b64_digits.induct)
  case (1 a b c bs)
  then show ?case by (auto simp: less_mult_imp_div_less) 
qed (auto simp: less_mult_imp_div_less)

lemma atob_b64_digits: "\<forall>b \<in> set bs. b < 256 \<Longrightarrow> atob_digits (b64_digits bs) = Some bs"
proof (induction bs rule: b64_digits.induct)
  case (1 a b c bs)
  then show ?case by (auto simp: less_mult_imp_div_less)
qed (auto simp: less_mult_imp_div_less)

lemma b64_length: "(length (b64_digits bs) + pad_count bs) mod 4 = 0"
proof (induction bs rule: b64_digits.induct)
  case (1 a b c bs)
  have "pad_count (a # b # c # bs) = pad_count bs" by (simp add: pad_count_def)
  with 1 show ?case by (simp add: add.assoc)
qed (simp_all add: pad_count_def)

lemma strip_pad_digits:
  assumes "\<forall>c \<in> set s. c \<noteq> CHR ''=''" "k \<le> 2" "(length s + k) mod 4 = 0"
  shows "strip_pad (s @ replicate k CHR ''='') = s"
proof -
  have last: "s \<noteq> [] \<Longrightarrow> last s \<noteq> CHR ''=''" using assms(1) by auto
  from assms(2) consider "k = 0" | "k = 1" | "k = 2" by linarith
  then show ?thesis using assms(3) last
    by cases (auto simp: strip_pad_def numeral_2_eq_2 butlast_append)
qed

lemma all_some_digits: "\<forall>d \<in> set ds. d < 64 \<Longrightarrow> all_some (map b64_val (map b64_char ds)) = Some ds"
  by (induction ds) (auto simp: b64_val_char)

lemma atob_btoa: "atob (btoa s) = Inr s"
proof -
  let ?bs = "map of_char s :: nat list"
  have small: "\<forall>b \<in> set ?bs. b < 256" by auto
  note digits = b64_digits_small [OF small]
  have plain: "\<forall>c \<in> set (map b64_char (b64_digits ?bs)). c \<noteq> CHR ''='' \<and> \<not> ascii_space c" using digits b64_char_plain by auto
  then have "filter (\<lambda>c. \<not> ascii_space c) (btoa s) = btoa s"
    by (auto simp: btoa_def btoa_bytes_digits filter_id_conv ascii_space_def)
  moreover have "strip_pad (btoa s) = map b64_char (b64_digits ?bs)"
    unfolding btoa_def btoa_bytes_digits using plain b64_length [of ?bs] by (intro strip_pad_digits) (auto simp: pad_count_def)
  ultimately show ?thesis using all_some_digits [OF digits] atob_b64_digits [OF small] by (simp add: atob_def comp_def)
qed

lemma base64_roundtrip: "base64Decode (base64Encode bytes) = Inr bytes"
proof -
  have "word_of_nat (of_char (char_of (unat b) :: char)) = b" for b :: u8
    using unsigned_less [of b, where ?'a = nat] by simp
  then show ?thesis by (simp add: base64Decode_def base64Encode_def atob_btoa binary_of_map comp_def)
qed

lemma base64Encode_chars: "c \<in> set (base64Encode bytes) \<Longrightarrow> b64_val c \<noteq> None \<or> c = CHR ''=''"
proof -
  have "\<forall>b \<in> set (map of_char (binary_of bytes)). b < (256 :: nat)" by auto
  from b64_digits_small [OF this] show "c \<in> set (base64Encode bytes) \<Longrightarrow> ?thesis"
    by (auto simp: base64Encode_def btoa_def btoa_bytes_digits b64_val_char)
qed

end
