(* ===== verification/Http_Headers.thy ===== *)
theory Http_Headers
  imports Cursor
begin

text \<open>
  What the HTTP helper reads in headers and error bodies: \<^verbatim>\<open>src/http/rate-limit.ts\<close>, \<^verbatim>\<open>src/http/redact.ts\<close> and
  \<^verbatim>\<open>src/http/problem.ts\<close>. A \<^verbatim>\<open>Headers\<close> object is an association list with lower-case names. The regular
  expressions of the source are deterministic and are read from left to right; \<^verbatim>\<open>Date.parse\<close> is a parameter,
  as it is for the cursors. A decimal text is infinite as a number from the point on where rounding to a
  double gives infinity.
\<close>

section \<open>Strings and headers\<close>

definition lower_char :: "char \<Rightarrow> char" where
  "lower_char c =
     (let n = (of_char c :: int)
      in if 65 \<le> n \<and> n \<le> 90 \<or> 192 \<le> n \<and> n \<le> 222 \<and> n \<noteq> 215 then char_of (n + 32) else c)"

definition toLowerCase :: "string \<Rightarrow> string" where
  "toLowerCase s = map lower_char s"

definition js_trim :: "string \<Rightarrow> string" where
  "js_trim s = trim_end (dropWhile re_space s)"

type_synonym headers = "(string, string) jsmap"

definition hdr_get :: "headers \<Rightarrow> string \<Rightarrow> string option" where
  "hdr_get h name = map_of h name"

section \<open>\<^verbatim>\<open>src/http/rate-limit.ts\<close>\<close>

definition EPOCH_MS_THRESHOLD :: number where
  "EPOCH_MS_THRESHOLD = 1000000000000"

definition EPOCH_SECONDS_THRESHOLD :: number where
  "EPOCH_SECONDS_THRESHOLD = 1000000000"

definition ONE_DAY_SECONDS :: number where
  "ONE_DAY_SECONDS = 86400"

definition is_finite :: "number \<Rightarrow> bool" where
  \<comment> \<open>\<^verbatim>\<open>Number.isFinite\<close> of the double nearest to a non-negative decimal\<close>
  "is_finite x \<longleftrightarrow> x < 2 ^ 1024 - 2 ^ 970"

text \<open>The digits and the optional fraction that a text starts with, and the rest.\<close>

definition decimal_prefix :: "string \<Rightarrow> (string \<times> string \<times> string) option" where
  "decimal_prefix s =
     (let ip = takeWhile is_digit s; r = dropWhile is_digit s
      in if ip = [] then None
         else case r of
                [] \<Rightarrow> Some (ip, [], r)
              | c # r' \<Rightarrow>
                  if c = CHR ''.'' \<and> takeWhile is_digit r' \<noteq> []
                  then Some (ip, takeWhile is_digit r', dropWhile is_digit r')
                  else Some (ip, [], r))"

definition leadingNumber :: "string option \<Rightarrow> number option" where
  "leadingNumber value =
     (case value of
        None \<Rightarrow> None
      | Some v \<Rightarrow>
          (case decimal_prefix (dropWhile re_space v) of
             None \<Rightarrow> None
           | Some (ip, fp, _) \<Rightarrow> if is_finite (decimal_val ip fp) then Some (decimal_val ip fp) else None))"

definition parseRetryAfter :: "date_parse \<Rightarrow> string option \<Rightarrow> number \<Rightarrow> number option" where
  "parseRetryAfter dp value now =
     (case value of
        None \<Rightarrow> None
      | Some v \<Rightarrow>
          let trimmed = js_trim v;
              (neg, body) = (case trimmed of
                               [] \<Rightarrow> (False, [])
                             | c # cs \<Rightarrow> if c = CHR ''-'' then (True, cs) else if c = CHR ''+'' then (False, cs) else (False, trimmed));
              by_date = (case dp trimmed of
                           Dec s m e \<Rightarrow> Some (max 0 (num_val (Dec s m e) - now))
                         | _ \<Rightarrow> None)
          in if trimmed = [] then None
             else case decimal_prefix body of
                    Some (ip, fp, []) \<Rightarrow>
                      if \<not> is_finite (decimal_val ip fp) \<or> neg \<and> 0 < decimal_val ip fp then None
                      else Some (js_round (decimal_val ip fp * 1000))
                  | _ \<Rightarrow> by_date)"

fun split_quoted_loop :: "char \<Rightarrow> string \<Rightarrow> string \<Rightarrow> bool \<Rightarrow> string list" where
  "split_quoted_loop sep [] current quoted = [current]"
| "split_quoted_loop sep (ch # rest) current quoted =
     (if quoted \<and> ch = CHR 0x5C \<and> rest \<noteq> [] then
        split_quoted_loop sep (tl rest) (current @ [ch, hd rest]) quoted
      else
        let quoted' = (if ch = CHR 0x22 then \<not> quoted else quoted)
        in if ch = sep \<and> \<not> quoted' then current # split_quoted_loop sep rest [] quoted'
           else split_quoted_loop sep rest (current @ [ch]) quoted')"

definition splitQuoted :: "string \<Rightarrow> char \<Rightarrow> string list" where
  "splitQuoted value sep = filter (\<lambda>p. p \<noteq> []) (map js_trim (split_quoted_loop sep value [] False))"

text \<open>\<^verbatim>\<open>replace(/\\(.)/g, '$1')\<close>: the dot does not match a line end.\<close>

fun unescape :: "string \<Rightarrow> string" where
  "unescape [] = []"
| "unescape [c] = [c]"
| "unescape (c # d # cs) =
     (if c = CHR 0x5C \<and> d \<noteq> CHR 0x0A \<and> d \<noteq> CHR 0x0D then d # unescape cs else c # unescape (d # cs))"

definition unquote :: "string \<Rightarrow> string" where
  "unquote v =
     (if 2 \<le> length v \<and> hd v = CHR 0x22 \<and> last v = CHR 0x22 then unescape (butlast (tl v)) else v)"

record structured_member =
  sm_name :: "string option"
  sm_params :: "(string, string) jsmap"

definition add_segment :: "structured_member \<Rightarrow> string \<Rightarrow> structured_member" where
  \<comment> \<open>one turn of the loop of \<^verbatim>\<open>parseMember\<close>\<close>
  "add_segment m segment =
     (if CHR ''='' \<notin> set segment then
        (if sm_name m = None then m\<lparr>sm_name := Some (unquote segment)\<rparr> else m)
      else
        let before = takeWhile (\<lambda>c. c \<noteq> CHR ''='') segment;
            after = tl (dropWhile (\<lambda>c. c \<noteq> CHR ''='') segment);
            key = toLowerCase (js_trim before)
        in if key = [] \<or> map_of (sm_params m) key \<noteq> None then m
           else m\<lparr>sm_params := AList.update key (unquote (js_trim after)) (sm_params m)\<rparr>)"

definition parseMember :: "string \<Rightarrow> structured_member" where
  "parseMember s = foldl add_segment \<lparr>sm_name = None, sm_params = []\<rparr> (splitQuoted s CHR '';'')"

fun first_wins :: "(string \<times> string) list \<Rightarrow> (string, string) jsmap \<Rightarrow> (string, string) jsmap" where
  \<comment> \<open>\<^verbatim>\<open>if (!params.has(key)) params.set(key, val)\<close> over the entries\<close>
  "first_wins [] m = m"
| "first_wins ((k, v) # es) m = first_wins es (if map_of m k = None then AList.update k v m else m)"

definition either :: "(string, string) jsmap \<Rightarrow> string \<Rightarrow> string \<Rightarrow> string option" where
  \<comment> \<open>\<^verbatim>\<open>params.get(a) ?? params.get(b)\<close>\<close>
  "either m a b = (case map_of m a of None \<Rightarrow> map_of m b | Some v \<Rightarrow> Some v)"

definition after_now :: "number \<Rightarrow> number \<Rightarrow> number" where
  "after_now now seconds = now + js_round (seconds * 1000)"

definition mk_info :: "rl_source \<Rightarrow> number option \<Rightarrow> number option \<Rightarrow> number option \<Rightarrow> string option \<Rightarrow> rate_limit_info option" where
  \<comment> \<open>the common end of the three parsers\<close>
  "mk_info source limit remaining resetAt policy =
     (if limit = None \<and> remaining = None \<and> resetAt = None then None
      else Some \<lparr>rl_limit = limit, rl_remaining = remaining, rl_resetAt = resetAt, rl_policy = policy, rl_source = source\<rparr>)"

definition merge_members :: "structured_member list \<Rightarrow> structured_member" where
  \<comment> \<open>the loop over the members of the \<^verbatim>\<open>RateLimit\<close> header\<close>
  "merge_members ms =
     foldl (\<lambda>acc m. \<lparr>sm_name = (if sm_name acc = None then sm_name m else sm_name acc),
                      sm_params = first_wins (sm_params m) (sm_params acc)\<rparr>)
       \<lparr>sm_name = None, sm_params = []\<rparr> ms"

definition choose_member :: "string option \<Rightarrow> structured_member list \<Rightarrow> structured_member option" where
  "choose_member name members =
     (case (if name = None then None else find (\<lambda>m. sm_name m = name) members) of
        Some m \<Rightarrow> Some m
      | None \<Rightarrow> nth_opt members 0)"

definition parseIetf :: "headers \<Rightarrow> number \<Rightarrow> rate_limit_info option" where
  "parseIetf h now =
     (let limitHeader = hdr_get h ''ratelimit'';
          policyHeader = hdr_get h ''ratelimit-policy''
      in if limitHeader = None \<and> policyHeader = None then None
         else
           let (name, remaining, resetAt, limit) =
                 (case limitHeader of
                    None \<Rightarrow> (None, None, None, None)
                  | Some lh \<Rightarrow>
                      let m = merge_members (map parseMember (splitQuoted lh CHR '',''))
                      in (sm_name m, leadingNumber (either (sm_params m) ''r'' ''remaining''),
                          map_option (after_now now) (leadingNumber (either (sm_params m) ''t'' ''reset'')),
                          leadingNumber (either (sm_params m) ''limit'' ''q'')));
               limit' =
                 (case policyHeader of
                    None \<Rightarrow> limit
                  | Some ph \<Rightarrow>
                      let chosen = choose_member name (map parseMember (splitQuoted ph CHR '',''));
                          quota = leadingNumber (Option.bind chosen (\<lambda>m. either (sm_params m) ''q'' ''limit''))
                      in (case quota of None \<Rightarrow> limit | Some q \<Rightarrow> Some q))
           in mk_info Ietf limit' remaining resetAt policyHeader)"

definition parseReset :: "string option \<Rightarrow> number \<Rightarrow> number option" where
  "parseReset value now =
     (case leadingNumber value of
        None \<Rightarrow> None
      | Some n \<Rightarrow>
          if EPOCH_MS_THRESHOLD \<le> n then Some (js_round n)
          else if EPOCH_SECONDS_THRESHOLD \<le> n then
            (if now / 1000 - ONE_DAY_SECONDS < n then Some (js_round (n * 1000)) else None)
          else Some (after_now now n))"

definition parseLegacy :: "headers \<Rightarrow> number \<Rightarrow> rate_limit_info option" where
  "parseLegacy h now =
     mk_info Legacy (leadingNumber (hdr_get h ''ratelimit-limit'')) (leadingNumber (hdr_get h ''ratelimit-remaining''))
       (parseReset (hdr_get h ''ratelimit-reset'') now) None"

fun firstHeader :: "headers \<Rightarrow> string list \<Rightarrow> string option" where
  "firstHeader h [] = None"
| "firstHeader h (name # names) = (case hdr_get h name of None \<Rightarrow> firstHeader h names | Some v \<Rightarrow> Some v)"

definition parseVendor :: "headers \<Rightarrow> number \<Rightarrow> rate_limit_info option" where
  "parseVendor h now =
     (let limit = leadingNumber (firstHeader h [''x-ratelimit-limit'', ''x-rate-limit-limit'']);
          remaining = leadingNumber (firstHeader h [''x-ratelimit-remaining'', ''x-rate-limit-remaining'']);
          resetAfter = leadingNumber (firstHeader h [''x-ratelimit-reset-after'', ''x-rate-limit-reset-after'']);
          resetAt = (case resetAfter of
                       Some s \<Rightarrow> Some (after_now now s)
                     | None \<Rightarrow> parseReset (firstHeader h [''x-ratelimit-reset'', ''x-rate-limit-reset'']) now)
      in mk_info Vendor limit remaining resetAt None)"

text \<open>Nothing that the three parsers do can throw, so the \<^verbatim>\<open>catch\<close> of the source is never entered.\<close>

definition parseRateLimitHeaders :: "headers \<Rightarrow> number \<Rightarrow> rate_limit_info option" where
  "parseRateLimitHeaders h now =
     (case parseIetf h now of
        Some i \<Rightarrow> Some i
      | None \<Rightarrow> (case parseLegacy h now of Some i \<Rightarrow> Some i | None \<Rightarrow> parseVendor h now))"

section \<open>\<^verbatim>\<open>src/http/redact.ts\<close>\<close>

definition DEFAULT_REDACTED_HEADERS :: "string list" where
  "DEFAULT_REDACTED_HEADERS = [''authorization'', ''cookie'', ''set-cookie'', ''x-api-key'', ''proxy-authorization'']"

definition REDACTED_VALUE :: string where
  "REDACTED_VALUE = ''***''"

definition blocked_names :: "string list option \<Rightarrow> string list" where
  "blocked_names extra = DEFAULT_REDACTED_HEADERS @ map (\<lambda>n. toLowerCase (js_trim n)) (opt_or extra [])"

definition redactHeaders :: "(string \<times> string) list \<Rightarrow> string list option \<Rightarrow> (string, string) jsmap" where
  "redactHeaders entries extra =
     set_all fst (\<lambda>(name, value). if toLowerCase name \<in> set (blocked_names extra) then REDACTED_VALUE else value) entries []"

section \<open>\<^verbatim>\<open>src/http/problem.ts\<close>\<close>

definition PROBLEM_MEDIA_TYPE :: string where
  "PROBLEM_MEDIA_TYPE = ''application/problem+json''"

definition PROBLEM_KEYS :: "string list" where
  "PROBLEM_KEYS = [''type'', ''title'', ''status'', ''detail'']"

definition media_type :: "string option \<Rightarrow> string" where
  "media_type contentType = toLowerCase (js_trim (hd (split_on CHR '';'' (opt_or contentType []))))"

text \<open>What one member of the parsed object adds to the result. Assigning \<^verbatim>\<open>__proto__\<close> makes no member.\<close>

definition problem_member :: "string \<times> json \<Rightarrow> (string \<times> json) option" where
  "problem_member m =
     (case m of (key, value) \<Rightarrow>
        if key \<in> {''type'', ''title'', ''detail'', ''instance''} then
          (case value of JStr s \<Rightarrow> Some (key, value) | _ \<Rightarrow> None)
        else if key = ''status'' then
          (case value of
             JNum x \<Rightarrow> if finite_num x then Some (key, value) else None
           | JStr s \<Rightarrow> if length s = 3 \<and> list_all is_digit s then Some (key, JNum (mk_num False (str_nat s) 0)) else None
           | _ \<Rightarrow> None)
        else if key = ''__proto__'' then None
        else Some (key, value))"

definition parseProblemDetails :: "string option \<Rightarrow> string option \<Rightarrow> (string \<times> json) list option" where
  "parseProblemDetails contentType bodyText =
     (case bodyText of
        None \<Rightarrow> None
      | Some body \<Rightarrow>
          if js_trim body = [] then None
          else
            let mediaType = media_type contentType;
                isProblem = (mediaType = PROBLEM_MEDIA_TYPE);
                isJson = (isProblem \<or> mediaType = ''application/json'' \<or> suffix ''+json'' mediaType)
            in if \<not> isJson then None
               else case json_parse body of
                      Some (JObj ms) \<Rightarrow>
                        if \<not> isProblem \<and> \<not> list_ex (\<lambda>k. k \<in> fst ` set ms) PROBLEM_KEYS then None
                        else Some (List.map_filter problem_member ms)
                    | _ \<Rightarrow> None)"

section \<open>Properties\<close>

text \<open>A \<^verbatim>\<open>Retry-After\<close> is never negative, whatever the header says and wherever the clock stands.\<close>

lemma parseRetryAfter_nonneg: "parseRetryAfter dp value now = Some d \<Longrightarrow> 0 \<le> d"
  unfolding parseRetryAfter_def Let_def
  by (auto simp: decimal_val_def intro!: js_round_nonneg split: option.splits if_splits list.splits prod.splits jsnum.splits)

lemma set_all_only: "(k, v) \<in> set (set_all key val xs m) \<Longrightarrow> (k, v) \<in> set m \<or> (\<exists>x \<in> set xs. key x = k \<and> val x = v)"
proof (induction xs arbitrary: m)
  case (Cons x xs)
  then show ?case using set_update_subset [of "key x" "val x" m] by (fastforce simp: subset_iff)
qed simp

text \<open>A blocked name is masked in whatever case it is written, and every other header is passed on as it is.\<close>

lemma redacted: "(name, v) \<in> set (redactHeaders es extra) \<Longrightarrow> toLowerCase name \<in> set (blocked_names extra) \<Longrightarrow> v = REDACTED_VALUE"
  unfolding redactHeaders_def by (auto dest!: set_all_only)

lemma redact_keeps: "distinct (map fst es) \<Longrightarrow> (name, v) \<in> set es \<Longrightarrow> toLowerCase name \<notin> set (blocked_names extra)
    \<Longrightarrow> map_of (redactHeaders es extra) name = Some v"
  unfolding redactHeaders_def
  by (drule (1) map_of_set_all_in [where key = fst, of _ "(name, v)"
      "\<lambda>(name, value). if toLowerCase name \<in> set (blocked_names extra) then REDACTED_VALUE else value" "[]"]) simp

section \<open>What the rate-limit parser reads back\<close>

text \<open>The header texts that the structured-field syntax prescribes: a quoted policy name, in which quotes and
  backslashes are escaped, and two parameters.\<close>

definition escaped :: "string \<Rightarrow> string" where
  "escaped n = concat (map (\<lambda>c. if c = CHR 0x22 \<or> c = CHR 0x5C then [CHR 0x5C, c] else [c]) n)"

definition quoted_name :: "string \<Rightarrow> string" where
  "quoted_name n = CHR 0x22 # escaped n @ [CHR 0x22]"

definition item_text :: "char \<Rightarrow> char \<Rightarrow> string \<times> nat \<times> nat \<Rightarrow> string" where
  "item_text a b i = (case i of (n, x, y) \<Rightarrow> quoted_name n @ CHR '';'' # a # CHR ''='' # nat_str x @ CHR '';'' # b # CHR ''='' # nat_str y)"

lemma loop_escaped:
  "split_quoted_loop sep (escaped n @ rest) cur True = split_quoted_loop sep rest (cur @ escaped n) True"
  by (induction n arbitrary: cur) (auto simp: escaped_def)

lemma loop_name:
  "sep \<noteq> CHR 0x22 \<Longrightarrow> split_quoted_loop sep (quoted_name n @ rest) cur False = split_quoted_loop sep rest (cur @ quoted_name n) False"
  by (simp add: quoted_name_def loop_escaped Let_def)

lemma loop_plain:
  "sep \<notin> set s \<Longrightarrow> CHR 0x22 \<notin> set s \<Longrightarrow> split_quoted_loop sep (s @ rest) cur False = split_quoted_loop sep rest (cur @ s) False"
  by (induction s arbitrary: cur) (auto simp: Let_def)

lemma unescape_escaped: "unescape (escaped n) = n"
proof (induction n)
  case Nil
  then show ?case by (simp add: escaped_def)
next
  case (Cons c n)
  have *: "unescape (c # s) = c # unescape s" if "c \<noteq> CHR 0x5C" for s
    using that by (cases s) auto
  show ?case using Cons by (auto simp: escaped_def *)
qed

lemma unquote_name: "unquote (quoted_name n) = n"
  by (simp add: unquote_def quoted_name_def unescape_escaped)

lemma trim_end_id: "s \<noteq> [] \<Longrightarrow> \<not> re_space (last s) \<Longrightarrow> trim_end s = s"
  by (cases s rule: rev_cases) (auto simp: trim_end_def)

lemma js_trim_id: "s \<noteq> [] \<Longrightarrow> \<not> re_space (hd s) \<Longrightarrow> \<not> re_space (last s) \<Longrightarrow> js_trim s = s"
  by (cases s) (auto simp: js_trim_def trim_end_id)

lemma js_trim_blank: "js_trim (CHR '' '' # s) = js_trim s"
  by (simp add: js_trim_def re_space_def)

lemma not_space: "\<not> re_space (CHR 0x22)" "is_digit c \<Longrightarrow> \<not> re_space c"
  by (auto simp: re_space_def is_digit_def)

lemma nat_str_chars: "c \<in> set (nat_str x) \<Longrightarrow> is_digit c"
  using nat_str_digits [of x] by (auto simp: list_all_iff)

lemma nat_str_last: "\<not> re_space (last (nat_str x))"
  using last_in_set [OF nat_str_nonempty, of x] by (intro not_space(2) nat_str_chars)

text \<open>The characters that the syntax uses are none of the digits.\<close>

lemma nat_str_free: "c \<in> {CHR '';'', CHR '','', CHR 0x22, CHR ''=''} \<Longrightarrow> c \<notin> set (nat_str x)"
  by (auto dest!: nat_str_chars simp: is_digit_def)

lemma param_trim: "js_trim (k # CHR ''='' # nat_str x) = k # CHR ''='' # nat_str x" if "\<not> re_space k"
  using that nat_str_nonempty [of x] nat_str_last [of x] by (intro js_trim_id) auto

lemma name_trim: "js_trim (quoted_name n) = quoted_name n"
  by (rule js_trim_id) (simp_all add: quoted_name_def not_space)

lemma item_segments:
  assumes "a \<in> {CHR ''r'', CHR ''t'', CHR ''q'', CHR ''w''}" "b \<in> {CHR ''r'', CHR ''t'', CHR ''q'', CHR ''w''}"
  shows "splitQuoted (item_text a b (n, x, y)) CHR '';''
     = [quoted_name n, a # CHR ''='' # nat_str x, b # CHR ''='' # nat_str y]"
proof -
  have plain: "split_quoted_loop CHR '';'' (k # CHR ''='' # nat_str z @ rest) cur False
      = split_quoted_loop CHR '';'' rest (cur @ k # CHR ''='' # nat_str z) False"
    if "k \<in> {CHR ''r'', CHR ''t'', CHR ''q'', CHR ''w''}" for k z rest cur
    using that loop_plain [of "CHR '';''" "k # CHR ''='' # nat_str z" rest cur] by (auto simp: nat_str_free)
  have "split_quoted_loop CHR '';'' (item_text a b (n, x, y)) [] False
      = [quoted_name n, a # CHR ''='' # nat_str x, b # CHR ''='' # nat_str y]"
    using plain [OF assms(1), of x "CHR '';'' # b # CHR ''='' # nat_str y" "[]"] plain [OF assms(2), of y "[]" "[]"]
    by (simp add: item_text_def loop_name)
  then show ?thesis using assms by (auto simp: splitQuoted_def name_trim param_trim re_space_def) (simp_all add: quoted_name_def)
qed

lemma lower_params: "toLowerCase (js_trim [c]) = [c]" if "c \<in> {CHR ''r'', CHR ''t'', CHR ''q'', CHR ''w''}"
  using that by (auto simp: toLowerCase_def js_trim_def trim_end_def re_space_def lower_char_def)

lemma digits_unquoted: "unquote (nat_str x) = nat_str x" "js_trim (nat_str x) = nat_str x"
proof -
  have "hd (nat_str x) \<noteq> CHR 0x22" using nat_str_free [of "CHR 0x22" x] nat_str_nonempty [of x] by (metis hd_in_set insertCI)
  then show "unquote (nat_str x) = nat_str x" by (simp add: unquote_def)
  have "is_digit (hd (nat_str x))" by (rule nat_str_chars [OF hd_in_set]) simp
  then show "js_trim (nat_str x) = nat_str x"
    by (intro js_trim_id nat_str_nonempty nat_str_last not_space)
qed

lemma parse_item:
  assumes "CHR ''='' \<notin> set n" "a \<in> {CHR ''r'', CHR ''t'', CHR ''q'', CHR ''w''}" "b \<in> {CHR ''r'', CHR ''t'', CHR ''q'', CHR ''w''}" "a \<noteq> b"
  shows "parseMember (item_text a b (n, x, y)) = \<lparr>sm_name = Some n, sm_params = [([a], nat_str x), ([b], nat_str y)]\<rparr>"
proof -
  have "CHR ''='' \<notin> set (quoted_name n)" using assms(1) by (auto simp: quoted_name_def escaped_def)
  moreover have "a \<noteq> CHR ''=''" "b \<noteq> CHR ''=''" using assms by auto
  ultimately show ?thesis
    using assms(4) by (simp add: parseMember_def item_segments [OF assms(2,3)] add_segment_def unquote_name Let_def
        lower_params [OF assms(2)] lower_params [OF assms(3)] digits_unquoted)
qed

lemma loop_item:
  assumes "a \<in> {CHR ''r'', CHR ''t'', CHR ''q'', CHR ''w''}" "b \<in> {CHR ''r'', CHR ''t'', CHR ''q'', CHR ''w''}"
  shows "split_quoted_loop CHR '','' (item_text a b i @ rest) cur False = split_quoted_loop CHR '','' rest (cur @ item_text a b i) False"
proof (cases i)
  case (fields n x y)
  let ?t = "CHR '';'' # a # CHR ''='' # nat_str x @ CHR '';'' # b # CHR ''='' # nat_str y"
  have "split_quoted_loop CHR '','' (?t @ rest) cur' False = split_quoted_loop CHR '','' rest (cur' @ ?t) False" for cur'
    using assms by (intro loop_plain) (auto simp: nat_str_free)
  moreover have "item_text a b i = quoted_name n @ ?t" by (simp add: fields item_text_def)
  ultimately show ?thesis by (simp only: append_assoc) (subst loop_name, simp, simp only: append_assoc)
qed

lemma item_trim: "js_trim (item_text a b i) = item_text a b i"
proof (cases i)
  case (fields n x y)
  then show ?thesis
    by (intro js_trim_id) (simp_all add: item_text_def quoted_name_def not_space nat_str_last nat_str_nonempty)
qed

lemma item_nonempty: "item_text a b i \<noteq> []"
  by (cases i) (simp add: item_text_def quoted_name_def)

lemma loop_items:
  assumes "a \<in> {CHR ''r'', CHR ''t'', CHR ''q'', CHR ''w''}" "b \<in> {CHR ''r'', CHR ''t'', CHR ''q'', CHR ''w''}"
    and "\<And>s. js_trim (cur @ s) = js_trim s"
  shows "map js_trim (split_quoted_loop CHR '','' (sep_join '', '' (map (item_text a b) (i # is))) cur False) = map (item_text a b) (i # is)"
  using assms(3)
proof (induction "is" arbitrary: i cur)
  case Nil
  then show ?case using loop_item [OF assms(1,2), of i "[]" cur] by (simp add: item_trim)
next
  case (Cons j js)
  have "map js_trim (split_quoted_loop CHR '','' (sep_join '', '' (map (item_text a b) (j # js))) [CHR '' ''] False)
      = map (item_text a b) (j # js)"
    by (rule Cons.IH) (simp add: js_trim_blank)
  then show ?case
    using loop_item [OF assms(1,2), of i "'', '' @ sep_join '', '' (map (item_text a b) (j # js))" cur] Cons.prems
    by (simp add: item_trim)
qed

lemma split_items:
  assumes "a \<in> {CHR ''r'', CHR ''t'', CHR ''q'', CHR ''w''}" "b \<in> {CHR ''r'', CHR ''t'', CHR ''q'', CHR ''w''}"
  shows "splitQuoted (sep_join '', '' (map (item_text a b) (i # is))) CHR '','' = map (item_text a b) (i # is)"
proof -
  have "filter (\<lambda>p. p \<noteq> []) (map (item_text a b) xs) = map (item_text a b) xs" for xs
    by (induction xs) (simp_all add: item_nonempty)
  then show ?thesis using loop_items [OF assms, of "[]" i "is"] by (simp add: splitQuoted_def item_nonempty)
qed

lemma split_item:
  "a \<in> {CHR ''r'', CHR ''t'', CHR ''q'', CHR ''w''} \<Longrightarrow> b \<in> {CHR ''r'', CHR ''t'', CHR ''q'', CHR ''w''}
    \<Longrightarrow> splitQuoted (item_text a b i) CHR '','' = [item_text a b i]"
  using split_items [of a b i "[]"] by simp

lemma leadingNumber_nat: "is_finite (of_nat x) \<Longrightarrow> leadingNumber (Some (nat_str x)) = Some (of_nat x)"
proof -
  have digits: "takeWhile is_digit (nat_str x) = nat_str x" "dropWhile is_digit (nat_str x) = []"
    using nat_str_chars by (simp_all add: takeWhile_eq_all_conv)
  have "is_digit (hd (nat_str x))" by (rule nat_str_chars [OF hd_in_set]) simp
  then have "dropWhile re_space (nat_str x) = nat_str x" by (cases "nat_str x") (auto dest: not_space(2))
  then show "is_finite (of_nat x) \<Longrightarrow> ?thesis"
    by (simp add: leadingNumber_def decimal_prefix_def digits decimal_val_def str_nat_nat_str str_nat_def [of "[]"])
qed

text \<open>The quota that applies to a policy name: that of the policy with the name, else that of the first one.\<close>

definition quota_for :: "string \<Rightarrow> (string \<times> nat \<times> nat) list \<Rightarrow> nat" where
  "quota_for n ps = (case find (\<lambda>p. fst p = n) ps of Some p \<Rightarrow> fst (snd p) | None \<Rightarrow> fst (snd (hd ps)))"

lemma choose_quota:
  assumes "ps \<noteq> []" "\<forall>p \<in> set ps. CHR ''='' \<notin> set (fst p)"
  shows "Option.bind (choose_member (Some n) (map (parseMember \<circ> item_text CHR ''q'' CHR ''w'') ps)) (\<lambda>m. either (sm_params m) ''q'' ''limit'')
     = Some (nat_str (quota_for n ps))"
proof -
  have item: "parseMember (item_text CHR ''q'' CHR ''w'' p)
      = \<lparr>sm_name = Some (fst p), sm_params = [(''q'', nat_str (fst (snd p))), (''w'', nat_str (snd (snd p)))]\<rparr>" if "p \<in> set ps" for p
    using assms(2) that by (cases p) (auto simp: parse_item)
  have "find (\<lambda>m. sm_name m = Some n) (map (parseMember \<circ> item_text CHR ''q'' CHR ''w'') qs)
      = map_option (parseMember \<circ> item_text CHR ''q'' CHR ''w'') (find (\<lambda>p. fst p = n) qs)" if "set qs \<subseteq> set ps" for qs
    using that by (induction qs) (auto simp: item)
  from this [of ps] have f: "find (\<lambda>m. sm_name m = Some n) (map (parseMember \<circ> item_text CHR ''q'' CHR ''w'') ps)
      = map_option (parseMember \<circ> item_text CHR ''q'' CHR ''w'') (find (\<lambda>p. fst p = n) ps)" by simp
  show ?thesis
  proof (cases "find (\<lambda>p. fst p = n) ps")
    case None
    with assms(1) f show ?thesis by (cases ps) (auto simp: choose_member_def quota_for_def item either_def)
  next
    case (Some p)
    then have "p \<in> set ps" by (metis find_Some_iff nth_mem)
    with Some f show ?thesis by (simp add: choose_member_def quota_for_def item either_def)
  qed
qed

lemma map_sep_join_nonempty: "ps \<noteq> [] \<Longrightarrow> splitQuoted (sep_join '', '' (map (item_text CHR ''q'' CHR ''w'') ps)) CHR '',''
    = map (item_text CHR ''q'' CHR ''w'') ps"
  by (cases ps) (simp_all add: split_items del: list.map)


definition sample_policies :: "(string \<times> nat \<times> nat) list" where
  "sample_policies = [(''burst'', 10, 1), (''per;day'', 1000, 86400)]"

definition sample_rate_headers :: headers where
  "sample_rate_headers =
     [(''ratelimit'', item_text CHR ''r'' CHR ''t'' (''per;day'', 50, 30)),
      (''ratelimit-policy'', sep_join '', '' (map (item_text CHR ''q'' CHR ''w'') sample_policies))]"


text \<open>An equals sign inside a quoted policy name is taken for the one of a parameter: the name is lost, and the quota
  of the first policy is reported in place of that of the policy in force.\<close>

lemma quoted_equals_loses_policy:
  "map_option rl_limit (parseRateLimitHeaders
     [(''ratelimit'', item_text CHR ''r'' CHR ''t'' (''tier=b'', 50, 30)),
      (''ratelimit-policy'', sep_join '', '' (map (item_text CHR ''q'' CHR ''w'') [(''tier=a'', 10, 1), (''tier=b'', 90, 60)]))] 0)
   = Some (Some 10)"
proof -
  let ?l = "item_text CHR ''r'' CHR ''t'' (''tier=b'', 50, 30)"
  let ?p = "sep_join '', '' (map (item_text CHR ''q'' CHR ''w'') [(''tier=a'', 10, 1), (''tier=b'', 90, 60)])"
  have "merge_members (map parseMember (splitQuoted ?l CHR '',''))
      = \<lparr>sm_name = None, sm_params = [([CHR 0x22] @ ''tier'', ''b'' @ [CHR 0x22]), (''r'', ''50''), (''t'', ''30'')]\<rparr>" by code_simp
  moreover have "nth_opt (map parseMember (splitQuoted ?p CHR '','')) 0
      = Some \<lparr>sm_name = None, sm_params = [([CHR 0x22] @ ''tier'', ''a'' @ [CHR 0x22]), (''q'', ''10''), (''w'', ''1'')]\<rparr>" by code_simp
  moreover have "leadingNumber (Some (nat_str 10)) = Some 10" by (subst leadingNumber_nat) (simp_all add: is_finite_def)
  moreover have "nat_str 10 = ''10''" by code_simp
  ultimately show ?thesis
    by (simp add: parseRateLimitHeaders_def parseIetf_def hdr_get_def Let_def choose_member_def either_def mk_info_def del: list.map)
qed

end
