(* ===== verification/Abort_Signal.thy ===== *)
theory Abort_Signal
  imports Errors
begin

text \<open>
  \<^verbatim>\<open>src/http/signal.ts\<close>: one abort signal out of several and a timeout. Signals are numbered objects of a store
  that holds their abort reasons, the links along which an abort travels (a dependent signal of
  \<^verbatim>\<open>AbortSignal.any\<close>, or a listener that aborts a controller) and the timers of the clock. Links are in the
  order of their creation, so one pass over them carries an abort to every signal that depends on it.
\<close>

datatype link_kind = Dependent | Listener

record timer =
  tm_handle :: nat
  tm_signal :: nat
  tm_timeoutMs :: jsnum

record sig_world =
  sg_reason :: "nat \<Rightarrow> thrown option"
  sg_links :: "(link_kind \<times> nat \<times> nat) list" \<comment> \<open>from the second to the third\<close>
  sg_timers :: "timer list"
  sg_next :: nat

section \<open>The platform\<close>

fun propagate :: "(link_kind \<times> nat \<times> nat) list \<Rightarrow> (nat \<Rightarrow> thrown option) \<Rightarrow> nat \<Rightarrow> thrown option" where
  "propagate [] m = m"
| "propagate ((k, s, t) # ls) m = propagate ls (if m s \<noteq> None \<and> m t = None then m(t := m s) else m)"

definition abort_signal :: "nat \<Rightarrow> thrown \<Rightarrow> sig_world \<Rightarrow> sig_world" where
  "abort_signal i r w =
     (if sg_reason w i \<noteq> None then w
      else w\<lparr>sg_reason := propagate (sg_links w) ((sg_reason w)(i := Some r))\<rparr>)"

text \<open>\<^verbatim>\<open>AbortSignal.any\<close>: already aborted with the reason of the first aborted source, otherwise dependent on all of
  them.\<close>

fun first_reason :: "(nat \<Rightarrow> thrown option) \<Rightarrow> nat list \<Rightarrow> thrown option" where
  "first_reason m [] = None"
| "first_reason m (s # ss) = (case m s of None \<Rightarrow> first_reason m ss | Some r \<Rightarrow> Some r)"

definition signal_any :: "nat list \<Rightarrow> sig_world \<Rightarrow> nat \<times> sig_world" where
  "signal_any sources w =
     (let c = sg_next w; r = first_reason (sg_reason w) sources
      in (c, w\<lparr>sg_next := Suc c, sg_reason := (sg_reason w)(c := r),
               sg_links := sg_links w @ (if r = None then map (\<lambda>s. (Dependent, s, c)) sources else [])\<rparr>))"

section \<open>\<^verbatim>\<open>src/http/signal.ts\<close>\<close>

record composed_signal =
  cs_signal :: nat
  cs_timer :: "nat option"
  cs_cleanups :: "nat list" \<comment> \<open>the sources that got a listener\<close>
  cs_disposed :: bool

definition createTimeoutError :: "jsnum \<Rightarrow> thrown" where
  "createTimeoutError timeoutMs = plainError ''TimeoutError'' (''watukuy: request timed out after '' @ num_str timeoutMs @ ''ms'')"

fun add_listeners :: "nat list \<Rightarrow> nat \<Rightarrow> sig_world \<Rightarrow> nat list \<times> sig_world" where
  \<comment> \<open>the loop over the sources: it stops at one that is aborted\<close>
  "add_listeners [] c w = ([], w)"
| "add_listeners (s # ss) c w =
     (case sg_reason w s of
        Some r \<Rightarrow> ([], abort_signal c r w)
      | None \<Rightarrow>
          let (cleanups, w') = add_listeners ss c (w\<lparr>sg_links := sg_links w @ [(Listener, s, c)]\<rparr>)
          in (s # cleanups, w'))"

definition manual_any :: "nat list \<Rightarrow> sig_world \<Rightarrow> nat \<times> nat list \<times> sig_world" where
  "manual_any sources w =
     (let c = sg_next w; (cleanups, w') = add_listeners sources c (w\<lparr>sg_next := Suc c\<rparr>) in (c, cleanups, w'))"

definition start_timeout :: "jsnum option \<Rightarrow> nat list \<Rightarrow> sig_world \<Rightarrow> nat list \<times> nat option \<times> sig_world" where
  "start_timeout timeoutMs sources w =
     (case timeoutMs of
        None \<Rightarrow> (sources, None, w)
      | Some ms \<Rightarrow>
          let c = sg_next w; h = Suc c
          in (sources @ [c], Some h,
              w\<lparr>sg_next := Suc h, sg_timers := sg_timers w @ [\<lparr>tm_handle = h, tm_signal = c, tm_timeoutMs = ms\<rparr>]\<rparr>))"

definition composeAbortSignal ::
  "bool \<Rightarrow> nat option list \<Rightarrow> jsnum option \<Rightarrow> sig_world \<Rightarrow> composed_signal option \<times> sig_world" where
  "composeAbortSignal useAny signals timeoutMs w =
     (let sources = List.map_filter id signals
      in if timeoutMs = None \<and> sources = [] then (None, w)
         else if timeoutMs = None \<and> length sources = 1 then
           (Some \<lparr>cs_signal = hd sources, cs_timer = None, cs_cleanups = [], cs_disposed = False\<rparr>, w)
         else
           let (sources', handle, w1) = start_timeout timeoutMs sources w
           in if useAny then
                let (c, w2) = signal_any sources' w1
                in (Some \<lparr>cs_signal = c, cs_timer = handle, cs_cleanups = [], cs_disposed = False\<rparr>, w2)
              else
                let (c, cleanups, w2) = manual_any sources' w1
                in (Some \<lparr>cs_signal = c, cs_timer = handle, cs_cleanups = cleanups, cs_disposed = False\<rparr>, w2))"

definition dispose :: "composed_signal \<Rightarrow> sig_world \<Rightarrow> composed_signal \<times> sig_world" where
  "dispose cs w =
     (if cs_disposed cs then (cs, w)
      else (cs\<lparr>cs_disposed := True\<rparr>,
            w\<lparr>sg_timers := filter (\<lambda>t. cs_timer cs \<noteq> Some (tm_handle t)) (sg_timers w),
              sg_links := filter (\<lambda>(k, s, t). \<not> (k = Listener \<and> s \<in> set (cs_cleanups cs) \<and> t = cs_signal cs)) (sg_links w)\<rparr>))"

section \<open>What happens to signals\<close>

text \<open>Somebody aborts a signal that has a controller, or a timer of the clock fires.\<close>

datatype sig_event = Abort nat thrown | Fire nat

definition fire :: "nat \<Rightarrow> sig_world \<Rightarrow> sig_world" where
  "fire h w =
     (case find (\<lambda>t. tm_handle t = h) (sg_timers w) of
        None \<Rightarrow> w
      | Some t \<Rightarrow>
          abort_signal (tm_signal t) (createTimeoutError (tm_timeoutMs t))
            (w\<lparr>sg_timers := filter (\<lambda>t. tm_handle t \<noteq> h) (sg_timers w)\<rparr>))"

fun sig_step :: "sig_event \<Rightarrow> sig_world \<Rightarrow> sig_world" where
  "sig_step (Abort i r) w = abort_signal i r w"
| "sig_step (Fire h) w = fire h w"

fun sig_states :: "sig_event list \<Rightarrow> sig_world \<Rightarrow> sig_world list" where
  "sig_states [] w = [w]"
| "sig_states (e # es) w = w # sig_states es (sig_step e w)"

text \<open>The reason of the source that was aborted first, over a history of states.\<close>

fun first_abort :: "nat list \<Rightarrow> sig_world list \<Rightarrow> thrown option" where
  "first_abort sources [] = None"
| "first_abort sources (w # ws) =
     (case first_reason (sg_reason w) sources of None \<Rightarrow> first_abort sources ws | Some r \<Rightarrow> Some r)"

definition compose_sources :: "nat option list \<Rightarrow> jsnum option \<Rightarrow> sig_world \<Rightarrow> nat list" where
  \<comment> \<open>the parents, and the controller of the timeout\<close>
  "compose_sources signals timeoutMs w =
     List.map_filter id signals @ (case timeoutMs of None \<Rightarrow> [] | Some ms \<Rightarrow> [sg_next w])"

definition sig_ok :: "sig_world \<Rightarrow> bool" where
  "sig_ok w \<longleftrightarrow>
     sorted (map (\<lambda>(k, s, t). t) (sg_links w))
     \<and> (\<forall>(k, s, t) \<in> set (sg_links w). s < t \<and> t < sg_next w \<and> (sg_reason w s \<noteq> None \<longrightarrow> sg_reason w t \<noteq> None))
     \<and> (\<forall>t \<in> set (sg_timers w). tm_signal t < sg_next w)
     \<and> (\<forall>i. sg_next w \<le> i \<longrightarrow> sg_reason w i = None)"

section \<open>Aborts travel once and completely\<close>

definition pass :: "nat \<Rightarrow> nat \<Rightarrow> (nat \<Rightarrow> thrown option) \<Rightarrow> nat \<Rightarrow> thrown option" where
  \<comment> \<open>one link\<close>
  "pass s t m = (if m s \<noteq> None \<and> m t = None then m(t := m s) else m)"

lemma propagate_Cons: "propagate ((k, s, t) # ls) m = propagate ls (pass s t m)"
  by (simp add: pass_def)

lemma pass_mono: "m x = Some r \<Longrightarrow> pass s t m x = Some r"
  by (auto simp: pass_def)

lemma pass_sets: "s \<noteq> t \<Longrightarrow> pass s t m s \<noteq> None \<Longrightarrow> pass s t m t \<noteq> None"
  by (auto simp: pass_def)

lemma pass_other: "x \<noteq> t \<Longrightarrow> pass s t m x = m x"
  by (simp add: pass_def)

declare propagate.simps(2) [simp del]
declare propagate_Cons [simp]

lemma propagate_mono: "m x = Some r \<Longrightarrow> propagate ls m x = Some r"
  by (induction ls arbitrary: m) (auto simp: pass_mono)

lemma propagate_only: "\<forall>k s. (k, s, x) \<notin> set ls \<Longrightarrow> propagate ls m x = m x"
  by (induction ls arbitrary: m) (auto simp: pass_other)

lemma propagate_closed:
  "sorted (map (\<lambda>(k, s, t). t) ls) \<Longrightarrow> \<forall>(k, s, t) \<in> set ls. s < t
    \<Longrightarrow> \<forall>(k, s, t) \<in> set ls. propagate ls m s \<noteq> None \<longrightarrow> propagate ls m t \<noteq> None"
proof (induction ls arbitrary: m)
  case (Cons l ls)
  obtain k and s t :: nat where l: "l = (k, s, t)" by (cases l) blast
  have "\<forall>k' s'. (k', s', s) \<notin> set ls" using Cons.prems by (fastforce simp: l)
  then have "propagate ls (pass s t m) s = pass s t m s" by (rule propagate_only)
  moreover have "s \<noteq> t" using Cons.prems by (auto simp: l)
  ultimately have "propagate ls (pass s t m) s \<noteq> None \<longrightarrow> propagate ls (pass s t m) t \<noteq> None"
    using pass_sets [of s t m] propagate_mono [of "pass s t m" t _ ls] by auto
  then show ?case using Cons.IH [of "pass s t m"] Cons.prems by (simp add: l)
qed simp

lemma propagate_into: "propagate ls m t = Some r \<Longrightarrow> m t = None \<Longrightarrow> \<exists>k s. (k, s, t) \<in> set ls \<and> propagate ls m s \<noteq> None"
proof (induction ls arbitrary: m)
  case (Cons l ls)
  obtain k s' t' where l: "l = (k, s', t')" by (cases l)
  show ?case
  proof (cases "pass s' t' m t")
    case None
    with Cons.IH [of "pass s' t' m"] Cons.prems(1) show ?thesis by (auto simp: l)
  next
    case (Some x)
    then have "t = t'" "m s' \<noteq> None" using Cons.prems(2) by (auto simp: pass_def split: if_splits)
    then obtain y where "propagate ls (pass s' t' m) s' = Some y" using pass_mono propagate_mono by blast
    with \<open>t = t'\<close> show ?thesis by (auto simp: l)
  qed
qed simp

text \<open>One abort has one reason: every signal that it newly aborts gets it.\<close>

lemma propagate_one:
  "\<forall>(k, s, t) \<in> set ls. m0 s \<noteq> None \<longrightarrow> m0 t \<noteq> None \<Longrightarrow> \<forall>x. m x = m0 x \<or> m0 x = None \<and> m x = Some r
    \<Longrightarrow> propagate ls m x = m0 x \<or> m0 x = None \<and> propagate ls m x = Some r"
proof (induction ls arbitrary: m)
  case (Cons l ls)
  obtain k s t where l: "l = (k, s, t)" by (cases l)
  have "pass s t m y = m0 y \<or> m0 y = None \<and> pass s t m y = Some r" for y
    using Cons.prems(1) Cons.prems(2) [rule_format, of s] Cons.prems(2) [rule_format, of y] by (auto simp: pass_def l)
  then show ?case using Cons.IH [of "pass s t m"] Cons.prems(1) by (simp add: l)
qed simp

definition sig_grows :: "sig_world \<Rightarrow> sig_world \<Rightarrow> bool" where
  "sig_grows w w' \<longleftrightarrow> sig_ok w' \<and> sg_links w' = sg_links w \<and> sg_next w' = sg_next w
     \<and> (\<exists>r. \<forall>x. sg_reason w' x = sg_reason w x \<or> sg_reason w x = None \<and> sg_reason w' x = Some r)"

lemma abort_grows:
  assumes "sig_ok w" "i < sg_next w"
  shows "sig_grows w (abort_signal i r w)"
proof (cases "sg_reason w i")
  case None
  let ?m = "(sg_reason w)(i := Some r)" and ?w = "abort_signal i r w"
  have w: "?w = w\<lparr>sg_reason := propagate (sg_links w) ?m\<rparr>" using None by (simp add: abort_signal_def)
  have links: "sorted (map (\<lambda>(k, s, t). t) (sg_links w))" "\<forall>(k, s, t) \<in> set (sg_links w). s < t"
    "\<forall>(k, s, t) \<in> set (sg_links w). t < sg_next w" "\<forall>(k, s, t) \<in> set (sg_links w). sg_reason w s \<noteq> None \<longrightarrow> sg_reason w t \<noteq> None"
    using assms(1) by (auto simp: sig_ok_def)
  have "propagate (sg_links w) ?m x = None" if "sg_next w \<le> x" for x
  proof -
    have "\<forall>k s. (k, s, x) \<notin> set (sg_links w)" using links(3) that by fastforce
    then show ?thesis using propagate_only [of x "sg_links w" ?m] assms that by (simp add: sig_ok_def)
  qed
  then have "sig_ok ?w"
    using assms(1) propagate_closed [OF links(1,2), of ?m] by (auto simp: sig_ok_def w)
  moreover have "propagate (sg_links w) ?m x = sg_reason w x \<or> sg_reason w x = None \<and> propagate (sg_links w) ?m x = Some r" for x
    by (rule propagate_one) (use links(4) None in auto)
  ultimately show ?thesis by (auto simp: sig_grows_def w)
next
  case (Some r')
  then show ?thesis using assms by (simp add: sig_grows_def abort_signal_def)
qed

lemma abort_into: "sg_reason (abort_signal i r w) c = Some q \<Longrightarrow> sg_reason w c = None \<Longrightarrow> i \<noteq> c
    \<Longrightarrow> \<exists>k s. (k, s, c) \<in> set (sg_links w) \<and> sg_reason (abort_signal i r w) s \<noteq> None"
  using propagate_into [of "sg_links w" "(sg_reason w)(i := Some r)" c q] by (auto simp: abort_signal_def split: if_splits)

section \<open>The composed signal\<close>

definition event_ok :: "nat option \<Rightarrow> sig_world \<Rightarrow> sig_event \<Rightarrow> bool" where
  \<comment> \<open>nobody but the composition itself aborts the composed signal, when there is one\<close>
  "event_ok c w e =
     (case e of
        Abort i r \<Rightarrow> i < sg_next w \<and> Some i \<noteq> c
      | Fire h \<Rightarrow> list_all (\<lambda>t. Some (tm_signal t) \<noteq> c) (sg_timers w))"

lemma step_grows: "sig_ok w \<Longrightarrow> event_ok c w e \<Longrightarrow> sig_grows w (sig_step e w)"
proof (cases e)
  case (Fire h)
  assume ok: "sig_ok w"
  let ?w = "w\<lparr>sg_timers := filter (\<lambda>t. tm_handle t \<noteq> h) (sg_timers w)\<rparr>"
  have "sig_ok ?w" using ok by (auto simp: sig_ok_def)
  moreover have "tm_signal t < sg_next w" if "find (\<lambda>t. tm_handle t = h) (sg_timers w) = Some t" for t
    using ok that by (auto simp: sig_ok_def find_Some_iff)
  ultimately have "sig_grows ?w (abort_signal (tm_signal t) r ?w)" if "find (\<lambda>t. tm_handle t = h) (sg_timers w) = Some t" for t r
    using that by (intro abort_grows) auto
  then show ?thesis using ok by (auto simp: Fire fire_def sig_grows_def split: option.splits)
qed (auto simp: event_ok_def intro: abort_grows)

lemma step_into: "sg_reason (sig_step e w) c = Some q \<Longrightarrow> sg_reason w c = None \<Longrightarrow> event_ok (Some c) w e
    \<Longrightarrow> \<exists>k s. (k, s, c) \<in> set (sg_links w) \<and> sg_reason (sig_step e w) s \<noteq> None"
proof (cases e)
  case (Fire h)
  assume *: "sg_reason (sig_step e w) c = Some q" "sg_reason w c = None" "event_ok (Some c) w e"
  then obtain t where t: "find (\<lambda>t. tm_handle t = h) (sg_timers w) = Some t" by (auto simp: Fire fire_def split: option.splits)
  then have "tm_signal t \<noteq> c" using *(3) by (auto simp: Fire event_ok_def find_Some_iff list_all_length)
  with * t show ?thesis
    using abort_into [of "tm_signal t" "createTimeoutError (tm_timeoutMs t)" "w\<lparr>sg_timers := filter (\<lambda>t. tm_handle t \<noteq> h) (sg_timers w)\<rparr>" c q]
    by (simp add: Fire fire_def)
next
  case (Abort i r)
  assume "sg_reason (sig_step e w) c = Some q" "sg_reason w c = None" "event_ok (Some c) w e"
  then show ?thesis using abort_into [of i r w c q] by (simp add: Abort event_ok_def)
qed

lemma step_timers: "set (sg_timers (sig_step e w)) \<subseteq> set (sg_timers w)"
  by (cases e) (auto simp: abort_signal_def fire_def split: option.splits)

text \<open>Linked: the composed signal agrees with its sources, and an abort of any of them reaches it, and only that.\<close>

definition linked :: "nat \<Rightarrow> nat list \<Rightarrow> sig_world \<Rightarrow> bool" where
  "linked c sources w \<longleftrightarrow> sig_ok w \<and> sg_reason w c = first_reason (sg_reason w) sources
     \<and> (sg_reason w c = None \<longrightarrow> (\<lambda>(k, s, t). s) ` {l \<in> set (sg_links w). (\<lambda>(k, s, t). t) l = c} = set sources)"

lemma first_reason_None: "first_reason m ss = None \<longleftrightarrow> (\<forall>s \<in> set ss. m s = None)"
  by (induction ss) (auto split: option.splits)

lemma first_reason_one: "\<forall>s \<in> set ss. m s \<in> {None, Some r} \<Longrightarrow> first_reason m ss \<in> {None, Some r}"
  by (induction ss) (auto split: option.splits)

lemma linked_source: "linked c ss w \<Longrightarrow> sg_reason w c = None \<Longrightarrow> s \<in> set ss \<longleftrightarrow> (\<exists>k. (k, s, c) \<in> set (sg_links w))"
  unfolding linked_def by (fastforce simp: image_iff set_eq_iff)

lemma linked_step:
  assumes "linked c ss w" "event_ok (Some c) w e" "sg_reason w c = None"
  shows "linked c ss (sig_step e w)"
proof -
  let ?w = "sig_step e w"
  have ok: "sig_ok w" using assms(1) by (simp add: linked_def)
  from step_grows [OF ok assms(2)] obtain r where g: "sig_ok ?w" "sg_links ?w = sg_links w"
    and one: "\<And>x. sg_reason ?w x = sg_reason w x \<or> sg_reason w x = None \<and> sg_reason ?w x = Some r"
    by (auto simp: sig_grows_def)
  have none: "\<forall>s \<in> set ss. sg_reason w s = None" using assms(1,3) by (simp add: linked_def first_reason_None [symmetric])
  have new: "first_reason (sg_reason ?w) ss \<in> {None, Some r}" by (rule first_reason_one) (metis one none insertCI)
  have "sg_reason ?w c = first_reason (sg_reason ?w) ss"
  proof (cases "first_reason (sg_reason ?w) ss")
    case None
    then have "\<not> (\<exists>k s. (k, s, c) \<in> set (sg_links w) \<and> sg_reason ?w s \<noteq> None)"
      using linked_source [OF assms(1,3)] by (metis first_reason_None)
    with None show ?thesis using step_into [OF _ assms(3,2)] by (cases "sg_reason ?w c") (simp, blast)
  next
    case (Some q)
    then obtain s where "s \<in> set ss" "sg_reason ?w s \<noteq> None" by (metis first_reason_None option.distinct(1))
    moreover then obtain k where "(k, s, c) \<in> set (sg_links ?w)" using linked_source [OF assms(1,3)] g(2) by auto
    ultimately have "sg_reason ?w c \<noteq> None" using g(1) by (fastforce simp: sig_ok_def)
    with one [of c] assms(3) Some new show ?thesis by auto
  qed
  then show ?thesis using assms(1,3) g by (simp add: linked_def)
qed

lemma grows_keeps: "sig_grows w w' \<Longrightarrow> sg_reason w x = Some r \<Longrightarrow> sg_reason w' x = Some r"
  unfolding sig_grows_def by (metis option.distinct(1))

fun events_ok :: "nat option \<Rightarrow> sig_event list \<Rightarrow> sig_world \<Rightarrow> bool" where
  "events_ok c [] w = True"
| "events_ok c (e # es) w = (event_ok c w e \<and> events_ok c es (sig_step e w))"

lemma states_keep:
  "sig_ok w \<Longrightarrow> events_ok c es w \<Longrightarrow> sg_reason w x = Some r \<Longrightarrow> sg_reason (last (sig_states es w)) x = Some r"
proof (induction es arbitrary: w)
  case (Cons e es)
  have "sig_grows w (sig_step e w)" using Cons.prems by (auto intro: step_grows)
  moreover then have "sg_reason (sig_step e w) x = Some r" using Cons.prems(3) by (rule grows_keeps)
  ultimately have "sg_reason (last (sig_states es (sig_step e w))) x = Some r"
    using Cons.prems(2) by (intro Cons.IH) (auto simp: sig_grows_def)
  then show ?case by (cases es) auto
qed simp

lemma last_states: "last (sig_states (e # es) w) = last (sig_states es (sig_step e w))"
  by (cases es) auto

lemma linked_follows:
  "linked c ss w \<Longrightarrow> events_ok (Some c) es w \<Longrightarrow> sg_reason (last (sig_states es w)) c = first_abort ss (sig_states es w)"
proof (induction es arbitrary: w)
  case (Cons e es)
  show ?case
  proof (cases "sg_reason w c")
    case None
    with Cons.prems have "linked c ss (sig_step e w)" by (intro linked_step) simp_all
    with Cons.IH Cons.prems(2) have "sg_reason (last (sig_states es (sig_step e w))) c = first_abort ss (sig_states es (sig_step e w))" by simp
    moreover have "first_reason (sg_reason w) ss = None" using None Cons.prems(1) by (simp add: linked_def)
    ultimately show ?thesis by (simp only: last_states) simp
  next
    case (Some r)
    with Cons.prems have "sg_reason (last (sig_states (e # es) w)) c = Some r" by (intro states_keep) (auto simp: linked_def)
    moreover have "first_reason (sg_reason w) ss = Some r" using Some Cons.prems(1) by (simp add: linked_def)
    ultimately show ?thesis by (simp only: sig_states.simps first_abort.simps option.simps)
  qed
qed (simp add: linked_def split: option.splits)

lemma propagate_id: "\<forall>(k, s, t) \<in> set ls. m s \<noteq> None \<longrightarrow> m t \<noteq> None \<Longrightarrow> propagate ls m = m"
  by (induction ls arbitrary: m) (auto simp: pass_def)

lemma add_listeners_clear:
  "first_reason (sg_reason w) ss = None \<Longrightarrow> add_listeners ss c w = (ss, w\<lparr>sg_links := sg_links w @ map (\<lambda>s. (Listener, s, c)) ss\<rparr>)"
  by (induction ss arbitrary: w) (auto split: option.splits)

lemma add_listeners_aborted:
  "first_reason (sg_reason w) ss = Some r \<Longrightarrow> sg_reason w c = None \<Longrightarrow> c \<notin> set ss
    \<Longrightarrow> \<forall>(k, s, t) \<in> set (sg_links w). s \<noteq> c \<and> (sg_reason w s \<noteq> None \<longrightarrow> sg_reason w t \<noteq> None)
    \<Longrightarrow> \<exists>pre cl. set pre \<subseteq> set ss \<and> (\<forall>s \<in> set pre. sg_reason w s = None)
         \<and> add_listeners ss c w = (cl, w\<lparr>sg_links := sg_links w @ map (\<lambda>s. (Listener, s, c)) pre, sg_reason := (sg_reason w)(c := Some r)\<rparr>)"
proof (induction ss arbitrary: w)
  case (Cons s ss)
  show ?case
  proof (cases "sg_reason w s")
    case (Some q)
    with Cons.prems have "propagate (sg_links w) ((sg_reason w)(c := Some q)) = (sg_reason w)(c := Some q)"
      by (intro propagate_id) (auto simp: case_prod_beta)
    with Some Cons.prems show ?thesis by (intro exI [of _ "[]"]) (simp add: abort_signal_def fun_upd_def)
  next
    case None
    let ?w = "w\<lparr>sg_links := sg_links w @ [(Listener, s, c)]\<rparr>"
    obtain pre cl where "set pre \<subseteq> set ss" "\<forall>s \<in> set pre. sg_reason w s = None"
      "add_listeners ss c ?w = (cl, ?w\<lparr>sg_links := sg_links ?w @ map (\<lambda>s. (Listener, s, c)) pre, sg_reason := (sg_reason w)(c := Some r)\<rparr>)"
      using Cons.IH [of ?w] Cons.prems None by (auto simp: fun_upd_def)
    with None show ?thesis by - (rule exI [of _ "s # pre"], rule exI [of _ "s # cl"], auto simp: fun_upd_def)
  qed
qed simp

lemma linkedI:
  "sg_reason w c = r \<Longrightarrow> first_reason (sg_reason w) ss = r \<Longrightarrow> r = None \<longrightarrow> P = set ss \<Longrightarrow> sig_ok w
    \<Longrightarrow> (\<lambda>(k, s, t). s) ` {l \<in> set ls. (\<lambda>(k, s, t). t) l = c} = P \<Longrightarrow> sg_links w = ls \<Longrightarrow> linked c ss w"
  by (simp add: linked_def)

lemma fresh_linked:
  assumes "sig_ok w" "\<forall>s \<in> set ss. s < sg_next w" "set pre \<subseteq> set ss" "\<forall>s \<in> set pre. sg_reason w s = None"
    and "first_reason (sg_reason w) ss = None \<longrightarrow> set pre = set ss"
  shows "linked (sg_next w) ss (w\<lparr>sg_next := Suc (sg_next w), sg_links := sg_links w @ map (\<lambda>s. (k, s, sg_next w)) pre,
           sg_reason := (sg_reason w)(sg_next w := first_reason (sg_reason w) ss)\<rparr>)"
proof -
  let ?c = "sg_next w" and ?r = "first_reason (sg_reason w) ss"
  have old: "s < ?c" "t < ?c" if "(k', s, t) \<in> set (sg_links w)" for k' s t using assms(1) that by (fastforce simp: sig_ok_def)+
  have fr: "first_reason ((sg_reason w)(?c := x)) us = first_reason (sg_reason w) us" if "set us \<subseteq> set ss" for x us
    using that assms(2) by (induction us) (auto split: option.splits)
  have "sorted (map (\<lambda>(k, s, t). t) (sg_links w @ map (\<lambda>s. (k, s, ?c)) pre))"
    using assms(1) old by (auto simp: sorted_append sig_ok_def comp_def less_imp_le map_replicate_const)
  then have "sig_ok (w\<lparr>sg_next := Suc ?c, sg_links := sg_links w @ map (\<lambda>s. (k, s, ?c)) pre,
      sg_reason := (sg_reason w)(?c := first_reason (sg_reason w) ss)\<rparr>)"
    using assms old unfolding sig_ok_def by (auto simp: less_Suc_eq dest: old split: if_splits)
  moreover have "(\<lambda>(k, s, t). s) ` {l \<in> set (sg_links w @ map (\<lambda>s. (k, s, ?c)) pre). (\<lambda>(k, s, t). t) l = ?c} = set pre"
    using old by (fastforce simp: image_iff)
  ultimately show ?thesis
    by (rule linkedI [where r = ?r and P = "set pre", rotated 3]) (simp_all add: fr assms(5))
qed

lemma single_follows: "sig_ok w \<Longrightarrow> events_ok c es w \<Longrightarrow> sg_reason (last (sig_states es w)) x = first_abort [x] (sig_states es w)"
proof (induction es arbitrary: w)
  case (Cons e es)
  show ?case
  proof (cases "sg_reason w x")
    case None
    moreover have "sig_ok (sig_step e w)" using step_grows Cons.prems by (auto simp: sig_grows_def)
    ultimately show ?thesis using Cons by (simp only: last_states) simp
  next
    case (Some r)
    with states_keep [OF Cons.prems] show ?thesis by (simp only: sig_states.simps first_abort.simps first_reason.simps option.simps)
  qed
qed (simp split: option.splits)

lemma start_timeout_facts:
  assumes "start_timeout timeoutMs ss w = (ss', h, w1)" "sig_ok w" "\<forall>s \<in> set ss. s < sg_next w"
  shows "sig_ok w1 \<and> (\<forall>s \<in> set ss'. s < sg_next w1) \<and> ss' = ss @ (case timeoutMs of None \<Rightarrow> [] | Some ms \<Rightarrow> [sg_next w])"
  using assms by (fastforce simp: start_timeout_def sig_ok_def Let_def split: option.splits)

lemma compose_linked:
  assumes "composeAbortSignal useAny signals timeoutMs w = (Some cs, w')" "sig_ok w"
    and "\<forall>s \<in> set (List.map_filter id signals). s < sg_next w"
  shows "linked (cs_signal cs) (compose_sources signals timeoutMs w) w' \<and> Some (cs_signal cs) \<notin> set signals
     \<or> compose_sources signals timeoutMs w = [cs_signal cs] \<and> w' = w"
proof (cases "timeoutMs = None \<and> length (List.map_filter id signals) = 1")
  case True
  then obtain s where "List.map_filter id signals = [s]" by (auto simp: length_Suc_conv)
  with True assms(1) show ?thesis by (auto simp: composeAbortSignal_def compose_sources_def)
next
  case False
  obtain ss h w1 where st: "start_timeout timeoutMs (List.map_filter id signals) w = (ss, h, w1)" by (cases "start_timeout timeoutMs (List.map_filter id signals) w")
  from start_timeout_facts [OF st assms(2,3)]
  have w1: "sig_ok w1" "\<forall>s \<in> set ss. s < sg_next w1" and ss: "ss = compose_sources signals timeoutMs w"
    by (auto simp: compose_sources_def)
  let ?c = "sg_next w1" and ?r = "first_reason (sg_reason w1) ss"
  let ?new = "\<lambda>k pre. w1\<lparr>sg_next := Suc ?c, sg_links := sg_links w1 @ map (\<lambda>s. (k, s, ?c)) pre, sg_reason := (sg_reason w1)(?c := ?r)\<rparr>"
  have c: "sg_reason w1 ?c = None" "?c \<notin> set ss" and closed: "\<forall>(k, s, t) \<in> set (sg_links w1). s \<noteq> ?c \<and> (sg_reason w1 s \<noteq> None \<longrightarrow> sg_reason w1 t \<noteq> None)"
    using w1 by (fastforce simp: sig_ok_def)+
  have "\<exists>k pre. set pre \<subseteq> set ss \<and> (\<forall>s \<in> set pre. sg_reason w1 s = None) \<and> (?r = None \<longrightarrow> set pre = set ss) \<and> cs_signal cs = ?c \<and> w' = ?new k pre"
  proof (cases useAny)
    case True
    then show ?thesis using assms(1) False st
      by (intro exI [of _ Dependent] exI [of _ "if ?r = None then ss else []"])
        (auto simp: composeAbortSignal_def signal_any_def Let_def first_reason_None split: if_splits)
  next
    case manual: False
    obtain pre cl where pre: "set pre \<subseteq> set ss" "\<forall>s \<in> set pre. sg_reason w1 s = None" "?r = None \<longrightarrow> set pre = set ss"
        and add: "add_listeners ss ?c (w1\<lparr>sg_next := Suc ?c\<rparr>) = (cl, ?new Listener pre)"
    proof (cases ?r)
      case None
      then have "add_listeners ss ?c (w1\<lparr>sg_next := Suc ?c\<rparr>) = (ss, ?new Listener ss)"
        using add_listeners_clear [of "w1\<lparr>sg_next := Suc ?c\<rparr>" ss ?c] c(1) by (simp add: fun_upd_idem)
      with None that [of ss ss] show ?thesis by (auto simp: first_reason_None)
    next
      case (Some r)
      then show ?thesis using that add_listeners_aborted [of "w1\<lparr>sg_next := Suc ?c\<rparr>" ss r ?c] c closed by auto
    qed
    have "cs_signal cs = ?c" "w' = ?new Listener pre" using assms(1) False st manual add
      by (auto simp: composeAbortSignal_def manual_any_def Let_def split: if_splits)
    with pre show ?thesis by - (rule exI [of _ Listener], rule exI [of _ pre], simp)
  qed
  moreover have "Some ?c \<notin> set signals"
  proof
    assume "Some ?c \<in> set signals"
    then have "?c \<in> set (List.map_filter id signals)" by (force simp: map_filter_def)
    with c(2) show False by (simp add: ss compose_sources_def)
  qed
  ultimately show ?thesis using fresh_linked [OF w1] by (auto simp: ss)
qed

text \<open>C29: The signal that a request gets out of its parents and its timeout aborts exactly when the first of them does
  and with that one's reason, a timeout error for the timeout, whether the platform has \<^verbatim>\<open>AbortSignal.any\<close> or the
  listeners of the fallback do the work, also when a parent was aborted before.\<close>

theorem composed_signal_follows_first:
  assumes "composeAbortSignal useAny signals timeoutMs w = (Some cs, w')" "sig_ok w"
    and "\<forall>s \<in> set (List.map_filter id signals). s < sg_next w"
    and "events_ok (if Some (cs_signal cs) \<in> set signals then None else Some (cs_signal cs)) es w'"
  shows "sg_reason (last (sig_states es w')) (cs_signal cs) = first_abort (compose_sources signals timeoutMs w) (sig_states es w')"
  using compose_linked [OF assms(1-3)]
proof
  assume "linked (cs_signal cs) (compose_sources signals timeoutMs w) w' \<and> Some (cs_signal cs) \<notin> set signals"
  then show ?thesis using assms(4) by (auto intro: linked_follows)
next
  assume "compose_sources signals timeoutMs w = [cs_signal cs] \<and> w' = w"
  then show ?thesis using single_follows assms(2,4) by simp
qed

text \<open>After \<^verbatim>\<open>dispose\<close> the composition holds no timer and no listener any more, and disposing again changes nothing.\<close>

lemma dispose_releases:
  "dispose cs w = (cs', w') \<Longrightarrow> \<not> cs_disposed cs
    \<Longrightarrow> (\<forall>t \<in> set (sg_timers w'). cs_timer cs \<noteq> Some (tm_handle t))
      \<and> (\<forall>s \<in> set (cs_cleanups cs). (Listener, s, cs_signal cs) \<notin> set (sg_links w'))
      \<and> sg_reason w' = sg_reason w \<and> dispose cs' w' = (cs', w')"
  by (auto simp: dispose_def)

definition sample_signals :: sig_world where
  "sample_signals = \<lparr>sg_reason = (\<lambda>_. None), sg_links = [], sg_timers = [], sg_next = 2\<rparr>"

definition sample_events :: "sig_event list" where
  "sample_events = [Fire 9, Fire 3, Abort 0 (plainError ''AbortError'' ''stop'')]"

definition sample_composed :: "composed_signal option \<times> sig_world" where
  "sample_composed = composeAbortSignal False [Some 0, None, Some 1] (Some (Dec False 5 1)) sample_signals"

theorem composed_signal_follows_first_witness:
  "sg_reason (last (sig_states sample_events (snd sample_composed))) (cs_signal (the (fst sample_composed)))
     = Some (createTimeoutError (Dec False 5 1))"
proof -
  let ?cs = "the (fst sample_composed)" and ?w = "snd sample_composed"
  have "fst sample_composed \<noteq> None" by code_simp
  then have c: "composeAbortSignal False [Some 0, None, Some 1] (Some (Dec False 5 1)) sample_signals = (Some ?cs, ?w)"
    by (simp add: sample_composed_def prod_eq_iff)
  have "sig_ok sample_signals" by (simp add: sig_ok_def sample_signals_def)
  moreover have "\<forall>s \<in> set (List.map_filter id [Some 0, None, Some (1::nat)]). s < sg_next sample_signals" by code_simp
  moreover have "events_ok (if Some (cs_signal ?cs) \<in> set [Some 0, None, Some 1] then None else Some (cs_signal ?cs)) sample_events ?w"
    by code_simp
  ultimately have "sg_reason (last (sig_states sample_events ?w)) (cs_signal ?cs)
      = first_abort (compose_sources [Some 0, None, Some 1] (Some (Dec False 5 1)) sample_signals) (sig_states sample_events ?w)"
    by (rule composed_signal_follows_first [OF c])
  also have "\<dots> = Some (createTimeoutError (Dec False 5 1))" by code_simp
  finally show ?thesis .
qed

end
