(* ===== verification/Http_Client.thy ===== *)
theory Http_Client
  imports Http_Headers Abort_Signal Types
begin

text \<open>
  \<^verbatim>\<open>src/http/client.ts\<close>: the \<^verbatim>\<open>ctx.http\<close> helper. The environment decides what the host answers: the URL parser,
  the response of each \<^verbatim>\<open>fetch\<close>, which calls of the validator store and of the budget fail, the clock, what
  happens to the abort signals while a request is under way, and how bytes are decoded as UTF-8. The world keeps the
  stored validators, the abort signals and what was sent, charged, reported and logged.
\<close>

section \<open>\<^verbatim>\<open>URL\<close> and \<^verbatim>\<open>Headers\<close>\<close>

text \<open>A parsed URL: what precedes the query, the query as text and as the list of its pairs, the fragment.\<close>

record url =
  u_base :: string
  u_search :: string
  u_params :: "(string \<times> string) list"
  u_hash :: string

definition utf8_bytes :: "char \<Rightarrow> nat list" where
  "utf8_bytes c = (let n = of_char c in if n < 128 then [n] else [192 + n div 64, 128 + n mod 64])"

definition percent :: "nat \<Rightarrow> string" where
  "percent n = (let h = (\<lambda>d. if d < 10 then char_of (48 + d) else char_of (55 + d :: nat)) in [CHR 0x25, h (n div 16), h (n mod 16)])"

definition form_char :: "char \<Rightarrow> string" where
  \<comment> \<open>the form-urlencoded byte serializer on one character\<close>
  "form_char c =
     (let n = (of_char c :: int)
      in if c = CHR '' '' then ''+''
         else if 48 \<le> n \<and> n \<le> 57 \<or> 65 \<le> n \<and> n \<le> 90 \<or> 97 \<le> n \<and> n \<le> 122 \<or> c \<in> {CHR ''*'', CHR ''-'', CHR ''.'', CHR ''_''} then [c]
         else concat (map percent (utf8_bytes c)))"

definition form_encode :: "(string \<times> string) list \<Rightarrow> string" where
  "form_encode ps = sep_join ''&'' (map (\<lambda>(k, v). concat (map form_char k) @ ''='' @ concat (map form_char v)) ps)"

definition searchParams_append :: "string \<Rightarrow> string \<Rightarrow> url \<Rightarrow> url" where
  "searchParams_append k v u =
     (let ps = u_params u @ [(k, v)] in u\<lparr>u_params := ps, u_search := CHR ''?'' # form_encode ps\<rparr>)"

definition url_str :: "url \<Rightarrow> string" where
  "url_str u = u_base u @ u_search u @ u_hash u"

text \<open>Header names are tokens and are kept in lower case; blanks around a value are dropped, and a value holds no
  line break and no NUL.\<close>

definition is_token_char :: "char \<Rightarrow> bool" where
  "is_token_char c \<longleftrightarrow>
     (let n = (of_char c :: int) in 48 \<le> n \<and> n \<le> 57 \<or> 65 \<le> n \<and> n \<le> 90 \<or> 97 \<le> n \<and> n \<le> 122)
     \<or> c \<in> set ''!#$%&*+-.^_|~'' \<union> {CHR 0x27, CHR 0x60}"

definition header_value :: "string \<Rightarrow> string" where
  "header_value v = (let d = dropWhile is_ws in rev (d (rev (d v))))"

definition header_ok :: "string \<Rightarrow> string \<Rightarrow> bool" where
  "header_ok name v \<longleftrightarrow> name \<noteq> [] \<and> list_all is_token_char name
     \<and> list_all (\<lambda>c. c \<notin> {CHR 0x00, CHR 0x0A, CHR 0x0D}) (header_value v)"

definition hdr_set :: "string \<Rightarrow> string \<Rightarrow> headers \<Rightarrow> thrown + headers" where
  "hdr_set name v h =
     (if header_ok name v then Inr (AList.update (toLowerCase name) (header_value v) h)
      else Inl (typeError ''invalid header''))"

definition hdr_append :: "string \<Rightarrow> string \<Rightarrow> headers \<Rightarrow> thrown + headers" where
  "hdr_append name v h =
     (if header_ok name v then
        Inr (AList.update (toLowerCase name)
          (case map_of h (toLowerCase name) of None \<Rightarrow> header_value v | Some old \<Rightarrow> old @ '', '' @ header_value v) h)
      else Inl (typeError ''invalid header''))"

fun new_headers :: "(string \<times> string) list \<Rightarrow> headers \<Rightarrow> thrown + headers" where
  "new_headers [] h = Inr h"
| "new_headers ((name, v) # es) h = (case hdr_append name v h of Inl e \<Rightarrow> Inl e | Inr h' \<Rightarrow> new_headers es h')"

definition upper_char :: "char \<Rightarrow> char" where
  "upper_char c = (let n = (of_char c :: int) in if 97 \<le> n \<and> n \<le> 122 then char_of (n - 32) else c)"

text \<open>Method names are made of ASCII letters.\<close>

definition toUpperCase :: "string \<Rightarrow> string" where
  "toUpperCase s = map upper_char s"

section \<open>\<^verbatim>\<open>src/core/http-types.ts\<close>, the environment and the world\<close>

datatype query_value = QStr string | QNum jsnum | QBool bool | QNull | QUndef

datatype query_entry = QOne query_value | QMany "query_value list"

record http_options =
  ro_method :: "string option"
  ro_query :: "(string \<times> query_entry) list option"
  ro_headers :: "(string \<times> string) list option"
  ro_signal :: "nat option"
  ro_cost :: "number option"
  ro_validators :: "bool option"
  ro_timeout :: "duration option"
  ro_throwOnError :: "bool option"
  ro_body :: "string option"

record http_request =
  rq_url :: string
  rq_method :: string
  rq_headers :: headers
  rq_body :: "string option"
  rq_signal :: "nat option"

text \<open>A body is a stream of chunks that may break off with an error.\<close>

record body =
  bd_chunks :: "u8 list list"
  bd_error :: "thrown option"

record response =
  rs_status :: int
  rs_headers :: headers
  rs_body :: "body option"

definition rs_ok :: "response \<Rightarrow> bool" where
  "rs_ok r \<longleftrightarrow> 200 \<le> rs_status r \<and> rs_status r \<le> 299"

datatype log_level = LogDebug | LogWarn

record log_entry =
  lg_level :: log_level
  lg_message :: string
  lg_url :: string
  lg_status :: "int option"
  lg_headers :: "(string, string) jsmap"
  lg_error :: "serialized_error option"

record http_env =
  hv_parse :: "string \<Rightarrow> url option"
  hv_fetch :: "nat \<Rightarrow> http_request \<Rightarrow> thrown + response"
  hv_now :: "nat \<Rightarrow> number"
  hv_getFails :: "nat \<Rightarrow> thrown option"
  hv_setFails :: "nat \<Rightarrow> thrown option"
  hv_charge :: "nat \<Rightarrow> number \<Rightarrow> thrown option"
  hv_events :: "nat \<Rightarrow> sig_event list"
  hv_decode :: "u8 list \<Rightarrow> string"
  hv_sha :: "string \<Rightarrow> u8 list"
  hv_dateParse :: date_parse
  hv_useAny :: bool

record http_world =
  hw_tick :: nat
  hw_validators :: "(string, validator) jsmap"
  hw_signals :: sig_world
  hw_fetched :: "http_request list"
  hw_charged :: "number list"
  hw_rateLimits :: "rate_limit_info list"
  hw_log :: "log_entry list"

record http_deps =
  hd_validators :: bool
  hd_charge :: bool
  hd_defaultCost :: number
  hd_onRateLimit :: bool
  hd_signal :: "nat option"
  hd_redactHeaders :: "string list option"
  hd_defaultTimeoutMs :: "jsnum option"
  hd_userAgent :: "string option"

type_synonym 'a hio = "(http_world, thrown, 'a) io"

definition liftH :: "thrown + 'a \<Rightarrow> 'a hio" where
  "liftH r = (case r of Inl e \<Rightarrow> throwE e | Inr x \<Rightarrow> retE x)"

definition tickH :: "nat hio" where
  \<comment> \<open>the number of this call of the environment\<close>
  "tickH = (\<lambda>w. (Inr (hw_tick w), w\<lparr>hw_tick := Suc (hw_tick w)\<rparr>))"

definition nowH :: "http_env \<Rightarrow> number hio" where
  "nowH en = bindE tickH (\<lambda>n. retE (hv_now en n))"

definition failing :: "thrown option \<Rightarrow> unit hio" where
  "failing f = (case f of None \<Rightarrow> retE () | Some e \<Rightarrow> throwE e)"

definition logH :: "log_entry \<Rightarrow> unit hio" where
  "logH l = modifyE (\<lambda>w. w\<lparr>hw_log := hw_log w @ [l]\<rparr>)"

definition throwIfAborted :: "nat option \<Rightarrow> unit hio" where
  "throwIfAborted s =
     bindE (getsE (\<lambda>w. Option.bind s (sg_reason (hw_signals w)))) failing"

definition finallyE :: "('w, 'e, 'a) io \<Rightarrow> ('w \<Rightarrow> 'w) \<Rightarrow> ('w, 'e, 'a) io" where
  "finallyE m f = (\<lambda>w. case m w of (r, w') \<Rightarrow> (r, f w'))"

section \<open>\<^verbatim>\<open>src/http/client.ts\<close>\<close>

definition DEFAULT_USER_AGENT :: string where
  "DEFAULT_USER_AGENT = ''watukuy''"

definition MAX_ERROR_BODY_BYTES :: nat where
  "MAX_ERROR_BODY_BYTES = 64 * 1024"

fun query_text :: "query_value \<Rightarrow> string option" where
  \<comment> \<open>\<^verbatim>\<open>String(value)\<close>, none for the values that are skipped\<close>
  "query_text (QStr s) = Some s"
| "query_text (QNum x) = Some (num_str x)"
| "query_text (QBool b) = Some (if b then ''true'' else ''false'')"
| "query_text QNull = None"
| "query_text QUndef = None"

definition appendQuery :: "string \<Rightarrow> query_value \<Rightarrow> url \<Rightarrow> url" where
  "appendQuery key value target = (case query_text value of None \<Rightarrow> target | Some s \<Rightarrow> searchParams_append key s target)"

fun append_entry :: "string \<times> query_entry \<Rightarrow> url \<Rightarrow> url" where
  "append_entry (key, QMany items) target = fold (appendQuery key) items target"
| "append_entry (key, QOne value) target = appendQuery key value target"

definition buildRequestUrl :: "http_env \<Rightarrow> string \<Rightarrow> (string \<times> query_entry) list option \<Rightarrow> thrown + string" where
  "buildRequestUrl en url query =
     (case hv_parse en url of
        None \<Rightarrow> Inl (typeError ''Invalid URL'')
      | Some target \<Rightarrow> Inr (url_str (fold append_entry (opt_or query []) target)))"

text \<open>\<^verbatim>\<open>parseDuration\<close>, with the digits that a timeout error prints.\<close>

definition timeout_num :: "duration \<Rightarrow> thrown + jsnum" where
  "timeout_num d =
     map_sum id (\<lambda>ms. case d of DurNum x \<Rightarrow> x | DurStr s \<Rightarrow> mk_num False (nat \<lfloor>ms\<rfloor>) 0) (parseDuration d ''http timeout'')"

fun concat_bytes_loop :: "u8 list list \<Rightarrow> nat \<Rightarrow> nat \<Rightarrow> u8 list \<Rightarrow> u8 list" where
  "concat_bytes_loop [] len offset out = out"
| "concat_bytes_loop (chunk # chunks) len offset out =
     (if len \<le> offset then out
      else
        let slice = take (min (length chunk) (len - offset)) chunk
        in concat_bytes_loop chunks len (offset + length slice)
             (take offset out @ slice @ drop (offset + length slice) out))"

definition concatBytes :: "u8 list list \<Rightarrow> nat \<Rightarrow> u8 list" where
  "concatBytes chunks len = concat_bytes_loop chunks len 0 (replicate len 0)"

fun read_loop :: "nat \<Rightarrow> u8 list list \<Rightarrow> thrown option \<Rightarrow> u8 list list \<Rightarrow> nat \<Rightarrow> thrown + (u8 list list \<times> nat)" where
  "read_loop maxBytes stream err chunks got =
     (if maxBytes \<le> got then Inr (chunks, got)
      else case stream of
             [] \<Rightarrow> (case err of Some e \<Rightarrow> Inl e | None \<Rightarrow> Inr (chunks, got))
           | c # cs \<Rightarrow> read_loop maxBytes cs err (chunks @ [c]) (got + length c))"

definition readBodyText :: "http_env \<Rightarrow> response \<Rightarrow> nat \<Rightarrow> string option" where
  "readBodyText en res maxBytes =
     (case rs_body res of
        None \<Rightarrow> Some []
      | Some b \<Rightarrow>
          (case read_loop maxBytes (bd_chunks b) (bd_error b) [] 0 of
             Inl e \<Rightarrow> None
           | Inr (chunks, got) \<Rightarrow> Some (hv_decode en (concatBytes chunks (min got maxBytes)))))"

record http_response =
  hr_status :: int
  hr_ok :: bool
  hr_notModified :: bool
  hr_headers :: headers
  hr_url :: string
  hr_rateLimit :: "rate_limit_info option"
  hr_text :: "string option" \<comment> \<open>the cached text\<close>
  hr_raw :: response

definition createHttpResponse :: "response \<Rightarrow> string \<Rightarrow> rate_limit_info option \<Rightarrow> bool \<Rightarrow> string option \<Rightarrow> http_response" where
  "createHttpResponse raw url rateInfo notModified bodyText =
     \<lparr>hr_status = rs_status raw, hr_ok = (rs_ok raw \<or> notModified), hr_notModified = notModified, hr_headers = rs_headers raw,
      hr_url = url, hr_rateLimit = rateInfo, hr_text = bodyText, hr_raw = raw\<rparr>"

definition raw_bytes :: "response \<Rightarrow> thrown + u8 list" where
  \<comment> \<open>\<^verbatim>\<open>raw.arrayBuffer()\<close>\<close>
  "raw_bytes raw =
     (case rs_body raw of
        None \<Rightarrow> Inr []
      | Some b \<Rightarrow> (case bd_error b of Some e \<Rightarrow> Inl e | None \<Rightarrow> Inr (concat (bd_chunks b))))"

definition no_body :: thrown where
  "no_body = plainError ''Error'' ''watukuy: no body on 304 Not Modified response''"

text \<open>The accessors return the response with its cache, as the closures over \<^verbatim>\<open>textPromise\<close> do; a cached failure is
  read again with the same result.\<close>

definition text_of :: "http_env \<Rightarrow> http_response \<Rightarrow> (thrown + string) \<times> http_response" where
  "text_of en hr =
     (if hr_notModified hr then (Inl no_body, hr)
      else case hr_text hr of
             Some s \<Rightarrow> (Inr s, hr)
           | None \<Rightarrow>
               (case raw_bytes (hr_raw hr) of
                  Inl e \<Rightarrow> (Inl e, hr)
                | Inr bytes \<Rightarrow> (Inr (hv_decode en bytes), hr\<lparr>hr_text := Some (hv_decode en bytes)\<rparr>)))"

definition json_of :: "http_env \<Rightarrow> http_response \<Rightarrow> (thrown + jsval) \<times> http_response" where
  "json_of en hr = (case text_of en hr of (Inl e, hr') \<Rightarrow> (Inl e, hr') | (Inr s, hr') \<Rightarrow> (parse_js s, hr'))"

definition arrayBuffer_of :: "(string \<Rightarrow> u8 list) \<Rightarrow> http_response \<Rightarrow> thrown + u8 list" where
  "arrayBuffer_of encode hr =
     (if hr_notModified hr then Inl no_body
      else case hr_text hr of Some s \<Rightarrow> Inr (encode s) | None \<Rightarrow> raw_bytes (hr_raw hr))"

definition warn_entry :: "string \<Rightarrow> string \<Rightarrow> thrown \<Rightarrow> log_entry" where
  "warn_entry msg url err = \<lparr>lg_level = LogWarn, lg_message = msg, lg_url = url, lg_status = None, lg_headers = [],
     lg_error = Some (serializeError err 0)\<rparr>"

definition storeValidators :: "http_env \<Rightarrow> string \<Rightarrow> response \<Rightarrow> string \<Rightarrow> unit hio" where
  "storeValidators en urlHash raw url =
     (let etag = hdr_get (rs_headers raw) ''etag''; lastModified = hdr_get (rs_headers raw) ''last-modified''
      in if etag = None \<and> lastModified = None then retE ()
         else catchE
           (bindE (nowH en) (\<lambda>now.
            bindE tickH (\<lambda>n.
            bindE (failing (hv_setFails en n)) (\<lambda>_.
            modifyE (\<lambda>w. w\<lparr>hw_validators := AList.update urlHash \<lparr>va_etag = etag, va_lastModified = lastModified, va_storedAt = now\<rparr> (hw_validators w)\<rparr>)))))
           (\<lambda>err. logH (warn_entry ''watukuy: failed to store validators'' url err)))"

definition add_conditional :: "string \<Rightarrow> string option \<Rightarrow> headers \<Rightarrow> thrown + headers" where
  "add_conditional name value h =
     (case value of
        None \<Rightarrow> Inr h
      | Some v \<Rightarrow> if v = [] \<or> hdr_get h name \<noteq> None then Inr h else hdr_set name v h)"

definition loadValidators :: "http_env \<Rightarrow> string \<Rightarrow> string \<Rightarrow> headers \<Rightarrow> headers hio" where
  \<comment> \<open>the \<^verbatim>\<open>try\<close> block around \<^verbatim>\<open>validators.get\<close>: what was set before something throws stays set\<close>
  "loadValidators en urlHash url h =
     (let warn = (\<lambda>err h'. bindE (logH (warn_entry ''watukuy: failed to load validators'' url err)) (\<lambda>_. retE h'))
      in bindE tickH (\<lambda>n.
         case hv_getFails en n of
           Some err \<Rightarrow> warn err h
         | None \<Rightarrow>
             bindE (getsE (\<lambda>w. map_of (hw_validators w) urlHash)) (\<lambda>stored.
             case add_conditional ''if-none-match'' (Option.bind stored va_etag) h of
               Inl err \<Rightarrow> warn err h
             | Inr h1 \<Rightarrow>
                 (case add_conditional ''if-modified-since'' (Option.bind stored va_lastModified) h1 of
                    Inl err \<Rightarrow> warn err h1
                  | Inr h2 \<Rightarrow> retE h2))))"

definition with_default :: "string \<Rightarrow> string \<Rightarrow> headers \<Rightarrow> thrown + headers" where
  "with_default name v h = (if hdr_get h name = None then hdr_set name v h else Inr h)"

text \<open>What a request has established before it goes out.\<close>

record prepared =
  pr_method :: string
  pr_url :: string
  pr_timeoutMs :: "jsnum option"
  pr_headers :: headers
  pr_urlHash :: "string option" \<comment> \<open>present when validators are used\<close>

definition request_headers :: "http_deps \<Rightarrow> http_options \<Rightarrow> thrown + headers" where
  "request_headers d opts =
     (case new_headers (opt_or (ro_headers opts) []) [] of
        Inl e \<Rightarrow> Inl e
      | Inr h \<Rightarrow>
          (case with_default ''user-agent'' (opt_or (hd_userAgent d) DEFAULT_USER_AGENT) h of
             Inl e \<Rightarrow> Inl e
           | Inr h' \<Rightarrow> with_default ''accept'' ''application/json'' h'))"

definition prepare :: "http_env \<Rightarrow> http_deps \<Rightarrow> string \<Rightarrow> http_options \<Rightarrow> prepared hio" where
  "prepare en d url opts =
     (let method = toUpperCase (opt_or (ro_method opts) ''GET'');
          cost = opt_or (ro_cost opts) (hd_defaultCost d);
          useValidators = opt_or (ro_validators opts) (method = ''GET'' \<or> method = ''HEAD'')
      in
      bindE (liftH (buildRequestUrl en url (ro_query opts))) (\<lambda>finalUrl.
      bindE (case ro_timeout opts of
               Some t \<Rightarrow> bindE (liftH (timeout_num t)) (\<lambda>ms. retE (Some ms))
             | None \<Rightarrow> retE (hd_defaultTimeoutMs d)) (\<lambda>timeoutMs.
      bindE (throwIfAborted (hd_signal d)) (\<lambda>_.
      bindE (throwIfAborted (ro_signal opts)) (\<lambda>_.
      bindE (whenE (0 < cost \<and> hd_charge d)
               (bindE tickH (\<lambda>n. bindE (failing (hv_charge en n cost)) (\<lambda>_.
                modifyE (\<lambda>w. w\<lparr>hw_charged := hw_charged w @ [cost]\<rparr>))))) (\<lambda>_.
      bindE (liftH (request_headers d opts)) (\<lambda>headers.
      if useValidators \<and> hd_validators d then
        let urlHash = hashUrl (hv_sha en) finalUrl
        in bindE (loadValidators en urlHash finalUrl headers) (\<lambda>headers'.
           retE \<lparr>pr_method = method, pr_url = finalUrl, pr_timeoutMs = timeoutMs, pr_headers = headers', pr_urlHash = Some urlHash\<rparr>)
      else retE \<lparr>pr_method = method, pr_url = finalUrl, pr_timeoutMs = timeoutMs, pr_headers = headers, pr_urlHash = None\<rparr>)))))))"

definition debug_entry :: "prepared \<Rightarrow> http_deps \<Rightarrow> string \<Rightarrow> int option \<Rightarrow> serialized_error option \<Rightarrow> log_entry" where
  "debug_entry p d msg status err =
     \<lparr>lg_level = LogDebug, lg_message = msg, lg_url = pr_url p, lg_status = status,
      lg_headers = redactHeaders (pr_headers p) (hd_redactHeaders d), lg_error = err\<rparr>"

definition call_fetch :: "http_env \<Rightarrow> http_request \<Rightarrow> response hio" where
  \<comment> \<open>signals move on while the request is under way\<close>
  "call_fetch en rq =
     bindE tickH (\<lambda>n.
     bindE (modifyE (\<lambda>w. w\<lparr>hw_fetched := hw_fetched w @ [rq], hw_signals := last (sig_states (hv_events en n) (hw_signals w))\<rparr>)) (\<lambda>_.
     liftH (hv_fetch en n rq)))"

definition conclude :: "http_env \<Rightarrow> http_deps \<Rightarrow> http_options \<Rightarrow> prepared \<Rightarrow> rate_limit_info option \<Rightarrow> response \<Rightarrow> http_response hio" where
  \<comment> \<open>what follows the debug line of a response\<close>
  "conclude en d opts p rateInfo raw =
     (if rs_status raw = 304 then retE (createHttpResponse raw (pr_url p) rateInfo True None)
      else if rs_ok raw then
        bindE (case pr_urlHash p of None \<Rightarrow> retE () | Some h \<Rightarrow> storeValidators en h raw (pr_url p)) (\<lambda>_.
        retE (createHttpResponse raw (pr_url p) rateInfo False None))
      else
        let bodyText = readBodyText en raw MAX_ERROR_BODY_BYTES;
            problem = parseProblemDetails (hdr_get (rs_headers raw) ''content-type'') bodyText
        in bindE (nowH en) (\<lambda>now.
           let retryAfterMs = parseRetryAfter (hv_dateParse en) (hdr_get (rs_headers raw) ''retry-after'') now
           in if ro_throwOnError opts \<noteq> Some False then
                throwE (httpError \<lparr>he_status = rs_status raw, he_url = pr_url p, he_method = pr_method p, he_retryAfterMs = retryAfterMs,
                  he_rateLimit = rateInfo, he_problem = problem, he_bodyText = bodyText\<rparr>)
              else retE (createHttpResponse raw (pr_url p) rateInfo False bodyText)))"

definition exchange :: "http_env \<Rightarrow> http_deps \<Rightarrow> http_options \<Rightarrow> prepared \<Rightarrow> nat option \<Rightarrow> http_response hio" where
  "exchange en d opts p sig =
     bindE (catchE (call_fetch en \<lparr>rq_url = pr_url p, rq_method = pr_method p, rq_headers = pr_headers p, rq_body = ro_body opts, rq_signal = sig\<rparr>)
       (\<lambda>err. bindE (nowH en) (\<lambda>_. bindE (logH (debug_entry p d ''watukuy: http request failed'' None (Some (serializeError err 0)))) (\<lambda>_. throwE err)))) (\<lambda>raw.
     bindE (nowH en) (\<lambda>receivedAt.
     let rateInfo = parseRateLimitHeaders (rs_headers raw) receivedAt
     in bindE (whenE (hd_onRateLimit d) (modifyE (\<lambda>w. w\<lparr>hw_rateLimits := hw_rateLimits w @ (case rateInfo of None \<Rightarrow> [] | Some i \<Rightarrow> [i])\<rparr>))) (\<lambda>_.
        bindE (logH (debug_entry p d ''watukuy: http response'' (Some (rs_status raw)) None)) (\<lambda>_.
        conclude en d opts p rateInfo raw))))"

definition compose_for :: "http_env \<Rightarrow> http_deps \<Rightarrow> http_options \<Rightarrow> jsnum option \<Rightarrow> composed_signal option hio" where
  "compose_for en d opts timeoutMs =
     (\<lambda>w. case composeAbortSignal (hv_useAny en) [hd_signal d, ro_signal opts] timeoutMs (hw_signals w) of
        (cs, sg) \<Rightarrow> (Inr cs, w\<lparr>hw_signals := sg\<rparr>))"

definition dispose_composed :: "composed_signal option \<Rightarrow> http_world \<Rightarrow> http_world" where
  "dispose_composed cs w = (case cs of None \<Rightarrow> w | Some c \<Rightarrow> w\<lparr>hw_signals := snd (dispose c (hw_signals w))\<rparr>)"

definition request :: "http_env \<Rightarrow> http_deps \<Rightarrow> string \<Rightarrow> http_options \<Rightarrow> http_response hio" where
  "request en d url opts =
     bindE (prepare en d url opts) (\<lambda>p.
     bindE (compose_for en d opts (pr_timeoutMs p)) (\<lambda>cs.
     bindE (nowH en) (\<lambda>startedAt.
     finallyE (exchange en d opts p (map_option cs_signal cs)) (dispose_composed cs))))"

definition http_get :: "http_env \<Rightarrow> http_deps \<Rightarrow> string \<Rightarrow> http_options \<Rightarrow> http_response hio" where
  "http_get en d url opts = request en d url (opts\<lparr>ro_method := Some ''GET''\<rparr>)"

section \<open>Bodies of errors\<close>

lemma concat_bytes_loop_spec:
  "length out = len \<Longrightarrow> offset \<le> len \<Longrightarrow> concat_bytes_loop chunks len offset out
     = take offset out @ take (len - offset) (concat chunks) @ drop (offset + length (concat chunks)) out"
proof (induction chunks arbitrary: offset out)
  case (Cons chunk chunks)
  show ?case
  proof (cases "len \<le> offset")
    case False
    let ?slice = "take (min (length chunk) (len - offset)) chunk"
    let ?out = "take offset out @ ?slice @ drop (offset + length ?slice) out"
    have "concat_bytes_loop chunks len (offset + length ?slice) ?out
        = take (offset + length ?slice) ?out @ take (len - (offset + length ?slice)) (concat chunks)
          @ drop (offset + length ?slice + length (concat chunks)) ?out"
      using Cons.prems False by (intro Cons.IH) auto
    then show ?thesis using False Cons.prems by (simp add: Let_def min_def add.commute add.left_commute split: if_splits)
  qed (use Cons.prems in auto)
qed simp

lemma concatBytes_take: "len \<le> length (concat chunks) \<Longrightarrow> concatBytes chunks len = take len (concat chunks)"
  by (simp add: concatBytes_def concat_bytes_loop_spec del: concat_bytes_loop.simps)

declare read_loop.simps [simp del]

lemma read_loop_prefix:
  "read_loop maxBytes stream err chunks got = Inr (cs, n) \<Longrightarrow> got = length (concat chunks)
    \<Longrightarrow> n = length (concat cs) \<and> (\<exists>rest. chunks @ stream = cs @ rest \<and> (rest = [] \<and> err = None \<or> maxBytes \<le> n))"
proof (induction maxBytes stream err chunks got rule: read_loop.induct)
  case (1 maxBytes stream err chunks got)
  show ?case
  proof (cases "maxBytes \<le> got")
    case True
    with 1 show ?thesis by (subst (asm) read_loop.simps) auto
  next
    case False
    with 1 show ?thesis
      by (subst (asm) (2) read_loop.simps) (cases stream; fastforce split: option.splits)
  qed
qed

lemma read_loop_fails:
  "read_loop maxBytes stream err chunks got = Inl e \<longleftrightarrow> err = Some e \<and> got + length (concat stream) < maxBytes"
proof (induction maxBytes stream err chunks got rule: read_loop.induct)
  case (1 maxBytes stream err chunks got)
  then show ?case by (subst read_loop.simps) (cases stream; auto split: option.splits)
qed

text \<open>The body of an error response is kept up to the cap and no further, however the stream is cut into chunks: the
  text is that of the first bytes, and it is missing exactly when the stream breaks off before the cap.\<close>

lemma error_body_is_capped:
  "readBodyText en res cap =
     (case rs_body res of
        None \<Rightarrow> Some []
      | Some b \<Rightarrow> if bd_error b \<noteq> None \<and> length (concat (bd_chunks b)) < cap then None
                   else Some (hv_decode en (take cap (concat (bd_chunks b)))))"
proof (cases "rs_body res")
  case (Some b)
  show ?thesis
  proof (cases "read_loop cap (bd_chunks b) (bd_error b) [] 0")
    case (Inl e)
    with read_loop_fails [of cap "bd_chunks b" "bd_error b" "[]" 0 e] Some show ?thesis by (simp add: readBodyText_def)
  next
    case (Inr cn)
    obtain cs n where cn: "cn = (cs, n)" by (cases cn)
    obtain rest where p: "n = length (concat cs)" "bd_chunks b = cs @ rest" "rest = [] \<and> bd_error b = None \<or> cap \<le> n"
      using read_loop_prefix [of cap "bd_chunks b" "bd_error b" "[]" 0 cs n] Inr cn by auto
    have "\<not> (bd_error b \<noteq> None \<and> length (concat (bd_chunks b)) < cap)" using p by auto
    moreover have "concatBytes cs (min n cap) = take cap (concat (bd_chunks b))" using p by (auto simp: concatBytes_take min_def)
    ultimately show ?thesis using Some Inr cn by (simp add: readBodyText_def)
  qed
qed (simp add: readBodyText_def)

section \<open>What a request leaves alone\<close>

definition unsent :: "http_world \<Rightarrow> http_world \<Rightarrow> bool" where
  "unsent w w' \<longleftrightarrow> hw_fetched w' = hw_fetched w"

definition same_validators :: "http_world \<Rightarrow> http_world \<Rightarrow> bool" where
  "same_validators w w' \<longleftrightarrow> hw_validators w' = hw_validators w"

definition masked :: "string list option \<Rightarrow> log_entry \<Rightarrow> bool" where
  "masked extra l \<longleftrightarrow> (\<forall>(name, v) \<in> set (lg_headers l). toLowerCase name \<in> set (blocked_names extra) \<longrightarrow> v = REDACTED_VALUE)"

definition logs_masked :: "string list option \<Rightarrow> http_world \<Rightarrow> http_world \<Rightarrow> bool" where
  "logs_masked extra w w' \<longleftrightarrow> (\<exists>ls. hw_log w' = hw_log w @ ls \<and> (\<forall>l \<in> set ls. masked extra l))"

definition same_signals :: "http_world \<Rightarrow> http_world \<Rightarrow> bool" where
  "same_signals w w' \<longleftrightarrow> hw_signals w' = hw_signals w"

text \<open>The primitive steps, under each of these relations.\<close>

locale http_frame = frame_rel R for R :: "http_world \<Rightarrow> http_world \<Rightarrow> bool" +
  assumes frame_tick: "R w (w\<lparr>hw_tick := n\<rparr>)"
    and frame_charged: "R w (w\<lparr>hw_charged := cs\<rparr>)"
    and frame_rates: "R w (w\<lparr>hw_rateLimits := rs\<rparr>)"
    and frame_warn: "R w (w\<lparr>hw_log := hw_log w @ [warn_entry m u e]\<rparr>)"
begin

lemma kept_lift: "preserves R (liftH r)"
  by (cases r) (simp_all add: liftH_def pres_ret pres_throw)

lemma kept_tick: "preserves R tickH"
  by (simp add: preserves_def tickH_def frame_tick)

lemma kept_now: "preserves R (nowH en)"
  unfolding nowH_def by (intro pres_rules kept_tick)

lemma pres_failing: "preserves R (failing f)"
  by (cases f) (simp_all add: failing_def pres_ret pres_throw)

lemma kept_aborted: "preserves R (throwIfAborted s)"
  unfolding throwIfAborted_def by (intro pres_rules pres_failing)

lemma pres_load: "preserves R (loadValidators en h url hs)"
  unfolding loadValidators_def Let_def logH_def
  by (intro pres_rules kept_tick pres_modify frame_warn)

lemma pres_prepare: "preserves R (prepare en d url opts)"
  unfolding prepare_def Let_def
  by (intro pres_rules kept_lift kept_aborted kept_tick pres_failing pres_load pres_modify frame_charged)

lemma kept_finally: "preserves R m \<Longrightarrow> (\<And>w. R w (f w)) \<Longrightarrow> preserves R (finallyE m f)"
  unfolding preserves_def finallyE_def by (auto split: prod.splits) (metis frame_trans snd_conv)

end

text \<open>Relations that do not look at the signals.\<close>

locale http_frame_signals = http_frame +
  assumes frame_signals: "R w (w\<lparr>hw_signals := sg\<rparr>)"
begin

lemma pres_compose: "preserves R (compose_for en d opts ms)"
  by (auto simp: preserves_def compose_for_def frame_signals split: prod.splits)

lemma frame_dispose: "R w (dispose_composed cs w)"
  by (cases cs) (simp_all add: dispose_composed_def frame_refl frame_signals)

end

lemma masked_warn: "masked extra (warn_entry m u e)"
  by (simp add: masked_def warn_entry_def)

lemma masked_debug: "masked (hd_redactHeaders d) (debug_entry p d m st e)"
  by (auto simp: masked_def debug_entry_def dest: redacted)

interpretation uns: http_frame_signals unsent
  by unfold_locales (auto simp: unsent_def)

interpretation sv: http_frame_signals same_validators
  by unfold_locales (auto simp: same_validators_def)

interpretation lm: http_frame_signals "logs_masked extra" for extra
  by unfold_locales (fastforce simp: logs_masked_def masked_warn)+

interpretation sg: http_frame same_signals
  by unfold_locales (auto simp: same_signals_def)

section \<open>Nothing secret is logged\<close>

lemma lm_debug: "preserves (logs_masked (hd_redactHeaders d)) (logH (debug_entry p d m st e))"
  unfolding logH_def by (rule lm.pres_modify) (auto simp: logs_masked_def masked_debug)

lemma lm_fetch: "preserves (logs_masked extra) (call_fetch en rq)"
  unfolding call_fetch_def by (intro lm.pres_rules lm.kept_tick lm.kept_lift lm.pres_modify) (auto simp: logs_masked_def)

lemma lm_store: "preserves (logs_masked extra) (storeValidators en h raw url)"
  unfolding storeValidators_def Let_def logH_def
  by (intro lm.pres_rules lm.kept_now lm.kept_tick lm.pres_failing lm.pres_modify) (auto simp: logs_masked_def masked_warn)

lemma lm_conclude: "preserves (logs_masked extra) (conclude en d opts p ri raw)"
  unfolding conclude_def Let_def by (intro lm.pres_rules lm_store lm.kept_now)

lemma lm_exchange: "preserves (logs_masked (hd_redactHeaders d)) (exchange en d opts p sig)"
  unfolding exchange_def Let_def
  by (intro lm.pres_rules lm_fetch lm.kept_now lm_debug lm_conclude lm.pres_modify lm.frame_rates)

text \<open>C26: No request writes a secret to the log: whatever the headers, the options and the answers of the server, every line
  that a request logs shows the value of a sensitive header, in whatever case its name is written, as three
  asterisks.\<close>

theorem logs_hide_secrets:
  assumes "request en d url opts w = (r, w')"
    and "toLowerCase name \<in> set (blocked_names (hd_redactHeaders d))"
  shows "\<exists>ls. hw_log w' = hw_log w @ ls \<and> (\<forall>l \<in> set ls. \<forall>v. (name, v) \<in> set (lg_headers l) \<longrightarrow> v = ''***'')"
proof -
  have "preserves (logs_masked (hd_redactHeaders d)) (request en d url opts)"
    unfolding request_def
    by (intro lm.pres_rules lm.pres_prepare lm.pres_compose lm.kept_now lm.kept_finally lm_exchange lm.frame_dispose)
  then have "logs_masked (hd_redactHeaders d) w w'" using assms(1) by (rule preservesD)
  then show ?thesis using assms(2) by (fastforce simp: logs_masked_def masked_def REDACTED_VALUE_def)
qed

section \<open>What a request does\<close>

lemma uns_store: "preserves unsent (storeValidators en h raw url)"
  unfolding storeValidators_def Let_def logH_def
  by (intro uns.pres_rules uns.kept_now uns.kept_tick uns.pres_failing uns.pres_modify) (auto simp: unsent_def)

lemma uns_conclude: "preserves unsent (conclude en d opts p ri raw)"
  unfolding conclude_def Let_def by (intro uns.pres_rules uns_store uns.kept_now)

lemma prepare_result:
  assumes "prepare en d url opts w = (Inr p, w1)"
  shows "buildRequestUrl en url (ro_query opts) = Inr (pr_url p)" "pr_method p = toUpperCase (opt_or (ro_method opts) ''GET'')"
    "pr_urlHash p \<in> {None, Some (hashUrl (hv_sha en) (pr_url p))}"
proof -
  have "yields (\<lambda>p. buildRequestUrl en url (ro_query opts) = Inr (pr_url p) \<and> pr_method p = toUpperCase (opt_or (ro_method opts) ''GET'')
      \<and> pr_urlHash p \<in> {None, Some (hashUrl (hv_sha en) (pr_url p))}) (prepare en d url opts)"
    unfolding prepare_def Let_def
    by (cases "buildRequestUrl en url (ro_query opts)") (auto simp: liftH_def intro!: yields_rules)
  from yieldsD [OF this assms] show "buildRequestUrl en url (ro_query opts) = Inr (pr_url p)"
    "pr_method p = toUpperCase (opt_or (ro_method opts) ''GET'')" "pr_urlHash p \<in> {None, Some (hashUrl (hv_sha en) (pr_url p))}" by auto
qed

definition sent_request :: "http_options \<Rightarrow> prepared \<Rightarrow> nat option \<Rightarrow> http_request" where
  "sent_request opts p sig = \<lparr>rq_url = pr_url p, rq_method = pr_method p, rq_headers = pr_headers p, rq_body = ro_body opts, rq_signal = sig\<rparr>"

lemma http_steps:
  "nowH en w = (Inr (hv_now en (hw_tick w)), w\<lparr>hw_tick := Suc (hw_tick w)\<rparr>)"
  "logH l w = (Inr (), w\<lparr>hw_log := hw_log w @ [l]\<rparr>)"
  "call_fetch en rq w = (hv_fetch en (hw_tick w) rq, w\<lparr>hw_tick := Suc (hw_tick w), hw_fetched := hw_fetched w @ [rq],
     hw_signals := last (sig_states (hv_events en (hw_tick w)) (hw_signals w))\<rparr>)"
  by (auto simp: nowH_def logH_def call_fetch_def bindE_def tickH_def retE_def modifyE_def liftH_def throwE_def split: sum.splits)

lemma exchange_cases:
  assumes "exchange en d opts p sig w = (r, w')"
  obtains (network) e where "hv_fetch en (hw_tick w) (sent_request opts p sig) = Inl e" "r = Inl e"
      "hw_fetched w' = hw_fetched w @ [sent_request opts p sig]" "hw_validators w' = hw_validators w"
  | (answer) raw ri w2 where "hv_fetch en (hw_tick w) (sent_request opts p sig) = Inr raw" "conclude en d opts p ri raw w2 = (r, w')"
      "hw_fetched w2 = hw_fetched w @ [sent_request opts p sig]" "hw_validators w2 = hw_validators w"
proof (cases "hv_fetch en (hw_tick w) (sent_request opts p sig)")
  case (Inl e)
  then have "r = Inl e" "hw_fetched w' = hw_fetched w @ [sent_request opts p sig]" "hw_validators w' = hw_validators w"
    using assms by (auto simp: exchange_def bindE_def catchE_def throwE_def http_steps sent_request_def [symmetric])
  with network Inl show ?thesis by blast
next
  case (Inr raw)
  let ?w1 = "w\<lparr>hw_fetched := hw_fetched w @ [sent_request opts p sig],
     hw_signals := last (sig_states (hv_events en (hw_tick w)) (hw_signals w)), hw_tick := Suc (Suc (hw_tick w))\<rparr>"
  let ?ri = "parseRateLimitHeaders (rs_headers raw) (hv_now en (Suc (hw_tick w)))"
  let ?w2 = "if hd_onRateLimit d then ?w1\<lparr>hw_rateLimits := hw_rateLimits w @ (case ?ri of None \<Rightarrow> [] | Some i \<Rightarrow> [i])\<rparr> else ?w1"
  let ?w3 = "?w2\<lparr>hw_log := hw_log w @ [debug_entry p d ''watukuy: http response'' (Some (rs_status raw)) None]\<rparr>"
  have "exchange en d opts p sig w = conclude en d opts p ?ri raw ?w3"
    by (simp add: exchange_def bindE_def catchE_def http_steps sent_request_def [symmetric] Inr whenE_def modifyE_def retE_def Let_def)
  then show ?thesis using assms by (intro answer [OF Inr, of ?ri ?w3]) auto
qed

lemma request_cases:
  assumes "request en d url opts w = (r, w')"
  obtains (early) e where "prepare en d url opts w = (Inl e, w')" "r = Inl e" "hw_fetched w' = hw_fetched w" "hw_validators w' = hw_validators w"
  | (sent) p sig w2 w3 where "prepare en d url opts w = (Inr p, w2)"
      "hw_fetched w3 = hw_fetched w" "hw_validators w3 = hw_validators w"
      "\<exists>w4. exchange en d opts p sig w3 = (r, w4) \<and> hw_fetched w' = hw_fetched w4 \<and> hw_validators w' = hw_validators w4"
proof (cases "prepare en d url opts w")
  case (Pair pr w2)
  have frame: "hw_fetched w2 = hw_fetched w" "hw_validators w2 = hw_validators w"
    using preservesD [OF uns.pres_prepare Pair] preservesD [OF sv.pres_prepare Pair] by (auto simp: unsent_def same_validators_def)
  show ?thesis
  proof (cases pr)
    case (Inl e)
    then have "r = Inl e" "w' = w2" using assms Pair by (auto simp: request_def bindE_def)
    with early frame Pair Inl show ?thesis by blast
  next
    case (Inr p)
    obtain cs w3 where c: "compose_for en d opts (pr_timeoutMs p) w2 = (Inr cs, w3)"
      unfolding compose_for_def by (metis (no_types, lifting) case_prod_beta')
    let ?w3 = "snd (nowH en w3)"
    have w3: "hw_fetched ?w3 = hw_fetched w" "hw_validators ?w3 = hw_validators w"
      using preservesD [OF uns.pres_compose c] preservesD [OF sv.pres_compose c] frame
      by (auto simp: unsent_def same_validators_def nowH_def bindE_def tickH_def retE_def)
    obtain r4 w4 where x: "exchange en d opts p (map_option cs_signal cs) ?w3 = (r4, w4)" by fastforce
    have "r = r4" "w' = dispose_composed cs w4" using assms Pair Inr c x
      by (auto simp: request_def bindE_def nowH_def tickH_def retE_def finallyE_def)
    moreover have "hw_fetched (dispose_composed cs w4) = hw_fetched w4" "hw_validators (dispose_composed cs w4) = hw_validators w4"
      by (auto simp: dispose_composed_def split: option.splits)
    ultimately show ?thesis using sent [OF _ w3] Pair Inr x by blast
  qed
qed

text \<open>What the caller gets for a response: the response itself for a success, for 304 and when errors are not to be
  thrown, otherwise an HTTP error that names the request.\<close>

definition answered :: "http_options \<Rightarrow> http_request \<Rightarrow> response \<Rightarrow> thrown + http_response \<Rightarrow> bool" where
  "answered opts rq raw r =
     (if rs_status raw = 304 \<or> rs_ok raw \<or> ro_throwOnError opts = Some False
      then (case r of
              Inl e \<Rightarrow> False
            | Inr hr \<Rightarrow> hr_status hr = rs_status raw \<and> hr_url hr = rq_url rq \<and> hr_raw hr = raw
                \<and> (hr_notModified hr \<longleftrightarrow> rs_status raw = 304) \<and> (hr_ok hr \<longleftrightarrow> rs_ok raw \<or> rs_status raw = 304))
      else (case r of
              Inr hr \<Rightarrow> False
            | Inl e \<Rightarrow>
                (case as_HttpError e of
                   None \<Rightarrow> False
                 | Some h \<Rightarrow> he_status h = rs_status raw \<and> he_url h = rq_url rq \<and> he_method h = rq_method rq)))"

lemma store_validators:
  assumes "storeValidators en h raw url w = (r, w')"
  shows "r = Inr ()" "hw_validators w' = hw_validators w
    \<or> (\<exists>va. va_etag va = hdr_get (rs_headers raw) ''etag'' \<and> va_lastModified va = hdr_get (rs_headers raw) ''last-modified''
          \<and> hw_validators w' = AList.update h va (hw_validators w))"
  using assms
  by (auto simp: storeValidators_def Let_def bindE_def catchE_def http_steps tickH_def failing_def retE_def throwE_def modifyE_def
      split: if_splits option.splits intro!: exI [of _ "\<lparr>va_etag = _, va_lastModified = _, va_storedAt = _\<rparr>"])

lemma httpError_fields: "as_HttpError (httpError h) = Some h"
  by (simp add: httpError_def Let_def)

lemma conclude_answers:
  assumes "conclude en d opts p ri raw w = (r, w')"
  shows "answered opts (sent_request opts p sig) raw r"
proof (cases "rs_ok raw \<and> rs_status raw \<noteq> 304")
  case True
  obtain u w1 where s: "(case pr_urlHash p of None \<Rightarrow> retE () | Some h \<Rightarrow> storeValidators en h raw (pr_url p)) w = (Inr u, w1)"
    using store_validators(1) by (cases "pr_urlHash p") (auto simp: retE_def, metis surj_pair)
  with True assms show ?thesis
    by (auto simp: conclude_def bindE_def retE_def answered_def createHttpResponse_def sent_request_def)
next
  case False
  with assms show ?thesis
    by (auto simp: conclude_def bindE_def http_steps retE_def throwE_def answered_def createHttpResponse_def sent_request_def Let_def
        httpError_fields split: if_splits)
qed

lemma conclude_validators:
  assumes "conclude en d opts p ri raw w = (r, w')" "pr_urlHash p \<in> {None, Some h}"
  shows "hw_validators w' = hw_validators w
    \<or> rs_ok raw \<and> (\<exists>va. va_etag va = hdr_get (rs_headers raw) ''etag'' \<and> va_lastModified va = hdr_get (rs_headers raw) ''last-modified''
          \<and> hw_validators w' = AList.update h va (hw_validators w))"
proof (cases "rs_ok raw \<and> rs_status raw \<noteq> 304 \<and> pr_urlHash p = Some h")
  case True
  obtain q w1 where s: "storeValidators en h raw (pr_url p) w = (q, w1)" by fastforce
  with True assms store_validators [OF s] show ?thesis
    by (auto simp: conclude_def bindE_def retE_def)
next
  case False
  with assms show ?thesis
    by (auto simp: conclude_def bindE_def http_steps retE_def throwE_def Let_def split: if_splits)
qed

text \<open>C25: One call of the helper sends at most one request, to the URL with the query it was given, and never sends again:
  without a request it fails; a failure of the network is passed on; a success or a 304 is returned and any other
  answer is thrown as an error that names the request, unless the caller asked for it. Only a success changes the
  stored validators, and only those of the requested URL, to what the response said.\<close>

theorem request_outcome:
  assumes "request en d url opts w = (r, w')"
  shows "hw_fetched w' = hw_fetched w \<and> hw_validators w' = hw_validators w \<and> (\<exists>e. r = Inl e)
    \<or> (\<exists>rq n. hw_fetched w' = hw_fetched w @ [rq] \<and> buildRequestUrl en url (ro_query opts) = Inr (rq_url rq)
        \<and> (case hv_fetch en n rq of
             Inl e \<Rightarrow> r = Inl e \<and> hw_validators w' = hw_validators w
           | Inr raw \<Rightarrow> answered opts rq raw r
               \<and> (hw_validators w' = hw_validators w
                  \<or> rs_ok raw \<and> (\<exists>va. va_etag va = hdr_get (rs_headers raw) ''etag''
                       \<and> va_lastModified va = hdr_get (rs_headers raw) ''last-modified''
                       \<and> hw_validators w' = AList.update (hashUrl (hv_sha en) (rq_url rq)) va (hw_validators w)))))"
  using assms
proof (cases rule: request_cases)
  case (sent p sig w2 w3)
  let ?rq = "sent_request opts p sig"
  note p = prepare_result [OF sent(1)]
  have url: "rq_url ?rq = pr_url p" by (simp add: sent_request_def)
  from sent(4) obtain w4 where x: "exchange en d opts p sig w3 = (r, w4)" "hw_fetched w' = hw_fetched w4" "hw_validators w' = hw_validators w4"
    by blast
  from x(1) show ?thesis
  proof (cases rule: exchange_cases)
    case (network e)
    then show ?thesis using x sent p(1) url by (intro disjI2 exI [of _ ?rq] exI [of _ "hw_tick w3"]) simp
  next
    case (answer raw ri w5)
    have "hw_fetched w4 = hw_fetched w5" using preservesD [OF uns_conclude answer(2)] by (simp add: unsent_def)
    then show ?thesis
      using answer x sent p(1) url conclude_answers [OF answer(2)] conclude_validators [OF answer(2) p(3)]
      by (intro disjI2 exI [of _ ?rq] exI [of _ "hw_tick w3"]) simp
  qed
qed blast

section \<open>Validators come back\<close>

definition uses_validators :: "http_deps \<Rightarrow> http_options \<Rightarrow> bool" where
  "uses_validators d opts \<longleftrightarrow> hd_validators d
     \<and> opt_or (ro_validators opts) (let m = toUpperCase (opt_or (ro_method opts) ''GET'') in m = ''GET'' \<or> m = ''HEAD'')"

lemma new_headers_fresh:
  "new_headers es h = Inr h' \<Longrightarrow> \<forall>(n, v) \<in> set es. toLowerCase n \<noteq> name \<Longrightarrow> map_of h name = None \<Longrightarrow> map_of h' name = None"
proof (induction es arbitrary: h)
  case (Cons e es)
  obtain n v where e: "e = (n, v)" by (cases e)
  with Cons show ?case by (auto simp: hdr_append_def split: if_splits sum.splits)
qed simp

lemma with_default_other: "with_default n v h = Inr h' \<Longrightarrow> toLowerCase n \<noteq> name \<Longrightarrow> map_of h' name = map_of h name"
  by (auto simp: with_default_def hdr_set_def split: if_splits)

lemma request_headers_fresh:
  assumes "request_headers d opts = Inr h" "\<forall>(n, v) \<in> set (opt_or (ro_headers opts) []). toLowerCase n \<noteq> ''if-none-match''"
  shows "hdr_get h ''if-none-match'' = None"
proof -
  obtain h1 h2 where h: "new_headers (opt_or (ro_headers opts) []) [] = Inr h1"
    "with_default ''user-agent'' (opt_or (hd_userAgent d) DEFAULT_USER_AGENT) h1 = Inr h2" "with_default ''accept'' ''application/json'' h2 = Inr h"
    using assms(1) by (auto simp: request_headers_def split: sum.splits)
  have "map_of h1 ''if-none-match'' = None" by (rule new_headers_fresh [OF h(1) assms(2)]) simp
  moreover have "toLowerCase ''user-agent'' \<noteq> ''if-none-match''" "toLowerCase ''accept'' \<noteq> ''if-none-match''" by code_simp+
  ultimately show ?thesis using with_default_other [OF h(2)] with_default_other [OF h(3)] by (simp add: hdr_get_def)
qed

lemma load_sets_etag:
  assumes "loadValidators en urlHash url h w = (Inr h', w')" "map_of (hw_validators w) urlHash = Some va" "va_etag va = Some e"
    and "e \<noteq> []" "header_ok ''if-none-match'' e" "hdr_get h ''if-none-match'' = None" "\<forall>n. hv_getFails en n = None"
  shows "hdr_get h' ''if-none-match'' = Some (header_value e)"
proof -
  have lower: "toLowerCase ''if-none-match'' = ''if-none-match''" "toLowerCase ''if-modified-since'' \<noteq> ''if-none-match''" by code_simp+
  have a: "add_conditional ''if-none-match'' (Some e) h = Inr (AList.update ''if-none-match'' (header_value e) h)"
    using assms(4-6) lower(1) by (simp add: add_conditional_def hdr_set_def)
  have "map_of h2 ''if-none-match'' = map_of h1 ''if-none-match''" if "add_conditional ''if-modified-since'' v h1 = Inr h2" for v h1 h2
    using that lower(2) by (auto simp: add_conditional_def hdr_set_def split: option.splits if_splits)
  then show ?thesis using assms(1-3,7) a
    by (auto simp: loadValidators_def Let_def bindE_def tickH_def getsE_def http_steps retE_def hdr_get_def split: sum.splits)
qed

lemma prepare_steps:
  assumes "prepare en d url opts w = (Inr p, w')"
  obtains h w1 where "request_headers d opts = Inr h" "hw_validators w1 = hw_validators w"
    "uses_validators d opts \<Longrightarrow> pr_urlHash p = Some (hashUrl (hv_sha en) (pr_url p))
       \<and> loadValidators en (hashUrl (hv_sha en) (pr_url p)) (pr_url p) h w1 = (Inr (pr_headers p), w')"
proof -
  let ?admit = "\<lambda>u t. bindE (throwIfAborted (hd_signal d)) (\<lambda>_. bindE (throwIfAborted (ro_signal opts)) (\<lambda>_.
      whenE (0 < opt_or (ro_cost opts) (hd_defaultCost d) \<and> hd_charge d)
        (bindE tickH (\<lambda>n. bindE (failing (hv_charge en n (opt_or (ro_cost opts) (hd_defaultCost d)))) (\<lambda>_.
           modifyE (\<lambda>w. w\<lparr>hw_charged := hw_charged w @ [opt_or (ro_cost opts) (hd_defaultCost d)]\<rparr>))))))"
  let ?timeout = "case ro_timeout opts of Some t \<Rightarrow> bindE (liftH (timeout_num t)) (\<lambda>ms. retE (Some ms)) | None \<Rightarrow> retE (hd_defaultTimeoutMs d)"
  have pres: "preserves same_validators (liftH r)" "preserves same_validators ?timeout" "preserves same_validators (?admit u t)" for u t and r :: "thrown + 'z"
    by (intro sv.pres_rules sv.kept_lift sv.kept_aborted sv.kept_tick sv.pres_failing sv.pres_modify sv.frame_charged)+
  obtain u w2 t w3 w4 h w5 where s: "liftH (buildRequestUrl en url (ro_query opts)) w = (Inr u, w2)" "?timeout w2 = (Inr t, w3)"
    "?admit u t w3 = (Inr (), w4)" "liftH (request_headers d opts) w4 = (Inr h, w5)"
    "(if uses_validators d opts then
        bindE (loadValidators en (hashUrl (hv_sha en) u) u h) (\<lambda>headers'.
           retE \<lparr>pr_method = toUpperCase (opt_or (ro_method opts) ''GET''), pr_url = u, pr_timeoutMs = t, pr_headers = headers',
             pr_urlHash = Some (hashUrl (hv_sha en) u)\<rparr>)
      else retE \<lparr>pr_method = toUpperCase (opt_or (ro_method opts) ''GET''), pr_url = u, pr_timeoutMs = t, pr_headers = h, pr_urlHash = None\<rparr>) w5
      = (Inr p, w')"
    using assms unfolding prepare_def Let_def uses_validators_def bindE_assoc [symmetric] bindE_Inr by (auto simp: conj_commute)
  have "hw_validators w5 = hw_validators w"
    using preservesD [OF pres(1) s(1)] preservesD [OF pres(2) s(2)] preservesD [OF pres(3) s(3)] preservesD [OF pres(1) s(4)]
    by (simp add: same_validators_def)
  moreover have "request_headers d opts = Inr h" using s(4) by (auto simp: liftH_def retE_def throwE_def split: sum.splits)
  moreover have "pr_urlHash p = Some (hashUrl (hv_sha en) (pr_url p))
      \<and> loadValidators en (hashUrl (hv_sha en) (pr_url p)) (pr_url p) h w5 = (Inr (pr_headers p), w')" if "uses_validators d opts"
    using s(5) that by (auto simp: bindE_Inr retE_def)
  ultimately show ?thesis using that [of h w5] by metis
qed

text \<open>A response that succeeded was stored.\<close>

lemma conclude_stores:
  assumes "conclude en d opts p ri raw w = (Inr hr, w')" "rs_ok raw" "pr_urlHash p = Some h" "\<forall>n. hv_setFails en n = None"
    and "hdr_get (rs_headers raw) ''etag'' = Some e"
  shows "\<exists>va. va_etag va = Some e \<and> map_of (hw_validators w') h = Some va"
proof -
  have "rs_status raw \<noteq> 304" using assms(2) by (simp add: rs_ok_def)
  then show ?thesis using assms
    by (auto simp: conclude_def storeValidators_def Let_def bindE_def catchE_def http_steps tickH_def failing_def retE_def modifyE_def)
qed

lemma answer_stored:
  assumes "request en d url opts w = (Inr hr, w')" "rs_ok (hr_raw hr)" "uses_validators d opts" "\<forall>n. hv_setFails en n = None"
    and "hdr_get (rs_headers (hr_raw hr)) ''etag'' = Some e" "buildRequestUrl en url (ro_query opts) = Inr u"
  shows "\<exists>va. va_etag va = Some e \<and> map_of (hw_validators w') (hashUrl (hv_sha en) u) = Some va"
  using assms(1)
proof (cases rule: request_cases)
  case (sent p sig w2 w3)
  obtain h w1 where hash: "pr_urlHash p = Some (hashUrl (hv_sha en) (pr_url p))" using prepare_steps [OF sent(1)] assms(3) by metis
  have u: "pr_url p = u" using prepare_result(1) [OF sent(1)] assms(6) by simp
  from sent(4) obtain w4 where x: "exchange en d opts p sig w3 = (Inr hr, w4)" "hw_validators w' = hw_validators w4" by blast
  from x(1) show ?thesis
  proof (cases rule: exchange_cases)
    case (answer raw ri w5)
    have "raw = hr_raw hr" using conclude_answers [OF answer(2), of sig] by (auto simp: answered_def split: if_splits option.splits)
    then show ?thesis using conclude_stores [OF answer(2) _ hash assms(4)] assms(2,5) u x(2) by simp
  qed simp
qed simp

text \<open>C27: Conditional requests close the loop: the ETag of a successful response is sent back, as \<^verbatim>\<open>If-None-Match\<close>, by the next
  request for the same URL, when the caller does not set the header and the validator store answers.\<close>

theorem etag_round_trip:
  assumes "request en d url opts w = (Inr hr, w1)" "rs_ok (hr_raw hr)" "hdr_get (rs_headers (hr_raw hr)) ''etag'' = Some e"
    and "e \<noteq> []" "header_ok ''if-none-match'' e" "header_value e = e"
    and "uses_validators d opts" "\<forall>n. hv_setFails en n = None \<and> hv_getFails en n = None"
    and "\<forall>(n, v) \<in> set (opt_or (ro_headers opts) []). toLowerCase n \<noteq> ''if-none-match''"
    and "request en d url opts w1 = (r, w2)"
  shows "hw_fetched w2 = hw_fetched w1
    \<or> (\<exists>rq. hw_fetched w2 = hw_fetched w1 @ [rq] \<and> hdr_get (rq_headers rq) ''if-none-match'' = Some e)"
  using assms(10)
proof (cases rule: request_cases)
  case (sent p sig v2 v3)
  obtain h v1 where h: "request_headers d opts = Inr h" "hw_validators v1 = hw_validators w1"
    "loadValidators en (hashUrl (hv_sha en) (pr_url p)) (pr_url p) h v1 = (Inr (pr_headers p), v2)"
    using prepare_steps [OF sent(1)] assms(7) by metis
  obtain va where va: "va_etag va = Some e" "map_of (hw_validators w1) (hashUrl (hv_sha en) (pr_url p)) = Some va"
    using answer_stored [OF assms(1,2,7) _ assms(3) prepare_result(1) [OF sent(1)]] assms(8) by blast
  have etag: "hdr_get (pr_headers p) ''if-none-match'' = Some e"
    using load_sets_etag [OF h(3) _ va(1) assms(4,5) request_headers_fresh [OF h(1) assms(9)]] va(2) h(2) assms(6,8) by simp
  from sent(4) obtain v4 where x: "exchange en d opts p sig v3 = (r, v4)" "hw_fetched w2 = hw_fetched v4" by blast
  from x(1) have "hw_fetched v4 = hw_fetched v3 @ [sent_request opts p sig]"
    by (cases rule: exchange_cases) (auto simp: unsent_def dest: preservesD [OF uns_conclude])
  then show ?thesis using x(2) sent(2) etag by (auto simp: sent_request_def)
qed simp

section \<open>Nothing is left behind\<close>

definition listeners :: "sig_world \<Rightarrow> (nat \<times> nat) set" where
  "listeners sg = {(s, t). (Listener, s, t) \<in> set (sg_links sg)}"

lemma abort_links [simp]: "sg_links (abort_signal i r w) = sg_links w" "sg_timers (abort_signal i r w) = sg_timers w"
  by (simp_all add: abort_signal_def)

lemma step_links: "sg_links (sig_step e w) = sg_links w"
  by (cases e) (auto simp: fire_def split: option.splits)

lemma states_settle: "sg_links (last (sig_states es w)) = sg_links w \<and> set (sg_timers (last (sig_states es w))) \<subseteq> set (sg_timers w)"
proof (induction es arbitrary: w)
  case (Cons e es)
  then show ?case using Cons.IH [of "sig_step e w"] step_timers [of e w] by (simp only: last_states step_links) blast
qed simp

lemma add_listeners_links: "add_listeners ss c w = (cl, w') \<Longrightarrow> listeners w' \<subseteq> listeners w \<union> {(s, c) | s. s \<in> set cl} \<and> sg_timers w' = sg_timers w"
proof (induction ss arbitrary: w cl)
  case (Cons s ss)
  show ?case
  proof (cases "sg_reason w s")
    case None
    then obtain cl' where "add_listeners ss c (w\<lparr>sg_links := sg_links w @ [(Listener, s, c)]\<rparr>) = (cl', w')" "cl = s # cl'"
      using Cons.prems by (auto split: prod.splits)
    then show ?thesis using Cons.IH [of "w\<lparr>sg_links := sg_links w @ [(Listener, s, c)]\<rparr>" cl'] by (auto simp: listeners_def)
  next
    case (Some r)
    then show ?thesis using Cons.prems by (auto simp: listeners_def)
  qed
qed (auto simp: listeners_def)

lemma compose_adds:
  assumes "composeAbortSignal useAny signals timeoutMs w = (cs, w')"
  shows "(case cs of
      None \<Rightarrow> w' = w
    | Some c \<Rightarrow> \<not> cs_disposed c \<and> listeners w' \<subseteq> listeners w \<union> {(s, cs_signal c) | s. s \<in> set (cs_cleanups c)}
        \<and> (\<forall>t \<in> set (sg_timers w'). t \<in> set (sg_timers w) \<or> cs_timer c = Some (tm_handle t)))"
proof -
  have st: "sg_links w1 = sg_links w \<and> (\<forall>t \<in> set (sg_timers w1). t \<in> set (sg_timers w) \<or> h = Some (tm_handle t))"
    if "start_timeout timeoutMs ss w = (ss', h, w1)" for ss ss' h w1
    using that by (auto simp: start_timeout_def Let_def split: option.splits)
  show ?thesis using assms
    by (auto simp: composeAbortSignal_def Let_def signal_any_def manual_any_def listeners_def split: if_splits prod.splits
        dest!: st add_listeners_links)
qed

lemma exchange_signals:
  assumes "exchange en d opts p sig w = (r, w')"
  shows "hw_signals w' = last (sig_states (hv_events en (hw_tick w)) (hw_signals w))"
proof -
  have conc: "hw_signals w2 = hw_signals w1" if "conclude en d opts p ri raw w1 = (q, w2)" for ri raw w1 q w2
    using that by (auto simp: conclude_def storeValidators_def Let_def bindE_def catchE_def http_steps tickH_def failing_def retE_def
        throwE_def modifyE_def split: if_splits option.splits)
  show ?thesis using assms
    by (auto simp: exchange_def bindE_def catchE_def throwE_def http_steps whenE_def modifyE_def retE_def Let_def
        split: sum.splits if_splits dest!: conc)
qed

text \<open>However a request ends, its timer is cleared and its listeners are detached: no timer and no listener remains that was
  not there before.\<close>

lemma request_leaves_nothing:
  assumes "request en d url opts w = (r, w')"
  shows "set (sg_timers (hw_signals w')) \<subseteq> set (sg_timers (hw_signals w)) \<and> listeners (hw_signals w') \<subseteq> listeners (hw_signals w)"
proof (cases "prepare en d url opts w")
  case (Pair pr w2)
  have w2: "hw_signals w2 = hw_signals w" using preservesD [OF sg.pres_prepare Pair] by (simp add: same_signals_def)
  show ?thesis
  proof (cases pr)
    case (Inl e)
    with assms Pair w2 show ?thesis by (simp add: request_def bindE_def)
  next
    case (Inr p)
    obtain cs sg where c: "composeAbortSignal (hv_useAny en) [hd_signal d, ro_signal opts] (pr_timeoutMs p) (hw_signals w) = (cs, sg)"
      by fastforce
    let ?w3 = "snd (nowH en (w2\<lparr>hw_signals := sg\<rparr>))"
    obtain r4 w4 where x: "exchange en d opts p (map_option cs_signal cs) ?w3 = (r4, w4)" by fastforce
    have w': "w' = dispose_composed cs w4" using assms Pair Inr c x w2
      by (auto simp: request_def bindE_def http_steps finallyE_def compose_for_def)
    have "sg_links (hw_signals w4) = sg_links sg" "set (sg_timers (hw_signals w4)) \<subseteq> set (sg_timers sg)"
      using exchange_signals [OF x] states_settle [of "hv_events en (hw_tick ?w3)" sg] by (auto simp: http_steps)
    with compose_adds [OF c] show ?thesis unfolding w'
      by (cases cs) (auto simp: dispose_composed_def dispose_def listeners_def)
  qed
qed

section \<open>Witnesses\<close>

definition sample_http_env :: http_env where
  "sample_http_env = \<lparr>hv_parse = (\<lambda>s. Some \<lparr>u_base = s, u_search = [], u_params = [], u_hash = []\<rparr>),
     hv_fetch = (\<lambda>n rq. Inr \<lparr>rs_status = 200, rs_headers = [(''etag'', ''v1'')], rs_body = None\<rparr>),
     hv_now = (\<lambda>n. of_nat n), hv_getFails = (\<lambda>_. None), hv_setFails = (\<lambda>_. None), hv_charge = (\<lambda>_ _. None), hv_events = (\<lambda>_. []),
     hv_decode = (\<lambda>_. []), hv_sha = (\<lambda>s. []), hv_dateParse = (\<lambda>_. NaN), hv_useAny = True\<rparr>"

definition sample_http_deps :: http_deps where
  "sample_http_deps = \<lparr>hd_validators = True, hd_charge = False, hd_defaultCost = 1, hd_onRateLimit = True, hd_signal = None,
     hd_redactHeaders = None, hd_defaultTimeoutMs = Some (Dec False 5 1), hd_userAgent = Some ''w''\<rparr>"

definition sample_http_options :: http_options where
  "sample_http_options = \<lparr>ro_method = None, ro_query = Some [(''page'', QOne (QStr ''2''))],
     ro_headers = Some [(''Cookie'', ''secret'')], ro_signal = None, ro_cost = None, ro_validators = None, ro_timeout = None,
     ro_throwOnError = None, ro_body = None\<rparr>"

definition sample_http_world :: http_world where
  "sample_http_world = \<lparr>hw_tick = 0, hw_validators = [], hw_signals = sample_signals, hw_fetched = [], hw_charged = [], hw_rateLimits = [],
     hw_log = []\<rparr>"

definition sample_first :: "(thrown + http_response) \<times> http_world" where
  "sample_first = request sample_http_env sample_http_deps ''http://a/'' sample_http_options sample_http_world"

definition sample_second :: "(thrown + http_response) \<times> http_world" where
  "sample_second = request sample_http_env sample_http_deps ''http://a/'' sample_http_options (snd sample_first)"

lemma sample_pieces:
  "buildRequestUrl sample_http_env ''http://a/'' (ro_query sample_http_options) = Inr ''http://a/?page=2''"
  "isl (request_headers sample_http_deps sample_http_options) = False" "uses_validators sample_http_deps sample_http_options"
  "header_ok ''if-none-match'' ''v1''" "header_value ''v1'' = ''v1''"
  "list_all (\<lambda>(n, v). toLowerCase n \<noteq> ''if-none-match'') (opt_or (ro_headers sample_http_options) [])"
  by code_simp+

lemma sample_fields:
  "\<not> hd_charge sample_http_deps" "hd_signal sample_http_deps = None" "ro_timeout sample_http_options = None" "ro_signal sample_http_options = None"
  "hv_getFails sample_http_env n = None" "hv_setFails sample_http_env n = None"
  "hv_fetch sample_http_env n rq = Inr \<lparr>rs_status = 200, rs_headers = [(''etag'', ''v1'')], rs_body = None\<rparr>"
  by (simp_all add: sample_http_deps_def sample_http_options_def sample_http_env_def)

lemma load_returns: "\<exists>h' w'. loadValidators en h u hs w = (Inr h', w')"
  by (auto simp: loadValidators_def bindE_def tickH_def getsE_def http_steps retE_def Let_def split: option.splits sum.splits)

lemma sample_prepared: "\<exists>p w'. prepare sample_http_env sample_http_deps ''http://a/'' sample_http_options w = (Inr p, w')"
proof -
  obtain hs where hs: "request_headers sample_http_deps sample_http_options = Inr hs" using sample_pieces(2) by (metis sum.collapse(2))
  obtain h' w' where "loadValidators sample_http_env (hashUrl (hv_sha sample_http_env) ''http://a/?page=2'') ''http://a/?page=2'' hs w = (Inr h', w')"
    using load_returns by blast
  then show ?thesis
    by (auto simp: prepare_def sample_pieces(1) hs sample_fields bindE_def liftH_def retE_def throwIfAborted_def getsE_def failing_def
        whenE_def Let_def)
qed

text \<open>In this environment every request is sent and succeeds.\<close>

lemma sample_sends:
  assumes "request sample_http_env sample_http_deps ''http://a/'' sample_http_options w = (r, w')"
  shows "\<exists>hr rq. r = Inr hr \<and> hr_raw hr = \<lparr>rs_status = 200, rs_headers = [(''etag'', ''v1'')], rs_body = None\<rparr>
    \<and> hw_fetched w' = hw_fetched w @ [rq] \<and> rq_url rq = ''http://a/?page=2''"
  using assms
proof (cases rule: request_cases)
  case early
  then show ?thesis using sample_prepared [of w] by simp
next
  case (sent p sig w2 w3)
  have url: "pr_url p = ''http://a/?page=2''" using prepare_result(1) [OF sent(1)] sample_pieces(1) by simp
  from sent(4) obtain w4 where x: "exchange sample_http_env sample_http_deps sample_http_options p sig w3 = (r, w4)" "hw_fetched w' = hw_fetched w4"
    by blast
  from x(1) show ?thesis
  proof (cases rule: exchange_cases)
    case network
    then show ?thesis by (simp add: sample_fields)
  next
    case (answer raw ri w5)
    have raw: "raw = \<lparr>rs_status = 200, rs_headers = [(''etag'', ''v1'')], rs_body = None\<rparr>" using answer(1) by (simp add: sample_fields)
    have "hw_fetched w4 = hw_fetched w5" using preservesD [OF uns_conclude answer(2)] by (simp add: unsent_def)
    then show ?thesis
      using conclude_answers [OF answer(2), of sig] x(2) answer(3) sent(2) url
      by (cases r) (auto simp: raw answered_def rs_ok_def sent_request_def)
  qed
qed

theorem logs_hide_secrets_witness:
  "\<exists>ls. hw_log (snd sample_first) = hw_log sample_http_world @ ls
    \<and> (\<forall>l \<in> set ls. \<forall>v. (''cookie'', v) \<in> set (lg_headers l) \<longrightarrow> v = ''***'')"
proof -
  have "toLowerCase ''cookie'' \<in> set (blocked_names (hd_redactHeaders sample_http_deps))" by code_simp
  moreover have "request sample_http_env sample_http_deps ''http://a/'' sample_http_options sample_http_world = (fst sample_first, snd sample_first)"
    by (simp add: sample_first_def)
  ultimately show ?thesis using logs_hide_secrets by blast
qed

theorem request_outcome_witness:
  "\<exists>rq. hw_fetched (snd sample_first) = [rq] \<and> rq_url rq = ''http://a/?page=2''"
proof -
  have first: "request sample_http_env sample_http_deps ''http://a/'' sample_http_options sample_http_world = (fst sample_first, snd sample_first)"
    by (simp add: sample_first_def)
  moreover obtain hr where "fst sample_first = Inr hr" using sample_sends [OF first] by blast
  moreover have "hw_fetched sample_http_world = []" by (simp add: sample_http_world_def)
  ultimately show ?thesis using request_outcome [OF first] sample_pieces(1) by auto
qed

theorem etag_round_trip_witness:
  "\<exists>rq. hw_fetched (snd sample_second) = hw_fetched (snd sample_first) @ [rq] \<and> hdr_get (rq_headers rq) ''if-none-match'' = Some ''v1''"
proof -
  have runs: "request sample_http_env sample_http_deps ''http://a/'' sample_http_options sample_http_world = (fst sample_first, snd sample_first)"
    "request sample_http_env sample_http_deps ''http://a/'' sample_http_options (snd sample_first) = (fst sample_second, snd sample_second)"
    by (simp_all add: sample_first_def sample_second_def)
  obtain hr where hr: "fst sample_first = Inr hr" "hr_raw hr = \<lparr>rs_status = 200, rs_headers = [(''etag'', ''v1'')], rs_body = None\<rparr>"
    using sample_sends [OF runs(1)] by blast
  have first: "request sample_http_env sample_http_deps ''http://a/'' sample_http_options sample_http_world = (Inr hr, snd sample_first)"
    using runs(1) hr(1) by simp
  have "hw_fetched (snd sample_second) = hw_fetched (snd sample_first)
      \<or> (\<exists>rq. hw_fetched (snd sample_second) = hw_fetched (snd sample_first) @ [rq] \<and> hdr_get (rq_headers rq) ''if-none-match'' = Some ''v1'')"
  proof (rule etag_round_trip [OF first _ _ _ sample_pieces(4,5,3) _ _ runs(2)])
    show "\<forall>(n, v) \<in> set (opt_or (ro_headers sample_http_options) []). toLowerCase n \<noteq> ''if-none-match''"
      using sample_pieces(6) by (simp only: list_all_iff)
  qed (simp_all add: hr rs_ok_def hdr_get_def sample_fields)
  then show ?thesis using sample_sends [OF runs(2)] by auto
qed

end
