(* ===== verification/Webhook.thy ===== *)
theory Webhook
  imports Sinks Base64 Http_Client
begin

text \<open>
  \<^verbatim>\<open>src/sinks/webhook.ts\<close>: outgoing webhooks signed after the Standard Webhooks specification, and the check of a
  signature at the receiver. HMAC-SHA256, the URL check and the decoding of a body stream are the host's and
  are parameters. The horizontal ellipsis that marks a cut text has no code below 256; the single code unit 0x85
  stands for it.
\<close>

definition WEBHOOK_SECRET_PREFIX :: string where
  "WEBHOOK_SECRET_PREFIX = ''whsec_''"

definition DEFAULT_WEBHOOK_TIMEOUT_MS :: jsnum where
  "DEFAULT_WEBHOOK_TIMEOUT_MS = Dec False 1 4"

definition DEFAULT_WEBHOOK_TOLERANCE_SEC :: number where
  "DEFAULT_WEBHOOK_TOLERANCE_SEC = 300"

definition MAX_WEBHOOK_ERROR_BODY_CHARS :: nat where
  "MAX_WEBHOOK_ERROR_BODY_CHARS = 4096"

definition MESSAGE_SNIPPET_CHARS :: nat where
  "MESSAGE_SNIPPET_CHARS = 200"

definition SIGNATURE_VERSION :: string where
  "SIGNATURE_VERSION = ''v1''"

definition ELLIPSIS :: string where
  "ELLIPSIS = [CHR 0x85]"

section \<open>The error of a refused delivery\<close>

fun squeeze_loop :: "bool \<Rightarrow> string \<Rightarrow> string" where
  \<comment> \<open>\<^verbatim>\<open>replace(/\s+/g, ' ')\<close>; the flag says that the previous character was a blank\<close>
  "squeeze_loop prev [] = []"
| "squeeze_loop prev (c # cs) =
     (if re_space c then (if prev then squeeze_loop True cs else CHR '' '' # squeeze_loop True cs) else c # squeeze_loop False cs)"

definition message_snippet :: "string option \<Rightarrow> string" where
  "message_snippet bodyText =
     (case bodyText of
        None \<Rightarrow> []
      | Some b \<Rightarrow>
          let snippet = js_trim (squeeze_loop False b)
          in if snippet = [] then []
             else '': '' @ (if MESSAGE_SNIPPET_CHARS < length snippet then take MESSAGE_SNIPPET_CHARS snippet @ ELLIPSIS else snippet))"

definition webhookDeliveryError :: "int \<Rightarrow> string \<Rightarrow> string option \<Rightarrow> number option \<Rightarrow> thrown" where
  "webhookDeliveryError status url bodyText retryAfterMs =
     (let i = \<lparr>he_status = status, he_url = url, he_method = ''POST'', he_retryAfterMs = retryAfterMs, he_rateLimit = None,
               he_problem = None, he_bodyText = bodyText\<rparr>
      in Thrown (HttpErr i) ''WebhookDeliveryError'' (t_message (httpError i) @ message_snippet bodyText) None None)"

section \<open>Keys and signatures\<close>

text \<open>\<^verbatim>\<open>crypto.subtle\<close>: the MAC and its verification.\<close>

record webhook_crypto =
  wc_hmac :: "u8 list \<Rightarrow> u8 list \<Rightarrow> u8 list"
  wc_verify :: "u8 list \<Rightarrow> u8 list \<Rightarrow> u8 list \<Rightarrow> bool" \<comment> \<open>key, signature, data\<close>

definition decodeWebhookSecret :: "string \<Rightarrow> thrown + u8 list" where
  "decodeWebhookSecret secret =
     (if prefix WEBHOOK_SECRET_PREFIX secret then
        (case base64Decode (drop (length WEBHOOK_SECRET_PREFIX) secret) of
           Inr bytes \<Rightarrow> Inr bytes
         | Inl e \<Rightarrow> Inl (configError (''webhook secret: text after '' @ [CHR 0x27] @ WEBHOOK_SECRET_PREFIX @ [CHR 0x27] @ '' is not valid base64'')))
      else Inr (utf8 secret))"

definition importHmacKey :: "u8 list \<Rightarrow> thrown + u8 list" where
  \<comment> \<open>an empty key is refused\<close>
  "importHmacKey bytes = (if bytes = [] then Inl (plainError ''DataError'' ''Zero-length key is not supported'') else Inr bytes)"

definition signedContent :: "string \<Rightarrow> string \<Rightarrow> string \<Rightarrow> string" where
  "signedContent msgid timestamp body = msgid @ ''.'' @ timestamp @ ''.'' @ body"

definition signWithKey :: "webhook_crypto \<Rightarrow> u8 list \<Rightarrow> string \<Rightarrow> string" where
  "signWithKey wc key content = SIGNATURE_VERSION @ '','' @ base64Encode (wc_hmac wc key (utf8 content))"

definition secret_key :: "string \<Rightarrow> thrown + u8 list" where
  "secret_key secret = (case decodeWebhookSecret secret of Inl e \<Rightarrow> Inl e | Inr bytes \<Rightarrow> importHmacKey bytes)"

definition signWebhook :: "webhook_crypto \<Rightarrow> string \<Rightarrow> string \<Rightarrow> string \<Rightarrow> string \<Rightarrow> thrown + string" where
  "signWebhook wc secret msgid timestamp body =
     map_sum id (\<lambda>key. signWithKey wc key (signedContent msgid timestamp body)) (secret_key secret)"

definition parseWebhookTimestamp :: "string \<Rightarrow> nat option" where
  "parseWebhookTimestamp v = (if v \<noteq> [] \<and> length v \<le> 15 \<and> list_all is_digit v then Some (str_nat v) else None)"

fun split_space_loop :: "string \<Rightarrow> string \<Rightarrow> bool \<Rightarrow> string list" where
  \<comment> \<open>\<^verbatim>\<open>split(/\s+/)\<close>: the current piece, and whether the previous character was a blank\<close>
  "split_space_loop [] cur blank = [cur]"
| "split_space_loop (c # cs) cur blank =
     (if re_space c then (if blank then split_space_loop cs cur True else cur # split_space_loop cs [] True)
      else split_space_loop cs (cur @ [c]) False)"

definition split_space :: "string \<Rightarrow> string list" where
  "split_space s = split_space_loop s [] False"

fun verify_entries :: "webhook_crypto \<Rightarrow> u8 list \<Rightarrow> u8 list \<Rightarrow> string list \<Rightarrow> bool" where
  "verify_entries wc key data [] = False"
| "verify_entries wc key data (entry # entries) =
     (if \<not> prefix (SIGNATURE_VERSION @ '','') entry then verify_entries wc key data entries
      else case base64Decode (drop (length SIGNATURE_VERSION + 1) entry) of
             Inl e \<Rightarrow> verify_entries wc key data entries
           | Inr candidate \<Rightarrow> if wc_verify wc key candidate data then True else verify_entries wc key data entries)"

record verify_input =
  vi_secret :: string
  vi_id :: string
  vi_timestamp :: string
  vi_body :: string
  vi_signatureHeader :: string
  vi_now :: number
  vi_toleranceSec :: "number option"

definition verifyWebhookSignature :: "webhook_crypto \<Rightarrow> verify_input \<Rightarrow> thrown + bool" where
  "verifyWebhookSignature wc i =
     (case parseWebhookTimestamp (vi_timestamp i) of
        None \<Rightarrow> Inr False
      | Some timestampSec \<Rightarrow>
          if opt_or (vi_toleranceSec i) DEFAULT_WEBHOOK_TOLERANCE_SEC < \<bar>js_floor (vi_now i / 1000) - of_nat timestampSec\<bar>
          then Inr False
          else map_sum id (\<lambda>key. verify_entries wc key (utf8 (signedContent (vi_id i) (vi_timestamp i) (vi_body i)))
                 (split_space (vi_signatureHeader i)))
               (secret_key (vi_secret i)))"

section \<open>The sink\<close>

record webhook_options =
  wo_url :: string
  wo_secret :: string
  wo_headers :: "(string \<times> string) list option"
  wo_hasFetch :: bool \<comment> \<open>a \<^verbatim>\<open>fetch\<close> function is given or global\<close>
  wo_format :: "sink_format option"
  wo_timeoutMs :: "jsnum option"
  wo_successStatuses :: "(int \<Rightarrow> bool) option"

record webhook_env =
  we_crypto :: webhook_crypto
  we_validUrl :: "string \<Rightarrow> bool"
  we_now :: "nat \<Rightarrow> number"
  we_fetch :: "nat \<Rightarrow> http_request \<Rightarrow> thrown + response"
  we_events :: "nat \<Rightarrow> sig_event list"
  we_decode :: "u8 list \<Rightarrow> string" \<comment> \<open>what a streaming decoder has produced after these bytes\<close>
  we_dateParse :: date_parse
  we_useAny :: bool

record webhook_world =
  ww_tick :: nat
  ww_signals :: sig_world
  ww_posted :: "http_request list"
  ww_acks :: nat

type_synonym 'a wh = "(webhook_world, thrown, 'a) io"

record webhook_sink =
  wk_url :: string
  wk_secretBytes :: "u8 list"
  wk_timeoutMs :: jsnum
  wk_format :: sink_format
  wk_isSuccess :: "int \<Rightarrow> bool"
  wk_extraHeaders :: "(string, string) jsmap"

fun lowercaseKeys_loop :: "(string \<times> string) list \<Rightarrow> (string, string) jsmap \<Rightarrow> (string, string) jsmap" where
  "lowercaseKeys_loop [] h = h"
| "lowercaseKeys_loop ((name, v) # es) h = lowercaseKeys_loop es (AList.update (toLowerCase name) v h)"

definition lowercaseKeys :: "(string \<times> string) list \<Rightarrow> (string, string) jsmap" where
  "lowercaseKeys es = lowercaseKeys_loop es []"

definition webhookSink :: "webhook_env \<Rightarrow> webhook_options \<Rightarrow> thrown + webhook_sink" where
  "webhookSink en opts =
     (let timeoutMs = opt_or (wo_timeoutMs opts) DEFAULT_WEBHOOK_TIMEOUT_MS
      in if \<not> we_validUrl en (wo_url opts) then
           Inl (configError (''webhookSink: invalid url '' @ [CHR 0x27] @ wo_url opts @ [CHR 0x27]))
         else if wo_secret opts = [] then Inl (configError ''webhookSink: secret is required'')
         else case decodeWebhookSecret (wo_secret opts) of
                Inl e \<Rightarrow> Inl e
              | Inr bytes \<Rightarrow>
                  if \<not> wo_hasFetch opts then Inl (configError ''webhookSink: no global fetch available; pass options.fetch'')
                  else if \<not> (finite_num timeoutMs \<and> 0 < num_val timeoutMs) then
                    Inl (configError (''webhookSink: timeoutMs must be a positive number, got '' @ num_str timeoutMs))
                  else Inr \<lparr>wk_url = wo_url opts, wk_secretBytes = bytes, wk_timeoutMs = timeoutMs,
                         wk_format = opt_or (wo_format opts) FmtCloudEvents,
                         wk_isSuccess = opt_or (wo_successStatuses opts) (\<lambda>status. 200 \<le> status \<and> status < 300),
                         wk_extraHeaders = lowercaseKeys (opt_or (wo_headers opts) [])\<rparr>)"

fun spread :: "(string \<times> string) list \<Rightarrow> (string, string) jsmap \<Rightarrow> (string, string) jsmap" where
  \<comment> \<open>the members of an object literal, one after the other\<close>
  "spread [] h = h"
| "spread ((k, v) # es) h = spread es (AList.update k v h)"

definition webhook_headers :: "webhook_sink \<Rightarrow> string \<Rightarrow> event \<Rightarrow> string \<Rightarrow> string \<Rightarrow> (string, string) jsmap" where
  "webhook_headers wk contentType ev timestamp signature =
     spread ([(''content-type'', contentType)] @ wk_extraHeaders wk
             @ [(''webhook-id'', ev_id ev), (''webhook-timestamp'', timestamp), (''webhook-signature'', signature)]) []"

text \<open>The body of a refusal: the loop reads on while the text is not longer than the limit.\<close>

fun truncated_loop :: "(u8 list \<Rightarrow> string) \<Rightarrow> nat \<Rightarrow> u8 list list \<Rightarrow> thrown option \<Rightarrow> u8 list \<Rightarrow> thrown + string" where
  "truncated_loop decode maxChars stream err bytes =
     (if maxChars < length (decode bytes) then Inr (decode bytes)
      else case stream of
             [] \<Rightarrow> (case err of Some e \<Rightarrow> Inl e | None \<Rightarrow> Inr (decode bytes))
           | c # cs \<Rightarrow> truncated_loop decode maxChars cs err (bytes @ c))"

definition readBodyTruncated :: "webhook_env \<Rightarrow> response \<Rightarrow> nat \<Rightarrow> string option" where
  "readBodyTruncated en res maxChars =
     (case rs_body res of
        None \<Rightarrow> None
      | Some b \<Rightarrow>
          (case truncated_loop (we_decode en) maxChars (bd_chunks b) (bd_error b) [] of
             Inl e \<Rightarrow> None
           | Inr text \<Rightarrow> Some (if maxChars < length text then take maxChars text @ ELLIPSIS else text)))"

definition liftW :: "thrown + 'a \<Rightarrow> 'a wh" where
  "liftW r = (case r of Inl e \<Rightarrow> throwE e | Inr x \<Rightarrow> retE x)"

definition tickW :: "nat wh" where
  "tickW = (\<lambda>w. (Inr (ww_tick w), w\<lparr>ww_tick := Suc (ww_tick w)\<rparr>))"

definition nowW :: "webhook_env \<Rightarrow> number wh" where
  "nowW en = bindE tickW (\<lambda>n. retE (we_now en n))"

definition signed_request :: "webhook_env \<Rightarrow> webhook_sink \<Rightarrow> event \<Rightarrow> http_request wh" where
  \<comment> \<open>body, timestamp, signature and headers, before the signal is composed\<close>
  "signed_request en wk ev =
     bindE (liftW (serializeEvent ev (wk_format wk))) (\<lambda>s.
     bindE (nowW en) (\<lambda>now.
     let timestamp = int_num_str \<lfloor>now / 1000\<rfloor>
     in bindE (liftW (importHmacKey (wk_secretBytes wk))) (\<lambda>key.
        retE \<lparr>rq_url = wk_url wk, rq_method = ''POST'',
          rq_headers = webhook_headers wk (sz_contentType s) ev timestamp
            (signWithKey (we_crypto en) key (signedContent (ev_id ev) timestamp (sz_body s))),
          rq_body = Some (sz_body s), rq_signal = None\<rparr>)))"

definition post :: "webhook_env \<Rightarrow> http_request \<Rightarrow> response wh" where
  "post en rq =
     bindE tickW (\<lambda>n.
     bindE (modifyE (\<lambda>w. w\<lparr>ww_posted := ww_posted w @ [rq], ww_signals := last (sig_states (we_events en n) (ww_signals w))\<rparr>)) (\<lambda>_.
     liftW (we_fetch en n rq)))"

definition judge :: "webhook_env \<Rightarrow> webhook_sink \<Rightarrow> response \<Rightarrow> unit wh" where
  "judge en wk response =
     (if \<not> wk_isSuccess wk (rs_status response) then
        bindE (nowW en) (\<lambda>now.
        throwE (webhookDeliveryError (rs_status response) (wk_url wk) (readBodyTruncated en response MAX_WEBHOOK_ERROR_BODY_CHARS)
          (parseRetryAfter (we_dateParse en) (hdr_get (rs_headers response) ''retry-after'') now)))
      else modifyE (\<lambda>w. w\<lparr>ww_acks := Suc (ww_acks w)\<rparr>))"

definition deliver_webhook :: "webhook_env \<Rightarrow> webhook_sink \<Rightarrow> nat \<Rightarrow> event \<Rightarrow> unit wh" where
  \<comment> \<open>the handler; the number is \<^verbatim>\<open>ctx.signal\<close>\<close>
  "deliver_webhook en wk signal ev =
     bindE (signed_request en wk ev) (\<lambda>rq.
     bindE (\<lambda>w. case composeAbortSignal (we_useAny en) [Some signal] (Some (wk_timeoutMs wk)) (ww_signals w) of
              (cs, sg) \<Rightarrow> (Inr cs, w\<lparr>ww_signals := sg\<rparr>)) (\<lambda>cs.
     finallyE (bindE (post en (rq\<lparr>rq_signal := map_option cs_signal cs\<rparr>)) (judge en wk))
       (\<lambda>w. case cs of None \<Rightarrow> w | Some c \<Rightarrow> w\<lparr>ww_signals := snd (dispose c (ww_signals w))\<rparr>)))"

section \<open>Signatures\<close>

definition honest :: "webhook_crypto \<Rightarrow> bool" where
  \<comment> \<open>\<^verbatim>\<open>crypto.subtle.verify\<close>: a signature is accepted when it is the MAC of the data\<close>
  "honest wc \<longleftrightarrow> (\<forall>key sig data. wc_verify wc key sig data \<longleftrightarrow> sig = wc_hmac wc key data)"

lemma verify_entries_iff:
  assumes "honest wc"
  shows "verify_entries wc key data entries \<longleftrightarrow>
    (\<exists>entry \<in> set entries. prefix ''v1,'' entry \<and> base64Decode (drop 3 entry) = Inr (wc_hmac wc key data))"
proof (induction entries)
  case (Cons entry entries)
  have "wc_verify wc key c data \<longleftrightarrow> c = wc_hmac wc key data" for c using assms by (simp add: honest_def)
  with Cons show ?case by (auto simp: SIGNATURE_VERSION_def eval_nat_numeral split: sum.splits)
qed simp

text \<open>A signature is accepted exactly for a fresh timestamp and an entry of the version that holds the MAC of the
  signed content.\<close>

lemma verify_iff:
  assumes "honest wc"
  shows "verifyWebhookSignature wc i = Inr True \<longleftrightarrow>
    (\<exists>ts key. parseWebhookTimestamp (vi_timestamp i) = Some ts
       \<and> \<bar>js_floor (vi_now i / 1000) - of_nat ts\<bar> \<le> opt_or (vi_toleranceSec i) DEFAULT_WEBHOOK_TOLERANCE_SEC
       \<and> secret_key (vi_secret i) = Inr key
       \<and> (\<exists>entry \<in> set (split_space (vi_signatureHeader i)). prefix ''v1,'' entry
            \<and> base64Decode (drop 3 entry) = Inr (wc_hmac wc key (utf8 (signedContent (vi_id i) (vi_timestamp i) (vi_body i))))))"
  unfolding verifyWebhookSignature_def
  by (cases "parseWebhookTimestamp (vi_timestamp i)"; cases "secret_key (vi_secret i)")
    (simp_all add: verify_entries_iff [OF assms] not_less)

text \<open>The signed content determines the message: no part of it can be moved into another, since an event id holds no dot
  and a timestamp only digits.\<close>

lemma split_at_dot: "a @ ''.'' @ x = b @ ''.'' @ y \<Longrightarrow> CHR ''.'' \<notin> set a \<Longrightarrow> CHR ''.'' \<notin> set b \<Longrightarrow> a = b \<and> x = y"
proof (induction a arbitrary: b)
  case Nil
  then show ?case by (cases b) auto
next
  case (Cons c a)
  then show ?case by (cases b) auto
qed

lemma signedContent_inj:
  assumes "signedContent i t b = signedContent i' t' b'" "CHR ''.'' \<notin> set i" "CHR ''.'' \<notin> set i'"
    and "parseWebhookTimestamp t \<noteq> None" "parseWebhookTimestamp t' \<noteq> None"
  shows "i = i' \<and> t = t' \<and> b = b'"
proof -
  have "CHR ''.'' \<notin> set s" if "parseWebhookTimestamp s \<noteq> None" for s
    using that by (auto simp: parseWebhookTimestamp_def list_all_iff is_digit_def split: if_splits)
  with assms show ?thesis
    using split_at_dot [of i "t @ ''.'' @ b" i' "t' @ ''.'' @ b'"] split_at_dot [of t b t' b'] by (simp add: signedContent_def)
qed

section \<open>A delivered webhook\<close>

lemma map_of_spread: "map_of (spread es h) k = (case map_of (rev es) k of None \<Rightarrow> map_of h k | Some v \<Rightarrow> Some v)"
proof (induction es h rule: spread.induct)
  case (2 k' v es h)
  then show ?case by (auto simp: map_add_def split: option.splits)
qed simp

lemma webhook_headers_win:
  "map_of (webhook_headers wk ct ev ts sig) ''webhook-id'' = Some (ev_id ev)"
  "map_of (webhook_headers wk ct ev ts sig) ''webhook-timestamp'' = Some ts"
  "map_of (webhook_headers wk ct ev ts sig) ''webhook-signature'' = Some sig"
  by (simp_all add: webhook_headers_def map_of_spread)

lemma no_space_one_entry: "\<forall>c \<in> set s. \<not> re_space c \<Longrightarrow> split_space s = [s]"
proof -
  have "\<forall>c \<in> set s. \<not> re_space c \<Longrightarrow> split_space_loop s cur b = [cur @ s]" for cur b
    by (induction s arbitrary: cur b) auto
  then show "\<forall>c \<in> set s. \<not> re_space c \<Longrightarrow> ?thesis" by (simp add: split_space_def)
qed

lemma signature_entries: "split_space (signWithKey wc key content) = [signWithKey wc key content]"
proof (rule no_space_one_entry)
  have digit: "\<not> re_space c" if "b64_val c = Some d" for c d
  proof
    assume "re_space c"
    then have "(of_char c :: nat) \<in> {9, 10, 11, 12, 13, 32, 160}" by (auto simp: re_space_def)
    then have "\<not> (65 \<le> (of_char c :: nat) \<and> (of_char c :: nat) \<le> 90)" "\<not> (97 \<le> (of_char c :: nat) \<and> (of_char c :: nat) \<le> 122)"
      "\<not> (48 \<le> (of_char c :: nat) \<and> (of_char c :: nat) \<le> 57)" "c \<noteq> CHR ''+''" "c \<noteq> CHR ''/''"
      by auto
    with that show False unfolding b64_val_def Let_def by (simp split: if_splits)
  qed
  have "\<not> re_space c" if "c \<in> set (base64Encode bytes)" for c bytes
    using base64Encode_chars [OF that] by (auto dest: digit) (simp add: re_space_def)
  then show "\<forall>c \<in> set (signWithKey wc key content). \<not> re_space c"
    by (simp add: signWithKey_def SIGNATURE_VERSION_def re_space_def)
qed

lemma timestamp_parses: "0 \<le> n \<Longrightarrow> n < 10 ^ 15 \<Longrightarrow> parseWebhookTimestamp (int_num_str n) = Some (nat n)"
proof -
  assume n: "0 \<le> n" "n < 10 ^ 15"
  then have "nat n < 10 ^ 15" by (simp add: nat_less_iff)
  moreover have "int_num_str n = nat_str (nat n)" using int_num_str_small [of "nat n"] n by simp
  ultimately show ?thesis
    using nat_str_digits [of "nat n"] length_nat_str [of "nat n" 15]
    by (simp add: parseWebhookTimestamp_def list_all_iff str_nat_nat_str)
qed

lemma signed_request_result:
  assumes "signed_request en wk ev w = (Inr rq, w')"
  obtains s key where "serializeEvent ev (wk_format wk) = Inr s" "importHmacKey (wk_secretBytes wk) = Inr key"
    "rq = \<lparr>rq_url = wk_url wk, rq_method = ''POST'',
        rq_headers = webhook_headers wk (sz_contentType s) ev (int_num_str \<lfloor>we_now en (ww_tick w) / 1000\<rfloor>)
          (signWithKey (we_crypto en) key (signedContent (ev_id ev) (int_num_str \<lfloor>we_now en (ww_tick w) / 1000\<rfloor>) (sz_body s))),
        rq_body = Some (sz_body s), rq_signal = None\<rparr>"
    "ww_posted w' = ww_posted w" "ww_acks w' = ww_acks w"
  using assms
  by (auto simp: signed_request_def bindE_def nowW_def tickW_def retE_def liftW_def throwE_def Let_def split: sum.splits)

lemma judge_frame: "judge en wk res w = (r, w') \<Longrightarrow> ww_posted w' = ww_posted w
    \<and> ww_acks w' = ww_acks w + (if wk_isSuccess wk (rs_status res) then 1 else 0) \<and> (r = Inr () \<longleftrightarrow> wk_isSuccess wk (rs_status res))"
  by (auto simp: judge_def bindE_def nowW_def tickW_def retE_def throwE_def modifyE_def)

text \<open>One call of the handler posts at most one request, the signed one, and acknowledges the event exactly when the
  receiver answered with a status that counts as a success; otherwise it throws.\<close>

lemma deliver_webhook_cases:
  assumes "deliver_webhook en wk signal ev w = (r, w')"
  obtains (unsent) "isl (fst (signed_request en wk ev w))" "ww_posted w' = ww_posted w" "ww_acks w' = ww_acks w" "r \<noteq> Inr ()"
  | (posted) rq w1 n sig where "signed_request en wk ev w = (Inr rq, w1)" "ww_posted w' = ww_posted w @ [rq\<lparr>rq_signal := sig\<rparr>]"
      "r = Inr () \<longleftrightarrow> (\<exists>res. we_fetch en n (rq\<lparr>rq_signal := sig\<rparr>) = Inr res \<and> wk_isSuccess wk (rs_status res))"
      "ww_acks w' = ww_acks w + (if r = Inr () then 1 else 0)"
proof (cases "signed_request en wk ev w")
  case (Pair q w1)
  show ?thesis
  proof (cases q)
    case (Inl e)
    have "ww_posted w1 = ww_posted w \<and> ww_acks w1 = ww_acks w" using Pair
      by (auto simp: signed_request_def bindE_def nowW_def tickW_def retE_def liftW_def throwE_def Let_def split: sum.splits)
    with unsent show ?thesis using assms Pair Inl by (auto simp: deliver_webhook_def bindE_def)
  next
    case (Inr rq)
    have w1: "ww_posted w1 = ww_posted w" "ww_acks w1 = ww_acks w" using signed_request_result [of en wk ev w rq w1] Pair Inr by auto
    obtain cs sg where c: "composeAbortSignal (we_useAny en) [Some signal] (Some (wk_timeoutMs wk)) (ww_signals w1) = (cs, sg)" by fastforce
    let ?rq = "rq\<lparr>rq_signal := map_option cs_signal cs\<rparr>"
    let ?w2 = "w1\<lparr>ww_signals := sg\<rparr>"
    obtain q2 w3 where b: "bindE (post en ?rq) (judge en wk) ?w2 = (q2, w3)" by fastforce
    have fin: "r = q2" "ww_posted w' = ww_posted w3" "ww_acks w' = ww_acks w3"
      using assms Pair Inr c b by (auto simp: deliver_webhook_def bindE_def finallyE_def split: option.splits)
    have "ww_posted w3 = ww_posted w @ [?rq]
        \<and> (q2 = Inr () \<longleftrightarrow> (\<exists>res. we_fetch en (ww_tick w1) ?rq = Inr res \<and> wk_isSuccess wk (rs_status res)))
        \<and> ww_acks w3 = ww_acks w + (if q2 = Inr () then 1 else 0)"
      using b w1 by (auto simp: bindE_def post_def tickW_def modifyE_def liftW_def throwE_def retE_def split: sum.splits dest!: judge_frame)
    with posted [of rq w1 "map_option cs_signal cs" "ww_tick w1"] Pair Inr fin show ?thesis by simp
  qed
qed

text \<open>C30: What the sink sends, the receiver's check accepts: a posted webhook, taken apart into its three headers and its body,
  verifies with the secret it was configured with, for every event, body format and extra header, while the receiver's
  clock is within five minutes of the sender's; \<^verbatim>\<open>crypto.subtle.verify\<close> is only assumed to recompute the MAC.\<close>

theorem webhook_verifies:
  assumes "webhookSink en opts = Inr wk" "deliver_webhook en wk signal ev w = (r, w')" "ww_posted w' = ww_posted w @ [rq]"
    and "honest (we_crypto en)" "0 \<le> we_now en (ww_tick w)" "we_now en (ww_tick w) < 10 ^ 18"
    and "\<bar>js_floor (receiver_now / 1000) - js_floor (we_now en (ww_tick w) / 1000)\<bar> \<le> 300"
  shows "verifyWebhookSignature (we_crypto en)
     \<lparr>vi_secret = wo_secret opts, vi_id = the (map_of (rq_headers rq) ''webhook-id''),
      vi_timestamp = the (map_of (rq_headers rq) ''webhook-timestamp''), vi_body = the (rq_body rq),
      vi_signatureHeader = the (map_of (rq_headers rq) ''webhook-signature''), vi_now = receiver_now, vi_toleranceSec = None\<rparr> = Inr True"
  using assms(2)
proof (cases rule: deliver_webhook_cases)
  case unsent
  with assms(3) show ?thesis by simp
next
  case (posted rq0 w1 n sig)
  obtain s :: serialized_event and key where s: "importHmacKey (wk_secretBytes wk) = Inr key"
    and rq0: "rq0 = \<lparr>rq_url = wk_url wk, rq_method = ''POST'',
        rq_headers = webhook_headers wk (sz_contentType s) ev (int_num_str \<lfloor>we_now en (ww_tick w) / 1000\<rfloor>)
          (signWithKey (we_crypto en) key (signedContent (ev_id ev) (int_num_str \<lfloor>we_now en (ww_tick w) / 1000\<rfloor>) (sz_body s))),
        rq_body = Some (sz_body s), rq_signal = None\<rparr>"
    by (rule signed_request_result [OF posted(1)]) (rule that; assumption)
  let ?sec = "\<lfloor>we_now en (ww_tick w) / 1000\<rfloor>"
  have "0 \<le> ?sec" "?sec < 10 ^ 15" using assms(5,6) by (auto simp: floor_less_iff)
  then have ts: "parseWebhookTimestamp (int_num_str ?sec) = Some (nat ?sec)" "of_nat (nat ?sec) = js_floor (we_now en (ww_tick w) / 1000)"
    by (auto simp: timestamp_parses js_floor_def)
  have key: "secret_key (wo_secret opts) = Inr key"
    using assms(1) s by (auto simp: webhookSink_def secret_key_def Let_def split: if_splits sum.splits)
  let ?ts = "int_num_str ?sec" and ?wc = "we_crypto en"
  let ?sig = "signWithKey ?wc key (signedContent (ev_id ev) ?ts (sz_body s))"
  have rq: "rq = rq0\<lparr>rq_signal := sig\<rparr>" using posted(2) assms(3) by simp
  have parts: "the (map_of (rq_headers rq) ''webhook-id'') = ev_id ev" "the (map_of (rq_headers rq) ''webhook-timestamp'') = ?ts"
    "the (map_of (rq_headers rq) ''webhook-signature'') = ?sig" "the (rq_body rq) = sz_body s"
    by (simp_all add: rq rq0 webhook_headers_win)
  have entry: "prefix ''v1,'' ?sig" "base64Decode (drop 3 ?sig) = Inr (wc_hmac ?wc key (utf8 (signedContent (ev_id ev) ?ts (sz_body s))))"
    by (simp_all add: signWithKey_def SIGNATURE_VERSION_def base64_roundtrip)
  show ?thesis unfolding parts verify_iff [OF assms(4)] verify_input.simps signature_entries
    by (rule exI [of _ "nat ?sec"], rule exI [of _ key], intro conjI bexI [of _ ?sig])
      (use ts key entry assms(7) in \<open>simp_all only: DEFAULT_WEBHOOK_TOLERANCE_SEC_def opt_or_simps list.set empty_iff insert_iff simp_thms\<close>)
qed

text \<open>The extra headers are documented to lose against \<^verbatim>\<open>content-type\<close>; they win.\<close>

lemma extra_content_type_wins:
  "map_of (webhook_headers (wk\<lparr>wk_extraHeaders := lowercaseKeys [(''Content-Type'', ''text/plain'')]\<rparr>) ''application/json'' ev ts sig)
     ''content-type'' = Some ''text/plain''"
proof -
  have "lowercaseKeys [(''Content-Type'', ''text/plain'')] = [(''content-type'', ''text/plain'')]" by code_simp
  then show ?thesis by (simp add: webhook_headers_def map_of_spread)
qed

section \<open>Witness\<close>

definition sample_crypto :: webhook_crypto where
  "sample_crypto = \<lparr>wc_hmac = (\<lambda>key data. take 4 (key @ data)), wc_verify = (\<lambda>key sig data. sig = take 4 (key @ data))\<rparr>"

definition sample_webhook_env :: webhook_env where
  "sample_webhook_env = \<lparr>we_crypto = sample_crypto, we_validUrl = (\<lambda>_. True), we_now = (\<lambda>_. 5000),
     we_fetch = (\<lambda>_ _. Inr \<lparr>rs_status = 204, rs_headers = [], rs_body = None\<rparr>), we_events = (\<lambda>_. []), we_decode = (\<lambda>_. []),
     we_dateParse = (\<lambda>_. NaN), we_useAny = True\<rparr>"

definition sample_webhook_options :: webhook_options where
  "sample_webhook_options = \<lparr>wo_url = ''https://a/'', wo_secret = ''key'', wo_headers = Some [(''webhook-id'', ''mine'')], wo_hasFetch = True,
     wo_format = None, wo_timeoutMs = None, wo_successStatuses = None\<rparr>"

definition sample_wk :: webhook_sink where
  "sample_wk = projr (webhookSink sample_webhook_env sample_webhook_options)"

definition sample_event :: event where
  "sample_event = \<lparr>ev_id = ''e3'', ev_type = Created, ev_source = ''s'', ev_subject = ''1'', ev_time = ''t'', ev_poller = ''p'', ev_partition = [],
     ev_lane = Live, ev_sequence = 1, ev_cursor = JNull, ev_data = VStr ''x'', ev_previous = None, ev_attempt = 1\<rparr>"

definition sample_webhook_world :: webhook_world where
  "sample_webhook_world = \<lparr>ww_tick = 0, ww_signals = sample_signals, ww_posted = [], ww_acks = 0\<rparr>"

definition sample_delivery :: "(thrown + unit) \<times> webhook_world" where
  "sample_delivery = deliver_webhook sample_webhook_env sample_wk 0 sample_event sample_webhook_world"

theorem webhook_verifies_witness:
  "\<exists>rq. ww_posted (snd sample_delivery) = [rq] \<and> verifyWebhookSignature sample_crypto
     \<lparr>vi_secret = ''key'', vi_id = the (map_of (rq_headers rq) ''webhook-id''),
      vi_timestamp = the (map_of (rq_headers rq) ''webhook-timestamp''), vi_body = the (rq_body rq),
      vi_signatureHeader = the (map_of (rq_headers rq) ''webhook-signature''), vi_now = 105000, vi_toleranceSec = None\<rparr> = Inr True"
proof -
  have sink: "webhookSink sample_webhook_env sample_webhook_options = Inr sample_wk"
  proof -
    have "isl (webhookSink sample_webhook_env sample_webhook_options) = False" by code_simp
    then show ?thesis by (simp add: sample_wk_def)
  qed
  have run: "deliver_webhook sample_webhook_env sample_wk 0 sample_event sample_webhook_world = (fst sample_delivery, snd sample_delivery)"
    by (simp add: sample_delivery_def)
  have "isl (serializeEvent sample_event (wk_format sample_wk)) = False" "wk_secretBytes sample_wk \<noteq> []" by code_simp+
  then have "\<not> isl (fst (signed_request sample_webhook_env sample_wk sample_event sample_webhook_world))"
    by (auto simp: signed_request_def bindE_def nowW_def tickW_def retE_def liftW_def importHmacKey_def Let_def split: sum.splits)
  with run obtain rq where rq: "ww_posted (snd sample_delivery) = ww_posted sample_webhook_world @ [rq]"
    by (cases rule: deliver_webhook_cases [OF run]) auto
  have "honest sample_crypto" by (simp add: honest_def sample_crypto_def)
  then show ?thesis
    using webhook_verifies [OF sink run rq, of 105000] rq
    by (simp add: sample_webhook_env_def sample_webhook_options_def sample_webhook_world_def js_floor_def)
qed

end
