(* ===== verification/Store_Spec.thy ===== *)
theory Store_Spec
  imports Memory_Store
begin

text \<open>
  The contract of the \<^verbatim>\<open>StateStore\<close> port (\<^verbatim>\<open>src/core/store-types.ts\<close>), apart from how a store lays its data
  out: what a key holds, as maps (\<^verbatim>\<open>key_view\<close>), what every writing method does to it and replies, and what
  every reading method answers. A store implements the contract when it is an instance of the locale
  \<^verbatim>\<open>state_store\<close>; two stores that do cannot be told apart by any sequence of calls. The in-memory store is
  the first instance; the SQLite, Postgres and Redis stores are instances in their own theories.
\<close>

section \<open>What a key holds\<close>

record key_view =
  kv_state :: "poller_state option"
  kv_lease :: "lease option"
  kv_counter :: nat
  kv_items :: "string \<rightharpoonup> item_row"
  kv_outbox :: "string \<rightharpoonup> outbox_row"
  kv_parked :: "string \<rightharpoonup> parked_row"
  kv_validators :: "string \<rightharpoonup> validator"
  kv_log :: "nat \<rightharpoonup> logged_event"

definition empty_view :: key_view where
  "empty_view = \<lparr>kv_state = None, kv_lease = None, kv_counter = 0, kv_items = Map.empty, kv_outbox = Map.empty,
     kv_parked = Map.empty, kv_validators = Map.empty, kv_log = Map.empty\<rparr>"

datatype reply = RUnit | RLease "lease option" | RBool bool | RCount nat

fun put_rows :: "('a \<Rightarrow> 'k) \<Rightarrow> ('a \<Rightarrow> 'v) \<Rightarrow> 'a list \<Rightarrow> ('k \<rightharpoonup> 'v) \<Rightarrow> 'k \<rightharpoonup> 'v" where
  "put_rows key val [] m = m"
| "put_rows key val (x # xs) m = put_rows key val xs (m(key x \<mapsto> val x))"

definition drop_rows :: "'k list \<Rightarrow> ('k \<rightharpoonup> 'v) \<Rightarrow> 'k \<rightharpoonup> 'v" where
  "drop_rows ks m = m |` (- set ks)"

definition next_state :: "state_patch \<Rightarrow> poller_state option \<Rightarrow> poller_state" where
  "next_state patch st = patched (opt_or st (emptyPollerState (opt_or (sp_updatedAt patch) 0))) patch"

definition guarded :: "pkey \<Rightarrow> lease \<Rightarrow> (key_view \<Rightarrow> key_view) \<Rightarrow> key_view \<Rightarrow> (thrown + reply) \<times> key_view" where
  "guarded key l f v =
     (if token_match (kv_lease v) l then (Inr RUnit, f v)
      else (Inl (leaseLostError (k_poller key) (k_partition key) (l_epoch l)), v))"

definition commit_view :: "commit_batch \<Rightarrow> key_view \<Rightarrow> key_view" where
  "commit_view b v =
     v\<lparr>kv_state := Some (next_state (cb_statePatch b) (kv_state v)),
       kv_items := drop_rows (cb_deletes b) (put_rows ir_identity (\<lambda>x. x) (cb_upserts b) (kv_items v)),
       kv_outbox := put_rows ob_eventId (\<lambda>x. x) (cb_events b) (kv_outbox v),
       kv_parked := put_rows pk_id (\<lambda>x. x) (cb_parked b) (kv_parked v),
       kv_log := (if cb_log b then put_rows ob_sequence log_entry (cb_events b) (kv_log v) else kv_log v)\<rparr>"

fun retry_view :: "string list \<Rightarrow> nat \<Rightarrow> key_view \<Rightarrow> nat \<times> key_view" where
  "retry_view [] n v = (n, v)"
| "retry_view (i # ids) n v =
     (case kv_parked v i of
        None \<Rightarrow> retry_view ids n v
      | Some row \<Rightarrow>
          (case (pk_kind row, pk_event row) of
             (Poison, Some ev) \<Rightarrow>
               retry_view ids (n + 1)
                 (v\<lparr>kv_outbox := (kv_outbox v)(ev_id ev \<mapsto> retried_row ev (pk_parkedAt row)),
                    kv_parked := (kv_parked v)(i := None)\<rparr>)
           | _ \<Rightarrow> retry_view ids n v))"

text \<open>What each writing method replies and does to its key.\<close>

fun spec :: "store_cmd \<Rightarrow> key_view \<Rightarrow> (thrown + reply) \<times> key_view" where
  "spec (Acquire k owner ttl now) v =
     (if \<exists>l. kv_lease v = Some l \<and> l_expiresAt l > now \<and> l_owner l \<noteq> owner then (Inr (RLease None), v)
      else let l = \<lparr>l_owner = owner, l_epoch = kv_counter v + 1, l_expiresAt = now + ttl\<rparr>
           in (Inr (RLease (Some l)), v\<lparr>kv_counter := kv_counter v + 1, kv_lease := Some l\<rparr>))"
| "spec (Renew k l ttl now) v =
     (if token_match (kv_lease v) l
      then (Inr (RBool True), v\<lparr>kv_lease := map_option (\<lambda>l. l\<lparr>l_expiresAt := now + ttl\<rparr>) (kv_lease v)\<rparr>)
      else (Inr (RBool False), v))"
| "spec (Release k l) v = (Inr RUnit, if token_match (kv_lease v) l then v\<lparr>kv_lease := None\<rparr> else v)"
| "spec (Save k l patch) v = guarded k l (\<lambda>v. v\<lparr>kv_state := Some (next_state patch (kv_state v))\<rparr>) v"
| "spec (SaveUnfenced k patch) v = (Inr RUnit, v\<lparr>kv_state := Some (next_state patch (kv_state v))\<rparr>)"
| "spec (DeleteKey k) v = (Inr RUnit, empty_view)"
| "spec (Clear k) v = (Inr RUnit, v\<lparr>kv_items := Map.empty\<rparr>)"
| "spec (Commit k l b) v = guarded k l (commit_view b) v"
| "spec (Ack k l ids) v = guarded k l (\<lambda>v. v\<lparr>kv_outbox := drop_rows ids (kv_outbox v)\<rparr>) v"
| "spec (Attempt k l eid err next) v =
     guarded k l (\<lambda>v. v\<lparr>kv_outbox := (kv_outbox v)(eid := map_option (\<lambda>row. row\<lparr>ob_attempts := ob_attempts row + 1,
       ob_lastError := err, ob_nextAttemptAt := next\<rparr>) (kv_outbox v eid))\<rparr>) v"
| "spec (ParkRow k l row) v =
     guarded k l (\<lambda>v. v\<lparr>kv_parked := (kv_parked v)(pk_id row \<mapsto> row),
       kv_outbox := drop_rows (case pk_event row of None \<Rightarrow> [] | Some ev \<Rightarrow> [ev_id ev]) (kv_outbox v)\<rparr>) v"
| "spec (Retry k ids) v = (case retry_view ids 0 v of (n, v') \<Rightarrow> (Inr (RCount n), v'))"
| "spec (Discard k ids) v =
     (Inr (RCount (card (set ids \<inter> dom (kv_parked v)))), v\<lparr>kv_parked := drop_rows ids (kv_parked v)\<rparr>)"
| "spec (SetVal k l h val) v = guarded k l (\<lambda>v. v\<lparr>kv_validators := (kv_validators v)(h \<mapsto> val)\<rparr>) v"
| "spec (Prune k t) v =
     (Inr (RCount (card {s. \<exists>e. kv_log v s = Some e \<and> le_createdAt e < t})),
      v\<lparr>kv_log := (\<lambda>s. case kv_log v s of None \<Rightarrow> None | Some e \<Rightarrow> if le_createdAt e < t then None else Some e)\<rparr>)"

section \<open>What may be written\<close>

text \<open>The persistent stores keep data as JSON text. \<^verbatim>\<open>json_copy\<close> is what \<^verbatim>\<open>JSON.parse\<close> returns for the text of a
  value; a value is plain when it comes back as it was.\<close>

definition json_copy :: "jsval \<Rightarrow> thrown + jsval" where
  "json_copy v = (case stringify v of Inl e \<Rightarrow> Inl e | Inr None \<Rightarrow> Inr VUndef | Inr (Some t) \<Rightarrow> parse_js t)"

definition plain :: "jsval \<Rightarrow> bool" where
  "plain v \<longleftrightarrow> json_copy v = Inr v"

definition plain_event :: "event \<Rightarrow> bool" where
  "plain_event ev \<longleftrightarrow> plain (ev_data ev) \<and> json_parse (json_str (ev_cursor ev)) = Some (ev_cursor ev)
     \<and> (case ev_previous ev of None \<Rightarrow> True | Some v \<Rightarrow> plain v \<and> v \<noteq> VUndef)"

definition plain_parked :: "parked_row \<Rightarrow> bool" where
  "plain_parked row \<longleftrightarrow> plain (pk_item row) \<and> (case pk_event row of None \<Rightarrow> True | Some ev \<Rightarrow> plain_event ev)"

definition plain_item :: "item_row \<Rightarrow> bool" where
  "plain_item row \<longleftrightarrow> (case ir_payload row of None \<Rightarrow> True | Some v \<Rightarrow> plain v \<and> v \<noteq> VUndef)"

text \<open>What is read back of the JSON text of an event.\<close>

definition event_text :: "event \<Rightarrow> thrown + event" where
  "event_text ev =
     (case json_copy (ev_data ev) of
        Inl e \<Rightarrow> Inl e
      | Inr d \<Rightarrow>
          (case (case ev_previous ev of None \<Rightarrow> Inr VUndef | Some v \<Rightarrow> json_copy v) of
             Inl e \<Rightarrow> Inl e
           | Inr p \<Rightarrow>
               (case json_parse (json_str (ev_cursor ev)) of
                  None \<Rightarrow> Inl (plainError ''SyntaxError'' ''Unexpected token in JSON'')
                | Some c \<Rightarrow> Inr (ev\<lparr>ev_data := d, ev_previous := (if p = VUndef then None else Some p), ev_cursor := c\<rparr>))))"

lemma event_text_plain: "plain_event ev \<Longrightarrow> event_text ev = Inr ev"
  by (auto simp: event_text_def plain_event_def plain_def split: option.splits)

lemma plain_json: "wf_json j \<Longrightarrow> plain (val_of_json 0 j)"
  using parse_js_stringify [of j] by (simp add: plain_def json_copy_def)

text \<open>A command may be issued when its data is plain, and when the events it logs have identifiers and sequence
  numbers of their own that the log does not hold yet.\<close>

fun admissible :: "store_cmd \<Rightarrow> key_view \<Rightarrow> bool" where
  "admissible (Commit k l b) v =
     (list_all plain_item (cb_upserts b) \<and> list_all (plain_event \<circ> ob_event) (cb_events b) \<and> list_all plain_parked (cb_parked b)
      \<and> (cb_log b \<longrightarrow> distinct (map ob_eventId (cb_events b)) \<and> distinct (map ob_sequence (cb_events b))
           \<and> list_all (\<lambda>row. kv_log v (ob_sequence row) = None) (cb_events b)))"
| "admissible (ParkRow k l row) v = plain_parked row"
| "admissible _ v = True"

section \<open>Reading\<close>

datatype query = QLease | QState | QVersions "string list" | QCountItems | QPending nat | QCountPending
  | QParked "parked_kind option" "nat option" | QCountParked | QHeld | QValidator string | QLog log_range nat

datatype answer = ALease "lease option" | AState "poller_state option" | AVersions "string \<rightharpoonup> item_row"
  | ACount nat | APending "outbox_row list" | AParked "parked_row list" | AHeld "string set"
  | AValidator "validator option" | ALog "logged_event list"

text \<open>The first \<^verbatim>\<open>n\<close> elements (all of them without a limit) of a set in the order of a sort key.\<close>

definition listing :: "('a \<Rightarrow> 'k::linorder) \<Rightarrow> 'a set \<Rightarrow> nat option \<Rightarrow> 'a list \<Rightarrow> bool" where
  "listing f S n xs \<longleftrightarrow> (\<exists>ys. sorted (map f ys) \<and> distinct ys \<and> set ys = S \<and> xs = take (opt_or n (length ys)) ys)"

fun answers :: "query \<Rightarrow> key_view \<Rightarrow> answer \<Rightarrow> bool" where
  "answers QLease v a = (a = ALease (kv_lease v))"
| "answers QState v a = (a = AState (kv_state v))"
| "answers (QVersions ids) v a = (a = AVersions (kv_items v |` set ids))"
| "answers QCountItems v a = (a = ACount (card (dom (kv_items v))))"
| "answers (QPending n) v a =
     (\<exists>rows. a = APending rows \<and> listing ob_sequence {row \<in> ran (kv_outbox v). ob_status row = Pending} (Some n) rows)"
| "answers QCountPending v a = (a = ACount (card {i. \<exists>row. kv_outbox v i = Some row \<and> ob_status row = Pending}))"
| "answers (QParked kind n) v a =
     (\<exists>rows. a = AParked rows
        \<and> listing pk_parkedAt {row \<in> ran (kv_parked v). kind = None \<or> kind = Some (pk_kind row)} n rows)"
| "answers QCountParked v a = (a = ACount (card (dom (kv_parked v))))"
| "answers QHeld v a = (a = AHeld {h. \<exists>row \<in> ran (kv_parked v). pk_holdKey row = Some h})"
| "answers (QValidator h) v a = (a = AValidator (kv_validators v h))"
| "answers (QLog rg n) v a =
     (\<exists>es. a = ALog es \<and> listing le_sequence {e \<in> ran (kv_log v). in_range rg e} (Some n) es)"

text \<open>The order of two pending events with one sequence number, or of two rows parked at the same moment, is up to
  the store.\<close>

definition no_ties :: "key_view \<Rightarrow> bool" where
  "no_ties v \<longleftrightarrow> inj_on ob_sequence (ran (kv_outbox v)) \<and> inj_on pk_parkedAt (ran (kv_parked v))
     \<and> inj_on le_sequence (ran (kv_log v))"

lemma listing_unique:
  assumes "listing f S n xs" "listing f S n ys" "inj_on f S"
  shows "xs = ys"
proof -
  obtain us vs where u: "sorted (map f us)" "distinct us" "set us = S" "xs = take (opt_or n (length us)) us"
    and v: "sorted (map f vs)" "distinct vs" "set vs = S" "ys = take (opt_or n (length vs)) vs"
    using assms(1,2) by (auto simp: listing_def)
  have "distinct (map f us)" "distinct (map f vs)" using assms(3) u v by (auto simp: distinct_map)
  then have "map f us = map f vs" using u v by (intro sorted_distinct_set_unique) auto
  then have "us = vs" using assms(3) u(3) v(3) by (metis inj_on_map_eq_map sup_idem)
  then show ?thesis using u v by simp
qed

lemma answers_unique:
  assumes "answers q v a" "answers q v b" "no_ties v"
  shows "a = b"
proof (cases q)
  case (QPending n)
  then show ?thesis using assms
    by (auto simp: no_ties_def intro: inj_on_subset elim!: listing_unique)
next
  case (QParked kind n)
  then show ?thesis using assms
    by (auto simp: no_ties_def intro: inj_on_subset elim!: listing_unique)
next
  case (QLog rg n)
  then show ?thesis using assms
    by (auto simp: no_ties_def intro: inj_on_subset elim!: listing_unique)
qed (use assms in auto)

section \<open>The interface\<close>

fun run_cmds :: "(store_cmd \<Rightarrow> 's \<Rightarrow> (thrown + reply) \<times> 's) \<Rightarrow> store_cmd list \<Rightarrow> 's \<Rightarrow> (thrown + reply) list \<times> 's" where
  "run_cmds step [] s = ([], s)"
| "run_cmds step (c # cs) s =
     (case step c s of (r, s') \<Rightarrow> (case run_cmds step cs s' of (rs, s'') \<Rightarrow> (r # rs, s'')))"

definition spec_step :: "store_cmd \<Rightarrow> (pkey \<Rightarrow> key_view) \<Rightarrow> (thrown + reply) \<times> (pkey \<Rightarrow> key_view)" where
  "spec_step c V = (case spec c (V (cmd_key c)) of (r, v) \<Rightarrow> (r, V(cmd_key c := v)))"

lemma spec_step_at: "spec_step c V = (r, V') \<Longrightarrow> spec c (V (cmd_key c)) = (r, V' (cmd_key c))"
  by (cases "spec c (V (cmd_key c))") (auto simp: spec_step_def simp del: spec.simps)

fun admissible_run :: "store_cmd list \<Rightarrow> (pkey \<Rightarrow> key_view) \<Rightarrow> bool" where
  "admissible_run [] V = True"
| "admissible_run (c # cs) V = (admissible c (V (cmd_key c)) \<and> admissible_run cs (snd (spec_step c V)))"

definition no_keys :: "pkey \<Rightarrow> key_view" where
  "no_keys = (\<lambda>_. empty_view)"

locale state_store =
  fixes step :: "store_cmd \<Rightarrow> 's \<Rightarrow> (thrown + reply) \<times> 's"
    and read :: "query \<Rightarrow> pkey \<Rightarrow> 's \<Rightarrow> thrown + answer"
    and view :: "'s \<Rightarrow> pkey \<Rightarrow> key_view"
    and ok :: "'s \<Rightarrow> bool"
    and empty_store :: 's
  assumes initial: "ok empty_store" "view empty_store = no_keys"
    and writes: "\<lbrakk> ok s; admissible c (view s (cmd_key c)); step c s = (r, s') \<rbrakk>
      \<Longrightarrow> ok s' \<and> spec_step c (view s) = (r, view s')"
    and reads: "ok s \<Longrightarrow> \<exists>a. read q key s = Inr a \<and> answers q (view s key) a"
begin

lemma run_refines:
  "\<lbrakk> ok s; admissible_run cs (view s); run_cmds step cs s = (rs, s') \<rbrakk>
    \<Longrightarrow> ok s' \<and> run_cmds spec_step cs (view s) = (rs, view s')"
proof (induction cs arbitrary: s rs s')
  case (Cons c cs)
  obtain r s1 where 1: "step c s = (r, s1)" by (cases "step c s")
  obtain rs1 s2 where 2: "run_cmds step cs s1 = (rs1, s2)" by (cases "run_cmds step cs s1")
  have w: "ok s1" "spec_step c (view s) = (r, view s1)" using writes [OF Cons.prems(1) _ 1] Cons.prems(2) by auto
  have "ok s2 \<and> run_cmds spec_step cs (view s1) = (rs1, view s2)"
    using Cons.IH [OF w(1) _ 2] Cons.prems(2) w(2) by simp
  then show ?case using Cons.prems(3) 1 2 w by simp
qed simp

lemma from_empty:
  "\<lbrakk> admissible_run cs no_keys; run_cmds step cs empty_store = (rs, s) \<rbrakk>
    \<Longrightarrow> ok s \<and> run_cmds spec_step cs no_keys = (rs, view s)"
  using run_refines [OF initial(1), of cs rs s] by (simp add: initial(2))

end

text \<open>What the contract says about leases: the counter of a key never goes back, and a new lease takes an epoch above
  it. So every store that satisfies it is a \<^verbatim>\<open>fenced_store\<close>, and its superseded leases stay superseded.\<close>

lemma retry_view_lease [simp]:
  "kv_lease (snd (retry_view ids n v)) = kv_lease v" "kv_counter (snd (retry_view ids n v)) = kv_counter v"
  by (induction ids n v rule: retry_view.induct) (auto split: option.splits parked_kind.splits)

lemma spec_lease:
  assumes "\<not> is_delete c" "spec c v = (r, v')"
  shows "kv_counter v \<le> kv_counter v'"
    "\<lbrakk> kv_lease v' = Some l; \<not> token_match (kv_lease v) l \<rbrakk> \<Longrightarrow> kv_counter v < l_epoch l \<and> l_epoch l \<le> kv_counter v'"
proof -
  consider (acq) k owner ttl now where "c = Acquire k owner ttl now" | (ren) k l0 ttl now where "c = Renew k l0 ttl now"
    | (rel) k l0 where "c = Release k l0"
    | (other) "kv_lease v' = kv_lease v" "kv_counter v' = kv_counter v"
    using assms by (cases c) (auto simp: guarded_def commit_view_def split_beta split: if_splits)
  then have "kv_counter v \<le> kv_counter v' \<and> (\<forall>l. kv_lease v' = Some l \<longrightarrow> token_match (kv_lease v) l
      \<or> (kv_counter v < l_epoch l \<and> l_epoch l \<le> kv_counter v'))"
    using assms(2)
    by cases (auto simp: token_match_def Let_def split: if_splits option.splits)
  then show "kv_counter v \<le> kv_counter v'"
    "\<lbrakk> kv_lease v' = Some l; \<not> token_match (kv_lease v) l \<rbrakk> \<Longrightarrow> kv_counter v < l_epoch l \<and> l_epoch l \<le> kv_counter v'"
    by blast+
qed

lemma spec_granted:
  "spec (Acquire k owner ttl now) v = (Inr (RLease (Some new)), v')
    \<Longrightarrow> kv_counter v' = Suc (kv_counter v) \<and> kv_lease v' = Some new \<and> l_epoch new = Suc (kv_counter v)"
  by (auto simp: Let_def split: if_splits)

fun fence_of :: "store_cmd \<Rightarrow> lease option" where
  "fence_of (Save k l patch) = Some l"
| "fence_of (Commit k l b) = Some l"
| "fence_of (Ack k l ids) = Some l"
| "fence_of (Attempt k l eid err due) = Some l"
| "fence_of (ParkRow k l row) = Some l"
| "fence_of (SetVal k l h v) = Some l"
| "fence_of _ = None"

lemma spec_fenced:
  "\<lbrakk> fence_of c = Some l; \<not> token_match (kv_lease v) l \<rbrakk>
    \<Longrightarrow> spec c v = (Inl (leaseLostError (k_poller (cmd_key c)) (k_partition (cmd_key c)) (l_epoch l)), v)"
  by (cases c) (auto simp: guarded_def)

context state_store begin

definition moves :: "'s \<Rightarrow> 's \<Rightarrow> bool" where
  "moves s t \<longleftrightarrow> ok s \<and> (\<exists>c r. \<not> is_delete c \<and> admissible c (view s (cmd_key c)) \<and> step c s = (r, t))"

lemma moves_spec:
  assumes "moves s t"
  obtains c r where "\<not> is_delete c" "spec c (view s (cmd_key c)) = (r, view t (cmd_key c))"
    "\<And>k. k \<noteq> cmd_key c \<Longrightarrow> view t k = view s k" "ok t"
proof -
  obtain c r where c: "\<not> is_delete c" "ok s" "admissible c (view s (cmd_key c))" "step c s = (r, t)"
    using assms by (auto simp: moves_def)
  obtain v where "spec c (view s (cmd_key c)) = (r, v)" "view t = (view s)(cmd_key c := v)" "ok t"
    using writes [OF c(2-4)] by (auto simp: spec_step_def split: prod.splits)
  then show thesis using that [of c r] c(1) by simp
qed

lemma fenced: "fenced_store moves (\<lambda>s k. kv_lease (view s k)) (\<lambda>s k. kv_counter (view s k))"
proof
  fix s t k
  assume "moves s t"
  then show "kv_counter (view s k) \<le> kv_counter (view t k)"
  proof (rule moves_spec)
    fix c r
    assume c: "\<not> is_delete c" "spec c (view s (cmd_key c)) = (r, view t (cmd_key c))" "\<And>k. k \<noteq> cmd_key c \<Longrightarrow> view t k = view s k"
    show ?thesis using spec_lease(1) [OF c(1,2)] c(3) [of k] by (cases "k = cmd_key c") auto
  qed
next
  fix s t k l
  assume a: "moves s t" "kv_lease (view t k) = Some l" "\<not> token_match (kv_lease (view s k)) l"
  from a(1) show "kv_counter (view s k) < l_epoch l \<and> l_epoch l \<le> kv_counter (view t k)"
  proof (rule moves_spec)
    fix c r
    assume c: "\<not> is_delete c" "spec c (view s (cmd_key c)) = (r, view t (cmd_key c))" "\<And>k. k \<noteq> cmd_key c \<Longrightarrow> view t k = view s k"
    show ?thesis using spec_lease(2) [OF c(1,2), of l] c(3) [of k] a(2,3)
      by (cases "k = cmd_key c") (auto simp: token_match_def)
  qed
qed

end

sublocale state_store \<subseteq> fencing: fenced_store moves "\<lambda>s k. kv_lease (view s k)" "\<lambda>s k. kv_counter (view s k)"
  by (rule fenced)

context state_store begin

lemma moves_ok: "moves\<^sup>*\<^sup>* s t \<Longrightarrow> ok s \<Longrightarrow> ok t"
  by (induction rule: rtranclp_induct) (auto elim: moves_spec)

text \<open>Once another lease has been granted, every fenced call with the old one throws and changes nothing.\<close>

lemma superseded:
  assumes "moves\<^sup>*\<^sup>* empty_store s" "token_match (kv_lease (view s key)) old"
    "step (Acquire key owner ttl now) s = (Inr (RLease (Some new)), s1)" "moves\<^sup>*\<^sup>* s1 s2"
    "fence_of c = Some old" "cmd_key c = key" "admissible c (view s2 key)"
  shows "\<exists>s3. step c s2 = (Inl (leaseLostError (k_poller key) (k_partition key) (l_epoch old)), s3) \<and> view s3 = view s2"
proof -
  have ok: "ok s" using moves_ok [OF assms(1)] initial(1) .
  obtain cur where cur: "kv_lease (view s key) = Some cur" "l_epoch cur = l_epoch old"
    using assms(2) by (auto simp: token_match_def split: option.splits)
  have bound: "l_epoch old \<le> kv_counter (view s key)"
    using fencing.bounded_run [OF assms(1) _ cur(1)] cur(2) by (auto simp: initial(2) no_keys_def empty_view_def)
  have w: "ok s1" "spec_step (Acquire key owner ttl now) (view s) = (Inr (RLease (Some new)), view s1)"
    using writes [OF ok _ assms(3)] by auto
  have "spec (Acquire key owner ttl now) (view s key) = (Inr (RLease (Some new)), view s1 key)"
    using spec_step_at [OF w(2)] by simp
  from spec_granted [OF this] have "l_epoch old \<le> kv_counter (view s1 key)" "\<not> token_match (kv_lease (view s1 key)) old"
    using bound by (auto simp: token_match_def)
  then have "\<not> token_match (kv_lease (view s2 key)) old" by (rule fencing.stale_forever [OF assms(4)])
  moreover have "ok s2" using moves_ok [OF assms(4) w(1)] .
  ultimately show ?thesis using writes [of s2 c] spec_fenced [OF assms(5), of "view s2 key"] assms(6,7)
    by (cases "step c s2") (auto simp: spec_step_def)
qed

end

text \<open>Two stores that satisfy the contract cannot be told apart.\<close>

definition indistinguishable ::
  "(store_cmd \<Rightarrow> 's \<Rightarrow> (thrown + reply) \<times> 's) \<Rightarrow> (query \<Rightarrow> pkey \<Rightarrow> 's \<Rightarrow> thrown + answer) \<Rightarrow> 's
   \<Rightarrow> (store_cmd \<Rightarrow> 't \<Rightarrow> (thrown + reply) \<times> 't) \<Rightarrow> (query \<Rightarrow> pkey \<Rightarrow> 't \<Rightarrow> thrown + answer) \<Rightarrow> 't \<Rightarrow> store_cmd list \<Rightarrow> bool" where
  "indistinguishable step1 read1 s0 step2 read2 t0 cs \<longleftrightarrow>
     fst (run_cmds step1 cs s0) = fst (run_cmds step2 cs t0)
     \<and> (\<forall>q key. no_ties (snd (run_cmds spec_step cs no_keys) key)
          \<longrightarrow> read1 q key (snd (run_cmds step1 cs s0)) = read2 q key (snd (run_cmds step2 cs t0)))"

lemma stores_agree:
  assumes "state_store step1 read1 view1 ok1 s0" "state_store step2 read2 view2 ok2 t0" "admissible_run cs no_keys"
  shows "indistinguishable step1 read1 s0 step2 read2 t0 cs"
proof -
  obtain rs s us t where r: "run_cmds step1 cs s0 = (rs, s)" "run_cmds step2 cs t0 = (us, t)" by (metis surj_pair)
  note 1 = state_store.from_empty [OF assms(1,3) r(1)] and 2 = state_store.from_empty [OF assms(2,3) r(2)]
  have "read1 q key s = read2 q key t" if "no_ties (view1 s key)" for q key
    using state_store.reads [OF assms(1), of s q key] state_store.reads [OF assms(2), of t q key] 1 2
      answers_unique [OF _ _ that, of q] by auto
  then show ?thesis using r 1 2 by (auto simp: indistinguishable_def)
qed

section \<open>How a store implements a command\<close>

text \<open>\<^verbatim>\<open>acts I V key m f g\<close>: in every state that satisfies \<^verbatim>\<open>I\<close>, \<^verbatim>\<open>m\<close> returns \<^verbatim>\<open>f\<close> of the view of the key, makes the view
  \<^verbatim>\<open>g\<close> of what it was, and touches no other key. Actions compose.\<close>

definition acts ::
  "('s \<Rightarrow> bool) \<Rightarrow> ('s \<Rightarrow> pkey \<Rightarrow> 'v) \<Rightarrow> pkey \<Rightarrow> ('s, thrown, 'a) io \<Rightarrow> ('v \<Rightarrow> 'a) \<Rightarrow> ('v \<Rightarrow> 'v) \<Rightarrow> bool" where
  "acts I V key m f g \<longleftrightarrow> (\<forall>s. I s \<longrightarrow> (\<exists>s'. m s = (Inr (f (V s key)), s') \<and> I s' \<and> V s' = (V s)(key := g (V s key))))"

definition replies :: "('a \<Rightarrow> reply) \<Rightarrow> ('s, thrown, 'a) io \<Rightarrow> 's \<Rightarrow> (thrown + reply) \<times> 's" where
  "replies f m s = (case m s of (r, s') \<Rightarrow> (map_sum id f r, s'))"

definition resultE :: "'e + 'a \<Rightarrow> ('s, 'e, 'a) io" where
  "resultE r = (\<lambda>s. (r, s))"

fun eachE :: "('a \<Rightarrow> ('s, 'e, unit) io) \<Rightarrow> 'a list \<Rightarrow> ('s, 'e, unit) io" where
  "eachE f [] = retE ()"
| "eachE f (x # xs) = bindE (f x) (\<lambda>_. eachE f xs)"

lemma replies_eq: "replies f m s = (map_sum id f (fst (m s)), snd (m s))"
  by (simp add: replies_def split: prod.split)

lemma acts_ret: "acts I V key (retE x) (\<lambda>_. x) (\<lambda>v. v)"
  by (simp add: acts_def retE_def)

lemma acts_result: "r = Inr x \<Longrightarrow> acts I V key (resultE r) (\<lambda>_. x) (\<lambda>v. v)"
  by (simp add: acts_def resultE_def)

lemma acts_bind:
  assumes "acts I V key m f g" "\<And>v. acts I V key (n (f v)) (f' (f v)) (g' (f v))"
  shows "acts I V key (bindE m n) (\<lambda>v. f' (f v) (g v)) (\<lambda>v. g' (f v) (g v))"
  unfolding acts_def
proof (intro allI impI)
  fix s
  assume "I s"
  then obtain s1 where 1: "m s = (Inr (f (V s key)), s1)" "I s1" "V s1 = (V s)(key := g (V s key))"
    using assms(1) by (auto simp: acts_def)
  then obtain s2 where "n (f (V s key)) s1 = (Inr (f' (f (V s key)) (V s1 key)), s2)" "I s2"
      "V s2 = (V s1)(key := g' (f (V s key)) (V s1 key))"
    using assms(2) unfolding acts_def by blast
  with 1 show "\<exists>s'. bindE m n s = (Inr (f' (f (V s key)) (g (V s key))), s') \<and> I s'
      \<and> V s' = (V s)(key := g' (f (V s key)) (g (V s key)))"
    by (intro exI [of _ s2]) (simp add: bindE_def)
qed

lemma acts_cong: "\<lbrakk> acts I V key m f g; \<And>v. f v = f' v; \<And>v. g v = g' v \<rbrakk> \<Longrightarrow> acts I V key m f' g'"
  unfolding acts_def by simp

lemma acts_each:
  assumes "\<And>x. x \<in> set xs \<Longrightarrow> acts I V key (h x) (\<lambda>_. ()) (g x)"
  shows "acts I V key (eachE h xs) (\<lambda>_. ()) (\<lambda>v. fold g xs v)"
  using assms
proof (induction xs)
  case (Cons x xs)
  have "acts I V key (eachE h (x # xs)) (\<lambda>_. ()) (\<lambda>v. fold g xs (g x v))"
    unfolding eachE.simps
    by (rule acts_bind [where f = "\<lambda>_. ()" and f' = "\<lambda>_ _. ()" and g' = "\<lambda>_. fold g xs"])
      (use Cons in auto)
  then show ?case by simp
qed (simp add: acts_def retE_def)

lemma bind_result [simp]: "bindE (resultE (Inr x)) f = f x"
  by (simp add: resultE_def bindE_def)

lemma acts_seq:
  "\<lbrakk> acts I V key m (\<lambda>_. ()) g; acts I V key n f' g' \<rbrakk> \<Longrightarrow> acts I V key (bindE m (\<lambda>_. n)) (\<lambda>v. f' (g v)) (\<lambda>v. g' (g v))"
  by (rule acts_bind)

lemma acts_then:
  "\<lbrakk> acts I V key m f g; acts I V key n f' g' \<rbrakk> \<Longrightarrow> acts I V key (bindE m (\<lambda>_. n)) (\<lambda>v. f' (g v)) (\<lambda>v. g' (g v))"
  by (rule acts_bind)

text \<open>Acting on the layout of a key is acting on its view.\<close>

lemma acts_abs:
  assumes "acts (\<lambda>_. True) D key m f g"
    and "\<And>d. P d \<Longrightarrow> P (g d) \<and> abs (g d) = g' (abs d) \<and> f d = f' (abs d)"
  shows "acts (\<lambda>s. \<forall>k. P (D s k)) (\<lambda>s k. abs (D s k)) key m f' g'"
  unfolding acts_def
proof (intro allI impI)
  fix s
  assume ok: "\<forall>k. P (D s k)"
  obtain s' where s': "m s = (Inr (f (D s key)), s')" "D s' = (D s)(key := g (D s key))"
    using assms(1) by (auto simp: acts_def)
  then show "\<exists>s'. m s = (Inr (f' (abs (D s key))), s') \<and> (\<forall>k. P (D s' k))
      \<and> (\<lambda>k. abs (D s' k)) = (\<lambda>k. abs (D s k))(key := g' (abs (D s key)))"
    using assms(2) ok by (intro exI [of _ s']) (auto simp: fun_eq_iff)
qed

lemma acts_gets: "(\<And>db. I db \<Longrightarrow> h db = f (V db key)) \<Longrightarrow> acts I V key (getsE h) f (\<lambda>v. v)"
  by (simp add: acts_def getsE_def)

lemma acts_void: "acts I V key m f g \<Longrightarrow> acts I V key (bindE m (\<lambda>_. retE ())) (\<lambda>_. ()) g"
  unfolding acts_def by (fastforce simp: bindE_def retE_def)

text \<open>What \<^verbatim>\<open>writes\<close> asks of one command.\<close>

definition obeys ::
  "('s \<Rightarrow> bool) \<Rightarrow> ('s \<Rightarrow> pkey \<Rightarrow> key_view) \<Rightarrow> store_cmd \<Rightarrow> ('s \<Rightarrow> (thrown + reply) \<times> 's) \<Rightarrow> 's \<Rightarrow> bool" where
  "obeys I V c m s \<longleftrightarrow> I (snd (m s)) \<and> spec_step c (V s) = (fst (m s), V (snd (m s)))"

lemma obeys_acts:
  assumes "acts I V (cmd_key c) m f g" "I s" "spec c (V s (cmd_key c)) = (Inr (h (f (V s (cmd_key c)))), g (V s (cmd_key c)))"
  shows "obeys I V c (replies h m) s"
  using assms by (auto simp: acts_def obeys_def replies_eq spec_step_def)

end
