(* ===== verification/Store_Memory.thy ===== *)
theory Store_Memory
  imports Store_Spec
begin

text \<open>
  The in-memory store (\<^verbatim>\<open>Memory_Store\<close>) keeps the contract of the port: its methods as one step function on
  the commands and one on the queries, its view of a key, and the interpretation of \<^verbatim>\<open>state_store\<close>. Also the
  general facts on maps given by lists that every instance uses.
\<close>

section \<open>Maps given by lists\<close>

lemma put_rows_map: "map_of (set_all key val xs m) = put_rows key val xs (map_of m)"
  by (induction xs arbitrary: m) simp_all

lemma drop_rows_map: "map_of (delete_all ks m) = drop_rows ks (map_of m)"
  by (rule ext) (simp add: map_of_delete_all drop_rows_def restrict_map_def)

lemma drop_rows_Nil [simp]: "drop_rows [] m = m"
  by (rule ext) (simp add: drop_rows_def restrict_map_def)

lemma drop_rows_at: "drop_rows ks m k = (if k \<in> set ks then None else m k)"
  by (simp add: drop_rows_def restrict_map_def)

lemma fold_put_items:
  "fold (\<lambda>row v. v\<lparr>kv_items := (kv_items v)(ir_identity row \<mapsto> row)\<rparr>) xs v = v\<lparr>kv_items := put_rows ir_identity (\<lambda>x. x) xs (kv_items v)\<rparr>"
  by (induction xs arbitrary: v) simp_all

lemma fold_put_outbox:
  "fold (\<lambda>row v. v\<lparr>kv_outbox := (kv_outbox v)(ob_eventId row \<mapsto> row)\<rparr>) xs v = v\<lparr>kv_outbox := put_rows ob_eventId (\<lambda>x. x) xs (kv_outbox v)\<rparr>"
  by (induction xs arbitrary: v) simp_all

lemma fold_put_parked:
  "fold (\<lambda>row v. v\<lparr>kv_parked := (kv_parked v)(pk_id row \<mapsto> row)\<rparr>) xs v = v\<lparr>kv_parked := put_rows pk_id (\<lambda>x. x) xs (kv_parked v)\<rparr>"
  by (induction xs arbitrary: v) simp_all

lemma fold_put_log:
  "fold (\<lambda>row v. v\<lparr>kv_log := (kv_log v)(ob_sequence row \<mapsto> log_entry row)\<rparr>) xs v
     = v\<lparr>kv_log := put_rows ob_sequence log_entry xs (kv_log v)\<rparr>"
  by (induction xs arbitrary: v) simp_all

lemmas fold_put = fold_put_items fold_put_outbox fold_put_parked fold_put_log

lemma drop_rows_Cons: "drop_rows ids (drop_rows [i] m) = drop_rows (i # ids) m"
  by (simp add: drop_rows_at fun_eq_iff)

lemma fold_drop:
  "fold (\<lambda>i v. v\<lparr>kv_items := drop_rows [i] (kv_items v)\<rparr>) ids v = v\<lparr>kv_items := drop_rows ids (kv_items v)\<rparr>"
  "fold (\<lambda>i v. v\<lparr>kv_outbox := drop_rows [i] (kv_outbox v)\<rparr>) ids v = v\<lparr>kv_outbox := drop_rows ids (kv_outbox v)\<rparr>"
  by (induction ids arbitrary: v, simp, simp add: drop_rows_Cons)+

lemma put_rows_at: "put_rows key val xs m k = (if k \<in> key ` set xs then put_rows key val xs Map.empty k else m k)"
proof (induction xs arbitrary: m)
  case (Cons x xs)
  show ?case unfolding put_rows.simps by (subst (1 2) Cons) auto
qed simp

lemma put_rows_SomeE:
  assumes "put_rows key val xs m k = Some v"
  obtains "m k = Some v" "k \<notin> key ` set xs" | x where "x \<in> set xs" "key x = k" "val x = v"
  using assms
proof (induction xs arbitrary: m thesis)
  case (Cons x xs)
  show thesis
  proof (rule Cons.IH [of "m(key x \<mapsto> val x)"])
    show "put_rows key val xs (m(key x \<mapsto> val x)) k = Some v" using Cons.prems(3) by simp
  qed (use Cons.prems(1,2) in \<open>auto split: if_splits\<close>)
qed simp

lemma card_keys: "distinct (map fst m) \<Longrightarrow> card (dom (map_of m)) = length m"
  using distinct_card [of "map fst m"] by (simp add: dom_map_of_conv_image_fst)

lemma card_where:
  assumes "distinct (map fst m)"
  shows "card {i. \<exists>x. map_of m i = Some x \<and> P x} = length (filter (\<lambda>(i, x). P x) m)"
proof -
  have "{i. \<exists>x. map_of m i = Some x \<and> P x} = set (map fst (filter (\<lambda>(i, x). P x) m))"
    using assms by (force simp: image_iff)
  moreover have "distinct (map fst (filter (\<lambda>(i, x). P x) m))" using assms by (rule distinct_map_filter)
  ultimately show ?thesis by (metis distinct_card length_map)
qed

lemma filter_values: "length (filter P (map snd m)) = length (filter (\<lambda>(i, x). P x) m)"
  by (induction m) auto

lemma ran_rows: "distinct (map fst m) \<Longrightarrow> ran (map_of m) = snd ` set m"
  by (simp add: ran_distinct)

text \<open>Every row is kept under the key that one of its columns holds.\<close>

definition keyed :: "('v \<Rightarrow> 'k) \<Rightarrow> ('k \<times> 'v) list \<Rightarrow> bool" where
  "keyed f m \<longleftrightarrow> (\<forall>(i, row) \<in> set m. f row = i)"

lemma keyed_Nil [simp]: "keyed f []"
  by (simp add: keyed_def)

lemma keyed_update: "\<lbrakk> keyed f m; f v = k \<rbrakk> \<Longrightarrow> keyed f (AList.update k v m)"
  using set_update_subset [of k v m] unfolding keyed_def by blast

lemma keyed_delete: "keyed f m \<Longrightarrow> keyed f (AList.delete k m)"
  using set_delete_subset [of k m] unfolding keyed_def by blast

lemma keyed_set_all: "keyed f m \<Longrightarrow> keyed f (set_all f (\<lambda>x. x) xs m)"
  by (induction xs arbitrary: m) (simp_all add: keyed_update)

lemma keyed_delete_all: "keyed f m \<Longrightarrow> keyed f (delete_all ks m)"
  by (induction ks arbitrary: m) (simp_all add: keyed_delete)

lemma distinct_rows:
  assumes "distinct (map fst m)" "keyed f m"
  shows "distinct (map snd m)"
proof -
  have "map f (map snd m) = map fst m"
    unfolding map_map by (rule map_cong [OF refl]) (use assms(2) in \<open>auto simp: keyed_def\<close>)
  then have "distinct (map f (map snd m))" using assms(1) by metis
  then show ?thesis unfolding distinct_map by blast
qed

lemma count_deletes:
  assumes "finite (dom m)"
  shows "card (set (i # ids) \<inter> dom m) = (if m i = None then 0 else 1) + card (set ids \<inter> dom (m(i := None)))"
proof -
  have "set (i # ids) \<inter> dom m = (if m i = None then {} else {i}) \<union> (set ids \<inter> dom (m(i := None)))"
    by (auto simp: domIff)
  then show ?thesis by simp
qed

lemma concat_batches: "0 < n \<Longrightarrow> concat (batches n xs) = xs"
proof (induction n xs rule: batches.induct)
  case (1 n xs)
  then show ?case by (subst batches.simps) (auto simp del: concat_eq_Nil_conv)
qed

text \<open>The listing that a stable sort of the rows gives.\<close>

lemma listing_sort:
  assumes "distinct xs" "set xs = S"
  shows "listing f S n (take (opt_or n (length xs)) (js_sort_by f xs))"
proof -
  have "distinct (js_sort_by f xs)" using assms(1) by (simp add: js_sort_by_def)
  then show ?thesis unfolding listing_def
    by (intro exI [of _ "js_sort_by f xs"]) (use assms(2) in simp)
qed

section \<open>The methods as commands and queries\<close>

fun mem_step :: "store_cmd \<Rightarrow> store \<Rightarrow> (thrown + reply) \<times> store" where
  "mem_step (Acquire k owner ttl now) = replies RLease (acquireLease k owner ttl now)"
| "mem_step (Renew k l ttl now) = replies RBool (renewLease k l ttl now)"
| "mem_step (Release k l) = replies (\<lambda>_. RUnit) (releaseLease k l)"
| "mem_step (Save k l patch) = replies (\<lambda>_. RUnit) (saveState k l patch)"
| "mem_step (SaveUnfenced k patch) = replies (\<lambda>_. RUnit) (saveStateUnfenced k patch)"
| "mem_step (DeleteKey k) = replies (\<lambda>_. RUnit) (deleteKey k)"
| "mem_step (Clear k) = replies (\<lambda>_. RUnit) (clearItems k)"
| "mem_step (Commit k l b) = replies (\<lambda>_. RUnit) (commitPoll k l b)"
| "mem_step (Ack k l ids) = replies (\<lambda>_. RUnit) (ackEvents k l ids)"
| "mem_step (Attempt k l eid err next) = replies (\<lambda>_. RUnit) (recordAttempt k l eid err next)"
| "mem_step (ParkRow k l row) = replies (\<lambda>_. RUnit) (parkEvent k l row)"
| "mem_step (Retry k ids) = replies RCount (retryParked k ids)"
| "mem_step (Discard k ids) = replies RCount (discardParked k ids)"
| "mem_step (SetVal k l h v) = replies (\<lambda>_. RUnit) (setValidator k l h v)"
| "mem_step (Prune k t) = replies RCount (pruneLog k t)"

fun mem_read :: "query \<Rightarrow> pkey \<Rightarrow> store \<Rightarrow> thrown + answer" where
  "mem_read QLease key st = map_sum id ALease (fst (getLease key st))"
| "mem_read QState key st = map_sum id AState (fst (loadState key st))"
| "mem_read (QVersions ids) key st = map_sum id (AVersions \<circ> map_of) (fst (loadVersions key ids st))"
| "mem_read QCountItems key st = map_sum id ACount (fst (countItems key st))"
| "mem_read (QPending n) key st = map_sum id APending (fst (loadPending key n st))"
| "mem_read QCountPending key st = map_sum id ACount (fst (countPending key st))"
| "mem_read (QParked kind n) key st = map_sum id AParked (fst (listParked key kind n st))"
| "mem_read QCountParked key st = map_sum id ACount (fst (countParked key st))"
| "mem_read QHeld key st = map_sum id AHeld (fst (heldKeys key st))"
| "mem_read (QValidator h) key st = map_sum id AValidator (fst (getValidator key h st))"
| "mem_read (QLog rg n) key st = map_sum id ALog (fst (readLog key rg n st))"

lemma mem_step_exec: "snd (mem_step c st) = exec c st"
  by (cases c) (simp_all add: replies_def split: prod.splits)

section \<open>The view\<close>

definition log_map :: "logged_event list \<Rightarrow> nat \<rightharpoonup> logged_event" where
  "log_map es = map_of (map (\<lambda>e. (le_sequence e, e)) es)"

definition rec_view :: "key_record \<Rightarrow> key_view" where
  "rec_view r = \<lparr>kv_state = kr_state r, kv_lease = kr_lease r, kv_counter = kr_epochCounter r,
     kv_items = map_of (kr_items r), kv_outbox = map_of (kr_outbox r), kv_parked = map_of (kr_parked r),
     kv_validators = map_of (kr_validators r), kv_log = log_map (kr_log r)\<rparr>"

definition mem_view :: "store \<Rightarrow> pkey \<Rightarrow> key_view" where
  "mem_view st k = rec_view (rec_of st k)"

definition rec_tables :: "key_record \<Rightarrow> bool" where
  "rec_tables r \<longleftrightarrow> distinct (map fst (kr_items r))
     \<and> distinct (map fst (kr_outbox r)) \<and> keyed ob_eventId (kr_outbox r)
     \<and> distinct (map fst (kr_parked r)) \<and> keyed pk_id (kr_parked r)
     \<and> distinct (map le_sequence (kr_log r))"

definition mem_ok :: "store \<Rightarrow> bool" where
  "mem_ok st \<longleftrightarrow> (\<forall>k. rec_tables (rec_of st k))"

lemma rec_view_fresh [simp]: "rec_view (fresh_record k) = empty_view"
  by (simp add: rec_view_def fresh_record_def empty_view_def log_map_def)

lemma rec_tables_fresh [simp]: "rec_tables (fresh_record k)"
  by (simp add: rec_tables_def fresh_record_def)

lemma log_map_Cons: "log_map (e # es) = (log_map es)(le_sequence e \<mapsto> e)"
  by (simp add: log_map_def)

lemma log_map_snoc: "log_map es (le_sequence e) = None \<Longrightarrow> log_map (es @ [e]) = (log_map es)(le_sequence e \<mapsto> e)"
  by (auto simp: log_map_def map_add_def fun_eq_iff split: option.splits)

lemma log_map_append:
  "\<lbrakk> distinct (map ob_sequence rows); list_all (\<lambda>row. log_map es (ob_sequence row) = None) rows \<rbrakk>
    \<Longrightarrow> log_map (es @ map log_entry rows) = put_rows ob_sequence log_entry rows (log_map es)"
proof (induction rows arbitrary: es)
  case (Cons row rows)
  have s: "log_map (es @ [log_entry row]) = (log_map es)(ob_sequence row \<mapsto> log_entry row)"
    using log_map_snoc [of es "log_entry row"] Cons.prems(2) by (simp add: log_entry_def)
  have "list_all (\<lambda>r. log_map (es @ [log_entry row]) (ob_sequence r) = None) rows"
    unfolding s using Cons.prems by (auto simp: list_all_iff image_iff)
  from Cons.IH [OF _ this, unfolded s] Cons.prems(1) show ?case by (simp del: fun_upd_apply)
qed simp

lemma log_map_None: "log_map es s = None \<longleftrightarrow> s \<notin> le_sequence ` set es"
  by (auto simp: log_map_def map_of_eq_None_iff image_image)

lemma log_map_Some: "distinct (map le_sequence es) \<Longrightarrow> log_map es s = Some e \<longleftrightarrow> e \<in> set es \<and> le_sequence e = s"
proof -
  assume "distinct (map le_sequence es)"
  then have "distinct (map fst (map (\<lambda>e. (le_sequence e, e)) es))" by (simp add: comp_def)
  then show ?thesis by (auto simp: log_map_def)
qed

section \<open>Every command does what the contract says\<close>

definition keeps_contract :: "store_cmd \<Rightarrow> store \<Rightarrow> bool" where
  "keeps_contract c st \<longleftrightarrow> spec c (mem_view st (cmd_key c)) = (fst (mem_step c st), mem_view (snd (mem_step c st)) (cmd_key c))
     \<and> rec_tables (rec_of (snd (mem_step c st)) (cmd_key c))"

lemma mem_guarded:
  assumes "rec_tables (rec_of st k)" "rec_view (f (rec_of st k)) = g (rec_view (rec_of st k))" "rec_tables (f (rec_of st k))"
  shows "guarded k l g (mem_view st k) = (fst (replies (\<lambda>_. RUnit) (fenced k l f) st), mem_view (snd (replies (\<lambda>_. RUnit) (fenced k l f) st)) k)
    \<and> rec_tables (rec_of (snd (replies (\<lambda>_. RUnit) (fenced k l f) st)) k)"
  using assms by (simp add: guarded_def replies_eq fenced_res fenced_rec mem_view_def matches_token rec_view_def)

lemma applyPatch_state [simp]: "kr_state (applyPatch r p) = Some (next_state p (kr_state r))"
  by (simp add: applyPatch_def next_state_def Let_def)

lemma rec_view_state: "rec_view (applyPatch r p) = (rec_view r)\<lparr>kv_state := Some (next_state p (kr_state r))\<rparr>"
  by (simp add: rec_view_def)

lemma rec_tables_state: "rec_tables (applyPatch r p) = rec_tables r"
  by (simp add: rec_tables_def)

lemma mem_commit:
  assumes "rec_tables r" "admissible (Commit k l b) (rec_view r)"
  shows "rec_view (commit_record b r) = commit_view b (rec_view r)" "rec_tables (commit_record b r)"
proof -
  have log: "log_map (kr_log r @ map log_entry (cb_events b)) = put_rows ob_sequence log_entry (cb_events b) (log_map (kr_log r))"
    if "cb_log b" using assms(2) that by (intro log_map_append) (simp_all add: rec_view_def)
  show "rec_view (commit_record b r) = commit_view b (rec_view r)"
    by (simp add: commit_record_def commit_view_def Let_def rec_view_state)
      (simp add: rec_view_def drop_rows_map put_rows_map log)
  have "distinct (map le_sequence (kr_log r @ map log_entry (cb_events b)))" if "cb_log b"
    using assms that by (auto simp: rec_tables_def rec_view_def log_map_None list_all_iff log_entry_def comp_def image_iff)
      (metis (no_types))+
  then show "rec_tables (commit_record b r)"
    using assms(1) by (simp add: commit_record_def Let_def rec_tables_def distinct_set_all distinct_delete_all
        keyed_set_all keyed_delete_all comp_def)
qed

lemma mem_retry:
  "rec_tables r \<Longrightarrow> retry_view ids n (rec_view r) = (fst (retry_loop ids n r), rec_view (snd (retry_loop ids n r)))
     \<and> rec_tables (snd (retry_loop ids n r))"
proof (induction ids n r rule: retry_loop.induct)
  case (2 i ids n r)
  show ?case
  proof (cases "\<exists>row ev. map_of (kr_parked r) i = Some row \<and> pk_kind row = Poison \<and> pk_event row = Some ev")
    case True
    then obtain row ev where row: "map_of (kr_parked r) i = Some row" "pk_kind row = Poison" "pk_event row = Some ev" by blast
    let ?r = "r\<lparr>kr_outbox := AList.update (ev_id ev) (retried_row ev (pk_parkedAt row)) (kr_outbox r),
        kr_parked := AList.delete i (kr_parked r)\<rparr>"
    have v: "rec_view ?r = (rec_view r)\<lparr>kv_outbox := (kv_outbox (rec_view r))(ev_id ev \<mapsto> retried_row ev (pk_parkedAt row)),
        kv_parked := (kv_parked (rec_view r))(i := None)\<rparr>" by (simp add: rec_view_def)
    have "rec_tables ?r" using "2.prems"
      by (simp add: rec_tables_def distinct_keys_update distinct_keys_delete keyed_delete keyed_update retried_row_def)
    from "2.IH"(3) [OF row(1) _ row(2,3) this] show ?thesis
      using row by (simp add: v) (simp add: rec_view_def)
  next
    case False
    have "retry_loop (i # ids) n r = retry_loop ids n r"
      "retry_view (i # ids) n (rec_view r) = retry_view ids n (rec_view r)"
      using False by (auto simp: rec_view_def split: option.splits parked_kind.splits)
    then show ?thesis using 2 False by (auto split: option.splits parked_kind.splits)
  qed
qed simp

lemma mem_discard:
  "rec_tables r \<Longrightarrow> fst (discard_loop ids n r) = n + card (set ids \<inter> dom (map_of (kr_parked r)))
     \<and> rec_view (snd (discard_loop ids n r)) = (rec_view r)\<lparr>kv_parked := drop_rows ids (map_of (kr_parked r))\<rparr>
     \<and> rec_tables (snd (discard_loop ids n r))"
proof (induction ids arbitrary: n r)
  case (Cons i ids)
  let ?r = "r\<lparr>kr_parked := AList.delete i (kr_parked r)\<rparr>"
  have "rec_tables ?r" using Cons.prems by (simp add: rec_tables_def distinct_keys_delete keyed_delete)
  note IH = Cons.IH [OF this]
  have 1: "fst (discard_loop ids m ?r) = m + card (set ids \<inter> dom ((map_of (kr_parked r))(i := None)))" for m
    using IH [of m] by (simp del: dom_fun_upd fun_upd_apply)
  have "drop_rows ids ((map_of (kr_parked r))(i := None)) = drop_rows (i # ids) (map_of (kr_parked r))"
    by (simp add: drop_rows_at fun_eq_iff)
  then have 2: "rec_view (snd (discard_loop ids m ?r)) = (rec_view r)\<lparr>kv_parked := drop_rows (i # ids) (map_of (kr_parked r))\<rparr>" for m
    using IH [of m] by (simp add: rec_view_def del: fun_upd_apply)
  show ?case
    unfolding discard_loop.simps 1 2 count_deletes [OF finite_dom_map_of] using IH by simp
qed (simp add: rec_view_def)

lemma mem_prune:
  assumes "rec_tables r"
  shows "card {s. \<exists>e. log_map (kr_log r) s = Some e \<and> le_createdAt e < t}
      = length (kr_log r) - length (filter (\<lambda>e. t \<le> le_createdAt e) (kr_log r))"
    "log_map (filter (\<lambda>e. t \<le> le_createdAt e) (kr_log r)) =
      (\<lambda>s. case log_map (kr_log r) s of None \<Rightarrow> None | Some e \<Rightarrow> if le_createdAt e < t then None else Some e)"
proof -
  have d: "distinct (map le_sequence (kr_log r))" using assms by (simp add: rec_tables_def)
  then have "distinct (map fst (map (\<lambda>e. (le_sequence e, e)) (kr_log r)))" by (simp add: comp_def)
  from card_where [OF this, of "\<lambda>e. le_createdAt e < t"]
  have "card {s. \<exists>e. log_map (kr_log r) s = Some e \<and> le_createdAt e < t} = length (filter (\<lambda>e. le_createdAt e < t) (kr_log r))"
    by (simp add: log_map_def filter_map comp_def)
  also have "\<dots> = length (kr_log r) - length (filter (\<lambda>e. t \<le> le_createdAt e) (kr_log r))"
    using sum_length_filter_compl [of "\<lambda>e. le_createdAt e < t" "kr_log r"] by (simp add: not_less)
  finally show "card {s. \<exists>e. log_map (kr_log r) s = Some e \<and> le_createdAt e < t}
      = length (kr_log r) - length (filter (\<lambda>e. t \<le> le_createdAt e) (kr_log r))" .
  have f: "distinct (map le_sequence (filter (\<lambda>e. t \<le> le_createdAt e) (kr_log r)))" using d by (rule distinct_map_filter)
  show "log_map (filter (\<lambda>e. t \<le> le_createdAt e) (kr_log r)) =
      (\<lambda>s. case log_map (kr_log r) s of None \<Rightarrow> None | Some e \<Rightarrow> if le_createdAt e < t then None else Some e)"
  proof
    fix s
    show "log_map (filter (\<lambda>e. t \<le> le_createdAt e) (kr_log r)) s =
      (case log_map (kr_log r) s of None \<Rightarrow> None | Some e \<Rightarrow> if le_createdAt e < t then None else Some e)"
    proof (cases "log_map (kr_log r) s")
      case None
      then have "log_map (filter (\<lambda>e. t \<le> le_createdAt e) (kr_log r)) s = None" by (auto simp: log_map_None)
      with None show ?thesis by simp
    next
      case (Some e)
      then have e: "e \<in> set (kr_log r)" "le_sequence e = s" using log_map_Some [OF d] by auto
      have one: "e' = e" if "e' \<in> set (kr_log r)" "le_sequence e' = s" for e'
        using log_map_Some [OF d, of s e'] Some that by simp
      show ?thesis
      proof (cases "le_createdAt e < t")
        case True
        then have "log_map (filter (\<lambda>e. t \<le> le_createdAt e) (kr_log r)) s = None" using one by (auto simp: log_map_None)
        with Some True show ?thesis by simp
      next
        case False
        then have "log_map (filter (\<lambda>e. t \<le> le_createdAt e) (kr_log r)) s = Some e"
          using e by (simp add: log_map_Some [OF f])
        with Some False show ?thesis by simp
      qed
    qed
  qed
qed

lemma update_existing_res:
  "f (fresh_record key) = (d, r) \<Longrightarrow> fst (update_existing key d f st) = Inr (fst (f (rec_of st key)))"
  by (auto simp: update_existing_def rec_of_def split: option.splits prod.splits)

lemma delete_rec: "rec_of (snd (deleteKey key st)) k = (if k = key then fresh_record k else rec_of st k)"
  by (auto simp: deleteKey_def modifyE_def rec_of_def peek_def key_id_inj split: option.splits)

lemma mem_leases:
  assumes "rec_tables (rec_of st (cmd_key c))" "c = Acquire k owner ttl now \<or> c = Renew k l ttl now \<or> c = Release k l"
  shows "keeps_contract c st"
  using assms unfolding keeps_contract_def
  by (auto simp: replies_eq acquire_res acquire_rec renewLease_def releaseLease_def with_record_res with_record_rec
      matches_token mem_view_def rec_view_def rec_tables_def Let_def)

lemma mem_contract:
  assumes ok: "mem_ok st" and adm: "admissible c (mem_view st (cmd_key c))"
  shows "keeps_contract c st"
proof -
  let ?k = "cmd_key c"
  let ?r = "rec_of st ?k"
  have t: "rec_tables ?r" using ok by (simp add: mem_ok_def)
  note simps = keeps_contract_def replies_eq mem_view_def
  note guard = mem_guarded [OF t, unfolded mem_view_def]
  show ?thesis
  proof (cases c)
    case (Save k l p)
    show ?thesis using guard [of "\<lambda>r. applyPatch r p" "\<lambda>v. v\<lparr>kv_state := Some (next_state p (kv_state v))\<rparr>" l] t Save
      by (simp add: keeps_contract_def mem_view_def saveState_def rec_view_state rec_tables_state) (simp add: rec_view_def)
  next
    case (SaveUnfenced k p)
    then show ?thesis using t
      by (simp add: simps saveStateUnfenced_def with_record_res with_record_rec rec_view_state rec_tables_state)
        (simp add: rec_view_def)
  next
    case (DeleteKey k)
    then show ?thesis by (simp add: simps delete_rec) (simp add: deleteKey_def modifyE_def)
  next
    case (Clear k)
    then show ?thesis using t
      by (simp add: simps clear_rec) (simp add: clearItems_def update_existing_res fresh_record_def rec_view_def rec_tables_def)
  next
    case (Commit k l b)
    then show ?thesis
      using guard [of "commit_record b" "commit_view b" l] mem_commit [OF t, of k l b] adm
      by (simp add: keeps_contract_def mem_view_def commitPoll_def)
  next
    case (Ack k l ids)
    then show ?thesis using guard [of "\<lambda>r. r\<lparr>kr_outbox := delete_all ids (kr_outbox r)\<rparr>" "\<lambda>v. v\<lparr>kv_outbox := drop_rows ids (kv_outbox v)\<rparr>" l] t
      by (simp add: keeps_contract_def mem_view_def ackEvents_def)
        (simp add: rec_view_def rec_tables_def drop_rows_map distinct_delete_all keyed_delete_all)
  next
    case (Attempt k l eid err due)
    let ?g = "\<lambda>row. row\<lparr>ob_attempts := ob_attempts row + 1, ob_lastError := err, ob_nextAttemptAt := due\<rparr>"
    let ?f = "\<lambda>r. case map_of (kr_outbox r) eid of None \<Rightarrow> r | Some row \<Rightarrow> r\<lparr>kr_outbox := AList.update eid (?g row) (kr_outbox r)\<rparr>"
    have "rec_view (?f ?r) = (\<lambda>v. v\<lparr>kv_outbox := (kv_outbox v)(eid := map_option ?g (kv_outbox v eid))\<rparr>) (rec_view ?r)"
      by (auto simp: rec_view_def fun_eq_iff split: option.splits)
    moreover have "rec_tables (?f ?r)"
    proof (cases "map_of (kr_outbox ?r) eid")
      case (Some row)
      then have "ob_eventId row = eid" using t map_of_SomeD [OF Some] by (auto simp: rec_tables_def keyed_def)
      with Some t show ?thesis by (simp add: rec_tables_def distinct_keys_update keyed_update)
    qed (use t in simp)
    ultimately show ?thesis using guard [of ?f, where l = l] Attempt
      by (simp add: keeps_contract_def mem_view_def recordAttempt_def)
  next
    case (ParkRow k l row)
    let ?f = "\<lambda>r. r\<lparr>kr_parked := AList.update (pk_id row) row (kr_parked r),
         kr_outbox := (case pk_event row of None \<Rightarrow> kr_outbox r | Some ev \<Rightarrow> AList.delete (ev_id ev) (kr_outbox r))\<rparr>"
    have "rec_view (?f ?r) = (\<lambda>v. v\<lparr>kv_parked := (kv_parked v)(pk_id row \<mapsto> row),
       kv_outbox := drop_rows (case pk_event row of None \<Rightarrow> [] | Some ev \<Rightarrow> [ev_id ev]) (kv_outbox v)\<rparr>) (rec_view ?r)"
      by (auto simp: rec_view_def drop_rows_at fun_eq_iff split: option.splits)
    moreover have "rec_tables (?f ?r)" using t
      by (auto simp: rec_tables_def distinct_keys_update keyed_update distinct_keys_delete keyed_delete split: option.splits)
    ultimately show ?thesis using guard [of ?f, where l = l] ParkRow
      by (simp add: keeps_contract_def mem_view_def parkEvent_def)
  next
    case (Retry k ids)
    then show ?thesis using mem_retry [OF t, of ids 0]
      by (simp add: simps retry_rec) (simp add: retryParked_def update_existing_res)
  next
    case (Discard k ids)
    then show ?thesis using mem_discard [OF t, of ids 0]
      by (simp add: simps discard_rec) (simp add: discardParked_def update_existing_res rec_view_def)
  next
    case (SetVal k l h v)
    then show ?thesis using guard [of "\<lambda>r. r\<lparr>kr_validators := AList.update h v (kr_validators r)\<rparr>"
          "\<lambda>w. w\<lparr>kv_validators := (kv_validators w)(h \<mapsto> v)\<rparr>" l] t
      by (simp add: keeps_contract_def mem_view_def setValidator_def) (simp add: rec_view_def rec_tables_def)
  next
    case (Prune k t')
    have "rec_tables (?r\<lparr>kr_log := filter (\<lambda>e. t' \<le> le_createdAt e) (kr_log ?r)\<rparr>)"
      using t by (simp add: rec_tables_def distinct_map_filter)
    then show ?thesis using Prune mem_prune [OF t, of t']
      by (simp add: simps prune_rec) (simp add: pruneLog_def update_existing_res Let_def fresh_record_def rec_view_def)
  qed (use t in \<open>auto intro!: mem_leases\<close>)
qed

section \<open>Every query answers what the contract says\<close>

lemma fresh_fields [simp]: "kr_items (fresh_record k) = []" "kr_outbox (fresh_record k) = []" "kr_parked (fresh_record k) = []"
  "kr_validators (fresh_record k) = []" "kr_log (fresh_record k) = []" "kr_state (fresh_record k) = None"
  by (simp_all add: fresh_record_def)

lemma peek_rec: "F (fresh_record key) = d \<Longrightarrow> (case peek st key of None \<Rightarrow> d | Some r \<Rightarrow> F r) = F (rec_of st key)"
  by (simp add: rec_of_def split: option.splits)

lemma bind_rec: "f (fresh_record key) = None \<Longrightarrow> Option.bind (peek st key) f = f (rec_of st key)"
  by (simp add: rec_of_def split: option.splits)

lemma versions_of_map: "map_of (versions_of items ids out) i = (if i \<in> set ids \<and> map_of items i \<noteq> None then map_of items i else map_of out i)"
  by (induction ids arbitrary: out) (auto split: option.splits)

lemma versions_of_Nil [simp]: "versions_of [] ids out = out"
  by (induction ids) simp_all

lemma versions_restrict: "map_of (versions_of items ids []) = map_of items |` set ids"
  by (rule ext) (auto simp: versions_of_map restrict_map_def)

lemma pending_listing:
  assumes "rec_tables r"
  shows "listing ob_sequence {row \<in> ran (map_of (kr_outbox r)). ob_status row = Pending} (Some n) (take n (pending_rows r))"
proof -
  have "distinct (map snd (kr_outbox r))" using assms by (intro distinct_rows) (auto simp: rec_tables_def)
  then show ?thesis
    using listing_sort [of "filter (\<lambda>row. ob_status row = Pending) (map snd (kr_outbox r))" _ ob_sequence "Some n"] assms
    by (simp add: pending_rows_def ran_rows rec_tables_def)
qed

lemma parked_listing:
  assumes "rec_tables r"
  shows "listing pk_parkedAt {row \<in> ran (map_of (kr_parked r)). kind = None \<or> kind = Some (pk_kind row)} n
    (let rows = js_sort_by pk_parkedAt (filter (\<lambda>row. kind = None \<or> Some (pk_kind row) = kind) (map snd (kr_parked r)))
     in take (opt_or n (length rows)) rows)"
proof -
  let ?rows = "filter (\<lambda>row. kind = None \<or> Some (pk_kind row) = kind) (map snd (kr_parked r))"
  have "distinct ?rows" using assms by (intro distinct_filter distinct_rows [where f = pk_id]) (auto simp: rec_tables_def)
  moreover have "set ?rows = {row \<in> ran (map_of (kr_parked r)). kind = None \<or> kind = Some (pk_kind row)}"
    using assms by (auto simp: ran_rows rec_tables_def)
  ultimately show ?thesis using listing_sort [of ?rows _ pk_parkedAt n] by (simp add: Let_def)
qed

lemma ran_log_map: "distinct (map le_sequence es) \<Longrightarrow> ran (log_map es) = set es"
  by (auto simp: ran_def log_map_Some)

lemma log_listing:
  assumes "rec_tables r"
  shows "listing le_sequence {e \<in> ran (log_map (kr_log r)). in_range rg e} (Some n)
    (take n (js_sort_by le_sequence (filter (in_range rg) (kr_log r))))"
proof -
  have d: "distinct (map le_sequence (kr_log r))" using assms by (simp add: rec_tables_def)
  then have "distinct (filter (in_range rg) (kr_log r))" by (simp add: distinct_map)
  moreover have "set (filter (in_range rg) (kr_log r)) = {e \<in> ran (log_map (kr_log r)). in_range rg e}"
    by (auto simp: ran_log_map [OF d])
  ultimately show ?thesis using listing_sort [of "filter (in_range rg) (kr_log r)" _ le_sequence "Some n"] by simp
qed

lemma mem_reads:
  assumes "mem_ok st"
  shows "\<exists>a. mem_read qu key st = Inr a \<and> answers qu (mem_view st key) a"
proof -
  let ?r = "rec_of st key"
  have t: "rec_tables ?r" using assms by (simp add: mem_ok_def)
  note views = mem_view_def rec_view_def getsE_def peek_rec bind_rec
  show ?thesis
  proof (cases qu)
    case QLease
    then show ?thesis by (simp add: views getLease_def)
  next
    case QState
    then show ?thesis by (simp add: views loadState_def)
  next
    case (QVersions ids)
    then show ?thesis by (simp add: views loadVersions_def versions_restrict [symmetric])
  next
    case QCountItems
    then show ?thesis using t
      by (simp add: views countItems_def card_keys rec_tables_def)
  next
    case (QPending n)
    then show ?thesis using pending_listing [OF t, of n]
      by (simp add: views loadPending_def pending_rows_def js_sort_by_def)
  next
    case QCountPending
    have "card {i. \<exists>row. map_of (kr_outbox ?r) i = Some row \<and> ob_status row = Pending}
        = length (filter (\<lambda>row. ob_status row = Pending) (map snd (kr_outbox ?r)))"
      using t unfolding filter_values by (intro card_where) (simp add: rec_tables_def)
    then show ?thesis using QCountPending by (simp add: views countPending_def del: filter_map)
  next
    case (QParked kind n)
    then show ?thesis using parked_listing [OF t, of kind n]
      by (simp add: views listParked_def)
  next
    case QCountParked
    then show ?thesis using t
      by (simp add: views countParked_def card_keys rec_tables_def)
  next
    case QHeld
    have "held_of ?r = {h. \<exists>row \<in> ran (map_of (kr_parked ?r)). pk_holdKey row = Some h}"
      using t by (force simp: held_of_def map_filter_def ran_rows rec_tables_def)
    then show ?thesis using QHeld by (simp add: views heldKeys_def held_of_def map_filter_def)
  next
    case (QValidator h)
    then show ?thesis by (simp add: views getValidator_def)
  next
    case (QLog rg n)
    then show ?thesis using log_listing [OF t, of rg n]
      by (simp add: views readLog_def)
  qed
qed

section \<open>The instance\<close>

interpretation memory: state_store mem_step mem_read mem_view mem_ok "[]"
proof
  show "mem_ok []" by (simp add: mem_ok_def)
  show "mem_view [] = no_keys" by (rule ext) (simp add: mem_view_def no_keys_def)
next
  fix st c r st'
  assume a: "mem_ok st" "admissible c (mem_view st (cmd_key c))" "mem_step c st = (r, st')"
  have st': "st' = exec c st" using mem_step_exec [of c st] a(3) by simp
  have k: "keeps_contract c st" using mem_contract [OF a(1,2)] .
  have other: "rec_of st' k = rec_of st k" if "k \<noteq> cmd_key c" for k using exec_other_key [OF that] st' by simp
  have "rec_tables (rec_of st' k)" for k
    using k other a(1,3) by (cases "k = cmd_key c") (auto simp: keeps_contract_def mem_ok_def)
  moreover have "mem_view st' = (mem_view st)(cmd_key c := mem_view st' (cmd_key c))"
    using other by (auto simp: fun_eq_iff mem_view_def)
  ultimately show "mem_ok st' \<and> spec_step c (mem_view st) = (r, mem_view st')"
    using k a(3) by (simp add: keeps_contract_def spec_step_def mem_ok_def)
next
  fix st qu key
  assume "mem_ok st"
  then show "\<exists>a. mem_read qu key st = Inr a \<and> answers qu (mem_view st key) a" by (rule mem_reads)
qed

section \<open>A sequence of calls for the examples\<close>

lemma plain_null: "plain VNull"
  using plain_json [of JNull] by simp

lemma sample_event_fields [simp]: "ev_id (sample_event i n) = i" "ev_sequence (sample_event i n) = n"
  by (simp_all add: sample_event_def)

lemma sample_plain: "plain_event (sample_event i n)"
  using json_parse_str [of JNull] by (simp add: plain_event_def sample_event_def plain_null)

definition sample_calls :: "store_cmd list" where
  "sample_calls = [Acquire sample_key ''a'' 10 0, Commit sample_key lease_a sample_batch, ParkRow sample_key lease_a poison_row,
     Retry sample_key [''e1''], Acquire sample_key ''b'' 10 12, Ack sample_key lease_a [''e2'']]"

lemma sample_admissible: "admissible_run sample_calls no_keys"
  by (simp add: sample_calls_def sample_batch_def sample_row_def retried_row_def sample_plain plain_parked_def poison_row_def
      plain_null Let_def spec_step_def no_keys_def empty_view_def guarded_def lease_a_def token_match_def)

end
