(* ===== verification/Sql_Tables.thy ===== *)
theory Sql_Tables
  imports Store_Memory
begin

text \<open>
  The six tables that the SQL stores keep (\<^verbatim>\<open>src/stores/sqlite/schema.ts\<close>; the Postgres schema has the same
  ones) and the SQL statements on them. A table is the list of its rows, each under its primary key, in the
  order in which they were inserted; an upsert rewrites a row in place. A text column that holds JSON is the
  value that \<^verbatim>\<open>JSON.parse\<close> returns for it: data of the user's goes through \<^verbatim>\<open>json_copy\<close> when it is written, the
  library's own records (state, errors) read back as they are. Comparisons with NULL are false.
\<close>

section \<open>Statements\<close>

type_synonym ('k, 'v) table = "('k \<times> 'v) list"

definition sql_select :: "('k \<Rightarrow> 'v \<Rightarrow> bool) \<Rightarrow> ('k, 'v) table \<Rightarrow> ('k \<times> 'v) list" where
  "sql_select P t = filter (\<lambda>(k, v). P k v) t"

text \<open>\<^verbatim>\<open>INSERT ... ON CONFLICT (key) DO UPDATE SET ... WHERE ... RETURNING ...\<close>: the second function gives the
  updated row, or none when the \<^verbatim>\<open>WHERE\<close> clause does not hold.\<close>

definition sql_upsert :: "'k \<Rightarrow> 'v \<Rightarrow> ('v \<Rightarrow> 'v option) \<Rightarrow> ('k, 'v) table \<Rightarrow> 'v option \<times> ('k, 'v) table" where
  "sql_upsert k v merge t =
     (case map_of t k of
        None \<Rightarrow> (Some v, t @ [(k, v)])
      | Some old \<Rightarrow> (case merge old of None \<Rightarrow> (None, t) | Some v' \<Rightarrow> (Some v', AList.update k v' t)))"

definition sql_update :: "('k \<Rightarrow> 'v \<Rightarrow> bool) \<Rightarrow> ('v \<Rightarrow> 'v) \<Rightarrow> ('k, 'v) table \<Rightarrow> nat \<times> ('k, 'v) table" where
  "sql_update P f t = (length (sql_select P t), map (\<lambda>(k, v). (k, if P k v then f v else v)) t)"

definition sql_delete :: "('k \<Rightarrow> 'v \<Rightarrow> bool) \<Rightarrow> ('k, 'v) table \<Rightarrow> nat \<times> ('k, 'v) table" where
  "sql_delete P t = (length (sql_select P t), sql_select (\<lambda>k v. \<not> P k v) t)"

section \<open>The tables\<close>

record poller_cols =
  pc_state :: "poller_state option"
  pc_owner :: "string option"
  pc_lease_epoch :: nat
  pc_expires :: "number option"
  pc_counter :: nat

record item_cols =
  ic_version :: "string option"
  ic_hash :: string
  ic_schema_version :: nat
  ic_payload :: "jsval option"
  ic_seen_at :: number

record outbox_cols =
  oc_seq :: nat
  oc_event :: event
  oc_status :: outbox_status
  oc_attempts :: nat
  oc_next_attempt_at :: "number option"
  oc_last_error :: "serialized_error option"
  oc_created_at :: number

record parked_cols =
  qc_kind :: parked_kind
  qc_event :: "event option"
  qc_item :: "jsval option"
  qc_error :: parked_error
  qc_attempts :: nat
  qc_parked_at :: number
  qc_hold_key :: "string option"

record log_cols =
  gc_event :: event
  gc_created_at :: number

record sql_db =
  t_pollers :: "(pkey, poller_cols) table"
  t_items :: "(pkey \<times> string, item_cols) table"
  t_outbox :: "(pkey \<times> string, outbox_cols) table"
  t_parked :: "(pkey \<times> string, parked_cols) table"
  t_validators :: "(pkey \<times> string, validator) table"
  t_log :: "(pkey \<times> nat, log_cols) table"

type_synonym 'a sql_op = "(sql_db, thrown, 'a) io"

definition empty_db :: sql_db where
  "empty_db = \<lparr>t_pollers = [], t_items = [], t_outbox = [], t_parked = [], t_validators = [], t_log = []\<rparr>"

definition on_pollers :: "((pkey, poller_cols) table \<Rightarrow> 'a \<times> (pkey, poller_cols) table) \<Rightarrow> 'a sql_op" where
  "on_pollers f = (\<lambda>db. case f (t_pollers db) of (x, t) \<Rightarrow> (Inr x, db\<lparr>t_pollers := t\<rparr>))"

definition on_items :: "((pkey \<times> string, item_cols) table \<Rightarrow> 'a \<times> (pkey \<times> string, item_cols) table) \<Rightarrow> 'a sql_op" where
  "on_items f = (\<lambda>db. case f (t_items db) of (x, t) \<Rightarrow> (Inr x, db\<lparr>t_items := t\<rparr>))"

definition on_outbox :: "((pkey \<times> string, outbox_cols) table \<Rightarrow> 'a \<times> (pkey \<times> string, outbox_cols) table) \<Rightarrow> 'a sql_op" where
  "on_outbox f = (\<lambda>db. case f (t_outbox db) of (x, t) \<Rightarrow> (Inr x, db\<lparr>t_outbox := t\<rparr>))"

definition on_parked :: "((pkey \<times> string, parked_cols) table \<Rightarrow> 'a \<times> (pkey \<times> string, parked_cols) table) \<Rightarrow> 'a sql_op" where
  "on_parked f = (\<lambda>db. case f (t_parked db) of (x, t) \<Rightarrow> (Inr x, db\<lparr>t_parked := t\<rparr>))"

definition on_validators :: "((pkey \<times> string, validator) table \<Rightarrow> 'a \<times> (pkey \<times> string, validator) table) \<Rightarrow> 'a sql_op" where
  "on_validators f = (\<lambda>db. case f (t_validators db) of (x, t) \<Rightarrow> (Inr x, db\<lparr>t_validators := t\<rparr>))"

definition on_log :: "((pkey \<times> nat, log_cols) table \<Rightarrow> 'a \<times> (pkey \<times> nat, log_cols) table) \<Rightarrow> 'a sql_op" where
  "on_log f = (\<lambda>db. case f (t_log db) of (x, t) \<Rightarrow> (Inr x, db\<lparr>t_log := t\<rparr>))"

section \<open>Rows as the port's records\<close>

definition toLease :: "poller_cols \<Rightarrow> lease option" where
  "toLease r = map_option (\<lambda>owner. \<lparr>l_owner = owner, l_epoch = pc_lease_epoch r, l_expiresAt = opt_or (pc_expires r) 0\<rparr>) (pc_owner r)"

definition toItem :: "string \<Rightarrow> item_cols \<Rightarrow> item_row" where
  "toItem identity r = \<lparr>ir_identity = identity, ir_version = ic_version r, ir_hash = ic_hash r,
     ir_schemaVersion = ic_schema_version r, ir_payload = ic_payload r, ir_seenAt = ic_seen_at r\<rparr>"

definition toOutbox :: "string \<Rightarrow> outbox_cols \<Rightarrow> outbox_row" where
  "toOutbox eid r = \<lparr>ob_eventId = eid, ob_sequence = oc_seq r, ob_event = oc_event r, ob_status = oc_status r,
     ob_attempts = oc_attempts r, ob_nextAttemptAt = oc_next_attempt_at r, ob_lastError = oc_last_error r,
     ob_createdAt = oc_created_at r\<rparr>"

definition toParked :: "string \<Rightarrow> parked_cols \<Rightarrow> parked_row" where
  "toParked i r = \<lparr>pk_id = i, pk_kind = qc_kind r, pk_event = qc_event r, pk_item = opt_or (qc_item r) VUndef,
     pk_error = qc_error r, pk_attempts = qc_attempts r, pk_parkedAt = qc_parked_at r, pk_holdKey = qc_hold_key r\<rparr>"

definition toLogged :: "nat \<Rightarrow> log_cols \<Rightarrow> logged_event" where
  "toLogged seq r = \<lparr>le_sequence = seq, le_event = gc_event r, le_createdAt = gc_created_at r\<rparr>"

text \<open>And back, for data that JSON text keeps.\<close>

definition item_cols_of :: "item_row \<Rightarrow> item_cols" where
  "item_cols_of row = \<lparr>ic_version = ir_version row, ic_hash = ir_hash row, ic_schema_version = ir_schemaVersion row,
     ic_payload = ir_payload row, ic_seen_at = ir_seenAt row\<rparr>"

definition outbox_cols_of :: "outbox_row \<Rightarrow> outbox_cols" where
  "outbox_cols_of row = \<lparr>oc_seq = ob_sequence row, oc_event = ob_event row, oc_status = ob_status row,
     oc_attempts = ob_attempts row, oc_next_attempt_at = ob_nextAttemptAt row, oc_last_error = ob_lastError row,
     oc_created_at = ob_createdAt row\<rparr>"

definition parked_cols_of :: "parked_row \<Rightarrow> parked_cols" where
  "parked_cols_of row = \<lparr>qc_kind = pk_kind row, qc_event = pk_event row,
     qc_item = (if pk_item row = VUndef then None else Some (pk_item row)), qc_error = pk_error row,
     qc_attempts = pk_attempts row, qc_parked_at = pk_parkedAt row, qc_hold_key = pk_holdKey row\<rparr>"

lemma to_of_cols [simp]:
  "toItem (ir_identity row) (item_cols_of row) = row"
  "toOutbox (ob_eventId orow) (outbox_cols_of orow) = orow"
  "toParked (pk_id prow) (parked_cols_of prow) = prow"
  by (simp_all add: toItem_def item_cols_of_def toOutbox_def outbox_cols_of_def toParked_def parked_cols_of_def opt_or_def)

section \<open>The view of a key\<close>

definition part :: "pkey \<Rightarrow> (pkey \<times> 'k, 'v) table \<Rightarrow> 'k \<rightharpoonup> 'v" where
  "part key t = (\<lambda>i. map_of t (key, i))"

definition rows_as :: "('k \<Rightarrow> 'v \<Rightarrow> 'r) \<Rightarrow> pkey \<Rightarrow> (pkey \<times> 'k, 'v) table \<Rightarrow> 'k \<rightharpoonup> 'r" where
  "rows_as to key t = (\<lambda>i. map_option (to i) (part key t i))"

definition sql_view :: "sql_db \<Rightarrow> pkey \<Rightarrow> key_view" where
  "sql_view db k =
     \<lparr>kv_state = Option.bind (map_of (t_pollers db) k) pc_state,
      kv_lease = Option.bind (map_of (t_pollers db) k) toLease,
      kv_counter = (case map_of (t_pollers db) k of None \<Rightarrow> 0 | Some r \<Rightarrow> pc_counter r),
      kv_items = rows_as toItem k (t_items db),
      kv_outbox = rows_as toOutbox k (t_outbox db),
      kv_parked = rows_as toParked k (t_parked db),
      kv_validators = rows_as (\<lambda>_ v. v) k (t_validators db),
      kv_log = rows_as toLogged k (t_log db)\<rparr>"

text \<open>The constraints of the tables: primary keys are unique, a held lease has an expiry, and the events of parked
  rows are ones that the store reads back as they were written.\<close>

definition kept_cols :: "(event \<Rightarrow> bool) \<Rightarrow> parked_cols \<Rightarrow> bool" where
  "kept_cols keep c \<longleftrightarrow> (case qc_event c of None \<Rightarrow> True | Some ev \<Rightarrow> keep ev)"

definition kept_rows :: "(event \<Rightarrow> bool) \<Rightarrow> (pkey \<times> string, parked_cols) table \<Rightarrow> bool" where
  "kept_rows keep t \<longleftrightarrow> (\<forall>row \<in> set t. kept_cols keep (snd row))"

definition sql_ok :: "(event \<Rightarrow> bool) \<Rightarrow> sql_db \<Rightarrow> bool" where
  "sql_ok keep db \<longleftrightarrow> distinct (map fst (t_pollers db)) \<and> distinct (map fst (t_items db)) \<and> distinct (map fst (t_outbox db))
     \<and> distinct (map fst (t_parked db)) \<and> distinct (map fst (t_validators db)) \<and> distinct (map fst (t_log db))
     \<and> kept_rows keep (t_parked db) \<and> (\<forall>k r. map_of (t_pollers db) k = Some r \<longrightarrow> pc_owner r = None \<or> (\<exists>t. pc_expires r = Some t))"

lemma empty_db_ok: "sql_ok keep empty_db" "sql_view empty_db = no_keys"
  by (auto simp: sql_ok_def empty_db_def sql_view_def no_keys_def empty_view_def rows_as_def part_def kept_rows_def)

section \<open>What the statements do\<close>

lemma distinct_sql_select: "distinct (map fst t) \<Longrightarrow> distinct (map fst (sql_select P t))"
  by (simp add: sql_select_def distinct_map_filter)

lemma distinct_sql:
  assumes "distinct (map fst t)"
  shows "distinct (map fst (snd (sql_upsert k v merge t)))" "distinct (map fst (snd (sql_update P f t)))"
    "distinct (map fst (snd (sql_delete P t)))"
proof -
  show "distinct (map fst (snd (sql_upsert k v merge t)))"
    using assms by (auto simp: sql_upsert_def distinct_keys_update map_of_eq_None_iff split: option.splits)
  have "map fst (snd (sql_update P f t)) = map fst t" by (simp add: sql_update_def comp_def split_beta)
  then show "distinct (map fst (snd (sql_update P f t)))" using assms by simp
  show "distinct (map fst (snd (sql_delete P t)))" using assms by (simp add: sql_delete_def distinct_sql_select)
qed

lemma upsert_at:
  "map_of (snd (sql_upsert k v merge t)) = (case map_of t k of None \<Rightarrow> (map_of t)(k \<mapsto> v)
     | Some old \<Rightarrow> (case merge old of None \<Rightarrow> map_of t | Some v' \<Rightarrow> (map_of t)(k \<mapsto> v')))"
  by (auto simp: sql_upsert_def fun_eq_iff map_add_def split: option.splits)

lemma upsert_result: "fst (sql_upsert k v merge t) = (case map_of t k of None \<Rightarrow> Some v | Some old \<Rightarrow> merge old)"
  by (auto simp: sql_upsert_def split: option.splits)

lemma update_at: "map_of (snd (sql_update P f t)) k = map_option (\<lambda>v. if P k v then f v else v) (map_of t k)"
  by (induction t) (auto simp: sql_update_def)

lemma select_at:
  "distinct (map fst t) \<Longrightarrow> map_of (sql_select P t) k = (case map_of t k of None \<Rightarrow> None | Some v \<Rightarrow> if P k v then Some v else None)"
proof (induction t)
  case (Cons row t)
  then show ?case by (cases row) (auto simp: sql_select_def map_of_eq_None_iff split: option.splits)
qed (simp add: sql_select_def)

lemma delete_at:
  "distinct (map fst t) \<Longrightarrow> map_of (snd (sql_delete P t)) k = (case map_of t k of None \<Rightarrow> None | Some v \<Rightarrow> if P k v then None else Some v)"
  by (auto simp: sql_delete_def select_at split: option.splits)

lemma select_count:
  assumes "distinct (map fst t)"
  shows "length (sql_select (\<lambda>(k, i) v. k = key \<and> Q i v) t) = card {i. \<exists>v. part key t i = Some v \<and> Q i v}"
proof -
  let ?S = "{i. \<exists>v. part key t i = Some v \<and> Q i v}"
  let ?r = "sql_select (\<lambda>(k, i) v. k = key \<and> Q i v) t"
  have rows: "set (map fst ?r) = Pair key ` ?S"
  proof (intro set_eqI iffI)
    fix x
    assume "x \<in> set (map fst ?r)"
    then obtain i v where x: "x = (key, i)" "((key, i), v) \<in> set t" "Q i v" by (auto simp: sql_select_def)
    then have "part key t i = Some v" using assms by (simp add: part_def)
    then show "x \<in> Pair key ` ?S" using x by blast
  next
    fix x
    assume "x \<in> Pair key ` ?S"
    then obtain i v where "x = (key, i)" "((key, i), v) \<in> set t" "Q i v" by (auto simp: part_def dest: map_of_SomeD)
    then have "x = fst ((key, i), v)" "((key, i), v) \<in> set ?r" by (simp_all add: sql_select_def)
    then show "x \<in> set (map fst ?r)" unfolding set_map by (rule image_eqI)
  qed
  have "length ?r = card (set (map fst ?r))"
    using distinct_card [OF distinct_sql_select [OF assms]] by simp
  also have "\<dots> = card (Pair key ` ?S)" unfolding rows ..
  also have "\<dots> = card ?S" by (rule card_image) (simp add: inj_on_def)
  finally show ?thesis .
qed

text \<open>\<^verbatim>\<open>table_acts to key f r g\<close>: on a table with unique keys, the statement \<^verbatim>\<open>f\<close> returns \<^verbatim>\<open>r\<close> of the rows of the key and
  makes them \<^verbatim>\<open>g\<close> of what they were, and leaves the rows of other keys alone.\<close>

definition table_acts ::
  "('k \<Rightarrow> 'v \<Rightarrow> 'r) \<Rightarrow> pkey \<Rightarrow> ((pkey \<times> 'k, 'v) table \<Rightarrow> 'a \<times> (pkey \<times> 'k, 'v) table) \<Rightarrow> (('k \<rightharpoonup> 'r) \<Rightarrow> 'a) \<Rightarrow> (('k \<rightharpoonup> 'r) \<Rightarrow> 'k \<rightharpoonup> 'r) \<Rightarrow> bool" where
  "table_acts to key f r g \<longleftrightarrow> (\<forall>t. distinct (map fst t) \<longrightarrow>
     distinct (map fst (snd (f t))) \<and> (\<forall>k. k \<noteq> key \<longrightarrow> part k (snd (f t)) = part k t)
     \<and> fst (f t) = r (rows_as to key t) \<and> rows_as to key (snd (f t)) = g (rows_as to key t))"

lemma table_upsert:
  "table_acts to key (sql_upsert (key, i) v (\<lambda>_. Some v)) (\<lambda>_. Some v) (\<lambda>m. m(i \<mapsto> to i v))"
proof -
  have "fst (sql_upsert (key, i) v (\<lambda>_. Some v) t) = Some v" for t by (simp add: sql_upsert_def split: option.splits)
  then show ?thesis
    by (auto simp: table_acts_def distinct_sql part_def upsert_at rows_as_def fun_eq_iff split: option.splits)
qed

lemma table_delete_where:
  assumes "\<And>i v. P i v = Q i (to i v)"
  shows "table_acts to key (sql_delete (\<lambda>(k, i) v. k = key \<and> P i v))
    (\<lambda>m. card {i. \<exists>x. m i = Some x \<and> Q i x}) (\<lambda>m i. case m i of None \<Rightarrow> None | Some x \<Rightarrow> if Q i x then None else Some x)"
proof -
  have "fst (sql_delete (\<lambda>(k, i) v. k = key \<and> P i v) t) = card {i. \<exists>x. rows_as to key t i = Some x \<and> Q i x}"
    if "distinct (map fst t)" for t
    unfolding sql_delete_def fst_conv select_count [OF that] by (auto simp: rows_as_def assms intro!: arg_cong [where f = card])
  then show ?thesis
    unfolding table_acts_def by (auto simp: distinct_sql part_def delete_at rows_as_def assms fun_eq_iff split: option.splits)
qed

lemma table_delete:
  "table_acts to key (sql_delete (\<lambda>(k, i) _. k = key \<and> i \<in> set ids)) (\<lambda>m. card (set ids \<inter> dom m)) (drop_rows ids)"
proof -
  have "{i. \<exists>x. m i = Some x \<and> i \<in> set ids} = set ids \<inter> dom m"
    "(\<lambda>i. case m i of None \<Rightarrow> None | Some x \<Rightarrow> if i \<in> set ids then None else Some x) = drop_rows ids m" for m :: "'a \<rightharpoonup> 'c"
    by (auto simp: drop_rows_at fun_eq_iff split: option.splits)
  then show ?thesis using table_delete_where [of "\<lambda>i v. i \<in> set ids" "\<lambda>i x. i \<in> set ids" to key] by simp
qed

lemma table_clear: "table_acts to key (sql_delete (\<lambda>(k, i) _. k = key)) (\<lambda>m. card (dom m)) (\<lambda>_. Map.empty)"
proof -
  have "{i. \<exists>x. m i = Some x} = dom m" "(\<lambda>i. case m i of None \<Rightarrow> None | Some x \<Rightarrow> if True then None else Some x) = Map.empty" for m :: "'a \<rightharpoonup> 'c"
    by (auto simp: fun_eq_iff split: option.splits)
  then show ?thesis using table_delete_where [of "\<lambda>i v. True" "\<lambda>i x. True" to key]
    by (simp only: simp_thms refl)
qed

lemma table_update:
  assumes "\<And>v. to i (f v) = F (to i v)"
  shows "table_acts to key (sql_update (\<lambda>(k, j) _. k = key \<and> j = i) f) (\<lambda>m. if m i = None then 0 else 1)
    (\<lambda>m. m(i := map_option F (m i)))"
proof -
  have "fst (sql_update (\<lambda>(k, j) _. k = key \<and> j = i) f t) = (if rows_as to key t i = None then 0 else 1)"
    if "distinct (map fst t)" for t
  proof -
    have "{j. \<exists>v. part key t j = Some v \<and> j = i} = (if part key t i = None then {} else {i})" by auto
    then show ?thesis using select_count [OF that, of key "\<lambda>j v. j = i"] by (simp add: sql_update_def rows_as_def)
  qed
  then show ?thesis unfolding table_acts_def
    by (auto simp: distinct_sql part_def update_at rows_as_def assms fun_eq_iff option.map_comp option.map_ident comp_def)
qed

lemma on_tables:
  "table_acts toItem key fi ri gi \<Longrightarrow> acts (sql_ok keep) sql_view key (on_items fi) (\<lambda>v. ri (kv_items v)) (\<lambda>v. v\<lparr>kv_items := gi (kv_items v)\<rparr>)"
  "table_acts toOutbox key fo ro go \<Longrightarrow> acts (sql_ok keep) sql_view key (on_outbox fo) (\<lambda>v. ro (kv_outbox v)) (\<lambda>v. v\<lparr>kv_outbox := go (kv_outbox v)\<rparr>)"
  "\<lbrakk> table_acts toParked key fp rp gp; \<And>t. kept_rows keep t \<Longrightarrow> kept_rows keep (snd (fp t)) \<rbrakk> \<Longrightarrow> acts (sql_ok keep) sql_view key (on_parked fp) (\<lambda>v. rp (kv_parked v)) (\<lambda>v. v\<lparr>kv_parked := gp (kv_parked v)\<rparr>)"
  "table_acts (\<lambda>_ x. x) key fv rv gv \<Longrightarrow>
     acts (sql_ok keep) sql_view key (on_validators fv) (\<lambda>v. rv (kv_validators v)) (\<lambda>v. v\<lparr>kv_validators := gv (kv_validators v)\<rparr>)"
  "table_acts toLogged key fl rl gl \<Longrightarrow> acts (sql_ok keep) sql_view key (on_log fl) (\<lambda>v. rl (kv_log v)) (\<lambda>v. v\<lparr>kv_log := gl (kv_log v)\<rparr>)"
  unfolding acts_def table_acts_def on_items_def on_outbox_def on_parked_def on_validators_def on_log_def
  by (auto simp: sql_ok_def sql_view_def rows_as_def fun_eq_iff split_beta)

lemma plain_delete: "kept_rows keep t \<Longrightarrow> kept_rows keep (snd (sql_delete P t))"
  by (auto simp: kept_rows_def sql_delete_def sql_select_def)

lemma plain_upsert:
  assumes "kept_rows keep t" "kept_cols keep c"
  shows "kept_rows keep (snd (sql_upsert k c (\<lambda>_. Some c) t))"
proof -
  have "set (snd (sql_upsert k c (\<lambda>_. Some c) t)) \<subseteq> insert (k, c) (set t)"
    using set_update_subset [of k c t] by (auto simp: sql_upsert_def split: option.splits)
  then show ?thesis using assms unfolding kept_rows_def by fastforce
qed

section \<open>The pollers table\<close>

definition fresh_cols :: poller_cols where
  \<comment> \<open>the column defaults\<close>
  "fresh_cols = \<lparr>pc_state = None, pc_owner = None, pc_lease_epoch = 0, pc_expires = None, pc_counter = 0\<rparr>"

section \<open>The pollers table\<close>

definition poller_view :: "poller_cols option \<Rightarrow> poller_state option \<times> lease option \<times> nat" where
  "poller_view r = (Option.bind r pc_state, Option.bind r toLease, case r of None \<Rightarrow> 0 | Some r \<Rightarrow> pc_counter r)"

definition leased :: "poller_cols option \<Rightarrow> bool" where
  "leased r \<longleftrightarrow> (\<forall>c. r = Some c \<longrightarrow> pc_owner c = None \<or> (\<exists>t. pc_expires c = Some t))"

lemma pollers_acts:
  assumes keys: "\<And>t. distinct (map fst t) \<Longrightarrow> distinct (map fst (snd (f t)))"
    and others: "\<And>t k. k \<noteq> key \<Longrightarrow> map_of (snd (f t)) k = map_of t k"
    and leases: "\<And>t. leased (map_of t key) \<Longrightarrow> leased (map_of (snd (f t)) key)"
    and res: "\<And>t. distinct (map fst t) \<Longrightarrow> leased (map_of t key) \<Longrightarrow> fst (f t) = r (poller_view (map_of t key))"
    and eff: "\<And>t. leased (map_of t key) \<Longrightarrow> poller_view (map_of (snd (f t)) key) = g (poller_view (map_of t key))"
  shows "acts (sql_ok keep) sql_view key (on_pollers f) (\<lambda>v. r (kv_state v, kv_lease v, kv_counter v))
    (\<lambda>v. case g (kv_state v, kv_lease v, kv_counter v) of (s, l, c) \<Rightarrow> v\<lparr>kv_state := s, kv_lease := l, kv_counter := c\<rparr>)"
  unfolding acts_def
proof (intro allI impI)
  fix db
  assume ok: "sql_ok keep db"
  let ?t = "t_pollers db"
  let ?db = "db\<lparr>t_pollers := snd (f ?t)\<rparr>"
  have t: "distinct (map fst ?t)" "leased (map_of ?t key)" using ok by (auto simp: sql_ok_def leased_def)
  have "leased (map_of (snd (f ?t)) k)" for k
    using ok leases [OF t(2)] others [of k ?t] by (cases "k = key") (auto simp: sql_ok_def leased_def)
  then have "sql_ok keep ?db" using ok keys [OF t(1)] by (simp add: sql_ok_def leased_def)
  moreover have "fst (f ?t) = r (kv_state (sql_view db key), kv_lease (sql_view db key), kv_counter (sql_view db key))"
    using res [OF t] by (simp add: sql_view_def poller_view_def)
  moreover have "sql_view ?db = (sql_view db)(key := (case g (kv_state (sql_view db key), kv_lease (sql_view db key), kv_counter (sql_view db key))
      of (s, l, c) \<Rightarrow> (sql_view db key)\<lparr>kv_state := s, kv_lease := l, kv_counter := c\<rparr>))"
    using eff [OF t(2)] others [of _ ?t]
    by (auto simp: fun_eq_iff sql_view_def poller_view_def split: prod.splits)
  ultimately show "\<exists>db'. on_pollers f db = (Inr (r (kv_state (sql_view db key), kv_lease (sql_view db key), kv_counter (sql_view db key))), db')
      \<and> sql_ok keep db' \<and> sql_view db' = (sql_view db)(key := (case g (kv_state (sql_view db key), kv_lease (sql_view db key), kv_counter (sql_view db key))
      of (s, l, c) \<Rightarrow> (sql_view db key)\<lparr>kv_state := s, kv_lease := l, kv_counter := c\<rparr>))"
    by (intro exI [of _ ?db]) (simp add: on_pollers_def split_beta)
qed

text \<open>The statements on the pollers table, the same text in both stores.\<close>

definition q_acquire :: "pkey \<Rightarrow> string \<Rightarrow> number \<Rightarrow> number \<Rightarrow> (nat \<times> number option) option sql_op" where
  "q_acquire key owner expires now =
     on_pollers (\<lambda>t.
       case sql_upsert key (fresh_cols\<lparr>pc_owner := Some owner, pc_lease_epoch := 1, pc_expires := Some expires, pc_counter := 1\<rparr>)
              (\<lambda>old. if pc_owner old = None \<or> (case pc_expires old of None \<Rightarrow> False | Some t \<Rightarrow> t \<le> now) \<or> pc_owner old = Some owner
                     then Some (old\<lparr>pc_owner := Some owner, pc_counter := pc_counter old + 1,
                                    pc_lease_epoch := pc_counter old + 1, pc_expires := Some expires\<rparr>)
                     else None) t of
         (row, t') \<Rightarrow> (map_option (\<lambda>r. (pc_lease_epoch r, pc_expires r)) row, t'))"

definition holds :: "pkey \<Rightarrow> lease \<Rightarrow> pkey \<Rightarrow> poller_cols \<Rightarrow> bool" where
  "holds key l k r \<longleftrightarrow> k = key \<and> pc_owner r = Some (l_owner l) \<and> pc_lease_epoch r = l_epoch l"

definition q_renew :: "pkey \<Rightarrow> lease \<Rightarrow> number \<Rightarrow> nat sql_op" where
  "q_renew key l expires = on_pollers (sql_update (holds key l) (\<lambda>r. r\<lparr>pc_expires := Some expires\<rparr>))"

definition q_release :: "pkey \<Rightarrow> lease \<Rightarrow> nat sql_op" where
  "q_release key l = on_pollers (sql_update (holds key l) (\<lambda>r. r\<lparr>pc_owner := None, pc_expires := None\<rparr>))"

definition q_lease :: "pkey \<Rightarrow> poller_cols option sql_op" where
  "q_lease key = getsE (\<lambda>db. map_of (t_pollers db) key)"

definition q_loadState :: "pkey \<Rightarrow> poller_state option sql_op" where
  "q_loadState key = getsE (\<lambda>db. Option.bind (map_of (t_pollers db) key) pc_state)"

definition q_saveState :: "pkey \<Rightarrow> poller_state \<Rightarrow> unit sql_op" where
  "q_saveState key st =
     on_pollers (\<lambda>t. ((), snd (sql_upsert key (fresh_cols\<lparr>pc_state := Some st\<rparr>) (\<lambda>old. Some (old\<lparr>pc_state := Some st\<rparr>)) t)))"

lemma holds_count:
  assumes "distinct (map fst t)"
  shows "length (sql_select (holds key l) t) = (case map_of t key of None \<Rightarrow> 0 | Some r \<Rightarrow> if holds key l key r then 1 else 0)"
proof -
  have at: "map_of (sql_select (holds key l) t) k = (if k = key then (case map_of t key of None \<Rightarrow> None
      | Some r \<Rightarrow> if holds key l key r then Some r else None) else None)" for k
    using select_at [OF assms, of "holds key l" k] by (auto simp: holds_def split: option.splits)
  then have "dom (map_of (sql_select (holds key l) t)) = (case map_of t key of None \<Rightarrow> {}
      | Some r \<Rightarrow> if holds key l key r then {key} else {})"
    by (auto simp: dom_def split: option.splits if_splits)
  then show ?thesis using card_keys [OF distinct_sql_select [OF assms], of "holds key l"] by (auto split: option.splits)
qed

lemma holds_match: "holds key l key r \<longleftrightarrow> token_match (toLease r) l" "k \<noteq> key \<Longrightarrow> \<not> holds key l k r"
  by (auto simp: holds_def token_match_def toLease_def split: option.splits)

lemma toLease_updates [simp]:
  "toLease (r\<lparr>pc_expires := Some t\<rparr>) = map_option (\<lambda>l. l\<lparr>l_expiresAt := t\<rparr>) (toLease r)"
  "toLease (r\<lparr>pc_owner := None, pc_expires := None\<rparr>) = None"
  by (cases "pc_owner r"; simp add: toLease_def)+

lemma update_result: "distinct (map fst t) \<Longrightarrow> fst (sql_update (holds key l) f t) = (if token_match (Option.bind (map_of t key) toLease) l then 1 else 0)"
  by (auto simp: sql_update_def holds_count holds_match token_match_def split: option.splits)

lemma acts_saveState: "acts (sql_ok keep) sql_view key (q_saveState key st) (\<lambda>_. ()) (\<lambda>v. v\<lparr>kv_state := Some st\<rparr>)"
proof -
  have "acts (sql_ok keep) sql_view key (q_saveState key st) (\<lambda>v. ())
    (\<lambda>v. case (\<lambda>(s, l, c). (Some st, l, c)) (kv_state v, kv_lease v, kv_counter v) of (s, l, c) \<Rightarrow> v\<lparr>kv_state := s, kv_lease := l, kv_counter := c\<rparr>)"
    unfolding q_saveState_def
    by (rule pollers_acts)
      (auto simp: distinct_sql upsert_at leased_def poller_view_def fresh_cols_def toLease_def split: option.splits)
  then show ?thesis by (rule acts_cong) simp_all
qed

lemma acts_renew:
  "acts (sql_ok keep) sql_view key (q_renew key l expires) (\<lambda>v. if token_match (kv_lease v) l then 1 else 0)
    (\<lambda>v. if token_match (kv_lease v) l then v\<lparr>kv_lease := map_option (\<lambda>l. l\<lparr>l_expiresAt := expires\<rparr>) (kv_lease v)\<rparr> else v)"
proof -
  have "acts (sql_ok keep) sql_view key (q_renew key l expires)
    (\<lambda>v. (\<lambda>(s, cur, c). if token_match cur l then 1 else 0) (kv_state v, kv_lease v, kv_counter v))
    (\<lambda>v. case (\<lambda>(s, cur, c). (s, if token_match cur l then map_option (\<lambda>l. l\<lparr>l_expiresAt := expires\<rparr>) cur else cur, c))
        (kv_state v, kv_lease v, kv_counter v) of (s, l, c) \<Rightarrow> v\<lparr>kv_state := s, kv_lease := l, kv_counter := c\<rparr>)"
    unfolding q_renew_def
    by (rule pollers_acts)
      (auto simp: distinct_sql update_at holds_match leased_def poller_view_def update_result option.map_ident split: option.splits if_splits
        simp: token_match_def)
  then show ?thesis by (rule acts_cong) simp_all
qed

lemma acts_release:
  "acts (sql_ok keep) sql_view key (bindE (q_release key l) (\<lambda>_. retE ())) (\<lambda>_. ())
    (\<lambda>v. if token_match (kv_lease v) l then v\<lparr>kv_lease := None\<rparr> else v)"
proof -
  have "acts (sql_ok keep) sql_view key (q_release key l)
    (\<lambda>v. (\<lambda>(s, cur, c). if token_match cur l then 1 else 0) (kv_state v, kv_lease v, kv_counter v))
    (\<lambda>v. case (\<lambda>(s, cur, c). (s, if token_match cur l then None else cur, c))
        (kv_state v, kv_lease v, kv_counter v) of (s, l, c) \<Rightarrow> v\<lparr>kv_state := s, kv_lease := l, kv_counter := c\<rparr>)"
    unfolding q_release_def
    by (rule pollers_acts)
      (auto simp: distinct_sql update_at holds_match leased_def poller_view_def update_result option.map_ident split: option.splits if_splits
        simp: token_match_def)
  from acts_void [OF this] show ?thesis by (rule acts_cong) simp_all
qed

lemma acts_acquire:
  "acts (sql_ok keep) sql_view key (q_acquire key owner expires now)
    (\<lambda>v. if \<exists>l. kv_lease v = Some l \<and> l_expiresAt l > now \<and> l_owner l \<noteq> owner then None
         else Some (kv_counter v + 1, Some expires))
    (\<lambda>v. if \<exists>l. kv_lease v = Some l \<and> l_expiresAt l > now \<and> l_owner l \<noteq> owner then v
         else v\<lparr>kv_counter := kv_counter v + 1, kv_lease := Some \<lparr>l_owner = owner, l_epoch = kv_counter v + 1, l_expiresAt = expires\<rparr>\<rparr>)"
proof -
  let ?taken = "\<lambda>cur. \<exists>l. cur = Some l \<and> l_expiresAt l > now \<and> l_owner l \<noteq> owner"
  have "acts (sql_ok keep) sql_view key (q_acquire key owner expires now)
    (\<lambda>v. (\<lambda>(s, cur, c). if ?taken cur then None else Some (c + 1, Some expires)) (kv_state v, kv_lease v, kv_counter v))
    (\<lambda>v. case (\<lambda>(s, cur, c). if ?taken cur then (s, cur, c) else (s, Some \<lparr>l_owner = owner, l_epoch = c + 1, l_expiresAt = expires\<rparr>, c + 1))
        (kv_state v, kv_lease v, kv_counter v) of (s, l, c) \<Rightarrow> v\<lparr>kv_state := s, kv_lease := l, kv_counter := c\<rparr>)"
    unfolding q_acquire_def
    by (rule pollers_acts)
      (auto simp: distinct_sql split_beta upsert_at upsert_result leased_def poller_view_def toLease_def fresh_cols_def
        split: option.splits if_splits)
  then show ?thesis by (rule acts_cong) (auto)
qed

section \<open>Queries\<close>

text \<open>\<^verbatim>\<open>SELECT ... WHERE poller = ? AND partition = ? AND ...\<close>: the rows of a key with their other key column.\<close>

definition select_rows :: "('k \<Rightarrow> 'v \<Rightarrow> 'r) \<Rightarrow> pkey \<Rightarrow> ('k \<Rightarrow> 'v \<Rightarrow> bool) \<Rightarrow> (pkey \<times> 'k, 'v) table \<Rightarrow> 'r list" where
  "select_rows to key P t = map (\<lambda>((k, i), v). to i v) (sql_select (\<lambda>(k, i) v. k = key \<and> P i v) t)"

lemma select_rows_set:
  assumes "distinct (map fst t)" "\<And>i v. P i v = Q (to i v)"
  shows "set (select_rows to key P t) = {row \<in> ran (rows_as to key t). Q row}"
proof (intro set_eqI iffI)
  fix row
  assume "row \<in> set (select_rows to key P t)"
  then obtain i v where r: "row = to i v" "((key, i), v) \<in> set t" "P i v" by (auto simp: select_rows_def sql_select_def)
  then have "rows_as to key t i = Some row" using assms(1) by (simp add: rows_as_def part_def)
  then show "row \<in> {row \<in> ran (rows_as to key t). Q row}" using r assms(2) by (auto simp: ran_def)
next
  fix row
  assume "row \<in> {row \<in> ran (rows_as to key t). Q row}"
  then obtain i v where r: "row = to i v" "map_of t (key, i) = Some v" "P i v"
    by (auto simp: ran_def rows_as_def part_def assms(2))
  then have "((key, i), v) \<in> set (sql_select (\<lambda>(k, i) v. k = key \<and> P i v) t)"
    by (simp add: sql_select_def map_of_SomeD)
  then show "row \<in> set (select_rows to key P t)" unfolding select_rows_def set_map r(1) by (force simp: image_iff)
qed

lemma select_rows_distinct:
  assumes "distinct (map fst t)" "\<And>i v. idof (to i v) = i"
  shows "distinct (select_rows to key P t)" "distinct (map idof (select_rows to key P t))"
proof -
  let ?r = "sql_select (\<lambda>(k, i) v. k = key \<and> P i v) t"
  have "map idof (select_rows to key P t) = map snd (map fst ?r)"
    using assms(2) by (simp add: select_rows_def comp_def split_beta)
  moreover have "inj_on snd (set (map fst ?r))" by (auto simp: sql_select_def inj_on_def)
  then have "distinct (map snd (map fst ?r))" using distinct_sql_select [OF assms(1)] by (simp only: distinct_map)
  ultimately show d: "distinct (map idof (select_rows to key P t))" by simp
  then show "distinct (select_rows to key P t)" by (simp add: distinct_map)
qed

lemma select_rows_listing:
  assumes "distinct (map fst t)" "\<And>i v. idof (to i v) = i" "\<And>i v. P i v = Q (to i v)"
  shows "listing f {row \<in> ran (rows_as to key t). Q row} n
    (take (opt_or n (length (select_rows to key P t))) (js_sort_by f (select_rows to key P t)))"
  by (rule listing_sort [OF select_rows_distinct(1) [where idof = idof and to = to, OF assms(1,2)]
        select_rows_set [where P = P and Q = Q and to = to, OF assms(1,3)]])

lemma select_rows_map:
  assumes "distinct (map fst t)" "\<And>i v. idof (to i v) = i"
  shows "map_of (map (\<lambda>row. (idof row, row)) (select_rows to key (\<lambda>i _. i \<in> S) t)) = rows_as to key t |` S"
proof
  fix i
  let ?rows = "select_rows to key (\<lambda>i _. i \<in> S) t"
  have d: "distinct (map fst (map (\<lambda>row. (idof row, row)) ?rows))"
    using select_rows_distinct(2) [where idof = idof and to = to, OF assms] by (simp add: comp_def)
  have set: "set ?rows = {row \<in> ran (rows_as to key t). idof row \<in> S}"
    by (rule select_rows_set [OF assms(1)]) (simp add: assms(2))
  show "map_of (map (\<lambda>row. (idof row, row)) ?rows) i = (rows_as to key t |` S) i"
  proof (cases "(rows_as to key t |` S) i")
    case (Some row)
    then have "row \<in> set ?rows" "idof row = i"
      unfolding set by (auto simp: restrict_map_def rows_as_def assms(2) split: if_splits intro!: ranI [of _ i])
    then show ?thesis using d Some by (auto intro!: map_of_is_SomeI image_eqI [of _ _ row])
  next
    case None
    have "i \<notin> idof ` set ?rows" unfolding set
      using None by (auto simp: ran_def rows_as_def restrict_map_def assms(2) split: if_splits)
    then show ?thesis unfolding None map_of_eq_None_iff by (simp add: image_image)
  qed
qed

section \<open>Fencing\<close>

definition fence_row :: "pkey \<Rightarrow> lease \<Rightarrow> poller_cols option \<Rightarrow> unit sql_op" where
  "fence_row key l row =
     (if token_match (Option.bind row toLease) l then retE ()
      else throwE (leaseLostError (k_poller key) (k_partition key) (l_epoch l)))"

definition is_watukuy :: "thrown \<Rightarrow> bool" where
  "is_watukuy e \<longleftrightarrow> (case e of NonError _ \<Rightarrow> False | Thrown cls _ _ _ _ \<Rightarrow> class_code cls \<noteq> None)"

definition toStoreError :: "string \<Rightarrow> thrown \<Rightarrow> thrown" where
  "toStoreError name e =
     (if is_watukuy e then e
      else storeError (name @ '': '' @ (case e of NonError s \<Rightarrow> s | Thrown _ _ msg _ _ \<Rightarrow> msg)) e)"

text \<open>A transaction: whatever is thrown inside, nothing is written.\<close>

definition transaction :: "'a sql_op \<Rightarrow> 'a sql_op" where
  "transaction m = (\<lambda>db. case m db of (Inl e, _) \<Rightarrow> (Inl e, db) | (Inr x, db') \<Rightarrow> (Inr x, db'))"

lemma acts_transaction: "acts (sql_ok keep) sql_view key m f g \<Longrightarrow> acts (sql_ok keep) sql_view key (transaction m) f g"
  unfolding acts_def by (fastforce simp: transaction_def)

lemma toStoreError_lease [simp]: "toStoreError name (leaseLostError p q n) = leaseLostError p q n"
  by (simp add: toStoreError_def is_watukuy_def leaseLostError_def)

lemma fence_fails:
  "\<not> token_match (kv_lease (sql_view db key)) l \<Longrightarrow>
     fence_row key l (map_of (t_pollers db) key) db' = (Inl (leaseLostError (k_poller key) (k_partition key) (l_epoch l)), db')"
  by (simp add: fence_row_def sql_view_def throwE_def)

lemma fence_passes:
  "token_match (kv_lease (sql_view db key)) l \<Longrightarrow> fence_row key l (map_of (t_pollers db) key) db' = (Inr (), db')"
  by (simp add: fence_row_def sql_view_def retE_def)

end
