(* ===== verification/Sqlite_Store.thy ===== *)
theory Sqlite_Store
  imports Sql_Tables
begin

text \<open>
  \<^verbatim>\<open>src/stores/sqlite/sqlite-store.ts\<close> and \<^verbatim>\<open>schema.ts\<close>: every method of \<^verbatim>\<open>SqliteStore\<close> over the tables of
  \<^verbatim>\<open>Sql_Tables\<close>, with the connection (opened and migrated on first use, forgotten by \<^verbatim>\<open>close\<close>), the
  transactions and the wrapping of errors, the proof that the store keeps the contract of the port, and the
  page-wise reading of identities while others write. One file and one table prefix are modelled; a driver
  that fails, or a lock held too long, belongs to the host.
\<close>

section \<open>Construction\<close>

record sqlite_options =
  so_path :: "string option"
  so_tablePrefix :: "string option"
  so_busyTimeoutMs :: "jsnum option"

record sqlite_store =
  sq_path :: string
  sq_prefix :: string
  sq_busyTimeoutMs :: number
  sq_open :: bool
  sq_migrated :: bool
  sq_db :: sql_db

definition letter :: "char \<Rightarrow> bool" where
  "letter c \<longleftrightarrow> (CHR ''A'' \<le> c \<and> c \<le> CHR ''Z'') \<or> (CHR ''a'' \<le> c \<and> c \<le> CHR ''z'') \<or> c = CHR ''_''"

text \<open>\<^verbatim>\<open>/^[A-Za-z_][A-Za-z0-9_]*$/\<close>\<close>

definition is_identifier :: "string \<Rightarrow> bool" where
  "is_identifier s \<longleftrightarrow> (case s of [] \<Rightarrow> False | c # cs \<Rightarrow> letter c \<and> list_all (\<lambda>c. letter c \<or> is_digit c) cs)"

definition assertSqlIdentifierPrefix :: "string \<Rightarrow> string \<Rightarrow> thrown + unit" where
  "assertSqlIdentifierPrefix pfx what =
     (if pfx \<noteq> [] \<and> \<not> is_identifier pfx
      then Inl (configError (what @ '' must contain only letters, digits and underscores and must not start with a digit; got ''
             @ [CHR 0x27] @ pfx @ [CHR 0x27]))
      else Inr ())"

definition DEFAULT_TABLE_PREFIX :: string where
  "DEFAULT_TABLE_PREFIX = ''watukuy_''"

definition new_sqliteStore :: "sqlite_options \<Rightarrow> thrown + sqlite_store" where
  "new_sqliteStore opts =
     (case so_path opts of
        None \<Rightarrow> Inl (configError (''SqliteStore requires `path`: a file path or '' @ [CHR 0x27] @ '':memory:'' @ [CHR 0x27]))
      | Some path \<Rightarrow>
          if path = [] then Inl (configError (''SqliteStore requires `path`: a file path or '' @ [CHR 0x27] @ '':memory:'' @ [CHR 0x27]))
          else
            let pfx = opt_or (so_tablePrefix opts) DEFAULT_TABLE_PREFIX in
            (case assertSqlIdentifierPrefix pfx ''SqliteStore tablePrefix'' of
               Inl e \<Rightarrow> Inl e
             | Inr _ \<Rightarrow>
                 let timeout = opt_or (so_busyTimeoutMs opts) (Dec False 5 3) in
                 if \<not> finite_num timeout \<or> num_val timeout < 0
                 then Inl (configError (''SqliteStore busyTimeoutMs must be a non-negative number; got '' @ num_str timeout))
                 else Inr \<lparr>sq_path = path, sq_prefix = pfx, sq_busyTimeoutMs = js_floor (num_val timeout),
                            sq_open = False, sq_migrated = False, sq_db = empty_db\<rparr>))"

section \<open>Connection, errors, transactions\<close>

type_synonym 'a sqlite_io = "(sqlite_store, thrown, 'a) io"

text \<open>\<^verbatim>\<open>ready\<close> opens the file and creates the tables that are missing; it touches no row.\<close>

definition ready :: "sqlite_store \<Rightarrow> sqlite_store" where
  "ready st = st\<lparr>sq_open := True, sq_migrated := True\<rparr>"

definition sqlite_run :: "'a sql_op \<Rightarrow> 'a sqlite_io" where
  "sqlite_run m = (\<lambda>st. case m (sq_db st) of (r, db) \<Rightarrow> (map_sum (toStoreError ''SqliteStore'') id r, (ready st)\<lparr>sq_db := db\<rparr>))"

definition sqlite_tx :: "'a sql_op \<Rightarrow> 'a sqlite_io" where
  "sqlite_tx m = sqlite_run (transaction m)"

definition sqlite_migrate :: "unit sqlite_io" where
  "sqlite_migrate = sqlite_run (retE ())"

text \<open>A private in-memory database disappears with its connection.\<close>

definition sqlite_close :: "unit sqlite_io" where
  "sqlite_close =
     modifyE (\<lambda>st. if \<not> sq_open st then st
       else st\<lparr>sq_open := False, sq_migrated := False, sq_db := (if sq_path st = '':memory:'' then empty_db else sq_db st)\<rparr>)"

definition sqlite_fence :: "pkey \<Rightarrow> lease \<Rightarrow> unit sql_op" where
  "sqlite_fence key l = bindE (q_lease key) (fence_row key l)"

section \<open>Parameters\<close>

text \<open>A JSON parameter: \<^verbatim>\<open>undefined\<close> is NULL; a value that has no JSON text cannot be bound.\<close>

definition encodeOptionalJson :: "jsval \<Rightarrow> thrown + jsval option" where
  "encodeOptionalJson v =
     (if v = VUndef then Inr None
      else case stringify v of
        Inl e \<Rightarrow> Inl e
      | Inr None \<Rightarrow> Inl (typeError ''Provided value cannot be bound to SQLite parameter'')
      | Inr (Some t) \<Rightarrow> map_sum id Some (parse_js t))"

definition item_params :: "item_row \<Rightarrow> thrown + item_cols" where
  "item_params row = map_sum id (\<lambda>p. \<lparr>ic_version = ir_version row, ic_hash = ir_hash row, ic_schema_version = ir_schemaVersion row,
     ic_payload = p, ic_seen_at = ir_seenAt row\<rparr>) (encodeOptionalJson (opt_or (ir_payload row) VUndef))"

definition outboxParams :: "outbox_row \<Rightarrow> thrown + outbox_cols" where
  "outboxParams row = map_sum id (\<lambda>ev. outbox_cols_of (row\<lparr>ob_event := ev\<rparr>)) (event_text (ob_event row))"

definition parked_params :: "parked_row \<Rightarrow> thrown + parked_cols" where
  "parked_params row =
     (case (case pk_event row of None \<Rightarrow> Inr None | Some ev \<Rightarrow> map_sum id Some (event_text ev)) of
        Inl e \<Rightarrow> Inl e
      | Inr ev \<Rightarrow> map_sum id (\<lambda>item. \<lparr>qc_kind = pk_kind row, qc_event = ev, qc_item = item, qc_error = pk_error row,
          qc_attempts = pk_attempts row, qc_parked_at = pk_parkedAt row, qc_hold_key = pk_holdKey row\<rparr>)
          (encodeOptionalJson (pk_item row)))"

section \<open>Statements on the other tables\<close>

definition q_upsertItem :: "pkey \<Rightarrow> item_row \<Rightarrow> unit sql_op" where
  "q_upsertItem key row =
     bindE (resultE (item_params row)) (\<lambda>c.
     bindE (on_items (sql_upsert (key, ir_identity row) c (\<lambda>_. Some c))) (\<lambda>_. retE ()))"

definition q_deleteItem :: "pkey \<Rightarrow> string \<Rightarrow> unit sql_op" where
  "q_deleteItem key i = bindE (on_items (sql_delete (\<lambda>(k, j) _. k = key \<and> j \<in> set [i]))) (\<lambda>_. retE ())"

definition q_upsertOutbox :: "pkey \<Rightarrow> outbox_row \<Rightarrow> unit sql_op" where
  "q_upsertOutbox key row =
     bindE (resultE (outboxParams row)) (\<lambda>c.
     bindE (on_outbox (sql_upsert (key, ob_eventId row) c (\<lambda>_. Some c))) (\<lambda>_. retE ()))"

definition q_deleteOutbox :: "pkey \<Rightarrow> string \<Rightarrow> unit sql_op" where
  "q_deleteOutbox key i = bindE (on_outbox (sql_delete (\<lambda>(k, j) _. k = key \<and> j \<in> set [i]))) (\<lambda>_. retE ())"

definition q_recordAttempt :: "pkey \<Rightarrow> string \<Rightarrow> serialized_error option \<Rightarrow> number option \<Rightarrow> nat sql_op" where
  "q_recordAttempt key eid error nextAttemptAt =
     on_outbox (sql_update (\<lambda>(k, j) _. k = key \<and> j = eid)
       (\<lambda>c. c\<lparr>oc_attempts := oc_attempts c + 1, oc_last_error := error, oc_next_attempt_at := nextAttemptAt\<rparr>))"

definition q_poisonParked :: "pkey \<Rightarrow> string \<Rightarrow> (event \<times> number) option sql_op" where
  "q_poisonParked key i =
     getsE (\<lambda>db. Option.bind (map_of (t_parked db) (key, i)) (\<lambda>c.
       if qc_kind c = Poison then map_option (\<lambda>ev. (ev, qc_parked_at c)) (qc_event c) else None))"

definition q_deleteParked :: "pkey \<Rightarrow> string \<Rightarrow> nat sql_op" where
  "q_deleteParked key i = on_parked (sql_delete (\<lambda>(k, j) _. k = key \<and> j \<in> set [i]))"

definition writeParked :: "pkey \<Rightarrow> parked_row \<Rightarrow> unit sql_op" where
  "writeParked key row =
     bindE (resultE (parked_params row)) (\<lambda>c.
     bindE (on_parked (sql_upsert (key, pk_id row) c (\<lambda>_. Some c))) (\<lambda>_. retE ()))"

definition q_upsertLog :: "pkey \<Rightarrow> outbox_row \<Rightarrow> unit sql_op" where
  "q_upsertLog key row =
     bindE (resultE (event_text (ob_event row))) (\<lambda>ev.
     let c = \<lparr>gc_event = ev, gc_created_at = ob_createdAt row\<rparr> in
     bindE (on_log (sql_upsert (key, ob_sequence row) c (\<lambda>_. Some c))) (\<lambda>_. retE ()))"

definition writeState :: "pkey \<Rightarrow> state_patch \<Rightarrow> unit sql_op" where
  "writeState key patch =
     bindE (q_loadState key) (\<lambda>st.
     let base = opt_or st (emptyPollerState (opt_or (sp_updatedAt patch) 0)) in
     q_saveState key (patched base patch))"

section \<open>The methods that write\<close>

definition sqlite_acquireLease :: "pkey \<Rightarrow> string \<Rightarrow> number \<Rightarrow> number \<Rightarrow> lease option sqlite_io" where
  "sqlite_acquireLease key owner ttlMs now =
     sqlite_run (bindE (q_acquire key owner (now + ttlMs) now) (\<lambda>row.
       case row of
         None \<Rightarrow> retE None
       | Some (epoch, expires) \<Rightarrow>
           (case expires of
              None \<Rightarrow> throwE (watukuyError STORE ''SqliteStore: expected an integer column, got object'')
            | Some t \<Rightarrow> retE (Some \<lparr>l_owner = owner, l_epoch = epoch, l_expiresAt = t\<rparr>))))"

definition sqlite_renewLease :: "pkey \<Rightarrow> lease \<Rightarrow> number \<Rightarrow> number \<Rightarrow> bool sqlite_io" where
  "sqlite_renewLease key l ttlMs now = sqlite_run (bindE (q_renew key l (now + ttlMs)) (\<lambda>changes. retE (changes = 1)))"

definition sqlite_releaseLease :: "pkey \<Rightarrow> lease \<Rightarrow> unit sqlite_io" where
  "sqlite_releaseLease key l = sqlite_run (bindE (q_release key l) (\<lambda>_. retE ()))"

definition sqlite_saveState :: "pkey \<Rightarrow> lease \<Rightarrow> state_patch \<Rightarrow> unit sqlite_io" where
  "sqlite_saveState key l patch = sqlite_tx (bindE (sqlite_fence key l) (\<lambda>_. writeState key patch))"

definition sqlite_saveStateUnfenced :: "pkey \<Rightarrow> state_patch \<Rightarrow> unit sqlite_io" where
  "sqlite_saveStateUnfenced key patch = sqlite_tx (writeState key patch)"

definition sqlite_deleteKey :: "pkey \<Rightarrow> unit sqlite_io" where
  "sqlite_deleteKey key = sqlite_tx (
     bindE (on_pollers (sql_delete (\<lambda>k _. k = key))) (\<lambda>_.
     bindE (on_items (sql_delete (\<lambda>(k, _) _. k = key))) (\<lambda>_.
     bindE (on_outbox (sql_delete (\<lambda>(k, _) _. k = key))) (\<lambda>_.
     bindE (on_parked (sql_delete (\<lambda>(k, _) _. k = key))) (\<lambda>_.
     bindE (on_validators (sql_delete (\<lambda>(k, _) _. k = key))) (\<lambda>_.
     bindE (on_log (sql_delete (\<lambda>(k, _) _. k = key))) (\<lambda>_. retE ())))))))"

definition sqlite_clearItems :: "pkey \<Rightarrow> unit sqlite_io" where
  "sqlite_clearItems key = sqlite_run (bindE (on_items (sql_delete (\<lambda>(k, _) _. k = key))) (\<lambda>_. retE ()))"

definition sqlite_commitPoll :: "pkey \<Rightarrow> lease \<Rightarrow> commit_batch \<Rightarrow> unit sqlite_io" where
  "sqlite_commitPoll key l b = sqlite_tx (
     bindE (sqlite_fence key l) (\<lambda>_.
     bindE (eachE (q_upsertItem key) (cb_upserts b)) (\<lambda>_.
     bindE (eachE (q_deleteItem key) (cb_deletes b)) (\<lambda>_.
     bindE (eachE (q_upsertOutbox key) (cb_events b)) (\<lambda>_.
     bindE (eachE (writeParked key) (cb_parked b)) (\<lambda>_.
     bindE (if cb_log b then eachE (q_upsertLog key) (cb_events b) else retE ()) (\<lambda>_.
     writeState key (cb_statePatch b))))))))"

definition sqlite_ackEvents :: "pkey \<Rightarrow> lease \<Rightarrow> string list \<Rightarrow> unit sqlite_io" where
  "sqlite_ackEvents key l ids = sqlite_tx (bindE (sqlite_fence key l) (\<lambda>_. eachE (q_deleteOutbox key) ids))"

definition sqlite_recordAttempt ::
  "pkey \<Rightarrow> lease \<Rightarrow> string \<Rightarrow> serialized_error option \<Rightarrow> number option \<Rightarrow> unit sqlite_io" where
  "sqlite_recordAttempt key l eid error nextAttemptAt = sqlite_tx (
     bindE (sqlite_fence key l) (\<lambda>_. bindE (q_recordAttempt key eid error nextAttemptAt) (\<lambda>_. retE ())))"

definition sqlite_parkEvent :: "pkey \<Rightarrow> lease \<Rightarrow> parked_row \<Rightarrow> unit sqlite_io" where
  "sqlite_parkEvent key l row = sqlite_tx (
     bindE (sqlite_fence key l) (\<lambda>_.
     bindE (writeParked key row) (\<lambda>_.
     case pk_event row of None \<Rightarrow> retE () | Some ev \<Rightarrow> q_deleteOutbox key (ev_id ev))))"

fun sqlite_retry_loop :: "pkey \<Rightarrow> string list \<Rightarrow> nat \<Rightarrow> nat sql_op" where
  "sqlite_retry_loop key [] moved = retE moved"
| "sqlite_retry_loop key (i # ids) moved =
     bindE (q_poisonParked key i) (\<lambda>row.
     case row of
       None \<Rightarrow> sqlite_retry_loop key ids moved
     | Some (ev, parkedAt) \<Rightarrow>
         bindE (q_upsertOutbox key (retried_row ev parkedAt)) (\<lambda>_.
         bindE (q_deleteParked key i) (\<lambda>_. sqlite_retry_loop key ids (moved + 1))))"

definition sqlite_retryParked :: "pkey \<Rightarrow> string list \<Rightarrow> nat sqlite_io" where
  "sqlite_retryParked key ids = sqlite_tx (sqlite_retry_loop key ids 0)"

fun sqlite_discard_loop :: "pkey \<Rightarrow> string list \<Rightarrow> nat \<Rightarrow> nat sql_op" where
  "sqlite_discard_loop key [] removed = retE removed"
| "sqlite_discard_loop key (i # ids) removed =
     bindE (q_deleteParked key i) (\<lambda>changes. sqlite_discard_loop key ids (removed + changes))"

definition sqlite_discardParked :: "pkey \<Rightarrow> string list \<Rightarrow> nat sqlite_io" where
  "sqlite_discardParked key ids = sqlite_tx (sqlite_discard_loop key ids 0)"

definition sqlite_setValidator :: "pkey \<Rightarrow> lease \<Rightarrow> string \<Rightarrow> validator \<Rightarrow> unit sqlite_io" where
  "sqlite_setValidator key l urlHash v = sqlite_tx (
     bindE (sqlite_fence key l) (\<lambda>_.
     bindE (on_validators (sql_upsert (key, urlHash) v (\<lambda>_. Some v))) (\<lambda>_. retE ())))"

definition sqlite_pruneLog :: "pkey \<Rightarrow> number \<Rightarrow> nat sqlite_io" where
  "sqlite_pruneLog key olderThan = sqlite_run (on_log (sql_delete (\<lambda>(k, _) c. k = key \<and> gc_created_at c < olderThan)))"

section \<open>The methods that read\<close>

definition sqlite_getLease :: "pkey \<Rightarrow> lease option sqlite_io" where
  "sqlite_getLease key = sqlite_run (bindE (q_lease key) (\<lambda>row. retE (Option.bind row toLease)))"

definition sqlite_loadState :: "pkey \<Rightarrow> poller_state option sqlite_io" where
  "sqlite_loadState key = sqlite_run (q_loadState key)"

definition sqlite_listKeys :: "string option \<Rightarrow> pkey list sqlite_io" where
  "sqlite_listKeys poller = sqlite_run (getsE (\<lambda>db.
     js_sort_by k_poller (js_sort_by k_partition (filter (\<lambda>k. poller = None \<or> poller = Some (k_poller k)) (map fst (t_pollers db))))))"

fun load_chunks :: "pkey \<Rightarrow> string list list \<Rightarrow> (string, item_row) jsmap \<Rightarrow> (string, item_row) jsmap sql_op" where
  "load_chunks key [] out = retE out"
| "load_chunks key (chunk # chunks) out =
     bindE (getsE (\<lambda>db. select_rows toItem key (\<lambda>i _. i \<in> set chunk) (t_items db))) (\<lambda>rows.
     load_chunks key chunks (set_all ir_identity (\<lambda>x. x) rows out))"

definition IN_CHUNK :: nat where
  "IN_CHUNK = 500"

definition sqlite_loadVersions :: "pkey \<Rightarrow> string list \<Rightarrow> (string, item_row) jsmap sqlite_io" where
  "sqlite_loadVersions key identities = sqlite_run (load_chunks key (batches IN_CHUNK identities) [])"

definition sqlite_countItems :: "pkey \<Rightarrow> nat sqlite_io" where
  "sqlite_countItems key = sqlite_run (getsE (\<lambda>db. length (sql_select (\<lambda>(k, i) _. k = key \<and> True) (t_items db))))"

definition sqlite_loadPending :: "pkey \<Rightarrow> nat \<Rightarrow> outbox_row list sqlite_io" where
  "sqlite_loadPending key limit = sqlite_run (getsE (\<lambda>db.
     take limit (js_sort_by ob_sequence (select_rows toOutbox key (\<lambda>_ c. oc_status c = Pending) (t_outbox db)))))"

definition sqlite_countPending :: "pkey \<Rightarrow> nat sqlite_io" where
  "sqlite_countPending key = sqlite_run (getsE (\<lambda>db.
     length (sql_select (\<lambda>(k, i) c. k = key \<and> oc_status c = Pending) (t_outbox db))))"

definition sqlite_listParked :: "pkey \<Rightarrow> parked_kind option \<Rightarrow> nat option \<Rightarrow> parked_row list sqlite_io" where
  "sqlite_listParked key kind limit = sqlite_run (getsE (\<lambda>db.
     let rows = js_sort_by pk_parkedAt (js_sort_by pk_id
           (select_rows toParked key (\<lambda>_ c. kind = None \<or> kind = Some (qc_kind c)) (t_parked db)))
     in take (opt_or limit (length rows)) rows))"

definition sqlite_countParked :: "pkey \<Rightarrow> nat sqlite_io" where
  "sqlite_countParked key = sqlite_run (getsE (\<lambda>db. length (sql_select (\<lambda>(k, i) _. k = key \<and> True) (t_parked db))))"

definition sqlite_heldKeys :: "pkey \<Rightarrow> string set sqlite_io" where
  "sqlite_heldKeys key = sqlite_run (getsE (\<lambda>db.
     set (List.map_filter pk_holdKey (select_rows toParked key (\<lambda>_ c. qc_hold_key c \<noteq> None) (t_parked db)))))"

definition sqlite_getValidator :: "pkey \<Rightarrow> string \<Rightarrow> validator option sqlite_io" where
  "sqlite_getValidator key urlHash = sqlite_run (getsE (\<lambda>db. map_of (t_validators db) (key, urlHash)))"

definition sqlite_readLog :: "pkey \<Rightarrow> log_range \<Rightarrow> nat \<Rightarrow> logged_event list sqlite_io" where
  "sqlite_readLog key rg limit = sqlite_run (getsE (\<lambda>db.
     take limit (js_sort_by le_sequence (select_rows toLogged key (\<lambda>s c. in_range rg (toLogged s c)) (t_log db)))))"

fun sqlite_step :: "store_cmd \<Rightarrow> sqlite_store \<Rightarrow> (thrown + reply) \<times> sqlite_store" where
  "sqlite_step (Acquire k owner ttl now) = replies RLease (sqlite_acquireLease k owner ttl now)"
| "sqlite_step (Renew k l ttl now) = replies RBool (sqlite_renewLease k l ttl now)"
| "sqlite_step (Release k l) = replies (\<lambda>_. RUnit) (sqlite_releaseLease k l)"
| "sqlite_step (Save k l patch) = replies (\<lambda>_. RUnit) (sqlite_saveState k l patch)"
| "sqlite_step (SaveUnfenced k patch) = replies (\<lambda>_. RUnit) (sqlite_saveStateUnfenced k patch)"
| "sqlite_step (DeleteKey k) = replies (\<lambda>_. RUnit) (sqlite_deleteKey k)"
| "sqlite_step (Clear k) = replies (\<lambda>_. RUnit) (sqlite_clearItems k)"
| "sqlite_step (Commit k l b) = replies (\<lambda>_. RUnit) (sqlite_commitPoll k l b)"
| "sqlite_step (Ack k l ids) = replies (\<lambda>_. RUnit) (sqlite_ackEvents k l ids)"
| "sqlite_step (Attempt k l eid err due) = replies (\<lambda>_. RUnit) (sqlite_recordAttempt k l eid err due)"
| "sqlite_step (ParkRow k l row) = replies (\<lambda>_. RUnit) (sqlite_parkEvent k l row)"
| "sqlite_step (Retry k ids) = replies RCount (sqlite_retryParked k ids)"
| "sqlite_step (Discard k ids) = replies RCount (sqlite_discardParked k ids)"
| "sqlite_step (SetVal k l h v) = replies (\<lambda>_. RUnit) (sqlite_setValidator k l h v)"
| "sqlite_step (Prune k t) = replies RCount (sqlite_pruneLog k t)"

fun sqlite_read :: "query \<Rightarrow> pkey \<Rightarrow> sqlite_store \<Rightarrow> thrown + answer" where
  "sqlite_read QLease key st = map_sum id ALease (fst (sqlite_getLease key st))"
| "sqlite_read QState key st = map_sum id AState (fst (sqlite_loadState key st))"
| "sqlite_read (QVersions ids) key st = map_sum id (AVersions \<circ> map_of) (fst (sqlite_loadVersions key ids st))"
| "sqlite_read QCountItems key st = map_sum id ACount (fst (sqlite_countItems key st))"
| "sqlite_read (QPending n) key st = map_sum id APending (fst (sqlite_loadPending key n st))"
| "sqlite_read QCountPending key st = map_sum id ACount (fst (sqlite_countPending key st))"
| "sqlite_read (QParked kind n) key st = map_sum id AParked (fst (sqlite_listParked key kind n st))"
| "sqlite_read QCountParked key st = map_sum id ACount (fst (sqlite_countParked key st))"
| "sqlite_read QHeld key st = map_sum id AHeld (fst (sqlite_heldKeys key st))"
| "sqlite_read (QValidator h) key st = map_sum id AValidator (fst (sqlite_getValidator key h st))"
| "sqlite_read (QLog rg n) key st = map_sum id ALog (fst (sqlite_readLog key rg n st))"

section \<open>What the statements do to the view\<close>

lemma encode_plain: "plain v \<Longrightarrow> encodeOptionalJson v = Inr (if v = VUndef then None else Some v)"
  by (auto simp: encodeOptionalJson_def plain_def json_copy_def split: sum.splits option.splits)

lemma item_params_plain: "plain_item row \<Longrightarrow> item_params row = Inr (item_cols_of row)"
  by (auto simp: item_params_def item_cols_of_def plain_item_def encode_plain encodeOptionalJson_def [of VUndef] split: option.splits)

lemma outboxParams_plain: "plain_event (ob_event row) \<Longrightarrow> outboxParams row = Inr (outbox_cols_of row)"
  by (simp add: outboxParams_def event_text_plain)

lemma parked_params_plain: "plain_parked row \<Longrightarrow> parked_params row = Inr (parked_cols_of row)"
  by (auto simp: parked_params_def parked_cols_of_def plain_parked_def encode_plain event_text_plain split: option.splits)

abbreviation sql_acts :: "pkey \<Rightarrow> 'a sql_op \<Rightarrow> (key_view \<Rightarrow> 'a) \<Rightarrow> (key_view \<Rightarrow> key_view) \<Rightarrow> bool" where
  "sql_acts \<equiv> acts (sql_ok plain_event) sql_view"

lemma acts_upsertItem:
  "plain_item row \<Longrightarrow> sql_acts key (q_upsertItem key row) (\<lambda>_. ()) (\<lambda>v. v\<lparr>kv_items := (kv_items v)(ir_identity row \<mapsto> row)\<rparr>)"
  using acts_void [OF on_tables(1) [OF table_upsert [where to = toItem and key = key and i = "ir_identity row" and v = "item_cols_of row"]]]
  by (simp add: q_upsertItem_def item_params_plain del: fun_upd_apply)

lemma acts_deleteItem: "sql_acts key (q_deleteItem key i) (\<lambda>_. ()) (\<lambda>v. v\<lparr>kv_items := drop_rows [i] (kv_items v)\<rparr>)"
  unfolding q_deleteItem_def by (rule acts_void [OF on_tables(1) [OF table_delete]])

lemma acts_upsertOutbox:
  "plain_event (ob_event row) \<Longrightarrow>
     sql_acts key (q_upsertOutbox key row) (\<lambda>_. ()) (\<lambda>v. v\<lparr>kv_outbox := (kv_outbox v)(ob_eventId row \<mapsto> row)\<rparr>)"
  using acts_void [OF on_tables(2) [OF table_upsert [where to = toOutbox and key = key and i = "ob_eventId row" and v = "outbox_cols_of row"]]]
  by (simp add: q_upsertOutbox_def outboxParams_plain del: fun_upd_apply)

lemma acts_deleteOutbox: "sql_acts key (q_deleteOutbox key i) (\<lambda>_. ()) (\<lambda>v. v\<lparr>kv_outbox := drop_rows [i] (kv_outbox v)\<rparr>)"
  unfolding q_deleteOutbox_def by (rule acts_void [OF on_tables(2) [OF table_delete]])

lemma acts_recordAttempt:
  "sql_acts key (bindE (q_recordAttempt key eid err due) (\<lambda>_. retE ())) (\<lambda>_. ())
     (\<lambda>v. v\<lparr>kv_outbox := (kv_outbox v)(eid := map_option (\<lambda>row. row\<lparr>ob_attempts := ob_attempts row + 1,
       ob_lastError := err, ob_nextAttemptAt := due\<rparr>) (kv_outbox v eid))\<rparr>)"
  unfolding q_recordAttempt_def
  by (rule acts_void [OF on_tables(2) [OF table_update]]) (simp add: toOutbox_def)

lemma acts_writeParked:
  assumes "plain_parked row"
  shows "sql_acts key (writeParked key row) (\<lambda>_. ()) (\<lambda>v. v\<lparr>kv_parked := (kv_parked v)(pk_id row \<mapsto> row)\<rparr>)"
proof -
  have "kept_cols plain_event (parked_cols_of row)" using assms by (simp add: kept_cols_def parked_cols_of_def plain_parked_def)
  then have "sql_acts key (bindE (on_parked (sql_upsert (key, pk_id row) (parked_cols_of row) (\<lambda>_. Some (parked_cols_of row)))) (\<lambda>_. retE ()))
      (\<lambda>_. ()) (\<lambda>v. v\<lparr>kv_parked := (kv_parked v)(pk_id row \<mapsto> toParked (pk_id row) (parked_cols_of row))\<rparr>)"
    by (intro acts_void [OF on_tables(3) [OF table_upsert]] plain_upsert)
  then show ?thesis using assms by (simp add: writeParked_def parked_params_plain)
qed

lemma acts_deleteParked:
  "sql_acts key (q_deleteParked key i) (\<lambda>v. if kv_parked v i = None then 0 else 1) (\<lambda>v. v\<lparr>kv_parked := (kv_parked v)(i := None)\<rparr>)"
proof -
  have "card (set [i] \<inter> dom m) = (if m i = None then 0 else 1)" "drop_rows [i] m = m(i := None)" for m :: "string \<rightharpoonup> parked_row"
    by (auto simp: drop_rows_at domIff)
  then show ?thesis unfolding q_deleteParked_def
    by (intro acts_cong [OF on_tables(3) [OF table_delete]] plain_delete) (simp_all del: fun_upd_apply)
qed

lemma acts_upsertLog:
  assumes "plain_event (ob_event row)"
  shows "sql_acts key (q_upsertLog key row) (\<lambda>_. ()) (\<lambda>v. v\<lparr>kv_log := (kv_log v)(ob_sequence row \<mapsto> log_entry row)\<rparr>)"
proof -
  let ?c = "\<lparr>gc_event = ob_event row, gc_created_at = ob_createdAt row\<rparr>"
  have "toLogged (ob_sequence row) ?c = log_entry row" by (simp add: toLogged_def log_entry_def)
  then show ?thesis
    using acts_void [OF on_tables(5) [OF table_upsert [where key = key and i = "ob_sequence row" and v = ?c]]] assms
    by (simp add: q_upsertLog_def event_text_plain Let_def del: fun_upd_apply)
qed

lemma acts_writeState: "sql_acts key (writeState key patch) (\<lambda>_. ()) (\<lambda>v. v\<lparr>kv_state := Some (next_state patch (kv_state v))\<rparr>)"
proof -
  have "sql_acts key (q_loadState key) kv_state (\<lambda>v. v)"
    unfolding q_loadState_def by (rule acts_gets) (simp add: sql_view_def)
  from acts_bind [OF this acts_saveState] show ?thesis
    unfolding writeState_def Let_def next_state_def .
qed

section \<open>Every command does what the contract says\<close>

definition sqlite_ok :: "sqlite_store \<Rightarrow> bool" where
  "sqlite_ok st \<longleftrightarrow> sql_ok plain_event (sq_db st)"

definition sqlite_view :: "sqlite_store \<Rightarrow> pkey \<Rightarrow> key_view" where
  "sqlite_view st = sql_view (sq_db st)"

lemma acts_run: "sql_acts key m f g \<Longrightarrow> acts sqlite_ok sqlite_view key (sqlite_run m) f g"
  unfolding acts_def sqlite_ok_def sqlite_view_def by (fastforce simp: sqlite_run_def ready_def)

lemma acts_tx: "sql_acts key m f g \<Longrightarrow> acts sqlite_ok sqlite_view key (sqlite_tx m) f g"
  unfolding sqlite_tx_def by (intro acts_run acts_transaction)

lemma sqlite_fenced:
  assumes "sql_acts (cmd_key c) m (\<lambda>_. ()) g" "sqlite_ok st" "\<And>v. spec c v = guarded (cmd_key c) l g v"
  shows "obeys sqlite_ok sqlite_view c (replies (\<lambda>_. RUnit) (sqlite_tx (bindE (sqlite_fence (cmd_key c) l) (\<lambda>_. m)))) st"
proof (cases "token_match (kv_lease (sql_view (sq_db st) (cmd_key c))) l")
  case True
  obtain db where m: "m (sq_db st) = (Inr (), db)" "sql_ok plain_event db" "sql_view db = (sql_view (sq_db st))(cmd_key c := g (sql_view (sq_db st) (cmd_key c)))"
    using assms(1,2) by (auto simp: acts_def sqlite_ok_def)
  then show ?thesis
    using fence_passes [OF True, of "sq_db st"]
    by (simp add: obeys_def replies_eq sqlite_tx_def sqlite_run_def transaction_def sqlite_fence_def q_lease_def bindE_def getsE_def
        sqlite_ok_def sqlite_view_def ready_def spec_step_def assms(3) guarded_def True)
next
  case False
  then show ?thesis
    using fence_fails [OF False, of "sq_db st"] assms(2)
    by (simp add: obeys_def replies_eq sqlite_tx_def sqlite_run_def transaction_def sqlite_fence_def q_lease_def bindE_def getsE_def
        sqlite_ok_def sqlite_view_def ready_def spec_step_def assms(3) guarded_def False)
qed

lemma acts_commit:
  assumes "admissible (Commit key l b) v0"
  shows "sql_acts key
    (bindE (eachE (q_upsertItem key) (cb_upserts b)) (\<lambda>_.
     bindE (eachE (q_deleteItem key) (cb_deletes b)) (\<lambda>_.
     bindE (eachE (q_upsertOutbox key) (cb_events b)) (\<lambda>_.
     bindE (eachE (writeParked key) (cb_parked b)) (\<lambda>_.
     bindE (if cb_log b then eachE (q_upsertLog key) (cb_events b) else retE ()) (\<lambda>_.
     writeState key (cb_statePatch b))))))) (\<lambda>_. ()) (commit_view b)"
proof -
  have "sql_acts key (if cb_log b then eachE (q_upsertLog key) (cb_events b) else retE ()) (\<lambda>_. ())
      (\<lambda>v. if cb_log b then fold (\<lambda>row v. v\<lparr>kv_log := (kv_log v)(ob_sequence row \<mapsto> log_entry row)\<rparr>) (cb_events b) v else v)"
    using assms by (auto simp: list_all_iff intro!: acts_each acts_upsertLog acts_ret)
  then show ?thesis using assms
    by (intro acts_cong [OF acts_seq [OF acts_each acts_seq [OF acts_each acts_seq [OF acts_each acts_seq [OF acts_each acts_seq [OF _ acts_writeState]]]]]])
      (auto simp: list_all_iff fold_put fold_drop commit_view_def simp del: fun_upd_apply
        intro!: acts_upsertItem acts_deleteItem acts_upsertOutbox acts_writeParked)
qed

lemma acts_cong_at:
  "\<lbrakk> acts I V key m f g; \<And>s. I s \<Longrightarrow> f (V s key) = f' (V s key); \<And>s. I s \<Longrightarrow> g (V s key) = g' (V s key) \<rbrakk> \<Longrightarrow> acts I V key m f' g'"
  unfolding acts_def by simp

lemma finite_part: "finite (dom (rows_as to key t))"
proof -
  have "dom (rows_as to key t) \<subseteq> snd ` fst ` set t"
    by (auto simp: rows_as_def part_def dest!: map_of_SomeD intro!: image_eqI [of _ _ "(key, _)"]) force
  then show ?thesis by (rule finite_subset) simp
qed

lemma acts_discard:
  "sql_acts key (sqlite_discard_loop key ids n) (\<lambda>v. n + card (set ids \<inter> dom (kv_parked v)))
     (\<lambda>v. v\<lparr>kv_parked := drop_rows ids (kv_parked v)\<rparr>)"
proof (induction ids arbitrary: n)
  case (Cons i ids)
  have d: "drop_rows ids (m(i := None)) = drop_rows (i # ids) m" for m :: "string \<rightharpoonup> parked_row"
    by (simp add: drop_rows_at fun_eq_iff)
  have "sql_acts key (sqlite_discard_loop key (i # ids) n)
    (\<lambda>v. n + (if kv_parked v i = None then 0 else 1) + card (set ids \<inter> dom (kv_parked (v\<lparr>kv_parked := (kv_parked v)(i := None)\<rparr>))))
    (\<lambda>v. v\<lparr>kv_parked := (kv_parked v)(i := None)\<rparr>\<lparr>kv_parked := drop_rows ids (kv_parked (v\<lparr>kv_parked := (kv_parked v)(i := None)\<rparr>))\<rparr>)"
    unfolding sqlite_discard_loop.simps by (rule acts_bind [OF acts_deleteParked Cons.IH])
  then show ?case
  proof (rule acts_cong_at)
    fix db
    have "finite (dom (kv_parked (sql_view db key)))" by (simp add: sql_view_def finite_part)
    from count_deletes [OF this, of i ids]
    show "n + (if kv_parked (sql_view db key) i = None then 0 else 1) + card (set ids \<inter> dom (kv_parked
        ((sql_view db key)\<lparr>kv_parked := (kv_parked (sql_view db key))(i := None)\<rparr>))) = n + card (set (i # ids) \<inter> dom (kv_parked (sql_view db key)))"
      by (simp del: dom_fun_upd)
  qed (simp add: d)
qed (simp add: acts_def retE_def)

lemma retry_runs:
  "sql_ok plain_event db \<Longrightarrow> \<exists>db'. sqlite_retry_loop key ids n db = (Inr (fst (retry_view ids n (sql_view db key))), db') \<and> sql_ok plain_event db'
     \<and> sql_view db' = (sql_view db)(key := snd (retry_view ids n (sql_view db key)))"
proof (induction ids arbitrary: n db)
  case (Cons i ids)
  show ?case
  proof (cases "fst (q_poisonParked key i db)")
    case (Inl e)
    then show ?thesis by (simp add: q_poisonParked_def getsE_def)
  next
    case (Inr row)
    then have q: "q_poisonParked key i db = (Inr row, db)" by (simp add: q_poisonParked_def getsE_def)
    show ?thesis
    proof (cases row)
      case None
      have "retry_view (i # ids) n (sql_view db key) = retry_view ids n (sql_view db key)"
        using Inr None by (auto simp: q_poisonParked_def getsE_def sql_view_def rows_as_def part_def toParked_def
            split: option.splits parked_kind.splits bind_splits if_splits)
      then show ?thesis using Cons.IH [OF Cons.prems, of n] q None by (simp add: bindE_def)
    next
      case (Some r)
      obtain ev parkedAt where r: "r = (ev, parkedAt)" by (cases r)
      obtain c where c: "map_of (t_parked db) (key, i) = Some c" "qc_kind c = Poison" "qc_event c = Some ev" "qc_parked_at c = parkedAt"
        using Inr Some r by (auto simp: q_poisonParked_def getsE_def split: bind_splits if_splits)
      have plain: "plain_event (ob_event (retried_row ev parkedAt))"
        using Cons.prems map_of_SomeD [OF c(1)] c(3) by (auto simp: sql_ok_def kept_rows_def kept_cols_def retried_row_def)
      let ?v = "(sql_view db key)\<lparr>kv_outbox := (kv_outbox (sql_view db key))(ev_id ev \<mapsto> retried_row ev parkedAt),
          kv_parked := (kv_parked (sql_view db key))(i := None)\<rparr>"
      obtain db1 where 1: "q_upsertOutbox key (retried_row ev parkedAt) db = (Inr (), db1)" "sql_ok plain_event db1"
          "sql_view db1 = (sql_view db)(key := (sql_view db key)\<lparr>kv_outbox := (kv_outbox (sql_view db key))(ev_id ev \<mapsto> retried_row ev parkedAt)\<rparr>)"
        using acts_upsertOutbox [OF plain, of key] Cons.prems by (auto simp: acts_def retried_row_def simp del: fun_upd_apply)
      obtain n2 db2 where 2: "q_deleteParked key i db1 = (Inr n2, db2)" "sql_ok plain_event db2" "sql_view db2 = (sql_view db)(key := ?v)"
        using acts_deleteParked [of key i] 1(2,3) by (auto simp: acts_def)
      have "sqlite_retry_loop key (i # ids) n db = sqlite_retry_loop key ids (n + 1) db2"
        using q Some r 1(1) 2(1) by (simp add: bindE_def)
      moreover have "retry_view (i # ids) n (sql_view db key) = retry_view ids (n + 1) ?v"
        using c by (simp add: sql_view_def rows_as_def part_def toParked_def)
      ultimately show ?thesis using Cons.IH [OF 2(2), of "n + 1"] unfolding 2(3) by (simp only: fun_upd_same fun_upd_upd)
    qed
  qed
qed (simp add: retE_def)

lemma acts_retry: "sql_acts key (sqlite_retry_loop key ids 0) (\<lambda>v. fst (retry_view ids 0 v)) (\<lambda>v. snd (retry_view ids 0 v))"
  using retry_runs [of _ key ids 0] by (auto simp: acts_def)

lemma acts_deleteKey:
  "sql_acts key (
     bindE (on_pollers (sql_delete (\<lambda>k _. k = key))) (\<lambda>_.
     bindE (on_items (sql_delete (\<lambda>(k, _) _. k = key))) (\<lambda>_.
     bindE (on_outbox (sql_delete (\<lambda>(k, _) _. k = key))) (\<lambda>_.
     bindE (on_parked (sql_delete (\<lambda>(k, _) _. k = key))) (\<lambda>_.
     bindE (on_validators (sql_delete (\<lambda>(k, _) _. k = key))) (\<lambda>_.
     bindE (on_log (sql_delete (\<lambda>(k, _) _. k = key))) (\<lambda>_. retE ()))))))) (\<lambda>_. ()) (\<lambda>_. empty_view)"
proof -
  have at: "map_of (snd (sql_delete (\<lambda>k _. k = key) t)) k = (if k = key then None else map_of t k)" for t :: "(pkey, poller_cols) table" and k
    by (induction t) (auto simp: sql_delete_def sql_select_def)
  have count: "fst (sql_delete (\<lambda>k _. k = key) t) = length (sql_select (\<lambda>k _. k = key) t)" for t :: "(pkey, poller_cols) table"
    by (simp add: sql_delete_def)
  have void: "on_pollers (\<lambda>t. ((), snd (f t))) = bindE (on_pollers f) (\<lambda>_. retE ())" for f :: "(pkey, poller_cols) table \<Rightarrow> nat \<times> (pkey, poller_cols) table"
    by (rule ext) (simp add: on_pollers_def bindE_def retE_def split_beta)
  have "sql_acts key (on_pollers (\<lambda>t. ((), snd (sql_delete (\<lambda>k _. k = key) t)))) (\<lambda>v. ())
    (\<lambda>v. case (None, None, 0) of (s, l, c) \<Rightarrow> v\<lparr>kv_state := s, kv_lease := l, kv_counter := c\<rparr>)"
    by (rule pollers_acts) (auto simp: distinct_sql at leased_def poller_view_def)
  then have p: "sql_acts key (bindE (on_pollers (sql_delete (\<lambda>k _. k = key))) (\<lambda>_. retE ())) (\<lambda>v. ())
    (\<lambda>v. v\<lparr>kv_state := None, kv_lease := None, kv_counter := 0\<rparr>)" by (simp add: void)
  have split: "bindE m (\<lambda>_. n) = bindE (bindE m (\<lambda>_. retE ())) (\<lambda>_. n)" for m :: "nat sql_op" and n :: "unit sql_op"
    by (rule ext) (simp add: bindE_def retE_def split: prod.splits sum.splits)
  show ?thesis
    by (rule acts_cong [OF _ refl], subst split,
        rule acts_seq [OF p acts_bind [OF on_tables(1) [OF table_clear] acts_bind [OF on_tables(2) [OF table_clear]
          acts_bind [OF on_tables(3) [OF table_clear plain_delete] acts_bind [OF on_tables(4) [OF table_clear]
          acts_void [OF on_tables(5) [OF table_clear]]]]]]])
      (simp_all add: empty_view_def)
qed

lemma acts_acquireLease:
  "sql_acts key (bindE (q_acquire key owner (now + ttl) now) (\<lambda>row. case row of None \<Rightarrow> retE None
       | Some (epoch, expires) \<Rightarrow> (case expires of None \<Rightarrow> throwE (watukuyError STORE ''SqliteStore: expected an integer column, got object'')
           | Some t \<Rightarrow> retE (Some \<lparr>l_owner = owner, l_epoch = epoch, l_expiresAt = t\<rparr>))))
    (\<lambda>v. if \<exists>l. kv_lease v = Some l \<and> l_expiresAt l > now \<and> l_owner l \<noteq> owner then None
         else Some \<lparr>l_owner = owner, l_epoch = kv_counter v + 1, l_expiresAt = now + ttl\<rparr>)
    (\<lambda>v. if \<exists>l. kv_lease v = Some l \<and> l_expiresAt l > now \<and> l_owner l \<noteq> owner then v
         else v\<lparr>kv_counter := kv_counter v + 1, kv_lease := Some \<lparr>l_owner = owner, l_epoch = kv_counter v + 1, l_expiresAt = now + ttl\<rparr>\<rparr>)"
  by (rule acts_cong [OF acts_bind [OF acts_acquire, where
        f' = "\<lambda>row _. map_option (\<lambda>(epoch, expires). \<lparr>l_owner = owner, l_epoch = epoch, l_expiresAt = opt_or expires 0\<rparr>) row" and g' = "\<lambda>_ v. v"]])
    (auto simp: acts_def retE_def)

lemma sqlite_contract:
  assumes ok: "sqlite_ok st" and adm: "admissible c (sqlite_view st (cmd_key c))"
  shows "obeys sqlite_ok sqlite_view c (sqlite_step c) st"
proof (cases c)
  case (Acquire k owner ttl now)
  have "acts sqlite_ok sqlite_view (cmd_key c) (sqlite_acquireLease k owner ttl now)
      (\<lambda>v. if \<exists>l. kv_lease v = Some l \<and> l_expiresAt l > now \<and> l_owner l \<noteq> owner then None
         else Some \<lparr>l_owner = owner, l_epoch = kv_counter v + 1, l_expiresAt = now + ttl\<rparr>)
      (\<lambda>v. if \<exists>l. kv_lease v = Some l \<and> l_expiresAt l > now \<and> l_owner l \<noteq> owner then v
         else v\<lparr>kv_counter := kv_counter v + 1, kv_lease := Some \<lparr>l_owner = owner, l_epoch = kv_counter v + 1, l_expiresAt = now + ttl\<rparr>\<rparr>)"
    unfolding sqlite_acquireLease_def Acquire cmd_key.simps by (rule acts_run [OF acts_acquireLease])
  then show ?thesis unfolding Acquire sqlite_step.simps by (rule obeys_acts [where I = sqlite_ok and V = sqlite_view and s = st, OF _ ok]) (auto simp: Let_def)
next
  case (Renew k l ttl now)
  have "acts sqlite_ok sqlite_view (cmd_key c) (sqlite_renewLease k l ttl now) (\<lambda>v. (if token_match (kv_lease v) l then 1 else 0) = (1::nat))
      (\<lambda>v. if token_match (kv_lease v) l then v\<lparr>kv_lease := map_option (\<lambda>l. l\<lparr>l_expiresAt := now + ttl\<rparr>) (kv_lease v)\<rparr> else v)"
    unfolding sqlite_renewLease_def Renew cmd_key.simps 
    by (rule acts_run [OF acts_bind [where f' = "\<lambda>n _. n = 1" and g' = "\<lambda>_ v. v", OF acts_renew acts_ret]])
  from obeys_acts [OF this ok, where h = RBool] show ?thesis by (simp add: Renew)
next
  case (Release k l)
  have "acts sqlite_ok sqlite_view (cmd_key c) (sqlite_releaseLease k l) (\<lambda>_. ()) (\<lambda>v. if token_match (kv_lease v) l then v\<lparr>kv_lease := None\<rparr> else v)"
    unfolding sqlite_releaseLease_def Release cmd_key.simps by (rule acts_run [OF acts_release])
  from obeys_acts [OF this ok, where h = "\<lambda>_. RUnit"] show ?thesis by (simp add: Release)
next
  case (Save k l patch)
  show ?thesis using sqlite_fenced [OF acts_writeState ok, of c l patch] by (simp add: Save sqlite_saveState_def)
next
  case (SaveUnfenced k patch)
  have "acts sqlite_ok sqlite_view (cmd_key c) (sqlite_saveStateUnfenced k patch) (\<lambda>_. ()) (\<lambda>v. v\<lparr>kv_state := Some (next_state patch (kv_state v))\<rparr>)"
    unfolding sqlite_saveStateUnfenced_def SaveUnfenced cmd_key.simps by (rule acts_tx [OF acts_writeState])
  from obeys_acts [OF this ok, where h = "\<lambda>_. RUnit"] show ?thesis by (simp add: SaveUnfenced)
next
  case (DeleteKey k)
  have "acts sqlite_ok sqlite_view (cmd_key c) (sqlite_deleteKey k) (\<lambda>_. ()) (\<lambda>_. empty_view)"
    unfolding sqlite_deleteKey_def DeleteKey cmd_key.simps by (rule acts_tx [OF acts_deleteKey])
  from obeys_acts [OF this ok, where h = "\<lambda>_. RUnit"] show ?thesis by (simp add: DeleteKey)
next
  case (Clear k)
  have "acts sqlite_ok sqlite_view (cmd_key c) (sqlite_clearItems k) (\<lambda>_. ()) (\<lambda>v. v\<lparr>kv_items := Map.empty\<rparr>)"
    unfolding sqlite_clearItems_def Clear cmd_key.simps by (rule acts_run [OF acts_void [OF on_tables(1) [OF table_clear]]])
  from obeys_acts [OF this ok, where h = "\<lambda>_. RUnit"] show ?thesis by (simp add: Clear)
next
  case (Commit k l b)
  have "admissible (Commit k l b) (sqlite_view st (cmd_key c))" using adm Commit by simp
  from sqlite_fenced [of c, OF _ ok, where l = l, unfolded Commit cmd_key.simps, OF acts_commit [OF this]]
  show ?thesis by (simp add: Commit sqlite_commitPoll_def)
next
  case (Ack k l ids)
  have "sql_acts k (eachE (q_deleteOutbox k) ids) (\<lambda>_. ()) (\<lambda>v. v\<lparr>kv_outbox := drop_rows ids (kv_outbox v)\<rparr>)"
    by (rule acts_cong [OF acts_each [OF acts_deleteOutbox]]) (simp_all add: fold_drop)
  from sqlite_fenced [of c, OF _ ok, where l = l, unfolded Ack cmd_key.simps, OF this] show ?thesis by (simp add: Ack sqlite_ackEvents_def)
next
  case (Attempt k l eid err due)
  show ?thesis using sqlite_fenced [of c, OF _ ok, where l = l, unfolded Attempt cmd_key.simps, OF acts_recordAttempt]
    by (simp add: Attempt sqlite_recordAttempt_def)
next
  case (ParkRow k l row)
  have "plain_parked row" using adm ParkRow by simp
  have "sql_acts k (bindE (writeParked k row) (\<lambda>_. case pk_event row of None \<Rightarrow> retE () | Some ev \<Rightarrow> q_deleteOutbox k (ev_id ev))) (\<lambda>_. ())
      (\<lambda>v. v\<lparr>kv_parked := (kv_parked v)(pk_id row \<mapsto> row),
        kv_outbox := drop_rows (case pk_event row of None \<Rightarrow> [] | Some ev \<Rightarrow> [ev_id ev]) (kv_outbox v)\<rparr>)"
  proof (cases "pk_event row")
    case None
    show ?thesis unfolding None option.case by (rule acts_cong [OF acts_void [OF acts_writeParked]]) (simp_all add: \<open>plain_parked row\<close>)
  next
    case (Some ev)
    show ?thesis unfolding Some option.case
      by (rule acts_cong [OF acts_seq [OF acts_writeParked acts_deleteOutbox]]) (simp_all add: \<open>plain_parked row\<close>)
  qed
  from sqlite_fenced [of c, OF _ ok, where l = l, unfolded ParkRow cmd_key.simps, OF this] show ?thesis by (simp add: ParkRow sqlite_parkEvent_def)
next
  case (Retry k ids)
  have "acts sqlite_ok sqlite_view (cmd_key c) (sqlite_retryParked k ids) (\<lambda>v. fst (retry_view ids 0 v)) (\<lambda>v. snd (retry_view ids 0 v))"
    unfolding sqlite_retryParked_def Retry cmd_key.simps by (rule acts_tx [OF acts_retry])
  from obeys_acts [OF this ok, where h = RCount] show ?thesis by (simp add: Retry split_beta)
next
  case (Discard k ids)
  have "acts sqlite_ok sqlite_view (cmd_key c) (sqlite_discardParked k ids) (\<lambda>v. 0 + card (set ids \<inter> dom (kv_parked v)))
      (\<lambda>v. v\<lparr>kv_parked := drop_rows ids (kv_parked v)\<rparr>)"
    unfolding sqlite_discardParked_def Discard cmd_key.simps by (rule acts_tx [OF acts_discard])
  from obeys_acts [OF this ok, where h = RCount] show ?thesis by (simp add: Discard)
next
  case (SetVal k l h val)
  show ?thesis using sqlite_fenced [of c, OF _ ok, where l = l, unfolded SetVal cmd_key.simps, OF acts_void [OF on_tables(4) [OF table_upsert]]]
    by (simp add: SetVal sqlite_setValidator_def)
next
  case (Prune k t)
  have "acts sqlite_ok sqlite_view (cmd_key c) (sqlite_pruneLog k t)
      (\<lambda>v. card {s. \<exists>e. kv_log v s = Some e \<and> le_createdAt e < t})
      (\<lambda>v. v\<lparr>kv_log := (\<lambda>s. case kv_log v s of None \<Rightarrow> None | Some e \<Rightarrow> if le_createdAt e < t then None else Some e)\<rparr>)"
    unfolding sqlite_pruneLog_def Prune cmd_key.simps
    by (rule acts_run [OF on_tables(5) [OF table_delete_where]]) (simp add: toLogged_def)
  from obeys_acts [OF this ok, where h = RCount] show ?thesis by (simp add: Prune)
qed

section \<open>Every query answers what the contract says\<close>

lemma runs_get: "fst (sqlite_run (getsE f) st) = Inr (f (sq_db st))"
  by (simp add: sqlite_run_def getsE_def)

lemma set_all_append: "set_all key val (xs @ ys) m = set_all key val ys (set_all key val xs m)"
  by (induction xs arbitrary: m) simp_all

lemma load_chunks_view:
  assumes "sql_ok plain_event db" "map_of out = rows_as toItem key (t_items db) |` S"
  shows "\<exists>m. load_chunks key chunks out db = (Inr m, db) \<and> map_of m = rows_as toItem key (t_items db) |` (S \<union> set (concat chunks))"
  using assms(2)
proof (induction chunks arbitrary: out S)
  case (Cons chunk chunks)
  let ?rows = "select_rows toItem key (\<lambda>i _. i \<in> set chunk) (t_items db)"
  have keys: "distinct (map fst (t_items db))" using assms(1) by (simp add: sql_ok_def)
  have ids: "ir_identity (toItem i c) = i" for i c by (simp add: toItem_def)
  have rows: "set ?rows = {row \<in> ran (rows_as toItem key (t_items db)). ir_identity row \<in> set chunk}"
    by (rule select_rows_set [OF keys]) (simp add: ids)
  have at: "rows_as toItem key (t_items db) (ir_identity row) = Some row" if "row \<in> set ?rows" for row
    using that unfolding rows by (auto simp: ran_def rows_as_def ids)
  have d: "distinct (map ir_identity ?rows)"
    using select_rows_distinct(2) [where idof = ir_identity and to = toItem, OF keys ids] .
  have "map_of (set_all ir_identity (\<lambda>x. x) ?rows out) = rows_as toItem key (t_items db) |` (S \<union> set chunk)"
  proof
    fix i
    show "map_of (set_all ir_identity (\<lambda>x. x) ?rows out) i = (rows_as toItem key (t_items db) |` (S \<union> set chunk)) i"
    proof (cases "i \<in> ir_identity ` set ?rows")
      case True
      then obtain row where row: "row \<in> set ?rows" "i = ir_identity row" by blast
      then have "i \<in> set chunk" unfolding rows by simp
      then show ?thesis using map_of_set_all_in [OF d row(1), of "\<lambda>x. x" out] at [OF row(1)] row(2)
        by (simp add: restrict_map_def)
    next
      case False
      have "rows_as toItem key (t_items db) i = None" if "i \<in> set chunk"
      proof (rule ccontr)
        assume "rows_as toItem key (t_items db) i \<noteq> None"
        then obtain row where "rows_as toItem key (t_items db) i = Some row" by blast
        then have "row \<in> set ?rows" "ir_identity row = i" unfolding rows using that by (auto simp: ran_def rows_as_def ids)
        with False show False by blast
      qed
      then show ?thesis unfolding map_of_set_all_notin [OF False] Cons.prems by (auto simp: restrict_map_def)
    qed
  qed
  then obtain m where "load_chunks key chunks (set_all ir_identity (\<lambda>x. x) ?rows out) db = (Inr m, db)"
      "map_of m = rows_as toItem key (t_items db) |` (S \<union> set chunk \<union> set (concat chunks))"
    using Cons.IH by blast
  then show ?case by (simp add: bindE_def getsE_def Un_assoc)
qed (simp add: retE_def)

lemma row_count: "distinct (map fst t) \<Longrightarrow> length (sql_select (\<lambda>(k, i) _. k = key \<and> True) t) = card (dom (rows_as to key t))"
  using select_count [of t key "\<lambda>_ _. True"] by (simp add: dom_def rows_as_def)

lemma sqlite_reads:
  assumes "sqlite_ok st"
  shows "\<exists>a. sqlite_read qu key st = Inr a \<and> answers qu (sqlite_view st key) a"
proof -
  let ?db = "sq_db st"
  have keys: "distinct (map fst (t_items ?db))" "distinct (map fst (t_outbox ?db))" "distinct (map fst (t_parked ?db))"
    "distinct (map fst (t_log ?db))" using assms by (simp_all add: sqlite_ok_def sql_ok_def)
  note views = sqlite_view_def sql_view_def
  show ?thesis
  proof (cases qu)
    case QLease
    then show ?thesis by (simp add: sqlite_getLease_def sqlite_run_def q_lease_def bindE_def getsE_def retE_def views)
  next
    case QState
    then show ?thesis by (simp add: sqlite_loadState_def runs_get q_loadState_def views)
  next
    case (QVersions ids)
    obtain m where "load_chunks key (batches IN_CHUNK ids) [] ?db = (Inr m, ?db)" "map_of m = rows_as toItem key (t_items ?db) |` set ids"
      using load_chunks_view [of ?db "[]" key "{}" "batches IN_CHUNK ids"] assms concat_batches [of IN_CHUNK ids]
      by (auto simp: sqlite_ok_def IN_CHUNK_def simp del: set_concat)
    then show ?thesis by (simp add: QVersions sqlite_loadVersions_def sqlite_run_def views)
  next
    case QCountItems
    show ?thesis by (simp add: QCountItems sqlite_countItems_def runs_get views row_count [OF keys(1), of key toItem, simplified])
  next
    case (QPending n)
    have "listing ob_sequence {row \<in> ran (rows_as toOutbox key (t_outbox ?db)). ob_status row = Pending} (Some n)
      (take (opt_or (Some n) (length (select_rows toOutbox key (\<lambda>_ c. oc_status c = Pending) (t_outbox ?db))))
        (js_sort_by ob_sequence (select_rows toOutbox key (\<lambda>_ c. oc_status c = Pending) (t_outbox ?db))))"
      by (rule select_rows_listing [where idof = ob_eventId, OF keys(2)]) (simp_all add: toOutbox_def)
    then show ?thesis by (simp add: QPending sqlite_loadPending_def runs_get views)
  next
    case QCountPending
    have "{i. \<exists>v. part key (t_outbox ?db) i = Some v \<and> oc_status v = Pending}
        = {i. \<exists>row. rows_as toOutbox key (t_outbox ?db) i = Some row \<and> ob_status row = Pending}"
      by (auto simp: rows_as_def toOutbox_def)
    then show ?thesis
      using select_count [OF keys(2), of key "\<lambda>_ c. oc_status c = Pending"]
      by (simp add: QCountPending sqlite_countPending_def runs_get views)
  next
    case (QParked kind n)
    let ?rows = "select_rows toParked key (\<lambda>_ c. kind = None \<or> kind = Some (qc_kind c)) (t_parked ?db)"
    have "distinct (js_sort_by pk_id ?rows)"
      using select_rows_distinct(1) [where idof = pk_id and to = toParked, OF keys(3)] by (simp add: js_sort_by_def toParked_def)
    moreover have "set (js_sort_by pk_id ?rows) = {row \<in> ran (rows_as toParked key (t_parked ?db)). kind = None \<or> kind = Some (pk_kind row)}"
      unfolding js_sort_by_set by (rule select_rows_set [OF keys(3)]) (simp add: toParked_def)
    ultimately show ?thesis using listing_sort [of "js_sort_by pk_id ?rows" _ pk_parkedAt n]
      by (simp add: QParked sqlite_listParked_def runs_get views Let_def)
  next
    case QCountParked
    show ?thesis by (simp add: QCountParked sqlite_countParked_def runs_get views row_count [OF keys(3), of key toParked, simplified])
  next
    case QHeld
    have "set (select_rows toParked key (\<lambda>_ c. qc_hold_key c \<noteq> None) (t_parked ?db))
        = {row \<in> ran (rows_as toParked key (t_parked ?db)). pk_holdKey row \<noteq> None}"
      by (rule select_rows_set [OF keys(3)]) (simp add: toParked_def)
    then have "set (List.map_filter pk_holdKey (select_rows toParked key (\<lambda>_ c. qc_hold_key c \<noteq> None) (t_parked ?db)))
        = {h. \<exists>row \<in> ran (rows_as toParked key (t_parked ?db)). pk_holdKey row = Some h}"
      by (force simp: map_filter_def image_iff)
    then show ?thesis by (simp add: QHeld sqlite_heldKeys_def runs_get views)
  next
    case (QValidator h)
    then show ?thesis by (simp add: sqlite_getValidator_def runs_get views rows_as_def part_def option.map_ident)
  next
    case (QLog rg n)
    have "listing le_sequence {e \<in> ran (rows_as toLogged key (t_log ?db)). in_range rg e} (Some n)
      (take (opt_or (Some n) (length (select_rows toLogged key (\<lambda>s c. in_range rg (toLogged s c)) (t_log ?db))))
        (js_sort_by le_sequence (select_rows toLogged key (\<lambda>s c. in_range rg (toLogged s c)) (t_log ?db))))"
      by (rule select_rows_listing [where idof = le_sequence, OF keys(4)]) (simp_all add: toLogged_def)
    then show ?thesis by (simp add: QLog sqlite_readLog_def runs_get views)
  qed
qed

section \<open>The instance\<close>

lemma sqlite_store_instance:
  assumes "sq_db st0 = empty_db"
  shows "state_store sqlite_step sqlite_read sqlite_view sqlite_ok st0"
proof
  show "sqlite_ok st0" "sqlite_view st0 = no_keys" using assms empty_db_ok by (simp_all add: sqlite_ok_def sqlite_view_def)
next
  fix st c r st'
  assume "sqlite_ok st" "admissible c (sqlite_view st (cmd_key c))" "sqlite_step c st = (r, st')"
  then show "sqlite_ok st' \<and> spec_step c (sqlite_view st) = (r, sqlite_view st')"
    using sqlite_contract [of st c] by (simp add: obeys_def)
qed (rule sqlite_reads)

lemma new_store_empty: "new_sqliteStore opts = Inr st0 \<Longrightarrow> sq_db st0 = empty_db"
  by (auto simp: new_sqliteStore_def Let_def split: option.splits if_splits sum.splits)

definition in_memory_store :: sqlite_store where
  "in_memory_store = \<lparr>sq_path = '':memory:'', sq_prefix = DEFAULT_TABLE_PREFIX, sq_busyTimeoutMs = 5000,
     sq_open = False, sq_migrated = False, sq_db = empty_db\<rparr>"

interpretation sqlite: state_store sqlite_step sqlite_read sqlite_view sqlite_ok in_memory_store
  by (rule sqlite_store_instance) (simp add: in_memory_store_def)



section \<open>Reading identities while others write\<close>

definition stream_page :: "pkey \<Rightarrow> string option \<Rightarrow> nat \<Rightarrow> sql_db \<Rightarrow> string list" where
  "stream_page key after sz db =
     take sz (js_sort_by (\<lambda>i. i) (map (\<lambda>((k, i), c). i) (sql_select (\<lambda>(k, i) _. k = key
       \<and> (case after of None \<Rightarrow> True | Some a \<Rightarrow> a < i)) (t_items db))))"

text \<open>\<^verbatim>\<open>streamIdentities\<close>: the \<^verbatim>\<open>n\<close>-th page is read from the tables as they are when it is asked for. The first
  argument bounds the number of pages.\<close>

fun stream_loop :: "nat \<Rightarrow> (nat \<Rightarrow> sql_db) \<Rightarrow> nat \<Rightarrow> pkey \<Rightarrow> nat \<Rightarrow> string option \<Rightarrow> string list list" where
  "stream_loop 0 dbs n key sz after = []"
| "stream_loop (Suc fuel) dbs n key sz after =
     (let ids = stream_page key after sz (dbs n) in
      if ids = [] then []
      else if length ids < sz then [ids]
      else ids # stream_loop fuel dbs (n + 1) key sz (Some (List.last ids)))"

definition sqlite_streamIdentities :: "nat \<Rightarrow> (nat \<Rightarrow> sql_db) \<Rightarrow> pkey \<Rightarrow> number \<Rightarrow> string list list" where
  "sqlite_streamIdentities fuel dbs key batchSize = stream_loop fuel dbs 0 key (nat \<lfloor>max 1 (js_floor batchSize)\<rfloor>) None"

definition ids_of :: "pkey \<Rightarrow> sql_db \<Rightarrow> string set" where
  "ids_of key db = {i. \<exists>c. ((key, i), c) \<in> set (t_items db)}"

definition beyond :: "string option \<Rightarrow> string set \<Rightarrow> string set" where
  "beyond after S = {i \<in> S. case after of None \<Rightarrow> True | Some a \<Rightarrow> a < i}"

lemma page_facts:
  assumes "distinct (map fst (t_items db))"
  shows "sorted (stream_page key after sz db)" "distinct (stream_page key after sz db)"
    "set (stream_page key after sz db) \<subseteq> beyond after (ids_of key db)"
    "length (stream_page key after sz db) < sz \<Longrightarrow> set (stream_page key after sz db) = beyond after (ids_of key db)"
    "\<lbrakk> i \<in> beyond after (ids_of key db); stream_page key after sz db \<noteq> []; i \<le> List.last (stream_page key after sz db) \<rbrakk> \<Longrightarrow> i \<in> set (stream_page key after sz db)"
proof -
  let ?sel = "sql_select (\<lambda>(k, i) _. k = key \<and> (case after of None \<Rightarrow> True | Some a \<Rightarrow> a < i)) (t_items db)"
  let ?ids = "map (\<lambda>((k, i), c). i) ?sel"
  let ?all = "js_sort_by (\<lambda>i. i) ?ids"
  have set: "set ?ids = beyond after (ids_of key db)" unfolding beyond_def ids_of_def sql_select_def by force
  have eq: "?ids = map snd (map fst ?sel)" by (simp add: comp_def split_beta)
  have "inj_on snd (set (map fst ?sel))" by (auto simp: sql_select_def inj_on_def)
  then have "distinct ?ids" unfolding eq using distinct_sql_select [OF assms(1)] by (simp only: distinct_map)
  then have d: "distinct ?all" by (simp add: js_sort_by_def)
  have s: "sorted ?all" using js_sort_by_sorted [of "\<lambda>i. i" ?ids] by simp
  show "sorted (stream_page key after sz db)" "distinct (stream_page key after sz db)"
    using s d unfolding stream_page_def by (simp_all add: sorted_wrt_take)
  show "set (stream_page key after sz db) \<subseteq> beyond after (ids_of key db)" unfolding stream_page_def using set_take_subset [of sz ?all] set by simp
  show "set (stream_page key after sz db) = beyond after (ids_of key db)" if "length (stream_page key after sz db) < sz"
    using that set unfolding stream_page_def by simp
  show "i \<in> set (stream_page key after sz db)"
    if i: "i \<in> beyond after (ids_of key db)" "stream_page key after sz db \<noteq> []" "i \<le> List.last (stream_page key after sz db)"
  proof (rule ccontr)
    assume no: "i \<notin> set (stream_page key after sz db)"
    obtain rest where all: "?all = stream_page key after sz db @ rest"
      unfolding stream_page_def by (metis append_take_drop_id)
    have "i \<in> set ?all" using i(1) set by simp
    then have "i \<in> set rest" using no unfolding all by simp
    moreover have "List.last (stream_page key after sz db) \<in> set (stream_page key after sz db)" using i(2) by simp
    ultimately have "List.last (stream_page key after sz db) \<le> i"
      using s unfolding all sorted_append by blast
    with i(2,3) no show False by (metis last_in_set order_antisym)
  qed
qed

lemma stream_loop_facts:
  assumes "\<And>n. sql_ok plain_event (dbs n)" "\<And>n. ids_of key (dbs n) \<subseteq> U" "finite U" "0 < sz"
  shows "card (beyond after U) < fuel \<Longrightarrow>
    sorted (concat (stream_loop fuel dbs n key sz after)) \<and> distinct (concat (stream_loop fuel dbs n key sz after))
    \<and> set (concat (stream_loop fuel dbs n key sz after)) \<subseteq> beyond after U
    \<and> (\<forall>i \<in> beyond after UNIV. (\<forall>m. i \<in> ids_of key (dbs m)) \<longrightarrow> i \<in> set (concat (stream_loop fuel dbs n key sz after)))"
proof (induction fuel arbitrary: n after)
  case (Suc fuel)
  let ?ids = "stream_page key after sz (dbs n)"
  have keys: "distinct (map fst (t_items (dbs n)))" using assms(1) [of n] by (simp add: sql_ok_def)
  note page = page_facts [OF keys, where key = key and after = after and sz = sz]
  have sub: "set ?ids \<subseteq> beyond after U" using page(3) assms(2) [of n] by (auto simp: beyond_def)
  show ?case
  proof (cases "length ?ids < sz")
    case True
    have "i \<in> set ?ids" if "i \<in> beyond after UNIV" "\<forall>m. i \<in> ids_of key (dbs m)" for i
      using page(4) [OF True] that by (simp add: beyond_def)
    moreover have "concat (stream_loop (Suc fuel) dbs n key sz after) = ?ids" using True by (auto simp: Let_def)
    ultimately show ?thesis using page(1,2) sub by auto
  next
    case False
    then have ne: "?ids \<noteq> []" using assms(4) by auto
    let ?l = "List.last ?ids"
    have l: "?l \<in> set ?ids" using ne by simp
    then have lb: "?l \<in> beyond after U" using sub by blast
    have less: "beyond (Some ?l) U \<subset> beyond after U"
      using lb by (auto simp: beyond_def split: option.splits)
    have "card (beyond (Some ?l) U) < card (beyond after U)"
      by (rule psubset_card_mono [OF _ less]) (simp add: beyond_def assms(3))
    then have IH: "sorted (concat (stream_loop fuel dbs (n + 1) key sz (Some ?l)))"
      "distinct (concat (stream_loop fuel dbs (n + 1) key sz (Some ?l)))"
      "set (concat (stream_loop fuel dbs (n + 1) key sz (Some ?l))) \<subseteq> beyond (Some ?l) U"
      "\<forall>i \<in> beyond (Some ?l) UNIV. (\<forall>m. i \<in> ids_of key (dbs m)) \<longrightarrow> i \<in> set (concat (stream_loop fuel dbs (n + 1) key sz (Some ?l)))"
      using Suc.IH [of "Some ?l" "n + 1"] Suc.prems by simp_all
    have eq: "concat (stream_loop (Suc fuel) dbs n key sz after) = ?ids @ concat (stream_loop fuel dbs (n + 1) key sz (Some ?l))"
      using False ne by (simp add: Let_def)
    have le: "x \<le> ?l" if "x \<in> set ?ids" for x
    proof -
      have split: "butlast ?ids @ [?l] = ?ids" using ne by simp
      then have "sorted (butlast ?ids @ [?l])" "x \<in> set (butlast ?ids @ [?l])" using page(1) that by simp_all
      then show ?thesis by (auto simp: sorted_append)
    qed
    have gt: "?l < y" if "y \<in> beyond (Some ?l) U" for y using that by (simp add: beyond_def)
    have "sorted (?ids @ concat (stream_loop fuel dbs (n + 1) key sz (Some ?l)))"
      unfolding sorted_append using page(1) IH(1,3) le gt by (meson less_imp_le order_trans subsetD)
    moreover have "distinct (?ids @ concat (stream_loop fuel dbs (n + 1) key sz (Some ?l)))"
      using page(2) IH(2,3) le gt by (simp only: distinct_append) (meson disjoint_iff leD subsetD)
    moreover have "set (?ids @ concat (stream_loop fuel dbs (n + 1) key sz (Some ?l))) \<subseteq> beyond after U"
      using sub IH(3) less by auto
    moreover have "i \<in> set (?ids @ concat (stream_loop fuel dbs (n + 1) key sz (Some ?l)))"
      if i: "i \<in> beyond after UNIV" "\<forall>m. i \<in> ids_of key (dbs m)" for i
    proof (cases "?l < i")
      case True
      then show ?thesis using IH(4) i(2) by (simp add: beyond_def)
    next
      case False
      then show ?thesis using page(5) [of i] i ne by (simp add: beyond_def)
    qed
    ultimately show ?thesis unfolding eq by blast
  qed
qed simp


definition item_at :: "string \<Rightarrow> (pkey \<times> string) \<times> item_cols" where
  "item_at i = ((sample_key, i), \<lparr>ic_version = None, ic_hash = ''h'', ic_schema_version = 1, ic_payload = None, ic_seen_at = 0\<rparr>)"

text \<open>While the pages are read, \<^verbatim>\<open>a\<close> is deleted and \<^verbatim>\<open>c\<close> is inserted; \<^verbatim>\<open>b\<close> is there all along.\<close>

definition changing_db :: "nat \<Rightarrow> sql_db" where
  "changing_db n = empty_db\<lparr>t_items := (if n = 0 then [item_at ''b'', item_at ''a''] else [item_at ''b'', item_at ''c''])\<rparr>"


end
