(* ===== verification/Redis_Keys.thy ===== *)
theory Redis_Keys
  imports Types
begin

text \<open>
  The names of the Redis keys (\<^verbatim>\<open>RedisStore.keys\<close>, \<^verbatim>\<open>RedisBudgetStore.bucketKey\<close>): \<^verbatim>\<open>encodeURIComponent\<close> and the
  fact that the structures of different pollers and partitions never share a name.
\<close>

section \<open>\<^verbatim>\<open>encodeURIComponent\<close>\<close>

definition unreserved :: "char \<Rightarrow> bool" where
  "unreserved c \<longleftrightarrow> (CHR ''A'' \<le> c \<and> c \<le> CHR ''Z'') \<or> (CHR ''a'' \<le> c \<and> c \<le> CHR ''z'') \<or> is_digit c \<or> c \<in> set ''-_.!~*()'' \<or> c = CHR 0x27"

definition upper_hex :: "nat \<Rightarrow> char" where
  "upper_hex n = (if n < 10 then digit_char n else char_of (n + 55))"

definition percent :: "nat \<Rightarrow> string" where
  "percent n = [CHR ''%'', upper_hex (n div 16), upper_hex (n mod 16)]"

text \<open>A code unit from 128 to 255 takes two bytes in UTF-8.\<close>

definition encode_char :: "char \<Rightarrow> string" where
  "encode_char c =
     (let n = of_char c in
      if unreserved c then [c]
      else if n < (128 :: nat) then percent n
      else percent (192 + n div 64) @ percent (128 + n mod 64))"

definition encodeURIComponent :: "string \<Rightarrow> string" where
  "encodeURIComponent s = concat (map encode_char s)"

lemma upper_hex_inj: "\<lbrakk> m < 16; n < 16; upper_hex m = upper_hex n \<rbrakk> \<Longrightarrow> m = n"
proof -
  have "list_all (\<lambda>m. list_all (\<lambda>n. upper_hex m = upper_hex n \<longrightarrow> m = n) [0..<16]) [0..<16]" by code_simp
  then show "\<lbrakk> m < 16; n < 16; upper_hex m = upper_hex n \<rbrakk> \<Longrightarrow> m = n" by (simp add: list_all_iff)
qed

lemma upper_hex_plain: "n < 16 \<Longrightarrow> upper_hex n \<noteq> CHR '':''"
proof -
  have "list_all (\<lambda>n. upper_hex n \<noteq> CHR '':'') [0..<16]" by code_simp
  then show "n < 16 \<Longrightarrow> upper_hex n \<noteq> CHR '':''" by (simp add: list_all_iff)
qed

lemma percent_inj: "\<lbrakk> m < 256; n < 256; percent m @ s = percent n @ t \<rbrakk> \<Longrightarrow> m = n \<and> s = t"
proof -
  assume a: "m < 256" "n < 256" "percent m @ s = percent n @ t"
  then have "m div 16 = n div 16" "m mod 16 = n mod 16" by (auto simp: percent_def intro: upper_hex_inj)
  then have "m = n" by (metis div_mult_mod_eq)
  with a(3) show ?thesis by (simp add: percent_def)
qed

lemma char_range: "(of_char c :: nat) < 256"
  using of_char_mod_256 [of c, where ?'a = nat] by (metis mod_less_divisor zero_less_numeral)

lemma not_unreserved: "\<not> unreserved (CHR ''%'')" "\<not> unreserved (CHR '':'')"
  by (simp_all add: unreserved_def is_digit_def less_eq_char_def)

lemma encode_char_inj:
  assumes "encode_char c @ s = encode_char d @ t"
  shows "c = d \<and> s = t"
proof -
  let ?m = "of_char c :: nat" and ?n = "of_char d :: nat"
  have r: "?m < 256" "?n < 256" by (rule char_range)+
  have lead: "192 + k div 64 < 256" "128 + k mod 64 < 256" if "k < (256 :: nat)" for k using that by auto
  have first: "percent k \<noteq> [] \<and> hd (percent k) = CHR ''%''" for k by (simp add: percent_def)
  consider "unreserved c" "unreserved d" | "unreserved c" "\<not> unreserved d" | "\<not> unreserved c" "unreserved d"
    | "\<not> unreserved c" "\<not> unreserved d" "?m < 128" "?n < 128" | "\<not> unreserved c" "\<not> unreserved d" "?m < 128" "\<not> ?n < 128"
    | "\<not> unreserved c" "\<not> unreserved d" "\<not> ?m < 128" "?n < 128" | "\<not> unreserved c" "\<not> unreserved d" "\<not> ?m < 128" "\<not> ?n < 128" by blast
  then show ?thesis
  proof cases
    case 1
    then show ?thesis using assms by (simp add: encode_char_def)
  next
    case 2
    then have "c = CHR ''%''" using assms first by (auto simp: encode_char_def Let_def percent_def split: if_splits)
    then show ?thesis using 2(1) not_unreserved by simp
  next
    case 3
    then have "d = CHR ''%''" using assms first by (auto simp: encode_char_def Let_def percent_def split: if_splits)
    then show ?thesis using 3(2) not_unreserved by simp
  next
    case 4
    then have "percent ?m @ s = percent ?n @ t" using assms by (simp add: encode_char_def Let_def)
    from percent_inj [OF r this] show ?thesis by simp
  next
    case 5
    then have "percent ?m @ s = percent (192 + ?n div 64) @ percent (128 + ?n mod 64) @ t" using assms by (simp add: encode_char_def Let_def)
    from percent_inj [OF r(1) lead(1) [OF r(2)] this] 5(3) show ?thesis by simp
  next
    case 6
    then have "percent (192 + ?m div 64) @ percent (128 + ?m mod 64) @ s = percent ?n @ t" using assms by (simp add: encode_char_def Let_def)
    from percent_inj [OF lead(1) [OF r(1)] r(2) this] 6(4) show ?thesis by simp
  next
    case 7
    then have "percent (192 + ?m div 64) @ percent (128 + ?m mod 64) @ s = percent (192 + ?n div 64) @ percent (128 + ?n mod 64) @ t"
      using assms by (simp add: encode_char_def Let_def)
    from percent_inj [OF lead(1) [OF r(1)] lead(1) [OF r(2)] this]
    have 1: "?m div 64 = ?n div 64" "percent (128 + ?m mod 64) @ s = percent (128 + ?n mod 64) @ t" by simp_all
    from percent_inj [OF lead(2) [OF r(1)] lead(2) [OF r(2)] 1(2)] have "?m mod 64 = ?n mod 64" "s = t" by simp_all
    with 1(1) have "?m = ?n" by (metis div_mult_mod_eq)
    with \<open>s = t\<close> show ?thesis by simp
  qed
qed

lemma encode_char_nonempty: "encode_char c \<noteq> []"
  by (simp add: encode_char_def Let_def percent_def)

lemma encodeURIComponent_inj: "encodeURIComponent s = encodeURIComponent t \<longleftrightarrow> s = t"
proof
  show "encodeURIComponent s = encodeURIComponent t \<Longrightarrow> s = t"
  proof (induction s arbitrary: t)
    case Nil
    then show ?case by (cases t) (simp_all add: encodeURIComponent_def encode_char_nonempty)
  next
    case (Cons c s)
    then obtain d t' where t: "t = d # t'" by (cases t) (auto simp: encodeURIComponent_def encode_char_nonempty)
    have "encode_char c @ encodeURIComponent s = encode_char d @ encodeURIComponent t'"
      using Cons.prems t by (simp add: encodeURIComponent_def)
    from encode_char_inj [OF this] Cons.IH [of t'] show ?case by (simp add: t)
  qed
qed simp

lemma encode_no_colon: "CHR '':'' \<notin> set (encodeURIComponent s)"
proof -
  have "CHR '':'' \<notin> set (percent n)" if "n < 256" for n
  proof -
    have "n div 16 < 16" "n mod 16 < 16" using that by auto
    then have "upper_hex (n div 16) \<noteq> CHR '':''" "upper_hex (n mod 16) \<noteq> CHR '':''" by (simp_all add: upper_hex_plain)
    then show ?thesis by (auto simp: percent_def)
  qed
  moreover have "(of_char c :: nat) < 256" for c by (rule char_range)
  moreover have "192 + n div 64 < 256" "128 + n mod 64 < 256" if "n < (256 :: nat)" for n using that by auto
  ultimately have "CHR '':'' \<notin> set (encode_char c)" for c
    using not_unreserved(2) by (auto simp: encode_char_def Let_def)
  then show ?thesis by (auto simp: encodeURIComponent_def)
qed

section \<open>Key names\<close>

datatype redis_part = SMeta | SState | SItems | SOutbox | SRows | SAttempts | SErrors | SParked | SHold | SValidators | SLog

fun part_suffix :: "redis_part \<Rightarrow> string" where
  "part_suffix SMeta = '':meta''"
| "part_suffix SState = '':state''"
| "part_suffix SItems = '':items''"
| "part_suffix SOutbox = '':outbox''"
| "part_suffix SRows = '':outbox:rows''"
| "part_suffix SAttempts = '':outbox:attempts''"
| "part_suffix SErrors = '':outbox:errors''"
| "part_suffix SParked = '':parked''"
| "part_suffix SHold = '':parked:hold''"
| "part_suffix SValidators = '':validators''"
| "part_suffix SLog = '':log''"

definition redis_key :: "string \<Rightarrow> pkey \<Rightarrow> redis_part \<Rightarrow> string" where
  "redis_key pfx key s =
     pfx @ ''p:'' @ encodeURIComponent (k_poller key) @ '':'' @ encodeURIComponent (k_partition key) @ part_suffix s"

definition keysSet :: "string \<Rightarrow> string" where
  "keysSet pfx = pfx @ ''keys''"

definition bucketKey :: "string \<Rightarrow> string \<Rightarrow> string" where
  "bucketKey pfx name = pfx @ ''budget:'' @ encodeURIComponent name"

lemma colon_split: "\<lbrakk> CHR '':'' \<notin> set a; CHR '':'' \<notin> set b; a @ CHR '':'' # s = b @ CHR '':'' # t \<rbrakk> \<Longrightarrow> a = b \<and> s = t"
proof (induction a arbitrary: b)
  case Nil
  then show ?case by (cases b) auto
next
  case (Cons c a)
  then show ?case by (cases b) auto
qed

lemma part_suffix_inj: "part_suffix s = part_suffix t \<longleftrightarrow> s = t"
  by (cases s; cases t) simp_all

lemma part_suffix_colon: "\<exists>r. part_suffix s = CHR '':'' # r"
  by (cases s) simp_all

lemma redis_key_inj: "redis_key pfx key s = redis_key pfx key' s' \<longleftrightarrow> key = key' \<and> s = s'"
proof
  assume eq: "redis_key pfx key s = redis_key pfx key' s'"
  from eq have 1: "encodeURIComponent (k_poller key) @ CHR '':'' # encodeURIComponent (k_partition key) @ part_suffix s
      = encodeURIComponent (k_poller key') @ CHR '':'' # encodeURIComponent (k_partition key') @ part_suffix s'"
    by (simp add: redis_key_def)
  note 2 = colon_split [OF encode_no_colon encode_no_colon 1]
  obtain r r' where r: "part_suffix s = CHR '':'' # r" "part_suffix s' = CHR '':'' # r'" using part_suffix_colon by metis
  from 2 have "encodeURIComponent (k_partition key) @ CHR '':'' # r = encodeURIComponent (k_partition key') @ CHR '':'' # r'"
    by (simp add: r)
  from colon_split [OF encode_no_colon encode_no_colon this] 2 show "key = key' \<and> s = s'"
    by (simp add: encodeURIComponent_inj r [symmetric] flip: part_suffix_inj)
qed simp

text \<open>C35: No two structures of the store share a Redis key, whatever the pollers and partitions are called, and none of
  them is the set of all keys or the bucket of a budget.\<close>

theorem redis_keys_are_distinct:
  "(redis_key pfx key s = redis_key pfx key' s' \<longleftrightarrow> key = key' \<and> s = s')
   \<and> redis_key pfx key s \<noteq> keysSet pfx \<and> redis_key pfx key s \<noteq> bucketKey pfx name \<and> keysSet pfx \<noteq> bucketKey pfx name
   \<and> (bucketKey pfx name = bucketKey pfx name' \<longleftrightarrow> name = name')"
  by (auto simp: redis_key_inj) (auto simp: redis_key_def keysSet_def bucketKey_def encodeURIComponent_inj)

end
