(* ===== verification/Redis_Data.thy ===== *)
theory Redis_Data
  imports Store_Memory Redis_Keys
begin

text \<open>
  The data that the Redis store keeps on the server: hashes and sorted sets under the key names of
  \<^verbatim>\<open>Redis_Keys\<close>, the commands on them, and what a key of the port holds in these terms. A structure that
  does not exist is an empty one, as on the server, so a family of structures is a function of the name.
  The text of a number, a status or a library record is the value it stands for; text that carries data
  of the user's is what \<^verbatim>\<open>JSON.parse\<close> returns for it. Fields of a hash are listed in the order in which they
  were first set; a sorted set is ordered by score, then by member.
\<close>

section \<open>Structures\<close>

record meta_hash =
  mh_lease_owner :: "string option"
  mh_lease_epoch :: "nat option"
  mh_lease_expires_at :: "number option"
  mh_epoch_counter :: "nat option"

datatype state_field = FLanes lanes | FSchedule schedule_state | FPaused bool | FSchemaVersion "nat option"
  | FSequence nat | FCreatedAt number | FUpdatedAt number

record state_hash =
  sh_lanes :: "lanes option"
  sh_schedule :: "schedule_state option"
  sh_paused :: "bool option"
  sh_schemaVersion :: "nat option option"
  sh_sequence :: "nat option"
  sh_createdAt :: "number option"
  sh_updatedAt :: "number option"

record attempt_info =
  ai_lastError :: "serialized_error option"
  ai_nextAttemptAt :: "number option"

record redis =
  r_meta :: "string \<Rightarrow> meta_hash"
  r_state :: "string \<Rightarrow> state_hash"
  r_items :: "string \<Rightarrow> (string, item_row) jsmap"
  r_outbox :: "string \<Rightarrow> (string, nat) jsmap"
  r_rows :: "string \<Rightarrow> (string, outbox_row) jsmap"
  r_attempts :: "string \<Rightarrow> (string, nat) jsmap"
  r_errors :: "string \<Rightarrow> (string, attempt_info) jsmap"
  r_parked :: "string \<Rightarrow> (string, parked_row) jsmap"
  r_hold :: "string \<Rightarrow> (string, string) jsmap"
  r_validators :: "string \<Rightarrow> (string, validator) jsmap"
  r_log :: "string \<Rightarrow> (logged_event, nat) jsmap"
  r_sets :: "string \<Rightarrow> string list"

definition no_meta :: meta_hash where
  "no_meta = \<lparr>mh_lease_owner = None, mh_lease_epoch = None, mh_lease_expires_at = None, mh_epoch_counter = None\<rparr>"

definition no_state :: state_hash where
  "no_state = \<lparr>sh_lanes = None, sh_schedule = None, sh_paused = None, sh_schemaVersion = None, sh_sequence = None,
     sh_createdAt = None, sh_updatedAt = None\<rparr>"

definition empty_redis :: redis where
  "empty_redis = \<lparr>r_meta = (\<lambda>_. no_meta), r_state = (\<lambda>_. no_state), r_items = (\<lambda>_. []), r_outbox = (\<lambda>_. []),
     r_rows = (\<lambda>_. []), r_attempts = (\<lambda>_. []), r_errors = (\<lambda>_. []), r_parked = (\<lambda>_. []), r_hold = (\<lambda>_. []),
     r_validators = (\<lambda>_. []), r_log = (\<lambda>_. []), r_sets = (\<lambda>_. [])\<rparr>"

section \<open>Commands\<close>

text \<open>A command on a structure returns its reply and the structure afterwards. \<^verbatim>\<open>ZADD\<close> and \<^verbatim>\<open>HSET\<close> do the same
  to a list of pairs, as do \<^verbatim>\<open>ZREM\<close> and \<^verbatim>\<open>HDEL\<close>, which reply how many entries they removed.\<close>

definition hset :: "'k \<Rightarrow> 'v \<Rightarrow> ('k, 'v) jsmap \<Rightarrow> unit \<times> ('k, 'v) jsmap" where
  "hset k v h = ((), AList.update k v h)"

definition hdel :: "'k \<Rightarrow> ('k, 'v) jsmap \<Rightarrow> nat \<times> ('k, 'v) jsmap" where
  "hdel k h = (if map_of h k = None then 0 else 1, AList.delete k h)"

definition hincrby :: "'k \<Rightarrow> nat \<Rightarrow> ('k, nat) jsmap \<Rightarrow> unit \<times> ('k, nat) jsmap" where
  "hincrby k n h = ((), AList.update k (opt_or (map_of h k) 0 + n) h)"

definition remove_structure :: "'v \<Rightarrow> 'v \<Rightarrow> unit \<times> 'v" where
  "remove_structure gone h = ((), gone)"

definition hset_field :: "state_field \<Rightarrow> state_hash \<Rightarrow> state_hash" where
  "hset_field f h =
     (case f of
        FLanes x \<Rightarrow> h\<lparr>sh_lanes := Some x\<rparr>
      | FSchedule x \<Rightarrow> h\<lparr>sh_schedule := Some x\<rparr>
      | FPaused x \<Rightarrow> h\<lparr>sh_paused := Some x\<rparr>
      | FSchemaVersion x \<Rightarrow> h\<lparr>sh_schemaVersion := Some x\<rparr>
      | FSequence x \<Rightarrow> h\<lparr>sh_sequence := Some x\<rparr>
      | FCreatedAt x \<Rightarrow> h\<lparr>sh_createdAt := Some x\<rparr>
      | FUpdatedAt x \<Rightarrow> h\<lparr>sh_updatedAt := Some x\<rparr>)"

type_synonym 'a redis_op = "(redis, thrown, 'a) io"

definition at_meta :: "string \<Rightarrow> (meta_hash \<Rightarrow> 'a \<times> meta_hash) \<Rightarrow> 'a redis_op" where
  "at_meta name f = (\<lambda>r. case f (r_meta r name) of (x, h) \<Rightarrow> (Inr x, r\<lparr>r_meta := (r_meta r)(name := h)\<rparr>))"

definition at_state :: "string \<Rightarrow> (state_hash \<Rightarrow> 'a \<times> state_hash) \<Rightarrow> 'a redis_op" where
  "at_state name f = (\<lambda>r. case f (r_state r name) of (x, h) \<Rightarrow> (Inr x, r\<lparr>r_state := (r_state r)(name := h)\<rparr>))"

definition at_items :: "string \<Rightarrow> ((string, item_row) jsmap \<Rightarrow> 'a \<times> (string, item_row) jsmap) \<Rightarrow> 'a redis_op" where
  "at_items name f = (\<lambda>r. case f (r_items r name) of (x, h) \<Rightarrow> (Inr x, r\<lparr>r_items := (r_items r)(name := h)\<rparr>))"

definition at_outbox :: "string \<Rightarrow> ((string, nat) jsmap \<Rightarrow> 'a \<times> (string, nat) jsmap) \<Rightarrow> 'a redis_op" where
  "at_outbox name f = (\<lambda>r. case f (r_outbox r name) of (x, h) \<Rightarrow> (Inr x, r\<lparr>r_outbox := (r_outbox r)(name := h)\<rparr>))"

definition at_rows :: "string \<Rightarrow> ((string, outbox_row) jsmap \<Rightarrow> 'a \<times> (string, outbox_row) jsmap) \<Rightarrow> 'a redis_op" where
  "at_rows name f = (\<lambda>r. case f (r_rows r name) of (x, h) \<Rightarrow> (Inr x, r\<lparr>r_rows := (r_rows r)(name := h)\<rparr>))"

definition at_attempts :: "string \<Rightarrow> ((string, nat) jsmap \<Rightarrow> 'a \<times> (string, nat) jsmap) \<Rightarrow> 'a redis_op" where
  "at_attempts name f = (\<lambda>r. case f (r_attempts r name) of (x, h) \<Rightarrow> (Inr x, r\<lparr>r_attempts := (r_attempts r)(name := h)\<rparr>))"

definition at_errors :: "string \<Rightarrow> ((string, attempt_info) jsmap \<Rightarrow> 'a \<times> (string, attempt_info) jsmap) \<Rightarrow> 'a redis_op" where
  "at_errors name f = (\<lambda>r. case f (r_errors r name) of (x, h) \<Rightarrow> (Inr x, r\<lparr>r_errors := (r_errors r)(name := h)\<rparr>))"

definition at_parked :: "string \<Rightarrow> ((string, parked_row) jsmap \<Rightarrow> 'a \<times> (string, parked_row) jsmap) \<Rightarrow> 'a redis_op" where
  "at_parked name f = (\<lambda>r. case f (r_parked r name) of (x, h) \<Rightarrow> (Inr x, r\<lparr>r_parked := (r_parked r)(name := h)\<rparr>))"

definition at_hold :: "string \<Rightarrow> ((string, string) jsmap \<Rightarrow> 'a \<times> (string, string) jsmap) \<Rightarrow> 'a redis_op" where
  "at_hold name f = (\<lambda>r. case f (r_hold r name) of (x, h) \<Rightarrow> (Inr x, r\<lparr>r_hold := (r_hold r)(name := h)\<rparr>))"

definition at_validators :: "string \<Rightarrow> ((string, validator) jsmap \<Rightarrow> 'a \<times> (string, validator) jsmap) \<Rightarrow> 'a redis_op" where
  "at_validators name f = (\<lambda>r. case f (r_validators r name) of (x, h) \<Rightarrow> (Inr x, r\<lparr>r_validators := (r_validators r)(name := h)\<rparr>))"

definition at_log :: "string \<Rightarrow> ((logged_event, nat) jsmap \<Rightarrow> 'a \<times> (logged_event, nat) jsmap) \<Rightarrow> 'a redis_op" where
  "at_log name f = (\<lambda>r. case f (r_log r name) of (x, h) \<Rightarrow> (Inr x, r\<lparr>r_log := (r_log r)(name := h)\<rparr>))"

definition sadd :: "string \<Rightarrow> string \<Rightarrow> unit redis_op" where
  "sadd name m = modifyE (\<lambda>r. r\<lparr>r_sets := (r_sets r)(name := List.insert m (r_sets r name))\<rparr>)"

definition srem :: "string \<Rightarrow> string \<Rightarrow> unit redis_op" where
  "srem name m = modifyE (\<lambda>r. r\<lparr>r_sets := (r_sets r)(name := removeAll m (r_sets r name))\<rparr>)"

text \<open>The members of a sorted set in its order. Of two log entries with one score, which the store never writes,
  the one added first comes first.\<close>

definition ids_in_order :: "(string \<times> nat) list \<Rightarrow> (string \<times> nat) list" where
  "ids_in_order z = js_sort_by snd (js_sort_by fst z)"

definition entries_in_order :: "(logged_event \<times> nat) list \<Rightarrow> (logged_event \<times> nat) list" where
  "entries_in_order z = js_sort_by snd z"

text \<open>\<^verbatim>\<open>ZRANGEBYSCORE key min +inf LIMIT offset count\<close>, for an exclusive \<^verbatim>\<open>min\<close> or \<^verbatim>\<open>-inf\<close>, on the members in order.\<close>

definition zrange :: "nat option \<Rightarrow> nat \<Rightarrow> nat \<Rightarrow> ('m \<times> nat) list \<Rightarrow> 'm list" where
  "zrange min_score offset n z =
     map fst (take n (drop offset (filter (\<lambda>(m, s). case min_score of None \<Rightarrow> True | Some a \<Rightarrow> a < s) z)))"

section \<open>The data of one key\<close>

record key_data =
  kd_meta :: meta_hash
  kd_state :: state_hash
  kd_items :: "(string, item_row) jsmap"
  kd_outbox :: "(string, nat) jsmap"
  kd_rows :: "(string, outbox_row) jsmap"
  kd_attempts :: "(string, nat) jsmap"
  kd_errors :: "(string, attempt_info) jsmap"
  kd_parked :: "(string, parked_row) jsmap"
  kd_hold :: "(string, string) jsmap"
  kd_validators :: "(string, validator) jsmap"
  kd_log :: "(logged_event, nat) jsmap"

definition data_of :: "string \<Rightarrow> redis \<Rightarrow> pkey \<Rightarrow> key_data" where
  "data_of pfx r key = \<lparr>kd_meta = r_meta r (redis_key pfx key SMeta), kd_state = r_state r (redis_key pfx key SState),
     kd_items = r_items r (redis_key pfx key SItems), kd_outbox = r_outbox r (redis_key pfx key SOutbox),
     kd_rows = r_rows r (redis_key pfx key SRows), kd_attempts = r_attempts r (redis_key pfx key SAttempts),
     kd_errors = r_errors r (redis_key pfx key SErrors), kd_parked = r_parked r (redis_key pfx key SParked),
     kd_hold = r_hold r (redis_key pfx key SHold), kd_validators = r_validators r (redis_key pfx key SValidators),
     kd_log = r_log r (redis_key pfx key SLog)\<rparr>"

definition no_data :: key_data where
  "no_data = \<lparr>kd_meta = no_meta, kd_state = no_state, kd_items = [], kd_outbox = [], kd_rows = [], kd_attempts = [],
     kd_errors = [], kd_parked = [], kd_hold = [], kd_validators = [], kd_log = []\<rparr>"

lemma data_of_empty: "data_of pfx empty_redis key = no_data"
  by (simp add: data_of_def empty_redis_def no_data_def)

text \<open>A command on a structure of a key changes that structure of that key and nothing of another key: the names differ.\<close>

abbreviation data_acts :: "string \<Rightarrow> pkey \<Rightarrow> 'a redis_op \<Rightarrow> (key_data \<Rightarrow> 'a) \<Rightarrow> (key_data \<Rightarrow> key_data) \<Rightarrow> bool" where
  "data_acts pfx \<equiv> acts (\<lambda>_. True) (data_of pfx)"

lemma acts_at:
  "data_acts pfx key (at_meta (redis_key pfx key SMeta) f1) (\<lambda>d. fst (f1 (kd_meta d))) (\<lambda>d. d\<lparr>kd_meta := snd (f1 (kd_meta d))\<rparr>)"
  "data_acts pfx key (at_state (redis_key pfx key SState) f2) (\<lambda>d. fst (f2 (kd_state d))) (\<lambda>d. d\<lparr>kd_state := snd (f2 (kd_state d))\<rparr>)"
  "data_acts pfx key (at_items (redis_key pfx key SItems) f3) (\<lambda>d. fst (f3 (kd_items d))) (\<lambda>d. d\<lparr>kd_items := snd (f3 (kd_items d))\<rparr>)"
  "data_acts pfx key (at_outbox (redis_key pfx key SOutbox) f4) (\<lambda>d. fst (f4 (kd_outbox d))) (\<lambda>d. d\<lparr>kd_outbox := snd (f4 (kd_outbox d))\<rparr>)"
  "data_acts pfx key (at_rows (redis_key pfx key SRows) f5) (\<lambda>d. fst (f5 (kd_rows d))) (\<lambda>d. d\<lparr>kd_rows := snd (f5 (kd_rows d))\<rparr>)"
  "data_acts pfx key (at_attempts (redis_key pfx key SAttempts) f6) (\<lambda>d. fst (f6 (kd_attempts d))) (\<lambda>d. d\<lparr>kd_attempts := snd (f6 (kd_attempts d))\<rparr>)"
  "data_acts pfx key (at_errors (redis_key pfx key SErrors) f7) (\<lambda>d. fst (f7 (kd_errors d))) (\<lambda>d. d\<lparr>kd_errors := snd (f7 (kd_errors d))\<rparr>)"
  "data_acts pfx key (at_parked (redis_key pfx key SParked) f8) (\<lambda>d. fst (f8 (kd_parked d))) (\<lambda>d. d\<lparr>kd_parked := snd (f8 (kd_parked d))\<rparr>)"
  "data_acts pfx key (at_hold (redis_key pfx key SHold) f9) (\<lambda>d. fst (f9 (kd_hold d))) (\<lambda>d. d\<lparr>kd_hold := snd (f9 (kd_hold d))\<rparr>)"
  "data_acts pfx key (at_validators (redis_key pfx key SValidators) f10) (\<lambda>d. fst (f10 (kd_validators d))) (\<lambda>d. d\<lparr>kd_validators := snd (f10 (kd_validators d))\<rparr>)"
  "data_acts pfx key (at_log (redis_key pfx key SLog) f11) (\<lambda>d. fst (f11 (kd_log d))) (\<lambda>d. d\<lparr>kd_log := snd (f11 (kd_log d))\<rparr>)"
  by (simp_all add: acts_def data_of_def fun_eq_iff redis_key_inj split_beta at_meta_def at_state_def at_items_def at_outbox_def
      at_rows_def at_attempts_def at_errors_def at_parked_def at_hold_def at_validators_def at_log_def)

lemma acts_sets: "data_acts pfx key (sadd name m) (\<lambda>_. ()) (\<lambda>d. d)" "data_acts pfx key (srem name m) (\<lambda>_. ()) (\<lambda>d. d)"
  by (simp_all add: acts_def data_of_def fun_eq_iff sadd_def srem_def modifyE_def)

lemma acts_look:
  "(\<And>r. h r = f (data_of pfx r key)) \<Longrightarrow> data_acts pfx key (getsE h) f (\<lambda>d. d)"
  by (rule acts_gets)

end
