(* ===== verification/Redis_Store.thy ===== *)
theory Redis_Store
  imports Redis_Data
begin

text \<open>
  \<^verbatim>\<open>src/stores/redis/scripts.ts\<close> and \<^verbatim>\<open>redis-store.ts\<close>: the Lua scripts, each a function of the names in
  \<^verbatim>\<open>KEYS\<close> and of the list \<^verbatim>\<open>ARGV\<close>, which it reads from the front, and every method of \<^verbatim>\<open>RedisStore\<close>, which
  builds \<^verbatim>\<open>ARGV\<close>, and the proof that the store keeps the contract of the port. A script runs alone on the
  server; the methods that take several commands are sequences of them. A connection that fails belongs to the
  host. Epochs and sequence numbers stay below 10^14, where Lua prints an integer with all its digits.
\<close>

section \<open>Scripts\<close>

datatype arg = GStr string | GNum nat | GTime number | GField state_field | GItem item_row | GStatus outbox_status
  | GRow outbox_row | GLogged logged_event | GParked parked_row | GInfo attempt_info | GValidator validator

datatype redis_reply = BulkReply string | IntReply nat | NilReply

definition LEASE_LOST_reply :: redis_reply where
  "LEASE_LOST_reply = BulkReply ''LEASE_LOST''"

definition OK_reply :: redis_reply where
  "OK_reply = BulkReply ''OK''"

text \<open>What \<^verbatim>\<open>EVAL\<close> rejects with when a script is given arguments it cannot read; a method never does that.\<close>

definition script_error :: thrown where
  "script_error = watukuyError STORE ''redis EVAL failed''"

fun fenced_by :: "arg list \<Rightarrow> meta_hash \<Rightarrow> bool" where
  "fenced_by (GStr owner # GNum epoch # _) h = (mh_lease_owner h = Some owner \<and> mh_lease_epoch h = Some epoch)"
| "fenced_by _ h = False"

text \<open>\<^verbatim>\<open>if not fenced() then return 'LEASE_LOST' end\<close>, with the arguments that follow the owner and the epoch.\<close>

definition when_fenced :: "string \<Rightarrow> (arg list \<Rightarrow> unit redis_op) \<Rightarrow> arg list \<Rightarrow> redis_reply redis_op" where
  "when_fenced meta body argv =
     bindE (getsE (\<lambda>r. fenced_by argv (r_meta r meta))) (\<lambda>ok.
     if \<not> ok then retE LEASE_LOST_reply else bindE (body (drop 2 argv)) (\<lambda>_. retE OK_reply))"

text \<open>\<^verbatim>\<open>for _ = 1, n do ... end\<close>: a turn reads its arguments from the front and leaves the others.\<close>

fun loop_n :: "nat \<Rightarrow> (arg list \<Rightarrow> arg list redis_op) \<Rightarrow> arg list \<Rightarrow> arg list redis_op" where
  "loop_n 0 turn argv = retE argv"
| "loop_n (Suc n) turn argv = bindE (turn argv) (loop_n n turn)"

definition counted :: "(arg list \<Rightarrow> arg list redis_op) \<Rightarrow> arg list \<Rightarrow> arg list redis_op" where
  "counted turn argv = (case argv of GNum n # rest \<Rightarrow> loop_n n turn rest | _ \<Rightarrow> throwE script_error)"

definition zero_hash :: "number \<Rightarrow> state_hash" where
  "zero_hash now0 = \<lparr>sh_lanes = Some (\<lambda>_. None), sh_schedule = Some (st_schedule (emptyPollerState 0)), sh_paused = Some False,
     sh_schemaVersion = Some None, sh_sequence = Some 0, sh_createdAt = Some now0, sh_updatedAt = Some now0\<rparr>"

text \<open>A field name and its JSON text are one argument.\<close>

definition field_turn :: "string \<Rightarrow> arg list \<Rightarrow> arg list redis_op" where
  "field_turn skey argv =
     (case argv of
        GField f # rest \<Rightarrow>
          (case f of
             FCreatedAt _ \<Rightarrow> retE rest
           | _ \<Rightarrow> bindE (at_state skey (\<lambda>h. ((), hset_field f h))) (\<lambda>_. retE rest))
      | _ \<Rightarrow> throwE script_error)"

definition apply_state :: "string \<Rightarrow> arg list \<Rightarrow> arg list redis_op" where
  "apply_state skey argv =
     (case argv of
        GTime now0 # rest \<Rightarrow>
          bindE (at_state skey (\<lambda>h. ((), if h = no_state then zero_hash now0 else h))) (\<lambda>_. counted (field_turn skey) rest)
      | _ \<Rightarrow> throwE script_error)"

definition drop_outbox :: "string \<Rightarrow> string \<Rightarrow> string \<Rightarrow> string \<Rightarrow> string \<Rightarrow> unit redis_op" where
  "drop_outbox zset rows att err i =
     bindE (at_outbox zset (hdel i)) (\<lambda>_.
     bindE (at_rows rows (hdel i)) (\<lambda>_.
     bindE (at_attempts att (hdel i)) (\<lambda>_.
     bindE (at_errors err (hdel i)) (\<lambda>_. retE ()))))"

definition ACQUIRE_LEASE :: "string \<Rightarrow> string \<Rightarrow> arg list \<Rightarrow> redis_reply redis_op" where
  "ACQUIRE_LEASE meta keys_set argv =
     (case argv of
        [GStr owner, GTime now, GTime expiresAt, GStr mbr] \<Rightarrow>
          bindE (getsE (\<lambda>r. r_meta r meta)) (\<lambda>h.
          if mh_lease_owner h \<noteq> None \<and> mh_lease_owner h \<noteq> Some owner
             \<and> (case mh_lease_expires_at h of None \<Rightarrow> False | Some t \<Rightarrow> t > now)
          then retE NilReply
          else
            let epoch = opt_or (mh_epoch_counter h) 0 + 1 in
            bindE (at_meta meta (\<lambda>h. ((), h\<lparr>mh_epoch_counter := Some epoch\<rparr>))) (\<lambda>_.
            bindE (at_meta meta (\<lambda>h. ((), h\<lparr>mh_lease_owner := Some owner, mh_lease_epoch := Some epoch,
                                             mh_lease_expires_at := Some expiresAt\<rparr>))) (\<lambda>_.
            bindE (sadd keys_set mbr) (\<lambda>_. retE (IntReply epoch)))))
      | _ \<Rightarrow> throwE script_error)"

definition RENEW_LEASE :: "string \<Rightarrow> arg list \<Rightarrow> redis_reply redis_op" where
  "RENEW_LEASE meta argv =
     (case argv of
        [GStr owner, GNum epoch, GTime expiresAt] \<Rightarrow>
          bindE (getsE (\<lambda>r. fenced_by argv (r_meta r meta))) (\<lambda>ok.
          if \<not> ok then retE (IntReply 0)
          else bindE (at_meta meta (\<lambda>h. ((), h\<lparr>mh_lease_expires_at := Some expiresAt\<rparr>))) (\<lambda>_. retE (IntReply 1)))
      | _ \<Rightarrow> throwE script_error)"

definition RELEASE_LEASE :: "string \<Rightarrow> arg list \<Rightarrow> redis_reply redis_op" where
  "RELEASE_LEASE meta argv =
     bindE (getsE (\<lambda>r. fenced_by argv (r_meta r meta))) (\<lambda>ok.
     bindE (if ok then at_meta meta (\<lambda>h. ((), h\<lparr>mh_lease_owner := None, mh_lease_epoch := None, mh_lease_expires_at := None\<rparr>))
            else retE ()) (\<lambda>_. retE (IntReply 1)))"

definition SAVE_STATE :: "string \<Rightarrow> string \<Rightarrow> string \<Rightarrow> arg list \<Rightarrow> redis_reply redis_op" where
  "SAVE_STATE meta state keys_set =
     when_fenced meta (\<lambda>argv.
       case argv of
         GStr mbr # rest \<Rightarrow> bindE (apply_state state rest) (\<lambda>_. sadd keys_set mbr)
       | _ \<Rightarrow> throwE script_error)"

definition SAVE_STATE_UNFENCED :: "string \<Rightarrow> string \<Rightarrow> arg list \<Rightarrow> redis_reply redis_op" where
  "SAVE_STATE_UNFENCED state keys_set argv =
     (case argv of
        GStr mbr # rest \<Rightarrow>
          bindE (apply_state state rest) (\<lambda>_. bindE (sadd keys_set mbr) (\<lambda>_. retE OK_reply))
      | _ \<Rightarrow> throwE script_error)"

definition upsert_turn :: "string \<Rightarrow> arg list \<Rightarrow> arg list redis_op" where
  "upsert_turn items argv =
     (case argv of
        GStr i # GItem row # rest \<Rightarrow> bindE (at_items items (hset i row)) (\<lambda>_. retE rest)
      | _ \<Rightarrow> throwE script_error)"

definition delete_turn :: "string \<Rightarrow> arg list \<Rightarrow> arg list redis_op" where
  "delete_turn items argv =
     (case argv of
        GStr i # rest \<Rightarrow> bindE (at_items items (hdel i)) (\<lambda>_. retE rest)
      | _ \<Rightarrow> throwE script_error)"

definition event_turn :: "string \<Rightarrow> string \<Rightarrow> string \<Rightarrow> string \<Rightarrow> string \<Rightarrow> arg list \<Rightarrow> arg list redis_op" where
  "event_turn outbox rows attempts errors log_key argv =
     (case argv of
        GStr i # GNum seq # GStatus status # GRow row # logged # rest \<Rightarrow>
          bindE (at_rows rows (hset i row)) (\<lambda>_.
          bindE (at_attempts attempts (hdel i)) (\<lambda>_.
          bindE (at_errors errors (hdel i)) (\<lambda>_.
          bindE (if status = Pending then at_outbox outbox (hset i seq)
                 else bindE (at_outbox outbox (hdel i)) (\<lambda>_. retE ())) (\<lambda>_.
          bindE (case logged of
                   GLogged e \<Rightarrow> at_log log_key (hset e seq)
                 | GStr s \<Rightarrow> if s = '''' then retE () else throwE script_error
                 | _ \<Rightarrow> throwE script_error) (\<lambda>_. retE rest)))))
      | _ \<Rightarrow> throwE script_error)"

definition put_parked :: "string \<Rightarrow> string \<Rightarrow> string \<Rightarrow> parked_row \<Rightarrow> string \<Rightarrow> string \<Rightarrow> unit redis_op" where
  "put_parked parked hold i row hasHold hold_key =
     bindE (at_parked parked (hset i row)) (\<lambda>_.
     if hasHold = ''1'' then at_hold hold (hset i hold_key)
     else bindE (at_hold hold (hdel i)) (\<lambda>_. retE ()))"

definition parked_turn :: "string \<Rightarrow> string \<Rightarrow> arg list \<Rightarrow> arg list redis_op" where
  "parked_turn parked hold argv =
     (case argv of
        GStr i # GParked row # GStr hasHold # GStr hold_key # rest \<Rightarrow>
          bindE (put_parked parked hold i row hasHold hold_key) (\<lambda>_. retE rest)
      | _ \<Rightarrow> throwE script_error)"

definition commit_body :: "(redis_part \<Rightarrow> string) \<Rightarrow> string \<Rightarrow> arg list \<Rightarrow> unit redis_op" where
  "commit_body k keys_set argv =
     (case argv of
        GStr mbr # rest \<Rightarrow>
          bindE (apply_state (k SState) rest) (\<lambda>rest.
          bindE (counted (upsert_turn (k SItems)) rest) (\<lambda>rest.
          bindE (counted (delete_turn (k SItems)) rest) (\<lambda>rest.
          bindE (counted (event_turn (k SOutbox) (k SRows) (k SAttempts) (k SErrors) (k SLog)) rest) (\<lambda>rest.
          bindE (counted (parked_turn (k SParked) (k SHold)) rest) (\<lambda>_.
          sadd keys_set mbr)))))
      | _ \<Rightarrow> throwE script_error)"

definition COMMIT_POLL :: "(redis_part \<Rightarrow> string) \<Rightarrow> string \<Rightarrow> arg list \<Rightarrow> redis_reply redis_op" where
  "COMMIT_POLL k keys_set = when_fenced (k SMeta) (commit_body k keys_set)"

fun ack_loop :: "(redis_part \<Rightarrow> string) \<Rightarrow> arg list \<Rightarrow> unit redis_op" where
  "ack_loop k [] = retE ()"
| "ack_loop k (GStr i # rest) =
     bindE (drop_outbox (k SOutbox) (k SRows) (k SAttempts) (k SErrors) i) (\<lambda>_. ack_loop k rest)"
| "ack_loop k _ = throwE script_error"

definition ACK_EVENTS :: "(redis_part \<Rightarrow> string) \<Rightarrow> arg list \<Rightarrow> redis_reply redis_op" where
  "ACK_EVENTS k = when_fenced (k SMeta) (ack_loop k)"

definition RECORD_ATTEMPT :: "(redis_part \<Rightarrow> string) \<Rightarrow> arg list \<Rightarrow> redis_reply redis_op" where
  "RECORD_ATTEMPT k =
     when_fenced (k SMeta) (\<lambda>argv.
       case argv of
         [GStr i, GInfo info] \<Rightarrow>
           bindE (getsE (\<lambda>r. map_of (r_rows r (k SRows)) i \<noteq> None)) (\<lambda>there.
           if there then bindE (at_attempts (k SAttempts) (hincrby i 1)) (\<lambda>_. at_errors (k SErrors) (hset i info))
           else retE ())
       | _ \<Rightarrow> throwE script_error)"

definition PARK_EVENT :: "(redis_part \<Rightarrow> string) \<Rightarrow> string \<Rightarrow> arg list \<Rightarrow> redis_reply redis_op" where
  "PARK_EVENT k keys_set =
     when_fenced (k SMeta) (\<lambda>argv.
       case argv of
         [GStr mbr, GStr i, GParked row, GStr hasHold, GStr hold_key, GStr hasEvent, GStr eid] \<Rightarrow>
           bindE (put_parked (k SParked) (k SHold) i row hasHold hold_key) (\<lambda>_.
           bindE (if hasEvent = ''1'' then drop_outbox (k SOutbox) (k SRows) (k SAttempts) (k SErrors) eid else retE ()) (\<lambda>_.
           sadd keys_set mbr))
       | _ \<Rightarrow> throwE script_error)"

definition SET_VALIDATOR :: "(redis_part \<Rightarrow> string) \<Rightarrow> string \<Rightarrow> arg list \<Rightarrow> redis_reply redis_op" where
  "SET_VALIDATOR k keys_set =
     when_fenced (k SMeta) (\<lambda>argv.
       case argv of
         [GStr mbr, GStr h, GValidator v] \<Rightarrow>
           bindE (at_validators (k SValidators) (hset h v)) (\<lambda>_. sadd keys_set mbr)
       | _ \<Rightarrow> throwE script_error)"

fun retry_turns :: "(redis_part \<Rightarrow> string) \<Rightarrow> nat \<Rightarrow> nat \<Rightarrow> arg list \<Rightarrow> nat redis_op" where
  "retry_turns k 0 moved argv = retE moved"
| "retry_turns k (Suc n) moved (GStr pid # GStr eid # GNum seq # GRow row # rest) =
     bindE (getsE (\<lambda>r. map_of (r_parked r (k SParked)) pid \<noteq> None)) (\<lambda>there.
     if there then
       bindE (at_rows (k SRows) (hset eid row)) (\<lambda>_.
       bindE (at_attempts (k SAttempts) (hdel eid)) (\<lambda>_.
       bindE (at_errors (k SErrors) (hdel eid)) (\<lambda>_.
       bindE (at_outbox (k SOutbox) (hset eid seq)) (\<lambda>_.
       bindE (at_parked (k SParked) (hdel pid)) (\<lambda>_.
       bindE (at_hold (k SHold) (hdel pid)) (\<lambda>_. retry_turns k n (moved + 1) rest))))))
     else retry_turns k n moved rest)"
| "retry_turns k (Suc n) moved _ = throwE script_error"

definition RETRY_PARKED :: "(redis_part \<Rightarrow> string) \<Rightarrow> arg list \<Rightarrow> redis_reply redis_op" where
  "RETRY_PARKED k argv =
     (case argv of
        GNum n # rest \<Rightarrow> bindE (retry_turns k n 0 rest) (\<lambda>moved. retE (IntReply moved))
      | _ \<Rightarrow> throwE script_error)"

fun discard_turns :: "(redis_part \<Rightarrow> string) \<Rightarrow> nat \<Rightarrow> arg list \<Rightarrow> nat redis_op" where
  "discard_turns k removed [] = retE removed"
| "discard_turns k removed (GStr i # rest) =
     bindE (at_parked (k SParked) (hdel i)) (\<lambda>n.
     bindE (at_hold (k SHold) (hdel i)) (\<lambda>_. discard_turns k (removed + n) rest))"
| "discard_turns k removed _ = throwE script_error"

definition DISCARD_PARKED :: "(redis_part \<Rightarrow> string) \<Rightarrow> arg list \<Rightarrow> redis_reply redis_op" where
  "DISCARD_PARKED k argv = bindE (discard_turns k 0 argv) (\<lambda>removed. retE (IntReply removed))"

section \<open>Arguments\<close>

text \<open>\<^verbatim>\<open>JSON.stringify\<close> of the records that carry data of the user's: what parsing the text returns.\<close>

definition item_text :: "item_row \<Rightarrow> thrown + item_row" where
  "item_text row =
     (case ir_payload row of
        None \<Rightarrow> Inr row
      | Some v \<Rightarrow> map_sum id (\<lambda>d. row\<lparr>ir_payload := (if d = VUndef then None else Some d)\<rparr>) (json_copy v))"

definition row_text :: "outbox_row \<Rightarrow> thrown + outbox_row" where
  "row_text row = map_sum id (\<lambda>ev. row\<lparr>ob_event := ev\<rparr>) (event_text (ob_event row))"

definition logged_text :: "logged_event \<Rightarrow> thrown + logged_event" where
  "logged_text e = map_sum id (\<lambda>ev. e\<lparr>le_event := ev\<rparr>) (event_text (le_event e))"

definition parked_text :: "parked_row \<Rightarrow> thrown + parked_row" where
  "parked_text row =
     (case (case pk_event row of None \<Rightarrow> Inr None | Some ev \<Rightarrow> map_sum id Some (event_text ev)) of
        Inl e \<Rightarrow> Inl e
      | Inr ev \<Rightarrow> map_sum id (\<lambda>item. row\<lparr>pk_event := ev, pk_item := item\<rparr>) (json_copy (pk_item row)))"

fun concat_args :: "('a \<Rightarrow> thrown + arg list) \<Rightarrow> 'a list \<Rightarrow> thrown + arg list" where
  "concat_args f [] = Inr []"
| "concat_args f (x # xs) =
     (case f x of Inl e \<Rightarrow> Inl e | Inr a \<Rightarrow> map_sum id (\<lambda>as. a @ as) (concat_args f xs))"

definition patch_fields :: "state_patch \<Rightarrow> state_field list" where
  "patch_fields p = List.map_filter id [map_option FLanes (sp_lanes p), map_option FSchedule (sp_schedule p),
     map_option FPaused (sp_paused p), map_option FSchemaVersion (sp_schemaVersion p), map_option FSequence (sp_sequence p),
     map_option FUpdatedAt (sp_updatedAt p)]"

definition patchArgs :: "state_patch \<Rightarrow> arg list" where
  "patchArgs p = GTime (opt_or (sp_updatedAt p) 0) # GNum (length (patch_fields p)) # map GField (patch_fields p)"

definition upsert_args :: "item_row \<Rightarrow> thrown + arg list" where
  "upsert_args row = map_sum id (\<lambda>t. [GStr (ir_identity row), GItem t]) (item_text row)"

definition event_args :: "bool \<Rightarrow> outbox_row \<Rightarrow> thrown + arg list" where
  "event_args logs row =
     (case row_text row of
        Inl e \<Rightarrow> Inl e
      | Inr t \<Rightarrow>
          map_sum id (\<lambda>logged. [GStr (ob_eventId row), GNum (ob_sequence row), GStatus (ob_status row), GRow t, logged])
            (if logs then map_sum id GLogged (logged_text (log_entry row)) else Inr (GStr '''')))"

definition hold_args :: "parked_row \<Rightarrow> arg list" where
  "hold_args row = [GStr (if pk_holdKey row = None then ''0'' else ''1''), GStr (opt_or (pk_holdKey row) '''')]"

definition parked_args :: "parked_row \<Rightarrow> thrown + arg list" where
  "parked_args row = map_sum id (\<lambda>t. [GStr (pk_id row), GParked t] @ hold_args row) (parked_text row)"

definition commit_args :: "pkey \<Rightarrow> commit_batch \<Rightarrow> thrown + arg list" where
  "commit_args key b =
     (case concat_args upsert_args (cb_upserts b) of Inl e \<Rightarrow> Inl e | Inr ups \<Rightarrow>
      (case concat_args (event_args (cb_log b)) (cb_events b) of Inl e \<Rightarrow> Inl e | Inr evs \<Rightarrow>
       (case concat_args parked_args (cb_parked b) of Inl e \<Rightarrow> Inl e | Inr pks \<Rightarrow>
          Inr (GStr (key_id key) # patchArgs (cb_statePatch b) @ GNum (length (cb_upserts b)) # ups
               @ GNum (length (cb_deletes b)) # map GStr (cb_deletes b) @ GNum (length (cb_events b)) # evs
               @ GNum (length (cb_parked b)) # pks))))"

section \<open>The methods that write\<close>

text \<open>\<^verbatim>\<open>this.keys(key)\<close> is \<^verbatim>\<open>redis_key pfx key\<close>, and \<^verbatim>\<open>this.member(key)\<close> is \<^verbatim>\<open>key_id key\<close>.\<close>

definition new_redisPrefix :: "string option \<Rightarrow> string" where
  "new_redisPrefix p = opt_or p ''watukuy:''"

definition redis_fenced :: "pkey \<Rightarrow> lease \<Rightarrow> (arg list \<Rightarrow> redis_reply redis_op) \<Rightarrow> arg list \<Rightarrow> redis_reply redis_op" where
  "redis_fenced key l script args =
     bindE (script (GStr (l_owner l) # GNum (l_epoch l) # args)) (\<lambda>reply.
     if reply = LEASE_LOST_reply then throwE (leaseLostError (k_poller key) (k_partition key) (l_epoch l)) else retE reply)"

definition reply_number :: "redis_reply \<Rightarrow> nat" where
  "reply_number reply = (case reply of IntReply n \<Rightarrow> n | _ \<Rightarrow> 0)"

definition redis_acquireLease :: "string \<Rightarrow> pkey \<Rightarrow> string \<Rightarrow> number \<Rightarrow> number \<Rightarrow> lease option redis_op" where
  "redis_acquireLease pfx key owner ttlMs now =
     (let expiresAt = now + ttlMs in
      bindE (ACQUIRE_LEASE (redis_key pfx key SMeta) (keysSet pfx) [GStr owner, GTime now, GTime expiresAt, GStr (key_id key)]) (\<lambda>reply.
      if reply = NilReply then retE None
      else retE (Some \<lparr>l_owner = owner, l_epoch = reply_number reply, l_expiresAt = expiresAt\<rparr>)))"

definition redis_renewLease :: "string \<Rightarrow> pkey \<Rightarrow> lease \<Rightarrow> number \<Rightarrow> number \<Rightarrow> bool redis_op" where
  "redis_renewLease pfx key l ttlMs now =
     bindE (RENEW_LEASE (redis_key pfx key SMeta) [GStr (l_owner l), GNum (l_epoch l), GTime (now + ttlMs)]) (\<lambda>reply.
     retE (reply_number reply = 1))"

definition redis_releaseLease :: "string \<Rightarrow> pkey \<Rightarrow> lease \<Rightarrow> unit redis_op" where
  "redis_releaseLease pfx key l =
     bindE (RELEASE_LEASE (redis_key pfx key SMeta) [GStr (l_owner l), GNum (l_epoch l)]) (\<lambda>_. retE ())"

definition redis_saveState :: "string \<Rightarrow> pkey \<Rightarrow> lease \<Rightarrow> state_patch \<Rightarrow> unit redis_op" where
  "redis_saveState pfx key l patch =
     bindE (redis_fenced key l (SAVE_STATE (redis_key pfx key SMeta) (redis_key pfx key SState) (keysSet pfx))
              (GStr (key_id key) # patchArgs patch)) (\<lambda>_. retE ())"

definition redis_saveStateUnfenced :: "string \<Rightarrow> pkey \<Rightarrow> state_patch \<Rightarrow> unit redis_op" where
  "redis_saveStateUnfenced pfx key patch =
     bindE (SAVE_STATE_UNFENCED (redis_key pfx key SState) (keysSet pfx) (GStr (key_id key) # patchArgs patch)) (\<lambda>_. retE ())"

definition redis_deleteKey :: "string \<Rightarrow> pkey \<Rightarrow> unit redis_op" where
  "redis_deleteKey pfx key =
     (let k = redis_key pfx key in
      bindE (at_meta (k SMeta) (remove_structure no_meta)) (\<lambda>_.
      bindE (at_state (k SState) (remove_structure no_state)) (\<lambda>_.
      bindE (at_items (k SItems) (remove_structure [])) (\<lambda>_.
      bindE (at_outbox (k SOutbox) (remove_structure [])) (\<lambda>_.
      bindE (at_rows (k SRows) (remove_structure [])) (\<lambda>_.
      bindE (at_attempts (k SAttempts) (remove_structure [])) (\<lambda>_.
      bindE (at_errors (k SErrors) (remove_structure [])) (\<lambda>_.
      bindE (at_parked (k SParked) (remove_structure [])) (\<lambda>_.
      bindE (at_hold (k SHold) (remove_structure [])) (\<lambda>_.
      bindE (at_validators (k SValidators) (remove_structure [])) (\<lambda>_.
      bindE (at_log (k SLog) (remove_structure [])) (\<lambda>_.
      srem (keysSet pfx) (key_id key)))))))))))))"

definition redis_clearItems :: "string \<Rightarrow> pkey \<Rightarrow> unit redis_op" where
  "redis_clearItems pfx key = at_items (redis_key pfx key SItems) (remove_structure [])"

definition redis_commitPoll :: "string \<Rightarrow> pkey \<Rightarrow> lease \<Rightarrow> commit_batch \<Rightarrow> unit redis_op" where
  "redis_commitPoll pfx key l b =
     bindE (resultE (commit_args key b)) (\<lambda>args.
     bindE (redis_fenced key l (COMMIT_POLL (redis_key pfx key) (keysSet pfx)) args) (\<lambda>_. retE ()))"

definition redis_ackEvents :: "string \<Rightarrow> pkey \<Rightarrow> lease \<Rightarrow> string list \<Rightarrow> unit redis_op" where
  "redis_ackEvents pfx key l ids =
     bindE (redis_fenced key l (ACK_EVENTS (redis_key pfx key)) (map GStr ids)) (\<lambda>_. retE ())"

definition redis_recordAttempt ::
  "string \<Rightarrow> pkey \<Rightarrow> lease \<Rightarrow> string \<Rightarrow> serialized_error option \<Rightarrow> number option \<Rightarrow> unit redis_op" where
  "redis_recordAttempt pfx key l eid error nextAttemptAt =
     bindE (redis_fenced key l (RECORD_ATTEMPT (redis_key pfx key))
              [GStr eid, GInfo \<lparr>ai_lastError = error, ai_nextAttemptAt = nextAttemptAt\<rparr>]) (\<lambda>_. retE ())"

definition redis_parkEvent :: "string \<Rightarrow> pkey \<Rightarrow> lease \<Rightarrow> parked_row \<Rightarrow> unit redis_op" where
  "redis_parkEvent pfx key l row =
     bindE (resultE (parked_text row)) (\<lambda>t.
     bindE (redis_fenced key l (PARK_EVENT (redis_key pfx key) (keysSet pfx))
              ([GStr (key_id key), GStr (pk_id row), GParked t] @ hold_args row
               @ [GStr (if pk_event row = None then ''0'' else ''1''), GStr (case pk_event row of None \<Rightarrow> '''' | Some ev \<Rightarrow> ev_id ev)]))
       (\<lambda>_. retE ()))"

text \<open>The parked rows are read first; what each becomes in the outbox is sent back with its id.\<close>

fun retry_args :: "(string, parked_row) jsmap \<Rightarrow> string list \<Rightarrow> thrown + (nat \<times> arg list)" where
  "retry_args h [] = Inr (0, [])"
| "retry_args h (i # ids) =
     (case map_of h i of
        None \<Rightarrow> retry_args h ids
      | Some row \<Rightarrow>
          (case (pk_kind row, pk_event row) of
             (Poison, Some ev) \<Rightarrow>
               (case row_text (retried_row ev (pk_parkedAt row)) of
                  Inl e \<Rightarrow> Inl e
                | Inr t \<Rightarrow> map_sum id (\<lambda>(n, args). (n + 1, [GStr i, GStr (ev_id ev), GNum (ev_sequence ev), GRow t] @ args))
                             (retry_args h ids))
           | _ \<Rightarrow> retry_args h ids))"

definition redis_retryParked :: "string \<Rightarrow> pkey \<Rightarrow> string list \<Rightarrow> nat redis_op" where
  "redis_retryParked pfx key ids =
     (if ids = [] then retE 0
      else bindE (getsE (\<lambda>r. r_parked r (redis_key pfx key SParked))) (\<lambda>h.
           bindE (resultE (retry_args h ids)) (\<lambda>(n, args).
           if n = 0 then retE 0
           else bindE (RETRY_PARKED (redis_key pfx key) (GNum n # args)) (\<lambda>reply. retE (reply_number reply)))))"

definition redis_discardParked :: "string \<Rightarrow> pkey \<Rightarrow> string list \<Rightarrow> nat redis_op" where
  "redis_discardParked pfx key ids =
     (if ids = [] then retE 0
      else bindE (DISCARD_PARKED (redis_key pfx key) (map GStr ids)) (\<lambda>reply. retE (reply_number reply)))"

definition redis_setValidator :: "string \<Rightarrow> pkey \<Rightarrow> lease \<Rightarrow> string \<Rightarrow> validator \<Rightarrow> unit redis_op" where
  "redis_setValidator pfx key l urlHash v =
     bindE (redis_fenced key l (SET_VALIDATOR (redis_key pfx key) (keysSet pfx)) [GStr (key_id key), GStr urlHash, GValidator v])
       (\<lambda>_. retE ())"

definition LOG_PAGE :: nat where
  "LOG_PAGE = 500"

definition ZREM_BATCH :: nat where
  "ZREM_BATCH = 1000"

function stale_pages :: "(logged_event \<times> nat) list \<Rightarrow> number \<Rightarrow> nat \<Rightarrow> logged_event list \<Rightarrow> logged_event list" where
  "stale_pages z olderThan offset stale =
     (let members = zrange None offset LOG_PAGE z;
          stale = stale @ filter (\<lambda>e. le_createdAt e < olderThan) members
      in if length members < LOG_PAGE then stale else stale_pages z olderThan (offset + LOG_PAGE) stale)"
  by pat_completeness auto
termination
  by (relation "measure (\<lambda>(z, t, offset, stale). length z - offset)") (auto simp: zrange_def LOG_PAGE_def)

declare stale_pages.simps [simp del]

fun zrem_all :: "'k list \<Rightarrow> nat \<Rightarrow> ('k, 'v) jsmap \<Rightarrow> nat \<times> ('k, 'v) jsmap" where
  "zrem_all [] n z = (n, z)"
| "zrem_all (m # ms) n z = (case hdel m z of (k, z') \<Rightarrow> zrem_all ms (n + k) z')"

fun prune_batches :: "string \<Rightarrow> logged_event list list \<Rightarrow> nat \<Rightarrow> nat redis_op" where
  "prune_batches name [] removed = retE removed"
| "prune_batches name (b # bs) removed =
     bindE (at_log name (zrem_all b 0)) (\<lambda>n. prune_batches name bs (removed + n))"

definition redis_pruneLog :: "string \<Rightarrow> pkey \<Rightarrow> number \<Rightarrow> nat redis_op" where
  "redis_pruneLog pfx key olderThan =
     (let name = redis_key pfx key SLog in
      bindE (getsE (\<lambda>r. stale_pages (entries_in_order (r_log r name)) olderThan 0 [])) (\<lambda>stale.
      prune_batches name (batches ZREM_BATCH stale) 0))"

section \<open>The methods that read\<close>

definition redis_getLease :: "string \<Rightarrow> pkey \<Rightarrow> lease option redis_op" where
  "redis_getLease pfx key =
     getsE (\<lambda>r. let h = r_meta r (redis_key pfx key SMeta) in
       map_option (\<lambda>owner. \<lparr>l_owner = owner, l_epoch = opt_or (mh_lease_epoch h) 0,
         l_expiresAt = opt_or (mh_lease_expires_at h) 0\<rparr>) (mh_lease_owner h))"

definition read_state :: "state_hash \<Rightarrow> poller_state option" where
  "read_state h =
     (if h = no_state then None
      else let zero = emptyPollerState 0 in
        Some \<lparr>st_lanes = opt_or (sh_lanes h) (st_lanes zero), st_schedule = opt_or (sh_schedule h) (st_schedule zero),
          st_paused = opt_or (sh_paused h) (st_paused zero), st_schemaVersion = opt_or (sh_schemaVersion h) (st_schemaVersion zero),
          st_sequence = opt_or (sh_sequence h) (st_sequence zero), st_createdAt = opt_or (sh_createdAt h) (st_createdAt zero),
          st_updatedAt = opt_or (sh_updatedAt h) (st_updatedAt zero)\<rparr>)"

definition redis_loadState :: "string \<Rightarrow> pkey \<Rightarrow> poller_state option redis_op" where
  "redis_loadState pfx key = getsE (\<lambda>r. read_state (r_state r (redis_key pfx key SState)))"

text \<open>The members of the set of keys are JSON texts; what is not a pair of strings is passed over. \<^verbatim>\<open>localeCompare\<close>
  compares the collation keys of the host.\<close>

fun read_members :: "string option \<Rightarrow> string list \<Rightarrow> thrown + pkey list" where
  "read_members poller [] = Inr []"
| "read_members poller (m # ms) =
     (case json_parse m of
        None \<Rightarrow> Inl (plainError ''SyntaxError'' ''Unexpected token in JSON'')
      | Some j \<Rightarrow>
          map_sum id (\<lambda>ks. (case j of
              JArr [JStr p, JStr q] \<Rightarrow> if poller = None \<or> poller = Some p then \<lparr>k_poller = p, k_partition = q\<rparr> # ks else ks
            | _ \<Rightarrow> ks)) (read_members poller ms))"

definition redis_listKeys :: "(string \<Rightarrow> 'c::linorder) \<Rightarrow> string \<Rightarrow> string option \<Rightarrow> pkey list redis_op" where
  "redis_listKeys collation pfx poller =
     bindE (getsE (\<lambda>r. r_sets r (keysSet pfx))) (\<lambda>members.
     bindE (resultE (read_members poller members)) (\<lambda>ks.
     retE (js_sort_by (collation \<circ> k_poller) (js_sort_by (collation \<circ> k_partition) ks))))"

definition redis_loadVersions :: "string \<Rightarrow> pkey \<Rightarrow> string list \<Rightarrow> (string, item_row) jsmap redis_op" where
  "redis_loadVersions pfx key identities = getsE (\<lambda>r. versions_of (r_items r (redis_key pfx key SItems)) identities [])"

definition redis_countItems :: "string \<Rightarrow> pkey \<Rightarrow> nat redis_op" where
  "redis_countItems pfx key = getsE (\<lambda>r. length (r_items r (redis_key pfx key SItems)))"

definition merged :: "nat option \<Rightarrow> attempt_info option \<Rightarrow> outbox_row \<Rightarrow> outbox_row" where
  "merged extra err row =
     (let row = (case extra of None \<Rightarrow> row | Some n \<Rightarrow> row\<lparr>ob_attempts := ob_attempts row + n\<rparr>)
      in case err of None \<Rightarrow> row
         | Some info \<Rightarrow> row\<lparr>ob_lastError := ai_lastError info, ob_nextAttemptAt := ai_nextAttemptAt info\<rparr>)"

definition redis_loadPending :: "string \<Rightarrow> pkey \<Rightarrow> nat \<Rightarrow> outbox_row list redis_op" where
  "redis_loadPending pfx key limit =
     (if limit = 0 then retE []
      else getsE (\<lambda>r. List.map_filter
        (\<lambda>i. map_option (merged (map_of (r_attempts r (redis_key pfx key SAttempts)) i) (map_of (r_errors r (redis_key pfx key SErrors)) i))
               (map_of (r_rows r (redis_key pfx key SRows)) i))
        (zrange None 0 limit (ids_in_order (r_outbox r (redis_key pfx key SOutbox))))))"

definition redis_countPending :: "string \<Rightarrow> pkey \<Rightarrow> nat redis_op" where
  "redis_countPending pfx key = getsE (\<lambda>r. length (r_outbox r (redis_key pfx key SOutbox)))"

definition redis_listParked :: "string \<Rightarrow> pkey \<Rightarrow> parked_kind option \<Rightarrow> nat option \<Rightarrow> parked_row list redis_op" where
  "redis_listParked pfx key kind limit =
     getsE (\<lambda>r.
       let rows = js_sort_by pk_parkedAt (filter (\<lambda>row. kind = None \<or> Some (pk_kind row) = kind)
             (map snd (r_parked r (redis_key pfx key SParked))))
       in take (opt_or limit (length rows)) rows)"

definition redis_countParked :: "string \<Rightarrow> pkey \<Rightarrow> nat redis_op" where
  "redis_countParked pfx key = getsE (\<lambda>r. length (r_parked r (redis_key pfx key SParked)))"

definition redis_heldKeys :: "string \<Rightarrow> pkey \<Rightarrow> string set redis_op" where
  "redis_heldKeys pfx key = getsE (\<lambda>r. set (map snd (r_hold r (redis_key pfx key SHold))))"

definition redis_getValidator :: "string \<Rightarrow> pkey \<Rightarrow> string \<Rightarrow> validator option redis_op" where
  "redis_getValidator pfx key urlHash = getsE (\<lambda>r. map_of (r_validators r (redis_key pfx key SValidators)) urlHash)"

definition in_time :: "log_range \<Rightarrow> logged_event \<Rightarrow> bool" where
  "in_time rg e \<longleftrightarrow> (case lr_fromTime rg of None \<Rightarrow> True | Some t \<Rightarrow> le_createdAt e \<ge> t)
     \<and> (case lr_toTime rg of None \<Rightarrow> True | Some t \<Rightarrow> le_createdAt e \<le> t)"

text \<open>One page of \<^verbatim>\<open>readLog\<close>: whether the limit was reached, and the entries so far.\<close>

fun scan_page :: "nat \<Rightarrow> log_range \<Rightarrow> logged_event list \<Rightarrow> logged_event list \<Rightarrow> bool \<times> logged_event list" where
  "scan_page limit rg [] out = (False, out)"
| "scan_page limit rg (e # es) out =
     (if \<not> in_time rg e then scan_page limit rg es out
      else if length (out @ [e]) \<ge> limit then (True, out @ [e])
      else scan_page limit rg es (out @ [e]))"

function log_pages :: "(logged_event \<times> nat) list \<Rightarrow> log_range \<Rightarrow> nat \<Rightarrow> nat \<Rightarrow> logged_event list \<Rightarrow> logged_event list" where
  "log_pages z rg limit offset out =
     (let page = max limit LOG_PAGE; members = zrange (lr_afterSequence rg) offset page z in
      case scan_page limit rg members out of
        (full, out) \<Rightarrow>
          if full then out
          else if length members < page then out
          else log_pages z rg limit (offset + page) out)"
  by pat_completeness auto
termination
proof (relation "measure (\<lambda>(z, rg, limit, offset, out). length z - offset)")
  fix z :: "(logged_event \<times> nat) list" and rg limit offset out page members r full out'
  assume a: "page = max limit LOG_PAGE" "members = zrange (lr_afterSequence rg) offset page z" "\<not> length members < page"
  have "length members \<le> length z - offset"
    unfolding a(2) zrange_def using length_filter_le [of "\<lambda>(m, s). case lr_afterSequence rg of None \<Rightarrow> True | Some a \<Rightarrow> a < s" z]
    by (simp add: min.coboundedI1 diff_le_mono)
  with a show "((z, rg, limit, offset + page, out'), z, rg, limit, offset, out) \<in> measure (\<lambda>(z, rg, limit, offset, out). length z - offset)"
    by (simp add: LOG_PAGE_def)
qed simp

declare log_pages.simps [simp del]

definition redis_readLog :: "string \<Rightarrow> pkey \<Rightarrow> log_range \<Rightarrow> nat \<Rightarrow> logged_event list redis_op" where
  "redis_readLog pfx key rg limit =
     (if limit = 0 then retE []
      else getsE (\<lambda>r. log_pages (entries_in_order (r_log r (redis_key pfx key SLog))) rg limit 0 []))"

fun redis_step :: "string \<Rightarrow> store_cmd \<Rightarrow> redis \<Rightarrow> (thrown + reply) \<times> redis" where
  "redis_step pfx (Acquire k owner ttl now) = replies RLease (redis_acquireLease pfx k owner ttl now)"
| "redis_step pfx (Renew k l ttl now) = replies RBool (redis_renewLease pfx k l ttl now)"
| "redis_step pfx (Release k l) = replies (\<lambda>_. RUnit) (redis_releaseLease pfx k l)"
| "redis_step pfx (Save k l patch) = replies (\<lambda>_. RUnit) (redis_saveState pfx k l patch)"
| "redis_step pfx (SaveUnfenced k patch) = replies (\<lambda>_. RUnit) (redis_saveStateUnfenced pfx k patch)"
| "redis_step pfx (DeleteKey k) = replies (\<lambda>_. RUnit) (redis_deleteKey pfx k)"
| "redis_step pfx (Clear k) = replies (\<lambda>_. RUnit) (redis_clearItems pfx k)"
| "redis_step pfx (Commit k l b) = replies (\<lambda>_. RUnit) (redis_commitPoll pfx k l b)"
| "redis_step pfx (Ack k l ids) = replies (\<lambda>_. RUnit) (redis_ackEvents pfx k l ids)"
| "redis_step pfx (Attempt k l eid err due) = replies (\<lambda>_. RUnit) (redis_recordAttempt pfx k l eid err due)"
| "redis_step pfx (ParkRow k l row) = replies (\<lambda>_. RUnit) (redis_parkEvent pfx k l row)"
| "redis_step pfx (Retry k ids) = replies RCount (redis_retryParked pfx k ids)"
| "redis_step pfx (Discard k ids) = replies RCount (redis_discardParked pfx k ids)"
| "redis_step pfx (SetVal k l h v) = replies (\<lambda>_. RUnit) (redis_setValidator pfx k l h v)"
| "redis_step pfx (Prune k t) = replies RCount (redis_pruneLog pfx k t)"

fun redis_read :: "string \<Rightarrow> query \<Rightarrow> pkey \<Rightarrow> redis \<Rightarrow> thrown + answer" where
  "redis_read pfx QLease key r = map_sum id ALease (fst (redis_getLease pfx key r))"
| "redis_read pfx QState key r = map_sum id AState (fst (redis_loadState pfx key r))"
| "redis_read pfx (QVersions ids) key r = map_sum id (AVersions \<circ> map_of) (fst (redis_loadVersions pfx key ids r))"
| "redis_read pfx QCountItems key r = map_sum id ACount (fst (redis_countItems pfx key r))"
| "redis_read pfx (QPending n) key r = map_sum id APending (fst (redis_loadPending pfx key n r))"
| "redis_read pfx QCountPending key r = map_sum id ACount (fst (redis_countPending pfx key r))"
| "redis_read pfx (QParked kind n) key r = map_sum id AParked (fst (redis_listParked pfx key kind n r))"
| "redis_read pfx QCountParked key r = map_sum id ACount (fst (redis_countParked pfx key r))"
| "redis_read pfx QHeld key r = map_sum id AHeld (fst (redis_heldKeys pfx key r))"
| "redis_read pfx (QValidator h) key r = map_sum id AValidator (fst (redis_getValidator pfx key h r))"
| "redis_read pfx (QLog rg n) key r = map_sum id ALog (fst (redis_readLog pfx key rg n r))"

end
