(* ===== verification/Redis_Contract.thy ===== *)
theory Redis_Contract
  imports Redis_Store
begin

text \<open>
  The Redis store keeps the contract of the port: its invariant (the index of pending events, the held keys and
  the scores of the log agree with the rows), what each script does to the data of a key, each command and each
  query against the contract, and the instance of \<^verbatim>\<open>state_store\<close>.
\<close>

section \<open>The view of a key\<close>

definition outbox_view :: "(string, outbox_row) jsmap \<Rightarrow> (string, nat) jsmap \<Rightarrow> (string, attempt_info) jsmap \<Rightarrow> string \<rightharpoonup> outbox_row" where
  "outbox_view rows att err = (\<lambda>i. map_option (merged (map_of att i) (map_of err i)) (map_of rows i))"

definition meta_lease :: "meta_hash \<Rightarrow> lease option" where
  "meta_lease h = map_option (\<lambda>owner. \<lparr>l_owner = owner, l_epoch = opt_or (mh_lease_epoch h) 0,
     l_expiresAt = opt_or (mh_lease_expires_at h) 0\<rparr>) (mh_lease_owner h)"

definition data_view :: "key_data \<Rightarrow> key_view" where
  "data_view d = \<lparr>kv_state = read_state (kd_state d), kv_lease = meta_lease (kd_meta d),
     kv_counter = opt_or (mh_epoch_counter (kd_meta d)) 0, kv_items = map_of (kd_items d),
     kv_outbox = outbox_view (kd_rows d) (kd_attempts d) (kd_errors d), kv_parked = map_of (kd_parked d),
     kv_validators = map_of (kd_validators d), kv_log = log_map (map fst (kd_log d))\<rparr>"

text \<open>The invariant, one conjunct for each group of structures that must agree.\<close>

definition meta_ok :: "meta_hash \<Rightarrow> bool" where
  "meta_ok h \<longleftrightarrow> mh_lease_owner h = None \<or> (mh_lease_epoch h \<noteq> None \<and> mh_lease_expires_at h \<noteq> None)"

definition score :: "outbox_row \<Rightarrow> nat option" where
  "score row = (if ob_status row = Pending then Some (ob_sequence row) else None)"

definition outbox_ok :: "(string, nat) jsmap \<Rightarrow> (string, outbox_row) jsmap \<Rightarrow> bool" where
  "outbox_ok z rows \<longleftrightarrow> distinct (map fst z) \<and> distinct (map fst rows) \<and> keyed ob_eventId rows
     \<and> (\<forall>i. map_of z i = Option.bind (map_of rows i) score)"

definition hold_ok :: "(string, parked_row) jsmap \<Rightarrow> (string, string) jsmap \<Rightarrow> bool" where
  "hold_ok parked hold \<longleftrightarrow> distinct (map fst parked) \<and> distinct (map fst hold) \<and> keyed pk_id parked
     \<and> (\<forall>i. map_of hold i = Option.bind (map_of parked i) pk_holdKey)
     \<and> (\<forall>i row ev. map_of parked i = Some row \<longrightarrow> pk_event row = Some ev \<longrightarrow> plain_event ev)"

definition log_ok :: "(logged_event, nat) jsmap \<Rightarrow> bool" where
  "log_ok z \<longleftrightarrow> distinct (map le_sequence (map fst z)) \<and> (\<forall>(e, s) \<in> set z. s = le_sequence e)"

definition data_ok :: "key_data \<Rightarrow> bool" where
  "data_ok d \<longleftrightarrow> meta_ok (kd_meta d) \<and> distinct (map fst (kd_items d)) \<and> outbox_ok (kd_outbox d) (kd_rows d)
     \<and> hold_ok (kd_parked d) (kd_hold d) \<and> log_ok (kd_log d)"

definition redis_view :: "string \<Rightarrow> redis \<Rightarrow> pkey \<Rightarrow> key_view" where
  "redis_view pfx r k = data_view (data_of pfx r k)"

definition redis_ok :: "string \<Rightarrow> redis \<Rightarrow> bool" where
  "redis_ok pfx r \<longleftrightarrow> (\<forall>k. data_ok (data_of pfx r k))"

lemma no_data_ok [simp]: "data_ok no_data" "data_view no_data = empty_view"
  by (simp_all add: data_ok_def no_data_def meta_ok_def no_meta_def outbox_ok_def hold_ok_def log_ok_def data_view_def
      empty_view_def read_state_def meta_lease_def outbox_view_def log_map_def fun_eq_iff)

lemma empty_redis_ok: "redis_ok pfx empty_redis" "redis_view pfx empty_redis = no_keys"
  by (simp_all add: redis_ok_def redis_view_def fun_eq_iff data_of_empty no_keys_def)

section \<open>From the data to the contract\<close>

text \<open>A change \<^verbatim>\<open>g\<close> of the data implements the change \<^verbatim>\<open>h\<close> of the view.\<close>

definition implements :: "(key_data \<Rightarrow> key_data) \<Rightarrow> (key_view \<Rightarrow> key_view) \<Rightarrow> bool" where
  "implements g h \<longleftrightarrow> (\<forall>d. data_ok d \<longrightarrow> data_ok (g d) \<and> data_view (g d) = h (data_view d))"

lemma implements_comp: "\<lbrakk> implements g h; implements g' h' \<rbrakk> \<Longrightarrow> implements (\<lambda>d. g' (g d)) (\<lambda>v. h' (h v))"
  by (simp add: implements_def)

lemma implements_id: "implements (\<lambda>d. d) (\<lambda>v. v)"
  by (simp add: implements_def)

lemma implements_fold: "(\<And>x. x \<in> set xs \<Longrightarrow> implements (g x) (h x)) \<Longrightarrow> implements (fold g xs) (fold h xs)"
proof (induction xs)
  case (Cons x xs)
  have "implements (\<lambda>d. fold g xs (g x d)) (\<lambda>v. fold h xs (h x v))"
    by (rule implements_comp [of "g x" "h x"]) (use Cons in auto)
  then show ?case by (simp add: comp_def)
qed (simp add: implements_id id_def)

lemma obeys_data:
  assumes "m r = (Inr x, r')" "data_of pfx r' = (data_of pfx r)(cmd_key c := d')" "redis_ok pfx r" "data_ok d'"
    "spec c (data_view (data_of pfx r (cmd_key c))) = (Inr (h x), data_view d')"
  shows "obeys (redis_ok pfx) (redis_view pfx) c (replies h m) r"
proof -
  have "redis_ok pfx r'" using assms(2,3,4) by (simp add: redis_ok_def)
  moreover have "redis_view pfx r' = (redis_view pfx r)(cmd_key c := data_view d')"
    using assms(2) by (simp add: fun_eq_iff redis_view_def)
  ultimately show ?thesis using assms(1,5) by (simp add: obeys_def replies_eq spec_step_def redis_view_def)
qed

lemma obeys_acts_data:
  assumes "data_acts pfx (cmd_key c) m f g" "redis_ok pfx r"
    "\<And>d. data_ok d \<Longrightarrow> data_ok (g d) \<and> spec c (data_view d) = (Inr (h (f d)), data_view (g d))"
  shows "obeys (redis_ok pfx) (redis_view pfx) c (replies h m) r"
proof -
  let ?d = "data_of pfx r (cmd_key c)"
  obtain r' where r': "m r = (Inr (f ?d), r')" "data_of pfx r' = (data_of pfx r)(cmd_key c := g ?d)"
    using assms(1) by (auto simp: acts_def)
  have "data_ok ?d" using assms(2) by (simp add: redis_ok_def)
  with assms(3) show ?thesis by (intro obeys_data [where x = "f ?d" and d' = "g ?d" and r' = r'] r' assms(2)) auto
qed

lemma fenced_by_match: "data_ok d \<Longrightarrow> fenced_by (GStr (l_owner l) # GNum (l_epoch l) # args) (kd_meta d) \<longleftrightarrow> token_match (kv_lease (data_view d)) l"
  by (cases "mh_lease_owner (kd_meta d)") (auto simp: data_ok_def meta_ok_def data_view_def meta_lease_def token_match_def)

lemma acts_when_fenced:
  assumes "data_acts pfx key (body args) (\<lambda>_. ()) g"
  shows "data_acts pfx key (when_fenced (redis_key pfx key SMeta) body (GStr owner # GNum epoch # args))
    (\<lambda>d. if fenced_by (GStr owner # GNum epoch # args) (kd_meta d) then OK_reply else LEASE_LOST_reply)
    (\<lambda>d. if fenced_by (GStr owner # GNum epoch # args) (kd_meta d) then g d else d)"
proof -
  let ?f = "\<lambda>d. fenced_by (GStr owner # GNum epoch # args) (kd_meta d)"
  have look: "data_acts pfx key (getsE (\<lambda>r. fenced_by (GStr owner # GNum epoch # args) (r_meta r (redis_key pfx key SMeta)))) ?f (\<lambda>d. d)"
    by (rule acts_look) (simp add: data_of_def)
  have branch: "data_acts pfx key (if \<not> ok then retE LEASE_LOST_reply else bindE (body (drop 2 (GStr owner # GNum epoch # args))) (\<lambda>_. retE OK_reply))
      (\<lambda>_. if ok then OK_reply else LEASE_LOST_reply) (\<lambda>d. if ok then g d else d)" for ok
    using acts_then [OF assms acts_ret [of _ _ _ OK_reply]] acts_ret [of "\<lambda>_. True" "data_of pfx" key LEASE_LOST_reply]
    by (cases ok) simp_all
  show ?thesis
    unfolding when_fenced_def
    by (rule acts_cong [OF acts_bind [OF look, where n = "\<lambda>ok. if \<not> ok then retE LEASE_LOST_reply else bindE (body (drop 2 (GStr owner # GNum epoch # args))) (\<lambda>_. retE OK_reply)"
        and f' = "\<lambda>ok _. if ok then OK_reply else LEASE_LOST_reply" and g' = "\<lambda>ok d. if ok then g d else d"]])
      (rule branch, rule refl, rule refl)
qed

lemma obeys_fenced:
  assumes "cmd_key c = key" "\<And>v. spec c v = guarded key l h v" "redis_ok pfx r"
    "data_acts pfx key (body args) (\<lambda>_. ()) g"
    "data_ok (g (data_of pfx r key)) \<and> data_view (g (data_of pfx r key)) = h (data_view (data_of pfx r key))"
  shows "obeys (redis_ok pfx) (redis_view pfx) c
    (replies (\<lambda>_. RUnit) (bindE (redis_fenced key l (when_fenced (redis_key pfx key SMeta) body) args) (\<lambda>_. retE ()))) r"
proof -
  let ?d = "data_of pfx r key"
  let ?argv = "GStr (l_owner l) # GNum (l_epoch l) # args"
  have ok: "data_ok ?d" using assms(3) by (simp add: redis_ok_def)
  obtain r' where r': "when_fenced (redis_key pfx key SMeta) body ?argv r
      = (Inr (if fenced_by ?argv (kd_meta ?d) then OK_reply else LEASE_LOST_reply), r')"
    "data_of pfx r' = (data_of pfx r)(key := (if fenced_by ?argv (kd_meta ?d) then g ?d else ?d))"
    using acts_when_fenced [of pfx key body args g, OF assms(4)] unfolding acts_def by blast
  have view: "redis_view pfx r' = (redis_view pfx r)(key := (if fenced_by ?argv (kd_meta ?d) then h (data_view ?d) else data_view ?d))"
    using r'(2) assms(5) by (auto simp: fun_eq_iff redis_view_def)
  have "redis_ok pfx r'" using r'(2) assms(5) assms(3) by (auto simp: redis_ok_def)
  with r'(1) view show ?thesis
    unfolding fenced_by_match [OF ok]
    by (auto simp: obeys_def replies_eq spec_step_def assms(1,2) redis_fenced_def bindE_def retE_def throwE_def guarded_def
        redis_view_def [symmetric] LEASE_LOST_reply_def OK_reply_def)
qed

lemma obeys_fenced_impl:
  assumes "implements g h" "cmd_key c = key" "\<And>v. spec c v = guarded key l h v" "redis_ok pfx r"
    "data_acts pfx key (body args) (\<lambda>_. ()) g"
  shows "obeys (redis_ok pfx) (redis_view pfx) c
    (replies (\<lambda>_. RUnit) (bindE (redis_fenced key l (when_fenced (redis_key pfx key SMeta) body) args) (\<lambda>_. retE ()))) r"
  by (rule obeys_fenced [where body = body and args = args and g = g, OF assms(2-5)])
    (use assms(1,4) in \<open>simp add: implements_def redis_ok_def\<close>)

section \<open>What the scripts do to the data\<close>

lemma acts_const: "\<lbrakk> acts I V key m (\<lambda>_. x) g; acts I V key (n x) f' g' \<rbrakk> \<Longrightarrow> acts I V key (bindE m n) (\<lambda>v. f' (g v)) (\<lambda>v. g' (g v))"
  by (rule acts_bind)

lemma acts_if: "\<lbrakk> b \<Longrightarrow> acts I V key m f g; \<not> b \<Longrightarrow> acts I V key n f g' \<rbrakk> \<Longrightarrow> acts I V key (if b then m else n) f (\<lambda>v. if b then g v else g' v)"
  by (cases b) simp_all

lemmas acts_rules = acts_then acts_at acts_sets acts_ret

lemma acts_loop_n:
  assumes "\<And>x rest. x \<in> set xs \<Longrightarrow> data_acts pfx key (turn (enc x @ rest)) (\<lambda>_. rest) (g x)"
  shows "data_acts pfx key (loop_n (length xs) turn (concat (map enc xs) @ rest)) (\<lambda>_. rest) (fold g xs)"
  using assms
proof (induction xs)
  case (Cons x xs)
  have 1: "data_acts pfx key (turn (enc x @ (concat (map enc xs) @ rest))) (\<lambda>_. concat (map enc xs) @ rest) (g x)"
    using Cons.prems by simp
  have "data_acts pfx key (loop_n (length xs) turn (concat (map enc xs) @ rest)) (\<lambda>_. rest) (fold g xs)"
    using Cons by simp
  from acts_const [of _ _ _ _ _ _ "loop_n (length xs) turn", OF 1 this] show ?case by (simp add: comp_def)
qed (simp add: acts_ret id_def)

lemma acts_counted:
  assumes "\<And>x rest. x \<in> set xs \<Longrightarrow> data_acts pfx key (turn (enc x @ rest)) (\<lambda>_. rest) (g x)"
  shows "data_acts pfx key (counted turn (GNum (length xs) # concat (map enc xs) @ rest)) (\<lambda>_. rest) (fold g xs)"
  using acts_loop_n [OF assms, of xs] by (simp add: counted_def)

definition put_state :: "state_patch \<Rightarrow> key_data \<Rightarrow> key_data" where
  "put_state p d = d\<lparr>kd_state := fold hset_field (patch_fields p)
     (if kd_state d = no_state then zero_hash (opt_or (sp_updatedAt p) 0) else kd_state d)\<rparr>"

lemma set_map_filter_id: "set (List.map_filter id xs) = {y. Some y \<in> set xs}"
  by (induction xs) (auto simp: map_filter_def)

lemma patch_fields_set: "f \<in> set (patch_fields p) \<Longrightarrow> f \<noteq> FCreatedAt t"
  unfolding patch_fields_def set_map_filter_id by (auto dest: sym)

lemma acts_apply_state:
  "data_acts pfx key (apply_state (redis_key pfx key SState) (patchArgs p @ rest)) (\<lambda>_. rest) (put_state p)"
proof -
  let ?s = "redis_key pfx key SState"
  have turn: "data_acts pfx key (field_turn ?s (GField f # rest)) (\<lambda>_. rest) (\<lambda>d. d\<lparr>kd_state := hset_field f (kd_state d)\<rparr>)"
    if "\<forall>t. f \<noteq> FCreatedAt t" for f rest
  proof -
    have "field_turn ?s (GField f # rest) = bindE (at_state ?s (\<lambda>h. ((), hset_field f h))) (\<lambda>_. retE rest)"
      using that by (cases f) (simp_all add: field_turn_def)
    then show ?thesis by (simp only:) (rule acts_cong, (rule acts_rules)+, simp_all)
  qed
  have fields: "data_acts pfx key (counted (field_turn ?s) (GNum (length (patch_fields p)) # map GField (patch_fields p) @ rest)) (\<lambda>_. rest)
      (fold (\<lambda>f d. d\<lparr>kd_state := hset_field f (kd_state d)\<rparr>) (patch_fields p))"
    using acts_counted [of "patch_fields p" pfx key "field_turn ?s" "\<lambda>f. [GField f]"
        "\<lambda>f d. d\<lparr>kd_state := hset_field f (kd_state d)\<rparr>" rest] turn patch_fields_set
    by (simp add: concat_map_singleton)
  have fold: "fold (\<lambda>f d. d\<lparr>kd_state := hset_field f (kd_state d)\<rparr>) fs d = d\<lparr>kd_state := fold hset_field fs (kd_state d)\<rparr>" for fs d
    by (induction fs arbitrary: d) simp_all
  show ?thesis
    unfolding apply_state_def patchArgs_def
    by (simp, rule acts_cong, rule acts_then [OF acts_at(2) fields], simp_all add: fold put_state_def)
qed

definition put_row :: "outbox_row \<Rightarrow> key_data \<Rightarrow> key_data" where
  "put_row row d = d\<lparr>kd_rows := AList.update (ob_eventId row) row (kd_rows d), kd_attempts := AList.delete (ob_eventId row) (kd_attempts d),
     kd_errors := AList.delete (ob_eventId row) (kd_errors d),
     kd_outbox := (if ob_status row = Pending then AList.update (ob_eventId row) (ob_sequence row) (kd_outbox d)
                   else AList.delete (ob_eventId row) (kd_outbox d))\<rparr>"

definition put_logged :: "bool \<Rightarrow> outbox_row \<Rightarrow> key_data \<Rightarrow> key_data" where
  "put_logged logs row d = (if logs then d\<lparr>kd_log := AList.update (log_entry row) (ob_sequence row) (kd_log d)\<rparr> else d)"

definition park_row :: "parked_row \<Rightarrow> key_data \<Rightarrow> key_data" where
  "park_row row d = d\<lparr>kd_parked := AList.update (pk_id row) row (kd_parked d),
     kd_hold := (case pk_holdKey row of None \<Rightarrow> AList.delete (pk_id row) (kd_hold d) | Some h \<Rightarrow> AList.update (pk_id row) h (kd_hold d))\<rparr>"

definition drop_row :: "string \<Rightarrow> key_data \<Rightarrow> key_data" where
  "drop_row i d = d\<lparr>kd_outbox := AList.delete i (kd_outbox d), kd_rows := AList.delete i (kd_rows d),
     kd_attempts := AList.delete i (kd_attempts d), kd_errors := AList.delete i (kd_errors d)\<rparr>"

lemma acts_drop_outbox:
  "data_acts pfx key (drop_outbox (redis_key pfx key SOutbox) (redis_key pfx key SRows) (redis_key pfx key SAttempts) (redis_key pfx key SErrors) i)
     (\<lambda>_. ()) (drop_row i)"
  unfolding drop_outbox_def by (rule acts_cong, (rule acts_rules)+) (simp_all add: drop_row_def hdel_def)

lemma acts_put_parked:
  "data_acts pfx key (put_parked (redis_key pfx key SParked) (redis_key pfx key SHold) (pk_id row) row
      (if pk_holdKey row = None then ''0'' else ''1'') (opt_or (pk_holdKey row) '''')) (\<lambda>_. ()) (park_row row)"
  unfolding put_parked_def
  by (cases "pk_holdKey row"; simp; rule acts_cong, (rule acts_rules)+) (simp_all add: park_row_def hset_def hdel_def)

lemma acts_parked_turn:
  "data_acts pfx key (parked_turn (redis_key pfx key SParked) (redis_key pfx key SHold) (([GStr (pk_id row), GParked row] @ hold_args row) @ rest))
     (\<lambda>_. rest) (park_row row)"
proof -
  have "data_acts pfx key (bindE (put_parked (redis_key pfx key SParked) (redis_key pfx key SHold) (pk_id row) row
      (if pk_holdKey row = None then ''0'' else ''1'') (opt_or (pk_holdKey row) '''')) (\<lambda>_. retE rest)) (\<lambda>_. rest) (park_row row)"
    by (rule acts_then [OF acts_put_parked acts_ret])
  then show ?thesis by (simp add: parked_turn_def hold_args_def)
qed

definition event_arg :: "bool \<Rightarrow> outbox_row \<Rightarrow> arg list" where
  "event_arg logs row = [GStr (ob_eventId row), GNum (ob_sequence row), GStatus (ob_status row), GRow row,
     if logs then GLogged (log_entry row) else GStr '''']"

lemma acts_event_turn:
  "data_acts pfx key (event_turn (redis_key pfx key SOutbox) (redis_key pfx key SRows) (redis_key pfx key SAttempts) (redis_key pfx key SErrors)
      (redis_key pfx key SLog) (event_arg logs row @ rest)) (\<lambda>_. rest) (\<lambda>d. put_logged logs row (put_row row d))"
  unfolding event_turn_def event_arg_def
  by (cases logs; cases "ob_status row = Pending"; simp; rule acts_cong, (rule acts_rules)+)
    (simp_all add: put_logged_def put_row_def hset_def hdel_def)

lemma acts_upsert_turn:
  "data_acts pfx key (upsert_turn (redis_key pfx key SItems) ([GStr (ir_identity row), GItem row] @ rest)) (\<lambda>_. rest)
     (\<lambda>d. d\<lparr>kd_items := AList.update (ir_identity row) row (kd_items d)\<rparr>)"
  unfolding upsert_turn_def by (simp, rule acts_cong, (rule acts_rules)+) (simp_all add: hset_def)

lemma acts_delete_turn:
  "data_acts pfx key (delete_turn (redis_key pfx key SItems) ([GStr i] @ rest)) (\<lambda>_. rest) (\<lambda>d. d\<lparr>kd_items := AList.delete i (kd_items d)\<rparr>)"
  unfolding delete_turn_def by (simp, rule acts_cong, (rule acts_rules)+) (simp_all add: hdel_def)

section \<open>What they do to the view\<close>

lemma data_view_items [simp]: "data_view (d\<lparr>kd_items := x\<rparr>) = (data_view d)\<lparr>kv_items := map_of x\<rparr>"
  by (simp add: data_view_def)

lemma data_view_state [simp]: "data_view (d\<lparr>kd_state := h\<rparr>) = (data_view d)\<lparr>kv_state := read_state h\<rparr>"
  by (simp add: data_view_def)

lemma data_view_meta [simp]:
  "data_view (d\<lparr>kd_meta := h\<rparr>) = (data_view d)\<lparr>kv_lease := meta_lease h, kv_counter := opt_or (mh_epoch_counter h) 0\<rparr>"
  by (simp add: data_view_def)

lemma fold_patch_fields:
  "fold hset_field (patch_fields p) h =
     h\<lparr>sh_lanes := (case sp_lanes p of None \<Rightarrow> sh_lanes h | Some x \<Rightarrow> Some x),
       sh_schedule := (case sp_schedule p of None \<Rightarrow> sh_schedule h | Some x \<Rightarrow> Some x),
       sh_paused := (case sp_paused p of None \<Rightarrow> sh_paused h | Some x \<Rightarrow> Some x),
       sh_schemaVersion := (case sp_schemaVersion p of None \<Rightarrow> sh_schemaVersion h | Some x \<Rightarrow> Some x),
       sh_sequence := (case sp_sequence p of None \<Rightarrow> sh_sequence h | Some x \<Rightarrow> Some x),
       sh_updatedAt := (case sp_updatedAt p of None \<Rightarrow> sh_updatedAt h | Some x \<Rightarrow> Some x)\<rparr>"
  by (cases "sp_lanes p"; cases "sp_schedule p"; cases "sp_paused p"; cases "sp_schemaVersion p"; cases "sp_sequence p"; cases "sp_updatedAt p")
    (simp_all add: patch_fields_def hset_field_def)

lemma read_state_set:
  "h \<noteq> no_state \<Longrightarrow> fold hset_field (patch_fields p) h \<noteq> no_state"
  unfolding fold_patch_fields by (cases h) (auto simp: no_state_def split: option.splits)

lemma put_state_view: "data_view (put_state p d) = (data_view d)\<lparr>kv_state := Some (next_state p (kv_state (data_view d)))\<rparr>"
proof -
  let ?h = "if kd_state d = no_state then zero_hash (opt_or (sp_updatedAt p) 0) else kd_state d"
  have "zero_hash t \<noteq> no_state" for t by (simp add: zero_hash_def no_state_def)
  then have "fold hset_field (patch_fields p) ?h \<noteq> no_state" by (intro read_state_set) simp
  then have "read_state (fold hset_field (patch_fields p) ?h) = Some (next_state p (read_state (kd_state d)))"
    unfolding fold_patch_fields
    by (auto simp: read_state_def next_state_def patched_def zero_hash_def emptyPollerState_def Let_def opt_or_def split: option.splits)
  then show ?thesis by (simp add: put_state_def data_view_def)
qed

lemma implements_put_state: "implements (put_state p) (\<lambda>v. v\<lparr>kv_state := Some (next_state p (kv_state v))\<rparr>)"
  by (simp add: implements_def put_state_view) (simp add: put_state_def data_ok_def)

lemma implements_upsert:
  "implements (\<lambda>d. d\<lparr>kd_items := AList.update (ir_identity row) row (kd_items d)\<rparr>)
     (\<lambda>v. v\<lparr>kv_items := (kv_items v)(ir_identity row \<mapsto> row)\<rparr>)"
  by (simp add: implements_def data_ok_def distinct_keys_update) (simp add: data_view_def)

lemma implements_delete:
  "implements (\<lambda>d. d\<lparr>kd_items := AList.delete i (kd_items d)\<rparr>) (\<lambda>v. v\<lparr>kv_items := drop_rows [i] (kv_items v)\<rparr>)"
  by (simp add: implements_def data_ok_def distinct_keys_delete) (simp add: data_view_def drop_rows_at fun_eq_iff)

lemma merged_fields [simp]:
  "ob_eventId (merged a e row) = ob_eventId row" "ob_status (merged a e row) = ob_status row" "ob_sequence (merged a e row) = ob_sequence row"
  "merged None None row = row"
  by (simp_all add: merged_def Let_def split: option.splits)

lemma outbox_ok_put:
  assumes "outbox_ok z rows"
  shows "outbox_ok (if ob_status row = Pending then AList.update (ob_eventId row) (ob_sequence row) z else AList.delete (ob_eventId row) z)
    (AList.update (ob_eventId row) row rows)"
  using assms by (auto simp: outbox_ok_def score_def keyed_update distinct_keys_update distinct_keys_delete)

lemma outbox_ok_drop: "outbox_ok z rows \<Longrightarrow> outbox_ok (AList.delete i z) (AList.delete i rows)"
  by (auto simp: outbox_ok_def keyed_delete distinct_keys_delete)

lemma put_row_view: "data_view (put_row row d) = (data_view d)\<lparr>kv_outbox := (kv_outbox (data_view d))(ob_eventId row \<mapsto> row)\<rparr>"
  by (simp add: put_row_def data_view_def outbox_view_def fun_eq_iff)

lemma put_row_ok: "data_ok d \<Longrightarrow> data_ok (put_row row d)"
  using outbox_ok_put by (simp add: data_ok_def put_row_def)

lemma implements_drop_row: "implements (drop_row i) (\<lambda>v. v\<lparr>kv_outbox := drop_rows [i] (kv_outbox v)\<rparr>)"
  by (simp add: implements_def drop_row_def data_ok_def outbox_ok_drop)
    (simp add: data_view_def outbox_view_def drop_rows_at fun_eq_iff)

lemma implements_park_row:
  assumes "plain_parked row"
  shows "implements (park_row row) (\<lambda>v. v\<lparr>kv_parked := (kv_parked v)(pk_id row \<mapsto> row)\<rparr>)"
proof -
  have "hold_ok (AList.update (pk_id row) row parked)
      (case pk_holdKey row of None \<Rightarrow> AList.delete (pk_id row) hold | Some h \<Rightarrow> AList.update (pk_id row) h hold)"
    if "hold_ok parked hold" for parked hold
    using that assms
    by (auto simp: hold_ok_def plain_parked_def keyed_update distinct_keys_update distinct_keys_delete split: option.splits)
  then show ?thesis
    by (simp add: implements_def park_row_def data_ok_def) (simp add: data_view_def)
qed

lemma log_ok_add:
  assumes "log_ok z" "log_map (map fst z) (le_sequence e) = None"
  shows "AList.update e (le_sequence e) z = z @ [(e, le_sequence e)]" "log_ok (z @ [(e, le_sequence e)])"
    "log_map (map fst (z @ [(e, le_sequence e)])) = (log_map (map fst z))(le_sequence e \<mapsto> e)"
proof -
  have new: "le_sequence e \<notin> le_sequence ` fst ` set z" using assms(2) by (simp add: log_map_None image_image)
  then show "AList.update e (le_sequence e) z = z @ [(e, le_sequence e)]" by (intro update_new) blast
  show "log_ok (z @ [(e, le_sequence e)])" using assms(1) new by (auto simp: log_ok_def image_image)
  show "log_map (map fst (z @ [(e, le_sequence e)])) = (log_map (map fst z))(le_sequence e \<mapsto> e)"
    using log_map_snoc [of "map fst z" e] assms(2) by simp
qed

lemma put_events:
  assumes "data_ok d" "logs \<longrightarrow> distinct (map ob_sequence rows) \<and> list_all (\<lambda>row. kv_log (data_view d) (ob_sequence row) = None) rows"
  shows "data_ok (fold (\<lambda>row d. put_logged logs row (put_row row d)) rows d) \<and>
    data_view (fold (\<lambda>row d. put_logged logs row (put_row row d)) rows d) =
      (data_view d)\<lparr>kv_outbox := put_rows ob_eventId (\<lambda>x. x) rows (kv_outbox (data_view d)),
        kv_log := (if logs then put_rows ob_sequence log_entry rows (kv_log (data_view d)) else kv_log (data_view d))\<rparr>"
  using assms
proof (induction rows arbitrary: d)
  case (Cons row rows)
  let ?d = "put_row row d" and ?d' = "put_logged logs row (put_row row d)"
  have ok: "data_ok ?d" using Cons.prems(1) by (rule put_row_ok)
  have view: "data_view ?d' = (data_view d)\<lparr>kv_outbox := (kv_outbox (data_view d))(ob_eventId row \<mapsto> row),
      kv_log := (if logs then (kv_log (data_view d))(ob_sequence row \<mapsto> log_entry row) else kv_log (data_view d))\<rparr> \<and> data_ok ?d'"
  proof (cases logs)
    case True
    have seq: "le_sequence (log_entry row) = ob_sequence row" by (simp add: log_entry_def)
    have l: "log_ok (kd_log ?d)" using ok by (simp add: data_ok_def)
    have n: "log_map (map fst (kd_log ?d)) (le_sequence (log_entry row)) = None"
      using Cons.prems(2) True by (simp add: data_view_def put_row_def seq)
    have log: "kd_log ?d = kd_log d" by (simp add: put_row_def)
    note add = log_ok_add [OF l n, unfolded seq log]
    have "data_view (?d\<lparr>kd_log := x\<rparr>) = (data_view ?d)\<lparr>kv_log := log_map (map fst x)\<rparr>" for x by (simp add: data_view_def)
    moreover have "data_ok (?d\<lparr>kd_log := kd_log d @ [(log_entry row, ob_sequence row)]\<rparr>)" using ok add(2) by (simp add: data_ok_def)
    ultimately show ?thesis using True add(3)
      by (simp add: put_logged_def add(1) put_row_view log del: fun_upd_apply) (simp add: data_view_def)
  next
    case False
    then show ?thesis using ok by (simp add: put_logged_def put_row_view)
  qed
  have "logs \<longrightarrow> distinct (map ob_sequence rows) \<and> list_all (\<lambda>row. kv_log (data_view ?d') (ob_sequence row) = None) rows"
    using Cons.prems(2) view by (auto simp: list_all_iff image_iff)
  from Cons.IH [OF _ this] view have "data_ok (fold (\<lambda>row d. put_logged logs row (put_row row d)) rows ?d') \<and>
    data_view (fold (\<lambda>row d. put_logged logs row (put_row row d)) rows ?d') =
      (data_view ?d')\<lparr>kv_outbox := put_rows ob_eventId (\<lambda>x. x) rows (kv_outbox (data_view ?d')),
        kv_log := (if logs then put_rows ob_sequence log_entry rows (kv_log (data_view ?d')) else kv_log (data_view ?d'))\<rparr>" by blast
  with view show ?case by (cases logs, simp_all only: if_True if_False) (simp_all del: fun_upd_apply)
qed simp

section \<open>The commands\<close>

lemma concat_args_eq: "(\<And>x. x \<in> set xs \<Longrightarrow> f x = Inr (g x)) \<Longrightarrow> concat_args f xs = Inr (concat (map g xs))"
  by (induction xs) auto

lemma item_text_plain: "plain_item row \<Longrightarrow> item_text row = Inr row"
  by (auto simp: item_text_def plain_item_def plain_def split: option.splits)

lemma row_text_plain: "plain_event (ob_event row) \<Longrightarrow> row_text row = Inr row"
  by (simp add: row_text_def event_text_plain)

lemma parked_text_plain: "plain_parked row \<Longrightarrow> parked_text row = Inr row"
  by (cases row; cases "pk_event row") (auto simp: parked_text_def plain_parked_def plain_def event_text_plain)

lemma event_args_plain: "plain_event (ob_event row) \<Longrightarrow> event_args logs row = Inr (event_arg logs row)"
  by (simp add: event_args_def event_arg_def row_text_plain logged_text_def log_entry_def event_text_plain)

lemma commit_args_plain:
  assumes "admissible (Commit k l b) v"
  shows "commit_args key b = Inr (GStr (key_id key) # patchArgs (cb_statePatch b) @ GNum (length (cb_upserts b))
     # concat (map (\<lambda>row. [GStr (ir_identity row), GItem row]) (cb_upserts b))
     @ GNum (length (cb_deletes b)) # concat (map (\<lambda>i. [GStr i]) (cb_deletes b))
     @ GNum (length (cb_events b)) # concat (map (event_arg (cb_log b)) (cb_events b))
     @ GNum (length (cb_parked b)) # concat (map (\<lambda>row. [GStr (pk_id row), GParked row] @ hold_args row) (cb_parked b)) @ [])"
proof -
  have "concat_args upsert_args (cb_upserts b) = Inr (concat (map (\<lambda>row. [GStr (ir_identity row), GItem row]) (cb_upserts b)))"
    by (rule concat_args_eq) (use assms in \<open>simp add: upsert_args_def item_text_plain list_all_iff\<close>)
  moreover have "concat_args (event_args (cb_log b)) (cb_events b) = Inr (concat (map (event_arg (cb_log b)) (cb_events b)))"
    by (rule concat_args_eq) (use assms in \<open>simp add: event_args_plain list_all_iff\<close>)
  moreover have "concat_args parked_args (cb_parked b) = Inr (concat (map (\<lambda>row. [GStr (pk_id row), GParked row] @ hold_args row) (cb_parked b)))"
    by (rule concat_args_eq) (use assms in \<open>simp add: parked_args_def parked_text_plain list_all_iff\<close>)
  ultimately show ?thesis by (simp add: commit_args_def concat_map_singleton del: append.simps)
qed

definition commit_data :: "commit_batch \<Rightarrow> key_data \<Rightarrow> key_data" where
  "commit_data b d =
     fold park_row (cb_parked b) (fold (\<lambda>row d. put_logged (cb_log b) row (put_row row d)) (cb_events b)
       (fold (\<lambda>i d. d\<lparr>kd_items := AList.delete i (kd_items d)\<rparr>) (cb_deletes b)
         (fold (\<lambda>row d. d\<lparr>kd_items := AList.update (ir_identity row) row (kd_items d)\<rparr>) (cb_upserts b) (put_state (cb_statePatch b) d))))"

lemma acts_commit_script:
  assumes "commit_args key b = Inr args" "admissible (Commit k l b) v"
  shows "data_acts pfx key (commit_body (redis_key pfx key) (keysSet pfx) args) (\<lambda>_. ()) (commit_data b)"
proof -
  have a: "args = GStr (key_id key) # patchArgs (cb_statePatch b) @ GNum (length (cb_upserts b))
     # concat (map (\<lambda>row. [GStr (ir_identity row), GItem row]) (cb_upserts b))
     @ GNum (length (cb_deletes b)) # concat (map (\<lambda>i. [GStr i]) (cb_deletes b))
     @ GNum (length (cb_events b)) # concat (map (event_arg (cb_log b)) (cb_events b))
     @ GNum (length (cb_parked b)) # concat (map (\<lambda>row. [GStr (pk_id row), GParked row] @ hold_args row) (cb_parked b)) @ []"
    using assms(1) unfolding commit_args_plain [OF assms(2), of key] by (rule Inr_inject [symmetric])
  show ?thesis
    unfolding a commit_body_def list.case arg.case
    by (rule acts_cong, rule acts_const [OF acts_apply_state], rule acts_const [OF acts_counted [OF acts_upsert_turn]],
        rule acts_const [OF acts_counted [OF acts_delete_turn]], rule acts_const [OF acts_counted [OF acts_event_turn]],
        rule acts_const [OF acts_counted [OF acts_parked_turn]], rule acts_sets(1))
      (simp_all only: commit_data_def)
qed

lemma commit_implements:
  assumes "data_ok d" "admissible (Commit k l b) (data_view d)"
  shows "data_ok (commit_data b d) \<and> data_view (commit_data b d) = commit_view b (data_view d)"
proof -
  let ?d1 = "fold (\<lambda>i d. d\<lparr>kd_items := AList.delete i (kd_items d)\<rparr>) (cb_deletes b)
      (fold (\<lambda>row d. d\<lparr>kd_items := AList.update (ir_identity row) row (kd_items d)\<rparr>) (cb_upserts b) (put_state (cb_statePatch b) d))"
  let ?d2 = "fold (\<lambda>row d. put_logged (cb_log b) row (put_row row d)) (cb_events b) ?d1"
  have "implements (\<lambda>d. fold (\<lambda>i d. d\<lparr>kd_items := AList.delete i (kd_items d)\<rparr>) (cb_deletes b)
      (fold (\<lambda>row d. d\<lparr>kd_items := AList.update (ir_identity row) row (kd_items d)\<rparr>) (cb_upserts b) (put_state (cb_statePatch b) d)))
    (\<lambda>v. fold (\<lambda>i v. v\<lparr>kv_items := drop_rows [i] (kv_items v)\<rparr>) (cb_deletes b)
      (fold (\<lambda>row v. v\<lparr>kv_items := (kv_items v)(ir_identity row \<mapsto> row)\<rparr>) (cb_upserts b)
        (v\<lparr>kv_state := Some (next_state (cb_statePatch b) (kv_state v))\<rparr>)))"
    by (intro implements_comp [OF implements_comp [OF implements_put_state implements_fold] implements_fold] implements_upsert implements_delete)
  then have 1: "data_ok ?d1" "data_view ?d1 = (data_view d)\<lparr>kv_state := Some (next_state (cb_statePatch b) (kv_state (data_view d))),
      kv_items := drop_rows (cb_deletes b) (put_rows ir_identity (\<lambda>x. x) (cb_upserts b) (kv_items (data_view d)))\<rparr>"
    using assms(1) unfolding implements_def fold_put_items fold_drop by simp_all
  have 2: "data_ok ?d2 \<and> data_view ?d2 = (data_view ?d1)\<lparr>kv_outbox := put_rows ob_eventId (\<lambda>x. x) (cb_events b) (kv_outbox (data_view ?d1)),
        kv_log := (if cb_log b then put_rows ob_sequence log_entry (cb_events b) (kv_log (data_view ?d1)) else kv_log (data_view ?d1))\<rparr>"
    by (rule put_events [OF 1(1)]) (use assms(2) in \<open>simp add: 1(2)\<close>)
  have "implements (fold park_row (cb_parked b)) (fold (\<lambda>row v. v\<lparr>kv_parked := (kv_parked v)(pk_id row \<mapsto> row)\<rparr>) (cb_parked b))"
    by (rule implements_fold, rule implements_park_row) (use assms(2) in \<open>simp add: list_all_iff\<close>)
  then show ?thesis using 1 2 unfolding implements_def fold_put_parked commit_data_def
    by (simp add: commit_view_def)
qed

lemma acts_look_at: "data_acts pfx key (getsE (\<lambda>r. f (r_meta r (redis_key pfx key SMeta)))) (\<lambda>d. f (kd_meta d)) (\<lambda>d. d)"
  "data_acts pfx key (getsE (\<lambda>r. g (r_rows r (redis_key pfx key SRows)))) (\<lambda>d. g (kd_rows d)) (\<lambda>d. d)"
  "data_acts pfx key (getsE (\<lambda>r. h (r_parked r (redis_key pfx key SParked)))) (\<lambda>d. h (kd_parked d)) (\<lambda>d. d)"
  by (rule acts_look, simp add: data_of_def)+

definition taken :: "string \<Rightarrow> number \<Rightarrow> meta_hash \<Rightarrow> bool" where
  "taken owner now h \<longleftrightarrow> mh_lease_owner h \<noteq> None \<and> mh_lease_owner h \<noteq> Some owner
     \<and> (case mh_lease_expires_at h of None \<Rightarrow> False | Some t \<Rightarrow> t > now)"

definition grant :: "string \<Rightarrow> number \<Rightarrow> meta_hash \<Rightarrow> meta_hash" where
  "grant owner expires h = h\<lparr>mh_epoch_counter := Some (opt_or (mh_epoch_counter h) 0 + 1), mh_lease_owner := Some owner,
     mh_lease_epoch := Some (opt_or (mh_epoch_counter h) 0 + 1), mh_lease_expires_at := Some expires\<rparr>"

lemma acts_acquire_script:
  "data_acts pfx key (redis_acquireLease pfx key owner ttl now)
     (\<lambda>d. if taken owner now (kd_meta d) then None
          else Some \<lparr>l_owner = owner, l_epoch = opt_or (mh_epoch_counter (kd_meta d)) 0 + 1, l_expiresAt = now + ttl\<rparr>)
     (\<lambda>d. if taken owner now (kd_meta d) then d else d\<lparr>kd_meta := grant owner (now + ttl) (kd_meta d)\<rparr>)"
proof -
  let ?meta = "redis_key pfx key SMeta"
  let ?go = "\<lambda>h. if taken owner now h then retE NilReply
      else bindE (at_meta ?meta (\<lambda>h'. ((), h'\<lparr>mh_epoch_counter := Some (opt_or (mh_epoch_counter h) 0 + 1)\<rparr>))) (\<lambda>_.
        bindE (at_meta ?meta (\<lambda>h'. ((), h'\<lparr>mh_lease_owner := Some owner, mh_lease_epoch := Some (opt_or (mh_epoch_counter h) 0 + 1),
            mh_lease_expires_at := Some (now + ttl)\<rparr>))) (\<lambda>_.
        bindE (sadd (keysSet pfx) (key_id key)) (\<lambda>_. retE (IntReply (opt_or (mh_epoch_counter h) 0 + 1)))))"
  have go: "data_acts pfx key (?go h) (\<lambda>_. if taken owner now h then NilReply else IntReply (opt_or (mh_epoch_counter h) 0 + 1))
      (\<lambda>d. if taken owner now h then d
           else d\<lparr>kd_meta := (kd_meta d)\<lparr>mh_epoch_counter := Some (opt_or (mh_epoch_counter h) 0 + 1), mh_lease_owner := Some owner,
             mh_lease_epoch := Some (opt_or (mh_epoch_counter h) 0 + 1), mh_lease_expires_at := Some (now + ttl)\<rparr>\<rparr>)" for h
  proof (cases "taken owner now h")
    case True
    then show ?thesis by (simp add: acts_ret)
  next
    case False
    show ?thesis unfolding if_not_P [OF False] by (rule acts_cong, (rule acts_rules)+) simp_all
  qed
  have script: "data_acts pfx key (bindE (getsE (\<lambda>r. r_meta r ?meta)) ?go)
      (\<lambda>d. if taken owner now (kd_meta d) then NilReply else IntReply (opt_or (mh_epoch_counter (kd_meta d)) 0 + 1))
      (\<lambda>d. if taken owner now (kd_meta d) then d else d\<lparr>kd_meta := grant owner (now + ttl) (kd_meta d)\<rparr>)"
    by (rule acts_cong [OF acts_bind [OF acts_look_at(1) [where f = "\<lambda>h. h"] go]]) (simp_all add: grant_def)
  have reply: "data_acts pfx key (if reply = NilReply then retE None
        else retE (Some \<lparr>l_owner = owner, l_epoch = reply_number reply, l_expiresAt = now + ttl\<rparr>))
      (\<lambda>_. if reply = NilReply then None else Some \<lparr>l_owner = owner, l_epoch = reply_number reply, l_expiresAt = now + ttl\<rparr>) (\<lambda>d. d)" for reply
    by (simp add: acts_ret)
  have eq: "redis_acquireLease pfx key owner ttl now = bindE (bindE (getsE (\<lambda>r. r_meta r ?meta)) ?go) (\<lambda>reply.
      if reply = NilReply then retE None else retE (Some \<lparr>l_owner = owner, l_epoch = reply_number reply, l_expiresAt = now + ttl\<rparr>))"
    unfolding redis_acquireLease_def ACQUIRE_LEASE_def taken_def Let_def list.case arg.case by (rule refl)
  show ?thesis unfolding eq by (rule acts_cong [OF acts_bind [OF script reply]]) (simp_all add: reply_number_def)
qed

lemma acts_renewLease:
  "data_acts pfx key (redis_renewLease pfx key l ttl now) (\<lambda>d. fenced_by [GStr (l_owner l), GNum (l_epoch l)] (kd_meta d))
     (\<lambda>d. if fenced_by [GStr (l_owner l), GNum (l_epoch l)] (kd_meta d)
          then d\<lparr>kd_meta := (kd_meta d)\<lparr>mh_lease_expires_at := Some (now + ttl)\<rparr>\<rparr> else d)"
proof -
  let ?meta = "redis_key pfx key SMeta" and ?argv = "[GStr (l_owner l), GNum (l_epoch l), GTime (now + ttl)]"
  have go: "data_acts pfx key (if \<not> ok then retE (IntReply 0)
        else bindE (at_meta ?meta (\<lambda>h. ((), h\<lparr>mh_lease_expires_at := Some (now + ttl)\<rparr>))) (\<lambda>_. retE (IntReply 1)))
      (\<lambda>_. IntReply (if ok then 1 else 0)) (\<lambda>d. if ok then d\<lparr>kd_meta := (kd_meta d)\<lparr>mh_lease_expires_at := Some (now + ttl)\<rparr>\<rparr> else d)" for ok
    by (cases ok; simp add: acts_ret; rule acts_cong, (rule acts_rules)+; simp)
  have script: "data_acts pfx key (RENEW_LEASE ?meta ?argv) (\<lambda>d. IntReply (if fenced_by ?argv (kd_meta d) then 1 else 0))
      (\<lambda>d. if fenced_by ?argv (kd_meta d) then d\<lparr>kd_meta := (kd_meta d)\<lparr>mh_lease_expires_at := Some (now + ttl)\<rparr>\<rparr> else d)"
    unfolding RENEW_LEASE_def list.case arg.case
    by (rule acts_bind [OF acts_look_at(1) [where f = "fenced_by ?argv"] go])
  have reply: "data_acts pfx key (retE (reply_number reply = 1)) (\<lambda>_. reply_number reply = 1) (\<lambda>d. d)" for reply
    by (rule acts_ret)
  show ?thesis unfolding redis_renewLease_def
    by (rule acts_cong [OF acts_bind [OF script reply]]) (simp_all add: reply_number_def)
qed

lemma acts_releaseLease:
  "data_acts pfx key (redis_releaseLease pfx key l) (\<lambda>_. ())
     (\<lambda>d. if fenced_by [GStr (l_owner l), GNum (l_epoch l)] (kd_meta d)
          then d\<lparr>kd_meta := (kd_meta d)\<lparr>mh_lease_owner := None, mh_lease_epoch := None, mh_lease_expires_at := None\<rparr>\<rparr> else d)"
proof -
  let ?meta = "redis_key pfx key SMeta" and ?argv = "[GStr (l_owner l), GNum (l_epoch l)]"
  have go: "data_acts pfx key (bindE (if ok then at_meta ?meta (\<lambda>h. ((), h\<lparr>mh_lease_owner := None, mh_lease_epoch := None, mh_lease_expires_at := None\<rparr>))
            else retE ()) (\<lambda>_. retE (IntReply 1))) (\<lambda>_. IntReply 1)
      (\<lambda>d. if ok then d\<lparr>kd_meta := (kd_meta d)\<lparr>mh_lease_owner := None, mh_lease_epoch := None, mh_lease_expires_at := None\<rparr>\<rparr> else d)" for ok
    by (cases ok; simp add: acts_ret; rule acts_cong, (rule acts_rules)+; simp)
  show ?thesis unfolding redis_releaseLease_def RELEASE_LEASE_def
    by (rule acts_cong [OF acts_then [OF acts_bind [OF acts_look_at(1) [where f = "fenced_by ?argv"] go] acts_ret]]) simp_all
qed

lemma taken_view: "data_ok d \<Longrightarrow> taken owner now (kd_meta d) \<longleftrightarrow> (\<exists>l. kv_lease (data_view d) = Some l \<and> l_expiresAt l > now \<and> l_owner l \<noteq> owner)"
  by (cases "mh_lease_owner (kd_meta d)") (auto simp: taken_def data_ok_def meta_ok_def data_view_def meta_lease_def)

lemma grant_lease [simp]:
  "meta_ok (grant owner t h)" "mh_epoch_counter (grant owner t h) = Some (opt_or (mh_epoch_counter h) 0 + 1)"
  "meta_lease (grant owner t h) = Some \<lparr>l_owner = owner, l_epoch = opt_or (mh_epoch_counter h) 0 + 1, l_expiresAt = t\<rparr>"
  by (simp_all add: grant_def meta_ok_def meta_lease_def)

lemma acts_ack: "data_acts pfx key (ack_loop (redis_key pfx key) (map GStr ids)) (\<lambda>_. ()) (fold drop_row ids)"
proof (induction ids)
  case (Cons i ids)
  show ?case by (simp, rule acts_cong, rule acts_then [OF acts_drop_outbox Cons.IH]) simp_all
qed (simp add: acts_ret id_def)

lemma implements_ack: "implements (fold drop_row ids) (\<lambda>v. v\<lparr>kv_outbox := drop_rows ids (kv_outbox v)\<rparr>)"
proof -
  have "implements (fold drop_row ids) (fold (\<lambda>i v. v\<lparr>kv_outbox := drop_rows [i] (kv_outbox v)\<rparr>) ids)"
    by (rule implements_fold) (rule implements_drop_row)
  then show ?thesis by (simp add: implements_def fold_drop)
qed

definition note_attempt :: "string \<Rightarrow> attempt_info \<Rightarrow> key_data \<Rightarrow> key_data" where
  "note_attempt i info d = (if map_of (kd_rows d) i = None then d
     else d\<lparr>kd_attempts := AList.update i (opt_or (map_of (kd_attempts d) i) 0 + 1) (kd_attempts d),
            kd_errors := AList.update i info (kd_errors d)\<rparr>)"

lemma implements_attempt:
  "implements (note_attempt eid \<lparr>ai_lastError = err, ai_nextAttemptAt = due\<rparr>)
     (\<lambda>v. v\<lparr>kv_outbox := (kv_outbox v)(eid := map_option (\<lambda>row. row\<lparr>ob_attempts := ob_attempts row + 1,
       ob_lastError := err, ob_nextAttemptAt := due\<rparr>) (kv_outbox v eid))\<rparr>)"
proof -
  have "merged (Some (opt_or a 0 + 1)) (Some \<lparr>ai_lastError = err, ai_nextAttemptAt = due\<rparr>) row
      = (merged a e row)\<lparr>ob_attempts := ob_attempts (merged a e row) + 1, ob_lastError := err, ob_nextAttemptAt := due\<rparr>" for a e row
    by (cases a; cases e; cases row) (simp_all add: merged_def)
  then show ?thesis
    by (simp add: implements_def note_attempt_def data_ok_def) (auto simp: data_view_def outbox_view_def fun_eq_iff)
qed

lemma implements_validator:
  "implements (\<lambda>d. d\<lparr>kd_validators := AList.update h v (kd_validators d)\<rparr>) (\<lambda>w. w\<lparr>kv_validators := (kv_validators w)(h \<mapsto> v)\<rparr>)"
  by (simp add: implements_def data_ok_def) (simp add: data_view_def)

definition park_event :: "parked_row \<Rightarrow> key_data \<Rightarrow> key_data" where
  "park_event row d = (case pk_event row of None \<Rightarrow> park_row row d | Some ev \<Rightarrow> drop_row (ev_id ev) (park_row row d))"

lemma implements_park_event:
  assumes "plain_parked row"
  shows "implements (park_event row) (\<lambda>v. v\<lparr>kv_parked := (kv_parked v)(pk_id row \<mapsto> row),
     kv_outbox := drop_rows (case pk_event row of None \<Rightarrow> [] | Some ev \<Rightarrow> [ev_id ev]) (kv_outbox v)\<rparr>)"
proof (cases "pk_event row")
  case None
  then show ?thesis using implements_park_row [OF assms] by (simp add: park_event_def implements_def)
next
  case (Some ev)
  show ?thesis using implements_comp [OF implements_park_row [OF assms] implements_drop_row [of "ev_id ev"]] Some
    by (simp add: park_event_def implements_def)
qed

section \<open>Retried and discarded rows\<close>

type_synonym retried = "string \<times> event \<times> number"

text \<open>The rows that the first half of \<^verbatim>\<open>retryParked\<close> selects, and what the script does with one of them.\<close>

fun selected :: "(string, parked_row) jsmap \<Rightarrow> string list \<Rightarrow> retried list" where
  "selected h [] = []"
| "selected h (i # ids) =
     (case map_of h i of
        None \<Rightarrow> selected h ids
      | Some row \<Rightarrow>
          (case (pk_kind row, pk_event row) of
             (Poison, Some ev) \<Rightarrow> (i, ev, pk_parkedAt row) # selected h ids
           | _ \<Rightarrow> selected h ids))"

definition retried_arg :: "retried \<Rightarrow> arg list" where
  "retried_arg e = (case e of (i, ev, t) \<Rightarrow> [GStr i, GStr (ev_id ev), GNum (ev_sequence ev), GRow (retried_row ev t)])"

definition unpark :: "string \<Rightarrow> key_data \<Rightarrow> key_data" where
  "unpark i d = d\<lparr>kd_parked := AList.delete i (kd_parked d), kd_hold := AList.delete i (kd_hold d)\<rparr>"

fun retry_data :: "retried list \<Rightarrow> nat \<Rightarrow> key_data \<Rightarrow> nat \<times> key_data" where
  "retry_data [] n d = (n, d)"
| "retry_data ((i, ev, t) # es) n d =
     (if map_of (kd_parked d) i = None then retry_data es n d
      else retry_data es (n + 1) (unpark i (put_row (retried_row ev t) d)))"

lemma retry_args_plain:
  assumes "\<And>i row ev. map_of h i = Some row \<Longrightarrow> pk_event row = Some ev \<Longrightarrow> plain_event ev"
  shows "retry_args h ids = Inr (length (selected h ids), concat (map retried_arg (selected h ids)))"
proof (induction ids)
  case (Cons i ids)
  have "row_text (retried_row ev t) = Inr (retried_row ev t)" if "map_of h i = Some row" "pk_event row = Some ev" for row ev t
    using assms [OF that] by (intro row_text_plain) (simp add: retried_row_def)
  then show ?case using Cons.IH
    by (auto simp: retried_arg_def split: option.splits parked_kind.splits)
qed simp

lemma acts_retry_turns:
  "data_acts pfx key (retry_turns (redis_key pfx key) (length es) n (concat (map retried_arg es)))
     (\<lambda>d. fst (retry_data es n d)) (\<lambda>d. snd (retry_data es n d))"
proof (induction es arbitrary: n)
  case (Cons e es)
  obtain i ev t where e: "e = (i, ev, t)" by (cases e)
  let ?k = "redis_key pfx key" and ?row = "retried_row ev t" and ?args = "concat (map retried_arg es)"
  let ?move = "bindE (at_rows (?k SRows) (hset (ev_id ev) ?row)) (\<lambda>_.
       bindE (at_attempts (?k SAttempts) (hdel (ev_id ev))) (\<lambda>_.
       bindE (at_errors (?k SErrors) (hdel (ev_id ev))) (\<lambda>_.
       bindE (at_outbox (?k SOutbox) (hset (ev_id ev) (ev_sequence ev))) (\<lambda>_.
       bindE (at_parked (?k SParked) (hdel i)) (\<lambda>_.
       bindE (at_hold (?k SHold) (hdel i)) (\<lambda>_. retry_turns ?k (length es) (n + 1) ?args))))))"
  have move: "data_acts pfx key ?move (\<lambda>d. fst (retry_data es (n + 1) (unpark i (put_row ?row d))))
      (\<lambda>d. snd (retry_data es (n + 1) (unpark i (put_row ?row d))))"
    by (rule acts_cong, (rule acts_then acts_at)+, rule Cons.IH)
      (simp_all add: hset_def hdel_def unpark_def put_row_def retried_row_def)
  have branch: "data_acts pfx key (if there then ?move else retry_turns ?k (length es) n ?args)
      (\<lambda>d. fst (if there then retry_data es (n + 1) (unpark i (put_row ?row d)) else retry_data es n d))
      (\<lambda>d. snd (if there then retry_data es (n + 1) (unpark i (put_row ?row d)) else retry_data es n d))" for there
    using move Cons.IH by (cases there) (simp_all only: if_True if_False)
  have "retry_turns ?k (length (e # es)) n (concat (map retried_arg (e # es)))
      = bindE (getsE (\<lambda>r. map_of (r_parked r (?k SParked)) i \<noteq> None)) (\<lambda>there. if there then ?move else retry_turns ?k (length es) n ?args)"
    by (simp add: e retried_arg_def)
  then show ?case
    by (simp only:) (rule acts_cong [OF acts_bind [OF acts_look_at(3) [where h = "\<lambda>h. map_of h i \<noteq> None"] branch]], simp_all add: e)
qed (simp add: acts_ret)

lemma unpark_view: "data_view (unpark i d) = (data_view d)\<lparr>kv_parked := (kv_parked (data_view d))(i := None)\<rparr>"
  by (simp add: unpark_def data_view_def)

lemma unpark_ok: "data_ok d \<Longrightarrow> data_ok (unpark i d)"
  by (auto simp: unpark_def data_ok_def hold_ok_def keyed_delete distinct_keys_delete)

text \<open>Parked rows only disappear between the two halves, so what was read is what is there or nothing.\<close>

lemma retry_data_view:
  assumes "data_ok d" "\<And>i. map_of (kd_parked d) i = None \<or> map_of (kd_parked d) i = map_of h i"
  shows "data_ok (snd (retry_data (selected h ids) n d))
    \<and> retry_view ids n (data_view d) = (fst (retry_data (selected h ids) n d), data_view (snd (retry_data (selected h ids) n d)))"
  using assms
proof (induction ids arbitrary: n d)
  case (Cons i ids)
  have pk: "kv_parked (data_view d) i = map_of (kd_parked d) i" by (simp add: data_view_def)
  show ?case
  proof (cases "map_of (kd_parked d) i")
    case None
    then show ?thesis using Cons.IH [OF Cons.prems] pk by (auto split: option.splits parked_kind.splits)
  next
    case (Some row)
    then have h: "map_of h i = Some row" using Cons.prems(2) [of i] by auto
    show ?thesis
    proof (cases "pk_kind row = Poison \<and> pk_event row \<noteq> None")
      case True
      then obtain ev where ev: "pk_event row = Some ev" by blast
      let ?d = "unpark i (put_row (retried_row ev (pk_parkedAt row)) d)"
      have ok: "data_ok ?d" using Cons.prems(1) by (intro unpark_ok put_row_ok)
      have sub: "map_of (kd_parked ?d) j = None \<or> map_of (kd_parked ?d) j = map_of h j" for j
        using Cons.prems(2) [of j] by (simp add: unpark_def put_row_def)
      have eid: "ob_eventId (retried_row ev t) = ev_id ev" for t by (simp add: retried_row_def)
      have sel: "selected h (i # ids) = (i, ev, pk_parkedAt row) # selected h ids" using h True ev by simp
      have view: "retry_view (i # ids) n (data_view d) = retry_view ids (n + 1) (data_view ?d)"
        using True ev Some pk by (simp add: unpark_view put_row_view eid del: fun_upd_apply)
      have data: "retry_data (selected h (i # ids)) n d = retry_data (selected h ids) (n + 1) ?d" using Some by (simp add: sel del: selected.simps)
      show ?thesis unfolding view data by (rule Cons.IH [OF ok sub])
    next
      case False
      then have "selected h (i # ids) = selected h ids" "retry_view (i # ids) n (data_view d) = retry_view ids n (data_view d)"
        using h Some pk by (auto split: option.splits parked_kind.splits)
      then show ?thesis using Cons.IH [OF Cons.prems] by (simp del: selected.simps)
    qed
  qed
qed simp

fun discard_data :: "string list \<Rightarrow> nat \<Rightarrow> key_data \<Rightarrow> nat \<times> key_data" where
  "discard_data [] n d = (n, d)"
| "discard_data (i # ids) n d = discard_data ids (n + (if map_of (kd_parked d) i = None then 0 else 1)) (unpark i d)"

lemma acts_discard_turns:
  "data_acts pfx key (discard_turns (redis_key pfx key) n (map GStr ids)) (\<lambda>d. fst (discard_data ids n d)) (\<lambda>d. snd (discard_data ids n d))"
proof (induction ids arbitrary: n)
  case (Cons i ids)
  let ?k = "redis_key pfx key"
  have rest: "data_acts pfx key (bindE (at_hold (?k SHold) (hdel i)) (\<lambda>_. discard_turns ?k (n + m) (map GStr ids)))
      (\<lambda>d. fst (discard_data ids (n + m) (d\<lparr>kd_hold := AList.delete i (kd_hold d)\<rparr>)))
      (\<lambda>d. snd (discard_data ids (n + m) (d\<lparr>kd_hold := AList.delete i (kd_hold d)\<rparr>)))" for m
    by (rule acts_cong [OF acts_then [OF acts_at(9) Cons.IH]]) (simp_all add: hdel_def)
  show ?case
    unfolding list.map discard_turns.simps
    by (rule acts_cong [OF acts_bind [OF acts_at(8) rest]]) (simp_all add: hdel_def unpark_def)
qed (simp add: acts_ret)

lemma discard_data_view:
  "data_ok d \<Longrightarrow> data_ok (snd (discard_data ids n d)) \<and> fst (discard_data ids n d) = n + card (set ids \<inter> dom (kv_parked (data_view d)))
     \<and> data_view (snd (discard_data ids n d)) = (data_view d)\<lparr>kv_parked := drop_rows ids (kv_parked (data_view d))\<rparr>"
proof (induction ids arbitrary: n d)
  case (Cons i ids)
  have pk: "kv_parked (data_view d) = map_of (kd_parked d)" by (simp add: data_view_def)
  have "drop_rows ids ((kv_parked (data_view d))(i := None)) = drop_rows (i # ids) (kv_parked (data_view d))"
    by (simp add: drop_rows_at fun_eq_iff)
  then show ?case
    using Cons.IH [OF unpark_ok [OF Cons.prems], of "n + (if map_of (kd_parked d) i = None then 0 else 1)" i]
      count_deletes [of "kv_parked (data_view d)" i ids]
    by (simp add: unpark_view pk finite_dom_map_of del: fun_upd_apply)
qed simp

section \<open>Pruning the log\<close>

lemma stale_pages_eq: "stale_pages z t offset stale = stale @ filter (\<lambda>e. le_createdAt e < t) (map fst (drop offset z))"
proof (induction z t offset stale rule: stale_pages.induct)
  case (1 z t offset stale)
  let ?page = "map fst (take LOG_PAGE (drop offset z))"
  have page: "zrange None offset LOG_PAGE z = ?page" by (simp add: zrange_def)
  have rest: "?page @ map fst (drop (offset + LOG_PAGE) z) = map fst (drop offset z)"
    unfolding map_append [symmetric] by (simp add: add.commute [of offset] flip: drop_drop)
  show ?case
  proof (cases "length ?page < LOG_PAGE")
    case True
    then have "take LOG_PAGE (drop offset z) = drop offset z" by simp
    with True show ?thesis by (subst stale_pages.simps) (simp add: Let_def page del: length_map length_take)
  next
    case False
    then have "stale_pages z t offset stale = (stale @ filter (\<lambda>e. le_createdAt e < t) ?page) @
        filter (\<lambda>e. le_createdAt e < t) (map fst (drop (offset + LOG_PAGE) z))"
      using "1.IH" [OF refl refl] by (subst stale_pages.simps) (simp add: Let_def page)
    also have "\<dots> = stale @ filter (\<lambda>e. le_createdAt e < t) (map fst (drop offset z))"
      unfolding rest [symmetric] by (simp only: filter_append append_assoc)
    finally show ?thesis .
  qed
qed

lemma zrem_all_fst: "fst (zrem_all xs n z) = n + fst (zrem_all xs 0 z)" "snd (zrem_all xs n z) = snd (zrem_all xs 0 z)"
proof -
  have "zrem_all xs n z = (n + fst (zrem_all xs 0 z), snd (zrem_all xs 0 z))"
  proof (induction xs arbitrary: n z)
    case (Cons x xs)
    show ?case unfolding zrem_all.simps hdel_def prod.case
      by (subst (1 2 3) Cons.IH) simp
  qed simp
  then show "fst (zrem_all xs n z) = n + fst (zrem_all xs 0 z)" "snd (zrem_all xs n z) = snd (zrem_all xs 0 z)"
    by (metis fst_conv, metis snd_conv)
qed

lemma zrem_all_append:
  "fst (zrem_all (xs @ ys) 0 z) = fst (zrem_all xs 0 z) + fst (zrem_all ys 0 (snd (zrem_all xs 0 z)))"
  "snd (zrem_all (xs @ ys) 0 z) = snd (zrem_all ys 0 (snd (zrem_all xs 0 z)))"
proof -
  have "zrem_all (xs @ ys) n z = zrem_all ys (fst (zrem_all xs n z)) (snd (zrem_all xs n z))" for n
    by (induction xs arbitrary: n z) (simp_all add: split_beta)
  from this [of 0] show "fst (zrem_all (xs @ ys) 0 z) = fst (zrem_all xs 0 z) + fst (zrem_all ys 0 (snd (zrem_all xs 0 z)))"
    "snd (zrem_all (xs @ ys) 0 z) = snd (zrem_all ys 0 (snd (zrem_all xs 0 z)))"
    using zrem_all_fst [of ys "fst (zrem_all xs 0 z)" "snd (zrem_all xs 0 z)"] by simp_all
qed

lemma acts_prune_batches:
  "data_acts pfx key (prune_batches (redis_key pfx key SLog) bs n) (\<lambda>d. n + fst (zrem_all (concat bs) 0 (kd_log d)))
     (\<lambda>d. d\<lparr>kd_log := snd (zrem_all (concat bs) 0 (kd_log d))\<rparr>)"
proof (induction bs arbitrary: n)
  case (Cons b bs)
  show ?case
    unfolding prune_batches.simps
    by (rule acts_cong [OF acts_bind [OF acts_at(11) Cons.IH]]) (simp_all add: zrem_all_append)
qed (simp add: acts_ret)

lemma zrem_all_snd: "snd (zrem_all xs 0 z) = filter (\<lambda>p. fst p \<notin> set xs) z"
proof (induction xs arbitrary: z)
  case (Cons x xs)
  have "snd (zrem_all (x # xs) 0 z) = snd (zrem_all xs 0 (AList.delete x z))"
    unfolding zrem_all.simps hdel_def prod.case by (rule zrem_all_fst(2))
  also have "\<dots> = filter (\<lambda>p. fst p \<notin> set xs) (filter (\<lambda>p. x \<noteq> fst p) z)"
    by (simp add: Cons.IH AList.delete_eq split_beta)
  also have "\<dots> = filter (\<lambda>p. fst p \<notin> set (x # xs)) z"
    unfolding filter_filter by (rule filter_cong) auto
  finally show ?case .
qed simp

lemma zrem_all_count: "\<lbrakk> distinct xs; set xs \<subseteq> fst ` set z \<rbrakk> \<Longrightarrow> fst (zrem_all xs 0 z) = length xs"
proof (induction xs arbitrary: z)
  case (Cons x xs)
  have "map_of z x \<noteq> None" using Cons.prems(2) by (simp add: map_of_eq_None_iff)
  then have "fst (zrem_all (x # xs) 0 z) = 1 + fst (zrem_all xs 0 (AList.delete x z))"
    unfolding zrem_all.simps hdel_def prod.case using zrem_all_fst(1) [of xs 1 "AList.delete x z"] by simp
  moreover have "set xs \<subseteq> fst ` set (AList.delete x z)" using Cons.prems by (auto simp: keys_AList_delete)
  ultimately show ?case using Cons by simp
qed simp

lemma prune_data:
  assumes "log_ok z" "xs = filter (\<lambda>e. le_createdAt e < t) (map fst (entries_in_order z))"
  shows "fst (zrem_all xs 0 z) = card {s. \<exists>e. log_map (map fst z) s = Some e \<and> le_createdAt e < t}"
    "log_map (map fst (snd (zrem_all xs 0 z))) =
      (\<lambda>s. case log_map (map fst z) s of None \<Rightarrow> None | Some e \<Rightarrow> if le_createdAt e < t then None else Some e)"
    "log_ok (snd (zrem_all xs 0 z))"
proof -
  let ?es = "map fst z" and ?r = "(fresh_record undefined)\<lparr>kr_log := map fst z\<rparr>"
  have d: "distinct ?es" using assms(1) unfolding log_ok_def distinct_map [of le_sequence ?es] by blast
  have tables: "rec_tables ?r" using assms(1) by (simp add: rec_tables_def log_ok_def fresh_record_def)
  have ms: "mset (map fst (entries_in_order z)) = mset ?es" by (simp add: entries_in_order_def)
  have "distinct xs" using d ms unfolding assms(2) by (metis distinct_filter mset_eq_imp_distinct_iff)
  moreover have set: "set xs = {e \<in> set ?es. le_createdAt e < t}" unfolding assms(2) using mset_eq_setD [OF ms] by auto
  then have "set xs \<subseteq> fst ` set z" by auto
  ultimately have "fst (zrem_all xs 0 z) = length xs" by (rule zrem_all_count)
  also have "\<dots> = length (filter (\<lambda>e. le_createdAt e < t) ?es)"
    unfolding assms(2) using ms by (metis mset_filter size_mset)
  also have "\<dots> = length ?es - length (filter (\<lambda>e. t \<le> le_createdAt e) ?es)"
    using sum_length_filter_compl [of "\<lambda>e. le_createdAt e < t" ?es] by (simp add: not_less)
  finally show "fst (zrem_all xs 0 z) = card {s. \<exists>e. log_map ?es s = Some e \<and> le_createdAt e < t}"
    using mem_prune(1) [OF tables, of t] by simp
  have keep: "map fst (snd (zrem_all xs 0 z)) = filter (\<lambda>e. t \<le> le_createdAt e) ?es"
    unfolding zrem_all_snd filter_map by (rule arg_cong [where f = "map fst"], rule filter_cong) (auto simp: set not_less)
  then show "log_map (map fst (snd (zrem_all xs 0 z))) =
      (\<lambda>s. case log_map ?es s of None \<Rightarrow> None | Some e \<Rightarrow> if le_createdAt e < t then None else Some e)"
    using mem_prune(2) [OF tables, of t] by simp
  show "log_ok (snd (zrem_all xs 0 z))"
    using assms(1) unfolding log_ok_def zrem_all_snd by (auto simp: distinct_map_filter comp_def)
qed

section \<open>Every command does what the contract says\<close>

lemma acts_clear_all: "data_acts pfx key (redis_deleteKey pfx key) (\<lambda>_. ()) (\<lambda>_. no_data)"
  unfolding redis_deleteKey_def Let_def
  by (rule acts_cong, (rule acts_rules)+) (simp_all add: remove_structure_def no_data_def)

lemma redis_leases:
  assumes "redis_ok pfx r" "c = Acquire k owner ttl now \<or> c = Renew k l ttl now \<or> c = Release k l"
  shows "obeys (redis_ok pfx) (redis_view pfx) c (redis_step pfx c) r"
  using assms(2)
proof (elim disjE)
  assume c: "c = Acquire k owner ttl now"
  have "obeys (redis_ok pfx) (redis_view pfx) c (replies RLease (redis_acquireLease pfx k owner ttl now)) r"
    by (rule obeys_acts_data [of _ c, unfolded c cmd_key.simps, OF acts_acquire_script assms(1), folded c])
      (auto simp: c taken_view Let_def data_ok_def, simp_all add: data_view_def)
  then show ?thesis by (simp add: c)
next
  assume c: "c = Renew k l ttl now"
  have "data_ok (if token_match (kv_lease (data_view d)) l then d\<lparr>kd_meta := (kd_meta d)\<lparr>mh_lease_expires_at := Some (now + ttl)\<rparr>\<rparr> else d)
      \<and> spec (Renew k l ttl now) (data_view d) = (Inr (RBool (token_match (kv_lease (data_view d)) l)),
          data_view (if token_match (kv_lease (data_view d)) l then d\<lparr>kd_meta := (kd_meta d)\<lparr>mh_lease_expires_at := Some (now + ttl)\<rparr>\<rparr> else d))"
    if "data_ok d" for d
    using that by (cases "mh_lease_owner (kd_meta d)")
      (auto simp: data_ok_def meta_ok_def meta_lease_def, simp_all add: data_view_def meta_lease_def)
  then have "obeys (redis_ok pfx) (redis_view pfx) (Renew k l ttl now) (replies RBool (redis_renewLease pfx k l ttl now)) r"
    by (intro obeys_acts_data [of _ "Renew k l ttl now", unfolded cmd_key.simps, OF acts_renewLease assms(1)])
      (simp only: fenced_by_match [of _ _ "[]"])
  then show ?thesis by (simp add: c)
next
  assume c: "c = Release k l"
  have "data_ok (if token_match (kv_lease (data_view d)) l
          then d\<lparr>kd_meta := (kd_meta d)\<lparr>mh_lease_owner := None, mh_lease_epoch := None, mh_lease_expires_at := None\<rparr>\<rparr> else d)
      \<and> spec (Release k l) (data_view d) = (Inr RUnit, data_view (if token_match (kv_lease (data_view d)) l
          then d\<lparr>kd_meta := (kd_meta d)\<lparr>mh_lease_owner := None, mh_lease_epoch := None, mh_lease_expires_at := None\<rparr>\<rparr> else d))"
    if "data_ok d" for d
    using that by (auto simp: data_ok_def meta_ok_def meta_lease_def) (simp_all add: data_view_def)
  then have "obeys (redis_ok pfx) (redis_view pfx) (Release k l) (replies (\<lambda>_. RUnit) (redis_releaseLease pfx k l)) r"
    by (intro obeys_acts_data [of _ "Release k l", unfolded cmd_key.simps, OF acts_releaseLease assms(1)])
      (simp only: fenced_by_match [of _ _ "[]"])
  then show ?thesis by (simp add: c)
qed

lemma redis_retry:
  assumes "redis_ok pfx r"
  shows "obeys (redis_ok pfx) (redis_view pfx) (Retry k ids) (replies RCount (redis_retryParked pfx k ids)) r"
proof -
  let ?d = "data_of pfx r k"
  let ?es = "selected (kd_parked ?d) ids"
  have ok: "data_ok ?d" using assms by (simp add: redis_ok_def)
  have args: "retry_args (kd_parked ?d) ids = Inr (length ?es, concat (map retried_arg ?es))"
    by (rule retry_args_plain) (use ok in \<open>auto simp: data_ok_def hold_ok_def\<close>)
  obtain r' where r': "retry_turns (redis_key pfx k) (length ?es) 0 (concat (map retried_arg ?es)) r = (Inr (fst (retry_data ?es 0 ?d)), r')"
    "data_of pfx r' = (data_of pfx r)(k := snd (retry_data ?es 0 ?d))"
    using acts_retry_turns [of pfx k ?es 0] unfolding acts_def by blast
  note view = retry_data_view [OF ok, of "kd_parked ?d" ids 0]
  have parked: "r_parked r (redis_key pfx k SParked) = kd_parked ?d" by (simp add: data_of_def)
  have "\<exists>r'. redis_retryParked pfx k ids r = (Inr (fst (retry_data ?es 0 ?d)), r') \<and> data_of pfx r' = (data_of pfx r)(k := snd (retry_data ?es 0 ?d))"
  proof (cases "?es = []")
    case True
    then show ?thesis by (intro exI [of _ r]) (simp add: redis_retryParked_def bindE_def getsE_def retE_def resultE_def parked args)
  next
    case False
    then have "ids \<noteq> []" by auto
    with False r' show ?thesis
      by (intro exI [of _ r']) (simp add: redis_retryParked_def RETRY_PARKED_def bindE_def getsE_def retE_def resultE_def parked args reply_number_def)
  qed
  then obtain r'' where r'': "redis_retryParked pfx k ids r = (Inr (fst (retry_data ?es 0 ?d)), r'')"
      "data_of pfx r'' = (data_of pfx r)(k := snd (retry_data ?es 0 ?d))" by blast
  show ?thesis
    by (rule obeys_data [where c = "Retry k ids" and m = "redis_retryParked pfx k ids" and d' = "snd (retry_data ?es 0 ?d)",
        unfolded cmd_key.simps, OF r'' assms]) (use view in simp_all)
qed

lemma redis_prune:
  assumes "redis_ok pfx r"
  shows "obeys (redis_ok pfx) (redis_view pfx) (Prune k t) (replies RCount (redis_pruneLog pfx k t)) r"
proof -
  let ?d = "data_of pfx r k" and ?name = "redis_key pfx k SLog"
  let ?xs = "filter (\<lambda>e. le_createdAt e < t) (map fst (entries_in_order (kd_log ?d)))"
  have ok: "data_ok ?d" using assms by (simp add: redis_ok_def)
  have log: "r_log r ?name = kd_log ?d" by (simp add: data_of_def)
  have cc: "concat (batches ZREM_BATCH ?xs) = ?xs" by (rule concat_batches) (simp add: ZREM_BATCH_def)
  obtain r' where r': "prune_batches ?name (batches ZREM_BATCH ?xs) 0 r = (Inr (fst (zrem_all ?xs 0 (kd_log ?d))), r')"
    "data_of pfx r' = (data_of pfx r)(k := ?d\<lparr>kd_log := snd (zrem_all ?xs 0 (kd_log ?d))\<rparr>)"
    using acts_prune_batches [of pfx k "batches ZREM_BATCH ?xs" 0] unfolding acts_def cc by auto
  have run: "redis_pruneLog pfx k t r = (Inr (fst (zrem_all ?xs 0 (kd_log ?d))), r')"
    using r'(1) by (simp add: redis_pruneLog_def bindE_def getsE_def Let_def stale_pages_eq log)
  have "log_ok (kd_log ?d)" using ok by (simp add: data_ok_def)
  note prune = prune_data [OF this refl, of t]
  have "data_ok (?d\<lparr>kd_log := snd (zrem_all ?xs 0 (kd_log ?d))\<rparr>)" using ok prune(3) by (simp add: data_ok_def)
  moreover have "spec (Prune k t) (data_view ?d) = (Inr (RCount (fst (zrem_all ?xs 0 (kd_log ?d)))), data_view (?d\<lparr>kd_log := snd (zrem_all ?xs 0 (kd_log ?d))\<rparr>))"
    using prune(1,2) by (simp add: data_view_def)
  ultimately show ?thesis 
    by (intro obeys_data [where c = "Prune k t" and m = "redis_pruneLog pfx k t", unfolded cmd_key.simps, OF run r'(2) assms])
qed

lemma redis_contract:
  assumes ok: "redis_ok pfx r" and adm: "admissible c (redis_view pfx r (cmd_key c))"
  shows "obeys (redis_ok pfx) (redis_view pfx) c (redis_step pfx c) r"
proof (cases c)
  case (Save k l p)
  have "data_acts pfx k (case GStr (key_id k) # patchArgs p of GStr mbr # rest \<Rightarrow>
      bindE (apply_state (redis_key pfx k SState) rest) (\<lambda>_. sadd (keysSet pfx) mbr) | _ \<Rightarrow> throwE script_error) (\<lambda>_. ()) (put_state p)"
    unfolding list.case arg.case
    by (rule acts_cong [OF acts_then [OF acts_apply_state [of pfx k p "[]", simplified] acts_sets(1)]]) simp_all
  from obeys_fenced_impl [where body = "\<lambda>argv. case argv of GStr mbr # rest \<Rightarrow>
      bindE (apply_state (redis_key pfx k SState) rest) (\<lambda>_. sadd (keysSet pfx) mbr) | _ \<Rightarrow> throwE script_error",
      OF implements_put_state _ _ ok this, of c l]
  show ?thesis by (simp add: Save redis_saveState_def SAVE_STATE_def)
next
  case (SaveUnfenced k p)
  have acts: "data_acts pfx k (redis_saveStateUnfenced pfx k p) (\<lambda>_. ()) (put_state p)"
    unfolding redis_saveStateUnfenced_def SAVE_STATE_UNFENCED_def list.case arg.case
    by (rule acts_cong [OF acts_then [OF acts_then [OF acts_apply_state [of pfx k p "[]", simplified] acts_then [OF acts_sets(1) acts_ret]] acts_ret]])
      simp_all
  have "obeys (redis_ok pfx) (redis_view pfx) (SaveUnfenced k p) (replies (\<lambda>_. RUnit) (redis_saveStateUnfenced pfx k p)) r"
    by (rule obeys_acts_data [of _ "SaveUnfenced k p", unfolded cmd_key.simps, OF acts ok])
      (use implements_put_state [of p] in \<open>simp add: implements_def\<close>)
  then show ?thesis by (simp add: SaveUnfenced)
next
  case (DeleteKey k)
  have "obeys (redis_ok pfx) (redis_view pfx) (DeleteKey k) (replies (\<lambda>_. RUnit) (redis_deleteKey pfx k)) r"
    by (rule obeys_acts_data [of _ "DeleteKey k", unfolded cmd_key.simps, OF acts_clear_all ok]) simp
  then show ?thesis by (simp add: DeleteKey)
next
  case (Clear k)
  have acts: "data_acts pfx k (redis_clearItems pfx k) (\<lambda>_. ()) (\<lambda>d. d\<lparr>kd_items := []\<rparr>)"
    unfolding redis_clearItems_def by (rule acts_cong [OF acts_at(3)]) (simp_all add: remove_structure_def)
  have "obeys (redis_ok pfx) (redis_view pfx) (Clear k) (replies (\<lambda>_. RUnit) (redis_clearItems pfx k)) r"
    by (rule obeys_acts_data [of _ "Clear k", unfolded cmd_key.simps, OF acts ok]) (simp add: data_ok_def)
  then show ?thesis by (simp add: Clear)
next
  case (Commit k l b)
  let ?d = "data_of pfx r k"
  have adm': "admissible (Commit k l b) (data_view ?d)" using adm by (simp add: Commit redis_view_def)
  obtain args where args: "commit_args k b = Inr args" using commit_args_plain [OF adm'] by blast
  have "data_ok ?d" using ok by (simp add: redis_ok_def)
  note impl = commit_implements [OF this adm']
  from obeys_fenced [where body = "commit_body (redis_key pfx k) (keysSet pfx)" and c = c and h = "commit_view b" and l = l,
      OF _ _ ok acts_commit_script [OF args adm'] impl]
  show ?thesis by (simp add: Commit redis_commitPoll_def COMMIT_POLL_def args)
next
  case (Ack k l ids)
  from obeys_fenced_impl [where body = "ack_loop (redis_key pfx k)" and c = c and l = l, OF implements_ack _ _ ok acts_ack [of pfx k ids]]
  show ?thesis by (simp add: Ack redis_ackEvents_def ACK_EVENTS_def)
next
  case (Attempt k l eid err due)
  let ?info = "\<lparr>ai_lastError = err, ai_nextAttemptAt = due\<rparr>"
  let ?body = "\<lambda>argv. case argv of [GStr i, GInfo info] \<Rightarrow>
      bindE (getsE (\<lambda>r. map_of (r_rows r (redis_key pfx k SRows)) i \<noteq> None)) (\<lambda>there.
      if there then bindE (at_attempts (redis_key pfx k SAttempts) (hincrby i 1)) (\<lambda>_. at_errors (redis_key pfx k SErrors) (hset i info))
      else retE ()) | _ \<Rightarrow> throwE script_error"
  have go: "data_acts pfx k (if there then bindE (at_attempts (redis_key pfx k SAttempts) (hincrby eid 1)) (\<lambda>_. at_errors (redis_key pfx k SErrors) (hset eid ?info))
      else retE ()) (\<lambda>_. ()) (\<lambda>d. if there then d\<lparr>kd_attempts := AList.update eid (opt_or (map_of (kd_attempts d) eid) 0 + 1) (kd_attempts d),
        kd_errors := AList.update eid ?info (kd_errors d)\<rparr> else d)" for there
    by (cases there; simp add: acts_ret; rule acts_cong, (rule acts_rules)+; simp add: hincrby_def hset_def)
  have "data_acts pfx k (?body [GStr eid, GInfo ?info]) (\<lambda>_. ()) (note_attempt eid ?info)"
    unfolding list.case arg.case
    by (rule acts_cong [OF acts_bind [OF acts_look_at(2) [where g = "\<lambda>h. map_of h eid \<noteq> None"] go]]) (simp_all add: note_attempt_def)
  from obeys_fenced_impl [where body = ?body and c = c and l = l, OF implements_attempt _ _ ok this]
  show ?thesis by (simp add: Attempt redis_recordAttempt_def RECORD_ATTEMPT_def)
next
  case (ParkRow k l row)
  have plain: "plain_parked row" using adm ParkRow by simp
  let ?args = "[GStr (key_id k), GStr (pk_id row), GParked row] @ hold_args row
      @ [GStr (if pk_event row = None then ''0'' else ''1''), GStr (case pk_event row of None \<Rightarrow> '''' | Some ev \<Rightarrow> ev_id ev)]"
  let ?body = "\<lambda>argv. case argv of
         [GStr mbr, GStr i, GParked row, GStr hasHold, GStr hold_key, GStr hasEvent, GStr eid] \<Rightarrow>
           bindE (put_parked (redis_key pfx k SParked) (redis_key pfx k SHold) i row hasHold hold_key) (\<lambda>_.
           bindE (if hasEvent = ''1'' then drop_outbox (redis_key pfx k SOutbox) (redis_key pfx k SRows) (redis_key pfx k SAttempts) (redis_key pfx k SErrors) eid else retE ()) (\<lambda>_.
           sadd (keysSet pfx) mbr))
       | _ \<Rightarrow> throwE script_error"
  have go: "data_acts pfx k (bindE (if hasEvent = ''1'' then drop_outbox (redis_key pfx k SOutbox) (redis_key pfx k SRows) (redis_key pfx k SAttempts) (redis_key pfx k SErrors) eid else retE ()) (\<lambda>_.
      sadd (keysSet pfx) (key_id k))) (\<lambda>_. ()) (\<lambda>d. if hasEvent = ''1'' then drop_row eid d else d)" for hasEvent eid
    by (cases "hasEvent = ''1''"; simp; rule acts_cong, (rule acts_then acts_drop_outbox acts_sets acts_ret)+; simp)
  have "data_acts pfx k (?body ?args) (\<lambda>_. ()) (park_event row)"
    unfolding hold_args_def append.simps list.case arg.case
    by (rule acts_cong [OF acts_then [OF acts_put_parked go]]) (simp_all add: park_event_def split: option.splits)
  from obeys_fenced_impl [where body = ?body and c = c and l = l, OF implements_park_event [OF plain] _ _ ok this]
  show ?thesis by (simp add: ParkRow redis_parkEvent_def PARK_EVENT_def parked_text_plain plain)
next
  case (Retry k ids)
  then show ?thesis using redis_retry [OF ok] by simp
next
  case (Discard k ids)
  have "obeys (redis_ok pfx) (redis_view pfx) (Discard k ids) (replies RCount (redis_discardParked pfx k ids)) r"
  proof (cases "ids = []")
    case True
    then show ?thesis
      by (intro obeys_acts_data [of _ "Discard k ids", unfolded cmd_key.simps, where f = "\<lambda>_. 0" and g = "\<lambda>d. d"] ok)
        (simp_all add: redis_discardParked_def acts_ret)
  next
    case False
    have reply: "data_acts pfx k (retE (reply_number (IntReply n))) (\<lambda>_. n) (\<lambda>d. d)" for n
      by (simp add: reply_number_def acts_ret)
    have acts: "data_acts pfx k (redis_discardParked pfx k ids) (\<lambda>d. fst (discard_data ids 0 d)) (\<lambda>d. snd (discard_data ids 0 d))"
      unfolding redis_discardParked_def if_not_P [OF False] DISCARD_PARKED_def bindE_assoc bindE_retE
      by (rule acts_bind [OF acts_discard_turns reply])
    show ?thesis
      by (rule obeys_acts_data [of _ "Discard k ids", unfolded cmd_key.simps, OF acts ok]) (simp add: discard_data_view)
  qed
  then show ?thesis by (simp add: Discard)
next
  case (SetVal k l h v)
  let ?body = "\<lambda>argv. case argv of [GStr mbr, GStr h, GValidator v] \<Rightarrow>
      bindE (at_validators (redis_key pfx k SValidators) (hset h v)) (\<lambda>_. sadd (keysSet pfx) mbr) | _ \<Rightarrow> throwE script_error"
  have "data_acts pfx k (?body [GStr (key_id k), GStr h, GValidator v]) (\<lambda>_. ()) (\<lambda>d. d\<lparr>kd_validators := AList.update h v (kd_validators d)\<rparr>)"
    unfolding list.case arg.case by (rule acts_cong [OF acts_then [OF acts_at(10) acts_sets(1)]]) (simp_all add: hset_def)
  from obeys_fenced_impl [where body = ?body and c = c and l = l, OF implements_validator _ _ ok this]
  show ?thesis by (simp add: SetVal redis_setValidator_def SET_VALIDATOR_def)
next
  case (Prune k t)
  then show ?thesis using redis_prune [OF ok] by simp
qed (rule redis_leases [OF ok], blast)+

section \<open>Every query answers what the contract says\<close>

lemma scan_page_eq:
  "length out < limit \<Longrightarrow> scan_page limit rg es out
     = (limit \<le> length (out @ filter (in_time rg) es), take limit (out @ filter (in_time rg) es))"
proof (induction es arbitrary: out)
  case (Cons e es)
  show ?case
  proof (cases "in_time rg e \<and> \<not> length (out @ [e]) \<ge> limit")
    case True
    then show ?thesis using Cons.IH [of "out @ [e]"] by simp
  next
    case False
    show ?thesis
    proof (cases "in_time rg e")
      case True
      with False Cons.prems have "limit = Suc (length out)" by simp
      with True show ?thesis by simp
    next
      case False
      then show ?thesis using Cons.IH [OF Cons.prems] by simp
    qed
  qed
qed simp

definition after :: "log_range \<Rightarrow> nat \<Rightarrow> bool" where
  "after rg s \<longleftrightarrow> (case lr_afterSequence rg of None \<Rightarrow> True | Some a \<Rightarrow> a < s)"

lemma log_pages_eq:
  "length out < limit \<Longrightarrow> log_pages z rg limit offset out =
     take limit (out @ filter (in_time rg) (map fst (drop offset (filter (\<lambda>(m, s). after rg s) z))))"
proof (induction z rg limit offset out rule: log_pages.induct)
  case (1 z rg limit offset out)
  let ?page = "max limit LOG_PAGE" and ?all = "filter (\<lambda>(m, s). after rg s) z"
  let ?members = "map fst (take ?page (drop offset ?all))"
  have page: "zrange (lr_afterSequence rg) offset ?page z = ?members" by (simp add: zrange_def after_def)
  have rest: "?members @ map fst (drop (offset + ?page) ?all) = map fst (drop offset ?all)"
    unfolding map_append [symmetric] by (simp add: add.commute [of offset] flip: drop_drop)
  note scan = scan_page_eq [OF "1.prems", of rg ?members]
  consider "limit \<le> length (out @ filter (in_time rg) ?members)" | "\<not> limit \<le> length (out @ filter (in_time rg) ?members)" "length ?members < ?page"
    | "\<not> limit \<le> length (out @ filter (in_time rg) ?members)" "\<not> length ?members < ?page" by blast
  then show ?case
  proof cases
    case 1
    have "log_pages z rg limit offset out = take limit (out @ filter (in_time rg) ?members)"
      using 1 scan by (subst log_pages.simps) (simp add: Let_def page)
    also have "\<dots> = take limit (out @ filter (in_time rg) (map fst (drop offset ?all)))"
      unfolding rest [symmetric] filter_append append_assoc [symmetric] by (subst (2) take_append) (use 1 in simp)
    finally show ?thesis .
  next
    case 2
    then have "take ?page (drop offset ?all) = drop offset ?all" by simp
    then show ?thesis using 2 scan by (subst log_pages.simps) (simp add: Let_def page del: length_map length_take)
  next
    case 3
    let ?out = "out @ filter (in_time rg) ?members"
    have len: "length ?out < limit" using 3 by simp
    have "log_pages z rg limit offset out = log_pages z rg limit (offset + ?page) ?out"
      using 3 scan by (subst log_pages.simps) (simp add: Let_def page del: length_map length_take)
    also have "\<dots> = take limit (?out @ filter (in_time rg) (map fst (drop (offset + ?page) ?all)))"
    proof (rule "1.IH" [OF refl refl _ _ _ len])
      show "(False, ?out) = scan_page limit rg (zrange (lr_afterSequence rg) offset ?page z) out" unfolding page scan using 3 len by simp
      show "\<not> length (zrange (lr_afterSequence rg) offset ?page z) < ?page" unfolding page by (rule 3(2))
    qed simp
    also have "\<dots> = take limit (out @ filter (in_time rg) (map fst (drop offset ?all)))"
      unfolding rest [symmetric] by (simp only: filter_append append_assoc)
    finally show ?thesis .
  qed
qed

lemma log_listing_redis:
  assumes "log_ok z" "0 < n"
  shows "listing le_sequence {e \<in> ran (log_map (map fst z)). in_range rg e} (Some n) (log_pages (entries_in_order z) rg n 0 [])"
proof -
  let ?zs = "entries_in_order z"
  let ?ys = "filter (in_time rg) (map fst (filter (\<lambda>(m, s). after rg s) ?zs))"
  have set: "set ?zs = set z" by (simp add: entries_in_order_def)
  have score: "s = le_sequence e" if "(e, s) \<in> set ?zs" for e s using assms(1) that unfolding set log_ok_def by blast
  have d: "distinct (map le_sequence (map fst z))" using assms(1) by (simp add: log_ok_def)
  have "mset (map le_sequence (map fst ?zs)) = mset (map le_sequence (map fst z))" by (simp add: entries_in_order_def)
  then have dz: "distinct (map le_sequence (map fst ?zs))" using d by (metis mset_eq_imp_distinct_iff)
  have eq: "map snd ?zs = map le_sequence (map fst ?zs)" using score by auto
  have "sorted (map snd ?zs)" by (simp add: entries_in_order_def)
  then have sz: "sorted (map le_sequence (map fst ?zs))" unfolding eq .
  have "sorted (map (\<lambda>p. le_sequence (fst p)) ?zs)" "distinct (map (\<lambda>p. le_sequence (fst p)) ?zs)"
    using sz dz by (simp_all add: comp_def)
  then have "sorted (map le_sequence ?ys)" "distinct (map le_sequence ?ys)"
    by (simp_all add: filter_map comp_def sorted_map_filter distinct_map_filter)
  moreover have "in_range rg e \<longleftrightarrow> after rg (le_sequence e) \<and> in_time rg e" for e
    by (simp add: in_range_def after_def in_time_def)
  then have "set ?ys = {e \<in> ran (log_map (map fst z)). in_range rg e}"
    unfolding ran_log_map [OF d] using score set by (force simp: image_iff)
  ultimately show ?thesis unfolding listing_def
    by (intro exI [of _ ?ys]) (simp add: log_pages_eq assms(2) distinct_map)
qed

lemma pending_listing_redis:
  assumes "outbox_ok z rows"
  shows "listing ob_sequence {row \<in> ran (outbox_view rows att err). ob_status row = Pending} (Some n)
    (List.map_filter (\<lambda>i. map_option (merged (map_of att i) (map_of err i)) (map_of rows i)) (zrange None 0 n (ids_in_order z)))"
proof -
  let ?zs = "ids_in_order z" and ?ov = "outbox_view rows att err"
  let ?g = "\<lambda>p. the (?ov (fst p))"
  have ms: "mset ?zs = mset z" by (simp add: ids_in_order_def)
  then have set: "set ?zs = set z" by (rule mset_eq_setD)
  have dz: "distinct (map fst ?zs)" using assms ms by (metis mset_map mset_eq_imp_distinct_iff outbox_ok_def)
  have row: "\<exists>row. map_of rows i = Some row \<and> ?ov i = Some (merged (map_of att i) (map_of err i) row) \<and> ob_status row = Pending
      \<and> ob_sequence row = s \<and> ob_eventId row = i" if "(i, s) \<in> set ?zs" for i s
  proof -
    have "distinct (map fst z)" using assms by (simp add: outbox_ok_def)
    then have "map_of z i = Some s" using that set by simp
    then obtain row where "map_of rows i = Some row" "score row = Some s" using assms by (auto simp: outbox_ok_def bind_eq_Some_conv)
    moreover have "ob_eventId row = i" using assms map_of_SomeD [OF \<open>map_of rows i = Some row\<close>] by (auto simp: outbox_ok_def keyed_def)
    ultimately show ?thesis by (auto simp: outbox_view_def score_def split: if_splits)
  qed
  have "map ob_sequence (map ?g ?zs) = map snd ?zs" using row by (fastforce simp: comp_def)
  moreover have "sorted (map snd ?zs)" by (simp add: ids_in_order_def)
  ultimately have sorted: "sorted (map ob_sequence (map ?g ?zs))" by (simp only:)
  have "map ob_eventId (map ?g ?zs) = map fst ?zs" using row by (fastforce simp: comp_def)
  then have "distinct (map ob_eventId (map ?g ?zs))" using dz by (simp only:)
  then have distinct: "distinct (map ?g ?zs)" unfolding distinct_map [of ob_eventId] by blast
  have sub: "set (map ?g ?zs) \<subseteq> {row \<in> ran ?ov. ob_status row = Pending}" using row by (fastforce simp: ran_def)
  have "r \<in> set (map ?g ?zs)" if r: "r \<in> ran ?ov" "ob_status r = Pending" for r
  proof -
    obtain i where i: "?ov i = Some r" using r(1) by (auto simp: ran_def)
    then obtain row where "map_of rows i = Some row" "ob_status row = Pending" using r(2) by (auto simp: outbox_view_def)
    then have "map_of z i = Some (ob_sequence row)" using assms by (simp add: outbox_ok_def score_def)
    then have "(i, ob_sequence row) \<in> set ?zs" unfolding set by (rule map_of_SomeD)
    then show ?thesis using i by force
  qed
  then have all: "set (map ?g ?zs) = {row \<in> ran ?ov. ob_status row = Pending}" using sub by blast
  have each: "List.map_filter ?ov (map fst xs) = map ?g xs" if "set xs \<subseteq> set ?zs" for xs
    using that
  proof (induction xs)
    case (Cons x xs)
    then show ?case using row [of "fst x" "snd x"] by (auto simp: List.map_filter_simps)
  qed (simp add: List.map_filter_simps)
  have "zrange None 0 n ?zs = map fst (take n ?zs)" by (simp add: zrange_def)
  then have "List.map_filter ?ov (zrange None 0 n ?zs) = take n (map ?g ?zs)"
    using each [of "take n ?zs"] set_take_subset [of n ?zs] by (simp add: take_map)
  then show ?thesis unfolding listing_def outbox_view_def [symmetric]
    by (intro exI [of _ "map ?g ?zs"]) (use sorted distinct all in \<open>simp add: outbox_view_def\<close>)
qed

lemma redis_reads:
  assumes "redis_ok pfx r"
  shows "\<exists>a. redis_read pfx qu key r = Inr a \<and> answers qu (redis_view pfx r key) a"
proof -
  let ?d = "data_of pfx r key"
  have ok: "data_ok ?d" using assms by (simp add: redis_ok_def)
  have parts: "r_meta r (redis_key pfx key SMeta) = kd_meta ?d" "r_state r (redis_key pfx key SState) = kd_state ?d"
    "r_items r (redis_key pfx key SItems) = kd_items ?d" "r_outbox r (redis_key pfx key SOutbox) = kd_outbox ?d"
    "r_rows r (redis_key pfx key SRows) = kd_rows ?d" "r_attempts r (redis_key pfx key SAttempts) = kd_attempts ?d"
    "r_errors r (redis_key pfx key SErrors) = kd_errors ?d" "r_parked r (redis_key pfx key SParked) = kd_parked ?d"
    "r_hold r (redis_key pfx key SHold) = kd_hold ?d" "r_validators r (redis_key pfx key SValidators) = kd_validators ?d"
    "r_log r (redis_key pfx key SLog) = kd_log ?d" by (simp_all add: data_of_def)
  note views = redis_view_def data_view_def getsE_def parts
  show ?thesis
  proof (cases qu)
    case QLease
    then show ?thesis by (simp add: views redis_getLease_def meta_lease_def Let_def)
  next
    case QState
    then show ?thesis by (simp add: views redis_loadState_def)
  next
    case (QVersions ids)
    then show ?thesis by (simp add: views redis_loadVersions_def versions_restrict [symmetric])
  next
    case QCountItems
    then show ?thesis using ok by (simp add: views redis_countItems_def card_keys data_ok_def)
  next
    case (QPending n)
    have "outbox_ok (kd_outbox ?d) (kd_rows ?d)" using ok by (simp add: data_ok_def)
    from pending_listing_redis [OF this, of "kd_attempts ?d" "kd_errors ?d" n] show ?thesis
      by (cases "n = 0") (auto simp: QPending views redis_loadPending_def retE_def listing_def zrange_def List.map_filter_simps)
  next
    case QCountPending
    have z: "map_of (kd_outbox ?d) i = Option.bind (map_of (kd_rows ?d) i) score" for i
      using ok by (simp add: data_ok_def outbox_ok_def)
    have "(\<exists>row. outbox_view (kd_rows ?d) (kd_attempts ?d) (kd_errors ?d) i = Some row \<and> ob_status row = Pending)
        \<longleftrightarrow> map_of (kd_outbox ?d) i \<noteq> None" for i
      by (cases "map_of (kd_rows ?d) i") (simp_all add: z outbox_view_def score_def)
    then have "{i. \<exists>row. outbox_view (kd_rows ?d) (kd_attempts ?d) (kd_errors ?d) i = Some row \<and> ob_status row = Pending} = dom (map_of (kd_outbox ?d))"
      by (simp add: dom_def)
    then show ?thesis using ok by (simp add: QCountPending views redis_countPending_def card_keys data_ok_def outbox_ok_def)
  next
    case (QParked kind n)
    have "rec_tables ((fresh_record key)\<lparr>kr_parked := kd_parked ?d\<rparr>)"
      using ok by (simp add: rec_tables_def data_ok_def hold_ok_def fresh_record_def)
    from parked_listing [OF this, of kind n] show ?thesis by (simp add: QParked views redis_listParked_def)
  next
    case QCountParked
    then show ?thesis using ok by (simp add: views redis_countParked_def card_keys data_ok_def hold_ok_def)
  next
    case QHeld
    have "set (map snd (kd_hold ?d)) = ran (map_of (kd_hold ?d))" using ok by (simp add: data_ok_def hold_ok_def ran_distinct)
    also have "\<dots> = {h. \<exists>row \<in> ran (map_of (kd_parked ?d)). pk_holdKey row = Some h}"
      using ok by (auto simp: data_ok_def hold_ok_def ran_def bind_eq_Some_conv)
    finally show ?thesis by (simp add: QHeld views redis_heldKeys_def)
  next
    case (QValidator h)
    then show ?thesis by (simp add: views redis_getValidator_def)
  next
    case (QLog rg n)
    have "log_ok (kd_log ?d)" using ok by (simp add: data_ok_def)
    from log_listing_redis [OF this, of n rg] show ?thesis
    proof (cases "n = 0")
      case True
      have d: "distinct (map le_sequence (map fst (kd_log ?d)))" using \<open>log_ok _\<close> by (simp add: log_ok_def)
      have "rec_tables ((fresh_record key)\<lparr>kr_log := map fst (kd_log ?d)\<rparr>)" using d by (simp add: rec_tables_def fresh_record_def)
      from log_listing [OF this, of rg 0] show ?thesis using True by (simp add: QLog views redis_readLog_def retE_def)
    qed (simp add: QLog views redis_readLog_def)
  qed
qed

section \<open>The instance\<close>

lemma redis_store_instance: "state_store (redis_step pfx) (redis_read pfx) (redis_view pfx) (redis_ok pfx) empty_redis"
proof
  fix r c res r'
  assume "redis_ok pfx r" "admissible c (redis_view pfx r (cmd_key c))" "redis_step pfx c r = (res, r')"
  then show "redis_ok pfx r' \<and> spec_step c (redis_view pfx r) = (res, redis_view pfx r')"
    using redis_contract [of pfx r c] by (simp add: obeys_def)
qed (simp_all add: empty_redis_ok redis_reads)

interpretation redis: state_store "redis_step (new_redisPrefix None)" "redis_read (new_redisPrefix None)"
    "redis_view (new_redisPrefix None)" "redis_ok (new_redisPrefix None)" empty_redis
  by (rule redis_store_instance)



end
