(* ===== verification/Redis_Scan.thy ===== *)
theory Redis_Scan
  imports Redis_Store
begin

text \<open>
  \<^verbatim>\<open>RedisStore.streamIdentities\<close>: an \<^verbatim>\<open>HSCAN\<close> may return a field several times and a page of any length; the method
  passes every identity on once, in batches of the requested size. The pages that the server returns are a
  parameter.
\<close>

fun unseen :: "string list \<Rightarrow> string list \<Rightarrow> string list" where
  "unseen seen [] = []"
| "unseen seen (i # is) = (if i \<in> set seen then unseen seen is else i # unseen (i # seen) is)"

text \<open>\<^verbatim>\<open>while (buffer.length >= size) { yield buffer.slice(0, size); buffer = buffer.slice(size); }\<close>\<close>

function full_batches :: "nat \<Rightarrow> 'a list \<Rightarrow> 'a list list \<times> 'a list" where
  "full_batches sz buffer =
     (if sz = 0 \<or> length buffer < sz then ([], buffer)
      else case full_batches sz (drop sz buffer) of (out, rest) \<Rightarrow> (take sz buffer # out, rest))"
  by pat_completeness auto
termination
  by (relation "measure (\<lambda>(n, xs). length xs)") auto

declare full_batches.simps [simp del]

fun scan_pages :: "nat \<Rightarrow> string list list \<Rightarrow> string list \<Rightarrow> string list \<Rightarrow> string list list" where
  "scan_pages sz [] seen buffer = (if buffer = [] then [] else [buffer])"
| "scan_pages sz (page # pages) seen buffer =
     (let fields = unseen seen page in
      case full_batches sz (buffer @ fields) of
        (out, rest) \<Rightarrow> out @ scan_pages sz pages (fields @ seen) rest)"

definition redis_streamIdentities :: "string list list \<Rightarrow> number \<Rightarrow> string list list" where
  "redis_streamIdentities pages batchSize = scan_pages (nat \<lfloor>max 1 (js_floor batchSize)\<rfloor>) pages [] []"

lemma unseen_set: "set (unseen seen is) = set is - set seen"
  by (induction seen "is" rule: unseen.induct) auto

lemma unseen_distinct: "distinct (unseen seen is)"
  by (induction seen "is" rule: unseen.induct) (auto simp: unseen_set)

lemma full_batches_facts:
  "0 < n \<Longrightarrow> concat (fst (full_batches n xs)) @ snd (full_batches n xs) = xs
     \<and> list_all (\<lambda>b. length b = n) (fst (full_batches n xs)) \<and> length (snd (full_batches n xs)) < n"
proof (induction n xs rule: full_batches.induct)
  case (1 n xs)
  show ?case
  proof (cases "length xs < n")
    case True
    then show ?thesis by (simp add: full_batches.simps [of n xs])
  next
    case False
    then have step: "full_batches n xs = (take n xs # fst (full_batches n (drop n xs)), snd (full_batches n (drop n xs)))"
      using "1.prems" by (subst full_batches.simps) (simp add: split_beta)
    show ?thesis using "1.IH" "1.prems" False by (simp add: step)
  qed
qed

lemma scan_pages_facts:
  assumes "0 < n" "length buffer < n"
  shows "\<exists>fields. concat (scan_pages n pages seen buffer) = buffer @ fields \<and> distinct fields \<and> set fields = \<Union> (set ` set pages) - set seen
     \<and> list_all (\<lambda>b. length b = n) (butlast (scan_pages n pages seen buffer))
     \<and> list_all (\<lambda>b. b \<noteq> [] \<and> length b \<le> n) (scan_pages n pages seen buffer)"
  using assms(2)
proof (induction pages arbitrary: seen buffer)
  case (Cons page pages)
  let ?new = "unseen seen page"
  let ?out = "fst (full_batches n (buffer @ ?new))" and ?rest = "snd (full_batches n (buffer @ ?new))"
  note full = full_batches_facts [OF assms(1), of "buffer @ ?new"]
  obtain fields where f: "concat (scan_pages n pages (?new @ seen) ?rest) = ?rest @ fields" "distinct fields"
    "set fields = \<Union> (set ` set pages) - set (?new @ seen)"
    "list_all (\<lambda>b. length b = n) (butlast (scan_pages n pages (?new @ seen) ?rest))"
    "list_all (\<lambda>b. b \<noteq> [] \<and> length b \<le> n) (scan_pages n pages (?new @ seen) ?rest)"
    using Cons.IH [of ?rest "?new @ seen"] full by blast
  have eq: "scan_pages n (page # pages) seen buffer = ?out @ scan_pages n pages (?new @ seen) ?rest"
    by (simp add: Let_def split_beta)
  have "concat (scan_pages n (page # pages) seen buffer) = buffer @ (?new @ fields)"
    using full f(1) unfolding eq by (metis append.assoc concat_append)
  moreover have "distinct (?new @ fields)" using f(2,3) unseen_distinct by auto
  moreover have "set (?new @ fields) = \<Union> (set ` set (page # pages)) - set seen" using f(3) by (auto simp: unseen_set)
  moreover have "list_all (\<lambda>b. b \<noteq> [] \<and> length b \<le> n) (scan_pages n (page # pages) seen buffer)"
    using full f(5) assms(1) unfolding eq by (fastforce simp: list_all_iff)
  moreover have "list_all (\<lambda>b. length b = n) (butlast (scan_pages n (page # pages) seen buffer))"
    using full f(4) unfolding eq by (auto simp: list_all_iff butlast_append dest: in_set_butlastD)
  ultimately show ?case by blast
qed (use assms(1) in \<open>simp add: list_all_iff\<close>)

lemma redis_stream_visits_once:
  "let ids = concat (redis_streamIdentities pages batchSize) in
    distinct ids \<and> set ids = \<Union> (set ` set pages)
    \<and> list_all (\<lambda>b. length b = nat \<lfloor>max 1 (js_floor batchSize)\<rfloor>) (butlast (redis_streamIdentities pages batchSize))"
proof -
  have one: "1 \<le> max 1 (js_floor batchSize)" by simp
  have "0 < nat \<lfloor>max 1 (js_floor batchSize)\<rfloor>" using one by linarith
  from scan_pages_facts [OF this, of "[]" pages "[]"] this show ?thesis
    by (auto simp: redis_streamIdentities_def Let_def simp del: set_concat)
qed

end
