(* ===== verification/Redis_Budget.thy ===== *)
theory Redis_Budget
  imports Budget_Store Redis_Keys
begin

text \<open>
  \<^verbatim>\<open>src/stores/redis/redis-budget.ts\<close> and the script \<^verbatim>\<open>BUDGET_TAKE\<close> of \<^verbatim>\<open>scripts.ts\<close>: the token bucket that engine
  instances share through Redis, and the proof that it answers like the in-memory one. Numbers are exact: the
  script prints doubles with all their digits.
\<close>

section \<open>The script\<close>

text \<open>The hash of a bucket; a hash that does not exist has no fields.\<close>

record bucket_hash =
  bh_scaled :: "number option"
  bh_updated_at :: "number option"

type_synonym bucket_keys = "string \<Rightarrow> bucket_hash"

definition no_bucket :: bucket_hash where
  "no_bucket = \<lparr>bh_scaled = None, bh_updated_at = None\<rparr>"

text \<open>\<^verbatim>\<open>refill(capacityTokens)\<close>: the contents and the time they hold for. A hash with contents and no time, which the
  script never writes, makes it fail.\<close>

definition script_refill :: "number \<Rightarrow> number \<Rightarrow> number \<Rightarrow> number \<Rightarrow> number \<Rightarrow> bucket_hash \<Rightarrow> thrown + (number \<times> number)" where
  "script_refill requests perMs burst now capacityTokens h =
     (let cap = capacityTokens * perMs in
      case bh_scaled h of
        None \<Rightarrow> Inr (min cap (burst * perMs), now)
      | Some scaled \<Rightarrow>
          (case bh_updated_at h of
             None \<Rightarrow> Inl (watukuyError STORE ''redis EVAL failed'')
           | Some updated \<Rightarrow>
               let elapsed = now - updated in
               if elapsed > 0 then Inr (min cap (scaled + elapsed * requests), now)
               else if scaled > cap then Inr (cap, updated)
               else Inr (scaled, updated)))"

definition script_save :: "string \<Rightarrow> number \<Rightarrow> number \<Rightarrow> (bucket_keys, thrown, unit) io" where
  "script_save key scaled updated = modifyE (\<lambda>r. r(key := \<lparr>bh_scaled = Some scaled, bh_updated_at = Some updated\<rparr>))"

text \<open>The reply \<^verbatim>\<open>{'1', remaining}\<close> or \<^verbatim>\<open>{'0', retryInMs}\<close>.\<close>

definition BUDGET_TAKE :: "string \<Rightarrow> number \<Rightarrow> number \<Rightarrow> number \<Rightarrow> number \<Rightarrow> number \<Rightarrow> (bucket_keys, thrown, string \<times> number) io" where
  "BUDGET_TAKE key cost requests perMs burst now =
     bindE (getsE (\<lambda>r. r key)) (\<lambda>h.
     if \<not> cost > 0 then
       (case script_refill requests perMs burst now burst h of
          Inl e \<Rightarrow> throwE e
        | Inr (scaled, updated) \<Rightarrow>
            bindE (script_save key scaled updated) (\<lambda>_. retE (''1'', scaled / perMs)))
     else
       let capacity = max burst cost in
       (case script_refill requests perMs burst now capacity h of
          Inl e \<Rightarrow> throwE e
        | Inr (scaled, updated) \<Rightarrow>
            let need = cost * perMs in
            if scaled + EPSILON \<ge> need then
              let scaled = max 0 (scaled - need) in
              bindE (script_save key scaled updated) (\<lambda>_. retE (''1'', scaled / perMs))
            else
              bindE (script_save key scaled updated) (\<lambda>_.
              let deficit = need - scaled; retry = max 1 (js_ceil (deficit / requests - EPSILON)) in
              retE (''0'', retry))))"

section \<open>The store\<close>

definition budget_run :: "string \<Rightarrow> string \<Rightarrow> number \<Rightarrow> budget_policy \<Rightarrow> number \<Rightarrow> (bucket_keys, thrown, bool \<times> number) io" where
  "budget_run pfx name cost policy now =
     bindE (BUDGET_TAKE (bucketKey pfx name) cost (bp_requests policy) (bp_perMs policy) (bp_burst policy) now) (\<lambda>(ok, v).
     retE (ok = ''1'', v))"

definition redis_take :: "string \<Rightarrow> string \<Rightarrow> number \<Rightarrow> budget_policy \<Rightarrow> number \<Rightarrow> (bucket_keys, thrown, take_result) io" where
  "redis_take pfx name cost policy now =
     bindE (budget_run pfx name cost policy now) (\<lambda>(ok, v). retE (if ok then Taken v else Retry v))"

definition redis_peek :: "string \<Rightarrow> string \<Rightarrow> budget_policy \<Rightarrow> number \<Rightarrow> (bucket_keys, thrown, number) io" where
  "redis_peek pfx name policy now = bindE (budget_run pfx name 0 policy now) (\<lambda>(_, v). retE v)"

definition redis_reset :: "string \<Rightarrow> string \<Rightarrow> (bucket_keys, thrown, unit) io" where
  "redis_reset pfx name = modifyE (\<lambda>r. r(bucketKey pfx name := no_bucket))"

section \<open>Agreement with the in-memory buckets\<close>

lemma bucketKey_inj: "bucketKey pfx name = bucketKey pfx name' \<longleftrightarrow> name = name'"
  by (simp add: bucketKey_def encodeURIComponent_inj)

definition bucket_of :: "bucket_hash \<Rightarrow> bucket option" where
  "bucket_of h = (case (bh_scaled h, bh_updated_at h) of (Some s, Some u) \<Rightarrow> Some \<lparr>bk_scaled = s, bk_updatedAt = u\<rparr> | _ \<Rightarrow> None)"

definition same_buckets :: "string \<Rightarrow> bucket_keys \<Rightarrow> buckets \<Rightarrow> bool" where
  "same_buckets pfx r bs \<longleftrightarrow> (\<forall>name. (case map_of bs name of
     None \<Rightarrow> r (bucketKey pfx name) = no_bucket
   | Some b \<Rightarrow> r (bucketKey pfx name) = \<lparr>bh_scaled = Some (bk_scaled b), bh_updated_at = Some (bk_updatedAt b)\<rparr>))"

lemma same_empty: "same_buckets pfx (\<lambda>_. no_bucket) []"
  by (simp add: same_buckets_def)

lemma same_saved:
  "\<lbrakk> same_buckets pfx r bs; map_of bs' = (map_of bs)(name \<mapsto> b) \<rbrakk>
    \<Longrightarrow> same_buckets pfx (r(bucketKey pfx name := \<lparr>bh_scaled = Some (bk_scaled b), bh_updated_at = Some (bk_updatedAt b)\<rparr>)) bs'"
  unfolding same_buckets_def
proof
  fix name'
  assume a: "\<forall>name. case map_of bs name of None \<Rightarrow> r (bucketKey pfx name) = no_bucket
     | Some b \<Rightarrow> r (bucketKey pfx name) = \<lparr>bh_scaled = Some (bk_scaled b), bh_updated_at = Some (bk_updatedAt b)\<rparr>"
    "map_of bs' = (map_of bs)(name \<mapsto> b)"
  show "case map_of bs' name' of
      None \<Rightarrow> (r(bucketKey pfx name := \<lparr>bh_scaled = Some (bk_scaled b), bh_updated_at = Some (bk_updatedAt b)\<rparr>)) (bucketKey pfx name') = no_bucket
    | Some b' \<Rightarrow> (r(bucketKey pfx name := \<lparr>bh_scaled = Some (bk_scaled b), bh_updated_at = Some (bk_updatedAt b)\<rparr>)) (bucketKey pfx name')
        = \<lparr>bh_scaled = Some (bk_scaled b'), bh_updated_at = Some (bk_updatedAt b')\<rparr>"
    using spec [OF a(1), of name'] a(2) by (cases "name' = name"; cases "map_of bs name'") (simp_all add: bucketKey_inj)
qed

lemma refill_agrees:
  assumes "same_buckets pfx r bs" "refill name p now cap bs = (b, bs')"
  shows "script_refill (bp_requests p) (bp_perMs p) (bp_burst p) now cap (r (bucketKey pfx name)) = Inr (bk_scaled b, bk_updatedAt b)"
    "map_of bs' = (map_of bs)(name \<mapsto> b)"
proof -
  have at: "case map_of bs name of None \<Rightarrow> r (bucketKey pfx name) = no_bucket
     | Some b \<Rightarrow> r (bucketKey pfx name) = \<lparr>bh_scaled = Some (bk_scaled b), bh_updated_at = Some (bk_updatedAt b)\<rparr>"
    using assms(1) by (simp add: same_buckets_def)
  show "script_refill (bp_requests p) (bp_perMs p) (bp_burst p) now cap (r (bucketKey pfx name)) = Inr (bk_scaled b, bk_updatedAt b)"
    using at assms(2)
    by (auto simp: refill_def script_refill_def no_bucket_def Let_def split: option.splits if_splits)
  show "map_of bs' = (map_of bs)(name \<mapsto> b)"
    using assms(2) by (auto simp: refill_def Let_def split: option.splits)
qed

lemma take_agrees:
  assumes "same_buckets pfx r bs" "take_tokens name cost p now bs = (res, bs')"
  shows "\<exists>r'. redis_take pfx name cost p now r = (Inr res, r') \<and> same_buckets pfx r' bs'"
proof (cases "0 < cost")
  case False
  obtain b bs1 where b: "refill name p now (bp_burst p) bs = (b, bs1)" by (cases "refill name p now (bp_burst p) bs")
  note ref = refill_agrees [OF assms(1) b]
  have res: "res = Taken (bk_scaled b / bp_perMs p)" "bs' = bs1" using assms(2) False b by (auto simp: take_tokens_def Let_def)
  have "same_buckets pfx (r(bucketKey pfx name := \<lparr>bh_scaled = Some (bk_scaled b), bh_updated_at = Some (bk_updatedAt b)\<rparr>)) bs'"
    using same_saved [OF assms(1) ref(2)] res(2) by (simp only:)
  then show ?thesis using False ref(1) res(1)
    by (simp add: redis_take_def budget_run_def BUDGET_TAKE_def script_save_def bindE_def getsE_def modifyE_def retE_def)
next
  case True
  obtain b bs1 where b: "refill name p now (max (bp_burst p) cost) bs = (b, bs1)" by (cases "refill name p now (max (bp_burst p) cost) bs")
  note ref = refill_agrees [OF assms(1) b]
  show ?thesis
  proof (cases "bk_scaled b + EPSILON \<ge> cost * bp_perMs p")
    case enough: True
    let ?s = "max 0 (bk_scaled b - cost * bp_perMs p)"
    have res: "res = Taken (?s / bp_perMs p)" "bs' = AList.update name (b\<lparr>bk_scaled := ?s\<rparr>) bs1"
      using assms(2) True b enough by (auto simp: take_tokens_def Let_def)
    have "map_of bs' = (map_of bs)(name \<mapsto> b\<lparr>bk_scaled := ?s\<rparr>)"
      using ref(2) res(2) by simp
    from same_saved [OF assms(1) this] show ?thesis using True enough ref(1) res(1)
      by (simp add: redis_take_def budget_run_def BUDGET_TAKE_def script_save_def bindE_def getsE_def modifyE_def retE_def Let_def)
  next
    case short: False
    have res: "res = Retry (max 1 (js_ceil ((cost * bp_perMs p - bk_scaled b) / bp_requests p - EPSILON)))" "bs' = bs1"
      using assms(2) True b short by (auto simp: take_tokens_def Let_def)
    have "same_buckets pfx (r(bucketKey pfx name := \<lparr>bh_scaled = Some (bk_scaled b), bh_updated_at = Some (bk_updatedAt b)\<rparr>)) bs'"
      using same_saved [OF assms(1) ref(2)] res(2) by (simp only:)
    then show ?thesis using True short ref(1) res(1)
      by (simp add: redis_take_def budget_run_def BUDGET_TAKE_def script_save_def bindE_def getsE_def modifyE_def retE_def Let_def)
  qed
qed

lemma peek_agrees:
  assumes "same_buckets pfx r bs" "peek_tokens name p now bs = (x, bs')"
  shows "\<exists>r'. redis_peek pfx name p now r = (Inr x, r') \<and> same_buckets pfx r' bs'"
proof -
  obtain b bs1 where b: "refill name p now (bp_burst p) bs = (b, bs1)" by (cases "refill name p now (bp_burst p) bs")
  note ref = refill_agrees [OF assms(1) b]
  have res: "x = bk_scaled b / bp_perMs p" "bs' = bs1" using assms(2) b by (auto simp: peek_tokens_def)
  have "same_buckets pfx (r(bucketKey pfx name := \<lparr>bh_scaled = Some (bk_scaled b), bh_updated_at = Some (bk_updatedAt b)\<rparr>)) bs'"
    using same_saved [OF assms(1) ref(2)] res(2) by (simp only:)
  then show ?thesis using ref(1) res(1)
    by (simp add: redis_peek_def budget_run_def BUDGET_TAKE_def script_save_def bindE_def getsE_def modifyE_def retE_def)
qed

text \<open>A call of the budget port, and the answers to a sequence of calls.\<close>

datatype budget_call = BTake string number budget_policy number | BPeek string budget_policy number

datatype budget_answer = TakeAnswer take_result | PeekAnswer number

fun memory_answers :: "budget_call list \<Rightarrow> buckets \<Rightarrow> budget_answer list" where
  "memory_answers [] bs = []"
| "memory_answers (BTake name cost p now # cs) bs =
     (case take_tokens name cost p now bs of (x, bs') \<Rightarrow> TakeAnswer x # memory_answers cs bs')"
| "memory_answers (BPeek name p now # cs) bs =
     (case peek_tokens name p now bs of (x, bs') \<Rightarrow> PeekAnswer x # memory_answers cs bs')"

fun redis_answers :: "string \<Rightarrow> budget_call list \<Rightarrow> bucket_keys \<Rightarrow> (thrown + budget_answer) list" where
  "redis_answers pfx [] r = []"
| "redis_answers pfx (BTake name cost p now # cs) r =
     (case redis_take pfx name cost p now r of (x, r') \<Rightarrow> map_sum id TakeAnswer x # redis_answers pfx cs r')"
| "redis_answers pfx (BPeek name p now # cs) r =
     (case redis_peek pfx name p now r of (x, r') \<Rightarrow> map_sum id PeekAnswer x # redis_answers pfx cs r')"

lemma answers_agree: "same_buckets pfx r bs \<Longrightarrow> redis_answers pfx cs r = map Inr (memory_answers cs bs)"
proof (induction cs arbitrary: r bs)
  case (Cons c cs)
  show ?case
  proof (cases c)
    case (BTake name cost p now)
    obtain x bs' where m: "take_tokens name cost p now bs = (x, bs')" by (cases "take_tokens name cost p now bs")
    obtain r' where "redis_take pfx name cost p now r = (Inr x, r')" "same_buckets pfx r' bs'"
      using take_agrees [OF Cons.prems m] by blast
    then show ?thesis using Cons.IH by (simp add: BTake m)
  next
    case (BPeek name p now)
    obtain x bs' where m: "peek_tokens name p now bs = (x, bs')" by (cases "peek_tokens name p now bs")
    obtain r' where "redis_peek pfx name p now r = (Inr x, r')" "same_buckets pfx r' bs'"
      using peek_agrees [OF Cons.prems m] by blast
    then show ?thesis using Cons.IH by (simp add: BPeek m)
  qed
qed simp

text \<open>C38: The shared buckets in Redis answer every sequence of requests and peeks, for any names, costs, policies and
  times, exactly as the in-memory buckets do, and no request fails.\<close>

theorem redis_budget_agrees_with_memory:
  "redis_answers pfx calls (\<lambda>_. no_bucket) = map Inr (memory_answers calls [])"
  by (rule answers_agree [OF same_empty])

end
