(* ===== verification/Spec2Isabelle.thy ===== *)
theory Spec2Isabelle
  imports Engine_Ops Runner_Findings Consumers Webhook Sqlite_Store Redis_Contract Redis_Scan Redis_Budget
begin

text \<open>
  watukuy polls HTTP APIs and turns what it finds into an ordered, at-least-once stream of change events. This
  library models its core and proves what makes it correct. All paths are relative to the package's \<^verbatim>\<open>src/src\<close>.

  \<^bold>\<open>The program.\<close> The engine (\<^verbatim>\<open>core/engine.ts\<close>) knows the pollers and their partitions; a \<^verbatim>\<open>(poller, partition)\<close> is
  a key. Its daemon, a tick or an operator starts a run of a key (\<^verbatim>\<open>core/runner.ts\<close>). The run takes the lease of
  the key (kept alive by \<^verbatim>\<open>core/lease-keeper.ts\<close>), and for every lane that is due executes a cycle: it calls the
  poller's \<^verbatim>\<open>fetch\<close> page by page with a cursor (\<^verbatim>\<open>cursor/\<close>), validates (\<^verbatim>\<open>validate/\<close>) and diffs (\<^verbatim>\<open>diff/\<close>) the items
  against the stored rows, and commits rows, cursor, events and parked items in one step to a store (\<^verbatim>\<open>stores/\<close>).
  The dispatcher (\<^verbatim>\<open>core/dispatcher.ts\<close>) drains the outbox of the key to a consumer (\<^verbatim>\<open>core/consumers.ts\<close>,
  \<^verbatim>\<open>sinks/\<close>), in order within an ordering key, and the scheduler (\<^verbatim>\<open>scheduler/\<close>) plans the next poll. \<^verbatim>\<open>fetch\<close> may use
  the HTTP helper (\<^verbatim>\<open>http/\<close>) and shared rate budgets (\<^verbatim>\<open>budget/\<close>).

  \<^bold>\<open>How it is modelled.\<close> A class is a record of its fields, a method a function of the state that returns a value
  or throws (the type \<^verbatim>\<open>io\<close> of \<^verbatim>\<open>Prelude\<close>). What the program does not decide is in the record \<^verbatim>\<open>env\<close> of
  \<^verbatim>\<open>Lease_Keeper\<close>: the clock, random numbers, aborts, failures of store calls, what others write to the store
  between two awaits, when the heartbeat fires, the consumer's answers, the pages of \<^verbatim>\<open>fetch\<close> and the order in
  which concurrent workers proceed. Theorems hold for every environment, or for those that a named hypothesis
  describes. JavaScript numbers are rationals where the code computes with times and tokens, and decimal
  numerals with NaN and the infinities where it reads or prints them; strings are lists of code units below 256.

  \<^bold>\<open>Theories and sources.\<close>
  \<^item> \<^verbatim>\<open>Prelude\<close>: numbers, \<^verbatim>\<open>Map\<close> objects, stable sorting, \<^verbatim>\<open>io\<close>, the calculus \<^verbatim>\<open>preserves\<close>/\<^verbatim>\<open>yields\<close>.
  \<^item> \<^verbatim>\<open>Json\<close>, \<^verbatim>\<open>JsValue\<close>: JSON text and JavaScript values; \<^verbatim>\<open>diff/canonicalize.ts\<close>, \<^verbatim>\<open>cursor/path.ts\<close>.
  \<^item> \<^verbatim>\<open>Errors\<close>, \<^verbatim>\<open>Types\<close>, \<^verbatim>\<open>Duration\<close>: \<^verbatim>\<open>core/errors.ts\<close>, \<^verbatim>\<open>core/store-types.ts\<close>, \<^verbatim>\<open>core/event.ts\<close>, \<^verbatim>\<open>core/duration.ts\<close>.
  \<^item> \<^verbatim>\<open>EventId\<close>, \<^verbatim>\<open>Diff\<close>, \<^verbatim>\<open>Validate\<close>: event ids and hashes, the diff of a page, validation.
  \<^item> \<^verbatim>\<open>Cursor\<close>: the five cursor strategies. \<^verbatim>\<open>Poller_Config\<close>: \<^verbatim>\<open>core/define-poller.ts\<close>. \<^verbatim>\<open>Scheduler\<close>: \<^verbatim>\<open>scheduler/scheduler.ts\<close>.
  \<^item> \<^verbatim>\<open>Budget_Store\<close>, \<^verbatim>\<open>Budget_Manager\<close>: \<^verbatim>\<open>budget/\<close>, the token bucket and the fair queue of waiters.
  \<^item> \<^verbatim>\<open>Memory_Store\<close>: \<^verbatim>\<open>stores/memory/memory-store.ts\<close>, the reference store.
  \<^item> \<^verbatim>\<open>Store_Spec\<close>: the contract of the port \<^verbatim>\<open>StateStore\<close>, as maps per key, and the locale \<^verbatim>\<open>state_store\<close>;
    \<^verbatim>\<open>Store_Memory\<close>, \<^verbatim>\<open>Sql_Tables\<close> with \<^verbatim>\<open>Sqlite_Store\<close>, and \<^verbatim>\<open>Redis_Keys\<close>, \<^verbatim>\<open>Redis_Data\<close>, \<^verbatim>\<open>Redis_Store\<close>, \<^verbatim>\<open>Redis_Contract\<close>:
    the in-memory, SQLite and Redis stores (\<^verbatim>\<open>stores/sqlite/\<close>, \<^verbatim>\<open>stores/redis/\<close> with its Lua scripts), each shown to keep it.
    \<^verbatim>\<open>Redis_Scan\<close>: the scan of identities over \<^verbatim>\<open>HSCAN\<close>. \<^verbatim>\<open>Redis_Budget\<close>: the rate budgets that instances share.
  \<^item> \<^verbatim>\<open>Lease_Keeper\<close>, \<^verbatim>\<open>Dispatcher\<close>, \<^verbatim>\<open>Delivery\<close>, \<^verbatim>\<open>Consumers\<close>: the heartbeat, the drain of the outbox by a pool of workers,
    what a drain guarantees, handlers and subscriptions.
  \<^item> \<^verbatim>\<open>Runner\<close> with \<^verbatim>\<open>Runner_Safety\<close>, \<^verbatim>\<open>Runner_Progress\<close> and \<^verbatim>\<open>Runner_Findings\<close>: the run of a key, and what it can and
    cannot do to the store.
  \<^item> \<^verbatim>\<open>Engine\<close> with \<^verbatim>\<open>Engine_Daemon\<close> and \<^verbatim>\<open>Engine_Ops\<close>: the engine, its daemon as a step relation, its commands.
  \<^item> \<^verbatim>\<open>Http_Headers\<close>, \<^verbatim>\<open>Abort_Signal\<close>, \<^verbatim>\<open>Http_Client\<close>: \<^verbatim>\<open>http/\<close>.
  \<^item> \<^verbatim>\<open>Base64\<close>, \<^verbatim>\<open>Sinks\<close>, \<^verbatim>\<open>Webhook\<close>: \<^verbatim>\<open>sinks/\<close> and \<^verbatim>\<open>core/cloudevents.ts\<close>.

  \<^bold>\<open>What the lemmas show.\<close> Safety of the whole: no run and no drain loses an event, a cycle whose lease was taken
  over writes nothing, deliveries of one ordering key are in order. Progress: drains, ticks and fetch loops end,
  the daemon never forgets a key, refused budget requests are granted in time, every waiter has a wake-up.
  Refinement: applying the emitted changes reproduces the stored fingerprints; every store that is an instance of
  \<^verbatim>\<open>state_store\<close> answers like the in-memory one, and its superseded leases stay superseded. Round trips: durations,
  cursors between pages, ETags, rate-limit headers, webhook signatures. Invariants of the scheduler, the budgets,
  the subscriptions and the engine; bounds and validity of configurations; the errors that may leave a cycle.

  \<^bold>\<open>Bounds and fuel.\<close> Loops whose end depends on others carry fuel. A drain and a replay take \<^verbatim>\<open>e_fuel\<close> turns;
  \<^verbatim>\<open>drain_ends\<close> shows that the number of pending rows plus five is enough when nobody interferes. The fetch loop
  of a cycle has its page cap plus two turns, and \<^verbatim>\<open>fetch_loop_terminates\<close> shows that it never runs out. A tick has
  three turns per key, one per worker and one more, which \<^verbatim>\<open>tick_finishes\<close> shows to be enough. The page-wise scan of
  identities needs one page more than there are identities. The world records when fuel ran out (\<^verbatim>\<open>w_exhausted\<close>).

  \<^bold>\<open>Limits.\<close> A failing store call does not apply. Runs of other keys are part of what the environment does to
  the store. A rejected promise that nobody awaits is a state without the work it would have done. The time a
  \<^verbatim>\<open>fetch\<close> waits for a budget belongs to the environment. A replay has a finite bound. SHA-256, HMAC, \<^verbatim>\<open>Date.parse\<close>,
  the URL parser, UTF-8 decoding, consumers, schemas and queue clients are parameters. A JSON column is the value
  that parsing its text returns. A database statement is the operation on rows that its text asks for, a Lua script
  a function of its key names and arguments that runs alone; driver failures and lock timeouts belong to the host.

  \<^bold>\<open>Not modelled.\<close> The Postgres store (SQL run by a server, with the tables of \<^verbatim>\<open>Sql_Tables\<close>), the adapters that
  bring two Redis drivers into one form, hooks, loggers and OpenTelemetry (observers whose errors are swallowed, third-party
  APIs), the NestJS integration (glue of a framework), the command line (argument handling and printing) and the
  testing kit (test doubles).
\<close>

end
